(* ===== verification/Prelude.thy ===== *)
theory Prelude
  imports
    "HOL-Library.Char_ord" "HOL-Library.List_Lexorder" "HOL-Library.Sublist"
    "HOL-Library.Word" "HOL-Library.Monad_Syntax" "HOL-Library.Code_Target_Numeral"
begin

text \<open>
  Shared vocabulary of the development: Go strings as byte lists, the functions of Go's
  \<open>strings\<close>, \<open>sort\<close>, \<open>fmt\<close> and \<open>strconv\<close> packages the sources call, Go maps as association
  lists (their order stands for Go's unspecified iteration order), and the generic lemmas about
  them that every component uses.

  A Go \<open>string\<close> is a byte sequence, so it is a \<open>char list\<close> (an Isabelle \<open>char\<close> is a byte) and
  \<open>len\<close>, slicing and \<open><\<close> on strings are \<open>length\<close>, \<open>take\<close>/\<open>drop\<close> and the lexicographic order on
  bytes. \<open>to_lower\<close> and \<open>to_upper\<close> are the ASCII paths of \<open>strings.ToLower\<close> and
  \<open>strings.ToUpper\<close>: identifiers and module names of the metadata are ASCII.
\<close>

named_theorems go_string "facts about the modelled functions of Go's strings package"
named_theorems frame "fields an operation leaves alone"

type_synonym str = string

type_synonym 'v gomap = "(string \<times> 'v) list"

section \<open>Characters\<close>

definition byte_of :: "char \<Rightarrow> nat" where
  "byte_of c = of_char c"

definition is_lower_ascii :: "char \<Rightarrow> bool" where
  "is_lower_ascii c \<longleftrightarrow> 97 \<le> byte_of c \<and> byte_of c \<le> 122"

definition is_upper_ascii :: "char \<Rightarrow> bool" where
  "is_upper_ascii c \<longleftrightarrow> 65 \<le> byte_of c \<and> byte_of c \<le> 90"

definition is_digit_ascii :: "char \<Rightarrow> bool" where
  "is_digit_ascii c \<longleftrightarrow> 48 \<le> byte_of c \<and> byte_of c \<le> 57"

definition is_ascii :: "char \<Rightarrow> bool" where
  "is_ascii c \<longleftrightarrow> byte_of c < 128"

definition upper_char :: "char \<Rightarrow> char" where
  "upper_char c = (if is_lower_ascii c then char_of (byte_of c - 32) else c)"

definition lower_char :: "char \<Rightarrow> char" where
  "lower_char c = (if is_upper_ascii c then char_of (byte_of c + 32) else c)"

lemma byte_of_less [simp]: "byte_of c < 256"
  by (simp add: byte_of_def)

lemma byte_of_char_of [simp]: "n < 256 \<Longrightarrow> byte_of (char_of n) = n"
  by (simp add: byte_of_def)

lemma byte_of_inject [simp]: "byte_of c = byte_of d \<longleftrightarrow> c = d"
  by (simp add: byte_of_def)

lemma char_eq_byte: "c = d \<longleftrightarrow> byte_of c = byte_of d"
  by simp

lemma byte_of_Char:
  "byte_of (CHR ''_'') = 95" "byte_of (CHR ''.'') = 46" "byte_of (CHR ''-'') = 45"
  "byte_of (CHR ''0'') = 48" "byte_of (CHR ''{'') = 123" "byte_of (CHR ''}'') = 125"
  "byte_of (CHR '','') = 44" "byte_of (CHR ''/'') = 47"
  by (simp_all add: byte_of_def)

lemma byte_of_upper_char:
  "byte_of (upper_char c) = (if is_lower_ascii c then byte_of c - 32 else byte_of c)"
  by (auto simp: upper_char_def is_lower_ascii_def)

lemma byte_of_lower_char:
  "byte_of (lower_char c) = (if is_upper_ascii c then byte_of c + 32 else byte_of c)"
  by (auto simp: lower_char_def is_upper_ascii_def)

lemma upper_char_idem [simp]: "upper_char (upper_char c) = upper_char c"
  unfolding char_eq_byte [of "upper_char (upper_char c)"]
  by (auto simp: byte_of_upper_char is_lower_ascii_def)

lemma lower_char_idem [simp]: "lower_char (lower_char c) = lower_char c"
  by (simp add: char_eq_byte byte_of_lower_char is_upper_ascii_def)

lemma upper_char_underscore [simp]: "upper_char c = CHR ''_'' \<longleftrightarrow> c = CHR ''_''"
  by (auto simp: char_eq_byte byte_of_upper_char byte_of_Char is_lower_ascii_def)

lemma lower_char_dot [simp]: "lower_char c = CHR ''.'' \<longleftrightarrow> c = CHR ''.''"
  by (auto simp: char_eq_byte byte_of_lower_char byte_of_Char is_upper_ascii_def)

lemma lower_char_slash [simp]: "lower_char c = CHR ''/'' \<longleftrightarrow> c = CHR ''/''"
  by (auto simp: char_eq_byte byte_of_lower_char byte_of_Char is_upper_ascii_def)

section \<open>Strings\<close>

definition has_prefix :: "string \<Rightarrow> string \<Rightarrow> bool" where
  "has_prefix s p \<longleftrightarrow> take (length p) s = p"

definition has_suffix :: "string \<Rightarrow> string \<Rightarrow> bool" where
  "has_suffix s p \<longleftrightarrow> length p \<le> length s \<and> drop (length s - length p) s = p"

definition trim_prefix :: "string \<Rightarrow> string \<Rightarrow> string" where
  "trim_prefix s p = (if has_prefix s p then drop (length p) s else s)"

definition trim_suffix :: "string \<Rightarrow> string \<Rightarrow> string" where
  "trim_suffix s p = (if has_suffix s p then take (length s - length p) s else s)"

definition trim_left :: "char \<Rightarrow> string \<Rightarrow> string" where
  "trim_left c s = dropWhile (\<lambda>d. d = c) s"

definition trim_right_set :: "string \<Rightarrow> string \<Rightarrow> string" where
  "trim_right_set cutset s = rev (dropWhile (\<lambda>d. d \<in> set cutset) (rev s))"

definition to_lower :: "string \<Rightarrow> string" where
  "to_lower s = map lower_char s"

definition to_upper :: "string \<Rightarrow> string" where
  "to_upper s = map upper_char s"

text \<open>\<open>strings.Split\<close> at a one-byte separator: the result always has at least one part.\<close>

fun split_on :: "char \<Rightarrow> string \<Rightarrow> string list" where
  "split_on c [] = [[]]"
| "split_on c (x # xs) =
     (if x = c then [] # split_on c xs
      else (case split_on c xs of [] \<Rightarrow> [[x]] | y # ys \<Rightarrow> (x # y) # ys))"

fun join_with :: "string \<Rightarrow> string list \<Rightarrow> string" where
  "join_with sep [] = []"
| "join_with sep [x] = x"
| "join_with sep (x # y # ys) = x @ sep @ join_with sep (y # ys)"

fun contains_str :: "string \<Rightarrow> string \<Rightarrow> bool" where
  "contains_str [] p = (p = [])"
| "contains_str (x # xs) p = (has_prefix (x # xs) p \<or> contains_str xs p)"

lemma has_prefix_Nil [simp, go_string]: "has_prefix s []"
  by (simp add: has_prefix_def)

lemma has_prefix_append [simp, go_string]: "has_prefix (p @ s) p"
  by (simp add: has_prefix_def)

lemma has_prefixE: "has_prefix s p \<Longrightarrow> (\<And>t. s = p @ t \<Longrightarrow> thesis) \<Longrightarrow> thesis"
  by (metis append_take_drop_id has_prefix_def)

lemma has_prefix_iff: "has_prefix s p \<longleftrightarrow> (\<exists>t. s = p @ t)"
  by (metis has_prefixE has_prefix_append)

text \<open>For evaluation: compare character by character and stop at the first difference.\<close>

lemma has_prefix_code [code]:
  "has_prefix s [] = True" "has_prefix [] (d # ds) = False"
  "has_prefix (c # cs) (d # ds) = (if c = d then has_prefix cs ds else False)"
  by (auto simp: has_prefix_iff)

lemma trim_prefix_append [simp, go_string]: "trim_prefix (p @ s) p = s"
  by (simp add: trim_prefix_def)

lemma trim_suffix_append [simp, go_string]: "trim_suffix (s @ p) p = s"
  by (simp add: trim_suffix_def has_suffix_def)

lemma trim_left_hd: "trim_left c s \<noteq> [] \<Longrightarrow> hd (trim_left c s) \<noteq> c"
  using hd_dropWhile [of "\<lambda>d. d = c" s] by (simp add: trim_left_def)

lemma trim_left_Cons [simp]:
  "trim_left c (x # xs) = (if x = c then trim_left c xs else x # xs)"
  by (simp add: trim_left_def)

lemma trim_left_Nil [simp]: "trim_left c [] = []"
  by (simp add: trim_left_def)

lemma to_lower_Nil [simp]: "to_lower [] = []"
  and to_lower_Cons [simp]: "to_lower (x # xs) = lower_char x # to_lower xs"
  and to_lower_append [simp]: "to_lower (xs @ ys) = to_lower xs @ to_lower ys"
  by (simp_all add: to_lower_def)

lemma to_lower_idem [simp]: "to_lower (to_lower s) = to_lower s"
  by (simp add: to_lower_def)

lemma split_on_not_Nil [simp]: "split_on c s \<noteq> []"
  by (induction s) (auto split: list.splits)

lemma join_split [simp, go_string]: "join_with [c] (split_on c s) = s"
proof (induction s)
  case Nil
  then show ?case by simp
next
  case (Cons x xs)
  then obtain y ys where "split_on c xs = y # ys"
    by (metis neq_Nil_conv split_on_not_Nil)
  with Cons show ?case by (cases ys) auto
qed

lemma split_on_no_sep: "c \<notin> set s \<Longrightarrow> split_on c s = [s]"
  by (induction s) auto

lemma split_on_parts: "p \<in> set (split_on c s) \<Longrightarrow> c \<notin> set p"
  by (induction s arbitrary: p) (auto split: list.splits if_splits)

lemma split_on_append_sep: "c \<notin> set p \<Longrightarrow> split_on c (p @ c # s) = p # split_on c s"
  by (induction p) auto

lemma split_on_join:
  "ps \<noteq> [] \<Longrightarrow> (\<And>p. p \<in> set ps \<Longrightarrow> c \<notin> set p) \<Longrightarrow> split_on c (join_with [c] ps) = ps"
  by (induction "[c]" ps rule: join_with.induct) (auto simp: split_on_no_sep split_on_append_sep)

lemma contains_str_iff: "contains_str s p \<longleftrightarrow> (\<exists>a b. s = a @ p @ b)"
proof (induction s)
  case Nil
  then show ?case by simp
next
  case (Cons x xs)
  have "(\<exists>a b. x # xs = a @ p @ b) \<longleftrightarrow> (\<exists>b. x # xs = p @ b) \<or> (\<exists>a b. xs = a @ p @ b)"
    by (metis append_Cons append_eq_Cons_conv self_append_conv2)
  with Cons show ?case by (simp add: has_prefix_iff)
qed

section \<open>Numbers as text\<close>

definition digit_char :: "nat \<Rightarrow> char" where
  "digit_char d = (if d < 10 then char_of (48 + d) else char_of (87 + d))"

text \<open>\<open>strconv.FormatUint(n, base)\<close> and \<open>fmt\<close>'s \<open>%d\<close>, \<open>%x\<close>: no leading zero.\<close>

fun show_base :: "nat \<Rightarrow> nat \<Rightarrow> string" where
  "show_base b n = (if b < 2 \<or> n < b then [digit_char n]
                    else show_base b (n div b) @ [digit_char (n mod b)])"

declare show_base.simps [simp del]

definition show_nat :: "nat \<Rightarrow> string" where
  "show_nat n = show_base 10 n"

definition show_int :: "int \<Rightarrow> string" where
  "show_int i = (if i < 0 then CHR ''-'' # show_nat (nat (- i)) else show_nat (nat i))"

text \<open>\<open>fmt\<close>'s \<open>%0wx\<close>: hexadecimal, padded with zeros to at least \<open>w\<close> digits.\<close>

definition pad_left :: "nat \<Rightarrow> string \<Rightarrow> string" where
  "pad_left w s = replicate (w - length s) (CHR ''0'') @ s"

definition show_hex :: "nat \<Rightarrow> nat \<Rightarrow> string" where
  "show_hex w n = pad_left w (show_base 16 n)"

text \<open>
  \<open>strconv.Quote\<close> and \<open>fmt\<close>'s \<open>%q\<close>: the quote, the backslash and the control characters escaped. The bytes
  of non-ASCII characters stay as they are, as Go leaves printable ones.
\<close>

definition control_letters :: "(char \<times> char) list" where
  "control_letters = [(CHR 0x07, CHR ''a''), (CHR 0x08, CHR ''b''), (CHR 0x0C, CHR ''f''), (CHR 0x0A, CHR ''n''),
     (CHR 0x0D, CHR ''r''), (CHR 0x09, CHR ''t''), (CHR 0x0B, CHR ''v'')]"

definition quoted_char :: "char \<Rightarrow> string" where
  "quoted_char c =
     (if c = CHR 0x22 \<or> c = CHR 0x5C then [CHR 0x5C, c]
      else case map_of control_letters c of
        Some letter \<Rightarrow> [CHR 0x5C, letter]
      | None \<Rightarrow> if byte_of c < 0x20 \<or> byte_of c = 0x7F then CHR 0x5C # CHR ''x'' # show_hex 2 (byte_of c) else [c])"

definition quoted :: "string \<Rightarrow> string" where
  "quoted s = CHR 0x22 # concat (map quoted_char s) @ [CHR 0x22]"

text \<open>The value of a digit, and \<open>strconv.ParseUint(s, base, bits)\<close>; \<open>None\<close> is its error.\<close>

definition digit_value :: "char \<Rightarrow> nat" where
  "digit_value c =
     (if is_digit_ascii c then byte_of c - 48
      else if is_lower_ascii c then byte_of c - 87
      else if is_upper_ascii c then byte_of c - 55
      else 255)"

fun parse_digits :: "nat \<Rightarrow> nat \<Rightarrow> string \<Rightarrow> nat option" where
  "parse_digits b acc [] = Some acc"
| "parse_digits b acc (c # cs) =
     (if digit_value c < b then parse_digits b (acc * b + digit_value c) cs else None)"

definition parse_uint :: "nat \<Rightarrow> nat \<Rightarrow> string \<Rightarrow> nat option" where
  "parse_uint b bits s =
     (if s = [] then None
      else case parse_digits b 0 s of None \<Rightarrow> None
           | Some n \<Rightarrow> if n < 2 ^ bits then Some n else None)"

text \<open>\<open>strconv.ParseInt(s, 10, 64)\<close>: an optional sign, then digits, within 64 bits.\<close>

definition parse_int64 :: "string \<Rightarrow> int option" where
  "parse_int64 s =
     (let neg = (case s of c # _ \<Rightarrow> c = CHR ''-'' | [] \<Rightarrow> False);
          body = (case s of c # cs \<Rightarrow> if c = CHR ''-'' \<or> c = CHR ''+'' then cs else s | [] \<Rightarrow> [])
      in case parse_uint 10 64 body of None \<Rightarrow> None
         | Some n \<Rightarrow>
             if neg then (if n \<le> 2 ^ 63 then Some (- int n) else None)
             else (if n < 2 ^ 63 then Some (int n) else None))"

lemma digit_value_digit_char: "d < 16 \<Longrightarrow> digit_value (digit_char d) = d"
  by (auto simp: digit_value_def digit_char_def is_digit_ascii_def is_lower_ascii_def)

lemma parse_digits_append:
  "parse_digits b acc (xs @ ys) =
     (case parse_digits b acc xs of None \<Rightarrow> None | Some n \<Rightarrow> parse_digits b n ys)"
  by (induction xs arbitrary: acc) auto

lemma show_base_not_Nil [simp]: "show_base b n \<noteq> []"
  by (subst show_base.simps) simp

lemma parse_digits_show_base:
  assumes "2 \<le> b" "b \<le> 16"
  shows "parse_digits b 0 (show_base b n) = Some n"
  using assms
proof (induction b n rule: show_base.induct)
  case (1 b n)
  show ?case
  proof (cases "n < b")
    case True
    with "1.prems" show ?thesis
      by (subst show_base.simps) (simp add: digit_value_digit_char)
  next
    case False
    with "1.prems" have "parse_digits b 0 (show_base b (n div b)) = Some (n div b)"
      by (intro "1.IH") auto
    moreover have "n mod b < b" using "1.prems" by simp
    moreover from this have "digit_value (digit_char (n mod b)) = n mod b"
      using "1.prems" by (intro digit_value_digit_char) linarith
    ultimately show ?thesis
      using False "1.prems"
      by (subst show_base.simps) (simp add: parse_digits_append)
  qed
qed

lemma parse_uint_show_base:
  assumes "2 \<le> b" "b \<le> 16" "n < 2 ^ bits"
  shows "parse_uint b bits (show_base b n) = Some n"
  using assms by (simp add: parse_uint_def parse_digits_show_base)

lemma parse_digits_zeros: "0 < b \<Longrightarrow> parse_digits b 0 (replicate k (CHR ''0'') @ s) = parse_digits b 0 s"
  by (induction k) (auto simp: digit_value_def is_digit_ascii_def byte_of_Char)

lemma parse_uint_show_hex:
  "n < 2 ^ bits \<Longrightarrow> parse_uint 16 bits (show_hex w n) = Some n"
  by (simp add: parse_uint_def show_hex_def pad_left_def parse_digits_zeros parse_digits_show_base)

section \<open>Searching\<close>

lemma find_SomeD: "find P xs = Some x \<Longrightarrow> x \<in> set xs \<and> P x"
  by (induction xs) (auto split: if_splits)

lemma list_all2_member: "list_all2 P xs ys \<Longrightarrow> y \<in> set ys \<Longrightarrow> \<exists>x \<in> set xs. P x y"
  by (induction rule: list_all2_induct) auto

section \<open>Replacing\<close>

text \<open>\<open>strings.ReplaceAll\<close> for a non-empty pattern.\<close>

fun replace_all :: "string \<Rightarrow> string \<Rightarrow> string \<Rightarrow> string" where
  "replace_all old new [] = []"
| "replace_all old new (c # cs) =
     (if old \<noteq> [] \<and> has_prefix (c # cs) old then new @ replace_all old new (drop (length old - 1) cs)
      else c # replace_all old new cs)"

text \<open>\<open>strings.Replace(s, old, new, 1)\<close>: the first occurrence only.\<close>

fun replace_first :: "string \<Rightarrow> string \<Rightarrow> string \<Rightarrow> string" where
  "replace_first old new [] = (if old = [] then new else [])"
| "replace_first old new (c # cs) =
     (if has_prefix (c # cs) old then new @ drop (length old) (c # cs)
      else c # replace_first old new cs)"

text \<open>The suffixing loop of the generator: append an underscore while the name is reserved.\<close>

function avoidCollision :: "string \<Rightarrow> string list \<Rightarrow> string" where
  "avoidCollision name reserved =
     (if name \<in> set reserved then avoidCollision (name @ ''_'') reserved else name)"
  by pat_completeness auto
termination
proof (relation "measure (\<lambda>(name, reserved). card {x \<in> set reserved. length name \<le> length x})")
  fix name :: string and reserved
  assume "name \<in> set reserved"
  then have "name \<in> {x \<in> set reserved. length name \<le> length x}"
    "name \<notin> {x \<in> set reserved. length (name @ ''_'') \<le> length x}" by simp_all
  moreover have "{x \<in> set reserved. length (name @ ''_'') \<le> length x} \<subseteq> {x \<in> set reserved. length name \<le> length x}"
    by auto
  ultimately have "{x \<in> set reserved. length (name @ ''_'') \<le> length x} \<subset> {x \<in> set reserved. length name \<le> length x}"
    by blast
  then show "((name @ ''_'', reserved), name, reserved)
      \<in> measure (\<lambda>(name, reserved). card {x \<in> set reserved. length name \<le> length x})"
    by (simp add: psubset_card_mono)
qed simp

declare avoidCollision.simps [simp del]

lemma avoidCollision_not_reserved: "avoidCollision name reserved \<notin> set reserved"
proof (induction name reserved rule: avoidCollision.induct)
  case (1 name reserved)
  then show ?case by (simp add: avoidCollision.simps [of name reserved])
qed

lemma avoidCollision_prefix: "\<exists>k. avoidCollision name reserved = name @ replicate k (CHR ''_'')"
proof (induction name reserved rule: avoidCollision.induct)
  case (1 name reserved)
  show ?case
  proof (cases "name \<in> set reserved")
    case True
    with 1 obtain k where "avoidCollision (name @ ''_'') reserved = name @ ''_'' @ replicate k (CHR ''_'')" by auto
    with True show ?thesis
      by (intro exI [of _ "Suc k"]) (simp add: avoidCollision.simps [of name reserved])
  next
    case False
    then show ?thesis by (intro exI [of _ 0]) (simp add: avoidCollision.simps [of name reserved])
  qed
qed

section \<open>Ranks\<close>

text \<open>
  The number of predecessors along a relation. On an acyclic relation with finitely many sources it grows
  along the relation, so one more than their number is enough fuel for a recursion that goes down it.
\<close>

definition relation_rank :: "('a \<times> 'a) set \<Rightarrow> 'a \<Rightarrow> nat" where
  "relation_rank R k = card {x. (x, k) \<in> R\<^sup>+}"

lemma predecessors_inside: "Domain R \<subseteq> S \<Longrightarrow> {x. (x, k) \<in> R\<^sup>+} \<subseteq> S"
proof
  fix x assume "Domain R \<subseteq> S" "x \<in> {x. (x, k) \<in> R\<^sup>+}"
  then have "x \<in> Domain (R\<^sup>+)" by blast
  then show "x \<in> S" using \<open>Domain R \<subseteq> S\<close> by (simp add: trancl_domain subset_iff)
qed

lemma relation_rank_bound: "Domain R \<subseteq> S \<Longrightarrow> finite S \<Longrightarrow> relation_rank R k \<le> card S"
  unfolding relation_rank_def by (rule card_mono [OF _ predecessors_inside])

lemma relation_rank_less:
  assumes "acyclic R" "Domain R \<subseteq> S" "finite S" "(x, k) \<in> R"
  shows "relation_rank R x < relation_rank R k"
  unfolding relation_rank_def
proof (rule psubset_card_mono)
  show "finite {y. (y, k) \<in> R\<^sup>+}" using predecessors_inside [OF assms(2)] assms(3) by (rule finite_subset)
  have "{y. (y, x) \<in> R\<^sup>+} \<subseteq> {y. (y, k) \<in> R\<^sup>+}" using assms(4) by (auto intro: trancl_into_trancl)
  moreover have "x \<in> {y. (y, k) \<in> R\<^sup>+}" "x \<notin> {y. (y, x) \<in> R\<^sup>+}" using assms(1,4) by (auto simp: acyclic_def)
  ultimately show "{y. (y, x) \<in> R\<^sup>+} \<subset> {y. (y, k) \<in> R\<^sup>+}" by blast
qed

lemma card_keys_le: "card (fst ` set xs) \<le> length xs"
  using card_image_le [of "set xs" fst] card_length [of xs] by simp

end
