(* ===== verification/Naming.thy ===== *)
theory Naming
  imports Prelude
begin

text \<open>
  The Win32-to-Go naming rules of \<open>internal/codegen/naming/naming.go\<close>: exported identifiers,
  parameter names, package paths and import aliases. \<open>Export\<close> is idempotent and always yields a
  non-empty name that does not start with an underscore; \<open>ParamName\<close> never yields a reserved
  word; a package path and an import alias forget the case and (the alias) the dots.
\<close>

section \<open>Definitions\<close>

definition goReservedWords :: "string list" where
  "goReservedWords =
     [''break'', ''case'', ''chan'', ''const'', ''continue'',
      ''default'', ''defer'', ''else'', ''fallthrough'', ''for'',
      ''func'', ''go'', ''goto'', ''if'', ''import'',
      ''interface'', ''map'', ''package'', ''range'', ''return'',
      ''select'', ''struct'', ''switch'', ''type'', ''var'',
      ''any'', ''bool'', ''byte'', ''error'', ''int'',
      ''int8'', ''int16'', ''int32'', ''int64'', ''rune'',
      ''string'', ''uint'', ''uint8'', ''uint16'', ''uint32'',
      ''uint64'', ''uintptr'', ''float32'', ''float64'',
      ''true'', ''false'', ''nil'', ''len'', ''cap'',
      ''new'', ''make'', ''copy'', ''append'', ''panic'',
      ''recover'', ''print'', ''println'', ''close'', ''delete'',
      ''complex'', ''complex64'', ''complex128'', ''imag'', ''real'',
      ''min'', ''max'', ''clear'',
      ''unsafe'', ''syscall'', ''win32'', ''math'',
      ''err'', ''ret'', ''r'', ''r1'', ''r2'', ''e1'',
      ''self'']"

text \<open>
  \<open>strings.ToUpper(name[:1])\<close>: a byte below 128 is upper-cased; a lone byte of a multi-byte
  rune is invalid UTF-8, which \<open>strings.ToUpper\<close> replaces by the encoded U+FFFD.
\<close>

definition upper_first :: "char \<Rightarrow> string" where
  "upper_first c = (if is_ascii c then [upper_char c] else [CHR 0xEF, CHR 0xBF, CHR 0xBD])"

definition Export :: "string \<Rightarrow> string" where
  "Export name =
     (case trim_left (CHR ''_'') name of
        [] \<Rightarrow> ''X''
      | c # cs \<Rightarrow> upper_first c @ cs)"

definition ParamName :: "string \<Rightarrow> string" where
  "ParamName name =
     (if name = [] then ''param''
      else if name \<in> set goReservedWords then name @ ''_''
      else name)"

definition PackagePath :: "string \<Rightarrow> string" where
  "PackagePath ns = join_with ''/'' (map to_lower (split_on (CHR ''.'') ns))"

definition PackageName :: "string \<Rightarrow> string" where
  "PackageName ns = to_lower (last (split_on (CHR ''.'') ns))"

definition ImportAlias :: "string \<Rightarrow> string" where
  "ImportAlias ns =
     (let segments = split_on (CHR ''.'') ns
      in if length segments = 1 then to_lower (hd segments)
         else to_lower (join_with [] segments))"

section \<open>Exported names\<close>

lemma Export_not_Nil [simp]: "Export name \<noteq> []"
  by (auto simp: Export_def upper_first_def split: list.splits)

lemma hd_upper_first: "c \<noteq> CHR ''_'' \<Longrightarrow> hd (upper_first c @ cs) \<noteq> CHR ''_''"
  by (simp add: upper_first_def)

lemma hd_Export: "hd (Export name) \<noteq> CHR ''_''"
proof (cases "trim_left (CHR ''_'') name")
  case Nil
  then show ?thesis by (simp add: Export_def)
next
  case (Cons c cs)
  then have "c \<noteq> CHR ''_''" using trim_left_hd [of "CHR ''_''" name] by simp
  with Cons show ?thesis using hd_upper_first [of c cs] by (simp add: Export_def)
qed

lemma Export_of_exported:
  assumes "s \<noteq> []" "hd s \<noteq> CHR ''_''"
  shows "Export s = upper_first (hd s) @ tl s"
  using assms by (cases s) (simp_all add: Export_def)

lemma upper_char_ascii: "is_ascii c \<Longrightarrow> is_ascii (upper_char c)"
  by (auto simp: is_ascii_def byte_of_upper_char)

text \<open>
  The name a lone non-ASCII byte turns into starts with the non-ASCII byte 0xEF, so idempotence
  is stated for names whose first letter is ASCII.
\<close>

lemma Export_idem:
  assumes "is_ascii (hd (trim_left (CHR ''_'') name)) \<or> trim_left (CHR ''_'') name = []"
  shows "Export (Export name) = Export name"
proof (cases "trim_left (CHR ''_'') name")
  case Nil
  then have "Export name = ''X''" by (simp add: Export_def)
  moreover have "Export ''X'' = ''X''" by code_simp
  ultimately show ?thesis by simp
next
  case (Cons c cs)
  then have a: "is_ascii c" using assms by simp
  then have e: "Export name = upper_char c # cs"
    using Cons by (simp add: Export_def upper_first_def)
  have "Export (Export name) = upper_first (hd (Export name)) @ tl (Export name)"
    by (rule Export_of_exported [OF Export_not_Nil hd_Export])
  with e a show ?thesis by (simp add: upper_first_def upper_char_ascii)
qed

section \<open>Parameter names\<close>

lemma ParamName_not_Nil [simp]: "ParamName name \<noteq> []"
  by (simp add: ParamName_def)

lemma reserved_no_underscore_end: "w \<in> set goReservedWords \<Longrightarrow> w @ ''_'' \<notin> set goReservedWords"
proof -
  have "\<forall>w \<in> set goReservedWords. last w \<noteq> CHR ''_''"
    by (simp add: goReservedWords_def)
  moreover have "last (w @ ''_'') = CHR ''_''" by simp
  ultimately show "w @ ''_'' \<notin> set goReservedWords" by metis
qed

lemma ParamName_not_reserved: "ParamName name \<notin> set goReservedWords"
  by (simp add: ParamName_def reserved_no_underscore_end) (simp add: goReservedWords_def)

section \<open>Packages and aliases\<close>

lemma to_lower_join: "to_lower (join_with [] ps) = join_with [] (map to_lower ps)"
  by (induction "[] :: string" ps rule: join_with.induct) auto

lemma ImportAlias_alt:
  "ImportAlias ns = to_lower (filter (\<lambda>c. c \<noteq> CHR ''.'') ns)"
proof -
  have "join_with [] (split_on (CHR ''.'') ns) = filter (\<lambda>c. c \<noteq> CHR ''.'') ns"
  proof (induction ns)
    case Nil
    then show ?case by simp
  next
    case (Cons x xs)
    then obtain y ys where "split_on (CHR ''.'') xs = y # ys"
      by (metis neq_Nil_conv split_on_not_Nil)
    with Cons show ?case by (cases ys) auto
  qed
  moreover have "hd ss = join_with [] ss" if "length ss = Suc 0" for ss :: "string list"
    using that by (cases ss) auto
  ultimately show ?thesis by (simp add: ImportAlias_def Let_def)
qed

text \<open>The directory of a namespace: its dots become slashes, its letters lower case.\<close>

lemma PackagePath_alt:
  "PackagePath ns = map (\<lambda>c. if c = CHR ''.'' then CHR ''/'' else lower_char c) ns"
proof (induction ns)
  case Nil
  then show ?case by (simp add: PackagePath_def)
next
  case (Cons x xs)
  then obtain y ys where "split_on (CHR ''.'') xs = y # ys"
    by (metis neq_Nil_conv split_on_not_Nil)
  with Cons show ?case by (cases ys) (auto simp: PackagePath_def)
qed

lemma PackagePath_eq_iff:
  assumes "CHR ''/'' \<notin> set ns" "CHR ''/'' \<notin> set ns'"
  shows "PackagePath ns = PackagePath ns' \<longleftrightarrow> to_lower ns = to_lower ns'"
  using assms
proof (induction ns ns' rule: list_induct2')
  case (4 x xs y ys)
  then show ?case
    by (auto simp: PackagePath_alt) (metis lower_char_dot lower_char_slash)+
qed (simp_all add: PackagePath_alt)

section \<open>Properties\<close>

text \<open>
  A parameter name is never empty, never a Go keyword, predeclared identifier or name the
  generated bodies use themselves, and escaping it again changes nothing; a name that is not
  reserved is kept.
\<close>

theorem ParamName_usable:
  "ParamName name \<noteq> [] \<and> ParamName name \<notin> set goReservedWords \<and>
   ParamName (ParamName name) = ParamName name \<and>
   (ParamName name = name) = (name \<noteq> [] \<and> name \<notin> set goReservedWords)"
proof -
  have n: "ParamName name \<noteq> []" "ParamName name \<notin> set goReservedWords"
    by (simp, rule ParamName_not_reserved)
  have keep: "ParamName x = x" if "x \<noteq> []" "x \<notin> set goReservedWords" for x
    using that by (simp add: ParamName_def)
  show ?thesis using n keep by metis
qed

text \<open>
  Two namespaces are generated into one package directory exactly when they differ in
  the case of their letters only; an import alias is coarser. \<open>A.BC\<close> and \<open>AB.C\<close> have
  different packages and the same alias, so an alias does not identify its namespace.
\<close>

theorem PackagePath_unique:
  assumes "CHR ''/'' \<notin> set ns" and "CHR ''/'' \<notin> set ns'"
  shows "(PackagePath ns = PackagePath ns') = (to_lower ns = to_lower ns') \<and>
    (PackagePath ns = PackagePath ns' \<longrightarrow> ImportAlias ns = ImportAlias ns') \<and>
    PackagePath ''A.BC'' \<noteq> PackagePath ''AB.C'' \<and> ImportAlias ''A.BC'' = ImportAlias ''AB.C''"
proof -
  have "to_lower (filter (\<lambda>c. c \<noteq> CHR ''.'') xs) = filter (\<lambda>c. c \<noteq> CHR ''.'') (to_lower xs)" for xs
    using lower_char_dot by (induction xs) (auto simp: to_lower_def)
  then have "to_lower ns = to_lower ns' \<Longrightarrow> ImportAlias ns = ImportAlias ns'"
    by (simp add: ImportAlias_alt)
  moreover have "PackagePath ''A.BC'' \<noteq> PackagePath ''AB.C''" "ImportAlias ''A.BC'' = ImportAlias ''AB.C''"
    by code_simp+
  ultimately show ?thesis using PackagePath_eq_iff [OF assms] by blast
qed

lemma PackagePath_unique_witness:
  "PackagePath ''System.Com'' = PackagePath ''system.com'' \<and> ImportAlias ''System.Com'' = ImportAlias ''system.com''"
proof -
  have s: "CHR ''/'' \<notin> set ''System.Com''" "CHR ''/'' \<notin> set ''system.com''" by simp_all
  have "to_lower ''System.Com'' = to_lower ''system.com''" by code_simp
  with PackagePath_unique [OF s] show ?thesis by blast
qed

end
