(* ===== verification/Meta.thy ===== *)
theory Meta
  imports Prelude
begin

text \<open>
  The intermediate representation of the Win32 surface (\<open>internal/win32meta/model.go\<close>): one
  record per Go struct, with the Go field names behind a per-type prefix. \<open>TypeRef\<close> and \<open>Struct\<close>
  are recursive through a pointer, a slice and a map, so they are datatypes with selectors.
  Go maps are association lists with distinct keys (\<open>distinct_keys\<close>): their order is the
  iteration order, which Go leaves unspecified.
\<close>

section \<open>Type references\<close>

datatype type_ref = TypeRef
  (ref_Kind: string) (ref_Name: string) (ref_Api: string) (ref_TargetKind: string)
  (ref_Child: "type_ref option") (ref_ArrayLen: "32 word") (ref_IsConst: bool)

abbreviation Native :: "string \<Rightarrow> type_ref" where
  "Native n \<equiv> TypeRef ''Native'' n [] [] None 0 False"

abbreviation ApiRef :: "string \<Rightarrow> string \<Rightarrow> string \<Rightarrow> type_ref" where
  "ApiRef tk api n \<equiv> TypeRef ''ApiRef'' n api tk None 0 False"

abbreviation PointerTo :: "type_ref \<Rightarrow> type_ref" where
  "PointerTo c \<equiv> TypeRef ''PointerTo'' [] [] [] (Some c) 0 False"

abbreviation ArrayOf :: "32 word \<Rightarrow> type_ref \<Rightarrow> type_ref" where
  "ArrayOf n c \<equiv> TypeRef ''Array'' [] [] [] (Some c) n False"

section \<open>Declarations\<close>

record availability =
  av_Platform :: string
  av_Architectures :: "string list"
  av_DocURL :: string

abbreviation no_availability :: availability where
  "no_availability \<equiv> \<lparr>av_Platform = [], av_Architectures = [], av_DocURL = []\<rparr>"

record param =
  p_Name :: string
  p_Type :: type_ref
  p_IsIn :: bool
  p_IsOut :: bool
  p_IsOptional :: bool
  p_IsReserved :: bool
  p_IsConst :: bool
  p_IsComOutPtr :: bool
  p_IsRetVal :: bool
  p_NativeArrayCountParamIndex :: int
  p_NativeArrayCountConst :: "32 word"
  p_MemorySizeBytesParamIndex :: int
  p_IidParamIndex :: int
  p_FreeWith :: string

record function_decl =
  fn_Name :: string
  fn_DLL :: string
  fn_EntryPoint :: string
  fn_SetLastError :: bool
  fn_Return :: type_ref
  fn_Params :: "param list"
  fn_Availability :: availability
  fn_UnsuffixedName :: string
  fn_Constant :: string

record bitfield =
  bf_Name :: string
  bf_Offset :: int
  bf_Length :: int

record struct_field =
  sf_Name :: string
  sf_Type :: type_ref
  sf_Bitfields :: "bitfield list"
  sf_IsFlexibleArray :: bool

datatype struct_def = StructDef
  (st_Fields: "struct_field list") (st_IsUnion: bool)
  (st_PackingSize: "16 word") (st_Size: "32 word")
  (st_NestedTypes: "(string \<times> struct_def) list") (st_Availability: availability)
  (st_StructSizeField: string) (st_ArchVariants: "struct_def list")

record enum_member =
  em_Name :: string
  em_Value :: string

record enum_def =
  en_BaseType :: string
  en_IsFlags :: bool
  en_IsScoped :: bool
  en_Members :: "enum_member list"
  en_Availability :: availability

record constant_decl =
  cn_Name :: string
  cn_Type :: type_ref
  cn_Value :: string
  cn_ValueKind :: string
  cn_Availability :: availability

record com_method =
  cm_Name :: string
  cm_Return :: type_ref
  cm_Params :: "param list"

record com_interface =
  ci_GUID :: string
  ci_BaseInterface :: string
  ci_BaseInterfaceApi :: string
  ci_Methods :: "com_method list"
  ci_Availability :: availability

record func_pointer =
  fp_Return :: type_ref
  fp_Params :: "param list"
  fp_Availability :: availability

record typedef_def =
  td_Underlying :: type_ref
  td_IsMetadataTypedef :: bool
  td_FreeFunc :: string
  td_InvalidValues :: "string list"
  td_AlsoUsableFor :: string
  td_Availability :: availability

record namespace_meta =
  ns_Namespace :: string
  ns_SchemaVersion :: int
  ns_WinmdVersion :: string
  ns_Structs :: "struct_def gomap"
  ns_Enums :: "enum_def gomap"
  ns_Functions :: "function_decl list"
  ns_Constants :: "constant_decl list"
  ns_Interfaces :: "com_interface gomap"
  ns_Delegates :: "func_pointer gomap"
  ns_Typedefs :: "typedef_def gomap"

definition CurrentSchemaVersion :: int where
  "CurrentSchemaVersion = 3"

text \<open>The zero value of the struct, as \<open>var meta NamespaceMeta\<close> makes it.\<close>

definition empty_namespace :: "string \<Rightarrow> namespace_meta" where
  "empty_namespace n = \<lparr>ns_Namespace = n, ns_SchemaVersion = CurrentSchemaVersion,
     ns_WinmdVersion = [], ns_Structs = [], ns_Enums = [], ns_Functions = [],
     ns_Constants = [], ns_Interfaces = [], ns_Delegates = [], ns_Typedefs = []\<rparr>"

section \<open>Go maps\<close>

definition distinct_keys :: "'v gomap \<Rightarrow> bool" where
  "distinct_keys m \<longleftrightarrow> distinct (map fst m)"

text \<open>The keys in the order every emitter uses: collected, then \<open>sort.Strings\<close>.\<close>

definition sorted_keys :: "'v gomap \<Rightarrow> string list" where
  "sorted_keys m = sort (map fst m)"

lemma set_sorted_keys [simp]: "set (sorted_keys m) = fst ` set m"
  by (simp add: sorted_keys_def)

lemma sorted_sorted_keys [simp]: "sorted (sorted_keys m)"
  by (simp add: sorted_keys_def)

lemma length_sorted_keys [simp]: "length (sorted_keys m) = length m"
  by (simp add: sorted_keys_def)

lemma distinct_sorted_keys [simp]: "distinct (sorted_keys m) = distinct_keys m"
  by (simp add: sorted_keys_def distinct_keys_def)

text \<open>Emission order does not depend on the iteration order of the map.\<close>

lemma sorted_keys_determined:
  assumes "distinct_keys m" "distinct_keys m'" "map_of m = map_of m'"
  shows "sorted_keys m = sorted_keys m'"
proof (rule sorted_distinct_set_unique)
  have "dom (map_of m) = dom (map_of m')" using assms(3) by simp
  then show "set (sorted_keys m) = set (sorted_keys m')" by (simp add: dom_map_of_conv_image_fst)
qed (use assms in simp_all)

lemma map_of_keyD: "map_of m k = Some v \<Longrightarrow> k \<in> fst ` set m"
  by (auto dest: map_of_SomeD intro: image_eqI [rotated])

lemma map_of_key_iff: "(\<exists>v. map_of m k = Some v) \<longleftrightarrow> k \<in> fst ` set m"
  by (metis domIff dom_map_of_conv_image_fst not_Some_eq)

end
