(* ===== verification/Registry.thy ===== *)
theory Registry
  imports Meta
begin

text \<open>
  The cross-namespace resolution index of \<open>internal/codegen/pipeline/loader.go\<close>: \<open>LoadAll\<close> as the
  function of the namespaces \<open>ReadAll\<close> returned for each directory, the lookups, and the vtable
  slot arithmetic over base-interface chains. Index maps are association lists whose first
  binding counts, so a Go assignment \<open>index[k] = v\<close> conses.

  \<open>interface_chain\<close> is the abstract view of inheritance: the list of an interface's bases up to the
  root. \<open>VtableStartSlot\<close> is proved to be the total method count of that chain, to terminate on
  every registry (cyclic ones included, which it rejects), and to give every interface slots
  disjoint from its bases'.
\<close>

section \<open>The registry\<close>

record function_ref =
  fr_Namespace :: string
  fr_Function :: "function_decl option"

record registry =
  reg_Namespaces :: "namespace_meta list"
  reg_ByNamespace :: "namespace_meta gomap"
  reg_TypedefIndex :: "typedef_def gomap"
  reg_EnumBaseIndex :: "string gomap"
  reg_StructIndex :: "struct_def gomap"
  reg_DelegateIndex :: "func_pointer gomap"
  reg_InterfaceIndex :: "com_interface gomap"
  reg_FunctionOwner :: "function_ref gomap"

definition qual_key :: "string \<Rightarrow> string \<Rightarrow> string" where
  "qual_key api name = api @ ''.'' @ name"

definition IsExternal :: "string \<Rightarrow> bool" where
  "IsExternal namespace = False"

definition index_function :: "string \<Rightarrow> function_ref gomap \<Rightarrow> function_decl \<Rightarrow> function_ref gomap" where
  "index_function ns owners f =
     (case map_of owners (fn_Name f) of
        Some existing \<Rightarrow>
          if fr_Namespace existing = ns then owners
          else if fr_Namespace existing \<noteq> [] \<and> IsExternal (fr_Namespace existing) \<and> \<not> IsExternal ns
            then (fn_Name f, \<lparr>fr_Namespace = ns, fr_Function = Some f\<rparr>) # owners
          else if fr_Namespace existing \<noteq> [] \<and> \<not> IsExternal (fr_Namespace existing) \<and> IsExternal ns
            then owners
          else (fn_Name f, \<lparr>fr_Namespace = [], fr_Function = None\<rparr>) # owners
      | None \<Rightarrow> (fn_Name f, \<lparr>fr_Namespace = ns, fr_Function = Some f\<rparr>) # owners)"

definition index_map :: "string \<Rightarrow> ('a \<Rightarrow> 'b) \<Rightarrow> 'a gomap \<Rightarrow> 'b gomap \<Rightarrow> 'b gomap" where
  "index_map ns f entries index =
     fold (\<lambda>(name, v) acc. (qual_key ns name, f v) # acc) entries index"

definition index_namespace :: "registry \<Rightarrow> namespace_meta \<Rightarrow> registry" where
  "index_namespace r meta =
     (let ns = ns_Namespace meta in
      r\<lparr>reg_ByNamespace := (ns, meta) # reg_ByNamespace r,
        reg_FunctionOwner := fold (\<lambda>f owners. index_function ns owners f) (ns_Functions meta)
          (reg_FunctionOwner r),
        reg_TypedefIndex := index_map ns id (ns_Typedefs meta) (reg_TypedefIndex r),
        reg_EnumBaseIndex := index_map ns en_BaseType (ns_Enums meta) (reg_EnumBaseIndex r),
        reg_StructIndex := index_map ns id (ns_Structs meta) (reg_StructIndex r),
        reg_DelegateIndex := index_map ns id (ns_Delegates meta) (reg_DelegateIndex r),
        reg_InterfaceIndex := index_map ns id (ns_Interfaces meta) (reg_InterfaceIndex r)\<rparr>)"

definition empty_registry :: "namespace_meta list \<Rightarrow> registry" where
  "empty_registry namespaces = \<lparr>reg_Namespaces = namespaces, reg_ByNamespace = [],
     reg_TypedefIndex = [], reg_EnumBaseIndex = [], reg_StructIndex = [], reg_DelegateIndex = [],
     reg_InterfaceIndex = [], reg_FunctionOwner = []\<rparr>"

text \<open>\<open>LoadAll(dirs...)\<close>, with the directories already read; \<open>Inl\<close> is the returned error.\<close>

definition LoadAll :: "namespace_meta list list \<Rightarrow> string + registry" where
  "LoadAll dirs =
     (let namespaces = concat dirs in
      if namespaces = [] then Inl ''pipeline: no .w32meta.json files''
      else Inr (foldl index_namespace (empty_registry namespaces) namespaces))"

definition Typedef :: "registry \<Rightarrow> string \<Rightarrow> string \<Rightarrow> typedef_def option" where
  "Typedef r api name = map_of (reg_TypedefIndex r) (qual_key api name)"

definition Interface :: "registry \<Rightarrow> string \<Rightarrow> string \<Rightarrow> com_interface option" where
  "Interface r api name = map_of (reg_InterfaceIndex r) (qual_key api name)"

text \<open>\<open>EnumBase\<close> returns \<open>""\<close> for an unknown enum, the zero value of the missing map entry.\<close>

definition EnumBase :: "registry \<Rightarrow> string \<Rightarrow> string \<Rightarrow> string" where
  "EnumBase r api name =
     (case map_of (reg_EnumBaseIndex r) (qual_key api name) of None \<Rightarrow> [] | Some b \<Rightarrow> b)"

section \<open>Vtable slots\<close>

definition base_key :: "com_interface \<Rightarrow> string" where
  "base_key c = qual_key (ci_BaseInterfaceApi c) (ci_BaseInterface c)"

text \<open>
  The loop of \<open>VtableStartSlot\<close>: \<open>seen\<close> grows by an indexed key in every round that continues, so
  the number of indexed keys not yet seen decreases.
\<close>

function vtable_walk ::
  "com_interface gomap \<Rightarrow> string list \<Rightarrow> nat \<Rightarrow> com_interface option \<Rightarrow> nat \<times> bool" where
  "vtable_walk idx seen slot current =
     (case current of
        None \<Rightarrow> (slot, True)
      | Some c \<Rightarrow>
          if ci_BaseInterface c = [] then (slot, True)
          else if base_key c \<in> set seen then (0, False)
          else (case map_of idx (base_key c) of
                  None \<Rightarrow> (0, False)
                | Some b \<Rightarrow>
                    vtable_walk idx (base_key c # seen) (slot + length (ci_Methods b)) (Some b)))"
  by pat_completeness auto
termination
proof (relation "measure (\<lambda>(idx, seen, _). card (fst ` set idx - set seen))")
  fix idx :: "com_interface gomap" and seen and slot :: nat and current and c b :: com_interface
  assume a: "base_key c \<notin> set seen" "map_of idx (base_key c) = Some b"
  then have "base_key c \<in> fst ` set idx - set seen" by (auto dest: map_of_keyD)
  then have "card (fst ` set idx - set (base_key c # seen)) < card (fst ` set idx - set seen)"
    by (intro psubset_card_mono) auto
  then show "((idx, base_key c # seen, slot + length (ci_Methods b), Some b), idx, seen, slot, current)
      \<in> measure (\<lambda>(idx, seen, _). card (fst ` set idx - set seen))" by simp
qed simp

declare vtable_walk.simps [simp del]

definition VtableStartSlot :: "registry \<Rightarrow> string \<Rightarrow> string \<Rightarrow> nat \<times> bool" where
  "VtableStartSlot r api name =
     vtable_walk (reg_InterfaceIndex r) [] 0 (Interface r api name)"

subsection \<open>The base chain, abstractly\<close>

text \<open>\<open>interface_chain idx c bs\<close>: \<open>bs\<close> are the bases of \<open>c\<close>, nearest first, up to a root.\<close>

inductive interface_chain :: "com_interface gomap \<Rightarrow> com_interface \<Rightarrow> com_interface list \<Rightarrow> bool"
  for idx where
  root: "ci_BaseInterface c = [] \<Longrightarrow> interface_chain idx c []"
| base: "ci_BaseInterface c \<noteq> [] \<Longrightarrow> map_of idx (base_key c) = Some b \<Longrightarrow>
     interface_chain idx b bs \<Longrightarrow> interface_chain idx c (b # bs)"

code_pred (modes: i \<Rightarrow> i \<Rightarrow> o \<Rightarrow> bool) interface_chain .

inductive_cases chain_NilE: "interface_chain idx c []"
inductive_cases chain_ConsE: "interface_chain idx c (b # bs)"

definition method_count :: "com_interface list \<Rightarrow> nat" where
  "method_count bs = sum_list (map (\<lambda>b. length (ci_Methods b)) bs)"

lemma method_count_simps [simp]:
  "method_count [] = 0" "method_count (b # bs) = length (ci_Methods b) + method_count bs"
  by (simp_all add: method_count_def)

lemma chain_unique:
  "interface_chain idx c bs \<Longrightarrow> interface_chain idx c bs' \<Longrightarrow> bs = bs'"
proof (induction arbitrary: bs' rule: interface_chain.induct)
  case (root c)
  from root.prems show ?case by (cases rule: interface_chain.cases) (use root.hyps in auto)
next
  case (base c b bs)
  from base.prems obtain b' bs'' where "bs' = b' # bs''" "map_of idx (base_key c) = Some b'"
    "interface_chain idx b' bs''"
    using base.hyps(1) by (auto elim: interface_chain.cases)
  with base.hyps(2) base.IH show ?case by simp
qed

lemma vtable_walk_None [simp]: "vtable_walk idx seen slot None = (slot, True)"
  by (simp add: vtable_walk.simps [of idx seen slot None])

lemma vtable_walk_root [simp]:
  "ci_BaseInterface c = [] \<Longrightarrow> vtable_walk idx seen slot (Some c) = (slot, True)"
  by (simp add: vtable_walk.simps [of idx seen slot "Some c"])

lemma vtable_walk_cycle [simp]:
  "ci_BaseInterface c \<noteq> [] \<Longrightarrow> base_key c \<in> set seen \<Longrightarrow>
     vtable_walk idx seen slot (Some c) = (0, False)"
  by (simp add: vtable_walk.simps [of idx seen slot "Some c"])

lemma vtable_walk_dangling [simp]:
  "ci_BaseInterface c \<noteq> [] \<Longrightarrow> map_of idx (base_key c) = None \<Longrightarrow>
     vtable_walk idx seen slot (Some c) = (0, False)"
  by (simp add: vtable_walk.simps [of idx seen slot "Some c"])

lemma vtable_walk_step [simp]:
  "ci_BaseInterface c \<noteq> [] \<Longrightarrow> base_key c \<notin> set seen \<Longrightarrow> map_of idx (base_key c) = Some b \<Longrightarrow>
     vtable_walk idx seen slot (Some c) =
       vtable_walk idx (base_key c # seen) (slot + length (ci_Methods b)) (Some b)"
  by (simp add: vtable_walk.simps [of idx seen slot "Some c"])

lemma vtable_walk_SomeE:
  assumes "vtable_walk idx seen slot (Some c) = (n, True)"
  obtains "ci_BaseInterface c = []" "n = slot"
  | b where "ci_BaseInterface c \<noteq> []" "base_key c \<notin> set seen" "map_of idx (base_key c) = Some b"
      "vtable_walk idx (base_key c # seen) (slot + length (ci_Methods b)) (Some b) = (n, True)"
proof (cases "ci_BaseInterface c = []")
  case True
  with assms that(1) show ?thesis by simp
next
  case False
  with assms obtain b where b: "base_key c \<notin> set seen" "map_of idx (base_key c) = Some b"
    by (cases "base_key c \<in> set seen"; cases "map_of idx (base_key c)") auto
  with False assms that(2) show ?thesis by simp
qed

lemma vtable_walk_sound:
  "vtable_walk idx seen slot cur = (n, True) \<Longrightarrow> cur = Some c \<Longrightarrow>
     \<exists>bs. interface_chain idx c bs \<and> n = slot + method_count bs"
proof (induction idx seen slot cur arbitrary: c rule: vtable_walk.induct)
  case (1 idx seen slot cur)
  from "1.prems" have "vtable_walk idx seen slot (Some c) = (n, True)" by simp
  then show ?case
  proof (rule vtable_walk_SomeE)
    assume "ci_BaseInterface c = []" "n = slot"
    then show ?thesis by (intro exI [of _ "[]"]) (simp add: interface_chain.root)
  next
    fix b
    assume b: "ci_BaseInterface c \<noteq> []" "base_key c \<notin> set seen" "map_of idx (base_key c) = Some b"
      and w: "vtable_walk idx (base_key c # seen) (slot + length (ci_Methods b)) (Some b) = (n, True)"
    from "1.IH" [OF "1.prems"(2) b w refl] obtain bs where
      "interface_chain idx b bs" "n = slot + length (ci_Methods b) + method_count bs" by blast
    with b show ?thesis by (intro exI [of _ "b # bs"]) (simp add: interface_chain.base)
  qed
qed

text \<open>
  Completeness: the keys of a finite chain are pairwise distinct (a repeated key would make the
  chain infinite), so the \<open>seen\<close> guard never fires on one.
\<close>

fun chain_keys :: "com_interface \<Rightarrow> com_interface list \<Rightarrow> string list" where
  "chain_keys c [] = []"
| "chain_keys c (b # bs) = base_key c # chain_keys b bs"

lemma chain_suffix:
  "interface_chain idx c bs \<Longrightarrow> k \<in> set (chain_keys c bs) \<Longrightarrow>
     \<exists>b bs'. map_of idx k = Some b \<and> interface_chain idx b bs' \<and> length bs' < length bs"
proof (induction rule: interface_chain.induct)
  case (root c)
  then show ?case by simp
next
  case (base c b bs)
  then show ?case by (cases "k = base_key c") (auto intro: less_SucI)
qed

lemma chain_keys_fresh:
  assumes "interface_chain idx b bs" "map_of idx k = Some b"
  shows "k \<notin> set (chain_keys b bs)"
proof
  assume "k \<in> set (chain_keys b bs)"
  from chain_suffix [OF assms(1) this] obtain b' bs' where
    "map_of idx k = Some b'" "interface_chain idx b' bs'" "length bs' < length bs" by blast
  with assms chain_unique [of idx b bs bs'] show False by simp
qed

lemma vtable_walk_complete:
  "interface_chain idx c bs \<Longrightarrow> set (chain_keys c bs) \<inter> set seen = {} \<Longrightarrow>
     vtable_walk idx seen slot (Some c) = (slot + method_count bs, True)"
proof (induction arbitrary: seen slot rule: interface_chain.induct)
  case (root c)
  then show ?case by simp
next
  case (base c b bs)
  have "set (chain_keys b bs) \<inter> set (base_key c # seen) = {}"
    using base.prems chain_keys_fresh [OF base.hyps(3,2)] by auto
  from base.IH [OF this] base.hyps base.prems show ?case by simp
qed

lemma vtable_walk_iff:
  "vtable_walk idx [] 0 (Some c) = (n, True) \<longleftrightarrow>
     (\<exists>bs. interface_chain idx c bs \<and> n = method_count bs)"
proof
  assume "vtable_walk idx [] 0 (Some c) = (n, True)"
  from vtable_walk_sound [OF this refl] show "\<exists>bs. interface_chain idx c bs \<and> n = method_count bs"
    by simp
next
  assume "\<exists>bs. interface_chain idx c bs \<and> n = method_count bs"
  then obtain bs where "interface_chain idx c bs" "n = method_count bs" by blast
  then show "vtable_walk idx [] 0 (Some c) = (n, True)"
    using vtable_walk_complete [of idx c bs "[]" 0] by simp
qed

section \<open>Properties of the vtable slots\<close>

text \<open>
  \<^bold>\<open>C11\<close>: on every registry, cyclic ones included, \<open>VtableStartSlot\<close> returns; it succeeds on a
  known interface exactly when the interface has a finite base chain that ends in a root, and the
  slot is then the number of all inherited methods.
\<close>

theorem VtableStartSlot_chain:
  "Interface r api name = Some c \<Longrightarrow>
     (VtableStartSlot r api name = (n, True)) =
     (\<exists>bs. interface_chain (reg_InterfaceIndex r) c bs \<and> n = method_count bs)"
  by (simp add: VtableStartSlot_def vtable_walk_iff)

definition iface_method :: "string \<Rightarrow> com_method" where
  "iface_method n = \<lparr>cm_Name = n, cm_Return = Native ''Void'', cm_Params = []\<rparr>"

definition plain_interface :: "string \<Rightarrow> string \<Rightarrow> string list \<Rightarrow> com_interface" where
  "plain_interface base api ms = \<lparr>ci_GUID = [], ci_BaseInterface = base, ci_BaseInterfaceApi = api,
     ci_Methods = map iface_method ms, ci_Availability = no_availability\<rparr>"

definition sample_namespace :: namespace_meta where
  "sample_namespace = (empty_namespace ''System.Com'')\<lparr>ns_Interfaces :=
     [(''IUnknown'', plain_interface [] [] [''QueryInterface'', ''AddRef'', ''Release'']),
      (''IStream'', plain_interface ''IUnknown'' ''System.Com'' [''Read'', ''Write''])]\<rparr>"

definition sample_registry :: registry where
  "sample_registry = foldl index_namespace (empty_registry [sample_namespace]) [sample_namespace]"

lemma sample_IStream:
  "Interface sample_registry ''System.Com'' ''IStream'' =
     Some (plain_interface ''IUnknown'' ''System.Com'' [''Read'', ''Write''])"
  by code_simp

lemma sample_IUnknown:
  "Interface sample_registry ''System.Com'' ''IUnknown'' =
     Some (plain_interface [] [] [''QueryInterface'', ''AddRef'', ''Release''])"
  by code_simp

lemma VtableStartSlot_chain_witness:
  "\<exists>bs. interface_chain (reg_InterfaceIndex sample_registry)
     (plain_interface ''IUnknown'' ''System.Com'' [''Read'', ''Write'']) bs \<and> 3 = method_count bs"
proof -
  have "VtableStartSlot sample_registry ''System.Com'' ''IStream'' = (3, True)" by code_simp
  with VtableStartSlot_chain [OF sample_IStream, of 3] show ?thesis by simp
qed

text \<open>
  Inheritance never moves a slot. An interface's own methods start right after the last slot
  of its direct base, so the slots of an interface and of its bases are disjoint and every
  inherited method keeps the index it has in the base.
\<close>

theorem VtableStartSlot_after_base:
  assumes "Interface r api name = Some c"
    and "VtableStartSlot r api name = (n, True)"
    and "ci_BaseInterface c \<noteq> []"
  shows "\<exists>b m. Interface r (ci_BaseInterfaceApi c) (ci_BaseInterface c) = Some b \<and>
    VtableStartSlot r (ci_BaseInterfaceApi c) (ci_BaseInterface c) = (m, True) \<and>
    n = m + length (ci_Methods b)"
proof -
  from assms(1,2) obtain bs where bs: "interface_chain (reg_InterfaceIndex r) c bs"
    and n: "n = method_count bs"
    using VtableStartSlot_def vtable_walk_iff by auto
  from bs assms(3) obtain b bs' where b: "bs = b # bs'"
    "map_of (reg_InterfaceIndex r) (base_key c) = Some b"
    "interface_chain (reg_InterfaceIndex r) b bs'"
    by (cases rule: interface_chain.cases) auto
  have ib: "Interface r (ci_BaseInterfaceApi c) (ci_BaseInterface c) = Some b"
    using b(2) by (simp add: Interface_def base_key_def)
  with b(3) have "VtableStartSlot r (ci_BaseInterfaceApi c) (ci_BaseInterface c) =
      (method_count bs', True)"
    by (auto simp: VtableStartSlot_def vtable_walk_iff)
  with ib n b(1) show ?thesis by simp
qed

lemma VtableStartSlot_after_base_witness:
  "\<exists>b m. Interface sample_registry ''System.Com'' ''IUnknown'' = Some b \<and>
    VtableStartSlot sample_registry ''System.Com'' ''IUnknown'' = (m, True) \<and>
    3 = m + length (ci_Methods b)"
proof -
  have "VtableStartSlot sample_registry ''System.Com'' ''IStream'' = (3, True)" by code_simp
  from VtableStartSlot_after_base [OF sample_IStream this] show ?thesis
    by (simp add: plain_interface_def)
qed

section \<open>Function ownership\<close>

text \<open>The declarations of all namespaces in load order, and who owns a name among them.\<close>

definition declarations :: "namespace_meta list \<Rightarrow> (string \<times> function_decl) list" where
  "declarations nss = concat (map (\<lambda>m. map (Pair (ns_Namespace m)) (ns_Functions m)) nss)"

definition owner_spec :: "(string \<times> function_decl) list \<Rightarrow> string \<Rightarrow> function_ref option" where
  "owner_spec decls name =
     (case filter (\<lambda>(ns, f). fn_Name f = name) decls of
        [] \<Rightarrow> None
      | (ns, f) # rest \<Rightarrow>
          if list_all (\<lambda>(ns', _). ns' = ns) rest
          then Some \<lparr>fr_Namespace = ns, fr_Function = Some f\<rparr>
          else Some \<lparr>fr_Namespace = [], fr_Function = None\<rparr>)"

abbreviation index_pair :: "(string \<times> function_decl) \<Rightarrow> function_ref gomap \<Rightarrow> function_ref gomap" where
  "index_pair \<equiv> \<lambda>(ns, f) owners. index_function ns owners f"

lemma index_function_other:
  "fn_Name f \<noteq> name \<Longrightarrow> map_of (index_function ns owners f) name = map_of owners name"
  by (auto simp: index_function_def split: option.splits)

lemma owner_spec_snoc_other:
  "fn_Name f \<noteq> name \<Longrightarrow> owner_spec (decls @ [(ns, f)]) name = owner_spec decls name"
  by (simp add: owner_spec_def)

lemma index_function_same:
  assumes "map_of owners (fn_Name f) = owner_spec decls (fn_Name f)"
  shows "map_of (index_function ns owners f) (fn_Name f) = owner_spec (decls @ [(ns, f)]) (fn_Name f)"
proof (cases "filter (\<lambda>(ns, g). fn_Name g = fn_Name f) decls")
  case Nil
  then show ?thesis using assms by (simp add: index_function_def owner_spec_def)
next
  case (Cons d rest)
  obtain ns0 f0 where "d = (ns0, f0)" by fastforce
  then show ?thesis using assms Cons
    by (simp add: index_function_def owner_spec_def IsExternal_def)
qed

lemma fold_index_pair:
  "map_of (fold index_pair decls []) name = owner_spec decls name"
proof (induction decls rule: rev_induct)
  case Nil
  then show ?case by (simp add: owner_spec_def)
next
  case (snoc d decls)
  obtain ns f where d: "d = (ns, f)" by fastforce
  show ?case
  proof (cases "fn_Name f = name")
    case True
    then show ?thesis using snoc d index_function_same [of _ f decls ns] by simp
  next
    case False
    then show ?thesis using snoc d by (simp add: index_function_other owner_spec_snoc_other)
  qed
qed

lemma foldl_index_owner:
  "reg_FunctionOwner (foldl index_namespace r nss) =
     fold index_pair (declarations nss) (reg_FunctionOwner r)"
proof (induction nss arbitrary: r)
  case Nil
  then show ?case by (simp add: declarations_def)
next
  case (Cons m nss)
  have "fold index_pair (map (Pair (ns_Namespace m)) (ns_Functions m)) =
      fold (\<lambda>f owners. index_function (ns_Namespace m) owners f) (ns_Functions m)"
    by (simp add: fold_map comp_def)
  with Cons show ?case
    by (simp add: declarations_def index_namespace_def Let_def)
qed

text \<open>
  \<^bold>\<open>C12\<close>: after \<open>LoadAll\<close> the owner of a function name is its first declaration when all its
  declarations are in one namespace, and the ambiguous reference (no definition, so no handle
  closer is emitted for it) when two namespaces declare it.
\<close>

theorem LoadAll_function_owner:
  assumes "LoadAll dirs = Inr r"
  shows "map_of (reg_FunctionOwner r) name = owner_spec (declarations (concat dirs)) name"
proof -
  from assms have "r = foldl index_namespace (empty_registry (concat dirs)) (concat dirs)"
    by (auto simp: LoadAll_def Let_def split: if_splits)
  then show ?thesis
    by (simp add: foldl_index_owner fold_index_pair) (simp add: empty_registry_def fold_index_pair)
qed

definition sample_function :: "string \<Rightarrow> string \<Rightarrow> function_decl" where
  "sample_function n dll = \<lparr>fn_Name = n, fn_DLL = dll, fn_EntryPoint = [], fn_SetLastError = False,
     fn_Return = Native ''Void'', fn_Params = [], fn_Availability = no_availability,
     fn_UnsuffixedName = [], fn_Constant = []\<rparr>"

lemma LoadAll_function_owner_witness:
  "let f = sample_function ''CloseHandle'' ''KERNEL32.dll'';
       a = (empty_namespace ''A'')\<lparr>ns_Functions := [f]\<rparr>;
       b = (empty_namespace ''B'')\<lparr>ns_Functions := [f]\<rparr>;
       r = foldl index_namespace (empty_registry [a, b]) [a, b]
   in LoadAll [[a], [b]] = Inr r \<and>
      map_of (reg_FunctionOwner r) ''CloseHandle'' = Some \<lparr>fr_Namespace = [], fr_Function = None\<rparr>"
proof -
  define f where "f = sample_function ''CloseHandle'' ''KERNEL32.dll''"
  define a where "a = (empty_namespace ''A'')\<lparr>ns_Functions := [f]\<rparr>"
  define b where "b = (empty_namespace ''B'')\<lparr>ns_Functions := [f]\<rparr>"
  have load: "LoadAll [[a], [b]] = Inr (foldl index_namespace (empty_registry [a, b]) [a, b])"
    by (simp add: LoadAll_def)
  have "owner_spec (declarations (concat [[a], [b]])) ''CloseHandle'' =
      Some \<lparr>fr_Namespace = [], fr_Function = None\<rparr>"
    by (simp add: owner_spec_def declarations_def a_def b_def f_def sample_function_def
        empty_namespace_def)
  with LoadAll_function_owner [OF load, of "''CloseHandle''"] load show ?thesis
    by (simp add: Let_def a_def b_def f_def)
qed

end
