(* ===== verification/Cycles.thy ===== *)
theory Cycles
  imports Registry "HOL-Library.AList" "HOL-Library.Multiset"
begin

text \<open>
  The import-cycle breaker of \<open>internal/codegen/pipeline/cycles.go\<close>: the reference walk over a
  namespace, the weighted edge graph, the depth-first cycle search, the choice of the lightest
  edge of a cycle and the loop that severs edges until no cycle is left.

  The graph is a map from source namespaces to maps from target namespaces to weights. The
  recursion depth of the search is a fuel argument; \<open>findCycle\<close> supplies one unit per node and
  one more, and \<open>search_cycle_total\<close> shows this is always enough, because the nodes on the stack
  are distinct.

  The interface \<open>cycle_breaker\<close> states what the severing loop needs of the search and of the edge
  choice; its lemmas (the rest is acyclic, only edges on a cycle are severed) are proved once in
  the locale and used through its interpretation on the model's own functions.
\<close>

section \<open>Walking the references of a namespace\<close>

function walk_ref :: "type_ref \<Rightarrow> type_ref list" where
  "walk_ref ref = ref # (case ref_Child ref of None \<Rightarrow> [] | Some c \<Rightarrow> walk_ref c)"
  by pat_completeness auto
termination
proof (relation "measure size")
  fix ref c assume "ref_Child ref = Some c"
  then show "(c, ref) \<in> measure size" by (cases ref) auto
qed simp

declare walk_ref.simps [simp del]

lemma walk_ref_TypeRef [simp]:
  "walk_ref (TypeRef k n a tk c l i) =
     TypeRef k n a tk c l i # (case c of None \<Rightarrow> [] | Some d \<Rightarrow> walk_ref d)"
  by (simp add: walk_ref.simps [of "TypeRef k n a tk c l i"])

fun walk_struct :: "struct_def \<Rightarrow> type_ref list" where
  "walk_struct (StructDef fs u p sz nested av ssf variants) =
     concat (map (\<lambda>f. walk_ref (sf_Type f)) fs) @
     concat (map (\<lambda>(n, s). walk_struct s) nested) @
     concat (map walk_struct variants)"

definition walk_params :: "param list \<Rightarrow> type_ref list" where
  "walk_params ps = concat (map (\<lambda>p. walk_ref (p_Type p)) ps)"

text \<open>The references \<open>WalkNamespaceRefs\<close> visits, in the order it visits them.\<close>

definition WalkNamespaceRefs :: "namespace_meta \<Rightarrow> type_ref list" where
  "WalkNamespaceRefs meta =
     concat (map (\<lambda>f. walk_ref (fn_Return f) @ walk_params (fn_Params f)) (ns_Functions meta)) @
     concat (map (\<lambda>(n, s). walk_struct s) (ns_Structs meta)) @
     concat (map (\<lambda>(n, t). walk_ref (td_Underlying t)) (ns_Typedefs meta)) @
     concat (map (\<lambda>(n, d). walk_ref (fp_Return d) @ walk_params (fp_Params d)) (ns_Delegates meta)) @
     concat (map (\<lambda>c. walk_ref (cn_Type c)) (ns_Constants meta)) @
     concat (map (\<lambda>(n, c). concat (map (\<lambda>m. walk_ref (cm_Return m) @ walk_params (cm_Params m))
       (ci_Methods c))) (ns_Interfaces meta))"

section \<open>The weighted edge graph\<close>

type_synonym weights = "nat gomap"
type_synonym edges = "weights gomap"

definition baseEmbedWeight :: nat where
  "baseEmbedWeight = 1000"

definition add_weight :: "string \<Rightarrow> nat \<Rightarrow> weights \<Rightarrow> weights" where
  "add_weight k n w = AList.update k (case map_of w k of None \<Rightarrow> n | Some m \<Rightarrow> m + n) w"

definition count_ref :: "string \<Rightarrow> type_ref \<Rightarrow> weights \<Rightarrow> weights" where
  "count_ref ns ref w =
     (if ref_Kind ref = ''ApiRef'' \<and> ref_Api ref \<noteq> [] \<and> ref_Api ref \<noteq> ns
      then add_weight (ref_Api ref) 1 w else w)"

definition count_base :: "string \<Rightarrow> com_interface \<Rightarrow> weights \<Rightarrow> weights" where
  "count_base ns c w =
     (if ci_BaseInterfaceApi c \<noteq> [] \<and> ci_BaseInterfaceApi c \<noteq> ns
      then add_weight (ci_BaseInterfaceApi c) baseEmbedWeight w else w)"

definition namespace_weights :: "namespace_meta \<Rightarrow> weights" where
  "namespace_weights meta =
     fold (\<lambda>(n, c). count_base (ns_Namespace meta) c) (ns_Interfaces meta)
       (fold (count_ref (ns_Namespace meta)) (WalkNamespaceRefs meta) [])"

definition reference_edges :: "namespace_meta list \<Rightarrow> edges" where
  "reference_edges nss =
     fold (\<lambda>meta edges. let w = namespace_weights meta
                        in if w = [] then edges else AList.update (ns_Namespace meta) w edges) nss []"

definition edge_weight :: "edges \<Rightarrow> string \<Rightarrow> string \<Rightarrow> nat option" where
  "edge_weight e s d = (case map_of e s of None \<Rightarrow> None | Some w \<Rightarrow> map_of w d)"

definition edge_set :: "edges \<Rightarrow> (string \<times> string) set" where
  "edge_set e = {(s, d). edge_weight e s d \<noteq> None}"

text \<open>\<open>edges[node]\<close> as the list of its targets, sorted; a missing entry has none.\<close>

definition targets :: "edges \<Rightarrow> string \<Rightarrow> string list" where
  "targets e node = (case map_of e node of None \<Rightarrow> [] | Some w \<Rightarrow> sorted_keys w)"

definition delete_edge :: "string \<times> string \<Rightarrow> edges \<Rightarrow> edges" where
  "delete_edge sd e =
     map (\<lambda>(k, w). if k = fst sd then (k, filter (\<lambda>(t, n). t \<noteq> snd sd) w) else (k, w)) e"

section \<open>Cycle search\<close>

datatype mark = Unvisited | InStack | Done

record dfs =
  marks :: "string \<Rightarrow> mark"
  stack :: "string list"

text \<open>The loop that slices the cycle out of the stack: from the last occurrence of the target.\<close>

definition slice_from :: "string \<Rightarrow> string list \<Rightarrow> string list option" where
  "slice_from t st =
     (if t \<in> set st then Some (t # rev (takeWhile (\<lambda>x. x \<noteq> t) (rev st))) else None)"

text \<open>
  \<open>visit\<close> and its loop over the sorted targets. \<open>None\<close> is exhausted fuel; otherwise the state
  after the call and the cycle, if one was found (then the stack is left as it is).
\<close>

fun dfs_visit :: "nat \<Rightarrow> edges \<Rightarrow> string \<Rightarrow> dfs \<Rightarrow> (dfs \<times> string list option) option"
  and dfs_targets :: "nat \<Rightarrow> edges \<Rightarrow> string list \<Rightarrow> dfs \<Rightarrow> (dfs \<times> string list option) option"
where
  "dfs_visit 0 e node st = None"
| "dfs_visit (Suc n) e node st =
     (case dfs_targets n e (targets e node)
         (st\<lparr>marks := (marks st)(node := InStack), stack := stack st @ [node]\<rparr>) of
        None \<Rightarrow> None
      | Some (st', Some c) \<Rightarrow> Some (st', Some c)
      | Some (st', None) \<Rightarrow>
          Some (st'\<lparr>marks := (marks st')(node := Done), stack := butlast (stack st')\<rparr>, None))"
| "dfs_targets n e [] st = Some (st, None)"
| "dfs_targets n e (t # ts) st =
     (case marks st t of
        InStack \<Rightarrow>
          (case slice_from t (stack st) of
             Some c \<Rightarrow> Some (st, Some (c @ [t]))
           | None \<Rightarrow> dfs_targets n e ts st)
      | Unvisited \<Rightarrow>
          (case dfs_visit n e t st of
             None \<Rightarrow> None
           | Some (st', Some c) \<Rightarrow> Some (st', Some c)
           | Some (st', None) \<Rightarrow> dfs_targets n e ts st')
      | Done \<Rightarrow> dfs_targets n e ts st)"

fun dfs_nodes :: "nat \<Rightarrow> edges \<Rightarrow> string list \<Rightarrow> dfs \<Rightarrow> string list option option" where
  "dfs_nodes n e [] st = Some None"
| "dfs_nodes n e (v # vs) st =
     (if marks st v = Unvisited then
        (case dfs_visit n e v st of
           None \<Rightarrow> None
         | Some (st', Some c) \<Rightarrow> Some (Some c)
         | Some (st', None) \<Rightarrow> dfs_nodes n e vs st')
      else dfs_nodes n e vs st)"

definition graph_nodes :: "edges \<Rightarrow> string list" where
  "graph_nodes e = map fst e @ concat (map (\<lambda>(s, w). map fst w) e)"

definition initial_dfs :: dfs where
  "initial_dfs = \<lparr>marks = \<lambda>_. Unvisited, stack = []\<rparr>"

definition search_cycle :: "edges \<Rightarrow> string list option option" where
  "search_cycle e = dfs_nodes (Suc (length (graph_nodes e))) e (sorted_keys e) initial_dfs"

definition findCycle :: "edges \<Rightarrow> string list option" where
  "findCycle e = (case search_cycle e of None \<Rightarrow> None | Some r \<Rightarrow> r)"

section \<open>The edge to sever\<close>

definition arrow :: string where
  "arrow = [CHR 0xE2, CHR 0x86, CHR 0x92]"

definition weight_of :: "edges \<Rightarrow> string \<times> string \<Rightarrow> nat" where
  "weight_of e sd = (case edge_weight e (fst sd) (snd sd) of None \<Rightarrow> 0 | Some n \<Rightarrow> n)"

definition edge_label :: "string \<times> string \<Rightarrow> string" where
  "edge_label sd = fst sd @ arrow @ snd sd"

definition lighter :: "edges \<Rightarrow> string \<times> string \<Rightarrow> string \<times> string \<Rightarrow> bool" where
  "lighter e sd best \<longleftrightarrow> weight_of e sd < weight_of e best \<or>
     (weight_of e sd = weight_of e best \<and> edge_label sd < edge_label best)"

text \<open>\<open>None\<close> is the index panic on a path of fewer than two nodes.\<close>

definition lightestEdge :: "edges \<Rightarrow> string list \<Rightarrow> (string \<times> string) option" where
  "lightestEdge e c =
     (case zip c (tl c) of
        [] \<Rightarrow> None
      | first # rest \<Rightarrow>
          Some (foldl (\<lambda>best sd. if lighter e sd best then sd else best) first (first # rest)))"

section \<open>Graph lemmas\<close>

definition is_cycle :: "('n \<times> 'n) set \<Rightarrow> 'n list \<Rightarrow> bool" where
  "is_cycle E c \<longleftrightarrow> 2 \<le> length c \<and> hd c = last c \<and> successively (\<lambda>a b. (a, b) \<in> E) c"

lemma successively_zip: "successively P c \<longleftrightarrow> (\<forall>(a, b) \<in> set (zip c (tl c)). P a b)"
  by (induction P c rule: successively.induct) auto

lemma successively_rtrancl:
  "successively (\<lambda>a b. (a, b) \<in> E) c \<Longrightarrow> c \<noteq> [] \<Longrightarrow> x \<in> set c \<Longrightarrow>
     (hd c, x) \<in> E\<^sup>* \<and> (x, last c) \<in> E\<^sup>*"
proof (induction "\<lambda>a b. (a, b) \<in> E" c arbitrary: x rule: successively.induct)
  case (3 a b cs)
  then have ab: "(a, b) \<in> E" and IH: "\<And>y. y \<in> set (b # cs) \<Longrightarrow> (b, y) \<in> E\<^sup>* \<and> (y, last (b # cs)) \<in> E\<^sup>*"
    by auto
  from "3.prems"(3) consider "x = a" | "x \<in> set (b # cs)" by auto
  then show ?case
  proof cases
    case 1
    then show ?thesis using IH [of b] ab by (auto intro: converse_rtrancl_into_rtrancl)
  next
    case 2
    then show ?thesis using IH [of x] ab by (auto intro: converse_rtrancl_into_rtrancl)
  qed
qed auto

lemma is_cycle_edges: "is_cycle E c \<Longrightarrow> set (zip c (tl c)) \<subseteq> E"
  by (auto simp: is_cycle_def successively_zip)

lemma is_cycle_zip_not_Nil: "is_cycle E c \<Longrightarrow> zip c (tl c) \<noteq> []"
  by (cases c; cases "tl c") (auto simp: is_cycle_def)

lemma is_cycle_back:
  assumes "is_cycle E c" "(s, d) \<in> set (zip c (tl c))"
  shows "(d, s) \<in> E\<^sup>*"
proof -
  have c: "c \<noteq> []" "hd c = last c" "successively (\<lambda>a b. (a, b) \<in> E) c"
    using assms(1) unfolding is_cycle_def by auto
  have s: "s \<in> set c" using assms(2) by (rule set_zip_leftD)
  have d: "d \<in> set c"
    using set_zip_rightD [OF assms(2)] c(1) by (metis list.set_sel(2))
  have "(hd c, s) \<in> E\<^sup>*" using successively_rtrancl [OF c(3,1) s] by (rule conjunct1)
  moreover have "(d, last c) \<in> E\<^sup>*" using successively_rtrancl [OF c(3,1) d] by (rule conjunct2)
  ultimately show ?thesis unfolding c(2) by (metis rtrancl_trans)
qed

lemma is_cycle_not_acyclic:
  assumes "is_cycle E c"
  shows "\<not> acyclic E"
proof
  assume a: "acyclic E"
  obtain s d where sd: "(s, d) \<in> set (zip c (tl c))"
    using last_in_set [OF is_cycle_zip_not_Nil [OF assms]] by (metis surj_pair)
  have "(s, d) \<in> E" using is_cycle_edges [OF assms] sd by (rule subsetD)
  moreover have "(d, s) \<in> E\<^sup>*" using assms sd by (rule is_cycle_back)
  ultimately have "(d, s) \<in> E\<^sup>*" "(s, d) \<in> E" by auto
  then have "(d, d) \<in> E\<^sup>+" by (rule rtrancl_into_trancl1)
  with a show False by (simp add: acyclic_def)
qed

lemma acyclic_insert_source:
  assumes "acyclic R" "v \<notin> Range R" "v \<notin> T"
  shows "acyclic (R \<union> {v} \<times> T)"
proof -
  have no_in: "(a, b) \<in> (R \<union> {v} \<times> T)\<^sup>+ \<Longrightarrow> b \<noteq> v" for a b
    by (induction rule: trancl_induct) (use assms in auto)
  have in_R: "(a, b) \<in> (R \<union> {v} \<times> T)\<^sup>+ \<Longrightarrow> a \<noteq> v \<Longrightarrow> (a, b) \<in> R\<^sup>+" for a b
  proof (induction rule: trancl_induct)
    case (base b)
    then show ?case by auto
  next
    case (step b c)
    then have "b \<noteq> v" using no_in by blast
    with step show ?case by (auto intro: trancl_into_trancl)
  qed
  show ?thesis
    unfolding acyclic_def
  proof (intro allI notI)
    fix x assume x: "(x, x) \<in> (R \<union> {v} \<times> T)\<^sup>+"
    then have "x \<noteq> v" by (rule no_in)
    with x have "(x, x) \<in> R\<^sup>+" by (rule in_R)
    with assms(1) show False by (simp add: acyclic_def)
  qed
qed

section \<open>Correctness of the search\<close>

lemma targets_iff [simp]: "t \<in> set (targets e v) \<longleftrightarrow> (v, t) \<in> edge_set e"
  by (auto simp: targets_def edge_set_def edge_weight_def split: option.splits)
     (metis map_of_key_iff not_None_eq fst_conv image_eqI)+

lemma edge_set_iff:
  "(s, d) \<in> edge_set e \<longleftrightarrow> (\<exists>w n. map_of e s = Some w \<and> map_of w d = Some n)"
  by (simp add: edge_set_def edge_weight_def split: option.split)

lemma edge_set_nodes:
  assumes "(s, d) \<in> edge_set e"
  shows "s \<in> set (graph_nodes e)" "d \<in> set (graph_nodes e)"
proof -
  from assms obtain w n where w: "map_of e s = Some w" "map_of w d = Some n"
    by (auto simp: edge_set_iff)
  show "s \<in> set (graph_nodes e)"
    using map_of_keyD [OF w(1)] by (simp add: graph_nodes_def)
  obtain e1 e2 where "e = e1 @ (s, w) # e2"
    using split_list [OF map_of_SomeD [OF w(1)]] by blast
  moreover have "d \<in> fst ` set w" using w(2) by (rule map_of_keyD)
  ultimately show "d \<in> set (graph_nodes e)" by (simp add: graph_nodes_def)
qed

lemma slice_from_split:
  assumes "t \<in> set st"
  obtains pre suf where "st = pre @ t # suf" "slice_from t st = Some (t # suf)"
proof -
  from assms obtain suf' pre' where "rev st = suf' @ t # pre'" "t \<notin> set suf'"
    by (metis set_rev split_list_first)
  moreover from this have "st = rev pre' @ t # rev suf'"
    by (metis append.assoc append_Cons append_Nil rev.simps(2) rev_append rev_rev_ident)
  moreover have "takeWhile (\<lambda>x. x \<noteq> t) (suf' @ t # pre') = suf'"
    using \<open>t \<notin> set suf'\<close> by (subst takeWhile_append2) auto
  ultimately show ?thesis
    using assms that [of "rev pre'" "rev suf'"] by (simp add: slice_from_def)
qed

text \<open>
  The invariant of the search: the stack is a path of distinct nodes and holds exactly the nodes
  in progress, the finished nodes are closed under edges, and no cycle starts at a finished node.
\<close>

definition dfs_inv :: "edges \<Rightarrow> dfs \<Rightarrow> bool" where
  "dfs_inv e st \<longleftrightarrow>
     distinct (stack st) \<and>
     (\<forall>v. marks st v = InStack \<longleftrightarrow> v \<in> set (stack st)) \<and>
     successively (\<lambda>a b. (a, b) \<in> edge_set e) (stack st) \<and>
     (\<forall>v t. marks st v = Done \<longrightarrow> (v, t) \<in> edge_set e \<longrightarrow> marks st t = Done) \<and>
     acyclic (edge_set e \<inter> {v. marks st v = Done} \<times> UNIV)"

lemma dfs_invD:
  assumes "dfs_inv e st"
  shows "distinct (stack st)" "marks st v = InStack \<longleftrightarrow> v \<in> set (stack st)"
    "successively (\<lambda>a b. (a, b) \<in> edge_set e) (stack st)"
    "marks st v = Done \<Longrightarrow> (v, t) \<in> edge_set e \<Longrightarrow> marks st t = Done"
    "acyclic (edge_set e \<inter> {v. marks st v = Done} \<times> UNIV)"
  using assms unfolding dfs_inv_def by blast+

lemma dfs_inv_initial: "dfs_inv e initial_dfs"
  by (simp add: dfs_inv_def initial_dfs_def acyclic_def)

lemma dfs_inv_push:
  assumes "dfs_inv e st" "marks st v = Unvisited" "stack st = [] \<or> (last (stack st), v) \<in> edge_set e"
  shows "dfs_inv e (st\<lparr>marks := (marks st)(v := InStack), stack := stack st @ [v]\<rparr>)"
proof -
  have d: "{x. ((marks st)(v := InStack)) x = Done} = {x. marks st x = Done}"
    using assms(2) by auto
  have v: "v \<notin> set (stack st)" using dfs_invD(2) [OF assms(1), of v] assms(2) by simp
  have c1: "distinct (stack st @ [v])" using dfs_invD(1) [OF assms(1)] v by simp
  have c2: "\<forall>x. ((marks st)(v := InStack)) x = InStack \<longleftrightarrow> x \<in> set (stack st @ [v])"
    using dfs_invD(2) [OF assms(1)] by simp
  have c3: "successively (\<lambda>a b. (a, b) \<in> edge_set e) (stack st @ [v])"
    using dfs_invD(3) [OF assms(1)] assms(3) by (auto simp: successively_append_iff)
  have c4: "\<forall>x t. ((marks st)(v := InStack)) x = Done \<longrightarrow> (x, t) \<in> edge_set e \<longrightarrow>
      ((marks st)(v := InStack)) t = Done"
  proof (intro allI impI)
    fix x t
    assume "((marks st)(v := InStack)) x = Done" "(x, t) \<in> edge_set e"
    then have "marks st t = Done"
      using dfs_invD(4) [OF assms(1)] by (simp split: if_splits)
    then show "((marks st)(v := InStack)) t = Done" using assms(2) by auto
  qed
  have c5: "acyclic (edge_set e \<inter> {x. ((marks st)(v := InStack)) x = Done} \<times> UNIV)"
    unfolding d by (rule dfs_invD(5) [OF assms(1)])
  let ?st = "st\<lparr>marks := (marks st)(v := InStack), stack := stack st @ [v]\<rparr>"
  have f: "marks ?st = (marks st)(v := InStack)" "stack ?st = stack st @ [v]" by simp_all
  show ?thesis unfolding dfs_inv_def f by (intro conjI c1 c2 c3 c4 c5)
qed

lemma dfs_inv_finish:
  assumes "dfs_inv e st" "stack st = old @ [v]"
    and all_done: "\<And>t. (v, t) \<in> edge_set e \<Longrightarrow> marks st t = Done"
  shows "dfs_inv e (st\<lparr>marks := (marks st)(v := Done), stack := old\<rparr>)"
proof -
  let ?R = "edge_set e \<inter> {x. marks st x = Done} \<times> UNIV"
  have v: "marks st v = InStack" using dfs_invD(2) [OF assms(1), of v] assms(2) by simp
  have "v \<notin> Range ?R" using dfs_invD(4) [OF assms(1)] v by fastforce
  moreover have "v \<notin> {t. (v, t) \<in> edge_set e}" using all_done v by fastforce
  ultimately have acyc: "acyclic (?R \<union> {v} \<times> {t. (v, t) \<in> edge_set e})"
    using dfs_invD(5) [OF assms(1)] by (intro acyclic_insert_source)
  have "edge_set e \<inter> {x. ((marks st)(v := Done)) x = Done} \<times> UNIV =
      ?R \<union> {v} \<times> {t. (v, t) \<in> edge_set e}" by auto
  with acyc have c5: "acyclic (edge_set e \<inter> {x. ((marks st)(v := Done)) x = Done} \<times> UNIV)"
    by simp
  have old: "distinct (old @ [v])" "successively (\<lambda>a b. (a, b) \<in> edge_set e) (old @ [v])"
    using dfs_invD(1,3) [OF assms(1)] assms(2) by simp_all
  then have c1: "distinct old" and c3: "successively (\<lambda>a b. (a, b) \<in> edge_set e) old"
    by (simp_all add: successively_append_iff)
  have c2: "\<forall>x. ((marks st)(v := Done)) x = InStack \<longleftrightarrow> x \<in> set old"
    using dfs_invD(2) [OF assms(1)] assms(2) old(1) by auto
  have c4: "\<forall>x t. ((marks st)(v := Done)) x = Done \<longrightarrow> (x, t) \<in> edge_set e \<longrightarrow>
      ((marks st)(v := Done)) t = Done"
    using dfs_invD(4) [OF assms(1)] all_done by simp
  let ?st = "st\<lparr>marks := (marks st)(v := Done), stack := old\<rparr>"
  have f: "marks ?st = (marks st)(v := Done)" "stack ?st = old" by simp_all
  show ?thesis unfolding dfs_inv_def f by (intro conjI c1 c2 c3 c4 c5)
qed

lemma dfs_inv_cycle:
  assumes "dfs_inv e st" "stack st \<noteq> []" "(last (stack st), t) \<in> edge_set e" "marks st t = InStack"
  shows "\<exists>c. slice_from t (stack st) = Some c \<and> is_cycle (edge_set e) (c @ [t])"
proof -
  have "t \<in> set (stack st)" using dfs_invD(2) [OF assms(1)] assms(4) by blast
  then obtain pre suf where s: "stack st = pre @ t # suf" "slice_from t (stack st) = Some (t # suf)"
    by (rule slice_from_split)
  have "successively (\<lambda>a b. (a, b) \<in> edge_set e) (t # suf)"
    using dfs_invD(3) [OF assms(1)] s(1) by (simp add: successively_append_iff)
  then have "is_cycle (edge_set e) ((t # suf) @ [t])"
    using assms(3) s(1) unfolding is_cycle_def successively_append_iff by (simp add: last_append)
  with s(2) show ?thesis by auto
qed

text \<open>
  What a call leaves behind: without a cycle the stack is restored, the invariant holds, finished
  nodes stay finished; a reported path is a cycle of the graph.
\<close>

definition dfs_ok :: "edges \<Rightarrow> dfs \<Rightarrow> string set \<Rightarrow> (dfs \<times> string list option) option \<Rightarrow> bool" where
  "dfs_ok e st vs r \<longleftrightarrow>
     (case r of
        None \<Rightarrow> False
      | Some (st', None) \<Rightarrow> dfs_inv e st' \<and> stack st' = stack st \<and>
          (\<forall>v \<in> vs. marks st' v = Done) \<and> (\<forall>v. marks st v = Done \<longrightarrow> marks st' v = Done)
      | Some (st', Some c) \<Rightarrow> is_cycle (edge_set e) c)"

lemma dfs_okE:
  assumes "dfs_ok e st vs r"
  obtains st' where "r = Some (st', None)" "dfs_inv e st'" "stack st' = stack st"
      "\<And>v. v \<in> vs \<Longrightarrow> marks st' v = Done" "\<And>v. marks st v = Done \<Longrightarrow> marks st' v = Done"
  | st' c where "r = Some (st', Some c)" "is_cycle (edge_set e) c"
  using assms unfolding dfs_ok_def by (auto split: option.splits)

text \<open>There is fuel for every node not on the stack.\<close>

definition enough_fuel :: "edges \<Rightarrow> nat \<Rightarrow> dfs \<Rightarrow> bool" where
  "enough_fuel e n st \<longleftrightarrow> set (stack st) \<subseteq> set (graph_nodes e) \<and>
     length (graph_nodes e) < n + length (stack st)"

lemma enough_fuel_0:
  assumes "dfs_inv e st" "enough_fuel e 0 st"
  shows False
proof -
  have "card (set (stack st)) \<le> card (set (graph_nodes e))"
    using assms(2) by (intro card_mono) (auto simp: enough_fuel_def)
  also have "\<dots> \<le> length (graph_nodes e)" by (rule card_length)
  finally show False
    using assms by (simp add: enough_fuel_def distinct_card dfs_invD(1))
qed

lemma dfs_correct:
  "dfs_inv e st \<Longrightarrow> enough_fuel e n st \<Longrightarrow> marks st node = Unvisited \<Longrightarrow>
     node \<in> set (graph_nodes e) \<Longrightarrow> (stack st = [] \<or> (last (stack st), node) \<in> edge_set e) \<Longrightarrow>
     dfs_ok e st {node} (dfs_visit n e node st)"
  "dfs_inv e st \<Longrightarrow> enough_fuel e n st \<Longrightarrow> stack st \<noteq> [] \<Longrightarrow>
     (\<And>t. t \<in> set ts \<Longrightarrow> (last (stack st), t) \<in> edge_set e) \<Longrightarrow>
     dfs_ok e st (set ts) (dfs_targets n e ts st)"
proof (induction n e node st and n e ts st rule: dfs_visit_dfs_targets.induct)
  case (1 e node st)
  then show ?case using enough_fuel_0 by blast
next
  case (2 n e node st)
  let ?st = "st\<lparr>marks := (marks st)(node := InStack), stack := stack st @ [node]\<rparr>"
  have inv: "dfs_inv e ?st" using "2.prems"(1,3,5) by (rule dfs_inv_push)
  have fuel: "enough_fuel e n ?st" using "2.prems"(2,4) by (simp add: enough_fuel_def)
  have "dfs_ok e ?st (set (targets e node)) (dfs_targets n e (targets e node) ?st)"
    using inv fuel by (intro "2.IH") auto
  then show ?case
  proof (cases rule: dfs_okE)
    case (1 st')
    have "dfs_inv e (st'\<lparr>marks := (marks st')(node := Done), stack := stack st\<rparr>)"
      using 1 by (intro dfs_inv_finish) auto
    with 1 "2.prems"(3) show ?thesis by (auto simp: dfs_ok_def)
  next
    case (2 st' c)
    then show ?thesis by (simp add: dfs_ok_def)
  qed
next
  case (3 n e st)
  then show ?case by (simp add: dfs_ok_def)
next
  case (4 n e t ts st)
  have edge: "(last (stack st), t) \<in> edge_set e" using "4.prems"(4) by simp
  show ?case
  proof (cases "marks st t")
    case Unvisited
    have "dfs_ok e st {t} (dfs_visit n e t st)"
      using Unvisited "4.prems"(1,2) edge edge_set_nodes(2) [OF edge] by (intro "4.IH"(1)) auto
    then show ?thesis
    proof (cases rule: dfs_okE)
      case (1 st')
      have "dfs_ok e st' (set ts) (dfs_targets n e ts st')"
        using 1 Unvisited "4.prems" by (intro "4.IH"(2)) (auto simp: enough_fuel_def)
      then show ?thesis
        using 1 Unvisited by (cases rule: dfs_okE) (auto simp: dfs_ok_def)
    next
      case (2 st' c)
      then show ?thesis using Unvisited by (simp add: dfs_ok_def)
    qed
  next
    case InStack
    from dfs_inv_cycle [OF "4.prems"(1,3) edge this] InStack show ?thesis
      by (auto simp: dfs_ok_def)
  next
    case Done
    have "dfs_ok e st (set ts) (dfs_targets n e ts st)"
      using Done "4.prems" by (intro "4.IH"(4)) auto
    then show ?thesis
      using Done by (cases rule: dfs_okE) (auto simp: dfs_ok_def)
  qed
qed

lemma dfs_nodes_correct:
  "dfs_inv e st \<Longrightarrow> enough_fuel e n st \<Longrightarrow> stack st = [] \<Longrightarrow> set vs \<subseteq> set (graph_nodes e) \<Longrightarrow>
     (case dfs_nodes n e vs st of
        None \<Rightarrow> False
      | Some (Some c) \<Rightarrow> is_cycle (edge_set e) c
      | Some None \<Rightarrow> \<exists>st'. dfs_inv e st' \<and> (\<forall>v \<in> set vs. marks st' v = Done) \<and>
          (\<forall>v. marks st v = Done \<longrightarrow> marks st' v = Done))"
proof (induction vs arbitrary: st)
  case Nil
  then show ?case by auto
next
  case (Cons v vs)
  show ?case
  proof (cases "marks st v = Unvisited")
    case True
    have "dfs_ok e st {v} (dfs_visit n e v st)"
      using Cons.prems True by (intro dfs_correct(1)) auto
    then show ?thesis
    proof (cases rule: dfs_okE)
      case (1 st')
      have "enough_fuel e n st'" using Cons.prems(2) 1(3) by (simp add: enough_fuel_def)
      with Cons.IH [of st'] 1 Cons.prems True show ?thesis
        by (auto split: option.splits)
    next
      case (2 st' c)
      then show ?thesis using True by simp
    qed
  next
    case False
    then have "marks st v = Done"
      using dfs_invD(2) [OF Cons.prems(1), of v] Cons.prems(3) by (cases "marks st v") auto
    with False Cons.IH [of st] Cons.prems show ?thesis by (auto split: option.splits)
  qed
qed

lemma search_cycle_correct:
  "case search_cycle e of
     None \<Rightarrow> False
   | Some (Some c) \<Rightarrow> is_cycle (edge_set e) c
   | Some None \<Rightarrow> acyclic (edge_set e)"
proof -
  have fuel: "enough_fuel e (Suc (length (graph_nodes e))) initial_dfs"
    by (simp add: enough_fuel_def initial_dfs_def)
  have nodes: "set (sorted_keys e) \<subseteq> set (graph_nodes e)" by (auto simp: graph_nodes_def)
  have "stack initial_dfs = []" by (simp add: initial_dfs_def)
  note run = dfs_nodes_correct [OF dfs_inv_initial fuel this nodes]
  have "acyclic (edge_set e)"
    if "dfs_inv e st'" "\<forall>v \<in> set (sorted_keys e). marks st' v = Done" for st'
  proof -
    have "edge_set e \<inter> {v. marks st' v = Done} \<times> UNIV = edge_set e"
      using that(2) by (auto simp: edge_set_iff dest!: map_of_keyD [of e])
    with dfs_invD(5) [OF that(1)] show ?thesis by simp
  qed
  with run show ?thesis unfolding search_cycle_def by (auto split: option.splits)
qed

text \<open>The fuel \<open>findCycle\<close> supplies is enough on every graph.\<close>

lemma search_cycle_total: "search_cycle e \<noteq> None"
  using search_cycle_correct [of e] by (cases "search_cycle e") auto

text \<open>
  \<^bold>\<open>C2\<close>: \<open>findCycle\<close> decides acyclicity of the reference graph: it returns nil exactly when no import
  cycle is left, and a path it returns is a cycle of the graph.
\<close>

theorem findCycle_correct:
  "(findCycle e = None) = acyclic (edge_set e) \<and>
   pred_option (is_cycle (edge_set e)) (findCycle e)"
  using search_cycle_correct [of e] is_cycle_not_acyclic
  by (auto simp: findCycle_def split: option.splits)

lemma findCycle_sound: "findCycle e = Some c \<Longrightarrow> is_cycle (edge_set e) c"
  using search_cycle_correct [of e] by (auto simp: findCycle_def split: option.splits)

lemma findCycle_complete: "findCycle e = None \<Longrightarrow> acyclic (edge_set e)"
  using search_cycle_correct [of e] by (auto simp: findCycle_def split: option.splits)

section \<open>The lightest edge\<close>

lemma edge_set_delete: "edge_set (delete_edge sd e) = edge_set e - {sd}"
proof -
  have "map_of (delete_edge sd e) s =
      map_option (\<lambda>w. if s = fst sd then filter (\<lambda>(t, n). t \<noteq> snd sd) w else w) (map_of e s)" for s
    by (induction e) (auto simp: delete_edge_def)
  moreover have "map_of (filter (\<lambda>(t, n). t \<noteq> snd sd) w) d =
      (if d = snd sd then None else map_of w d)" for w :: weights and d
    by (induction w) auto
  ultimately show ?thesis
    by (cases sd) (auto simp: edge_set_def edge_weight_def split: option.splits if_splits)
qed

text \<open>The order in which \<open>lightestEdge\<close> prefers edges: by weight, then by printed name.\<close>

definition edge_rank :: "edges \<Rightarrow> string \<times> string \<Rightarrow> nat \<times> string" where
  "edge_rank e sd = (weight_of e sd, edge_label sd)"

lemma lighter_trans: "lighter e a b \<Longrightarrow> \<not> lighter e c b \<Longrightarrow> \<not> lighter e c a"
  by (auto simp: lighter_def)

lemma lightest_fold:
  "let m = foldl (\<lambda>best sd. if lighter e sd best then sd else best) b sds
   in m \<in> insert b (set sds) \<and> (\<forall>x \<in> insert b (set sds). \<not> lighter e x m)"
proof (induction sds rule: rev_induct)
  case Nil
  then show ?case by (simp add: lighter_def)
next
  case (snoc x sds)
  define m where "m = foldl (\<lambda>best sd. if lighter e sd best then sd else best) b sds"
  with snoc have m: "m \<in> insert b (set sds)" "\<forall>y \<in> insert b (set sds). \<not> lighter e y m"
    by (simp_all add: Let_def)
  show ?case
  proof (cases "lighter e x m")
    case True
    then have "\<not> lighter e y x" if "y \<in> insert b (set sds)" for y
      using lighter_trans [OF True] m(2) that by blast
    moreover have "\<not> lighter e x x" by (simp add: lighter_def)
    ultimately show ?thesis using True by (auto simp: Let_def m_def [symmetric])
  next
    case False
    then show ?thesis using m by (auto simp: Let_def m_def [symmetric])
  qed
qed

lemma lightestEdge_spec:
  assumes "zip c (tl c) \<noteq> []"
  shows "\<exists>sd. lightestEdge e c = Some sd \<and> sd \<in> set (zip c (tl c)) \<and>
    (\<forall>x \<in> set (zip c (tl c)). \<not> lighter e x sd)"
proof -
  obtain first rest where z: "zip c (tl c) = first # rest"
    using assms by (cases "zip c (tl c)") auto
  then show ?thesis
    using lightest_fold [of e first "first # rest"] by (simp add: lightestEdge_def Let_def)
qed

section \<open>Severing cycles\<close>

definition edge_count :: "edges \<Rightarrow> nat" where
  "edge_count e = sum_list (map (\<lambda>(s, w). length w) e)"

lemma delete_edge_count_le: "edge_count (delete_edge sd e) \<le> edge_count e"
proof (induction e)
  case Nil
  then show ?case by (simp add: edge_count_def delete_edge_def)
next
  case (Cons x e)
  obtain s w where "x = (s, w)" by fastforce
  moreover have "length (filter (\<lambda>(t, n). t \<noteq> snd sd) w) \<le> length w" by (rule length_filter_le)
  ultimately show ?case using Cons
    by (auto simp: edge_count_def delete_edge_def intro!: add_mono)
qed

lemma delete_edge_count:
  assumes "sd \<in> edge_set e"
  shows "edge_count (delete_edge sd e) < edge_count e"
proof -
  obtain s d where sd: "sd = (s, d)" by fastforce
  from assms sd obtain w n where w: "map_of e s = Some w" "map_of w d = Some n"
    by (auto simp: edge_set_iff)
  then have "(s, w) \<in> set e" "(d, n) \<in> set w" by (simp_all add: map_of_SomeD)
  then obtain e1 e2 where e: "e = e1 @ (s, w) # e2" by (auto dest: split_list)
  have "length (filter (\<lambda>(t, n). t \<noteq> d) w) < length w"
    using \<open>(d, n) \<in> set w\<close> by (intro length_filter_less [of "(d, n)"]) auto
  moreover have "edge_count (delete_edge sd e) = edge_count (delete_edge sd e1) +
      length (filter (\<lambda>(t, n). t \<noteq> d) w) + edge_count (delete_edge sd e2)"
    by (simp add: e sd edge_count_def delete_edge_def)
  moreover have "edge_count e = edge_count e1 + length w + edge_count e2"
    by (simp add: e edge_count_def)
  ultimately show ?thesis
    using delete_edge_count_le [of sd e1] delete_edge_count_le [of sd e2] by linarith
qed

lemma lightest_on_cycle:
  assumes "is_cycle (edge_set e) c"
  shows "\<exists>sd. lightestEdge e c = Some sd \<and> sd \<in> set (zip c (tl c))"
  using lightestEdge_spec [OF is_cycle_zip_not_Nil [OF assms], of e] by blast

text \<open>
  The loop of \<open>ComputeBlockedImports\<close>. \<open>blocked\<close> is the Go set \<open>blocked[src][dst]\<close>, in the order
  the edges are severed; every round deletes an edge of the graph, so the loop ends.
\<close>

function sever_cycles :: "edges \<Rightarrow> (string \<times> string) list \<Rightarrow> (string \<times> string) list" where
  "sever_cycles e blocked =
     (case findCycle e of
        None \<Rightarrow> blocked
      | Some c \<Rightarrow>
          (case lightestEdge e c of
             None \<Rightarrow> blocked
           | Some sd \<Rightarrow> sever_cycles (delete_edge sd e) (blocked @ [sd])))"
  by pat_completeness auto
termination
proof (relation "measure (\<lambda>(e, blocked). edge_count e)")
  fix e and blocked :: "(string \<times> string) list" and c sd
  assume "findCycle e = Some c" and l: "lightestEdge e c = Some sd"
  then have c: "is_cycle (edge_set e) c" by (simp add: findCycle_sound)
  then have "sd \<in> edge_set e" using lightest_on_cycle [OF c] is_cycle_edges [OF c] l by auto
  then show "((delete_edge sd e, blocked @ [sd]), e, blocked) \<in> measure (\<lambda>(e, blocked). edge_count e)"
    by (simp add: delete_edge_count)
qed simp

declare sever_cycles.simps [simp del]

definition ComputeBlockedImports :: "registry \<Rightarrow> (string \<times> string) list" where
  "ComputeBlockedImports r = sever_cycles (reference_edges (reg_Namespaces r)) []"

text \<open>
  The contract between the loop and the two functions it calls. \<open>arcs\<close> is what a graph means; a
  search that is sound and complete and a choice that stays on the cycle are all the loop needs.
\<close>

locale cycle_breaker =
  fixes arcs :: "'g \<Rightarrow> ('n \<times> 'n) set"
    and find_path :: "'g \<Rightarrow> 'n list option"
    and pick :: "'g \<Rightarrow> 'n list \<Rightarrow> ('n \<times> 'n) option"
    and remove_arc :: "'n \<times> 'n \<Rightarrow> 'g \<Rightarrow> 'g"
    and sever :: "'g \<Rightarrow> ('n \<times> 'n) list \<Rightarrow> ('n \<times> 'n) list"
  assumes finite_arcs: "finite (arcs g)"
    and find_sound: "find_path g = Some c \<Longrightarrow> is_cycle (arcs g) c"
    and find_complete: "find_path g = None \<Longrightarrow> acyclic (arcs g)"
    and pick_on: "is_cycle (arcs g) c \<Longrightarrow> \<exists>sd. pick g c = Some sd \<and> sd \<in> set (zip c (tl c))"
    and remove_arcs: "arcs (remove_arc sd g) = arcs g - {sd}"
    and sever_stop: "find_path g = None \<Longrightarrow> sever g b = b"
    and sever_step: "find_path g = Some c \<Longrightarrow> pick g c = Some sd \<Longrightarrow>
      sever g b = sever (remove_arc sd g) (b @ [sd])"
begin

text \<open>Everything the loop guarantees, by induction on the number of arcs left.\<close>

lemma sever_invariant:
  "\<exists>ext. sever g b = b @ ext \<and> set ext \<subseteq> arcs g \<and> distinct ext \<and> acyclic (arcs g - set ext) \<and>
     (\<forall>(s, d) \<in> set ext. (d, s) \<in> (arcs g)\<^sup>*)"
proof (induction "card (arcs g)" arbitrary: g b rule: less_induct)
  case less
  show ?case
  proof (cases "find_path g")
    case None
    then show ?thesis by (intro exI [of _ "[]"]) (simp add: sever_stop find_complete)
  next
    case (Some c)
    then have c: "is_cycle (arcs g) c" by (rule find_sound)
    obtain s d where p: "pick g c = Some (s, d)" "(s, d) \<in> set (zip c (tl c))"
      using pick_on [OF c] by auto
    have sd: "(s, d) \<in> arcs g" using is_cycle_edges [OF c] p(2) by blast
    define g' where "g' = remove_arc (s, d) g"
    have arcs': "arcs g' = arcs g - {(s, d)}" by (simp add: g'_def remove_arcs)
    have "card (arcs g') < card (arcs g)"
      unfolding arcs' using sd finite_arcs [of g] by (intro card_Diff1_less)
    from less.hyps [OF this, of "b @ [(s, d)]"] obtain ext where
      ext: "sever g' (b @ [(s, d)]) = (b @ [(s, d)]) @ ext" "set ext \<subseteq> arcs g'" "distinct ext"
        "acyclic (arcs g' - set ext)" "\<forall>(s, d) \<in> set ext. (d, s) \<in> (arcs g')\<^sup>*" by blast
    have mono: "(arcs g')\<^sup>* \<subseteq> (arcs g)\<^sup>*" unfolding arcs' by (rule rtrancl_mono) blast
    have "arcs g - set ((s, d) # ext) = arcs g' - set ext" by (auto simp: arcs')
    moreover have "(d, s) \<in> (arcs g)\<^sup>*" using c p(2) by (rule is_cycle_back)
    moreover have "sever g b = b @ (s, d) # ext"
      using sever_step [OF Some p(1), of b] ext(1) by (simp add: g'_def)
    ultimately show ?thesis
      using ext(2-) sd mono unfolding arcs'
      by (intro exI [of _ "(s, d) # ext"]) auto
  qed
qed

lemma sever_acyclic: "acyclic (arcs g - set (sever g []))"
  using sever_invariant [of g "[]"] by auto

lemma sever_arcs: "set (sever g []) \<subseteq> arcs g"
  using sever_invariant [of g "[]"] by auto

lemma sever_distinct: "distinct (sever g [])"
  using sever_invariant [of g "[]"] by auto

lemma sever_on_cycle: "(s, d) \<in> set (sever g []) \<Longrightarrow> (d, s) \<in> (arcs g)\<^sup>*"
  using sever_invariant [of g "[]"] by auto

lemma sever_id: "acyclic (arcs g) \<Longrightarrow> sever g b = b"
  using find_sound is_cycle_not_acyclic sever_stop by (metis not_None_eq)

end

lemma finite_edge_set: "finite (edge_set e)"
proof (rule finite_subset)
  show "edge_set e \<subseteq> set (graph_nodes e) \<times> set (graph_nodes e)"
    using edge_set_nodes by fast
qed simp

interpretation import_breaker: cycle_breaker edge_set findCycle lightestEdge delete_edge sever_cycles
proof unfold_locales
  fix e :: edges and b :: "(string \<times> string) list"
  show "finite (edge_set e)" by (rule finite_edge_set)
  show "findCycle e = None \<Longrightarrow> sever_cycles e b = b"
    by (simp add: sever_cycles.simps [of e b])
next
  fix e c sd and b :: "(string \<times> string) list"
  assume "findCycle e = Some c" "lightestEdge e c = Some sd"
  then show "sever_cycles e b = sever_cycles (delete_edge sd e) (b @ [sd])"
    by (simp add: sever_cycles.simps [of e b])
qed (rule findCycle_sound findCycle_complete lightest_on_cycle edge_set_delete; assumption?)+

section \<open>What the severed graph guarantees\<close>

text \<open>
  \<^bold>\<open>C1\<close>: \<open>ComputeBlockedImports\<close> terminates on every registry, and once the edges it reports are
  severed the reference graph has no import cycle.
\<close>

theorem ComputeBlockedImports_acyclic:
  "acyclic (edge_set (reference_edges (reg_Namespaces r)) - set (ComputeBlockedImports r))"
  unfolding ComputeBlockedImports_def by (rule import_breaker.sever_acyclic)

text \<open>
  \<^bold>\<open>C3\<close>: nothing is severed needlessly. A severed edge is an edge of the graph, it is severed once,
  and it lies on an import cycle; a registry without import cycles loses no edge.
\<close>

theorem ComputeBlockedImports_minimal:
  assumes "(s, d) \<in> set (ComputeBlockedImports r)"
  shows "(s, d) \<in> edge_set (reference_edges (reg_Namespaces r)) \<and>
    (d, s) \<in> (edge_set (reference_edges (reg_Namespaces r)))\<^sup>* \<and>
    distinct (ComputeBlockedImports r) \<and>
    \<not> acyclic (edge_set (reference_edges (reg_Namespaces r)))"
proof -
  have cyc: "\<not> acyclic (edge_set (reference_edges (reg_Namespaces r)))"
    using assms import_breaker.sever_id [of "reference_edges (reg_Namespaces r)" "[]"]
    by (auto simp: ComputeBlockedImports_def)
  with assms show ?thesis
    using import_breaker.sever_arcs import_breaker.sever_on_cycle import_breaker.sever_distinct
    unfolding ComputeBlockedImports_def by blast
qed

text \<open>
  On a cycle \<open>lightestEdge\<close> returns one of its edges, and no edge of the cycle has a smaller
  weight, nor the same weight and a smaller printed name: the cheapest degradation, with a
  deterministic tie-break.
\<close>

theorem lightestEdge_minimal:
  assumes "is_cycle (edge_set e) c"
  shows "\<exists>sd. lightestEdge e c = Some sd \<and> sd \<in> set (zip c (tl c)) \<and>
    (\<forall>x \<in> set (zip c (tl c)). weight_of e sd \<le> weight_of e x \<and>
       (weight_of e sd = weight_of e x \<longrightarrow> edge_label sd \<le> edge_label x))"
proof -
  from lightestEdge_spec [OF is_cycle_zip_not_Nil [OF assms], of e] obtain sd where
    "lightestEdge e c = Some sd" "sd \<in> set (zip c (tl c))"
    "\<forall>x \<in> set (zip c (tl c)). \<not> lighter e x sd" by blast
  then show ?thesis by (auto simp: lighter_def not_less intro!: exI [of _ sd])
qed

section \<open>The edges of the graph\<close>

definition ref_counts :: "string \<Rightarrow> string \<Rightarrow> type_ref \<Rightarrow> bool" where
  "ref_counts ns d ref \<longleftrightarrow> ref_Kind ref = ''ApiRef'' \<and> ref_Api ref = d \<and> d \<noteq> [] \<and> d \<noteq> ns"

definition base_counts :: "string \<Rightarrow> string \<Rightarrow> com_interface \<Rightarrow> bool" where
  "base_counts ns d c \<longleftrightarrow> ci_BaseInterfaceApi c = d \<and> d \<noteq> [] \<and> d \<noteq> ns"

definition plus_weight :: "nat option \<Rightarrow> nat \<Rightarrow> nat option" where
  "plus_weight w n = (if n = 0 then w else Some (n + (case w of None \<Rightarrow> 0 | Some m \<Rightarrow> m)))"

lemma plus_weight_simps [simp]:
  "plus_weight w 0 = w" "plus_weight (plus_weight w m) n = plus_weight w (m + n)"
  "(plus_weight w n = None) = (w = None \<and> n = 0)"
  by (auto simp: plus_weight_def split: option.splits)

lemma map_of_add_weight:
  "0 < n \<Longrightarrow> map_of (add_weight k n w) d = plus_weight (map_of w d) (if d = k then n else 0)"
  by (auto simp: add_weight_def update_conv plus_weight_def split: option.splits)

lemma map_of_count_ref:
  "map_of (count_ref ns ref w) d = plus_weight (map_of w d) (if ref_counts ns d ref then 1 else 0)"
  by (auto simp: count_ref_def ref_counts_def map_of_add_weight)

lemma map_of_count_base:
  "map_of (count_base ns c w) d =
     plus_weight (map_of w d) (if base_counts ns d c then baseEmbedWeight else 0)"
  by (auto simp: count_base_def base_counts_def map_of_add_weight baseEmbedWeight_def)

lemma map_of_count_refs:
  "map_of (fold (count_ref ns) refs w) d =
     plus_weight (map_of w d) (length (filter (ref_counts ns d) refs))"
  by (induction refs arbitrary: w) (simp_all add: map_of_count_ref)

lemma map_of_count_bases:
  "map_of (fold (\<lambda>(n, c). count_base ns c) ifs w) d =
     plus_weight (map_of w d) (baseEmbedWeight * length (filter (\<lambda>(n, c). base_counts ns d c) ifs))"
  by (induction ifs arbitrary: w) (auto simp: map_of_count_base algebra_simps)

text \<open>One per reference to the target, a thousand per interface that embeds a base from it.\<close>

definition total_weight :: "namespace_meta \<Rightarrow> string \<Rightarrow> nat" where
  "total_weight meta d =
     length (filter (ref_counts (ns_Namespace meta) d) (WalkNamespaceRefs meta)) +
     baseEmbedWeight * length (filter (\<lambda>(n, c). base_counts (ns_Namespace meta) d c) (ns_Interfaces meta))"

lemma map_of_namespace_weights:
  "map_of (namespace_weights meta) d = plus_weight None (total_weight meta d)"
  by (simp add: namespace_weights_def map_of_count_bases map_of_count_refs total_weight_def)

lemma distinct_keys_update: "distinct_keys m \<Longrightarrow> distinct_keys (AList.update k v m)"
  by (simp add: distinct_keys_def distinct_update)

lemma distinct_keys_add_weight: "distinct_keys w \<Longrightarrow> distinct_keys (add_weight k n w)"
  by (simp add: add_weight_def distinct_keys_update)

lemma distinct_keys_count_refs: "distinct_keys w \<Longrightarrow> distinct_keys (fold (count_ref ns) refs w)"
  by (induction refs arbitrary: w) (simp_all add: count_ref_def distinct_keys_add_weight)

lemma distinct_keys_count_bases:
  "distinct_keys w \<Longrightarrow> distinct_keys (fold (\<lambda>(n, c). count_base ns c) ifs w)"
  by (induction ifs arbitrary: w) (auto simp: count_base_def distinct_keys_add_weight)

lemma distinct_keys_namespace_weights: "distinct_keys (namespace_weights meta)"
  unfolding namespace_weights_def
  by (intro distinct_keys_count_bases distinct_keys_count_refs) (simp add: distinct_keys_def)

definition add_edges :: "namespace_meta \<Rightarrow> edges \<Rightarrow> edges" where
  "add_edges meta edges =
     (if namespace_weights meta = [] then edges
      else AList.update (ns_Namespace meta) (namespace_weights meta) edges)"

lemma reference_edges_alt: "reference_edges nss = fold add_edges nss []"
  by (simp add: reference_edges_def add_edges_def [abs_def] Let_def)

lemma reference_edges_snoc: "reference_edges (nss @ [m]) = add_edges m (reference_edges nss)"
  by (simp add: reference_edges_alt)

text \<open>The well-formed graphs: no node and no target is listed twice.\<close>

definition wf_edges :: "edges \<Rightarrow> bool" where
  "wf_edges e \<longleftrightarrow> distinct_keys e \<and> (\<forall>w \<in> snd ` set e. distinct_keys w)"

lemma wf_reference_edges: "wf_edges (reference_edges nss)"
proof (induction nss rule: rev_induct)
  case Nil
  then show ?case by (simp add: reference_edges_alt wf_edges_def distinct_keys_def)
next
  case (snoc m nss)
  have upd: "snd ` set (AList.update k v e) \<subseteq> insert v (snd ` set e)" for k v and e :: edges
    by (induction e) auto
  have "\<forall>w \<in> snd ` set (AList.update (ns_Namespace m) (namespace_weights m) (reference_edges nss)).
      distinct_keys w"
  proof
    fix w
    assume "w \<in> snd ` set (AList.update (ns_Namespace m) (namespace_weights m) (reference_edges nss))"
    then have "w = namespace_weights m \<or> w \<in> snd ` set (reference_edges nss)"
      using upd [THEN subsetD] by (simp only: insert_iff)
    then show "distinct_keys w"
      using snoc distinct_keys_namespace_weights [of m] by (elim disjE) (simp_all only: wf_edges_def)
  qed
  with snoc show ?case
    unfolding reference_edges_snoc add_edges_def wf_edges_def
    by (simp add: distinct_keys_update del: ball_simps)
qed

lemma edge_weight_add_edges:
  "edge_weight (add_edges m e) s d =
     (if s = ns_Namespace m \<and> namespace_weights m \<noteq> [] then map_of (namespace_weights m) d
      else edge_weight e s d)"
  by (simp add: add_edges_def edge_weight_def update_conv)

lemma edge_weight_reference_edges:
  assumes "distinct (map ns_Namespace nss)"
  shows "edge_weight (reference_edges nss) s d =
    (case find (\<lambda>m. ns_Namespace m = s) nss of
       None \<Rightarrow> None | Some m \<Rightarrow> plus_weight None (total_weight m d))"
  using assms
proof (induction nss rule: rev_induct)
  case Nil
  then show ?case by (simp add: reference_edges_alt edge_weight_def)
next
  case (snoc m nss)
  have find_snoc: "find P (xs @ [x]) = (case find P xs of None \<Rightarrow> if P x then Some x else None | Some y \<Rightarrow> Some y)"
    for P and xs :: "namespace_meta list" and x
    by (induction xs) auto
  have old: "find (\<lambda>m'. ns_Namespace m' = ns_Namespace m) nss = None"
    using snoc.prems by (force simp: find_None_iff image_iff)
  have empty: "namespace_weights m = [] \<Longrightarrow> plus_weight None (total_weight m d) = None"
    using map_of_namespace_weights [of m d] by simp
  show ?case
    using snoc old empty
    by (auto simp: reference_edges_snoc edge_weight_add_edges find_snoc map_of_namespace_weights
        split: option.splits)
qed

lemma edge_set_reference_edges:
  assumes "distinct (map ns_Namespace nss)"
  shows "((s, d) \<in> edge_set (reference_edges nss)) =
    (\<exists>m. m \<in> set nss \<and> ns_Namespace m = s \<and> d \<noteq> [] \<and> d \<noteq> s \<and>
       ((\<exists>ref. ref \<in> set (WalkNamespaceRefs m) \<and> ref_Kind ref = ''ApiRef'' \<and> ref_Api ref = d) \<or>
        (\<exists>n c. (n, c) \<in> set (ns_Interfaces m) \<and> ci_BaseInterfaceApi c = d)))"
  (is "?L = ?R")
proof -
  have tot: "total_weight m d \<noteq> 0 \<longleftrightarrow> d \<noteq> [] \<and> d \<noteq> ns_Namespace m \<and>
      ((\<exists>ref. ref \<in> set (WalkNamespaceRefs m) \<and> ref_Kind ref = ''ApiRef'' \<and> ref_Api ref = d) \<or>
       (\<exists>n c. (n, c) \<in> set (ns_Interfaces m) \<and> ci_BaseInterfaceApi c = d))" for m
    by (auto simp: total_weight_def baseEmbedWeight_def filter_empty_conv ref_counts_def base_counts_def)
  have uniq: "find (\<lambda>m. ns_Namespace m = s) nss = Some m \<longleftrightarrow> m \<in> set nss \<and> ns_Namespace m = s" for m
    using assms
    by (induction nss) auto
  have "?L \<longleftrightarrow> (\<exists>m. find (\<lambda>m. ns_Namespace m = s) nss = Some m \<and> total_weight m d \<noteq> 0)"
    using edge_weight_reference_edges [OF assms, of s d]
    by (auto simp: edge_set_def plus_weight_def split: option.splits if_splits)
  also have "\<dots> \<longleftrightarrow> ?R" unfolding uniq tot by blast
  finally show ?thesis .
qed

text \<open>
  The graph has an edge from a namespace to another exactly when some type of the first
  references the second, or one of its interfaces embeds a base of it; so the acyclic graph of
  \<open>ComputeBlockedImports\<close> speaks about every reference the emitters can meet.
\<close>

theorem reference_edges_iff:
  assumes "distinct (map ns_Namespace nss)"
  shows "((s, d) \<in> edge_set (reference_edges nss)) =
    (\<exists>m. m \<in> set nss \<and> ns_Namespace m = s \<and> d \<noteq> [] \<and> d \<noteq> s \<and>
       ((\<exists>ref. ref \<in> set (WalkNamespaceRefs m) \<and> ref_Kind ref = ''ApiRef'' \<and> ref_Api ref = d) \<or>
        (\<exists>n c. (n, c) \<in> set (ns_Interfaces m) \<and> ci_BaseInterfaceApi c = d)))"
  by (rule edge_set_reference_edges [OF assms])

section \<open>Determinism\<close>

text \<open>
  Two representations of the same Go map of maps: the entries may come in any order, at both
  levels. The search and the edge choice, hence the severed edges, are the same for both.
\<close>

definition same_graph :: "edges \<Rightarrow> edges \<Rightarrow> bool" where
  "same_graph e e' \<longleftrightarrow> wf_edges e \<and> wf_edges e' \<and> fst ` set e = fst ` set e' \<and>
     (\<forall>s d. edge_weight e s d = edge_weight e' s d)"

lemma wf_edges_row: "wf_edges e \<Longrightarrow> map_of e s = Some w \<Longrightarrow> distinct_keys w"
  unfolding wf_edges_def by (force dest: map_of_SomeD)

lemma targets_same:
  assumes "same_graph e e'"
  shows "targets e v = targets e' v"
proof -
  have set: "set (targets e v) = set (targets e' v)"
    using assms by (auto simp: same_graph_def edge_set_def)
  have "distinct (targets e v)" "distinct (targets e' v)"
    using assms wf_edges_row [of e v] wf_edges_row [of e' v]
    by (auto simp: same_graph_def targets_def split: option.splits)
  moreover have "sorted (targets e v)" "sorted (targets e' v)"
    by (auto simp: targets_def split: option.splits)
  ultimately show ?thesis using set by (intro sorted_distinct_set_unique)
qed

lemma sorted_keys_same: "same_graph e e' \<Longrightarrow> sorted_keys e = sorted_keys e'"
  by (intro sorted_distinct_set_unique) (auto simp: same_graph_def wf_edges_def)

lemma length_graph_nodes:
  assumes "wf_edges e"
  shows "length (graph_nodes e) = length (sorted_keys e) + sum_list (map (\<lambda>s. length (targets e s)) (sorted_keys e))"
proof -
  have dist: "distinct_keys e" using assms by (simp add: wf_edges_def)
  have "sum_list (map (\<lambda>x. length (snd x)) e) = sum_list (map (\<lambda>s. length (targets e s)) (map fst e))"
    unfolding map_map comp_def
  proof (rule arg_cong [of _ _ sum_list], rule map_cong [OF refl])
    fix x assume x: "x \<in> set e"
    obtain s w where sw: "x = (s, w)" by fastforce
    with x dist have "map_of e s = Some w" by (simp add: distinct_keys_def)
    with sw show "length (snd x) = length (targets e (fst x))"
      by (simp add: targets_def)
  qed
  also have "\<dots> = sum_list (map (\<lambda>s. length (targets e s)) (sorted_keys e))"
    by (simp only: sorted_keys_def mset_sort mset_map flip: sum_mset_sum_list)
  finally show ?thesis
    by (simp add: graph_nodes_def length_concat comp_def case_prod_beta)
qed

lemma dfs_same:
  assumes "\<And>v. targets e v = targets e' v"
  shows "dfs_visit n e node st = dfs_visit n e' node st"
    and "dfs_targets n e ts st = dfs_targets n e' ts st"
  using assms
proof (induction n e node st and n e ts st rule: dfs_visit_dfs_targets.induct)
qed (simp_all cong: option.case_cong prod.case_cong mark.case_cong)

lemma dfs_nodes_same:
  "(\<And>v. targets e v = targets e' v) \<Longrightarrow> dfs_nodes n e vs st = dfs_nodes n e' vs st"
  by (induction vs arbitrary: st)
     (simp_all add: dfs_same(1) [of e e'] cong: option.case_cong prod.case_cong)

lemma findCycle_same:
  assumes "same_graph e e'"
  shows "findCycle e = findCycle e'"
proof -
  have t: "targets e v = targets e' v" for v using assms by (rule targets_same)
  have k: "sorted_keys e = sorted_keys e'" using assms by (rule sorted_keys_same)
  have "length (graph_nodes e) = length (graph_nodes e')"
    using assms t k by (simp add: length_graph_nodes same_graph_def)
  then show ?thesis
    using dfs_nodes_same [of e e', OF t] k by (simp add: findCycle_def search_cycle_def)
qed

lemma lightestEdge_same: "same_graph e e' \<Longrightarrow> lightestEdge e c = lightestEdge e' c"
proof -
  assume "same_graph e e'"
  then have "lighter e = lighter e'"
    by (intro ext) (simp add: lighter_def weight_of_def same_graph_def)
  then show ?thesis by (simp only: lightestEdge_def)
qed

lemma wf_delete_edge: "wf_edges e \<Longrightarrow> wf_edges (delete_edge sd e)"
proof -
  assume e: "wf_edges e"
  have "map fst (delete_edge sd e) = map fst e"
    by (induction e) (auto simp: delete_edge_def)
  then have "distinct_keys (delete_edge sd e)" using e by (simp add: wf_edges_def distinct_keys_def)
  moreover have "distinct_keys w \<Longrightarrow> distinct_keys (filter P w)" for w :: weights and P
    by (auto simp: distinct_keys_def distinct_map intro: inj_on_subset)
  ultimately show ?thesis
    using e by (auto simp: wf_edges_def delete_edge_def)
qed

lemma edge_weight_delete:
  "edge_weight (delete_edge sd e) s d = (if (s, d) = sd then None else edge_weight e s d)"
proof -
  have "map_of (delete_edge sd e) s =
      map_option (\<lambda>w. if s = fst sd then filter (\<lambda>(t, n). t \<noteq> snd sd) w else w) (map_of e s)"
    by (induction e) (auto simp: delete_edge_def)
  moreover have "map_of (filter (\<lambda>(t, n). t \<noteq> snd sd) w) d =
      (if d = snd sd then None else map_of w d)" for w :: weights
    by (induction w) auto
  ultimately show ?thesis
    by (cases sd) (auto simp: edge_weight_def split: option.splits)
qed

lemma same_graph_delete: "same_graph e e' \<Longrightarrow> same_graph (delete_edge sd e) (delete_edge sd e')"
proof -
  assume s: "same_graph e e'"
  have "fst ` set (delete_edge sd e) = fst ` set e" for e
    by (force simp: delete_edge_def image_iff)
  with s show ?thesis by (simp add: same_graph_def wf_delete_edge edge_weight_delete)
qed

lemma sever_cycles_same: "same_graph e e' \<Longrightarrow> sever_cycles e b = sever_cycles e' b"
proof (induction e b arbitrary: e' rule: sever_cycles.induct)
  case (1 e b)
  have f: "findCycle e' = findCycle e" using "1.prems" by (rule findCycle_same [symmetric])
  have l: "lightestEdge e' c = lightestEdge e c" for c
    using "1.prems" by (rule lightestEdge_same [symmetric])
  have IH: "sever_cycles (delete_edge sd e) (b @ [sd]) = sever_cycles (delete_edge sd e') (b @ [sd])"
    if "findCycle e = Some c" "lightestEdge e c = Some sd" for c sd
    using that by (rule "1.IH" [OF _ _ same_graph_delete [OF "1.prems"]])
  show ?case
    unfolding sever_cycles.simps [of e b] sever_cycles.simps [of e' b] f l
    by (auto split: option.splits intro: IH)
qed

lemma length_filter_same_mset:
  "mset xs = mset ys \<Longrightarrow> length (filter P xs) = length (filter P ys)"
  by (metis mset_filter size_mset)

lemma same_references_same_graph:
  assumes "distinct (map ns_Namespace nss)"
    and "list_all2 (\<lambda>m m'. ns_Namespace m = ns_Namespace m' \<and>
      mset (WalkNamespaceRefs m) = mset (WalkNamespaceRefs m') \<and>
      mset (ns_Interfaces m) = mset (ns_Interfaces m')) nss nss'"
  shows "same_graph (reference_edges nss) (reference_edges nss')"
proof -
  have names: "map ns_Namespace nss = map ns_Namespace nss'"
    using assms(2) by (induction rule: list_all2_induct) auto
  have tot: "total_weight m d = total_weight m' d"
    if "ns_Namespace m = ns_Namespace m'" "mset (WalkNamespaceRefs m) = mset (WalkNamespaceRefs m')"
      "mset (ns_Interfaces m) = mset (ns_Interfaces m')" for m m' d
  proof -
    show ?thesis
      unfolding total_weight_def that(1)
      by (simp only: length_filter_same_mset [OF that(2)] length_filter_same_mset [OF that(3)])
  qed
  have "(case find (\<lambda>m. ns_Namespace m = s) nss of
       None \<Rightarrow> None | Some m \<Rightarrow> plus_weight None (total_weight m d)) =
    (case find (\<lambda>m. ns_Namespace m = s) nss' of
       None \<Rightarrow> None | Some m \<Rightarrow> plus_weight None (total_weight m d))" for s d
    using assms(2)
  proof (induction rule: list_all2_induct)
    case Nil
    show ?case by simp
  next
    case (Cons x xs y ys)
    then have "total_weight x d = total_weight y d" by (intro tot) simp_all
    with Cons show ?case by simp
  qed
  then have w: "edge_weight (reference_edges nss) s d = edge_weight (reference_edges nss') s d" for s d
    using assms(1) names by (simp add: edge_weight_reference_edges)
  have k: "fst ` set (reference_edges ms) = {s. \<exists>d. edge_weight (reference_edges ms) s d \<noteq> None}" for ms
  proof (induction ms rule: rev_induct)
    case Nil
    then show ?case by (simp add: reference_edges_alt edge_weight_def)
  next
    case (snoc m ms)
    have ne: "\<exists>d. map_of (namespace_weights m) d \<noteq> None" if "namespace_weights m \<noteq> []"
      using that by (cases "namespace_weights m") auto
    have dom: "fst ` set (AList.update k v e) = insert k (fst ` set e)" for k v and e :: edges
      by (simp add: dom_update)
    have up: "edge_weight (AList.update k v e) s d = (if s = k then map_of v d else edge_weight e s d)"
      for k v s d and e :: edges
      by (simp add: edge_weight_def update_conv')
    show ?case
    proof (cases "namespace_weights m = []")
      case True
      then show ?thesis using snoc by (simp add: reference_edges_snoc add_edges_def)
    next
      case False
      from ne [OF False] obtain d where "map_of (namespace_weights m) d \<noteq> None" ..
      with False show ?thesis
        unfolding reference_edges_snoc add_edges_def dom snoc by (auto simp: up dom snoc)
    qed
  qed
  show ?thesis
    unfolding same_graph_def k using w by (simp add: wf_reference_edges)
qed

text \<open>
  \<^bold>\<open>C4\<close>: the severed edges are a function of the metadata. Loading the same namespaces with the
  entries of their maps in another order (Go iterates maps in an unspecified order, so the
  reference walk visits the same references in any order) gives the same edges in the same order.
\<close>

theorem ComputeBlockedImports_deterministic:
  assumes "distinct (map ns_Namespace (reg_Namespaces r))"
    and "list_all2 (\<lambda>m m'. ns_Namespace m = ns_Namespace m' \<and>
      mset (WalkNamespaceRefs m) = mset (WalkNamespaceRefs m') \<and>
      mset (ns_Interfaces m) = mset (ns_Interfaces m')) (reg_Namespaces r) (reg_Namespaces r')"
  shows "ComputeBlockedImports r = ComputeBlockedImports r'"
  unfolding ComputeBlockedImports_def
  by (rule sever_cycles_same [OF same_references_same_graph [OF assms]])

section \<open>Examples\<close>

text \<open>Two namespaces that reference each other, \<open>Gdi\<close> twice and \<open>Foundation\<close> once.\<close>

definition ex_struct :: "type_ref list \<Rightarrow> struct_def" where
  "ex_struct ts = StructDef
     (map (\<lambda>t. \<lparr>sf_Name = ''f'', sf_Type = t, sf_Bitfields = [], sf_IsFlexibleArray = False\<rparr>) ts)
     False 0 0 [] no_availability [] []"

definition ex_foundation :: namespace_meta where
  "ex_foundation = (empty_namespace ''Foundation'')\<lparr>ns_Structs :=
     [(''DEVICE'', ex_struct [PointerTo (ApiRef ''Struct'' ''Gdi'' ''DC'')])]\<rparr>"

definition ex_gdi :: namespace_meta where
  "ex_gdi = (empty_namespace ''Gdi'')\<lparr>ns_Structs :=
     [(''DC'', ex_struct [ApiRef ''Struct'' ''Foundation'' ''RECT'', Native ''Int32'']),
      (''PAINT'', ex_struct [ApiRef ''Struct'' ''Foundation'' ''POINT''])]\<rparr>"

definition ex_registry :: "namespace_meta list \<Rightarrow> registry" where
  "ex_registry nss = foldl index_namespace (empty_registry nss) nss"

lemma ex_blocked:
  "ComputeBlockedImports (ex_registry [ex_foundation, ex_gdi]) = [(''Foundation'', ''Gdi'')]"
  by code_simp

lemma ComputeBlockedImports_minimal_witness:
  "(''Gdi'', ''Foundation'') \<in>
     (edge_set (reference_edges (reg_Namespaces (ex_registry [ex_foundation, ex_gdi]))))\<^sup>*"
  using ComputeBlockedImports_minimal [of "''Foundation''" "''Gdi''" "ex_registry [ex_foundation, ex_gdi]"]
  by (simp add: ex_blocked)

text \<open>A graph of three nodes with one heavy edge and two light ones.\<close>

definition ex_edges :: edges where
  "ex_edges = [(''A'', [(''B'', 5)]), (''B'', [(''C'', 1)]), (''C'', [(''A'', 1), (''B'', 2)])]"

lemma ex_edges_eval:
  "edge_weight ex_edges ''A'' ''B'' = Some 5" "edge_weight ex_edges ''B'' ''C'' = Some 1"
  "edge_weight ex_edges ''C'' ''A'' = Some 1"
  "lightestEdge ex_edges [''A'', ''B'', ''C'', ''A''] = Some (''B'', ''C'')"
  by code_simp+

lemma ex_cycle: "is_cycle (edge_set ex_edges) [''A'', ''B'', ''C'', ''A'']"
  by (simp add: is_cycle_def edge_set_def ex_edges_eval)

lemma lightestEdge_minimal_witness:
  "weight_of ex_edges (''B'', ''C'') \<le> weight_of ex_edges (''A'', ''B'')"
  using lightestEdge_minimal [OF ex_cycle] by (simp add: ex_edges_eval)

lemma reference_edges_iff_witness:
  "(''Gdi'', ''Foundation'') \<in> edge_set (reference_edges [ex_foundation, ex_gdi])"
proof -
  have "\<exists>m. m \<in> set [ex_foundation, ex_gdi] \<and> ns_Namespace m = ''Gdi'' \<and> ''Foundation'' \<noteq> [] \<and>
     ''Foundation'' \<noteq> ''Gdi'' \<and>
     ((\<exists>ref. ref \<in> set (WalkNamespaceRefs m) \<and> ref_Kind ref = ''ApiRef'' \<and> ref_Api ref = ''Foundation'') \<or>
      (\<exists>n c. (n, c) \<in> set (ns_Interfaces m) \<and> ci_BaseInterfaceApi c = ''Foundation''))"
  proof (intro exI [of _ ex_gdi] conjI disjI1 exI [of _ "ApiRef ''Struct'' ''Foundation'' ''RECT''"])
    show "ApiRef ''Struct'' ''Foundation'' ''RECT'' \<in> set (WalkNamespaceRefs ex_gdi)" by code_simp
  qed (simp_all add: ex_gdi_def empty_namespace_def)
  moreover have "distinct (map ns_Namespace [ex_foundation, ex_gdi])" by code_simp
  ultimately show ?thesis by (simp only: reference_edges_iff)
qed

definition ex_gdi_reordered :: namespace_meta where
  "ex_gdi_reordered = ex_gdi\<lparr>ns_Structs := rev (ns_Structs ex_gdi)\<rparr>"

lemma ComputeBlockedImports_deterministic_witness:
  "ComputeBlockedImports (ex_registry [ex_foundation, ex_gdi_reordered]) = [(''Foundation'', ''Gdi'')]"
proof -
  have "ComputeBlockedImports (ex_registry [ex_foundation, ex_gdi]) =
      ComputeBlockedImports (ex_registry [ex_foundation, ex_gdi_reordered])"
  proof (rule ComputeBlockedImports_deterministic)
    have n: "reg_Namespaces (ex_registry ms) = ms" if "ms = [ex_foundation, ex_gdi] \<or> ms = [ex_foundation, ex_gdi_reordered]" for ms
      using that by (elim disjE) (hypsubst, code_simp)+
    show "distinct (map ns_Namespace (reg_Namespaces (ex_registry [ex_foundation, ex_gdi])))" by code_simp
    have m: "mset (WalkNamespaceRefs ex_gdi) = mset (WalkNamespaceRefs ex_gdi_reordered)" by code_simp
    have i: "ns_Interfaces ex_gdi_reordered = ns_Interfaces ex_gdi"
      "ns_Namespace ex_gdi_reordered = ns_Namespace ex_gdi" by (simp_all add: ex_gdi_reordered_def)
    show "list_all2 (\<lambda>m m'. ns_Namespace m = ns_Namespace m' \<and>
        mset (WalkNamespaceRefs m) = mset (WalkNamespaceRefs m') \<and>
        mset (ns_Interfaces m) = mset (ns_Interfaces m'))
      (reg_Namespaces (ex_registry [ex_foundation, ex_gdi]))
      (reg_Namespaces (ex_registry [ex_foundation, ex_gdi_reordered]))"
      by (simp add: n m i)
  qed
  then show ?thesis by (simp only: ex_blocked)
qed

end
