(* ===== verification/Typemap.thy ===== *)
theory Typemap
  imports Naming Cycles
begin

text \<open>
  The type mapper of \<open>internal/codegen/typemap/mapper.go\<close>: from IR type references to Go types.
  The fields of \<open>Mapper\<close> that resolution only reads are the record \<open>mapper\<close>; those it updates, and
  the caller's \<open>ImportSet\<close>, are the record \<open>resolution\<close>, which every operation returns updated.

  Resolution recurses structurally on the reference, except when it flattens a typedef across a
  severed import edge and goes on with the typedef's underlying reference. The first argument of
  the recursive operations bounds the number of such flattenings; \<open>None\<close> is a bound exceeded (the Go
  code would recurse on). \<open>GoType_total\<close> gives a bound that is always enough when typedefs are not
  circular, \<open>GoType_circular\<close> shows that none is enough for a circular one.
\<close>

section \<open>Data\<close>

datatype kind =
    KindVoid | KindScalar | KindPointer | KindHandleTypedef | KindPointerTypedef
  | KindScalarTypedef | KindEnum | KindStruct | KindUnion | KindArray | KindFuncPtr
  | KindGUID | KindComPtr | KindUnsupported

record resolved =
  res_GoType :: string
  res_Kind :: kind
  res_TypedefName :: string
  res_TypedefApi :: string

abbreviation Resolved :: "string \<Rightarrow> kind \<Rightarrow> resolved" where
  "Resolved t k \<equiv> \<lparr>res_GoType = t, res_Kind = k, res_TypedefName = [], res_TypedefApi = []\<rparr>"

record type_context =
  cx_Namespace :: string
  cx_IsReturn :: bool

record mapper =
  mp_Registry :: registry
  mp_ModulePath :: string
  mp_Win32ModulePath :: string
  mp_LocalBindingsRoot :: string
  mp_Blocked :: "(string \<times> string) list"
  mp_SkippedTypes :: "string list"

record resolution =
  rn_Diagnostics :: "string list"
  rn_Referenced :: "string list"
  rn_Imports :: "string gomap"

definition primitiveGoTypes :: "string gomap" where
  "primitiveGoTypes =
     [(''Boolean'', ''bool''), (''Char'', ''uint16''), (''SByte'', ''int8''), (''Byte'', ''byte''),
      (''Int16'', ''int16''), (''UInt16'', ''uint16''), (''Int32'', ''int32''),
      (''UInt32'', ''uint32''), (''Int64'', ''int64''), (''UInt64'', ''uint64''),
      (''Single'', ''float32''), (''Double'', ''float64''), (''IntPtr'', ''uintptr''),
      (''UIntPtr'', ''uintptr'')]"

section \<open>Diagnostics and imports\<close>

definition in_namespace :: "type_context \<Rightarrow> string" where
  "in_namespace ctx = ''['' @ cx_Namespace ctx @ ''] ''"

definition note_diag :: "string \<Rightarrow> resolution \<Rightarrow> resolution" where
  "note_diag d st = st\<lparr>rn_Diagnostics := rn_Diagnostics st @ [d]\<rparr>"

definition degrade :: "type_context \<Rightarrow> string \<Rightarrow> resolution \<Rightarrow> resolved \<times> resolution" where
  "degrade ctx msg st = (Resolved ''uintptr'' KindUnsupported, note_diag (in_namespace ctx @ msg) st)"

definition ImportPathFor :: "mapper \<Rightarrow> string \<Rightarrow> string" where
  "ImportPathFor m api =
     (if IsExternal api then mp_Win32ModulePath m @ ''/bindings/'' @ PackagePath api
      else let root = (if mp_LocalBindingsRoot m = [] then ''/bindings/win32/''
                       else mp_LocalBindingsRoot m)
           in mp_ModulePath m @ root @ PackagePath api)"

definition RuntimeImportPath :: "mapper \<Rightarrow> string" where
  "RuntimeImportPath m =
     (if mp_Win32ModulePath m \<noteq> [] then mp_Win32ModulePath m @ ''/bindings/runtime/win32''
      else mp_ModulePath m @ ''/bindings/runtime/win32'')"

definition qualifiedName ::
  "mapper \<Rightarrow> string \<Rightarrow> string \<Rightarrow> type_context \<Rightarrow> resolution \<Rightarrow> string \<times> resolution" where
  "qualifiedName m api name ctx st =
     (if api = [] \<or> api = cx_Namespace ctx then (Export name, st)
      else (ImportAlias api @ ''.'' @ Export name,
            st\<lparr>rn_Imports := AList.update (ImportAlias api) (ImportPathFor m api) (rn_Imports st),
               rn_Referenced := List.insert api (rn_Referenced st)\<rparr>))"

section \<open>Resolution\<close>

definition is_void :: "type_ref \<Rightarrow> bool" where
  "is_void ref \<longleftrightarrow> ref_Kind ref = ''Native'' \<and> ref_Name ref = ''Void''"

definition is_void_pointer :: "type_ref \<Rightarrow> bool" where
  "is_void_pointer ref \<longleftrightarrow> ref_Kind ref = ''PointerTo'' \<and>
     (case ref_Child ref of None \<Rightarrow> False | Some c \<Rightarrow> is_void c)"

definition resolveNative :: "type_ref \<Rightarrow> type_context \<Rightarrow> resolution \<Rightarrow> resolved \<times> resolution" where
  "resolveNative ref ctx st =
     (if ref_Name ref = ''Void'' then (Resolved [] KindVoid, st)
      else if ref_Name ref = ''Guid'' then (Resolved ''win32.GUID'' KindGUID, st)
      else (case map_of primitiveGoTypes (ref_Name ref) of
              Some t \<Rightarrow> (Resolved t KindScalar, st)
            | None \<Rightarrow> degrade ctx (''unmapped native type '' @ quoted (ref_Name ref)) st))"

definition resolveTypedefRef ::
  "mapper \<Rightarrow> type_ref \<Rightarrow> string \<Rightarrow> type_context \<Rightarrow> resolution \<Rightarrow> resolved \<times> resolution" where
  "resolveTypedefRef m ref goType ctx st =
     (case Typedef (mp_Registry m) (ref_Api ref) (ref_Name ref) of
        None \<Rightarrow> degrade ctx (''unresolved typedef '' @ ref_Api ref @ ''.'' @ ref_Name ref) st
      | Some td \<Rightarrow>
          (\<lparr>res_GoType = goType,
            res_Kind = (if is_void_pointer (td_Underlying td) then KindHandleTypedef
                        else if ref_Kind (td_Underlying td) = ''PointerTo'' then KindPointerTypedef
                        else KindScalarTypedef),
            res_TypedefName = ref_Name ref, res_TypedefApi = ref_Api ref\<rparr>, st))"

definition resolveNamedRef :: "mapper \<Rightarrow> type_ref \<Rightarrow> type_context \<Rightarrow> resolution \<Rightarrow> resolved \<times> resolution" where
  "resolveNamedRef m ref ctx st =
     (let (goType, st) = qualifiedName m (ref_Api ref) (ref_Name ref) ctx st; tk = ref_TargetKind ref in
      if tk = ''Enum'' then (Resolved goType KindEnum, st)
      else if tk = ''Struct'' then (Resolved goType KindStruct, st)
      else if tk = ''Union'' then (Resolved goType KindUnion, st)
      else if tk = ''FunctionPointer'' then (Resolved goType KindFuncPtr, st)
      else if tk = ''Typedef'' then resolveTypedefRef m ref goType ctx st
      else if tk = ''Com'' then (Resolved (''*'' @ goType) KindComPtr, st)
      else degrade ctx (''ApiRef '' @ ref_Api ref @ ''.'' @ ref_Name ref @
             '' with unknown target kind '' @ quoted tk) st)"

definition cycle_break :: "type_context \<Rightarrow> string \<Rightarrow> type_ref \<Rightarrow> string \<Rightarrow> string" where
  "cycle_break ctx what ref how =
     in_namespace ctx @ ''cycle break: '' @ what @ '' '' @ ref_Api ref @ ''.'' @ ref_Name ref @ '' '' @ how"

definition not_representable :: "type_ref \<Rightarrow> string" where
  "not_representable ref = ''cycle break: '' @ ref_TargetKind ref @ '' '' @ ref_Api ref @ ''.'' @
     ref_Name ref @ '' not representable without import''"

lemma size_ref_Child [termination_simp]: "ref_Child ref = Some c \<Longrightarrow> size c < size ref"
  by (cases ref) auto

function GoType :: "nat \<Rightarrow> mapper \<Rightarrow> type_ref \<Rightarrow> type_context \<Rightarrow> resolution \<Rightarrow> (resolved \<times> resolution) option"
  and resolveApiRef :: "nat \<Rightarrow> mapper \<Rightarrow> type_ref \<Rightarrow> type_context \<Rightarrow> resolution \<Rightarrow> (resolved \<times> resolution) option"
  and resolveBlockedRef :: "nat \<Rightarrow> mapper \<Rightarrow> type_ref \<Rightarrow> type_context \<Rightarrow> resolution \<Rightarrow> (resolved \<times> resolution) option"
  and resolvePointer :: "nat \<Rightarrow> mapper \<Rightarrow> type_ref \<Rightarrow> type_context \<Rightarrow> resolution \<Rightarrow> (resolved \<times> resolution) option"
  and resolveArray :: "nat \<Rightarrow> mapper \<Rightarrow> type_ref \<Rightarrow> type_context \<Rightarrow> resolution \<Rightarrow> (resolved \<times> resolution) option"
where
  "GoType n m ref ctx st =
     (if ref_Kind ref = ''Native'' then Some (resolveNative ref ctx st)
      else if ref_Kind ref = ''ApiRef'' then resolveApiRef n m ref ctx st
      else if ref_Kind ref = ''PointerTo'' then resolvePointer n m ref ctx st
      else if ref_Kind ref = ''Array'' then resolveArray n m ref ctx st
      else Some (degrade ctx (''unknown TypeRef kind '' @ quoted (ref_Kind ref)) st))"
| "resolveApiRef n m ref ctx st =
     (if ref_Api ref \<noteq> cx_Namespace ctx \<and> (cx_Namespace ctx, ref_Api ref) \<in> set (mp_Blocked m)
      then resolveBlockedRef n m ref ctx st
      else if ref_Api ref @ ''.'' @ Export (ref_Name ref) \<in> set (mp_SkippedTypes m)
      then Some (degrade ctx (''reference to skipped type '' @ ref_Api ref @ ''.'' @ ref_Name ref) st)
      else Some (resolveNamedRef m ref ctx st))"
| "resolveBlockedRef n m ref ctx st =
     (if ref_TargetKind ref = ''Enum'' \<and> EnumBase (mp_Registry m) (ref_Api ref) (ref_Name ref) \<noteq> [] then
        (let base = EnumBase (mp_Registry m) (ref_Api ref) (ref_Name ref)
         in Some (Resolved base KindScalar, note_diag (cycle_break ctx ''enum'' ref (''flattened to '' @ base)) st))
      else if ref_TargetKind ref = ''FunctionPointer'' then
        Some (Resolved ''uintptr'' KindFuncPtr,
              note_diag (cycle_break ctx ''callback'' ref ''flattened to uintptr'') st)
      else if ref_TargetKind ref = ''Com'' then
        Some (Resolved ''unsafe.Pointer'' KindPointer,
              note_diag (cycle_break ctx ''COM pointer'' ref ''flattened to unsafe.Pointer'') st)
      else if ref_TargetKind ref = ''Typedef'' then
        (case Typedef (mp_Registry m) (ref_Api ref) (ref_Name ref) of
           None \<Rightarrow> Some (degrade ctx (not_representable ref) st)
         | Some td \<Rightarrow>
             (let st = note_diag (cycle_break ctx ''typedef'' ref ''flattened'') st in
              if is_void_pointer (td_Underlying td) then
                Some (\<lparr>res_GoType = ''uintptr'', res_Kind = KindHandleTypedef,
                       res_TypedefName = ref_Name ref, res_TypedefApi = ref_Api ref\<rparr>, st)
              else (case n of 0 \<Rightarrow> None | Suc n \<Rightarrow> GoType n m (td_Underlying td) ctx st)))
      else Some (degrade ctx (not_representable ref) st))"
| "resolvePointer n m ref ctx st =
     (case ref_Child ref of
        None \<Rightarrow> Some (degrade ctx ''pointer with no pointee'' st)
      | Some child \<Rightarrow>
          if is_void child then Some (Resolved ''unsafe.Pointer'' KindPointer, st)
          else (case GoType n m child (ctx\<lparr>cx_IsReturn := False\<rparr>) st of
                  None \<Rightarrow> None
                | Some (c, st) \<Rightarrow>
                    if res_Kind c = KindUnsupported then Some (Resolved ''unsafe.Pointer'' KindPointer, st)
                    else if res_Kind c = KindVoid then Some (Resolved ''unsafe.Pointer'' KindPointer, st)
                    else Some (Resolved (''*'' @ res_GoType c) KindPointer, st)))"
| "resolveArray n m ref ctx st =
     (case ref_Child ref of
        None \<Rightarrow> Some (degrade ctx ''array with no element type'' st)
      | Some child \<Rightarrow>
          (case GoType n m child ctx st of
             None \<Rightarrow> None
           | Some (element, st) \<Rightarrow>
               if res_Kind element = KindUnsupported then Some (element, st)
               else if ref_ArrayLen ref = 0 then Some (degrade ctx ''array without fixed length'' st)
               else Some (Resolved (''['' @ show_nat (unat (ref_ArrayLen ref)) @ '']'' @ res_GoType element)
                                   KindArray, st)))"
  by pat_completeness auto
termination
  by (relation "inv_image (less_than <*lex*> less_than <*lex*> less_than)
       (\<lambda>x. case x of
          Inl (Inl (n, m, ref, _)) \<Rightarrow> (n, size ref, 2 :: nat)
        | Inl (Inr (n, m, ref, _)) \<Rightarrow> (n, size ref, 1)
        | Inr (Inl (n, m, ref, _)) \<Rightarrow> (n, size ref, 0)
        | Inr (Inr (Inl (n, m, ref, _))) \<Rightarrow> (n, size ref, 1)
        | Inr (Inr (Inr (n, m, ref, _))) \<Rightarrow> (n, size ref, 1))")
     (auto dest: size_ref_Child)

declare GoType.simps [simp del] resolveApiRef.simps [simp del] resolveBlockedRef.simps [simp del]
  resolvePointer.simps [simp del] resolveArray.simps [simp del]

section \<open>Marshaling classes\<close>

datatype arg_class = ArgScalar | ArgPointer | ArgBool8 | ArgFloat | ArgUnsupported

definition ArgClassOf :: "resolved \<Rightarrow> string \<Rightarrow> arg_class" where
  "ArgClassOf r goType =
     (case res_Kind r of
        KindScalar \<Rightarrow> if goType = ''float32'' \<or> goType = ''float64'' then ArgFloat
          else if goType = ''bool'' then ArgBool8 else ArgScalar
      | KindEnum \<Rightarrow> ArgScalar | KindHandleTypedef \<Rightarrow> ArgScalar | KindScalarTypedef \<Rightarrow> ArgScalar
      | KindFuncPtr \<Rightarrow> ArgScalar | KindUnsupported \<Rightarrow> ArgScalar
      | KindPointer \<Rightarrow> ArgPointer | KindPointerTypedef \<Rightarrow> ArgPointer | KindComPtr \<Rightarrow> ArgPointer
      | _ \<Rightarrow> ArgUnsupported)"

section \<open>What a resolution may import and must report\<close>

text \<open>The namespaces a reference names, at any depth.\<close>

definition ref_apis :: "type_ref \<Rightarrow> string set" where
  "ref_apis ref = {ref_Api x | x. x \<in> set (walk_ref ref) \<and> ref_Kind x = ''ApiRef''}"

lemma ref_apis_child: "ref_Child ref = Some c \<Longrightarrow> ref_apis c \<subseteq> ref_apis ref"
  unfolding ref_apis_def walk_ref.simps [of ref] by auto

lemma ref_apis_self: "ref_Kind ref = ''ApiRef'' \<Longrightarrow> ref_Api ref \<in> ref_apis ref"
  unfolding ref_apis_def walk_ref.simps [of ref] by auto

text \<open>A set of namespaces closed under the typedefs that are flattened across severed edges.\<close>

definition flat_closed :: "mapper \<Rightarrow> string \<Rightarrow> string set \<Rightarrow> bool" where
  "flat_closed m ns A \<longleftrightarrow>
     (\<forall>api name td. api \<in> A \<and> (ns, api) \<in> set (mp_Blocked m) \<and>
        Typedef (mp_Registry m) api name = Some td \<longrightarrow> ref_apis (td_Underlying td) \<subseteq> A)"

definition importable :: "mapper \<Rightarrow> string \<Rightarrow> string set \<Rightarrow> string set" where
  "importable m ns A = {a \<in> A. a \<noteq> [] \<and> a \<noteq> ns \<and> (ns, a) \<notin> set (mp_Blocked m)}"

definition reports :: "resolution \<Rightarrow> resolved \<Rightarrow> resolution \<Rightarrow> bool" where
  "reports st r st' \<longleftrightarrow> prefix (rn_Diagnostics st) (rn_Diagnostics st') \<and>
     (res_Kind r = KindUnsupported \<longrightarrow>
        rn_Diagnostics st' \<noteq> rn_Diagnostics st \<and> res_GoType r = ''uintptr'')"

definition imports_within :: "mapper \<Rightarrow> string set \<Rightarrow> resolution \<Rightarrow> resolution \<Rightarrow> bool" where
  "imports_within m S st st' \<longleftrightarrow> set (rn_Referenced st') \<subseteq> set (rn_Referenced st) \<union> S \<and>
     (\<forall>alias path. map_of (rn_Imports st') alias = Some path \<longrightarrow>
        map_of (rn_Imports st) alias = Some path \<or>
        (\<exists>a \<in> S. alias = ImportAlias a \<and> path = ImportPathFor m a))"

lemma imports_within_refl [simp]: "imports_within m S st st"
  by (simp add: imports_within_def)

lemma imports_within_note [simp]: "imports_within m S st (note_diag d st') = imports_within m S st st'"
  "imports_within m S (note_diag d st) st' = imports_within m S st st'"
  by (simp_all add: imports_within_def note_diag_def)

lemma reports_note [simp]: "reports st r (note_diag d st)
   = (res_Kind r = KindUnsupported \<longrightarrow> res_GoType r = ''uintptr'')"
  by (auto simp: reports_def note_diag_def)

lemma reports_same [simp]: "reports st r st = (res_Kind r \<noteq> KindUnsupported)"
  by (auto simp: reports_def)

lemma reports_composite:
  assumes "reports st r st'"
  shows "reports st (Resolved t KindPointer) st'" "reports st (Resolved t KindArray) st'"
  using assms by (simp_all add: reports_def)

lemma reports_from_note: "reports (note_diag d st) r st' \<Longrightarrow> reports st r st'"
  by (auto simp: reports_def note_diag_def prefix_def)

lemma reports_degrade: "reports st r st' \<Longrightarrow> reports st (fst (degrade ctx msg st')) (snd (degrade ctx msg st'))"
  by (auto simp: reports_def degrade_def note_diag_def prefix_def)

lemma degrade_simps [simp]:
  "fst (degrade ctx msg st) = Resolved ''uintptr'' KindUnsupported"
  "snd (degrade ctx msg st) = note_diag (in_namespace ctx @ msg) st"
  by (simp_all add: degrade_def)

lemma resolveNative_reports:
  "reports st (fst (resolveNative ref ctx st)) (snd (resolveNative ref ctx st)) \<and>
   imports_within m S st (snd (resolveNative ref ctx st))"
  by (simp add: resolveNative_def split: option.split)

lemma qualifiedName_diagnostics [simp]:
  "rn_Diagnostics (snd (qualifiedName m api name ctx st)) = rn_Diagnostics st"
  by (simp add: qualifiedName_def)

lemma qualifiedName_imports:
  assumes "api \<noteq> [] \<Longrightarrow> api \<noteq> cx_Namespace ctx \<Longrightarrow> api \<in> S"
  shows "imports_within m S st (snd (qualifiedName m api name ctx st))"
  using assms by (auto simp: qualifiedName_def imports_within_def update_conv' split: if_splits)

lemma resolveNamedRef_reports:
  assumes "ref_Api ref \<noteq> [] \<Longrightarrow> ref_Api ref \<noteq> cx_Namespace ctx \<Longrightarrow> ref_Api ref \<in> S"
  shows "reports st (fst (resolveNamedRef m ref ctx st)) (snd (resolveNamedRef m ref ctx st)) \<and>
    imports_within m S st (snd (resolveNamedRef m ref ctx st))"
proof -
  obtain t st1 where q: "qualifiedName m (ref_Api ref) (ref_Name ref) ctx st = (t, st1)" by fastforce
  have d: "rn_Diagnostics st1 = rn_Diagnostics st" and i: "imports_within m S st st1"
    using qualifiedName_diagnostics [of m "ref_Api ref" "ref_Name ref" ctx st]
      qualifiedName_imports [of "ref_Api ref" ctx S m st "ref_Name ref"] assms by (simp_all add: q)
  have keep: "reports st r st1 = (res_Kind r \<noteq> KindUnsupported)" for r
    by (simp add: reports_def d)
  have noted: "reports st (Resolved ''uintptr'' KindUnsupported) (note_diag x st1)" for x
    by (simp add: reports_def d note_diag_def)
  show ?thesis
    by (simp add: resolveNamedRef_def resolveTypedefRef_def q i keep noted Let_def split: option.split)
qed

lemma GoType_reports_aux:
  "flat_closed m (cx_Namespace ctx) A \<Longrightarrow> ref_apis ref \<subseteq> A \<Longrightarrow> GoType n m ref ctx st = Some (r, st') \<Longrightarrow>
     reports st r st' \<and> imports_within m (importable m (cx_Namespace ctx) A) st st'"
  "flat_closed m (cx_Namespace ctx) A \<Longrightarrow> ref_apis ref \<subseteq> A \<Longrightarrow> ref_Api ref \<in> A \<Longrightarrow>
     resolveApiRef n m ref ctx st = Some (r, st') \<Longrightarrow>
     reports st r st' \<and> imports_within m (importable m (cx_Namespace ctx) A) st st'"
  "flat_closed m (cx_Namespace ctx) A \<Longrightarrow> ref_apis ref \<subseteq> A \<Longrightarrow> ref_Api ref \<in> A \<Longrightarrow>
     (cx_Namespace ctx, ref_Api ref) \<in> set (mp_Blocked m) \<Longrightarrow>
     resolveBlockedRef n m ref ctx st = Some (r, st') \<Longrightarrow>
     reports st r st' \<and> imports_within m (importable m (cx_Namespace ctx) A) st st'"
  "flat_closed m (cx_Namespace ctx) A \<Longrightarrow> ref_apis ref \<subseteq> A \<Longrightarrow> resolvePointer n m ref ctx st = Some (r, st') \<Longrightarrow>
     reports st r st' \<and> imports_within m (importable m (cx_Namespace ctx) A) st st'"
  "flat_closed m (cx_Namespace ctx) A \<Longrightarrow> ref_apis ref \<subseteq> A \<Longrightarrow> resolveArray n m ref ctx st = Some (r, st') \<Longrightarrow>
     reports st r st' \<and> imports_within m (importable m (cx_Namespace ctx) A) st st'"
proof (induction n m ref ctx st and n m ref ctx st and n m ref ctx st and n m ref ctx st and n m ref ctx st
    arbitrary: r st' and r st' and r st' and r st' and r st'
    rule: GoType_resolveApiRef_resolveBlockedRef_resolvePointer_resolveArray.induct)
  case (1 n m ref ctx st)
  show ?case
  proof (cases "ref_Kind ref = ''Native''")
    case True
    then have "resolveNative ref ctx st = (r, st')" using "1.prems"(3) by (simp add: GoType.simps)
    then show ?thesis using resolveNative_reports [of st ref ctx] by (metis fst_conv snd_conv)
  next
    case False
    show ?thesis using "1.prems" "1.IH" False ref_apis_self [of ref]
      by (auto simp: GoType.simps [of n m ref ctx st] degrade_def split: if_splits)
  qed
next
  case (2 n m ref ctx st)
  show ?case
  proof (cases "ref_Api ref \<noteq> cx_Namespace ctx \<and> (cx_Namespace ctx, ref_Api ref) \<in> set (mp_Blocked m)")
    case True
    with 2 show ?thesis by (simp add: resolveApiRef.simps [of n m ref ctx st])
  next
    case False
    then have "ref_Api ref \<noteq> [] \<Longrightarrow> ref_Api ref \<noteq> cx_Namespace ctx \<Longrightarrow>
        ref_Api ref \<in> importable m (cx_Namespace ctx) A"
      using "2.prems"(3) by (simp add: importable_def)
    then have n: "reports st (fst (resolveNamedRef m ref ctx st)) (snd (resolveNamedRef m ref ctx st)) \<and>
        imports_within m (importable m (cx_Namespace ctx) A) st (snd (resolveNamedRef m ref ctx st))"
      by (rule resolveNamedRef_reports)
    have "resolveNamedRef m ref ctx st = (r, st') \<or>
        (\<exists>msg. (r, st') = degrade ctx msg st)"
      using False "2.prems"(4)
      unfolding resolveApiRef.simps [of n m ref ctx st] if_not_P [OF False]
      by (metis option.inject)
    then show ?thesis
    proof
      assume "resolveNamedRef m ref ctx st = (r, st')"
      with n show ?thesis by simp
    next
      assume "\<exists>msg. (r, st') = degrade ctx msg st"
      then show ?thesis by (auto simp: degrade_def)
    qed
  qed
next
  case (3 n m ref ctx st)
  have td: "ref_apis (td_Underlying td) \<subseteq> A"
    if "Typedef (mp_Registry m) (ref_Api ref) (ref_Name ref) = Some td" for td
    using that "3.prems" unfolding flat_closed_def by blast
  show ?case
  proof (cases "ref_TargetKind ref = ''Typedef''")
    case False
    then show ?thesis using "3.prems"(5)
      by (auto simp: resolveBlockedRef.simps [of n m ref ctx st] degrade_def Let_def split: if_splits)
  next
    case True
    show ?thesis
    proof (cases "Typedef (mp_Registry m) (ref_Api ref) (ref_Name ref)")
      case None
      then show ?thesis using "3.prems"(5) True
        by (auto simp: resolveBlockedRef.simps [of n m ref ctx st] degrade_def Let_def)
    next
      case (Some tdef)
      let ?st = "note_diag (cycle_break ctx ''typedef'' ref ''flattened'') st"
      show ?thesis
      proof (cases "is_void_pointer (td_Underlying tdef)")
        case v: True
        then show ?thesis using "3.prems"(5) True Some
          by (auto simp: resolveBlockedRef.simps [of n m ref ctx st] Let_def)
      next
        case v: False
        then obtain k where n: "n = Suc k" and g: "GoType k m (td_Underlying tdef) ctx ?st = Some (r, st')"
          using "3.prems"(5) True Some
          by (auto simp: resolveBlockedRef.simps [of n m ref ctx st] Let_def split: nat.splits)
        have "reports ?st r st' \<and> imports_within m (importable m (cx_Namespace ctx) A) ?st st'"
          using "3.IH" True Some v n g "3.prems"(1) td [OF Some] by simp
        then show ?thesis using reports_from_note by auto
      qed
    qed
  qed
next
  case (4 n m ref ctx st)
  show ?case
  proof (cases "ref_Child ref")
    case None
    then show ?thesis using "4.prems"(3)
      by (auto simp: resolvePointer.simps [of n m ref ctx st] degrade_def)
  next
    case (Some child)
    have "ref_apis child \<subseteq> A" using ref_apis_child [OF Some] "4.prems"(2) by blast
    then show ?thesis using "4.prems" "4.IH" [OF Some] Some
      by (auto simp: resolvePointer.simps [of n m ref ctx st] intro: reports_composite
          split: if_splits option.splits)
  qed
next
  case (5 n m ref ctx st)
  show ?case
  proof (cases "ref_Child ref")
    case None
    then show ?thesis using "5.prems"(3)
      by (auto simp: resolveArray.simps [of n m ref ctx st] degrade_def)
  next
    case (Some child)
    have "ref_apis child \<subseteq> A" using ref_apis_child [OF Some] "5.prems"(2) by blast
    then show ?thesis using "5.prems" "5.IH" [OF Some] Some
      using reports_degrade
      by (auto simp: resolveArray.simps [of n m ref ctx st] degrade_def intro: reports_composite
          split: if_splits option.splits)
  qed
qed

section \<open>Resolution returns\<close>

text \<open>The typedefs the underlying type of a typedef mentions, by index key.\<close>

definition typedef_uses :: "typedef_def gomap \<Rightarrow> (string \<times> string) set" where
  "typedef_uses idx = {(k', k). \<exists>td x. map_of idx k = Some td \<and> x \<in> set (walk_ref (td_Underlying td)) \<and>
     k' = qual_key (ref_Api x) (ref_Name x) \<and> k' \<in> fst ` set idx}"

definition typedef_rank :: "typedef_def gomap \<Rightarrow> string \<Rightarrow> nat" where
  "typedef_rank idx k = relation_rank (typedef_uses idx) k"

lemma typedef_uses_domain: "Domain (typedef_uses idx) \<subseteq> fst ` set idx"
  by (auto simp: typedef_uses_def)

lemma typedef_rank_bound: "typedef_rank idx k \<le> length idx"
  using relation_rank_bound [OF typedef_uses_domain, of idx k] card_keys_le [of idx] by (simp add: typedef_rank_def)

lemma typedef_rank_less:
  "acyclic (typedef_uses idx) \<Longrightarrow> (k', k) \<in> typedef_uses idx \<Longrightarrow> typedef_rank idx k' < typedef_rank idx k"
  unfolding typedef_rank_def by (rule relation_rank_less [OF _ typedef_uses_domain]) simp_all

definition ranked_below :: "mapper \<Rightarrow> nat \<Rightarrow> type_ref \<Rightarrow> bool" where
  "ranked_below m n ref \<longleftrightarrow> (\<forall>x \<in> set (walk_ref ref).
     qual_key (ref_Api x) (ref_Name x) \<in> fst ` set (reg_TypedefIndex (mp_Registry m)) \<longrightarrow>
     typedef_rank (reg_TypedefIndex (mp_Registry m)) (qual_key (ref_Api x) (ref_Name x)) < n)"

lemma ranked_below_child: "ref_Child ref = Some c \<Longrightarrow> ranked_below m n ref \<Longrightarrow> ranked_below m n c"
  unfolding ranked_below_def walk_ref.simps [of ref] by auto

lemma ranked_below_bound: "ranked_below m (Suc (length (reg_TypedefIndex (mp_Registry m)))) ref"
  by (auto simp: ranked_below_def less_Suc_eq_le typedef_rank_bound)

lemma ranked_below_underlying:
  assumes "acyclic (typedef_uses (reg_TypedefIndex (mp_Registry m)))"
    and "Typedef (mp_Registry m) (ref_Api ref) (ref_Name ref) = Some td" "ranked_below m n ref"
  shows "\<exists>k. n = Suc k \<and> ranked_below m k (td_Underlying td)"
proof -
  let ?idx = "reg_TypedefIndex (mp_Registry m)" and ?k = "qual_key (ref_Api ref) (ref_Name ref)"
  have idx: "map_of ?idx ?k = Some td" using assms(2) by (simp add: Typedef_def)
  then have "?k \<in> fst ` set ?idx" by (rule map_of_keyD)
  moreover have "ref \<in> set (walk_ref ref)" unfolding walk_ref.simps [of ref] by simp
  ultimately have less: "typedef_rank ?idx ?k < n" using assms(3) by (simp add: ranked_below_def)
  then obtain k where n: "n = Suc k" by (cases n) auto
  have "ranked_below m k (td_Underlying td)"
    unfolding ranked_below_def
  proof (intro ballI impI)
    fix x assume "x \<in> set (walk_ref (td_Underlying td))"
      and "qual_key (ref_Api x) (ref_Name x) \<in> fst ` set ?idx"
    then have "(qual_key (ref_Api x) (ref_Name x), ?k) \<in> typedef_uses ?idx"
      using idx by (auto simp: typedef_uses_def)
    from typedef_rank_less [OF assms(1) this] less n
    show "typedef_rank ?idx (qual_key (ref_Api x) (ref_Name x)) < k" by simp
  qed
  with n show ?thesis by blast
qed

lemma GoType_returns_aux:
  "acyclic (typedef_uses (reg_TypedefIndex (mp_Registry m))) \<Longrightarrow> ranked_below m n ref \<Longrightarrow>
     GoType n m ref ctx st \<noteq> None"
  "acyclic (typedef_uses (reg_TypedefIndex (mp_Registry m))) \<Longrightarrow> ranked_below m n ref \<Longrightarrow>
     resolveApiRef n m ref ctx st \<noteq> None"
  "acyclic (typedef_uses (reg_TypedefIndex (mp_Registry m))) \<Longrightarrow> ranked_below m n ref \<Longrightarrow>
     resolveBlockedRef n m ref ctx st \<noteq> None"
  "acyclic (typedef_uses (reg_TypedefIndex (mp_Registry m))) \<Longrightarrow> ranked_below m n ref \<Longrightarrow>
     resolvePointer n m ref ctx st \<noteq> None"
  "acyclic (typedef_uses (reg_TypedefIndex (mp_Registry m))) \<Longrightarrow> ranked_below m n ref \<Longrightarrow>
     resolveArray n m ref ctx st \<noteq> None"
proof (induction n m ref ctx st and n m ref ctx st and n m ref ctx st and n m ref ctx st and n m ref ctx st
    rule: GoType_resolveApiRef_resolveBlockedRef_resolvePointer_resolveArray.induct)
  case (1 n m ref ctx st)
  then show ?case unfolding GoType.simps [of n m ref ctx st] by (auto split: if_split)
next
  case (2 n m ref ctx st)
  then show ?case unfolding resolveApiRef.simps [of n m ref ctx st] by (auto split: if_split)
next
  case (3 n m ref ctx st)
  show ?case
  proof (cases "Typedef (mp_Registry m) (ref_Api ref) (ref_Name ref)")
    case None
    then show ?thesis unfolding resolveBlockedRef.simps [of n m ref ctx st] by (auto simp: Let_def)
  next
    case (Some td)
    from ranked_below_underlying [OF "3.prems"(1) Some "3.prems"(2)]
    obtain k where "n = Suc k" "ranked_below m k (td_Underlying td)" by blast
    then show ?thesis using "3.IH" "3.prems"(1) Some
      unfolding resolveBlockedRef.simps [of n m ref ctx st] by (auto simp: Let_def)
  qed
next
  case (4 n m ref ctx st)
  then show ?case unfolding resolvePointer.simps [of n m ref ctx st]
    using ranked_below_child by (auto split: option.split if_split)
next
  case (5 n m ref ctx st)
  then show ?case unfolding resolveArray.simps [of n m ref ctx st]
    using ranked_below_child by (auto split: option.split if_split)
qed

section \<open>The resolver interface\<close>

text \<open>
  What the builders rely on when they resolve many references in a row: every resolution
  only appends to the diagnostics, and one that degrades appends something.
\<close>

fun resolve_all :: "('ref \<Rightarrow> 'st \<Rightarrow> ('res \<times> 'st) option) \<Rightarrow> 'ref list \<Rightarrow> 'st \<Rightarrow> ('res list \<times> 'st) option" where
  "resolve_all f [] st = Some ([], st)"
| "resolve_all f (x # xs) st =
     (case f x st of
        None \<Rightarrow> None
      | Some (r, st) \<Rightarrow> map_option (\<lambda>(rs, st). (r # rs, st)) (resolve_all f xs st))"

locale resolver =
  fixes resolve :: "'ref \<Rightarrow> 'st \<Rightarrow> ('res \<times> 'st) option"
    and log :: "'st \<Rightarrow> string list"
    and degraded :: "'res \<Rightarrow> bool"
  assumes log_grows: "resolve ref st = Some (r, st') \<Longrightarrow> prefix (log st) (log st')"
    and degraded_logged: "resolve ref st = Some (r, st') \<Longrightarrow> degraded r \<Longrightarrow> log st' \<noteq> log st"
begin

lemma resolve_all_log:
  "resolve_all resolve refs st = Some (rs, st') \<Longrightarrow>
     prefix (log st) (log st') \<and> length rs = length refs \<and>
     length (log st) + length (filter degraded rs) \<le> length (log st')"
proof (induction refs arbitrary: st rs)
  case Nil
  then show ?case by simp
next
  case (Cons x xs)
  then obtain r st1 rs' where r: "resolve x st = Some (r, st1)"
    and rest: "resolve_all resolve xs st1 = Some (rs', st')" and rs: "rs = r # rs'"
    by (auto split: option.splits)
  from Cons.IH [OF rest] have IH: "prefix (log st1) (log st')" "length rs' = length xs"
    "length (log st1) + length (filter degraded rs') \<le> length (log st')" by blast+
  have p: "prefix (log st) (log st1)" using r by (rule log_grows)
  then obtain zs where zs: "log st1 = log st @ zs" by (auto simp: prefix_def)
  have "degraded r \<Longrightarrow> zs \<noteq> []" using degraded_logged [OF r] zs by simp
  then have "length (log st) + (if degraded r then 1 else 0) \<le> length (log st1)"
    using zs by (cases zs) auto
  then show ?case using IH p rs by (auto intro: prefix_order.trans)
qed

end

lemma flat_closed_UNIV: "flat_closed m ns UNIV"
  by (simp add: flat_closed_def)

lemma GoType_reporting:
  "GoType n m ref ctx st = Some (r, st') \<Longrightarrow> reports st r st'"
  using GoType_reports_aux(1) [OF flat_closed_UNIV, of ref n m ctx st r st'] by simp

interpretation type_resolver: resolver
  "\<lambda>ref. GoType n m ref ctx" rn_Diagnostics "\<lambda>r. res_Kind r = KindUnsupported"
  for n m ctx
  by unfold_locales (auto dest!: GoType_reporting simp: reports_def)

section \<open>Properties\<close>

text \<open>
  Every degradation is in the diagnostics. Resolving any sequence of references keeps the
  diagnostics recorded before as a prefix and appends at least one for each reference that
  degrades to an untyped value, so the ratchet cannot miss one.
\<close>

theorem resolve_all_diagnostics:
  assumes "resolve_all (\<lambda>ref. GoType n m ref ctx) refs st = Some (rs, st')"
  shows "prefix (rn_Diagnostics st) (rn_Diagnostics st') \<and> length rs = length refs \<and>
    length (rn_Diagnostics st) + length (filter (\<lambda>r. res_Kind r = KindUnsupported) rs)
      \<le> length (rn_Diagnostics st')"
  by (rule type_resolver.resolve_all_log [OF assms])

text \<open>
  \<^bold>\<open>C6\<close>: resolution returns on every reference when typedefs are not circular, with one flattening
  per known typedef as the bound; on a typedef that is its own underlying type, seen across a
  severed edge, no bound is enough.
\<close>

theorem GoType_total:
  assumes "acyclic (typedef_uses (reg_TypedefIndex (mp_Registry m)))"
  shows "GoType (Suc (length (reg_TypedefIndex (mp_Registry m)))) m ref ctx st \<noteq> None"
  by (rule GoType_returns_aux(1) [OF assms ranked_below_bound])

definition no_resolution :: resolution where
  "no_resolution = \<lparr>rn_Diagnostics = [], rn_Referenced = [], rn_Imports = []\<rparr>"

definition sample_mapper :: "registry \<Rightarrow> mapper" where
  "sample_mapper r = \<lparr>mp_Registry = r, mp_ModulePath = ''example.com/m'', mp_Win32ModulePath = [],
     mp_LocalBindingsRoot = [], mp_Blocked = ComputeBlockedImports r, mp_SkippedTypes = []\<rparr>"

text \<open>
  \<open>Foundation\<close> uses a typedef of \<open>Gdi\<close> over a structure of \<open>Printing\<close>, \<open>Gdi\<close> uses \<open>Foundation\<close>
  twice, and \<open>Printing\<close> uses \<open>Foundation\<close>.
\<close>

definition plain_typedef :: "type_ref \<Rightarrow> typedef_def" where
  "plain_typedef u = \<lparr>td_Underlying = u, td_IsMetadataTypedef = False, td_FreeFunc = [],
     td_InvalidValues = [], td_AlsoUsableFor = [], td_Availability = no_availability\<rparr>"

definition flat_foundation :: namespace_meta where
  "flat_foundation = (empty_namespace ''Foundation'')\<lparr>ns_Structs :=
     [(''DEVICE'', ex_struct [ApiRef ''Typedef'' ''Gdi'' ''PJOB''])]\<rparr>"

definition flat_gdi :: namespace_meta where
  "flat_gdi = (empty_namespace ''Gdi'')\<lparr>ns_Structs :=
     [(''DC'', ex_struct [ApiRef ''Struct'' ''Foundation'' ''RECT'', ApiRef ''Struct'' ''Foundation'' ''POINT''])],
     ns_Typedefs := [(''PJOB'', plain_typedef (PointerTo (ApiRef ''Struct'' ''Printing'' ''JOB'')))]\<rparr>"

definition flat_printing :: namespace_meta where
  "flat_printing = (empty_namespace ''Printing'')\<lparr>ns_Structs :=
     [(''JOB'', ex_struct [ApiRef ''Struct'' ''Foundation'' ''RECT''])]\<rparr>"

definition flat_registry :: registry where
  "flat_registry = ex_registry [flat_foundation, flat_gdi, flat_printing]"

lemma resolve_all_diagnostics_witness:
  "\<exists>rs st'. resolve_all (\<lambda>ref. GoType 9 (sample_mapper flat_registry) ref
       \<lparr>cx_Namespace = ''Foundation'', cx_IsReturn = False\<rparr>)
     [Native ''Int32'', Native ''Decimal'', ApiRef ''Struct'' ''Gdi'' ''DC''] no_resolution = Some (rs, st') \<and>
     2 \<le> length (rn_Diagnostics st')"
proof -
  let ?run = "resolve_all (\<lambda>ref. GoType 9 (sample_mapper flat_registry) ref
       \<lparr>cx_Namespace = ''Foundation'', cx_IsReturn = False\<rparr>)
     [Native ''Int32'', Native ''Decimal'', ApiRef ''Struct'' ''Gdi'' ''DC''] no_resolution"
  have kinds: "map_option (map res_Kind \<circ> fst) ?run = Some [KindScalar, KindUnsupported, KindUnsupported]"
    by code_simp
  then obtain rs st' where run: "?run = Some (rs, st')"
    and k: "map res_Kind rs = [KindScalar, KindUnsupported, KindUnsupported]" by auto
  then obtain a b c where "rs = [a, b, c]" "res_Kind a = KindScalar" "res_Kind b = KindUnsupported"
    "res_Kind c = KindUnsupported" by (auto simp: Cons_eq_map_conv map_eq_Cons_conv)
  with resolve_all_diagnostics [OF run] run show ?thesis by auto
qed

lemma GoType_total_witness:
  "GoType 2 (sample_mapper flat_registry) (ApiRef ''Typedef'' ''Gdi'' ''PJOB'')
     \<lparr>cx_Namespace = ''Foundation'', cx_IsReturn = False\<rparr> no_resolution \<noteq> None"
proof -
  have idx: "reg_TypedefIndex (mp_Registry (sample_mapper flat_registry)) =
      [(''Gdi.PJOB'', plain_typedef (PointerTo (ApiRef ''Struct'' ''Printing'' ''JOB'')))]"
    by code_simp
  have "typedef_uses (reg_TypedefIndex (mp_Registry (sample_mapper flat_registry))) = {}"
    unfolding idx typedef_uses_def by (auto simp: plain_typedef_def qual_key_def split: if_splits)
  then have "acyclic (typedef_uses (reg_TypedefIndex (mp_Registry (sample_mapper flat_registry))))"
    by (simp add: acyclic_def)
  from GoType_total [OF this] show ?thesis by (simp add: idx numeral_2_eq_2)
qed

text \<open>
  A typedef that is its own underlying type is never resolved across a severed edge: whatever
  the bound, it is exceeded, so the code recurses without end.
\<close>

theorem GoType_circular:
  assumes "Typedef (mp_Registry m) api name = Some td" and "td_Underlying td = ApiRef ''Typedef'' api name"
    and "(cx_Namespace ctx, api) \<in> set (mp_Blocked m)" and "api \<noteq> cx_Namespace ctx"
  shows "GoType n m (ApiRef ''Typedef'' api name) ctx st = None"
proof (induction n arbitrary: st)
  case 0
  show ?case using assms
    by (simp add: GoType.simps [of 0] resolveApiRef.simps [of 0] resolveBlockedRef.simps [of 0]
        is_void_pointer_def Let_def)
next
  case (Suc n)
  show ?case using assms
    by (simp add: GoType.simps [of "Suc n"] resolveApiRef.simps [of "Suc n"]
        resolveBlockedRef.simps [of "Suc n"] is_void_pointer_def Let_def Suc)
qed

text \<open>The imports the references of all namespaces cause, as a relation between namespaces.\<close>

definition emitted_imports :: "nat \<Rightarrow> mapper \<Rightarrow> (string \<times> string) set" where
  "emitted_imports n m = {(ns_Namespace meta, a) | meta a.
     meta \<in> set (reg_Namespaces (mp_Registry m)) \<and>
     (\<exists>ref ret st r st'. ref \<in> set (WalkNamespaceRefs meta) \<and>
        GoType n m ref \<lparr>cx_Namespace = ns_Namespace meta, cx_IsReturn = ret\<rparr> st = Some (r, st') \<and>
        a \<in> set (rn_Referenced st') - set (rn_Referenced st))}"

definition typedefs_local :: "registry \<Rightarrow> bool" where
  "typedefs_local r \<longleftrightarrow> (\<forall>api name td. Typedef r api name = Some td \<longrightarrow>
     ref_apis (td_Underlying td) \<subseteq> {api, []})"

lemma walk_ref_trans: "x \<in> set (walk_ref ref) \<Longrightarrow> set (walk_ref x) \<subseteq> set (walk_ref ref)"
proof (induction ref rule: walk_ref.induct)
  case (1 ref)
  then show ?case
    by (cases "ref_Child ref") (auto simp: walk_ref.simps [of ref])
qed

text \<open>A list of references with everything they contain.\<close>

definition walk_closed :: "type_ref list \<Rightarrow> bool" where
  "walk_closed xs \<longleftrightarrow> (\<forall>x \<in> set xs. set (walk_ref x) \<subseteq> set xs)"

lemma walk_closed_walk_ref [intro]: "walk_closed (walk_ref r)"
  using walk_ref_trans by (auto simp: walk_closed_def)

lemma walk_closed_append [intro]: "walk_closed xs \<Longrightarrow> walk_closed ys \<Longrightarrow> walk_closed (xs @ ys)"
  by (auto simp: walk_closed_def)

lemma walk_closed_concat [intro]: "(\<And>x. x \<in> set xs \<Longrightarrow> walk_closed (f x)) \<Longrightarrow> walk_closed (concat (map f xs))"
  by (fastforce simp: walk_closed_def)

lemma walk_closed_struct [intro]: "walk_closed (walk_struct s)"
proof (induction s)
  case (StructDef fs u p sz nested av ssf variants)
  have "walk_closed (concat (map (\<lambda>(n, s). walk_struct s) nested))"
    using StructDef.IH(1) by (intro walk_closed_concat) auto
  then show ?case using StructDef.IH(2) by auto
qed

lemma walk_closed_params [intro]: "walk_closed (walk_params ps)"
  by (auto simp: walk_params_def)

lemma walk_closed_namespace: "walk_closed (WalkNamespaceRefs meta)"
  unfolding WalkNamespaceRefs_def by (intro walk_closed_append walk_closed_concat) auto

lemma WalkNamespaceRefs_closed:
  "ref \<in> set (WalkNamespaceRefs meta) \<Longrightarrow> set (walk_ref ref) \<subseteq> set (WalkNamespaceRefs meta)"
  using walk_closed_namespace by (simp add: walk_closed_def)

lemma emitted_imports_within:
  assumes "distinct (map ns_Namespace (reg_Namespaces (mp_Registry m)))"
    and "typedefs_local (mp_Registry m)"
  shows "emitted_imports n m \<subseteq>
    edge_set (reference_edges (reg_Namespaces (mp_Registry m))) - set (mp_Blocked m)"
proof (rule subrelI)
  fix s a assume "(s, a) \<in> emitted_imports n m"
  then obtain meta ref ret st r st' where meta: "meta \<in> set (reg_Namespaces (mp_Registry m))"
    and s: "s = ns_Namespace meta" and ref: "ref \<in> set (WalkNamespaceRefs meta)"
    and g: "GoType n m ref \<lparr>cx_Namespace = s, cx_IsReturn = ret\<rparr> st = Some (r, st')"
    and a: "a \<in> set (rn_Referenced st')" "a \<notin> set (rn_Referenced st)"
    unfolding emitted_imports_def by blast
  let ?A = "ref_apis ref \<union> {[]}"
  have "flat_closed m s ?A"
    using assms(2) unfolding flat_closed_def typedefs_local_def by blast
  then have "flat_closed m (cx_Namespace \<lparr>cx_Namespace = s, cx_IsReturn = ret\<rparr>) ?A" by simp
  from GoType_reports_aux(1) [OF this _ g] have "imports_within m (importable m s ?A) st st'" by auto
  with a have a': "a \<in> importable m s ?A" unfolding imports_within_def by blast
  then obtain x where x: "x \<in> set (walk_ref ref)" "ref_Kind x = ''ApiRef''" "ref_Api x = a"
    unfolding importable_def ref_apis_def by blast
  then have "x \<in> set (WalkNamespaceRefs meta)" using WalkNamespaceRefs_closed [OF ref] by blast
  then have "(s, a) \<in> edge_set (reference_edges (reg_Namespaces (mp_Registry m)))"
    using edge_set_reference_edges [OF assms(1)] meta s x a' unfolding importable_def by blast
  moreover have "(s, a) \<notin> set (mp_Blocked m)" using a' by (simp add: importable_def)
  ultimately show "(s, a) \<in> edge_set (reference_edges (reg_Namespaces (mp_Registry m))) - set (mp_Blocked m)" by simp
qed

text \<open>
  \<^bold>\<open>C5\<close>: the generated packages compile as a module. When the mapper degrades the edges that
  \<open>ComputeBlockedImports\<close> severs and no typedef names a third namespace, the imports recorded while
  the references of all namespaces are resolved have no cycle.
\<close>

theorem emitted_imports_acyclic:
  assumes "distinct (map ns_Namespace (reg_Namespaces (mp_Registry m)))"
    and "typedefs_local (mp_Registry m)"
    and "mp_Blocked m = ComputeBlockedImports (mp_Registry m)"
  shows "acyclic (emitted_imports n m)"
proof (rule acyclic_subset)
  show "acyclic (edge_set (reference_edges (reg_Namespaces (mp_Registry m))) -
      set (ComputeBlockedImports (mp_Registry m)))"
    unfolding ComputeBlockedImports_def by (rule import_breaker.sever_acyclic)
  show "emitted_imports n m \<subseteq> edge_set (reference_edges (reg_Namespaces (mp_Registry m))) -
      set (ComputeBlockedImports (mp_Registry m))"
    using emitted_imports_within [OF assms(1,2)] assms(3) by simp
qed

lemma emitted_imports_acyclic_witness:
  "acyclic (emitted_imports 5 (sample_mapper (ex_registry [ex_foundation, ex_gdi])))"
proof (rule emitted_imports_acyclic)
  have ns: "reg_Namespaces (mp_Registry (sample_mapper (ex_registry [ex_foundation, ex_gdi]))) =
      [ex_foundation, ex_gdi]" by code_simp
  show "distinct (map ns_Namespace
      (reg_Namespaces (mp_Registry (sample_mapper (ex_registry [ex_foundation, ex_gdi])))))"
    unfolding ns by code_simp
  have "reg_TypedefIndex (mp_Registry (sample_mapper (ex_registry [ex_foundation, ex_gdi]))) = []"
    by code_simp
  then show "typedefs_local (mp_Registry (sample_mapper (ex_registry [ex_foundation, ex_gdi])))"
    by (simp add: typedefs_local_def Typedef_def)
  show "mp_Blocked (sample_mapper (ex_registry [ex_foundation, ex_gdi])) =
      ComputeBlockedImports (mp_Registry (sample_mapper (ex_registry [ex_foundation, ex_gdi])))"
    by (simp add: sample_mapper_def)
qed

text \<open>
  Without the condition on typedefs the packages may import each other in a circle. Only the
  edge from \<open>Foundation\<close> to \<open>Gdi\<close> is severed; flattening \<open>Gdi.PJOB\<close> in \<open>Foundation\<close> then imports
  \<open>Printing\<close>, to which \<open>Foundation\<close> has no edge in the graph, and \<open>Printing\<close> imports \<open>Foundation\<close>.
\<close>

theorem flattening_import_cycle:
  "ComputeBlockedImports flat_registry = [(''Foundation'', ''Gdi'')] \<and>
   edge_weight (reference_edges (reg_Namespaces flat_registry)) ''Foundation'' ''Printing'' = None \<and>
   (''Foundation'', ''Printing'') \<in> emitted_imports 1 (sample_mapper flat_registry) \<and>
   (''Printing'', ''Foundation'') \<in> emitted_imports 1 (sample_mapper flat_registry)"
proof (intro conjI)
  show "ComputeBlockedImports flat_registry = [(''Foundation'', ''Gdi'')]" by code_simp
  show "edge_weight (reference_edges (reg_Namespaces flat_registry)) ''Foundation'' ''Printing'' = None"
    by code_simp
  have ns: "reg_Namespaces (mp_Registry (sample_mapper flat_registry)) = [flat_foundation, flat_gdi, flat_printing]"
    "ns_Namespace flat_foundation = ''Foundation''" "ns_Namespace flat_printing = ''Printing''"
    by code_simp+
  have refs: "ApiRef ''Typedef'' ''Gdi'' ''PJOB'' \<in> set (WalkNamespaceRefs flat_foundation)"
    "ApiRef ''Struct'' ''Foundation'' ''RECT'' \<in> set (WalkNamespaceRefs flat_printing)"
    by code_simp+
  have run: "map_option (rn_Referenced \<circ> snd) (GoType 1 (sample_mapper flat_registry) (ApiRef ''Typedef'' ''Gdi'' ''PJOB'')
      \<lparr>cx_Namespace = ''Foundation'', cx_IsReturn = False\<rparr> no_resolution) = Some [''Printing'']"
    "map_option (rn_Referenced \<circ> snd) (GoType 1 (sample_mapper flat_registry) (ApiRef ''Struct'' ''Foundation'' ''RECT'')
      \<lparr>cx_Namespace = ''Printing'', cx_IsReturn = False\<rparr> no_resolution) = Some [''Foundation'']"
    by code_simp+
  have no: "rn_Referenced no_resolution = []" by (simp add: no_resolution_def)
  have import: "(ns_Namespace meta, a) \<in> emitted_imports n m"
    if "meta \<in> set (reg_Namespaces (mp_Registry m))" "ref \<in> set (WalkNamespaceRefs meta)"
      "map_option (rn_Referenced \<circ> snd)
        (GoType n m ref \<lparr>cx_Namespace = ns_Namespace meta, cx_IsReturn = False\<rparr> no_resolution) = Some [a]"
    for meta a n m ref
  proof -
    from that(3) obtain r st' where
      "GoType n m ref \<lparr>cx_Namespace = ns_Namespace meta, cx_IsReturn = False\<rparr> no_resolution = Some (r, st')"
      "rn_Referenced st' = [a]" by auto
    with that(1,2) show ?thesis unfolding emitted_imports_def using no by fastforce
  qed
  show "(''Foundation'', ''Printing'') \<in> emitted_imports 1 (sample_mapper flat_registry)"
    using import [of flat_foundation "sample_mapper flat_registry", OF _ refs(1)] run(1) by (simp add: ns)
  show "(''Printing'', ''Foundation'') \<in> emitted_imports 1 (sample_mapper flat_registry)"
    using import [of flat_printing "sample_mapper flat_registry", OF _ refs(2)] run(2) by (simp add: ns)
qed

lemma GoType_circular_witness:
  "GoType 7 \<lparr>mp_Registry = (empty_registry [])\<lparr>reg_TypedefIndex := [(''B.T'', plain_typedef (ApiRef ''Typedef'' ''B'' ''T''))]\<rparr>,
       mp_ModulePath = [], mp_Win32ModulePath = [], mp_LocalBindingsRoot = [], mp_Blocked = [(''A'', ''B'')],
       mp_SkippedTypes = []\<rparr>
     (ApiRef ''Typedef'' ''B'' ''T'') \<lparr>cx_Namespace = ''A'', cx_IsReturn = False\<rparr> no_resolution = None"
  by (rule GoType_circular [where td = "plain_typedef (ApiRef ''Typedef'' ''B'' ''T'')"])
     (simp_all add: Typedef_def qual_key_def plain_typedef_def)

end
