(* ===== verification/Layout.thy ===== *)
theory Layout
  imports Registry "HOL-Library.AList"
begin

text \<open>
  The C layout engine of \<open>internal/codegen/emit/raw/sizes.go\<close>: sizes, alignments and field offsets
  in the generator's 32-bit unsigned arithmetic (it wraps), the census of scalar leaves that
  decides the ARM64 rule for homogeneous floating-point aggregates, the variant choice of
  \<open>archstructs.go\<close>, and the opaque blobs of \<open>types.go\<close>.

  The layout functions follow references through the registry, where a structure may contain
  itself (which no valid metadata has); their first argument bounds the number of registry lookups
  along a path. \<open>None\<close> is an exceeded bound, or the nil dereference of an array reference without
  element type.
\<close>

section \<open>Layouts\<close>

record layout =
  l_size :: "32 word"
  l_align :: "32 word"
  l_ok :: bool
  l_f32 :: "32 word"
  l_f64 :: "32 word"
  l_other :: "32 word"

definition no_layout :: layout where
  "no_layout = \<lparr>l_size = 0, l_align = 0, l_ok = False, l_f32 = 0, l_f64 = 0, l_other = 0\<rparr>"

abbreviation scalar_layout :: "32 word \<Rightarrow> layout" where
  "scalar_layout n \<equiv> \<lparr>l_size = n, l_align = n, l_ok = True, l_f32 = 0, l_f64 = 0, l_other = 1\<rparr>"

definition wordLayout :: layout where
  "wordLayout = scalar_layout 8"

definition nativeLayouts :: "layout gomap" where
  "nativeLayouts =
     [(''Boolean'', scalar_layout 1), (''SByte'', scalar_layout 1), (''Byte'', scalar_layout 1),
      (''Char'', scalar_layout 2), (''Int16'', scalar_layout 2), (''UInt16'', scalar_layout 2),
      (''Int32'', scalar_layout 4), (''UInt32'', scalar_layout 4),
      (''Single'', \<lparr>l_size = 4, l_align = 4, l_ok = True, l_f32 = 1, l_f64 = 0, l_other = 0\<rparr>),
      (''Int64'', scalar_layout 8), (''UInt64'', scalar_layout 8),
      (''Double'', \<lparr>l_size = 8, l_align = 8, l_ok = True, l_f32 = 0, l_f64 = 1, l_other = 0\<rparr>),
      (''IntPtr'', scalar_layout 8), (''UIntPtr'', scalar_layout 8),
      (''Guid'', \<lparr>l_size = 16, l_align = 4, l_ok = True, l_f32 = 0, l_f64 = 0, l_other = 4\<rparr>)]"

text \<open>A lookup of a missing key gives the zero value.\<close>

definition native_layout :: "string \<Rightarrow> layout" where
  "native_layout name = (case map_of nativeLayouts name of Some l \<Rightarrow> l | None \<Rightarrow> no_layout)"

text \<open>\<open>hfa\<close>: \<open>(count, isFloat64, ok)\<close>.\<close>

definition hfa :: "layout \<Rightarrow> 32 word \<times> bool \<times> bool" where
  "hfa l =
     (if \<not> l_ok l \<or> l_other l \<noteq> 0 then (0, False, False)
      else if l_f32 l > 0 \<and> l_f64 l = 0 \<and> l_f32 l \<le> 4 then (l_f32 l, False, True)
      else if l_f64 l > 0 \<and> l_f32 l = 0 \<and> l_f64 l \<le> 4 then (l_f64 l, True, True)
      else (0, False, False))"

definition registerSized :: "layout \<Rightarrow> bool" where
  "registerSized l \<longleftrightarrow> l_size l \<in> {1, 2, 4, 8} \<and> l_ok l"

definition goBaseToNative :: "string \<Rightarrow> string" where
  "goBaseToNative goBase =
     (if goBase = ''int8'' then ''SByte''
      else if goBase = ''uint8'' then ''Byte''
      else if goBase = ''int16'' then ''Int16''
      else if goBase = ''uint16'' then ''UInt16''
      else if goBase = ''int32'' then ''Int32''
      else if goBase = ''uint32'' then ''UInt32''
      else if goBase = ''int64'' then ''Int64''
      else if goBase = ''uint64'' then ''UInt64''
      else ''UInt32'')"

definition roundUp :: "32 word \<Rightarrow> 32 word \<Rightarrow> 32 word" where
  "roundUp v m = (if m = 0 then v else (v + m - 1) div m * m)"

section \<open>Architecture variants\<close>

definition emitArches :: "string list" where
  "emitArches = [''amd64'', ''arm64'']"

definition arch_matches :: "struct_def \<Rightarrow> string \<Rightarrow> bool" where
  "arch_matches s want \<longleftrightarrow> av_Architectures (st_Availability s) = [] \<or>
     want \<in> set (av_Architectures (st_Availability s))"

text \<open>
  The variant for an architecture with its position (0 is the definition itself, \<open>i + 1\<close> its
  variant \<open>i\<close>): the code compares pointers to variants, the model their positions.
\<close>

definition find_variant :: "struct_def \<Rightarrow> string \<Rightarrow> (nat \<times> struct_def) option" where
  "find_variant d want =
     (if arch_matches d want then Some (0, d)
      else find (\<lambda>(i, s). arch_matches s want) (enumerate 1 (st_ArchVariants d)))"

definition pickVariant :: "struct_def \<Rightarrow> string \<Rightarrow> (nat \<times> struct_def) option" where
  "pickVariant d arch =
     (case find_variant d arch of
        Some v \<Rightarrow> Some v
      | None \<Rightarrow> if arch = ''arm64'' then find_variant d ''amd64'' else None)"

definition pickAmd64Variant :: "struct_def \<Rightarrow> (nat \<times> struct_def) option" where
  "pickAmd64Variant d = pickVariant d ''amd64''"

definition currentLayoutArch :: "string \<Rightarrow> string" where
  "currentLayoutArch layoutArch = (if layoutArch = [] then ''amd64'' else layoutArch)"

section \<open>The layout engine\<close>

record struct_layout =
  sl_size :: "32 word"
  sl_align :: "32 word"
  sl_offsets :: "32 word list"
  sl_ok :: bool
  sl_f32 :: "32 word"
  sl_f64 :: "32 word"
  sl_other :: "32 word"

definition empty_struct_layout :: struct_layout where
  "empty_struct_layout = \<lparr>sl_size = 0, sl_align = 0, sl_offsets = [], sl_ok = False,
     sl_f32 = 0, sl_f64 = 0, sl_other = 0\<rparr>"

text \<open>One round of the field loop of \<open>structLayoutOf\<close>, and what follows the loop.\<close>

definition clamped_align :: "bool \<Rightarrow> 16 word \<Rightarrow> 32 word \<Rightarrow> 32 word" where
  "clamped_align clampPacking packing a =
     (if clampPacking \<and> packing \<noteq> 0 \<and> ucast packing < a then ucast packing else a)"

definition place_field :: "bool \<Rightarrow> 32 word \<Rightarrow> layout \<Rightarrow> struct_layout \<Rightarrow> struct_layout" where
  "place_field isUnion fieldAlign field r =
     (let r = (if fieldAlign > sl_align r then r\<lparr>sl_align := fieldAlign\<rparr> else r);
          r = (if isUnion then
                 r\<lparr>sl_offsets := sl_offsets r @ [0],
                   sl_size := (if l_size field > sl_size r then l_size field else sl_size r)\<rparr>
               else
                 (let off = roundUp (sl_size r) fieldAlign
                  in r\<lparr>sl_offsets := sl_offsets r @ [off], sl_size := off + l_size field\<rparr>))
      in r\<lparr>sl_f32 := sl_f32 r + l_f32 field, sl_f64 := sl_f64 r + l_f64 field,
          sl_other := sl_other r + l_other field\<rparr>)"

definition finish_layout :: "struct_layout \<Rightarrow> struct_layout" where
  "finish_layout r =
     (let r = (if sl_align r = 0 then r\<lparr>sl_align := 1\<rparr> else r)
      in r\<lparr>sl_size := roundUp (sl_size r) (sl_align r), sl_ok := True\<rparr>)"

definition layout_of_struct_layout :: "struct_layout \<Rightarrow> layout" where
  "layout_of_struct_layout d = \<lparr>l_size = sl_size d, l_align = sl_align d, l_ok = sl_ok d,
     l_f32 = sl_f32 d, l_f64 = sl_f64 d, l_other = sl_other d\<rparr>"

definition array_layout :: "32 word \<Rightarrow> layout \<Rightarrow> layout" where
  "array_layout n e =
     (if \<not> l_ok e \<or> n = 0 then no_layout
      else \<lparr>l_size = l_size e * n, l_align = l_align e, l_ok = True, l_f32 = l_f32 e * n,
            l_f64 = l_f64 e * n, l_other = l_other e * n\<rparr>)"

definition nested_size :: "struct_def gomap \<Rightarrow> nat" where
  "nested_size nested = sum_list (map (\<lambda>(k, s). Suc (size s)) nested)"

lemma size_ref_Child_less: "ref_Child ref = Some c \<Longrightarrow> size c < size ref"
  by (cases ref) auto

lemma nested_size_lookup: "map_of nested k = Some s \<Longrightarrow> size s < nested_size nested"
  by (induction nested) (auto simp: nested_size_def split: if_splits)

lemma nested_size_struct: "nested_size (st_NestedTypes d) < size d"
proof (cases d)
  case (StructDef fs u p sz nested av ssf variants)
  have "nested_size nested \<le> size_list (size_prod (\<lambda>_. 0) size) nested"
    by (induction nested) (auto simp: nested_size_def)
  with StructDef show ?thesis by simp
qed

function layoutOf :: "nat \<Rightarrow> registry \<Rightarrow> string \<Rightarrow> type_ref \<Rightarrow> struct_def gomap \<Rightarrow> layout option"
  and layoutOfApiRef :: "nat \<Rightarrow> registry \<Rightarrow> string \<Rightarrow> type_ref \<Rightarrow> struct_def gomap \<Rightarrow> layout option"
  and layoutOfStruct :: "nat \<Rightarrow> registry \<Rightarrow> string \<Rightarrow> struct_def \<Rightarrow> layout option"
  and place_fields :: "nat \<Rightarrow> registry \<Rightarrow> string \<Rightarrow> struct_def \<Rightarrow> bool \<Rightarrow> struct_field list \<Rightarrow>
    struct_layout \<Rightarrow> struct_layout option"
where
  "layoutOf n reg arch ref nested =
     (if ref_Kind ref = ''Native'' then Some (native_layout (ref_Name ref))
      else if ref_Kind ref = ''PointerTo'' then Some wordLayout
      else if ref_Kind ref = ''Array'' then
        (case ref_Child ref of
           None \<Rightarrow> None
         | Some c \<Rightarrow> map_option (array_layout (ref_ArrayLen ref)) (layoutOf n reg arch c nested))
      else if ref_Kind ref = ''ApiRef'' then layoutOfApiRef n reg arch ref nested
      else Some no_layout)"
| "layoutOfApiRef n reg arch ref nested =
     (if ref_Api ref = [] then
        (case map_of nested (ref_Name ref) of
           Some d \<Rightarrow> layoutOfStruct n reg arch d
         | None \<Rightarrow> Some no_layout)
      else if ref_TargetKind ref = ''Enum'' then
        (let base = EnumBase reg (ref_Api ref) (ref_Name ref)
         in Some (if base \<noteq> [] then native_layout (goBaseToNative base) else native_layout ''Int32''))
      else if ref_TargetKind ref = ''Typedef'' then
        (case Typedef reg (ref_Api ref) (ref_Name ref) of
           Some td \<Rightarrow> (case n of 0 \<Rightarrow> None | Suc n \<Rightarrow> layoutOf n reg arch (td_Underlying td) [])
         | None \<Rightarrow> Some no_layout)
      else if ref_TargetKind ref = ''FunctionPointer'' \<or> ref_TargetKind ref = ''Com'' then Some wordLayout
      else if ref_TargetKind ref = ''Struct'' \<or> ref_TargetKind ref = ''Union'' then
        (case map_of (reg_StructIndex reg) (qual_key (ref_Api ref) (ref_Name ref)) of
           Some d \<Rightarrow>
             (case pickVariant d (currentLayoutArch arch) of
                Some (i, chosen) \<Rightarrow> (case n of 0 \<Rightarrow> None | Suc n \<Rightarrow> layoutOfStruct n reg arch chosen)
              | None \<Rightarrow> Some no_layout)
         | None \<Rightarrow> Some no_layout)
      else Some no_layout)"
| "layoutOfStruct n reg arch d =
     map_option layout_of_struct_layout (place_fields n reg arch d True (st_Fields d) empty_struct_layout)"
| "place_fields n reg arch d clampPacking [] r = Some (finish_layout r)"
| "place_fields n reg arch d clampPacking (f # fs) r =
     (case layoutOf n reg arch (sf_Type f) (st_NestedTypes d) of
        None \<Rightarrow> None
      | Some field \<Rightarrow>
          if \<not> l_ok field then Some empty_struct_layout
          else place_fields n reg arch d clampPacking fs
                 (place_field (st_IsUnion d) (clamped_align clampPacking (st_PackingSize d) (l_align field))
                    field r))"
  by pat_completeness auto
termination
  by (relation "inv_image (less_than <*lex*> less_than <*lex*> less_than)
       (\<lambda>x. case x of
          Inl (Inl (n, reg, arch, ref, nested)) \<Rightarrow> (n, nested_size nested, 2 * size ref + 1)
        | Inl (Inr (n, reg, arch, ref, nested)) \<Rightarrow> (n, nested_size nested, 2 * size ref)
        | Inr (Inl (n, reg, arch, d)) \<Rightarrow> (n, size d, Suc (length (st_Fields d)))
        | Inr (Inr (n, reg, arch, d, c, fs, r)) \<Rightarrow> (n, size d, length fs))")
     (auto simp: nested_size_lookup nested_size_struct dest: size_ref_Child_less)

declare layoutOf.simps [simp del] layoutOfApiRef.simps [simp del] layoutOfStruct.simps [simp del]
  place_fields.simps(2) [simp del]

definition structLayoutOf :: "nat \<Rightarrow> registry \<Rightarrow> string \<Rightarrow> struct_def \<Rightarrow> bool \<Rightarrow> struct_layout option" where
  "structLayoutOf n reg arch d clampPacking =
     place_fields n reg arch d clampPacking (st_Fields d) empty_struct_layout"

definition sameLayout :: "struct_layout \<Rightarrow> struct_layout \<Rightarrow> bool" where
  "sameLayout a b \<longleftrightarrow> sl_size a = sl_size b \<and> sl_align a = sl_align b \<and> sl_offsets a = sl_offsets b"

section \<open>Opaque blobs\<close>

definition blob_element :: "32 word \<Rightarrow> string \<times> 32 word" where
  "blob_element align =
     (if align = 8 then (''uint64'', 8)
      else if align = 4 then (''uint32'', 4)
      else if align = 2 then (''uint16'', 2)
      else (''byte'', 1))"

definition blob_type :: "layout \<Rightarrow> string option" where
  "blob_type l =
     (if \<not> l_ok l \<or> l_size l = 0 then None
      else (let (element, elementSize) = blob_element (l_align l)
            in Some (''['' @ show_nat (unat (l_size l div elementSize)) @ '']'' @ element)))"

definition layoutBlobType :: "nat \<Rightarrow> registry \<Rightarrow> string \<Rightarrow> type_ref \<Rightarrow> string option option" where
  "layoutBlobType n reg arch ref = map_option blob_type (layoutOf n reg arch ref [])"

section \<open>Rounding\<close>

definition up :: "nat \<Rightarrow> nat \<Rightarrow> nat" where
  "up v m = (v + m - 1) div m * m"

lemma up_dvd: "m dvd up v m"
  by (simp add: up_def)

lemma up_ge: "0 < m \<Longrightarrow> v \<le> up v m"
proof -
  assume m: "0 < m"
  have "v + m - 1 = (v + m - 1) div m * m + (v + m - 1) mod m" by simp
  moreover have "(v + m - 1) mod m < m" using m by simp
  ultimately show ?thesis unfolding up_def by linarith
qed

lemma up_less: "0 < m \<Longrightarrow> up v m < v + m"
proof -
  assume "0 < m"
  then have "(v + m - 1) div m * m \<le> v + m - 1" "v + m - 1 < v + m" by simp_all
  then show ?thesis unfolding up_def by linarith
qed

lemma unat_roundUp:
  assumes "m \<noteq> 0" "unat v + unat m \<le> 2 ^ 32"
  shows "unat (roundUp v m) = up (unat v) (unat m)"
proof -
  have m: "0 < unat m" using assms(1) by (simp add: unat_gt_0)
  have m1: "unat (m - 1) = unat m - 1" using assms(1) by (rule unat_minus_one)
  have vm: "unat (v + m - 1) = unat v + unat m - 1"
  proof -
    have "unat v + unat (m - 1) < 2 ^ 32" using assms(2) m m1 by linarith
    then have "unat (v + (m - 1)) = unat v + unat (m - 1)"
      using unat_add_lem [of v "m - 1"] by simp
    then show ?thesis using m m1 by (simp add: add_diff_eq)
  qed
  have "unat ((v + m - 1) div m) * unat m = up (unat v) (unat m)"
    by (simp add: up_def unat_div vm)
  moreover have "up (unat v) (unat m) < 2 ^ 32"
    using up_less [OF m, of "unat v"] assms(2) by linarith
  ultimately have "unat ((v + m - 1) div m * m) = up (unat v) (unat m)"
    using unat_mult_lem [of "(v + m - 1) div m" m] by simp
  then show ?thesis using assms(1) by (simp add: roundUp_def)
qed

text \<open>A multiple stays a multiple of a power of two when the product wraps.\<close>

lemma unat_dvd_mult:
  fixes a m :: "32 word"
  assumes "unat m dvd 2 ^ 32"
  shows "unat m dvd unat (a * m)"
  using assms by (simp add: unat_word_ariths dvd_mod)

lemma roundUp_dvd: "unat m dvd 2 ^ 32 \<Longrightarrow> unat m dvd unat (roundUp v m)"
proof (cases "m = 0")
  case False
  assume "unat m dvd 2 ^ 32"
  then have "unat m dvd unat ((v + m - 1) div m * m)" by (rule unat_dvd_mult)
  with False show ?thesis by (simp add: roundUp_def)
qed simp

section \<open>Alignments are powers of two\<close>

definition small_powers :: "32 word set" where
  "small_powers = {1, 2, 4, 8}"

definition sound_layout :: "layout \<Rightarrow> bool" where
  "sound_layout l \<longleftrightarrow> (l_ok l \<longrightarrow> l_align l \<in> small_powers \<and> unat (l_align l) dvd unat (l_size l))"

fun packing_ok :: "struct_def \<Rightarrow> bool" where
  "packing_ok (StructDef fs u p sz nested av ssf variants) \<longleftrightarrow>
     (p \<in> {0, 1, 2, 4} \<or> 8 \<le> p) \<and> list_all (\<lambda>(k, s). packing_ok s) nested \<and> list_all packing_ok variants"

definition registry_packing_ok :: "registry \<Rightarrow> bool" where
  "registry_packing_ok reg \<longleftrightarrow> list_all (\<lambda>(k, d). packing_ok d) (reg_StructIndex reg)"

lemma small_power_dvd: "a \<in> small_powers \<Longrightarrow> unat a dvd 2 ^ 32"
  by (auto simp: small_powers_def)

lemma small_power_nonzero: "a \<in> small_powers \<Longrightarrow> a \<noteq> 0"
  by (auto simp: small_powers_def)

lemma sound_no_layout [simp]: "sound_layout no_layout"
  by (simp add: sound_layout_def no_layout_def)

lemma sound_wordLayout [simp]: "sound_layout wordLayout"
  by (simp add: sound_layout_def wordLayout_def small_powers_def)

lemma sound_native_layout [simp]: "sound_layout (native_layout name)"
  by (simp add: native_layout_def nativeLayouts_def sound_layout_def small_powers_def no_layout_def)

lemma sound_array_layout: "sound_layout e \<Longrightarrow> sound_layout (array_layout n e)"
proof -
  assume e: "sound_layout e"
  have "unat (l_align e) dvd unat (l_size e * n)" if "l_ok e"
  proof -
    have "unat (l_align e) dvd unat (l_size e)" "l_align e \<in> small_powers"
      using e that by (simp_all add: sound_layout_def)
    then show ?thesis using small_power_dvd by (auto simp: unat_word_ariths intro!: dvd_mod)
  qed
  with e show ?thesis by (simp add: sound_layout_def array_layout_def no_layout_def)
qed

text \<open>The invariant of the field loop: the alignment so far is zero (no field yet) or a power of two.\<close>

definition loop_align_ok :: "struct_layout \<Rightarrow> bool" where
  "loop_align_ok r \<longleftrightarrow> sl_align r = 0 \<or> sl_align r \<in> small_powers"

lemma clamped_align_small:
  assumes "a \<in> small_powers" "p \<in> {0, 1, 2, 4} \<or> 8 \<le> p"
  shows "clamped_align c p a \<in> small_powers"
proof -
  have "\<not> ucast p < a" if "8 \<le> p"
  proof -
    have "unat (ucast p :: 32 word) = unat p" 
    proof -
      have "unat p < 2 ^ 32" using unsigned_less [of p, where 'a = nat] by simp
      then show ?thesis by (simp add: unsigned_ucast_eq take_bit_nat_eq_self)
    qed
    moreover have "8 \<le> unat p" using that by (simp add: word_le_nat_alt)
    moreover have "unat a \<le> 8" using assms(1) by (auto simp: small_powers_def)
    ultimately show ?thesis by (simp add: word_less_nat_alt)
  qed
  with assms show ?thesis by (auto simp: clamped_align_def small_powers_def)
qed

lemma place_field_align:
  "loop_align_ok r \<Longrightarrow> a \<in> small_powers \<Longrightarrow> loop_align_ok (place_field u a l r)"
  by (auto simp: loop_align_ok_def place_field_def Let_def)

lemma finish_layout_sound:
  assumes "loop_align_ok r"
  shows "sl_align (finish_layout r) \<in> small_powers \<and>
    unat (sl_align (finish_layout r)) dvd unat (sl_size (finish_layout r))"
proof (cases "sl_align r = 0")
  case True
  then show ?thesis by (simp add: finish_layout_def small_powers_def)
next
  case False
  then have "sl_align r \<in> small_powers" using assms by (simp add: loop_align_ok_def)
  with False roundUp_dvd [OF small_power_dvd, of "sl_align r"] show ?thesis
    by (simp add: finish_layout_def)
qed

lemma packing_ok_iff: "packing_ok d \<longleftrightarrow>
   (st_PackingSize d \<in> {0, 1, 2, 4} \<or> 8 \<le> st_PackingSize d) \<and>
   list_all (\<lambda>(k, s). packing_ok s) (st_NestedTypes d) \<and> list_all packing_ok (st_ArchVariants d)"
  by (cases d) simp

lemma find_variant_cases:
  "find_variant d want = Some (i, s) \<Longrightarrow> s = d \<or> s \<in> set (st_ArchVariants d)"
proof -
  assume a: "find_variant d want = Some (i, s)"
  show ?thesis
  proof (cases "arch_matches d want")
    case True
    with a show ?thesis by (simp add: find_variant_def)
  next
    case False
    with a have "(i, s) \<in> set (enumerate 1 (st_ArchVariants d))"
      by (auto simp: find_variant_def dest: find_SomeD)
    then have "st_ArchVariants d ! (i - 1) = s" "i - 1 < length (st_ArchVariants d)"
      by (auto simp: in_set_enumerate_eq)
    then show ?thesis using nth_mem by blast
  qed
qed

lemma pickVariant_cases:
  "pickVariant d arch = Some (i, s) \<Longrightarrow> s = d \<or> s \<in> set (st_ArchVariants d)"
  by (auto simp: pickVariant_def split: option.splits if_splits dest: find_variant_cases)

lemma pickVariant_packing: "pickVariant d arch = Some (i, s) \<Longrightarrow> packing_ok d \<Longrightarrow> packing_ok s"
  using pickVariant_cases [of d arch i s] packing_ok_iff [of d] by (auto simp: list_all_iff)

lemma registry_packing_lookup:
  "registry_packing_ok reg \<Longrightarrow> map_of (reg_StructIndex reg) k = Some d \<Longrightarrow> packing_ok d"
  by (auto simp: registry_packing_ok_def list_all_iff dest: map_of_SomeD)

lemma nested_packing_lookup:
  "list_all (\<lambda>(k, s). packing_ok s) nested \<Longrightarrow> map_of nested k = Some d \<Longrightarrow> packing_ok d"
  by (auto simp: list_all_iff dest: map_of_SomeD)

lemma layoutOf_sound_aux:
  "registry_packing_ok reg \<Longrightarrow> list_all (\<lambda>(k, s). packing_ok s) nested \<Longrightarrow>
     layoutOf n reg arch ref nested = Some l \<Longrightarrow> sound_layout l"
  "registry_packing_ok reg \<Longrightarrow> list_all (\<lambda>(k, s). packing_ok s) nested \<Longrightarrow>
     layoutOfApiRef n reg arch ref nested = Some l \<Longrightarrow> sound_layout l"
  "registry_packing_ok reg \<Longrightarrow> packing_ok d \<Longrightarrow> layoutOfStruct n reg arch d = Some l \<Longrightarrow> sound_layout l"
  "registry_packing_ok reg \<Longrightarrow> packing_ok d \<Longrightarrow> loop_align_ok r \<Longrightarrow>
     place_fields n reg arch d clampPacking fs r = Some sl \<Longrightarrow> sound_layout (layout_of_struct_layout sl)"
proof (induction n reg arch ref nested and n reg arch ref nested and n reg arch d and
    n reg arch d clampPacking fs r arbitrary: l and l and l and sl
    rule: layoutOf_layoutOfApiRef_layoutOfStruct_place_fields.induct)
  case (1 n reg arch ref nested)
  then show ?case unfolding layoutOf.simps [of n reg arch ref nested]
    by (auto split: if_splits option.splits intro: sound_array_layout)
next
  case (2 n reg arch ref nested)
  show ?case
  proof (cases "ref_Api ref = []")
    case True
    then show ?thesis using 2 nested_packing_lookup [OF "2.prems"(2)]
      unfolding layoutOfApiRef.simps [of n reg arch ref nested] by (auto split: option.splits)
  next
    case False
    have p: "packing_ok s" if "map_of (reg_StructIndex reg) (qual_key (ref_Api ref) (ref_Name ref)) = Some d"
      "pickVariant d (currentLayoutArch arch) = Some (i, s)" for d i s
      using that "2.prems"(1) registry_packing_lookup pickVariant_packing by blast
    show ?thesis using "2.prems" "2.IH"(2,3) False p
      unfolding layoutOfApiRef.simps [of n reg arch ref nested]
      by (auto simp: Let_def split: if_splits option.splits nat.splits)
  qed
next
  case (3 n reg arch d)
  have "loop_align_ok empty_struct_layout" by (simp add: loop_align_ok_def empty_struct_layout_def)
  with 3 show ?case unfolding layoutOfStruct.simps [of n reg arch d] by auto
next
  case (4 n reg arch d clampPacking r)
  then show ?case using finish_layout_sound [of r]
    by (auto simp: sound_layout_def layout_of_struct_layout_def)
next
  case (5 n reg arch d clampPacking f fs r)
  have nested: "list_all (\<lambda>(k, s). packing_ok s) (st_NestedTypes d)"
    and packing: "st_PackingSize d \<in> {0, 1, 2, 4} \<or> 8 \<le> st_PackingSize d"
    using "5.prems"(2) packing_ok_iff [of d] by blast+
  show ?case
  proof (cases "layoutOf n reg arch (sf_Type f) (st_NestedTypes d)")
    case None
    then show ?thesis using "5.prems"(4)
      unfolding place_fields.simps(2) [of n reg arch d clampPacking f fs r] by simp
  next
    case (Some field)
    show ?thesis
    proof (cases "l_ok field")
      case False
      then have "sl = empty_struct_layout" using "5.prems"(4) Some
        unfolding place_fields.simps(2) [of n reg arch d clampPacking f fs r] by simp
      then show ?thesis by (simp add: sound_layout_def layout_of_struct_layout_def empty_struct_layout_def)
    next
      case True
      then have "l_align field \<in> small_powers"
        using "5.IH"(1) [OF "5.prems"(1) nested Some] by (simp add: sound_layout_def)
      then have "loop_align_ok (place_field (st_IsUnion d)
          (clamped_align clampPacking (st_PackingSize d) (l_align field)) field r)"
        by (intro place_field_align "5.prems"(3) clamped_align_small packing)
      with True Some "5.prems" "5.IH"(2) show ?thesis
        unfolding place_fields.simps(2) [of n reg arch d clampPacking f fs r] by simp
    qed
  qed
qed

section \<open>The C layout, abstractly\<close>

text \<open>
  \<open>c_fields\<close> places fields given by size and alignment one after the other from an offset, in
  unbounded arithmetic: each at the next multiple of its alignment. The second component is the
  end of the last field.
\<close>

fun c_fields :: "(nat \<times> nat) list \<Rightarrow> nat \<Rightarrow> nat list \<times> nat" where
  "c_fields [] off = ([], off)"
| "c_fields ((s, a) # fs) off =
     (let (os, e) = c_fields fs (up off a + s) in (up off a # os, e))"

lemma c_fields_mono: "\<forall>(s, a) \<in> set fs. 0 < a \<Longrightarrow> off \<le> snd (c_fields fs off)"
proof (induction fs off rule: c_fields.induct)
  case (2 s a fs off)
  have "off \<le> up off a" using "2.prems" by (intro up_ge) simp
  also have "\<dots> \<le> up off a + s" by simp
  also have "\<dots> \<le> snd (c_fields fs (up off a + s))" using 2 by simp
  finally show ?case by (simp add: case_prod_beta Let_def)
qed simp

lemma length_c_fields [simp]: "length (fst (c_fields fs off)) = length fs"
  by (induction fs off rule: c_fields.induct) (simp_all add: case_prod_beta Let_def)

lemma c_fields_spec:
  assumes "\<forall>(s, a) \<in> set fs. 0 < a"
  shows "\<forall>i < length fs. snd (fs ! i) dvd fst (c_fields fs off) ! i \<and> off \<le> fst (c_fields fs off) ! i \<and>
     fst (c_fields fs off) ! i + fst (fs ! i) \<le> snd (c_fields fs off) \<and>
     (\<forall>j < length fs. i < j \<longrightarrow> fst (c_fields fs off) ! i + fst (fs ! i) \<le> fst (c_fields fs off) ! j)"
  using assms
proof (induction fs off rule: c_fields.induct)
  case (1 off)
  then show ?case by simp
next
  case (2 s a fs off)
  let ?o = "up off a" and ?r = "c_fields fs (up off a + s)"
  have r: "c_fields ((s, a) # fs) off = (?o # fst ?r, snd ?r)" by (simp add: case_prod_beta Let_def)
  have o: "off \<le> ?o" using "2.prems" by (intro up_ge) simp
  have e: "?o + s \<le> snd ?r" using "2.prems" by (intro c_fields_mono) simp
  have IH: "\<forall>i < length fs. snd (fs ! i) dvd fst ?r ! i \<and> ?o + s \<le> fst ?r ! i \<and>
      fst ?r ! i + fst (fs ! i) \<le> snd ?r \<and>
      (\<forall>j < length fs. i < j \<longrightarrow> fst ?r ! i + fst (fs ! i) \<le> fst ?r ! j)"
    using 2 by simp
  show ?case
    unfolding r fst_conv snd_conv
  proof (intro allI impI)
    fix i assume i: "i < length ((s, a) # fs)"
    show "snd (((s, a) # fs) ! i) dvd (?o # fst ?r) ! i \<and> off \<le> (?o # fst ?r) ! i \<and>
       (?o # fst ?r) ! i + fst (((s, a) # fs) ! i) \<le> snd ?r \<and>
       (\<forall>j < length ((s, a) # fs). i < j \<longrightarrow>
          (?o # fst ?r) ! i + fst (((s, a) # fs) ! i) \<le> (?o # fst ?r) ! j)"
    proof (cases i)
      case 0
      have "(?o # fst ?r) ! 0 + s \<le> (?o # fst ?r) ! j" if "j < length ((s, a) # fs)" "0 < j" for j
        using that IH by (cases j) auto
      with 0 o e up_dvd show ?thesis by simp
    next
      case (Suc k)
      then have "(?o # fst ?r) ! i + fst (((s, a) # fs) ! i) \<le> (?o # fst ?r) ! j"
        if "j < length ((s, a) # fs)" "i < j" for j
        using that IH i by (cases j) auto
      moreover have "off \<le> fst ?r ! k" using IH i Suc o by fastforce
      ultimately show ?thesis using Suc i IH by auto
    qed
  qed
qed

section \<open>The field loop computes the C layout\<close>

abbreviation field_align :: "struct_def \<Rightarrow> bool \<Rightarrow> layout \<Rightarrow> 32 word" where
  "field_align d clampPacking l \<equiv> clamped_align clampPacking (st_PackingSize d) (l_align l)"

definition c_field :: "struct_def \<Rightarrow> bool \<Rightarrow> layout \<Rightarrow> nat \<times> nat" where
  "c_field d clampPacking l = (unat (l_size l), unat (field_align d clampPacking l))"

definition resolved_fields :: "nat \<Rightarrow> registry \<Rightarrow> string \<Rightarrow> struct_def \<Rightarrow> struct_field list \<Rightarrow> layout list \<Rightarrow> bool" where
  "resolved_fields n reg arch d fs ls \<longleftrightarrow>
     list_all2 (\<lambda>f l. layoutOf n reg arch (sf_Type f) (st_NestedTypes d) = Some l \<and> l_ok l) fs ls"

lemma place_fields_foldl:
  assumes "place_fields n reg arch d c fs r = Some sl" "sl_ok sl"
  shows "\<exists>ls. resolved_fields n reg arch d fs ls \<and>
    sl = finish_layout (foldl (\<lambda>r l. place_field (st_IsUnion d) (field_align d c l) l r) r ls)"
  using assms(1)
proof (induction fs arbitrary: r)
  case Nil
  then show ?case by (auto simp: resolved_fields_def intro!: exI [of _ "[]"])
next
  case (Cons f fs)
  from Cons.prems assms(2) obtain l where l: "layoutOf n reg arch (sf_Type f) (st_NestedTypes d) = Some l" "l_ok l"
    and rest: "place_fields n reg arch d c fs (place_field (st_IsUnion d) (field_align d c l) l r) = Some sl"
    unfolding place_fields.simps(2) [of n reg arch d c f fs r]
    by (auto simp: empty_struct_layout_def split: option.splits if_splits)
  from Cons.IH [OF rest] obtain ls where "resolved_fields n reg arch d fs ls"
    "sl = finish_layout (foldl (\<lambda>r l. place_field (st_IsUnion d) (field_align d c l) l r) r (l # ls))"
    by auto
  with l show ?case by (intro exI [of _ "l # ls"]) (simp add: resolved_fields_def)
qed

lemma place_field_word:
  assumes "a \<in> small_powers" "unat (sl_size r) + 8 \<le> 2 ^ 32"
    "up (unat (sl_size r)) (unat a) + unat (l_size l) < 2 ^ 32"
  shows "map unat (sl_offsets (place_field False a l r)) =
      map unat (sl_offsets r) @ [up (unat (sl_size r)) (unat a)] \<and>
    unat (sl_size (place_field False a l r)) = up (unat (sl_size r)) (unat a) + unat (l_size l) \<and>
    sl_align (place_field False a l r) = max (sl_align r) a"
proof -
  have "unat a \<le> 8" using assms(1) by (auto simp: small_powers_def)
  then have off: "unat (roundUp (sl_size r) a) = up (unat (sl_size r)) (unat a)"
    using assms(1,2) by (intro unat_roundUp) (auto simp: small_powers_def)
  then have "unat (roundUp (sl_size r) a + l_size l) = up (unat (sl_size r)) (unat a) + unat (l_size l)"
    using assms(3) unat_add_lem [of "roundUp (sl_size r) a" "l_size l"] by simp
  with off show ?thesis by (auto simp: place_field_def Let_def max_def)
qed

lemma foldl_place_field_word:
  assumes "\<forall>l \<in> set ls. field_align d c l \<in> small_powers"
    and "snd (c_fields (map (c_field d c) ls) (unat (sl_size r))) + 8 \<le> 2 ^ 32"
    and "r' = foldl (\<lambda>r l. place_field False (field_align d c l) l r) r ls"
  shows "map unat (sl_offsets r') = map unat (sl_offsets r) @ fst (c_fields (map (c_field d c) ls) (unat (sl_size r))) \<and>
    unat (sl_size r') = snd (c_fields (map (c_field d c) ls) (unat (sl_size r))) \<and>
    sl_align r' = fold max (map (field_align d c) ls) (sl_align r)"
  using assms
proof (induction ls arbitrary: r)
  case Nil
  then show ?case by simp
next
  case (Cons l ls)
  let ?a = "field_align d c l" and ?s = "unat (sl_size r)"
  let ?r1 = "place_field False ?a l r"
  have a: "?a \<in> small_powers" using Cons.prems(1) by simp
  have pos: "\<forall>(s, a) \<in> set (map (c_field d c) ls). 0 < a"
    using Cons.prems(1) by (auto simp: c_field_def small_powers_def)
  have rest: "snd (c_fields (map (c_field d c) (l # ls)) ?s) =
      snd (c_fields (map (c_field d c) ls) (up ?s (unat ?a) + unat (l_size l)))"
    by (simp add: c_field_def case_prod_beta Let_def)
  have le: "up ?s (unat ?a) + unat (l_size l) + 8 \<le> 2 ^ 32"
    using c_fields_mono [OF pos, of "up ?s (unat ?a) + unat (l_size l)"] Cons.prems(2) rest by linarith
  moreover have "?s \<le> up ?s (unat ?a)"
    using a by (intro up_ge) (auto simp: small_powers_def)
  ultimately have w: "map unat (sl_offsets ?r1) = map unat (sl_offsets r) @ [up ?s (unat ?a)]"
    "unat (sl_size ?r1) = up ?s (unat ?a) + unat (l_size l)" "sl_align ?r1 = max (sl_align r) ?a"
    using place_field_word [OF a, of r l] by auto
  have "snd (c_fields (map (c_field d c) ls) (unat (sl_size ?r1))) + 8 \<le> 2 ^ 32"
    using Cons.prems(2) rest w(2) by simp
  from Cons.IH [OF _ this] Cons.prems(1,3) w show ?case
    by (simp add: c_field_def case_prod_beta Let_def max.commute)
qed

lemma place_fields_resolved:
  assumes "resolved_fields n reg arch d fs ls"
  shows "place_fields n reg arch d c fs r =
    Some (finish_layout (foldl (\<lambda>r l. place_field (st_IsUnion d) (field_align d c l) l r) r ls))"
  using assms
proof (induction fs arbitrary: r ls)
  case Nil
  then show ?case by (simp add: resolved_fields_def)
next
  case (Cons f fs)
  then obtain l ls' where ls: "ls = l # ls'" "resolved_fields n reg arch d fs ls'"
    "layoutOf n reg arch (sf_Type f) (st_NestedTypes d) = Some l" "l_ok l"
    by (auto simp: resolved_fields_def list_all2_Cons1)
  then show ?case using Cons.IH [OF ls(2)]
    unfolding place_fields.simps(2) [of n reg arch d c f fs r] by simp
qed

lemma resolved_fields_align:
  assumes "registry_packing_ok reg" "packing_ok d" "resolved_fields n reg arch d fs ls"
  shows "\<forall>l \<in> set ls. field_align d c l \<in> small_powers \<and> sound_layout l"
proof
  fix l assume "l \<in> set ls"
  from list_all2_member [OF assms(3) [unfolded resolved_fields_def] this]
  obtain f :: struct_field where l: "layoutOf n reg arch (sf_Type f) (st_NestedTypes d) = Some l" "l_ok l"
    by auto
  from layoutOf_sound_aux(1) [OF assms(1) _ l(1)] assms(2)
  have s: "sound_layout l" using packing_ok_iff [of d] by blast
  with l(2) assms(2) show "field_align d c l \<in> small_powers \<and> sound_layout l"
    using clamped_align_small packing_ok_iff [of d] by (simp add: sound_layout_def)
qed

lemma fold_max_one:
  fixes xs :: "32 word list"
  assumes "\<forall>x \<in> set xs. x \<in> small_powers"
  shows "(if fold max xs 0 = 0 then 1 else fold max xs 0) = fold max xs 1"
proof (cases xs)
  case (Cons x ys)
  then have "max 0 x = x" "max 1 x = x" "x \<noteq> 0" using assms by (auto simp: small_powers_def max_def)
  moreover have "x \<le> fold max ys x" by (induction ys rule: rev_induct) (auto simp: max_def)
  then have "fold max ys x \<noteq> 0" using \<open>x \<noteq> 0\<close> by auto
  ultimately show ?thesis using Cons by (simp add: max.commute)
qed simp

lemma structLayoutOf_spec:
  assumes "registry_packing_ok reg" and "packing_ok d" and "\<not> st_IsUnion d"
    and "resolved_fields n reg arch d (st_Fields d) ls"
    and "snd (c_fields (map (c_field d c) ls) 0) + 8 \<le> 2 ^ 32"
  shows "\<exists>sl. structLayoutOf n reg arch d c = Some sl \<and> sl_ok sl \<and>
    map unat (sl_offsets sl) = fst (c_fields (map (c_field d c) ls) 0) \<and>
    sl_align sl = fold max (map (field_align d c) ls) 1 \<and>
    unat (sl_size sl) = up (snd (c_fields (map (c_field d c) ls) 0)) (unat (sl_align sl))"
proof -
  let ?r = "foldl (\<lambda>r l. place_field False (field_align d c l) l r) empty_struct_layout ls"
  have al: "\<forall>l \<in> set ls. field_align d c l \<in> small_powers"
    using resolved_fields_align [OF assms(1,2,4)] by blast
  have zero: "unat (sl_size empty_struct_layout) = 0" "sl_offsets empty_struct_layout = []"
    "sl_align empty_struct_layout = 0" by (simp_all add: empty_struct_layout_def)
  have r: "map unat (sl_offsets ?r) = fst (c_fields (map (c_field d c) ls) 0)"
    "unat (sl_size ?r) = snd (c_fields (map (c_field d c) ls) 0)"
    "sl_align ?r = fold max (map (field_align d c) ls) 0"
    using foldl_place_field_word [OF al, of empty_struct_layout ?r] assms(5) zero by simp_all
  let ?m = "fold max (map (field_align d c) ls) 1"
  have m: "?m \<in> small_powers"
    using al by (induction ls rule: rev_induct) (auto simp: small_powers_def max_def)
  have fin: "sl_align (finish_layout ?r) = ?m" "sl_size (finish_layout ?r) = roundUp (sl_size ?r) ?m"
    "sl_offsets (finish_layout ?r) = sl_offsets ?r" "sl_ok (finish_layout ?r)"
    using fold_max_one [of "map (field_align d c) ls"] al r(3)
    by (auto simp: finish_layout_def Let_def split: if_splits)
  have "unat (sl_size ?r) + unat ?m \<le> 2 ^ 32" using m assms(5) r(2) by (auto simp: small_powers_def)
  then have "unat (roundUp (sl_size ?r) ?m) = up (unat (sl_size ?r)) (unat ?m)"
    using small_power_nonzero [OF m] by (intro unat_roundUp)
  moreover have "structLayoutOf n reg arch d c = Some (finish_layout ?r)"
    using place_fields_resolved [OF assms(4)] assms(3) by (simp add: structLayoutOf_def)
  ultimately show ?thesis using r fin by simp
qed

section \<open>Properties\<close>

text \<open>
  \<^bold>\<open>C7\<close>: the layout engine computes the C layout. For a structure whose fields all have a layout
  and whose size stays below the 32-bit range, the offsets, the alignment and the size it computes
  are those of the abstract layout in unbounded arithmetic.
\<close>

theorem structLayoutOf_refines:
  assumes "registry_packing_ok reg" and "packing_ok d" and "\<not> st_IsUnion d"
    and "resolved_fields n reg arch d (st_Fields d) ls"
    and "snd (c_fields (map (c_field d c) ls) 0) + 8 \<le> 2 ^ 32"
  shows "\<exists>sl. structLayoutOf n reg arch d c = Some sl \<and> sl_ok sl \<and>
    map unat (sl_offsets sl) = fst (c_fields (map (c_field d c) ls) 0) \<and>
    sl_align sl = fold max (map (field_align d c) ls) 1 \<and>
    unat (sl_size sl) = up (snd (c_fields (map (c_field d c) ls) 0)) (unat (sl_align sl))"
  by (rule structLayoutOf_spec [OF assms])

text \<open>
  \<^bold>\<open>C8\<close>: the fields of a structure do not overlap: every offset is a multiple of the field's
  alignment, a field ends before every later field begins, and the last ends inside the structure.
\<close>

theorem structLayoutOf_disjoint:
  assumes "registry_packing_ok reg" and "packing_ok d" and "\<not> st_IsUnion d"
    and "resolved_fields n reg arch d (st_Fields d) ls"
    and "snd (c_fields (map (c_field d c) ls) 0) + 8 \<le> 2 ^ 32"
    and "i < length ls"
  shows "\<exists>sl. structLayoutOf n reg arch d c = Some sl \<and>
    unat (field_align d c (ls ! i)) dvd unat (sl_offsets sl ! i) \<and>
    unat (sl_offsets sl ! i) + unat (l_size (ls ! i)) \<le> unat (sl_size sl) \<and>
    (\<forall>j. i < j \<and> j < length ls \<longrightarrow>
       unat (sl_offsets sl ! i) + unat (l_size (ls ! i)) \<le> unat (sl_offsets sl ! j))"
proof -
  let ?fs = "map (c_field d c) ls"
  obtain sl where sl: "structLayoutOf n reg arch d c = Some sl"
    "map unat (sl_offsets sl) = fst (c_fields ?fs 0)" "sl_align sl = fold max (map (field_align d c) ls) 1"
    "unat (sl_size sl) = up (snd (c_fields ?fs 0)) (unat (sl_align sl))"
    using structLayoutOf_spec [OF assms(1-5)] by blast
  have al: "\<forall>l \<in> set ls. field_align d c l \<in> small_powers"
    using resolved_fields_align [OF assms(1,2,4)] by blast
  then have pos: "\<forall>(s, a) \<in> set ?fs. 0 < a" by (auto simp: c_field_def small_powers_def)
  have "sl_align sl \<noteq> 0" unfolding sl(3) using al
    by (induction ls rule: rev_induct) (auto simp: small_powers_def max_def)
  then have end_le: "snd (c_fields ?fs 0) \<le> unat (sl_size sl)"
    unfolding sl(4) by (intro up_ge) (simp add: unat_gt_0)
  have off: "unat (sl_offsets sl ! j) = fst (c_fields ?fs 0) ! j" if "j < length ls" for j
  proof -
    have "length (sl_offsets sl) = length ls" using arg_cong [OF sl(2), of length] by simp
    with that sl(2) show ?thesis by (metis nth_map)
  qed
  from c_fields_spec [OF pos, of 0] assms(6) have
    "snd (?fs ! i) dvd fst (c_fields ?fs 0) ! i"
    "fst (c_fields ?fs 0) ! i + fst (?fs ! i) \<le> snd (c_fields ?fs 0)"
    "\<forall>j < length ?fs. i < j \<longrightarrow> fst (c_fields ?fs 0) ! i + fst (?fs ! i) \<le> fst (c_fields ?fs 0) ! j"
    by simp_all
  with sl(1) end_le off assms(6) show ?thesis by (auto simp: c_field_def)
qed

text \<open>
  The sizes the Go specification gives the unsigned integer types; on the two targets of the
  bindings (amd64 and arm64) each is also the type's alignment.
\<close>

definition go_unsigned_sizes :: "(string \<times> nat) list" where
  "go_unsigned_sizes =
     [(''byte'', 1), (''uint8'', 1), (''uint16'', 2), (''uint32'', 4), (''uint64'', 8), (''uintptr'', 8)]"

text \<open>
  \<^bold>\<open>C9\<close>: an opaque blob has exactly the size and alignment of the type it replaces: it is an array
  of \<open>k\<close> elements of a Go type whose size, by the language specification, is the alignment of the
  replaced type, and \<open>k\<close> times that size is the replaced type's size.
\<close>

theorem layoutBlobType_exact:
  assumes "registry_packing_ok reg" and "layoutOf n reg arch ref [] = Some l"
    and "l_ok l" and "l_size l \<noteq> 0"
  shows "\<exists>k e w. layoutBlobType n reg arch ref = Some (Some (''['' @ show_nat k @ '']'' @ e)) \<and>
    map_of go_unsigned_sizes e = Some w \<and> w = unat (l_align l) \<and> k * w = unat (l_size l)"
proof -
  have "sound_layout l" using layoutOf_sound_aux(1) [OF assms(1) _ assms(2)] by simp
  then have a: "l_align l \<in> small_powers" "unat (l_align l) dvd unat (l_size l)"
    using assms(3) by (simp_all add: sound_layout_def)
  obtain e where e: "blob_element (l_align l) = (e, l_align l)"
    "map_of go_unsigned_sizes e = Some (unat (l_align l))"
    using a(1) by (auto simp: blob_element_def small_powers_def go_unsigned_sizes_def)
  have "unat (l_size l div l_align l) * unat (l_align l) = unat (l_size l)"
    using a(2) by (simp add: unat_div)
  with e assms(2-4) show ?thesis
    by (intro exI [of _ "unat (l_size l div l_align l)"] exI [of _ e] exI [of _ "unat (l_align l)"])
       (simp add: layoutBlobType_def blob_type_def)
qed

section \<open>Examples\<close>

definition plain_struct :: "type_ref list \<Rightarrow> struct_def" where
  "plain_struct ts = StructDef
     (map (\<lambda>t. \<lparr>sf_Name = ''f'', sf_Type = t, sf_Bitfields = [], sf_IsFlexibleArray = False\<rparr>) ts)
     False 0 0 [] no_availability [] []"

text \<open>\<open>struct { BYTE a; INT64 b; INT16 c[3]; }\<close>: offsets 0, 8 and 16, size 24.\<close>

definition ex_fields :: struct_def where
  "ex_fields = plain_struct [Native ''Byte'', Native ''Int64'', ArrayOf 3 (Native ''Int16'')]"

definition ex_field_layouts :: "layout list" where
  "ex_field_layouts = [scalar_layout 1, scalar_layout 8,
     \<lparr>l_size = 6, l_align = 2, l_ok = True, l_f32 = 0, l_f64 = 0, l_other = 3\<rparr>]"

lemma ex_fields_resolved:
  "resolved_fields 0 (empty_registry []) [] ex_fields (st_Fields ex_fields) ex_field_layouts"
  by code_simp

lemma ex_fields_c:
  "c_fields (map (c_field ex_fields True) ex_field_layouts) 0 = ([0, 8, 16], 22)"
  by code_simp

lemma ex_fields_ok:
  "registry_packing_ok (empty_registry [])" "packing_ok ex_fields" "\<not> st_IsUnion ex_fields"
  by (simp_all add: registry_packing_ok_def empty_registry_def ex_fields_def plain_struct_def)

lemma structLayoutOf_refines_witness:
  "\<exists>sl. structLayoutOf 0 (empty_registry []) [] ex_fields True = Some sl \<and>
     map unat (sl_offsets sl) = [0, 8, 16] \<and> unat (sl_size sl) = 24"
proof -
  have "fold max (map (field_align ex_fields True) ex_field_layouts) 1 = 8" by code_simp
  moreover have "up 22 8 = 24" by code_simp
  ultimately show ?thesis
    using structLayoutOf_refines [OF ex_fields_ok ex_fields_resolved, of True] by (auto simp: ex_fields_c)
qed

lemma structLayoutOf_disjoint_witness:
  "\<exists>sl. structLayoutOf 0 (empty_registry []) [] ex_fields True = Some sl \<and>
     unat (sl_offsets sl ! 1) + 8 \<le> unat (sl_offsets sl ! 2)"
proof -
  have l: "length ex_field_layouts = 3" "l_size (ex_field_layouts ! Suc 0) = 8"
    by (simp_all add: ex_field_layouts_def)
  show ?thesis
    using structLayoutOf_disjoint [OF ex_fields_ok ex_fields_resolved, of True 1]
    by (auto simp: ex_fields_c l)
qed

lemma layoutBlobType_exact_witness:
  "\<exists>k e. layoutBlobType 0 (empty_registry []) [] (ArrayOf 5 (Native ''Guid'')) =
     Some (Some (''['' @ show_nat k @ '']'' @ e)) \<and> k * 4 = 80 \<and> map_of go_unsigned_sizes e = Some 4"
proof -
  have "layoutOf 0 (empty_registry []) [] (ArrayOf 5 (Native ''Guid'')) [] =
     Some \<lparr>l_size = 80, l_align = 4, l_ok = True, l_f32 = 0, l_f64 = 0, l_other = 20\<rparr>" by code_simp
  from layoutBlobType_exact [OF ex_fields_ok(1) this] show ?thesis by auto
qed

section \<open>Architecture-specific structures\<close>

text \<open>\<open>byValue\<close> and \<open>embedsArchStruct\<close>, with the set of marked structures as an argument.\<close>

function byValue :: "string list \<Rightarrow> struct_def gomap \<Rightarrow> type_ref \<Rightarrow> bool"
  and embedsArchStruct :: "string list \<Rightarrow> struct_def \<Rightarrow> bool"
where
  "byValue archs nested ref =
     (if ref_Kind ref = ''Array'' then
        (case ref_Child ref of None \<Rightarrow> False | Some c \<Rightarrow> byValue archs nested c)
      else if ref_Kind ref = ''ApiRef'' then
        (if ref_Api ref = [] then
           (case map_of nested (ref_Name ref) of Some d \<Rightarrow> embedsArchStruct archs d | None \<Rightarrow> False)
         else (ref_TargetKind ref = ''Struct'' \<or> ref_TargetKind ref = ''Union'') \<and>
           qual_key (ref_Api ref) (ref_Name ref) \<in> set archs)
      else False)"
| "embedsArchStruct archs d = list_ex (\<lambda>f. byValue archs (st_NestedTypes d) (sf_Type f)) (st_Fields d)"
  by pat_completeness auto
termination
  by (relation "inv_image (less_than <*lex*> less_than)
       (\<lambda>x. case x of Inl (archs, nested, ref) \<Rightarrow> (nested_size nested, size ref)
                    | Inr (archs, d) \<Rightarrow> (size d, 0))")
     (auto simp: nested_size_lookup nested_size_struct size_ref_Child_less)

declare byValue.simps [simp del] embedsArchStruct.simps [simp del]

text \<open>The entries of a Go map: shadowed pairs are not entries.\<close>

definition entries :: "'v gomap \<Rightarrow> (string \<times> 'v) list" where
  "entries m = AList.clearjunk m"

definition differs_directly :: "struct_def \<Rightarrow> bool" where
  "differs_directly d =
     (case (pickVariant d ''amd64'', pickVariant d ''arm64'') of
        (Some (i, a), Some (j, b)) \<Rightarrow> i \<noteq> j
      | _ \<Rightarrow> False)"

definition embeds_on_some_arch :: "string list \<Rightarrow> struct_def \<Rightarrow> bool" where
  "embeds_on_some_arch archs d =
     list_ex (\<lambda>arch. case pickVariant d arch of
         Some (i, chosen) \<Rightarrow> embedsArchStruct archs chosen | None \<Rightarrow> False) emitArches"

definition arch_step :: "string \<times> struct_def \<Rightarrow> string list \<Rightarrow> string list" where
  "arch_step e archs =
     (if fst e \<in> set archs then archs
      else if embeds_on_some_arch archs (snd e) then fst e # archs else archs)"

definition arch_round :: "(string \<times> struct_def) list \<Rightarrow> string list \<Rightarrow> string list" where
  "arch_round es archs = fold arch_step es archs"

lemma arch_step_cases: "arch_step e archs = archs \<or> arch_step e archs = fst e # archs \<and> fst e \<notin> set archs"
  by (simp add: arch_step_def)

lemma arch_round_grows:
  "set archs \<subseteq> set (arch_round es archs) \<and> set (arch_round es archs) \<subseteq> set archs \<union> fst ` set es \<and>
   length archs \<le> length (arch_round es archs) \<and>
   (length (arch_round es archs) = length archs \<longrightarrow> arch_round es archs = archs) \<and>
   (arch_round es archs \<noteq> archs \<longrightarrow> (\<exists>k \<in> fst ` set es. k \<notin> set archs \<and> k \<in> set (arch_round es archs)))"
proof (induction es arbitrary: archs)
  case Nil
  then show ?case by (simp add: arch_round_def)
next
  case (Cons e es)
  have r: "arch_round (e # es) archs = arch_round es (arch_step e archs)" by (simp add: arch_round_def)
  from arch_step_cases [of e archs] show ?case
  proof
    assume "arch_step e archs = archs"
    then show ?thesis using Cons.IH [of archs] r by auto
  next
    assume a: "arch_step e archs = fst e # archs \<and> fst e \<notin> set archs"
    then show ?thesis using Cons.IH [of "fst e # archs"] r by auto
  qed
qed

function arch_fixpoint :: "(string \<times> struct_def) list \<Rightarrow> string list \<Rightarrow> string list" where
  "arch_fixpoint es archs =
     (let archs' = arch_round es archs
      in if length archs' = length archs then archs else arch_fixpoint es archs')"
  by pat_completeness auto
termination
proof (relation "measure (\<lambda>(es, archs). card (fst ` set es - set archs))")
  fix es :: "(string \<times> struct_def) list" and archs archs'
  assume a: "archs' = arch_round es archs" "length archs' \<noteq> length archs"
  then obtain k where "k \<in> fst ` set es" "k \<notin> set archs" "k \<in> set archs'"
    using arch_round_grows [of archs es] by auto
  moreover have "set archs \<subseteq> set archs'" using a arch_round_grows [of archs es] by auto
  ultimately have "fst ` set es - set archs' \<subset> fst ` set es - set archs" by auto
  then show "((es, archs'), es, archs) \<in> measure (\<lambda>(es, archs). card (fst ` set es - set archs))"
    by (simp add: psubset_card_mono)
qed simp

declare arch_fixpoint.simps [simp del]

definition computeArchStructs :: "registry \<Rightarrow> string list" where
  "computeArchStructs reg =
     (let es = entries (reg_StructIndex reg)
      in arch_fixpoint es (map fst (filter (\<lambda>(k, d). differs_directly d) es)))"

definition isArchStruct :: "string list \<Rightarrow> string \<Rightarrow> string \<Rightarrow> bool" where
  "isArchStruct archs ns name \<longleftrightarrow> qual_key ns name \<in> set archs"

text \<open>
  The specification. A type contains a structure by value through arrays and nested types, never through
  a pointer; a structure is architecture-specific when its two variants differ or one of them contains
  such a structure.
\<close>

inductive value_in :: "string \<Rightarrow> struct_def gomap \<Rightarrow> type_ref \<Rightarrow> bool" for k where
  element: "ref_Kind ref = ''Array'' \<Longrightarrow> ref_Child ref = Some c \<Longrightarrow> value_in k nested c \<Longrightarrow> value_in k nested ref"
| nested: "ref_Kind ref = ''ApiRef'' \<Longrightarrow> ref_Api ref = [] \<Longrightarrow> map_of nested (ref_Name ref) = Some d \<Longrightarrow>
     f \<in> set (st_Fields d) \<Longrightarrow> value_in k (st_NestedTypes d) (sf_Type f) \<Longrightarrow> value_in k nested ref"
| named: "ref_Kind ref = ''ApiRef'' \<Longrightarrow> ref_Api ref \<noteq> [] \<Longrightarrow> ref_TargetKind ref \<in> {''Struct'', ''Union''} \<Longrightarrow>
     k = ref_Api ref @ ''.'' @ ref_Name ref \<Longrightarrow> value_in k nested ref"

inductive arch_specific :: "registry \<Rightarrow> string \<Rightarrow> bool" for reg where
  direct: "map_of (reg_StructIndex reg) k = Some d \<Longrightarrow> pickVariant d ''amd64'' = Some (i, a) \<Longrightarrow>
     pickVariant d ''arm64'' = Some (j, b) \<Longrightarrow> i \<noteq> j \<Longrightarrow> arch_specific reg k"
| embeds: "map_of (reg_StructIndex reg) k = Some d \<Longrightarrow> arch_specific reg k' \<Longrightarrow> arch \<in> {''amd64'', ''arm64''} \<Longrightarrow>
     pickVariant d arch = Some (i, chosen) \<Longrightarrow> f \<in> set (st_Fields chosen) \<Longrightarrow>
     value_in k' (st_NestedTypes chosen) (sf_Type f) \<Longrightarrow> arch_specific reg k"

lemma value_in_byValue: "value_in k nested ref \<Longrightarrow> byValue [k] nested ref"
proof (induction rule: value_in.induct)
  case (element ref c nested)
  then show ?case by (simp add: byValue.simps [of _ _ ref])
next
  case (nested ref nested d f)
  then have "embedsArchStruct [k] d" by (auto simp: embedsArchStruct.simps [of _ d] list_ex_iff)
  with nested show ?case by (simp add: byValue.simps [of _ _ ref])
next
  case (named ref nested)
  then show ?case by (auto simp: byValue.simps [of _ _ ref] qual_key_def)
qed

lemma byValue_value_in:
  "byValue archs nested ref \<Longrightarrow> archs = [k] \<Longrightarrow> value_in k nested ref"
  "embedsArchStruct archs d \<Longrightarrow> archs = [k] \<Longrightarrow> \<exists>f \<in> set (st_Fields d). value_in k (st_NestedTypes d) (sf_Type f)"
proof (induction archs nested ref and archs d rule: byValue_embedsArchStruct.induct)
  case (1 archs nested ref)
  consider "ref_Kind ref = ''Array''" | "ref_Kind ref = ''ApiRef''" "ref_Api ref = []" | "ref_Kind ref = ''ApiRef''" "ref_Api ref \<noteq> []"
    using 1(3) by (auto simp: byValue.simps [of _ _ ref] split: if_splits)
  then show ?case
  proof cases
    case 1
    with \<open>byValue archs nested ref\<close> obtain c where c: "ref_Child ref = Some c" "byValue archs nested c"
      by (cases "ref_Child ref") (simp_all add: byValue.simps [of _ _ ref])
    with "1.IH"(1) [OF 1 c(1) c(2)] \<open>archs = [k]\<close> 1 show ?thesis by (blast intro: value_in.element)
  next
    case 2
    with \<open>byValue archs nested ref\<close> obtain d where d: "map_of nested (ref_Name ref) = Some d" "embedsArchStruct archs d"
      by (cases "map_of nested (ref_Name ref)") (simp_all add: byValue.simps [of _ _ ref])
    have "ref_Kind ref \<noteq> ''Array''" using 2 by simp
    from "1.IH"(2) [OF this 2 d(1) d(2) \<open>archs = [k]\<close>] 2 d(1) show ?thesis by (blast intro: value_in.nested)
  next
    case 3
    with \<open>byValue archs nested ref\<close> \<open>archs = [k]\<close> show ?thesis
      by (intro value_in.named) (auto simp: byValue.simps [of _ _ ref] qual_key_def)
  qed
next
  case (2 archs d)
  then obtain f where f: "f \<in> set (st_Fields d)" "byValue archs (st_NestedTypes d) (sf_Type f)"
    by (auto simp: embedsArchStruct.simps [of _ d] list_ex_iff)
  with 2 show ?case by blast
qed

lemma embedsArchStruct_value_in:
  "embedsArchStruct [k] d \<longleftrightarrow> (\<exists>f \<in> set (st_Fields d). value_in k (st_NestedTypes d) (sf_Type f))"
proof
  show "embedsArchStruct [k] d \<Longrightarrow> \<exists>f \<in> set (st_Fields d). value_in k (st_NestedTypes d) (sf_Type f)"
    by (erule byValue_value_in(2)) (rule refl)
  show "\<exists>f \<in> set (st_Fields d). value_in k (st_NestedTypes d) (sf_Type f) \<Longrightarrow> embedsArchStruct [k] d"
    by (auto simp: embedsArchStruct.simps [of _ d] list_ex_iff dest: value_in_byValue)
qed

lemma differs_directly_iff:
  "differs_directly d \<longleftrightarrow>
     (\<exists>i a j b. pickVariant d ''amd64'' = Some (i, a) \<and> pickVariant d ''arm64'' = Some (j, b) \<and> i \<noteq> j)"
  by (cases "pickVariant d ''amd64''"; cases "pickVariant d ''arm64''") (auto simp: differs_directly_def)

lemma embeds_on_some_arch_value_in:
  "embeds_on_some_arch [k] d \<longleftrightarrow> (\<exists>arch \<in> {''amd64'', ''arm64''}. \<exists>i chosen. pickVariant d arch = Some (i, chosen) \<and>
     (\<exists>f \<in> set (st_Fields chosen). value_in k (st_NestedTypes chosen) (sf_Type f)))"
proof -
  have "(case pickVariant d arch of Some (i, chosen) \<Rightarrow> embedsArchStruct [k] chosen | None \<Rightarrow> False) \<longleftrightarrow>
      (\<exists>i chosen. pickVariant d arch = Some (i, chosen) \<and>
         (\<exists>f \<in> set (st_Fields chosen). value_in k (st_NestedTypes chosen) (sf_Type f)))" for arch
    by (cases "pickVariant d arch") (auto simp: embedsArchStruct_value_in)
  then show ?thesis by (simp add: embeds_on_some_arch_def emitArches_def)
qed

lemma embeds_arch_specific:
  assumes "map_of (reg_StructIndex reg) k = Some d" "arch_specific reg k'" "embeds_on_some_arch [k'] d"
  shows "arch_specific reg k"
proof -
  obtain arch i chosen f where "arch \<in> {''amd64'', ''arm64''}" "pickVariant d arch = Some (i, chosen)"
    "f \<in> set (st_Fields chosen)" "value_in k' (st_NestedTypes chosen) (sf_Type f)"
    using assms(3) unfolding embeds_on_some_arch_value_in by blast
  with assms(1,2) show ?thesis by (rule arch_specific.embeds)
qed

lemma byValue_iff:
  "byValue archs nested ref \<longleftrightarrow> (\<exists>k \<in> set archs. byValue [k] nested ref)"
  "embedsArchStruct archs d \<longleftrightarrow> (\<exists>k \<in> set archs. embedsArchStruct [k] d)"
proof (induction archs nested ref and archs d rule: byValue_embedsArchStruct.induct)
  case (1 archs nested ref)
  then show ?case
    by (cases "ref_Child ref"; cases "map_of nested (ref_Name ref)")
       (auto simp: byValue.simps [of _ nested ref])
next
  case (2 archs d)
  then show ?case by (auto simp: embedsArchStruct.simps [of _ d] list_ex_iff)
qed

lemma embeds_on_some_arch_iff:
  "embeds_on_some_arch archs d \<longleftrightarrow> (\<exists>k \<in> set archs. embeds_on_some_arch [k] d)"
  by (auto simp: embeds_on_some_arch_def emitArches_def byValue_iff(2) [of archs] split: option.splits)

lemma arch_round_sound:
  assumes "\<forall>(k, d) \<in> set es. map_of (reg_StructIndex reg) k = Some d" "\<forall>k \<in> set archs. arch_specific reg k"
  shows "\<forall>k \<in> set (arch_round es archs). arch_specific reg k"
  using assms
proof (induction es arbitrary: archs)
  case Nil
  then show ?case by (simp add: arch_round_def)
next
  case (Cons e es)
  obtain k d where e: "e = (k, d)" by fastforce
  have "arch_specific reg k" if "embeds_on_some_arch archs d"
  proof -
    from that obtain k' where "k' \<in> set archs" "embeds_on_some_arch [k'] d"
      using embeds_on_some_arch_iff by blast
    with Cons.prems e show ?thesis by (intro embeds_arch_specific [of reg k d k']) auto
  qed
  then have "\<forall>k \<in> set (arch_step e archs). arch_specific reg k"
    using Cons.prems(2) e by (auto simp: arch_step_def)
  with Cons show ?case by (simp add: arch_round_def)
qed

lemma arch_round_fixed:
  assumes "arch_round es archs = archs" "(k, d) \<in> set es" "embeds_on_some_arch archs d"
  shows "k \<in> set archs"
  using assms
proof (induction es)
  case (Cons e es)
  have step: "arch_step e archs = archs"
  proof (rule ccontr)
    assume "arch_step e archs \<noteq> archs"
    with arch_step_cases [of e archs] have "length (arch_step e archs) = Suc (length archs)" by auto
    moreover have "length (arch_step e archs) \<le> length (arch_round es (arch_step e archs))"
      using arch_round_grows by blast
    ultimately show False using Cons.prems(1) by (simp add: arch_round_def)
  qed
  then have "arch_round es archs = archs" using Cons.prems(1) by (simp add: arch_round_def)
  with Cons step show ?case
    by (cases "e = (k, d)") (auto simp: arch_step_def split: if_splits)
qed simp

lemma arch_fixpoint_sound:
  "\<forall>(k, d) \<in> set es. map_of (reg_StructIndex reg) k = Some d \<Longrightarrow> \<forall>k \<in> set archs. arch_specific reg k \<Longrightarrow>
     \<forall>k \<in> set (arch_fixpoint es archs). arch_specific reg k"
proof (induction es archs rule: arch_fixpoint.induct)
  case (1 es archs)
  then show ?case using arch_round_sound [of es reg archs]
    by (simp add: arch_fixpoint.simps [of es archs] Let_def)
qed

lemma arch_fixpoint_closed:
  "set archs \<subseteq> set (arch_fixpoint es archs) \<and> arch_round es (arch_fixpoint es archs) = arch_fixpoint es archs"
proof (induction es archs rule: arch_fixpoint.induct)
  case (1 es archs)
  show ?case
  proof (cases "length (arch_round es archs) = length archs")
    case True
    then show ?thesis using arch_round_grows [of archs es]
      by (simp add: arch_fixpoint.simps [of es archs])
  next
    case False
    with 1 have "set (arch_round es archs) \<subseteq> set (arch_fixpoint es (arch_round es archs)) \<and>
       arch_round es (arch_fixpoint es (arch_round es archs)) = arch_fixpoint es (arch_round es archs)" by simp
    moreover have "set archs \<subseteq> set (arch_round es archs)" using arch_round_grows by blast
    ultimately have "set archs \<subseteq> set (arch_fixpoint es (arch_round es archs)) \<and>
       arch_round es (arch_fixpoint es (arch_round es archs)) = arch_fixpoint es (arch_round es archs)" by blast
    with False show ?thesis by (simp add: arch_fixpoint.simps [of es archs] Let_def)
  qed
qed

lemma in_entries_iff: "(k, d) \<in> set (entries m) \<longleftrightarrow> map_of m k = Some d"
  unfolding entries_def
  by (metis distinct_clearjunk map_of_clearjunk map_of_eq_Some_iff)

text \<open>
  \<^bold>\<open>C10\<close>: the structures emitted per architecture are exactly those whose amd64 and arm64 variants
  differ or that embed such a structure by value (through arrays and nested types, on either
  architecture), whatever the order in which the Go maps are iterated; the iteration ends.
\<close>

theorem computeArchStructs_least:
  "(k \<in> set (computeArchStructs reg)) = arch_specific reg k"
proof -
  let ?es = "entries (reg_StructIndex reg)"
  let ?start = "map fst (filter (\<lambda>(k, d). differs_directly d) ?es)"
  have es: "\<forall>(k, d) \<in> set ?es. map_of (reg_StructIndex reg) k = Some d"
    by (auto simp: in_entries_iff)
  have c: "computeArchStructs reg = arch_fixpoint ?es ?start" by (simp add: computeArchStructs_def Let_def)
  have "\<forall>k \<in> set ?start. arch_specific reg k"
    by (auto simp: in_entries_iff differs_directly_iff intro: arch_specific.direct)
  from arch_fixpoint_sound [OF es this] have "k \<in> set (computeArchStructs reg) \<Longrightarrow> arch_specific reg k"
    by (simp add: c)
  moreover have "arch_specific reg k \<Longrightarrow> k \<in> set (computeArchStructs reg)"
  proof (induction rule: arch_specific.induct)
    case (direct k d i a j b)
    then have "(k, d) \<in> set ?es" "differs_directly d" by (auto simp: in_entries_iff differs_directly_iff)
    then have "k \<in> set ?start" by force
    then show ?case using arch_fixpoint_closed [of ?start ?es] by (auto simp: c)
  next
    case (embeds k d k' arch i chosen f)
    then have "embeds_on_some_arch [k'] d"
      unfolding embeds_on_some_arch_value_in by blast
    with embeds have "embeds_on_some_arch (computeArchStructs reg) d" using embeds_on_some_arch_iff by blast
    moreover have "(k, d) \<in> set ?es" using embeds(1) by (simp add: in_entries_iff)
    ultimately show ?case using arch_round_fixed arch_fixpoint_closed [of ?start ?es] by (metis c)
  qed
  ultimately show ?thesis by blast
qed

end
