(* ===== verification/View.thy ===== *)
theory View
  imports Prelude
begin

text \<open>
  The render models of \<open>internal/codegen/emit/raw/view/view.go\<close>: what the builders produce and the
  templates print. Every field is text, a flag or a number; no model refers to metadata.
\<close>

record enum_member_model =
  emm_Name :: string
  emm_Value :: string
  emm_IsZero :: bool

record enum_model =
  enm_TypeName :: string
  enm_BaseType :: string
  enm_IsFlags :: bool
  enm_DocURL :: string
  enm_Members :: "enum_member_model list"
  enm_UniqueMembers :: "enum_member_model list"

record struct_field_model =
  sfm_Name :: string
  sfm_GoType :: string

record struct_model =
  stm_TypeName :: string
  stm_DocURL :: string
  stm_IsUnionBlob :: bool
  stm_IsPackedBlob :: bool
  stm_Fields :: "struct_field_model list"

record typedef_model =
  tdm_TypeName :: string
  tdm_Backing :: string
  tdm_DocURL :: string
  tdm_InvalidValues :: "string list"
  tdm_FreeFunc :: string

record constant_model =
  cnm_Name :: string
  cnm_GoType :: string
  cnm_Literal :: string
  cnm_IsVar :: bool

record delegate_model =
  dlm_TypeName :: string
  dlm_DocURL :: string
  dlm_Signature :: string
  dlm_NativeReturn :: string
  dlm_HasFloat :: bool

record proc_model =
  prm_VarName :: string
  prm_ExportName :: string
  prm_GoName :: string

record dll_model =
  dll_VarName :: string
  dll_FileName :: string
  dll_Procs :: "proc_model list"

text \<open>The return shapes; the Go constants number them 0 to 14 in this order.\<close>

datatype return_kind =
    RetVoid | RetBoolErr | RetValErr | RetVal | RetValLast | RetHResultErr | RetBoolValue
  | RetRetValHResult | RetRetValBoolErr | RetRetValVoid | RetHResultValueErr | RetInline
  | RetStructOut | RetStructOutLast | RetFloat

record com_method_model =
  cmm_CommentLines :: "string list"
  cmm_GoName :: string
  cmm_ParamStr :: string
  cmm_ReturnSig :: string
  cmm_Slot :: nat
  cmm_Preamble :: "string list"
  cmm_ArgExprs :: "string list"
  cmm_CallExpr :: string
  cmm_SpecDecl :: string
  cmm_ReturnKind :: return_kind
  cmm_RetExpr :: string
  cmm_ReturnValues :: "string list"

record interface_model =
  ifm_TypeName :: string
  ifm_DocURL :: string
  ifm_GUID :: string
  ifm_IIDVar :: string
  ifm_IIDLiteral :: string
  ifm_BaseType :: string
  ifm_AliasOf :: string
  ifm_BaseNote :: string
  ifm_Methods :: "com_method_model list"

record function_model =
  fnm_CommentLines :: "string list"
  fnm_GoName :: string
  fnm_ParamStr :: string
  fnm_ReturnSig :: string
  fnm_Preamble :: "string list"
  fnm_ProcVar :: string
  fnm_ArgExprs :: "string list"
  fnm_CallExpr :: string
  fnm_SpecDecl :: string
  fnm_ReturnKind :: return_kind
  fnm_RetExpr :: string
  fnm_FailureChecks :: "string list"
  fnm_ReturnValues :: "string list"

text \<open>The zero values the builders start from.\<close>

definition empty_function_model :: function_model where
  "empty_function_model = \<lparr>fnm_CommentLines = [], fnm_GoName = [], fnm_ParamStr = [],
     fnm_ReturnSig = [], fnm_Preamble = [], fnm_ProcVar = [], fnm_ArgExprs = [], fnm_CallExpr = [],
     fnm_SpecDecl = [], fnm_ReturnKind = RetVoid, fnm_RetExpr = [], fnm_FailureChecks = [],
     fnm_ReturnValues = []\<rparr>"

definition empty_com_method_model :: com_method_model where
  "empty_com_method_model = \<lparr>cmm_CommentLines = [], cmm_GoName = [], cmm_ParamStr = [],
     cmm_ReturnSig = [], cmm_Slot = 0, cmm_Preamble = [], cmm_ArgExprs = [], cmm_CallExpr = [],
     cmm_SpecDecl = [], cmm_ReturnKind = RetVoid, cmm_RetExpr = [], cmm_ReturnValues = []\<rparr>"

definition empty_interface_model :: interface_model where
  "empty_interface_model = \<lparr>ifm_TypeName = [], ifm_DocURL = [], ifm_GUID = [], ifm_IIDVar = [],
     ifm_IIDLiteral = [], ifm_BaseType = [], ifm_AliasOf = [], ifm_BaseNote = [], ifm_Methods = []\<rparr>"

end
