(* ===== verification/Claims.thy ===== *)
theory Claims
  imports Typemap Layout View
begin

text \<open>
  The state of the generator (\<open>internal/codegen/emit/raw/generator.go\<close>) and its name claims: the
  package-level identifiers already taken in the namespace being emitted, and the type names that
  are claimed before any value so that an enum member or a constant never takes the name of a type.

  The mapper's fixed fields and its mutable fields are separate components of the state, and the
  \<open>ImportSet\<close> the builders are called with is the import field of the latter. Go sets of strings are
  lists. The interface \<open>name_claims\<close> states what a claim operation promises; both claim operations
  are instances.
\<close>

section \<open>The state\<close>

record abi_field =
  af_Name :: string
  af_Offset :: "32 word"

record abi_record =
  ar_Namespace :: string
  ar_TypeName :: string
  ar_Arch :: string
  ar_Size :: "32 word"
  ar_Fields :: "abi_field list"

record namespace_coverage =
  cov_Namespace :: string
  cov_Functions :: nat
  cov_FunctionsEmitted :: nat
  cov_Methods :: nat
  cov_MethodsEmitted :: nat
  cov_Structs :: nat
  cov_StructsEmitted :: nat
  cov_Closers :: nat
  cov_ClosersEmitted :: nat

record generator =
  g_mapper :: mapper
  g_resolution :: resolution
  g_outDir :: string
  g_claimedNames :: "string list"
  g_typeNames :: "string list"
  g_abiRecords :: "abi_record gomap"
  g_archStructs :: "string list"
  g_layoutArch :: string
  g_writtenFiles :: "string gomap"
  g_informationalMatched :: "string list"
  g_coverage :: "namespace_coverage gomap"
  g_Diagnostics :: "string list"

abbreviation g_registry :: "generator \<Rightarrow> registry" where
  "g_registry g \<equiv> mp_Registry (g_mapper g)"

definition empty_resolution :: resolution where
  "empty_resolution = \<lparr>rn_Diagnostics = [], rn_Referenced = [], rn_Imports = []\<rparr>"

definition New :: "registry \<Rightarrow> string \<Rightarrow> string \<Rightarrow> generator" where
  "New reg modulePath outDir =
     \<lparr>g_mapper = \<lparr>mp_Registry = reg, mp_ModulePath = modulePath, mp_Win32ModulePath = [],
        mp_LocalBindingsRoot = [], mp_Blocked = ComputeBlockedImports reg, mp_SkippedTypes = []\<rparr>,
      g_resolution = empty_resolution, g_outDir = outDir, g_claimedNames = [], g_typeNames = [],
      g_abiRecords = [], g_archStructs = [], g_layoutArch = [], g_writtenFiles = [],
      g_informationalMatched = [], g_coverage = [], g_Diagnostics = []\<rparr>"

definition diag :: "string \<Rightarrow> generator \<Rightarrow> generator" where
  "diag d g = g\<lparr>g_Diagnostics := g_Diagnostics g @ [d]\<rparr>"

text \<open>\<open>imports[alias] = path\<close> and the final copy of a scratch import set.\<close>

definition set_import :: "string \<Rightarrow> string \<Rightarrow> generator \<Rightarrow> generator" where
  "set_import alias path g = g\<lparr>g_resolution := (g_resolution g)\<lparr>rn_Imports :=
     AList.update alias path (rn_Imports (g_resolution g))\<rparr>\<rparr>"

definition with_imports :: "string gomap \<Rightarrow> generator \<Rightarrow> generator" where
  "with_imports imports g = g\<lparr>g_resolution := (g_resolution g)\<lparr>rn_Imports := imports\<rparr>\<rparr>"

definition imports_of :: "generator \<Rightarrow> string gomap" where
  "imports_of g = rn_Imports (g_resolution g)"

definition commit_imports :: "string gomap \<Rightarrow> string gomap \<Rightarrow> string gomap" where
  "commit_imports scratch imports = fold (\<lambda>(a, p). AList.update a p) (rev scratch) imports"

text \<open>
  The mapper and the layout engine with bounds that are always enough on well-founded metadata: one
  flattening per typedef, one registry lookup per typedef and structure.
\<close>

definition resolve_type :: "type_ref \<Rightarrow> type_context \<Rightarrow> generator \<Rightarrow> (resolved \<times> generator) option" where
  "resolve_type ref ctx g =
     map_option (\<lambda>(r, rn). (r, g\<lparr>g_resolution := rn\<rparr>))
       (GoType (Suc (length (reg_TypedefIndex (g_registry g)))) (g_mapper g) ref ctx (g_resolution g))"

definition layout_bound :: "registry \<Rightarrow> nat" where
  "layout_bound reg = Suc (length (reg_TypedefIndex reg) + length (reg_StructIndex reg))"

definition struct_layout_of :: "struct_def \<Rightarrow> bool \<Rightarrow> generator \<Rightarrow> struct_layout option" where
  "struct_layout_of d clampPacking g =
     structLayoutOf (layout_bound (g_registry g)) (g_registry g) (g_layoutArch g) d clampPacking"

definition blob_type_of :: "type_ref \<Rightarrow> generator \<Rightarrow> string option option" where
  "blob_type_of ref g = layoutBlobType (layout_bound (g_registry g)) (g_registry g) (g_layoutArch g) ref"

definition layout_of_ref :: "type_ref \<Rightarrow> generator \<Rightarrow> layout option" where
  "layout_of_ref ref g = layoutOf (layout_bound (g_registry g)) (g_registry g) (g_layoutArch g) ref []"

section \<open>Name claims\<close>

definition claim_type :: "string \<Rightarrow> string list \<times> string list \<Rightarrow> string list \<times> string list" where
  "claim_type name s =
     (if Export name \<in> set (fst s) then s else (Export name # fst s, Export name # snd s))"

definition prepareNamespaceClaims :: "namespace_meta \<Rightarrow> generator \<Rightarrow> generator" where
  "prepareNamespaceClaims meta g =
     (let s = fold claim_type
        (map fst (ns_Typedefs meta) @ map fst (ns_Enums meta) @ map fst (ns_Structs meta) @
         map fst (ns_Delegates meta) @ map fst (ns_Interfaces meta)) ([], [])
      in g\<lparr>g_claimedNames := fst s, g_typeNames := snd s\<rparr>)"

definition claimTypeName :: "string \<Rightarrow> generator \<Rightarrow> bool \<times> generator" where
  "claimTypeName name g =
     (if name \<notin> set (g_typeNames g) then (False, g)
      else (True, g\<lparr>g_typeNames := removeAll name (g_typeNames g)\<rparr>))"

definition claimName :: "string \<Rightarrow> generator \<Rightarrow> bool \<times> generator" where
  "claimName name g =
     (if name \<in> set (g_claimedNames g) then (False, g)
      else (True, g\<lparr>g_claimedNames := name # g_claimedNames g\<rparr>))"

definition unclaimName :: "string \<Rightarrow> generator \<Rightarrow> generator" where
  "unclaimName name g = g\<lparr>g_claimedNames := removeAll name (g_claimedNames g)\<rparr>"

definition isTopLevelStruct :: "namespace_meta \<Rightarrow> string \<Rightarrow> bool" where
  "isTopLevelStruct meta typeName \<longleftrightarrow> (\<exists>(name, d) \<in> set (ns_Structs meta). Export name = typeName)"

text \<open>A sequence of claims: the names that were granted, in order.\<close>

fun claim_all :: "('n \<Rightarrow> 's \<Rightarrow> bool \<times> 's) \<Rightarrow> 'n list \<Rightarrow> 's \<Rightarrow> 'n list \<times> 's" where
  "claim_all f [] s = ([], s)"
| "claim_all f (n # ns) s =
     (let (ok, s) = f n s; (granted, s) = claim_all f ns s
      in (if ok then n # granted else granted, s))"

locale name_claims =
  fixes claim :: "'n \<Rightarrow> 's \<Rightarrow> bool \<times> 's" and taken :: "'s \<Rightarrow> 'n set"
  assumes granted: "claim n s = (True, s') \<Longrightarrow> n \<notin> taken s \<and> taken s' = insert n (taken s)"
    and refused: "claim n s = (False, s') \<Longrightarrow> n \<in> taken s \<and> taken s' = taken s"
begin

lemma claim_all_distinct:
  "claim_all claim ns s = (got, s') \<Longrightarrow>
     distinct got \<and> set got \<inter> taken s = {} \<and> set got \<subseteq> set ns \<and>
     taken s' = taken s \<union> set ns \<and> set ns \<subseteq> taken s \<union> set got"
proof (induction ns arbitrary: s s' got)
  case Nil
  then show ?case by simp
next
  case (Cons n ns)
  obtain ok s1 where c: "claim n s = (ok, s1)" by fastforce
  obtain got1 s2 where r: "claim_all claim ns s1 = (got1, s2)" by fastforce
  have IH: "distinct got1 \<and> set got1 \<inter> taken s1 = {} \<and> set got1 \<subseteq> set ns \<and>
     taken s2 = taken s1 \<union> set ns \<and> set ns \<subseteq> taken s1 \<union> set got1"
    using Cons.IH [OF r] .
  have eq: "got = (if ok then n # got1 else got1)" "s' = s2" using Cons.prems c r by simp_all
  show ?case
  proof (cases ok)
    case True
    then have "n \<notin> taken s \<and> taken s1 = insert n (taken s)" using c granted by simp
    with IH eq True show ?thesis by auto
  next
    case False
    then have "n \<in> taken s \<and> taken s1 = taken s" using c refused by simp
    with IH eq False show ?thesis by auto
  qed
qed

lemma claim_twice: "claim n s = (True, s') \<Longrightarrow> \<exists>s''. claim n s' = (False, s'')"
proof -
  assume a: "claim n s = (True, s')"
  obtain b s'' where c: "claim n s' = (b, s'')" by fastforce
  have "n \<in> taken s'" using granted [OF a] by simp
  then have "\<not> b" using c granted [of n s' s''] by (cases b) auto
  with c show ?thesis by simp
qed

end

interpretation value_names: name_claims claimName "\<lambda>g. set (g_claimedNames g)"
proof unfold_locales
  fix n and g g' :: generator
  show "n \<notin> set (g_claimedNames g) \<and> set (g_claimedNames g') = insert n (set (g_claimedNames g))"
    if "claimName n g = (True, g')"
  proof -
    from that have "n \<notin> set (g_claimedNames g)" "g' = g\<lparr>g_claimedNames := n # g_claimedNames g\<rparr>"
      by (simp_all add: claimName_def split: if_splits)
    then show ?thesis by simp
  qed
  show "n \<in> set (g_claimedNames g) \<and> set (g_claimedNames g') = set (g_claimedNames g)"
    if "claimName n g = (False, g')"
    using that by (simp add: claimName_def split: if_splits)
qed

interpretation type_names: name_claims claimTypeName "\<lambda>g. - set (g_typeNames g)"
proof unfold_locales
  fix n and g g' :: generator
  show "n \<notin> - set (g_typeNames g) \<and> - set (g_typeNames g') = insert n (- set (g_typeNames g))"
    if "claimTypeName n g = (True, g')"
  proof -
    from that have "n \<in> set (g_typeNames g)" "g' = g\<lparr>g_typeNames := removeAll n (g_typeNames g)\<rparr>"
      by (simp_all add: claimTypeName_def split: if_splits)
    then show ?thesis by auto
  qed
  show "n \<in> - set (g_typeNames g) \<and> - set (g_typeNames g') = - set (g_typeNames g)"
    if "claimTypeName n g = (False, g')"
    using that by (simp add: claimTypeName_def split: if_splits)
qed

section \<open>Claim lemmas\<close>

lemma fold_claim_type:
  "fst s = snd s \<Longrightarrow> fst (fold claim_type names s) = snd (fold claim_type names s) \<and>
     set (fst (fold claim_type names s)) = set (fst s) \<union> Export ` set names"
proof (induction names arbitrary: s)
  case (Cons n names)
  have "fst (claim_type n s) = snd (claim_type n s)" "set (fst (claim_type n s)) = insert (Export n) (set (fst s))"
    using Cons.prems by (auto simp: claim_type_def)
  with Cons.IH [of "claim_type n s"] show ?case by (metis Un_insert_left Un_insert_right fold_simps(2)
      image_insert list.simps(15))
qed simp

lemma prepareNamespaceClaims_names:
  "g_typeNames (prepareNamespaceClaims meta g) = g_claimedNames (prepareNamespaceClaims meta g) \<and>
   set (g_claimedNames (prepareNamespaceClaims meta g)) = Export ` (fst ` set (ns_Typedefs meta) \<union>
     fst ` set (ns_Enums meta) \<union> fst ` set (ns_Structs meta) \<union> fst ` set (ns_Delegates meta) \<union>
     fst ` set (ns_Interfaces meta))"
proof -
  define names where "names = map fst (ns_Typedefs meta) @ map fst (ns_Enums meta) @
    map fst (ns_Structs meta) @ map fst (ns_Delegates meta) @ map fst (ns_Interfaces meta)"
  have "prepareNamespaceClaims meta g = g\<lparr>g_claimedNames := fst (fold claim_type names ([], [])),
      g_typeNames := snd (fold claim_type names ([], []))\<rparr>"
    by (simp only: prepareNamespaceClaims_def names_def Let_def)
  moreover have "fst (fold claim_type names ([], [])) = snd (fold claim_type names ([], []))"
    "set (fst (fold claim_type names ([], []))) = Export ` set names"
    by (rule fold_claim_type [of "([], [])" names, THEN conjunct1], simp,
        use fold_claim_type [of "([], [])" names, THEN conjunct2] in simp)
  moreover have "Export ` set names = Export ` (fst ` set (ns_Typedefs meta) \<union>
     fst ` set (ns_Enums meta) \<union> fst ` set (ns_Structs meta) \<union> fst ` set (ns_Delegates meta) \<union>
     fst ` set (ns_Interfaces meta))"
    by (simp add: names_def Un_assoc)
  ultimately show ?thesis by (simp del: fold_append)
qed

lemma claimName_frame [frame]:
  "snd (claimName n g) = g \<or> snd (claimName n g) = g\<lparr>g_claimedNames := n # g_claimedNames g\<rparr>"
  by (simp add: claimName_def)

text \<open>Names handed out between two states: all different, none taken before, all taken after.\<close>

definition fresh_names :: "generator \<Rightarrow> string list \<Rightarrow> generator \<Rightarrow> bool" where
  "fresh_names g got g' \<longleftrightarrow> distinct got \<and> set got \<inter> set (g_claimedNames g) = {} \<and>
     set (g_claimedNames g) \<union> set got \<subseteq> set (g_claimedNames g')"

lemma fresh_names_Nil: "set (g_claimedNames g) \<subseteq> set (g_claimedNames g') \<Longrightarrow> fresh_names g [] g'"
  by (simp add: fresh_names_def)

lemma fresh_names_append:
  "fresh_names g xs g1 \<Longrightarrow> fresh_names g1 ys g2 \<Longrightarrow> fresh_names g (xs @ ys) g2"
  by (fastforce simp: fresh_names_def)

lemma fresh_names_Cons:
  "claimName n g = (True, g1) \<Longrightarrow> fresh_names g1 ys g2 \<Longrightarrow> fresh_names g (n # ys) g2"
  using fresh_names_append [of g "[n]" g1 ys g2] value_names.granted [of n g g1]
  by (simp add: fresh_names_def)

lemma fresh_names_same_claims:
  "fresh_names g1 xs g2 \<Longrightarrow> g_claimedNames g = g_claimedNames g1 \<Longrightarrow> g_claimedNames g2 = g_claimedNames g' \<Longrightarrow>
     fresh_names g xs g'"
  by (simp add: fresh_names_def)

lemma fresh_names_diag [simp]:
  "fresh_names (diag d g) xs g' = fresh_names g xs g'" "fresh_names g xs (diag d g') = fresh_names g xs g'"
  by (simp_all add: fresh_names_def diag_def)

section \<open>Frames\<close>

lemma diag_frame [simp]:
  "g_claimedNames (diag d g) = g_claimedNames g" "g_typeNames (diag d g) = g_typeNames g"
  "g_mapper (diag d g) = g_mapper g" "g_resolution (diag d g) = g_resolution g"
  "g_archStructs (diag d g) = g_archStructs g" "g_layoutArch (diag d g) = g_layoutArch g"
  by (simp_all add: diag_def)

lemma set_import_frame [simp]:
  "g_claimedNames (set_import a p g) = g_claimedNames g" "g_typeNames (set_import a p g) = g_typeNames g"
  "g_mapper (set_import a p g) = g_mapper g"
  by (simp_all add: set_import_def)

lemma resolve_type_frame:
  "resolve_type ref ctx g = Some (r, g') \<Longrightarrow> \<exists>rn. g' = g\<lparr>g_resolution := rn\<rparr>"
  by (auto simp: resolve_type_def)

lemma claim_simps [simp]:
  "g_typeNames (snd (claimName n g)) = g_typeNames g"
  "g_claimedNames (snd (claimTypeName n g)) = g_claimedNames g"
  by (simp_all add: claimName_def claimTypeName_def)

end
