(* ===== verification/Types.thy ===== *)
theory Types
  imports Claims "HOL-Library.Monad_Syntax"
begin

unbundle bit_operations_syntax

text \<open>
  The type builders of \<open>internal/codegen/emit/raw/types.go\<close> (enums, typedefs, structures, delegates)
  and of \<open>archstructs.go\<close> (structures emitted once per architecture), and the layout records of
  \<open>abitest.go\<close>.

  A builder takes the generator state and returns it updated. Those that resolve types or compute
  layouts return an option: \<open>None\<close> is a resolution that does not return. A Go map is visited in the
  order of its sorted keys.
\<close>

section \<open>Names and literals\<close>

definition exportName :: "string \<Rightarrow> string" where
  "exportName name =
     (if name = [] then ''Field''
      else case trim_left (CHR ''_'') name of
        [] \<Rightarrow> ''Field''
      | c # cs \<Rightarrow> if is_digit_ascii c then CHR ''F'' # c # cs else upper_first c @ cs)"

definition nestedTypeName :: "string \<Rightarrow> string \<Rightarrow> string" where
  "nestedTypeName parent nested = parent @ ''_'' @ trim_prefix nested ''_''"

definition literalForBase :: "string \<Rightarrow> string \<Rightarrow> string" where
  "literalForBase value baseType =
     (if \<not> has_prefix value ''-'' \<or> \<not> has_prefix baseType ''u'' then value
      else (case parse_int64 value of
              None \<Rightarrow> value
            | Some v \<Rightarrow>
                (let u = word_of_int v :: 64 word in
                 if baseType = ''uint8'' then show_nat (unat (u AND 0xFF))
                 else if baseType = ''uint16'' then show_nat (unat (u AND 0xFFFF))
                 else if baseType = ''uint32'' then show_nat (unat (u AND 0xFFFFFFFF))
                 else show_nat (unat u))))"

definition sorted_entries :: "'v gomap \<Rightarrow> (string \<times> 'v) list" where
  "sorted_entries m = sort_key fst (entries m)"

section \<open>Enums\<close>

text \<open>The member loop: accepted members, members with a value not seen before, and the state.\<close>

fun enum_members :: "string \<Rightarrow> string \<Rightarrow> enum_member list \<Rightarrow> string list \<Rightarrow> generator \<Rightarrow>
    enum_member_model list \<times> enum_member_model list \<times> generator" where
  "enum_members enum base [] seen g = ([], [], g)"
| "enum_members enum base (m # ms) seen g =
     (let memberName = Export (em_Name m); (ok, g) = claimName memberName g in
      if \<not> ok then
        enum_members enum base ms seen
          (diag (''enum member '' @ enum @ ''.'' @ em_Name m @ '': name already used'') g)
      else
        (let value = literalForBase (em_Value m) base;
             model = \<lparr>emm_Name = memberName, emm_Value = value, emm_IsZero = (value = ''0'')\<rparr>;
             (members, unique, g) = enum_members enum base ms
               (if value \<in> set seen then seen else value # seen) g
         in (model # members, if value \<in> set seen then unique else model # unique, g)))"

definition already_used :: "string \<Rightarrow> string \<Rightarrow> namespace_meta \<Rightarrow> string" where
  "already_used what name meta =
     what @ '' '' @ name @ '': name already used in package '' @ ns_Namespace meta"

fun enum_models :: "namespace_meta \<Rightarrow> (string \<times> enum_def) list \<Rightarrow> generator \<Rightarrow> enum_model list \<times> generator" where
  "enum_models meta [] g = ([], g)"
| "enum_models meta ((name, enum) # es) g =
     (let goName = Export name; (ok, g) = claimTypeName goName g in
      if \<not> ok then enum_models meta es (diag (already_used ''enum'' name meta) g)
      else
        (let (members, unique, g) = enum_members name (en_BaseType enum) (en_Members enum) [] g;
             (models, g) = enum_models meta es g
         in (\<lparr>enm_TypeName = goName, enm_BaseType = en_BaseType enum, enm_IsFlags = en_IsFlags enum,
              enm_DocURL = av_DocURL (en_Availability enum), enm_Members = members,
              enm_UniqueMembers = unique\<rparr> # models, g)))"

definition buildEnumModels :: "namespace_meta \<Rightarrow> generator \<Rightarrow> enum_model list \<times> generator" where
  "buildEnumModels meta g = enum_models meta (sorted_entries (ns_Enums meta)) g"

section \<open>Typedefs\<close>

definition typedefBacking :: "typedef_def \<Rightarrow> string \<Rightarrow> generator \<Rightarrow> (string \<times> generator) option" where
  "typedefBacking td ns g =
     (if is_void_pointer (td_Underlying td) then Some (''uintptr'', g)
      else do {
        (resolved, g) \<leftarrow> resolve_type (td_Underlying td) \<lparr>cx_Namespace = ns, cx_IsReturn = False\<rparr> g;
        Some (if res_Kind resolved = KindUnsupported \<or> res_GoType resolved = [] then ''uintptr''
              else res_GoType resolved, g)
      })"

fun typedef_models :: "namespace_meta \<Rightarrow> (string \<times> typedef_def) list \<Rightarrow> generator \<Rightarrow>
    (typedef_model list \<times> generator) option" where
  "typedef_models meta [] g = Some ([], g)"
| "typedef_models meta ((name, td) # ts) g =
     (let goName = Export name; (ok, g) = claimTypeName goName g in
      if \<not> ok then typedef_models meta ts (diag (already_used ''typedef'' name meta) g)
      else do {
        (backing, g) \<leftarrow> typedefBacking td (ns_Namespace meta) g;
        (models, g) \<leftarrow> typedef_models meta ts g;
        Some (\<lparr>tdm_TypeName = goName, tdm_Backing = backing, tdm_DocURL = av_DocURL (td_Availability td),
               tdm_InvalidValues = td_InvalidValues td, tdm_FreeFunc = td_FreeFunc td\<rparr> # models, g)
      })"

definition buildTypedefModels :: "namespace_meta \<Rightarrow> generator \<Rightarrow> (typedef_model list \<times> generator) option" where
  "buildTypedefModels meta g = typedef_models meta (sorted_entries (ns_Typedefs meta)) g"

section \<open>Layout records\<close>

definition abi_key :: "abi_record \<Rightarrow> string" where
  "abi_key r = ar_Namespace r @ ''.'' @ ar_TypeName r @
     (if ar_Arch r \<noteq> [] then ''@'' @ ar_Arch r else [])"

text \<open>A nil field list (unions) and a list of another length than the offsets record the size only.\<close>

definition recordABI :: "string \<Rightarrow> string \<Rightarrow> struct_def \<Rightarrow> struct_field_model list option \<Rightarrow>
    generator \<Rightarrow> generator option" where
  "recordABI ns typeName d modelFields g = do {
     detailed \<leftarrow> struct_layout_of d True g;
     Some (if \<not> sl_ok detailed \<or> sl_size detailed = 0 then g
       else (let fs = (case modelFields of
                   None \<Rightarrow> []
                 | Some ms \<Rightarrow> if length ms = length (sl_offsets detailed)
                     then map (\<lambda>(m, off). \<lparr>af_Name = sfm_Name m, af_Offset = off\<rparr>) (zip ms (sl_offsets detailed))
                     else []);
                 r = \<lparr>ar_Namespace = ns, ar_TypeName = typeName, ar_Arch = g_layoutArch g,
                      ar_Size = sl_size detailed, ar_Fields = fs\<rparr>
             in g\<lparr>g_abiRecords := AList.update (abi_key r) r (g_abiRecords g)\<rparr>))
   }"

section \<open>Structures\<close>

definition opaqueBlobFields :: "struct_def \<Rightarrow> string \<Rightarrow> string \<Rightarrow> generator \<Rightarrow>
    (struct_field_model list option \<times> generator) option" where
  "opaqueBlobFields d name what g = do {
     l \<leftarrow> layoutOfStruct (layout_bound (g_registry g)) (g_registry g) (g_layoutArch g) d;
     Some (case blob_type l of
         None \<Rightarrow> (None, diag (what @ '' '' @ name @ '': layout not computable, skipped'') g)
       | Some t \<Rightarrow> (Some [\<lparr>sfm_Name = ''Data'', sfm_GoType = t\<rparr>], g))
   }"

text \<open>The reference to an anonymous nested type, directly or as a pointee or element.\<close>

definition anonymous_ref :: "type_ref \<Rightarrow> bool" where
  "anonymous_ref ref \<longleftrightarrow> ref_Kind ref = ''ApiRef'' \<and> ref_Api ref = []"

definition anonymous_child :: "string \<Rightarrow> type_ref \<Rightarrow> string option" where
  "anonymous_child k ref =
     (case ref_Child ref of
        None \<Rightarrow> None
      | Some c \<Rightarrow> if ref_Kind ref = k \<and> anonymous_ref c then Some (ref_Name c) else None)"

definition fieldGoType :: "namespace_meta \<Rightarrow> string \<Rightarrow> type_ref \<Rightarrow> string list \<Rightarrow> generator \<Rightarrow>
    (string option \<times> generator) option" where
  "fieldGoType meta parentName ref emittedNested g =
     (if anonymous_ref ref then
        Some (if ref_Name ref \<in> set emittedNested then Some (nestedTypeName parentName (ref_Name ref))
              else None, g)
      else (case anonymous_child ''PointerTo'' ref of
        Some n \<Rightarrow> Some (Some (if n \<in> set emittedNested then ''*'' @ nestedTypeName parentName n
                            else ''unsafe.Pointer''), g)
      | None \<Rightarrow> (case anonymous_child ''Array'' ref of
        Some n \<Rightarrow> Some (if n \<in> set emittedNested
            then Some (''['' @ show_nat (unat (ref_ArrayLen ref)) @ '']'' @ nestedTypeName parentName n)
            else None, g)
      | None \<Rightarrow> do {
          (resolved, g) \<leftarrow> resolve_type ref \<lparr>cx_Namespace = ns_Namespace meta, cx_IsReturn = False\<rparr> g;
          if res_Kind resolved = KindUnsupported then
            (if ref_Kind ref = ''ApiRef'' \<or> ref_Kind ref = ''Array''
             then do { blob \<leftarrow> blob_type_of ref g; Some (blob, g) }
             else Some (None, g))
          else Some (Some (res_GoType resolved), g)
        })))"

text \<open>The field loop; the inner \<open>None\<close> is an unresolved field, which skips the structure.\<close>

fun struct_fields :: "namespace_meta \<Rightarrow> string \<Rightarrow> struct_field list \<Rightarrow> string list \<Rightarrow> string list \<Rightarrow> generator \<Rightarrow>
    (struct_field_model list option \<times> generator) option" where
  "struct_fields meta name [] emittedNested used g = Some (Some [], g)"
| "struct_fields meta name (f # fs) emittedNested used g = do {
     (goType, g) \<leftarrow> fieldGoType meta name (sf_Type f) emittedNested g;
     case goType of
       None \<Rightarrow> Some (None, diag (''struct '' @ name @ '': field '' @ sf_Name f @
                            '' type unresolved, struct skipped'') g)
     | Some t \<Rightarrow>
         (let fieldName = avoidCollision
                (if sf_Bitfields f \<noteq> [] then exportName (replace_all ''_bitfield'' ''Bitfield'' (sf_Name f))
                 else exportName (sf_Name f)) used
          in do {
            (models, g) \<leftarrow> struct_fields meta name fs emittedNested (fieldName # used) g;
            Some (map_option ((#) \<lparr>sfm_Name = fieldName, sfm_GoType = t\<rparr>) models, g)
          })
   }"

lemma nested_size_entries: "nested_size (sorted_entries m) \<le> nested_size m"
proof -
  have "nested_size (sorted_entries m) = nested_size (entries m)"
    by (simp only: nested_size_def sorted_entries_def mset_sort mset_map flip: sum_mset_sum_list)
  also have "nested_size (AList.clearjunk m) \<le> nested_size m"
  proof (induction m rule: AList.clearjunk.induct)
    case (2 p ps)
    have "nested_size (AList.delete k xs) \<le> nested_size xs" for k and xs :: "(string \<times> struct_def) list"
      by (induction xs) (auto simp: nested_size_def)
    from this [of "fst p" ps] 2 show ?case by (auto simp: nested_size_def split_def)
  qed simp
  then have "nested_size (entries m) \<le> nested_size m" by (simp add: entries_def)
  finally show ?thesis .
qed

text \<open>
  \<open>buildStructTree\<close> and its loop over the anonymous nested types, which are emitted first. A union,
  and a structure whose packed layout is not the one Go gives its fields, is one opaque blob.
\<close>

definition claim_struct :: "bool \<Rightarrow> string \<Rightarrow> generator \<Rightarrow> bool \<times> generator" where
  "claim_struct isNested name g = (if isNested then claimName name g else claimTypeName name g)"

definition blob_struct :: "namespace_meta \<Rightarrow> string \<Rightarrow> struct_def \<Rightarrow> bool \<Rightarrow> generator \<Rightarrow>
    (struct_model list \<times> generator) option" where
  "blob_struct meta name d isUnion g = do {
     (blob, g) \<leftarrow> opaqueBlobFields d name (if isUnion then ''union'' else ''packed struct'') g;
     case blob of
       None \<Rightarrow> Some ([], unclaimName name g)
     | Some fs \<Rightarrow> do {
         g \<leftarrow> recordABI (ns_Namespace meta) name d None g;
         Some ([\<lparr>stm_TypeName = name, stm_DocURL = av_DocURL (st_Availability d),
                 stm_IsUnionBlob = isUnion, stm_IsPackedBlob = (\<not> isUnion), stm_Fields = fs\<rparr>], g)
       }
   }"

definition needs_packed_blob :: "struct_def \<Rightarrow> generator \<Rightarrow> bool option" where
  "needs_packed_blob d g = do {
     packed \<leftarrow> struct_layout_of d True g;
     natural \<leftarrow> struct_layout_of d False g;
     Some (sl_ok packed \<and> sl_ok natural \<and> \<not> sameLayout packed natural)
   }"

definition plain_struct_models :: "namespace_meta \<Rightarrow> string \<Rightarrow> struct_def \<Rightarrow> struct_model list \<Rightarrow> string list \<Rightarrow>
    generator \<Rightarrow> (struct_model list \<times> generator) option" where
  "plain_struct_models meta name d models emittedNested g = do {
     (fs, g) \<leftarrow> struct_fields meta name (st_Fields d) emittedNested [] g;
     case fs of
       None \<Rightarrow> Some (models, unclaimName name g)
     | Some fs \<Rightarrow> do {
         g \<leftarrow> recordABI (ns_Namespace meta) name d (Some fs) g;
         Some (models @ [\<lparr>stm_TypeName = name, stm_DocURL = av_DocURL (st_Availability d),
           stm_IsUnionBlob = False, stm_IsPackedBlob = False, stm_Fields = fs\<rparr>], g)
       }
   }"

function buildStructTree :: "namespace_meta \<Rightarrow> string \<Rightarrow> struct_def \<Rightarrow> bool \<Rightarrow> generator \<Rightarrow>
    (struct_model list \<times> generator) option"
  and nested_structs :: "namespace_meta \<Rightarrow> string \<Rightarrow> (string \<times> struct_def) list \<Rightarrow> generator \<Rightarrow>
    (struct_model list \<times> string list \<times> generator) option"
where
  "buildStructTree meta name d isNested g =
     (case claim_struct isNested name g of
        (False, g) \<Rightarrow> Some ([], diag (already_used ''struct'' name meta) g)
      | (True, g) \<Rightarrow>
          if st_IsUnion d then blob_struct meta name d True g
          else (case needs_packed_blob d g of
              None \<Rightarrow> None
            | Some True \<Rightarrow> blob_struct meta name d False g
            | Some False \<Rightarrow>
                (case nested_structs meta name (sorted_entries (st_NestedTypes d)) g of
                   None \<Rightarrow> None
                 | Some (models, emittedNested, g) \<Rightarrow> plain_struct_models meta name d models emittedNested g)))"
| "nested_structs meta name [] g = Some ([], [], g)"
| "nested_structs meta name ((nested, d) # ds) g =
     (case buildStructTree meta (nestedTypeName name nested) d True g of
        None \<Rightarrow> None
      | Some (sub, g) \<Rightarrow>
          (case nested_structs meta name ds g of
             None \<Rightarrow> None
           | Some (models, emittedNested, g) \<Rightarrow>
               Some (sub @ models, if sub \<noteq> [] then nested # emittedNested else emittedNested, g)))"
  by pat_completeness auto
termination
proof (relation "measure (\<lambda>x. case x of Inl (meta, name, d, n, g) \<Rightarrow> size d
                             | Inr (meta, name, ds, g) \<Rightarrow> nested_size ds)", goal_cases)
  case (2 meta name d isNested g x b g')
  show ?case using nested_size_entries [of "st_NestedTypes d"] nested_size_struct [of d] by simp
qed (auto simp: nested_size_def)

declare buildStructTree.simps [simp del] nested_structs.simps(2) [simp del]

definition chooseArchVariant :: "string \<Rightarrow> struct_def \<Rightarrow> generator \<Rightarrow> struct_def option \<times> generator" where
  "chooseArchVariant name d g =
     (case pickAmd64Variant d of
        None \<Rightarrow> (None, diag (''struct '' @ name @ '': no amd64 variant, skipped'') g)
      | Some (i, chosen) \<Rightarrow>
          (Some chosen,
           if st_ArchVariants d \<noteq> []
           then diag (''struct '' @ name @ '': emitting the 64-bit layout only ('' @
                  show_nat (length (st_ArchVariants d) + 1) @ '' variants; x86 differs)'') g
           else g))"

fun struct_models :: "namespace_meta \<Rightarrow> (string \<times> struct_def) list \<Rightarrow> generator \<Rightarrow>
    (struct_model list \<times> generator) option" where
  "struct_models meta [] g = Some ([], g)"
| "struct_models meta ((name, d) # ds) g =
     (if isArchStruct (g_archStructs g) (ns_Namespace meta) name then
        struct_models meta ds
          (diag (''struct '' @ name @ '': architecture-specific layout, emitted per architecture (amd64, arm64)'') g)
      else (let (chosen, g) = chooseArchVariant name d g in
        case chosen of
          None \<Rightarrow> struct_models meta ds g
        | Some c \<Rightarrow> do {
            (models, g) \<leftarrow> buildStructTree meta (Export name) c False g;
            (rest, g) \<leftarrow> struct_models meta ds g;
            Some (models @ rest, g)
          }))"

definition buildStructModels :: "namespace_meta \<Rightarrow> generator \<Rightarrow> (struct_model list \<times> generator) option" where
  "buildStructModels meta g = struct_models meta (sorted_entries (ns_Structs meta)) g"

section \<open>Structures per architecture\<close>

fun arch_models :: "namespace_meta \<Rightarrow> string \<Rightarrow> (string \<times> struct_def) list \<Rightarrow> generator \<Rightarrow>
    (struct_model list \<times> generator) option" where
  "arch_models meta arch [] g = Some ([], g)"
| "arch_models meta arch ((name, d) # ds) g =
     (case pickVariant d arch of
        None \<Rightarrow> arch_models meta arch ds
          (diag (''struct '' @ name @ '': no '' @ arch @ '' layout, skipped on '' @ arch) g)
      | Some (i, chosen) \<Rightarrow> do {
          (models, g) \<leftarrow> buildStructTree meta (Export name) chosen False g;
          (rest, g) \<leftarrow> arch_models meta arch ds g;
          Some (models @ rest, g)
        })"

text \<open>
  The passes over the architectures. Every pass starts from the claims at the start
  (\<open>baseClaims\<close>, \<open>baseTypes\<close>); the claims of all passes and the type names consumed by any pass are
  collected.
\<close>

fun arch_passes :: "namespace_meta \<Rightarrow> (string \<times> struct_def) list \<Rightarrow> string list \<Rightarrow> string list \<Rightarrow> string list \<Rightarrow>
    string list \<Rightarrow> string list \<Rightarrow> generator \<Rightarrow>
    ((string \<times> struct_model list) list \<times> string list \<times> string list \<times> generator) option" where
  "arch_passes meta ds baseClaims baseTypes [] unionClaims consumed g = Some ([], unionClaims, consumed, g)"
| "arch_passes meta ds baseClaims baseTypes (arch # arches) unionClaims consumed g = do {
     (models, g) \<leftarrow> arch_models meta arch ds
        (g\<lparr>g_claimedNames := baseClaims, g_typeNames := baseTypes, g_layoutArch := arch\<rparr>);
     (rest, unionClaims, consumed, g) \<leftarrow> arch_passes meta ds baseClaims baseTypes arches
        (List.union (g_claimedNames g) unionClaims)
        (List.union (filter (\<lambda>n. n \<notin> set (g_typeNames g)) baseTypes) consumed) g;
     Some ((arch, models) # rest, unionClaims, consumed, g)
   }"

definition buildArchStructModels :: "namespace_meta \<Rightarrow> generator \<Rightarrow>
    ((string \<times> struct_model list) list \<times> generator) option" where
  "buildArchStructModels meta g =
     (let ds = filter (\<lambda>(name, d). isArchStruct (g_archStructs g) (ns_Namespace meta) name)
                 (sorted_entries (ns_Structs meta)) in
      if ds = [] then Some ([], g)
      else do {
        (result, unionClaims, consumed, g') \<leftarrow> arch_passes meta ds (g_claimedNames g) (g_typeNames g) emitArches
           (g_claimedNames g) [] g;
        Some (result, g'\<lparr>g_claimedNames := unionClaims,
           g_typeNames := filter (\<lambda>n. n \<notin> set consumed) (g_typeNames g),
           g_layoutArch := g_layoutArch g\<rparr>)
      })"

section \<open>Delegates\<close>

definition isFloat :: "resolved \<Rightarrow> bool" where
  "isFloat r \<longleftrightarrow> res_Kind r = KindScalar \<and> (res_GoType r = ''float32'' \<or> res_GoType r = ''float64'')"

text \<open>Signature, native return type and whether a parameter or the result is floating-point.\<close>

definition delegateSignature :: "namespace_meta \<Rightarrow> func_pointer \<Rightarrow> generator \<Rightarrow>
    ((string \<times> string \<times> bool) \<times> generator) option" where
  "delegateSignature meta d g = do {
     (params, g) \<leftarrow> resolve_all (\<lambda>p. resolve_type (p_Type p) \<lparr>cx_Namespace = ns_Namespace meta, cx_IsReturn = False\<rparr>)
        (fp_Params d) g;
     (ret, g) \<leftarrow> resolve_type (fp_Return d) \<lparr>cx_Namespace = ns_Namespace meta, cx_IsReturn = True\<rparr> g;
     Some ((''func('' @ join_with '', '' (map res_GoType params) @ '') uintptr'',
            if res_Kind ret \<noteq> KindVoid then res_GoType ret else [],
            list_ex isFloat params \<or> (res_Kind ret \<noteq> KindVoid \<and> isFloat ret)), g)
   }"

fun delegate_models :: "namespace_meta \<Rightarrow> (string \<times> func_pointer) list \<Rightarrow> generator \<Rightarrow>
    (delegate_model list \<times> generator) option" where
  "delegate_models meta [] g = Some ([], g)"
| "delegate_models meta ((name, d) # ds) g =
     (let goName = Export name; (ok, g) = claimTypeName goName g in
      if \<not> ok then delegate_models meta ds (diag (already_used ''delegate'' name meta) g)
      else do {
        ((signature, nativeReturn, hasFloat), g) \<leftarrow> delegateSignature meta d g;
        (models, g) \<leftarrow> delegate_models meta ds g;
        Some (\<lparr>dlm_TypeName = goName, dlm_DocURL = av_DocURL (fp_Availability d), dlm_Signature = signature,
               dlm_NativeReturn = nativeReturn, dlm_HasFloat = hasFloat\<rparr> # models, g)
      })"

definition buildDelegateModels :: "namespace_meta \<Rightarrow> generator \<Rightarrow> (delegate_model list \<times> generator) option" where
  "buildDelegateModels meta g = delegate_models meta (sorted_entries (ns_Delegates meta)) g"

section \<open>Enum names and values\<close>

lemma enum_members_fresh:
  "enum_members enum base ms seen g = (members, unique, g') \<Longrightarrow>
     fresh_names g (map emm_Name members) g' \<and> g_typeNames g' = g_typeNames g"
proof (induction enum base ms seen g arbitrary: members unique g' rule: enum_members.induct)
  case (1 enum base seen g)
  then show ?case by (simp add: fresh_names_Nil)
next
  case (2 enum base m ms seen g)
  obtain ok g1 where c: "claimName (Export (em_Name m)) g = (ok, g1)" by fastforce
  have t: "g_typeNames g1 = g_typeNames g" using claim_simps(1) [of "Export (em_Name m)" g] c by simp
  show ?case
  proof (cases ok)
    case False
    then have "g1 = g" using c by (auto simp: claimName_def split: if_splits)
    then show ?thesis
      using "2.IH"(1) [OF refl c [symmetric]] False "2.prems" c
      by (auto simp: Let_def intro: fresh_names_same_claims)
  next
    case True
    let ?v = "literalForBase (em_Value m) base"
    obtain members' unique' g2 where r: "enum_members enum base ms (if ?v \<in> set seen then seen else ?v # seen) g1
        = (members', unique', g2)" by (metis prod_cases3)
    have IH: "fresh_names g1 (map emm_Name members') g2 \<and> g_typeNames g2 = g_typeNames g1"
      using "2.IH"(2) [OF refl c [symmetric]] True r by simp
    have eq: "map emm_Name members = Export (em_Name m) # map emm_Name members'" "g' = g2"
      using "2.prems" True c r by (auto simp: Let_def)
    with IH t True c show ?thesis by (auto intro: fresh_names_Cons)
  qed
qed

lemma enum_members_unique:
  "enum_members enum base ms seen g = (members, unique, g') \<Longrightarrow>
     distinct (map emm_Value unique) \<and> set (map emm_Value unique) \<inter> set seen = {} \<and>
     emm_Value ` set members - set seen = emm_Value ` set unique \<and> subseq unique members"
proof (induction enum base ms seen g arbitrary: members unique g' rule: enum_members.induct)
  case (1 enum base seen g)
  then show ?case by simp
next
  case (2 enum base m ms seen g)
  obtain ok g1 where c: "claimName (Export (em_Name m)) g = (ok, g1)" by fastforce
  show ?case
  proof (cases ok)
    case False
    then show ?thesis using "2.IH"(1) [OF refl c [symmetric]] "2.prems" c by (auto simp: Let_def)
  next
    case True
    let ?v = "literalForBase (em_Value m) base"
    let ?m = "\<lparr>emm_Name = Export (em_Name m), emm_Value = ?v, emm_IsZero = (?v = ''0'')\<rparr>"
    obtain members' unique' g2 where r: "enum_members enum base ms (if ?v \<in> set seen then seen else ?v # seen) g1
        = (members', unique', g2)" by (metis prod_cases3)
    have IH: "distinct (map emm_Value unique')"
      "set (map emm_Value unique') \<inter> set (if ?v \<in> set seen then seen else ?v # seen) = {}"
      "emm_Value ` set members' - set (if ?v \<in> set seen then seen else ?v # seen) = emm_Value ` set unique'"
      "subseq unique' members'"
      using "2.IH"(2) [OF refl c [symmetric]] True r by simp_all
    have eq: "members = ?m # members'" "unique = (if ?v \<in> set seen then unique' else ?m # unique')"
      using "2.prems" True c r by (auto simp: Let_def)
    show ?thesis
    proof (cases "?v \<in> set seen")
      case True
      with IH eq show ?thesis by auto
    next
      case False
      with IH eq show ?thesis by auto
    qed
  qed
qed

definition member_names :: "enum_model list \<Rightarrow> string list" where
  "member_names ms = concat (map (\<lambda>m. map emm_Name (enm_Members m)) ms)"

text \<open>The cases of the generated \<open>String\<close> switch: members in their order, no value twice, no value of a member missing.\<close>

definition switch_ok :: "enum_model \<Rightarrow> bool" where
  "switch_ok m \<longleftrightarrow> distinct (map emm_Value (enm_UniqueMembers m)) \<and>
     emm_Value ` set (enm_UniqueMembers m) = emm_Value ` set (enm_Members m) \<and>
     subseq (enm_UniqueMembers m) (enm_Members m)"

lemma member_names_simps [simp]:
  "member_names [] = []" "member_names (m # ms) = map emm_Name (enm_Members m) @ member_names ms"
  by (simp_all add: member_names_def)

lemma enum_models_names:
  "enum_models meta es g = (models, g') \<Longrightarrow>
     fresh_names g (member_names models) g' \<and> distinct (map enm_TypeName models) \<and>
     set (map enm_TypeName models) \<subseteq> set (g_typeNames g) \<and> list_all switch_ok models"
proof (induction meta es g arbitrary: models g' rule: enum_models.induct)
  case (1 meta g)
  then show ?case by (simp add: fresh_names_Nil)
next
  case (2 meta name enum es g)
  obtain ok g1 where c: "claimTypeName (Export name) g = (ok, g1)" by fastforce
  show ?case
  proof (cases ok)
    case False
    then have "g1 = g" using c by (auto simp: claimTypeName_def split: if_splits)
    then show ?thesis
      using "2.IH"(1) [OF refl c [symmetric]] False "2.prems" c by (auto simp: Let_def)
  next
    case True
    obtain ms us g2 where m: "enum_members name (en_BaseType enum) (en_Members enum) [] g1 = (ms, us, g2)"
      by (metis prod_cases3)
    obtain rest g3 where r: "enum_models meta es g2 = (rest, g3)" by fastforce
    have g1: "g_claimedNames g1 = g_claimedNames g" "set (g_typeNames g1) = set (g_typeNames g) - {Export name}"
      "Export name \<in> set (g_typeNames g)"
      using c True by (auto simp: claimTypeName_def split: if_splits)
    have IH: "fresh_names g2 (member_names rest) g3" "distinct (map enm_TypeName rest)"
      "set (map enm_TypeName rest) \<subseteq> set (g_typeNames g2)" "list_all switch_ok rest"
      using "2.IH"(2) [OF refl c [symmetric]] True m r by simp_all
    have f: "fresh_names g1 (map emm_Name ms) g2" "g_typeNames g2 = g_typeNames g1"
      using enum_members_fresh [OF m] by simp_all
    have u: "distinct (map emm_Value us)" "emm_Value ` set us = emm_Value ` set ms" "subseq us ms"
      using enum_members_unique [OF m] by simp_all
    have eq: "models = \<lparr>enm_TypeName = Export name, enm_BaseType = en_BaseType enum, enm_IsFlags = en_IsFlags enum,
        enm_DocURL = av_DocURL (en_Availability enum), enm_Members = ms, enm_UniqueMembers = us\<rparr> # rest" "g' = g3"
      using "2.prems" True c m r by (auto simp: Let_def)
    have "fresh_names g (map emm_Name ms) g2"
      by (rule fresh_names_same_claims [OF f(1)]) (simp_all add: g1)
    then have "fresh_names g (map emm_Name ms @ member_names rest) g3" using IH(1) by (rule fresh_names_append)
    moreover have sub: "set (map enm_TypeName rest) \<subseteq> set (g_typeNames g) - {Export name}"
      using IH(3) by (simp only: f(2) g1(2))
    moreover have "Export name \<notin> set (map enm_TypeName rest)" using sub by blast
    moreover have "set (map enm_TypeName rest) \<subseteq> set (g_typeNames g)" using sub by blast
    moreover have "switch_ok \<lparr>enm_TypeName = Export name, enm_BaseType = en_BaseType enum,
        enm_IsFlags = en_IsFlags enum, enm_DocURL = av_DocURL (en_Availability enum), enm_Members = ms,
        enm_UniqueMembers = us\<rparr>"
      unfolding switch_ok_def by (simp add: u(1,3)) (rule u(2))
    ultimately show ?thesis
      unfolding eq using IH(2,4) g1(3) by (simp del: set_map)
  qed
qed

text \<open>
  \<^bold>\<open>C13\<close>: the enum file of a package declares no identifier twice and takes no name of another type:
  the type names and all member names are different, and no member has a name of any type of the
  namespace. The cases of every \<open>String\<close> switch have different values and miss none.
\<close>

theorem buildEnumModels_names:
  fixes meta g
  defines "models \<equiv> fst (buildEnumModels meta (prepareNamespaceClaims meta g))"
  shows "distinct (map enm_TypeName models @ member_names models) \<and>
    set (member_names models) \<inter>
      Export ` (fst ` set (ns_Typedefs meta) \<union> fst ` set (ns_Enums meta) \<union> fst ` set (ns_Structs meta) \<union>
        fst ` set (ns_Delegates meta) \<union> fst ` set (ns_Interfaces meta)) = {} \<and>
    list_all switch_ok models"
proof -
  let ?g = "prepareNamespaceClaims meta g"
  obtain g' where r: "enum_models meta (sorted_entries (ns_Enums meta)) ?g = (models, g')"
    using models_def by (simp add: buildEnumModels_def) (metis prod.collapse)
  note names = enum_models_names [OF r]
  have claims: "g_typeNames ?g = g_claimedNames ?g" "set (g_claimedNames ?g) = Export `
      (fst ` set (ns_Typedefs meta) \<union> fst ` set (ns_Enums meta) \<union> fst ` set (ns_Structs meta) \<union>
        fst ` set (ns_Delegates meta) \<union> fst ` set (ns_Interfaces meta))"
    using prepareNamespaceClaims_names [of meta g] by simp_all
  have T: "distinct (map enm_TypeName models)" "set (map enm_TypeName models) \<subseteq> set (g_claimedNames ?g)"
    "list_all switch_ok models"
    using names claims(1) by simp_all
  have M: "distinct (member_names models)" "set (member_names models) \<inter> set (g_claimedNames ?g) = {}"
    using names by (simp_all add: fresh_names_def)
  have "set (map enm_TypeName models) \<inter> set (member_names models) = {}" using T(2) M(2) by blast
  with T M claims(2) show ?thesis by (simp only: distinct_append conj_assoc simp_thms)
qed

section \<open>Negative literals\<close>

lemma parse_int64_negative:
  assumes "- (2 ^ 63) \<le> i" "i < 0"
  shows "parse_int64 (show_int i) = Some i"
proof -
  have n: "nat (- i) \<le> 2 ^ 63" "nat (- i) < 2 ^ 64" using assms by auto
  have "parse_uint 10 64 (show_nat (nat (- i))) = Some (nat (- i))"
    using n(2) unfolding show_nat_def by (intro parse_uint_show_base) simp_all
  with assms n(1) show ?thesis by (simp add: parse_int64_def show_int_def Let_def)
qed

lemma unat_mask_int:
  assumes "n \<le> 64"
  shows "unat (word_of_int i AND mask n :: 64 word) = nat (i mod 2 ^ n)"
proof -
  have "(word_of_int i AND mask n :: 64 word) = take_bit n (word_of_int i)"
    by (simp only: take_bit_eq_mask)
  then have "uint (word_of_int i AND mask n :: 64 word) = take_bit n (uint (word_of_int i :: 64 word))"
    by (simp only: unsigned_take_bit_eq)
  also have "\<dots> = take_bit n (i mod 2 ^ 64)" by (simp add: uint_word_of_int)
  also have "\<dots> = i mod 2 ^ n"
    using assms by (simp only: take_bit_eq_mod mod_mod_cancel le_imp_power_dvd)
  finally show ?thesis by (simp flip: nat_uint_eq)
qed

text \<open>
  A negative value of an unsigned enum or constant is printed as its two's complement in the
  width of the base type, for every value of the 64-bit range; other values are printed as they are.
\<close>

theorem literalForBase_wraps:
  assumes "- (2 ^ 63) \<le> i" and "i < 0"
    and "(base, w) \<in> {(''uint8'', 8), (''uint16'', 16), (''uint32'', 32), (''uint64'', 64)}"
  shows "literalForBase (show_int i) base = show_nat (nat (i mod 2 ^ w)) \<and> nat (i mod 2 ^ w) < 2 ^ w \<and>
    literalForBase (show_int i) ''int32'' = show_int i"
proof -
  have p: "parse_int64 (show_int i) = Some i" using assms(1,2) by (rule parse_int64_negative)
  have neg: "has_prefix (show_int i) ''-''" using assms(2) by (simp add: show_int_def has_prefix_def)
  have masks: "(0xFF :: 64 word) = mask 8" "(0xFFFF :: 64 word) = mask 16" "(0xFFFFFFFF :: 64 word) = mask 32"
    by (simp_all add: mask_eq_exp_minus_1)
  have full: "unat (word_of_int i :: 64 word) = nat (i mod 2 ^ 64)"
    by (simp add: uint_word_of_int flip: nat_uint_eq)
  have less: "nat (i mod 2 ^ w) < 2 ^ w" by (simp add: nat_less_iff)
  have "literalForBase (show_int i) base = show_nat (nat (i mod 2 ^ w))"
    using assms(3)
  proof (elim insertE emptyE)
    assume "(base, w) = (''uint8'', 8)"
    then show ?thesis unfolding literalForBase_def
      using neg p unat_mask_int [of 8 i] by (simp add: has_prefix_def masks)
  next
    assume "(base, w) = (''uint16'', 16)"
    then show ?thesis unfolding literalForBase_def
      using neg p unat_mask_int [of 16 i] by (simp add: has_prefix_def masks)
  next
    assume "(base, w) = (''uint32'', 32)"
    then show ?thesis unfolding literalForBase_def
      using neg p unat_mask_int [of 32 i] by (simp add: has_prefix_def masks)
  next
    assume "(base, w) = (''uint64'', 64)"
    then show ?thesis unfolding literalForBase_def
      using neg p full by (simp add: has_prefix_def)
  qed
  moreover have "literalForBase (show_int i) ''int32'' = show_int i"
    by (simp add: literalForBase_def has_prefix_def)
  ultimately show ?thesis using less by blast
qed

lemma literalForBase_wraps_witness:
  "literalForBase (show_int (- 1)) ''uint32'' = show_nat (nat ((- 1) mod 2 ^ 32))"
  using literalForBase_wraps [of "- 1" "''uint32''" 32] by simp

end
