(* ===== verification/ConstInit.thy ===== *)
theory ConstInit
  imports Types
begin

text \<open>
  Constants: \<open>internal/codegen/emit/raw/constinit.go\<close>, which parses C initializer text and maps it
  onto the fields of the target structure, and the constant builders of \<open>types.go\<close>.

  The parser recurses on the tokens that the previous step left, so its first argument is a bound;
  \<open>parseInitializer_returns\<close> shows that one unit per token and one more is always enough. An error is the left
  value of a sum.
\<close>

section \<open>Initializer text\<close>

datatype init_value = InitNumber string | InitGroup "init_value list"

definition isNumber :: "init_value \<Rightarrow> bool" where
  "isNumber v = (case v of InitNumber n \<Rightarrow> n \<noteq> [] | InitGroup vs \<Rightarrow> False)"

definition isNumChar :: "char \<Rightarrow> bool" where
  "isNumChar c \<longleftrightarrow> is_digit_ascii c \<or> (CHR ''a'' \<le> c \<and> c \<le> CHR ''f'') \<or> (CHR ''A'' \<le> c \<and> c \<le> CHR ''F'') \<or>
     c \<in> set ''xXuUlL''"

text \<open>The tokenizer; \<open>trim_right_set\<close> removes the C suffixes.\<close>

function tokenizeInitializer :: "string \<Rightarrow> string + string list" where
  "tokenizeInitializer [] = Inr []"
| "tokenizeInitializer (c # cs) =
     (if c \<in> {CHR '' '', CHR 0x09, CHR 0x0A, CHR 0x0D} then tokenizeInitializer cs
      else if c \<in> set ''{},'' then map_sum id ((#) [c]) (tokenizeInitializer cs)
      else if c = CHR ''-'' \<or> is_digit_ascii c then
        map_sum id ((#) (trim_right_set ''uUlL'' (c # takeWhile isNumChar cs)))
          (tokenizeInitializer (dropWhile isNumChar cs))
      else Inl (''unexpected character '' @ [CHR 0x27, c, CHR 0x27]))"
  by pat_completeness auto
termination
  by (relation "measure length") (auto simp: less_Suc_eq_le length_dropWhile_le)

definition unexpected_end :: string where
  "unexpected_end = ''unexpected end of initializer''"

fun parseValueList :: "nat \<Rightarrow> string list \<Rightarrow> (string + init_value list \<times> string list) option"
  and parseOneValue :: "nat \<Rightarrow> string list \<Rightarrow> (string + init_value \<times> string list) option"
where
  "parseValueList n tokens =
     (case tokens of
        [] \<Rightarrow> Some (Inr ([], []))
      | t # ts \<Rightarrow>
          if t = ''}'' then Some (Inr ([], tokens))
          else (case n of 0 \<Rightarrow> None | Suc n \<Rightarrow>
            (case parseOneValue n tokens of
               None \<Rightarrow> None
             | Some (Inl e) \<Rightarrow> Some (Inl e)
             | Some (Inr (value, rest)) \<Rightarrow>
                 (case parseValueList n (case rest of '','' # r \<Rightarrow> r | _ \<Rightarrow> rest) of
                    None \<Rightarrow> None
                  | Some (Inl e) \<Rightarrow> Some (Inl e)
                  | Some (Inr (values, rest)) \<Rightarrow> Some (Inr (value # values, rest))))))"
| "parseOneValue n tokens =
     (case tokens of
        [] \<Rightarrow> Some (Inl unexpected_end)
      | t # ts \<Rightarrow>
          if t = ''{'' then
            (case n of 0 \<Rightarrow> None | Suc n \<Rightarrow>
            (case parseValueList n ts of
               None \<Rightarrow> None
             | Some (Inl e) \<Rightarrow> Some (Inl e)
             | Some (Inr (inner, rest)) \<Rightarrow>
                 (case rest of
                    r # rs \<Rightarrow> if r = ''}'' then Some (Inr (InitGroup inner, rs)) else Some (Inl ''unclosed brace group'')
                  | [] \<Rightarrow> Some (Inl ''unclosed brace group''))))
          else Some (Inr (InitNumber t, ts)))"

definition parseInitializer :: "string \<Rightarrow> (string + init_value list) option" where
  "parseInitializer text =
     (case tokenizeInitializer text of
        Inl e \<Rightarrow> Some (Inl e)
      | Inr tokens \<Rightarrow>
          (case parseValueList (2 * length tokens) tokens of
             None \<Rightarrow> None
           | Some (Inl e) \<Rightarrow> Some (Inl e)
           | Some (Inr (values, rest)) \<Rightarrow>
               Some (if rest \<noteq> [] then Inl (''trailing tokens ['' @ join_with '' '' rest @ '']'') else Inr values)))"

declare parseValueList.simps [simp del] parseOneValue.simps [simp del]

section \<open>The parser returns\<close>

lemma parse_returns:
  "2 * length tokens \<le> n \<Longrightarrow> \<exists>r. parseValueList n tokens = Some r \<and>
     (\<forall>vs rest. r = Inr (vs, rest) \<longrightarrow> length rest \<le> length tokens)"
  "2 * length tokens \<le> Suc n \<Longrightarrow> \<exists>r. parseOneValue n tokens = Some r \<and>
     (\<forall>v rest. r = Inr (v, rest) \<longrightarrow> length rest < length tokens)"
proof (induction n arbitrary: tokens)
  case 0
  { case 1 then show ?case by (simp add: parseValueList.simps [of 0]) }
  { case 2 then show ?case by (cases tokens) (auto simp: parseOneValue.simps [of 0]) }
next
  case (Suc n)
  { case 1
    show ?case
    proof (cases "tokens = [] \<or> hd tokens = ''}''")
      case True
      then show ?thesis by (cases tokens) (simp_all add: parseValueList.simps [of "Suc n"])
    next
      case False
      then obtain t ts where t: "tokens = t # ts" "t \<noteq> ''}''" by (cases tokens) auto
      obtain r where r: "parseOneValue n tokens = Some r"
        "\<forall>v rest. r = Inr (v, rest) \<longrightarrow> length rest < length tokens"
        using Suc(2) [of tokens] 1 by auto
      show ?thesis
      proof (cases r)
        case (Inl e)
        with t r show ?thesis by (simp add: parseValueList.simps [of "Suc n"])
      next
        case (Inr p)
        obtain v rest where p: "p = (v, rest)" by fastforce
        let ?rest = "case rest of '','' # r \<Rightarrow> r | _ \<Rightarrow> rest"
        have shorter: "length ?rest \<le> length rest" by (auto split: list.splits char.splits bool.splits)
        have "length rest < length tokens" using r Inr p by simp
        with shorter 1 have "2 * length ?rest \<le> n" by linarith
        from Suc(1) [OF this] obtain r' where r': "parseValueList n ?rest = Some r'"
          "\<forall>vs rest'. r' = Inr (vs, rest') \<longrightarrow> length rest' \<le> length ?rest" by blast
        show ?thesis
          using t r(1) Inr p r' shorter \<open>length rest < length tokens\<close>
          by (cases r') (auto simp: parseValueList.simps [of "Suc n"])
      qed
    qed }
  { case 2
    show ?case
    proof (cases tokens)
      case Nil
      then show ?thesis by (simp add: parseOneValue.simps [of "Suc n"])
    next
      case (Cons t ts)
      from 2 Cons have "2 * length ts \<le> n" by simp
      from Suc(1) [OF this] obtain r where r: "parseValueList n ts = Some r"
        "\<forall>vs rest. r = Inr (vs, rest) \<longrightarrow> length rest \<le> length ts" by blast
      show ?thesis
      proof (cases r)
        case (Inl e)
        with Cons r show ?thesis by (simp add: parseOneValue.simps [of "Suc n"])
      next
        case (Inr p)
        then show ?thesis using Cons r
          by (cases p) (auto simp: parseOneValue.simps [of "Suc n"] split: list.split)
      qed
    qed }
qed

lemma parseInitializer_returns: "parseInitializer text \<noteq> None"
proof (cases "tokenizeInitializer text")
  case (Inr tokens)
  from parse_returns(1) [of tokens "2 * length tokens"] obtain r
    where "parseValueList (2 * length tokens) tokens = Some r" by auto
  with Inr show ?thesis by (cases r) (auto simp: parseInitializer_def)
qed (simp add: parseInitializer_def)

section \<open>Printing and parsing\<close>

text \<open>Initializer text in canonical form, and its tokens.\<close>

fun render_value :: "init_value \<Rightarrow> string" and render_values :: "init_value list \<Rightarrow> string" where
  "render_value (InitNumber n) = n"
| "render_value (InitGroup vs) = ''{'' @ render_values vs @ ''}''"
| "render_values [] = []"
| "render_values (v # vs) = render_value v @ (if vs = [] then [] else '', '' @ render_values vs)"

fun value_tokens :: "init_value \<Rightarrow> string list" and list_tokens :: "init_value list \<Rightarrow> string list" where
  "value_tokens (InitNumber n) = [n]"
| "value_tokens (InitGroup vs) = [''{''] @ list_tokens vs @ [''}'']"
| "list_tokens [] = []"
| "list_tokens (v # vs) = value_tokens v @ (if vs = [] then [] else ['','']) @ list_tokens vs"

definition number_ok :: "string \<Rightarrow> bool" where
  "number_ok n \<longleftrightarrow> n \<noteq> [] \<and> (hd n = CHR ''-'' \<or> is_digit_ascii (hd n)) \<and> list_all isNumChar (tl n) \<and>
     last n \<notin> set ''uUlL''"

fun value_ok :: "init_value \<Rightarrow> bool" where
  "value_ok (InitNumber n) = number_ok n"
| "value_ok (InitGroup vs) = list_all value_ok vs"

lemma number_ok_token: "number_ok n \<Longrightarrow> n \<noteq> ''{'' \<and> n \<noteq> ''}'' \<and> n \<noteq> '',''"
  by (auto simp: number_ok_def is_digit_ascii_def byte_of_Char)

lemma number_ok_trim: "number_ok n \<Longrightarrow> trim_right_set ''uUlL'' n = n"
proof -
  assume "number_ok n"
  then have "rev n \<noteq> []" "hd (rev n) \<notin> set ''uUlL''" by (simp_all only: number_ok_def hd_rev rev_is_Nil_conv) auto
  then have "dropWhile (\<lambda>d. d \<in> set ''uUlL'') (rev n) = rev n"
    by (cases "rev n") simp_all
  then show ?thesis by (simp only: trim_right_set_def rev_rev_ident)
qed

lemma takeWhile_append_all:
  "list_all P xs \<Longrightarrow> ys = [] \<or> \<not> P (hd ys) \<Longrightarrow> takeWhile P (xs @ ys) = xs \<and> dropWhile P (xs @ ys) = ys"
  by (induction xs) (auto simp: neq_Nil_conv takeWhile_eq_Nil_iff dropWhile_eq_self_iff)

lemma separators_not_digits:
  "list_all (\<lambda>c. \<not> is_digit_ascii c \<and> c \<noteq> CHR ''-'')
     ([CHR '' '', CHR 0x09, CHR 0x0A, CHR 0x0D] @ ''{},'')"
  by code_simp

lemma digit_not_space: "is_digit_ascii c \<or> c = CHR ''-'' \<Longrightarrow>
    c \<notin> {CHR '' '', CHR 0x09, CHR 0x0A, CHR 0x0D} \<and> c \<notin> set ''{},''"
  using separators_not_digits by auto

lemma tokenize_number:
  assumes "number_ok n" "rest = [] \<or> \<not> isNumChar (hd rest)"
  shows "tokenizeInitializer (n @ rest) = map_sum id ((#) n) (tokenizeInitializer rest)"
proof -
  obtain c cs where n: "n = c # cs" using assms(1) by (cases n) (auto simp: number_ok_def)
  have c: "c = CHR ''-'' \<or> is_digit_ascii c" "list_all isNumChar cs" using assms(1) n by (auto simp: number_ok_def)
  have tw: "takeWhile isNumChar (cs @ rest) = cs" "dropWhile isNumChar (cs @ rest) = rest"
    using takeWhile_append_all [OF c(2) assms(2)] by blast+
  have "trim_right_set ''uUlL'' (c # cs) = c # cs" using number_ok_trim [OF assms(1)] n by simp
  moreover have "c \<notin> {CHR '' '', CHR 0x09, CHR 0x0A, CHR 0x0D}" "c \<notin> set ''{},''"
    using digit_not_space c(1) by blast+
  ultimately show ?thesis
    unfolding n append_Cons tokenizeInitializer.simps(2) [of c "cs @ rest"]
    using c(1) tw by (simp only: if_False if_True)
qed

lemma separators_not_num: "\<not> isNumChar (CHR '','')" "\<not> isNumChar (CHR ''}'')"
  by (simp_all add: isNumChar_def is_digit_ascii_def byte_of_Char)

lemma tokenize_values:
  "value_ok v \<Longrightarrow> rest = [] \<or> \<not> isNumChar (hd rest) \<Longrightarrow>
     tokenizeInitializer (render_value v @ rest) = map_sum id ((@) (value_tokens v)) (tokenizeInitializer rest)"
  "list_all value_ok vs \<Longrightarrow> rest = [] \<or> \<not> isNumChar (hd rest) \<Longrightarrow>
     tokenizeInitializer (render_values vs @ rest) = map_sum id ((@) (list_tokens vs)) (tokenizeInitializer rest)"
proof (induction v and vs arbitrary: rest and rest rule: render_value_render_values.induct)
  case (1 n)
  then show ?case using tokenize_number [of n rest] by (simp add: append_Cons [abs_def] id_def)
next
  case (2 vs)
  have "tokenizeInitializer (render_values vs @ ''}'' @ rest) =
      map_sum id ((@) (list_tokens vs)) (tokenizeInitializer (''}'' @ rest))"
    using 2 separators_not_num by (intro "2.IH") auto
  then show ?case by (simp add: map_sum.compositionality comp_def)
next
  case 3
  then show ?case by (simp add: map_sum.id [unfolded id_def])
next
  case (4 v vs)
  show ?case
  proof (cases "vs = []")
    case True
    have "value_ok v" using "4.prems"(1) by simp
    from "4.IH"(1) [OF this "4.prems"(2)] True show ?thesis by (simp add: id_def)
  next
    case False
    have "tokenizeInitializer (render_value v @ '', '' @ render_values vs @ rest) =
        map_sum id ((@) (value_tokens v)) (tokenizeInitializer ('', '' @ render_values vs @ rest))"
      using 4 False separators_not_num by (intro "4.IH"(1)) auto
    also have "tokenizeInitializer ('', '' @ render_values vs @ rest) =
        map_sum id ((#) '','') (tokenizeInitializer (render_values vs @ rest))" by simp
    also have "tokenizeInitializer (render_values vs @ rest) =
        map_sum id ((@) (list_tokens vs)) (tokenizeInitializer rest)"
      using 4 False by (intro "4.IH"(2)) auto
    finally show ?thesis using False by (simp add: map_sum.compositionality comp_def)
  qed
qed

lemma value_tokens_head:
  "value_ok v \<Longrightarrow> \<exists>t ts. value_tokens v = t # ts \<and> t \<noteq> ''}''"
  by (cases v) (use number_ok_token in auto)

lemma parse_tokens:
  "value_ok v \<Longrightarrow> 2 * length (value_tokens v) \<le> Suc n \<Longrightarrow>
     parseOneValue n (value_tokens v @ rest) = Some (Inr (v, rest))"
  "list_all value_ok vs \<Longrightarrow> rest = [] \<or> hd rest = ''}'' \<Longrightarrow> 2 * length (list_tokens vs) \<le> n \<Longrightarrow>
     parseValueList n (list_tokens vs @ rest) = Some (Inr (vs, rest))"
proof (induction v and vs arbitrary: n rest and n rest rule: value_tokens_list_tokens.induct)
  case (1 m)
  then show ?case using number_ok_token [of m] by (simp add: parseOneValue.simps [of n])
next
  case (2 vs)
  then obtain k where n: "n = Suc k" "2 * length (list_tokens vs) \<le> k" by (cases n) auto
  have "parseValueList k (list_tokens vs @ ''}'' # rest) = Some (Inr (vs, ''}'' # rest))"
    using 2 n by (intro "2.IH") auto
  with n show ?case by (simp add: parseOneValue.simps [of "Suc k"])
next
  case 3
  then show ?case by (cases rest) (simp_all add: parseValueList.simps [of n])
next
  case (4 v vs)
  obtain t ts where t: "value_tokens v = t # ts" "t \<noteq> ''}''" using value_tokens_head [of v] "4.prems"(1) by auto
  then obtain k where n: "n = Suc k" using 4 by (cases n) auto
  let ?sep = "if vs = [] then [] else ['','']"
  have one: "parseOneValue k (value_tokens v @ ?sep @ list_tokens vs @ rest) =
      Some (Inr (v, ?sep @ list_tokens vs @ rest))"
    using 4 n by (intro "4.IH"(1)) auto
  have drop: "(case ?sep @ list_tokens vs @ rest of '','' # r \<Rightarrow> r | _ \<Rightarrow> ?sep @ list_tokens vs @ rest) =
      list_tokens vs @ rest"
    using "4.prems"(2) by (cases rest) auto
  have two: "parseValueList k (list_tokens vs @ rest) = Some (Inr (vs, rest))"
    using 4 n t by (intro "4.IH"(2)) auto
  have shape: "list_tokens (v # vs) @ rest = t # ts @ ?sep @ list_tokens vs @ rest" by (simp add: t)
  have one': "parseOneValue k (t # ts @ ?sep @ list_tokens vs @ rest) =
      Some (Inr (v, ?sep @ list_tokens vs @ rest))" using one t by simp
  show ?case
    unfolding shape n parseValueList.simps [of "Suc k"] list.case if_not_P [OF t(2)] nat.case one' option.case
      sum.case prod.case drop two ..
qed

text \<open>
  \<^bold>\<open>C14\<close>: the initializer parser inverts printing. Whatever values are written in canonical form,
  braces and commas, with well-formed numbers, tokenizing and parsing give them back, with nothing
  left over; and the parser returns on every text.
\<close>

theorem parseInitializer_render:
  assumes "list_all value_ok vs"
  shows "parseInitializer (render_values vs) = Some (Inr vs) \<and> (\<forall>text. parseInitializer text \<noteq> None)"
proof -
  have "tokenizeInitializer (render_values vs) = Inr (list_tokens vs)"
    using tokenize_values(2) [OF assms, of "[]"] by simp
  moreover have "parseValueList (2 * length (list_tokens vs)) (list_tokens vs) = Some (Inr (vs, []))"
    using parse_tokens(2) [OF assms, of "[]"] by simp
  ultimately show ?thesis using parseInitializer_returns by (simp add: parseInitializer_def)
qed

lemma parseInitializer_render_witness:
  "parseInitializer ''{325533506, -7, 0x1f}, 2'' =
     Some (Inr [InitGroup [InitNumber ''325533506'', InitNumber ''-7'', InitNumber ''0x1f''], InitNumber ''2''])"
proof -
  let ?vs = "[InitGroup [InitNumber ''325533506'', InitNumber ''-7'', InitNumber ''0x1f''], InitNumber ''2'']"
  have "list_all value_ok ?vs" by code_simp
  from parseInitializer_render [OF this] show ?thesis by simp
qed

text \<open>
  A comma where a value should stand is taken as the number \<open>,\<close>: the parser accepts a
  leading or doubled comma and hands the builder the literal \<open>,\<close> instead of an error.
\<close>

theorem parseInitializer_comma:
  "parseInitializer '',5'' = Some (Inr [InitNumber '','', InitNumber ''5'']) \<and>
   parseInitializer ''1,,2'' = Some (Inr [InitNumber ''1'', InitNumber '','', InitNumber ''2'']) \<and>
   isNumber (InitNumber '','')"
  by (intro conjI; code_simp)

section \<open>Literals\<close>

definition guid_text :: "string \<Rightarrow> string \<Rightarrow> string \<Rightarrow> string list \<Rightarrow> string" where
  "guid_text d1 d2 d3 d4 = ''win32.GUID{Data1: '' @ d1 @ '', Data2: '' @ d2 @ '', Data3: '' @ d3 @
     '', Data4: [8]byte{'' @ join_with '', '' d4 @ ''}}''"

definition number_text :: "init_value \<Rightarrow> string" where
  "number_text v = (case v of InitNumber n \<Rightarrow> n | InitGroup vs \<Rightarrow> [])"

definition group_of :: "init_value \<Rightarrow> init_value list" where
  "group_of v = (case v of InitNumber n \<Rightarrow> [] | InitGroup vs \<Rightarrow> vs)"

definition guidCompositeLiteral :: "init_value list \<Rightarrow> string + string" where
  "guidCompositeLiteral values =
     (if length values = 11 then
        (if \<not> list_all isNumber values then Inl ''malformed GUID initializer''
         else (let ns = map number_text values
               in Inr (guid_text (ns ! 0) (ns ! 1) (ns ! 2) (drop 3 ns))))
      else if length values = 4 \<and> isNumber (values ! 0) \<and> isNumber (values ! 1) \<and> isNumber (values ! 2) \<and>
          length (group_of (values ! 3)) = 8 then
        (if \<not> list_all isNumber (group_of (values ! 3)) then Inl ''malformed GUID initializer''
         else Inr (guid_text (number_text (values ! 0)) (number_text (values ! 1)) (number_text (values ! 2))
                    (map number_text (group_of (values ! 3)))))
      else Inl (''GUID initializer with '' @ show_nat (length values) @ '' values''))"

text \<open>The position of a kind in the Go constant block, for the diagnostics that print it.\<close>

definition kind_number :: "kind \<Rightarrow> nat" where
  "kind_number k = length (takeWhile (\<lambda>x. x \<noteq> k)
     [KindVoid, KindScalar, KindPointer, KindHandleTypedef, KindPointerTypedef, KindScalarTypedef, KindEnum,
      KindStruct, KindUnion, KindArray, KindFuncPtr, KindGUID, KindComPtr, KindUnsupported])"

definition values_size :: "init_value list \<Rightarrow> nat" where
  "values_size vs = sum_list (map (\<lambda>v. Suc (size v)) vs)"

lemma values_size_group: "values_size vs < size (InitGroup vs)"
  by (induction vs) (auto simp: values_size_def)

lemma values_size_zip: "values_size (map snd (zip xs vs)) \<le> values_size vs"
proof (induction vs arbitrary: xs)
  case (Cons v vs)
  then show ?case by (cases xs) (auto simp: values_size_def)
qed (simp add: values_size_def)

text \<open>Types that take a number as their value, and \<open>fieldLiteral\<close>'s array of numbers.\<close>

definition scalar_kind :: "kind \<Rightarrow> bool" where
  "scalar_kind k \<longleftrightarrow> k \<in> {KindScalar, KindEnum, KindScalarTypedef, KindHandleTypedef}"

definition array_literal :: "type_ref \<Rightarrow> init_value list \<Rightarrow> string \<Rightarrow> generator \<Rightarrow>
    ((string + string) \<times> generator) option" where
  "array_literal ref grp ns g =
     (case ref_Child ref of
        None \<Rightarrow> Some (Inl ''array field without element type'', g)
      | Some child \<Rightarrow> do {
          (element, g) \<leftarrow> resolve_type child \<lparr>cx_Namespace = ns, cx_IsReturn = False\<rparr> g;
          Some (if res_Kind element \<noteq> KindScalar then Inl ''array initializer with non-scalar elements''
                else if \<not> list_all isNumber grp then Inl ''nested group in scalar array initializer''
                else Inr (''['' @ show_nat (unat (ref_ArrayLen ref)) @ '']'' @ res_GoType element @ ''{'' @
                          join_with '', '' (map number_text grp) @ ''}''), g)
        })"

function compositeLiteral :: "type_ref \<Rightarrow> init_value list \<Rightarrow> string \<Rightarrow> generator \<Rightarrow>
    ((string + string) \<times> generator) option"
  and field_literals :: "(struct_field \<times> init_value) list \<Rightarrow> string \<Rightarrow> generator \<Rightarrow>
    ((string + string list) \<times> generator) option"
  and fieldLiteral :: "type_ref \<Rightarrow> init_value \<Rightarrow> string \<Rightarrow> generator \<Rightarrow> ((string + string) \<times> generator) option"
where
  "compositeLiteral ref vs ns g =
     (if ref_Kind ref = ''Native'' \<and> ref_Name ref = ''Guid'' then Some (guidCompositeLiteral vs, g)
      else (case resolve_type ref \<lparr>cx_Namespace = ns, cx_IsReturn = False\<rparr> g of
        None \<Rightarrow> None
      | Some (resolved, g) \<Rightarrow>
          if res_Kind resolved = KindStruct then
            (case map_of (reg_StructIndex (g_registry g)) (qual_key (ref_Api ref) (ref_Name ref)) of
               None \<Rightarrow> Some (Inl (''unresolved struct '' @ ref_Api ref @ ''.'' @ ref_Name ref), g)
             | Some d \<Rightarrow>
                 if length (st_Fields d) < length vs then
                   Some (Inl (show_nat (length vs) @ '' initializer values for '' @
                              show_nat (length (st_Fields d)) @ '' fields''), g)
                 else (case field_literals (zip (st_Fields d) vs) ns g of
                     None \<Rightarrow> None
                   | Some (parts, g) \<Rightarrow>
                       Some (map_sum id (\<lambda>ps. res_GoType resolved @ ''{'' @ join_with '', '' ps @ ''}'') parts, g)))
          else if res_Kind resolved = KindGUID then Some (guidCompositeLiteral vs, g)
          else Some (Inl (''composite initializer for unsupported kind '' @
                          show_nat (kind_number (res_Kind resolved))), g)))"
| "field_literals [] ns g = Some (Inr [], g)"
| "field_literals ((f, v) # rest) ns g =
     (case fieldLiteral (sf_Type f) v ns g of
        None \<Rightarrow> None
      | Some (Inl e, g) \<Rightarrow> Some (Inl e, g)
      | Some (Inr rendered, g) \<Rightarrow>
          (case field_literals rest ns g of
             None \<Rightarrow> None
           | Some (parts, g) \<Rightarrow> Some (map_sum id ((#) (exportName (sf_Name f) @ '': '' @ rendered)) parts, g)))"
| "fieldLiteral ref v ns g =
     (case v of
        InitNumber n \<Rightarrow>
          (case resolve_type ref \<lparr>cx_Namespace = ns, cx_IsReturn = False\<rparr> g of
             None \<Rightarrow> None
           | Some (resolved, g) \<Rightarrow>
               Some (if scalar_kind (res_Kind resolved) then Inr n
                     else Inl ''scalar initializer for non-scalar field'', g))
      | InitGroup grp \<Rightarrow>
          if ref_Kind ref = ''Native'' \<and> ref_Name ref = ''Guid'' then
            Some (case guidCompositeLiteral grp of
                Inl e \<Rightarrow> (Inl e, g)
              | Inr literal \<Rightarrow> (Inr literal, set_import ''win32'' (RuntimeImportPath (g_mapper g)) g))
          else if ref_Kind ref = ''Array'' then array_literal ref grp ns g
          else if ref_Kind ref = ''ApiRef'' then compositeLiteral ref grp ns g
          else Some (Inl ''group initializer for unsupported field type'', g))"
  by pat_completeness auto
termination
proof (relation "inv_image (less_than <*lex*> less_than)
    (\<lambda>x. case x of Inl (ref, vs, ns, g) \<Rightarrow> (values_size vs, 1 :: nat)
       | Inr (Inl (ps, ns, g)) \<Rightarrow> (values_size (map snd ps), 0)
       | Inr (Inr (ref, v, ns, g)) \<Rightarrow> (size v, 0))", goal_cases)
  case (2 ref vs ns g x2 a b x2a)
  show ?case using values_size_zip [of "st_Fields x2a" vs]
    by (simp add: nat_less_le)
next
  case (5 ref v ns g grp)
  then show ?case using values_size_group [of grp] by simp
qed (auto simp: values_size_def)

declare compositeLiteral.simps [simp del] field_literals.simps(2) [simp del] fieldLiteral.simps [simp del]

section \<open>Constants\<close>

definition buildStructConstant :: "namespace_meta \<Rightarrow> constant_decl \<Rightarrow> generator \<Rightarrow>
    (string option \<times> generator) option" where
  "buildStructConstant meta c g =
     (if ref_Kind (cn_Type c) \<noteq> ''ApiRef'' then
        Some (None, diag (''constant '' @ cn_Name c @ '': struct initializer with non-ApiRef type'') g)
      else do {
        parsed \<leftarrow> parseInitializer (cn_Value c);
        case parsed of
          Inl e \<Rightarrow> Some (None, diag (''constant '' @ cn_Name c @ '': '' @ e) g)
        | Inr values \<Rightarrow> do {
            (literal, g) \<leftarrow> compositeLiteral (cn_Type c) values (ns_Namespace meta) g;
            Some (case literal of
                Inl e \<Rightarrow> (None, diag (''constant '' @ cn_Name c @ '': '' @ e) g)
              | Inr l \<Rightarrow> (Some l, g))
          }
      })"

definition constant_base_names :: "string gomap" where
  "constant_base_names =
     [(''Byte'', ''uint8''), (''UInt16'', ''uint16''), (''UInt32'', ''uint32''), (''UInt64'', ''uint64''),
      (''SByte'', ''int8''), (''Int16'', ''int16''), (''Int32'', ''int32''), (''Int64'', ''int64''),
      (''IntPtr'', ''uintptr''), (''UIntPtr'', ''uintptr'')]"

text \<open>The first argument bounds the typedefs followed, as for type resolution.\<close>

fun constantBase :: "nat \<Rightarrow> registry \<Rightarrow> type_ref \<Rightarrow> string option" where
  "constantBase n reg ref =
     (if ref_Kind ref = ''Native'' then
        Some (case map_of constant_base_names (ref_Name ref) of Some t \<Rightarrow> t | None \<Rightarrow> ''int64'')
      else if ref_Kind ref = ''PointerTo'' then Some ''uintptr''
      else if ref_Kind ref = ''ApiRef'' \<and> ref_TargetKind ref = ''Enum'' then
        Some (if EnumBase reg (ref_Api ref) (ref_Name ref) \<noteq> [] then EnumBase reg (ref_Api ref) (ref_Name ref)
              else ''int64'')
      else if ref_Kind ref = ''ApiRef'' \<and> ref_TargetKind ref = ''Typedef'' then
        (case Typedef reg (ref_Api ref) (ref_Name ref) of
           None \<Rightarrow> Some ''int64''
         | Some td \<Rightarrow> (case n of 0 \<Rightarrow> None | Suc n \<Rightarrow> constantBase n reg (td_Underlying td)))
      else Some ''int64'')"

declare constantBase.simps [simp del]

definition constant_base_of :: "type_ref \<Rightarrow> generator \<Rightarrow> string option" where
  "constant_base_of ref g = constantBase (Suc (length (reg_TypedefIndex (g_registry g)))) (g_registry g) ref"

text \<open>The eight bytes of the last two groups, two digits each.\<close>

fun parse_pairs :: "string \<Rightarrow> nat list option" where
  "parse_pairs (a # b # cs) = do {
     v \<leftarrow> parse_uint 16 8 [a, b];
     vs \<leftarrow> parse_pairs cs;
     Some (v # vs)
   }"
| "parse_pairs _ = Some []"

definition malformed_guid :: "string \<Rightarrow> string" where
  "malformed_guid guid = ''malformed GUID '' @ quoted guid"

definition guidLiteral :: "string \<Rightarrow> string + string" where
  "guidLiteral guid =
     (let parts = split_on (CHR ''-'') guid in
      if length parts \<noteq> 5 \<or> length (parts ! 3) \<noteq> 4 \<or> length (parts ! 4) \<noteq> 12 then Inl (malformed_guid guid)
      else (case (parse_uint 16 32 (parts ! 0), parse_uint 16 16 (parts ! 1), parse_uint 16 16 (parts ! 2),
                  parse_pairs (parts ! 3 @ parts ! 4)) of
          (Some d1, Some d2, Some d3, Some bytes) \<Rightarrow>
            Inr (guid_text (''0x'' @ show_hex 8 d1) (''0x'' @ show_hex 4 d2) (''0x'' @ show_hex 4 d3)
                   (map (\<lambda>b. ''0x'' @ show_hex 2 b) bytes))
        | _ \<Rightarrow> Inl (malformed_guid guid)))"

text \<open>The numeric case of \<open>buildConstant\<close>, after the type is resolved.\<close>

definition number_constant :: "constant_decl \<Rightarrow> resolved \<Rightarrow> generator \<Rightarrow> (constant_model \<times> generator) option" where
  "number_constant c resolved g =
     (let goType = (if res_Kind resolved = KindPointerTypedef \<or> res_Kind resolved = KindPointer then ''uintptr''
                    else res_GoType resolved);
          plain = (\<lambda>t l. \<lparr>cnm_Name = cn_Name c, cnm_GoType = t, cnm_Literal = l, cnm_IsVar = False\<rparr>) in
      if cn_ValueKind c = ''Int'' \<and> has_prefix (cn_Value c) ''-'' then do {
        base \<leftarrow> constant_base_of (cn_Type c) g;
        let word = (res_Kind resolved = KindHandleTypedef \<or> goType = ''uintptr'' \<or> base = ''uintptr'');
        Some (if word \<and> cn_Value c = ''-1'' then plain [] (''^'' @ goType @ ''(0)'')
              else plain goType (literalForBase (cn_Value c) (if word then ''uint64'' else base)), g)
      }
      else Some (plain goType (cn_Value c), g))"

definition buildConstant :: "namespace_meta \<Rightarrow> constant_decl \<Rightarrow> generator \<Rightarrow>
    (constant_model option \<times> generator) option" where
  "buildConstant meta c g =
     (if cn_ValueKind c = ''String'' then
        Some (Some \<lparr>cnm_Name = cn_Name c, cnm_GoType = [], cnm_Literal = quoted (cn_Value c), cnm_IsVar = False\<rparr>, g)
      else if cn_ValueKind c = ''Guid'' then
        Some (case guidLiteral (cn_Value c) of
            Inl e \<Rightarrow> (None, diag (''constant '' @ cn_Name c @ '': '' @ e) g)
          | Inr literal \<Rightarrow>
              (Some \<lparr>cnm_Name = cn_Name c, cnm_GoType = ''win32.GUID'', cnm_Literal = literal, cnm_IsVar = True\<rparr>,
               set_import ''win32'' (RuntimeImportPath (g_mapper g)) g))
      else if cn_ValueKind c \<in> {''Int'', ''UInt'', ''Float''} then do {
        (resolved, g) \<leftarrow> resolve_type (cn_Type c) \<lparr>cx_Namespace = ns_Namespace meta, cx_IsReturn = False\<rparr> g;
        if res_Kind resolved = KindUnsupported
        then Some (None, diag (''constant '' @ cn_Name c @ '': type unresolved'') g)
        else do { (model, g) \<leftarrow> number_constant c resolved g; Some (Some model, g) }
      }
      else if cn_ValueKind c = ''Struct'' then do {
        (literal, g) \<leftarrow> buildStructConstant meta c g;
        Some (map_option (\<lambda>l. \<lparr>cnm_Name = cn_Name c, cnm_GoType = [], cnm_Literal = l, cnm_IsVar = True\<rparr>) literal, g)
      }
      else Some (None, diag (''constant '' @ cn_Name c @ '': unknown value kind '' @ quoted (cn_ValueKind c)) g))"

fun constant_models :: "namespace_meta \<Rightarrow> constant_decl list \<Rightarrow> generator \<Rightarrow>
    (constant_model list \<times> generator) option" where
  "constant_models meta [] g = Some ([], g)"
| "constant_models meta (c # cs) g =
     (let goName = Export (cn_Name c); (ok, g) = claimName goName g in
      if \<not> ok then constant_models meta cs (diag (already_used ''constant'' (cn_Name c) meta) g)
      else do {
        (model, g) \<leftarrow> buildConstant meta c g;
        case model of
          None \<Rightarrow> constant_models meta cs (unclaimName goName g)
        | Some m \<Rightarrow> do {
            (models, g) \<leftarrow> constant_models meta cs g;
            Some (m\<lparr>cnm_Name := goName\<rparr> # models, g)
          }
      })"

definition buildConstantModels :: "namespace_meta \<Rightarrow> generator \<Rightarrow> (constant_model list \<times> generator) option" where
  "buildConstantModels meta g = constant_models meta (ns_Constants meta) g"

section \<open>Constant names\<close>

lemma unclaim_claimed [simp]:
  "claimName n g = (True, g1) \<Longrightarrow> set (g_claimedNames (unclaimName n g1)) = set (g_claimedNames g)"
  by (auto simp: claimName_def unclaimName_def split: if_splits)

lemma resolve_type_claims:
  "resolve_type ref ctx g = Some (r, g') \<Longrightarrow> g_claimedNames g' = g_claimedNames g"
  by (auto dest: resolve_type_frame)

lemma array_literal_claims: "array_literal ref grp ns g = Some (x, g') \<Longrightarrow> g_claimedNames g' = g_claimedNames g"
  by (auto simp: array_literal_def bind_eq_Some_conv dest: resolve_type_claims split: option.splits)

lemma compositeLiteral_claims:
  "compositeLiteral ref vs ns g = Some (x, g') \<Longrightarrow> g_claimedNames g' = g_claimedNames g"
  "field_literals ps ns g = Some (y, g') \<Longrightarrow> g_claimedNames g' = g_claimedNames g"
  "fieldLiteral ref v ns g = Some (x, g') \<Longrightarrow> g_claimedNames g' = g_claimedNames g"
proof (induction ref vs ns g and ps ns g and ref v ns g arbitrary: x g' and y g' and x g'
    rule: compositeLiteral_field_literals_fieldLiteral.induct)
  case (1 ref vs ns g)
  show ?case
  proof (cases "ref_Kind ref = ''Native'' \<and> ref_Name ref = ''Guid''")
    case True
    with "1.prems" show ?thesis by (simp add: compositeLiteral.simps [of ref vs ns g])
  next
    case False
    then obtain r g1 where r: "resolve_type ref \<lparr>cx_Namespace = ns, cx_IsReturn = False\<rparr> g = Some (r, g1)"
      using "1.prems" by (auto simp: compositeLiteral.simps [of ref vs ns g] split: option.split_asm)
    have g1: "g_claimedNames g1 = g_claimedNames g" using r by (rule resolve_type_claims)
    note IH = "1.IH" [OF False r refl]
    note step = compositeLiteral.simps [of ref vs ns g, unfolded if_not_P [OF False] r option.case prod.case]
    show ?thesis
    proof (cases "res_Kind r = KindStruct")
      case True
      note IH' = IH [OF True]
      note step = step [unfolded if_P [OF True]]
      show ?thesis
      proof (cases "map_of (reg_StructIndex (g_registry g1)) (qual_key (ref_Api ref) (ref_Name ref))")
        case None
        show ?thesis using "1.prems" g1 unfolding step None by simp
      next
        case (Some d)
        note step = step [unfolded Some option.case]
        show ?thesis
        proof (cases "length (st_Fields d) < length vs")
          case True
          show ?thesis using "1.prems" g1 unfolding step if_P [OF True] by simp
        next
          case False
          note step = step [unfolded if_not_P [OF False]]
          from "1.prems" obtain parts g2 where f: "field_literals (zip (st_Fields d) vs) ns g1 = Some (parts, g2)"
            unfolding step by (cases "field_literals (zip (st_Fields d) vs) ns g1") auto
          from IH' [OF Some False f] "1.prems" g1 show ?thesis unfolding step f by simp
        qed
      qed
    next
      case False
      show ?thesis using "1.prems" g1 unfolding step if_not_P [OF False]
        by (simp split: if_split_asm)
    qed
  qed
next
  case (3 f v rest ns g)
  obtain r g1 where r: "fieldLiteral (sf_Type f) v ns g = Some (r, g1)"
    using "3.prems" unfolding field_literals.simps(2) [of f v rest ns g] by (auto split: option.split_asm)
  have g1: "g_claimedNames g1 = g_claimedNames g" using "3.IH"(1) [OF r] .
  note step = field_literals.simps(2) [of f v rest ns g, unfolded r option.case prod.case]
  show ?case
  proof (cases r)
    case (Inl e)
    with "3.prems" g1 show ?thesis unfolding step by simp
  next
    case (Inr t)
    with r have "fieldLiteral (sf_Type f) v ns g = Some (Inr t, g1)" by simp
    from "3.IH"(2) [OF this refl refl] "3.prems" g1 Inr show ?thesis unfolding step
      by (simp split: option.split_asm prod.split_asm)
  qed
next
  case (4 ref v ns g)
  show ?case
  proof (cases v)
    case (InitNumber n)
    then show ?thesis using "4.prems" unfolding fieldLiteral.simps [of ref v ns g]
      by (auto dest: resolve_type_claims split: option.split_asm)
  next
    case (InitGroup vs)
    show ?thesis
    proof (cases "ref_Kind ref = ''ApiRef''")
      case True
      then show ?thesis using "4.prems" "4.IH" InitGroup unfolding fieldLiteral.simps [of ref v ns g] by simp
    next
      case False
      then show ?thesis using "4.prems" InitGroup unfolding fieldLiteral.simps [of ref v ns g]
        by (auto dest: array_literal_claims split: if_split_asm sum.split_asm)
    qed
  qed
qed simp

lemma buildStructConstant_claims:
  "buildStructConstant meta c g = Some (l, g') \<Longrightarrow> g_claimedNames g' = g_claimedNames g"
proof (cases "ref_Kind (cn_Type c) = ''ApiRef''")
  case True
  assume a: "buildStructConstant meta c g = Some (l, g')"
  then obtain parsed where p: "parseInitializer (cn_Value c) = Some parsed"
    using True by (auto simp: buildStructConstant_def bind_eq_Some_conv)
  show ?thesis
  proof (cases parsed)
    case (Inl e)
    with a p True show ?thesis by (auto simp: buildStructConstant_def)
  next
    case (Inr vs)
    with a p True obtain lit g1 where c: "compositeLiteral (cn_Type c) vs (ns_Namespace meta) g = Some (lit, g1)"
      by (auto simp: buildStructConstant_def bind_eq_Some_conv)
    have "g_claimedNames g1 = g_claimedNames g" using c by (rule compositeLiteral_claims(1))
    with a p True Inr c show ?thesis by (cases lit) (auto simp: buildStructConstant_def)
  qed
qed (auto simp: buildStructConstant_def)

lemma number_constant_claims: "number_constant c r g = Some (m, g') \<Longrightarrow> g' = g"
  unfolding number_constant_def by (auto simp: bind_eq_Some_conv Let_def split: if_split_asm)

lemma buildConstant_claims:
  assumes "buildConstant meta c g = Some (m, g')"
  shows "g_claimedNames g' = g_claimedNames g"
proof -
  consider (str) "cn_ValueKind c = ''String''" | (guid) "cn_ValueKind c = ''Guid''"
    | (num) "cn_ValueKind c \<in> {''Int'', ''UInt'', ''Float''}" | (struct) "cn_ValueKind c = ''Struct''"
    | (other) "cn_ValueKind c \<notin> {''String'', ''Guid'', ''Int'', ''UInt'', ''Float'', ''Struct''}" by blast
  then show ?thesis
  proof cases
    case str
    with assms show ?thesis by (simp add: buildConstant_def)
  next
    case guid
    with assms show ?thesis by (auto simp: buildConstant_def split: sum.split_asm)
  next
    case num
    with assms show ?thesis
      by (auto simp: buildConstant_def bind_eq_Some_conv dest!: resolve_type_claims number_constant_claims
          split: if_split_asm)
  next
    case struct
    with assms show ?thesis
      by (auto simp: buildConstant_def bind_eq_Some_conv dest: buildStructConstant_claims)
  next
    case other
    with assms show ?thesis by (auto simp: buildConstant_def)
  qed
qed

lemma constant_models_names:
  "constant_models meta cs g = Some (models, g') \<Longrightarrow> fresh_names g (map cnm_Name models) g'"
proof (induction meta cs g arbitrary: models g' rule: constant_models.induct)
  case (1 meta g)
  then show ?case by (simp add: fresh_names_Nil)
next
  case (2 meta c cs g)
  let ?n = "Export (cn_Name c)"
  obtain ok g1 where cl: "claimName ?n g = (ok, g1)" by fastforce
  show ?case
  proof (cases ok)
    case False
    then have "g1 = g" using cl by (auto simp: claimName_def split: if_splits)
    then show ?thesis using "2.IH"(1) [OF refl cl [symmetric]] False "2.prems" cl by (auto simp: Let_def)
  next
    case True
    then obtain m g2 where m: "buildConstant meta c g1 = Some (m, g2)"
      using "2.prems" cl by (auto simp: Let_def bind_eq_Some_conv)
    have g2: "g_claimedNames g2 = g_claimedNames g1" using m by (rule buildConstant_claims)
    show ?thesis
    proof (cases m)
      case None
      then have r: "constant_models meta cs (unclaimName ?n g2) = Some (models, g')"
        using "2.prems" cl True m by (simp add: Let_def)
      have "set (g_claimedNames (unclaimName ?n g2)) = set (g_claimedNames g)"
        using unclaim_claimed [of ?n g g1] cl True g2 by (simp add: unclaimName_def)
      moreover have "fresh_names (unclaimName ?n g2) (map cnm_Name models) g'"
        using "2.IH"(2) [OF refl cl [symmetric]] True m None r by simp
      ultimately show ?thesis by (simp add: fresh_names_def)
    next
      case (Some cm)
      then obtain rest where r: "constant_models meta cs g2 = Some (rest, g')"
        and ms: "models = cm\<lparr>cnm_Name := ?n\<rparr> # rest"
        using "2.prems" cl True m by (auto simp: Let_def bind_eq_Some_conv)
      have "fresh_names g2 (map cnm_Name rest) g'"
        using "2.IH"(3) [OF refl cl [symmetric]] True m Some r by simp
      then have "fresh_names g1 (map cnm_Name rest) g'"
        by (rule fresh_names_same_claims) (simp_all add: g2)
      with cl True show ?thesis by (simp add: ms fresh_names_Cons)
    qed
  qed
qed

text \<open>
  The constants of a package have different names, none of them taken before (by a type, an
  enum member or an interface identifier), and all are taken afterwards, so that no function of the
  package can be declared with one of them; skipping a constant gives its name back.
\<close>

theorem buildConstantModels_names:
  assumes "buildConstantModels meta g = Some (models, g')"
  shows "distinct (map cnm_Name models) \<and> set (map cnm_Name models) \<inter> set (g_claimedNames g) = {} \<and>
    set (g_claimedNames g) \<union> set (map cnm_Name models) \<subseteq> set (g_claimedNames g')"
  using constant_models_names [OF assms [unfolded buildConstantModels_def]] by (simp only: fresh_names_def)

definition plain_constant :: "string \<Rightarrow> string \<Rightarrow> string \<Rightarrow> constant_decl" where
  "plain_constant n kind v = \<lparr>cn_Name = n, cn_Type = Native ''Int32'', cn_Value = v, cn_ValueKind = kind,
     cn_Availability = no_availability\<rparr>"

definition constant_sample :: namespace_meta where
  "constant_sample = (empty_namespace ''A'')\<lparr>ns_Constants :=
     [plain_constant ''X'' ''Int'' ''-1'', plain_constant ''x'' ''Int'' ''2'', plain_constant ''Y'' ''Odd'' []]\<rparr>"

lemma buildConstantModels_names_witness:
  "\<exists>models g'. buildConstantModels constant_sample (New (empty_registry []) [] []) = Some (models, g') \<and>
     map cnm_Name models = [''X''] \<and> ''X'' \<in> set (g_claimedNames g')"
proof -
  have "map_option (map cnm_Name \<circ> fst) (buildConstantModels constant_sample (New (empty_registry []) [] [])) =
      Some [''X'']" by code_simp
  then obtain models g' where m: "buildConstantModels constant_sample (New (empty_registry []) [] []) = Some (models, g')"
    and n: "map cnm_Name models = [''X'']" by auto
  from buildConstantModels_names [OF m] have "''X'' \<in> set (g_claimedNames g')" unfolding n by simp
  then show ?thesis by (intro exI [of _ models] exI [of _ g'] conjI m n)
qed

end
