(* ===== verification/Functions.thy ===== *)
theory Functions
  imports ConstInit
begin

text \<open>
  The function builder of \<open>internal/codegen/emit/raw/functions.go\<close> and the header inlines of
  \<open>inline.go\<close>: from a declared function to a Go signature, the statements that convert its arguments,
  and the dispatch expression. Array pointers and their counts collapse into one slice parameter,
  \<open>[out,retval]\<close> parameters become results, and a call with floating-point or large by-value arguments
  goes through the register-aware \<open>win32.Call\<close>.

  As in \<open>Types\<close>, \<open>None\<close> is a type resolution or a layout that does not return; the inner option is the
  builder's own \<open>ok\<close> result.
\<close>

section \<open>Shape tests\<close>

definition foundationApi :: string where
  "foundationApi = ''Foundation''"

definition isWideStringPtr :: "resolved \<Rightarrow> bool" where
  "isWideStringPtr r \<longleftrightarrow> res_Kind r = KindPointerTypedef \<and> res_TypedefApi r = foundationApi \<and>
     (res_TypedefName r = ''PWSTR'' \<or> res_TypedefName r = ''PCWSTR'')"

definition isBOOL :: "resolved \<Rightarrow> bool" where
  "isBOOL r \<longleftrightarrow> res_TypedefApi r = foundationApi \<and> res_TypedefName r = ''BOOL''"

definition isHRESULT :: "resolved \<Rightarrow> bool" where
  "isHRESULT r \<longleftrightarrow> res_TypedefApi r = foundationApi \<and> res_TypedefName r = ''HRESULT''"

definition isIntegerCount :: "resolved \<Rightarrow> bool" where
  "isIntegerCount r =
     (if res_Kind r = KindScalar then res_GoType r \<notin> {''bool'', ''float32'', ''float64''}
      else res_Kind r = KindScalarTypedef \<or> res_Kind r = KindEnum)"

text \<open>A pointer whose pointee is the given native type.\<close>

definition native_pointer :: "string \<Rightarrow> type_ref \<Rightarrow> bool" where
  "native_pointer name ref \<longleftrightarrow> ref_Kind ref = ''PointerTo'' \<and>
     (case ref_Child ref of None \<Rightarrow> False
      | Some c \<Rightarrow> ref_Kind c = ''Native'' \<and> ref_Name c = name)"

definition isVoidPointer :: "type_ref \<Rightarrow> bool" where
  "isVoidPointer ref = native_pointer ''Void'' ref"

definition isGuidPointer :: "type_ref \<Rightarrow> bool" where
  "isGuidPointer ref = native_pointer ''Guid'' ref"

definition isBytePointer :: "type_ref \<Rightarrow> bool" where
  "isBytePointer ref = native_pointer ''Byte'' ref"

definition isVoidDoublePointer :: "type_ref \<Rightarrow> bool" where
  "isVoidDoublePointer ref \<longleftrightarrow> ref_Kind ref = ''PointerTo'' \<and>
     (case ref_Child ref of None \<Rightarrow> False | Some c \<Rightarrow> isVoidPointer c)"

definition amd64Compatible :: "string list \<Rightarrow> bool" where
  "amd64Compatible archs \<longleftrightarrow> archs = [] \<or> ''amd64'' \<in> set archs"

section \<open>Identifiers\<close>

definition ident_char :: "char \<Rightarrow> bool" where
  "ident_char c \<longleftrightarrow> c = CHR ''_'' \<or> is_lower_ascii c \<or> is_upper_ascii c \<or> is_digit_ascii c"

text \<open>The scan of \<open>splitIdents\<close> with the identifier collected so far.\<close>

fun split_idents :: "string \<Rightarrow> string \<Rightarrow> string list" where
  "split_idents current [] = (if current = [] then [] else [current])"
| "split_idents current (c # cs) =
     (if ident_char c then split_idents (current @ [c]) cs
      else (if current = [] then [] else [current]) @ split_idents [] cs)"

definition splitIdents :: "string \<Rightarrow> string list" where
  "splitIdents expr = split_idents [] expr"

text \<open>Parameter names, kept apart from the identifiers of the types in the signature.\<close>

definition signature_idents :: "resolved list \<Rightarrow> resolved \<Rightarrow> string list" where
  "signature_idents params ret = splitIdents (res_GoType ret) @ concat (map (\<lambda>r. splitIdents (res_GoType r)) params)"

definition param_names :: "param list \<Rightarrow> string list \<Rightarrow> string list" where
  "param_names params reserved = map (\<lambda>p. avoidCollision (ParamName (p_Name p)) reserved) params"

definition dllVarName :: "string \<Rightarrow> string" where
  "dllVarName dll = ''mod'' @ map (\<lambda>c. if c = CHR ''-'' \<or> c = CHR ''.'' then CHR ''_'' else c)
     (trim_suffix (trim_suffix dll ''.dll'') ''.DLL'')"

section \<open>Slices\<close>

record slice_plan =
  sp_element :: string
  sp_rawPointerType :: string
  sp_countIndex :: nat

text \<open>How many parameters name \<open>j\<close> as their count or size.\<close>

definition references_to :: "(param \<Rightarrow> int) \<Rightarrow> param list \<Rightarrow> nat \<Rightarrow> nat" where
  "references_to index params j = length (filter (\<lambda>p. index p = int j) params)"

definition index_in :: "param list \<Rightarrow> nat \<Rightarrow> int \<Rightarrow> bool" where
  "index_in params i j \<longleftrightarrow> 0 \<le> j \<and> j < int (length params) \<and> j \<noteq> int i"

text \<open>A count or size parameter that \<open>len\<close> can supply.\<close>

definition elidable :: "param list \<Rightarrow> resolved list \<Rightarrow> nat \<Rightarrow> bool" where
  "elidable params resolved j \<longleftrightarrow> \<not> p_IsOut (params ! j) \<and> \<not> p_IsReserved (params ! j) \<and>
     isIntegerCount (resolved ! j)"

definition typed_pointer :: "resolved \<Rightarrow> string option" where
  "typed_pointer r =
     (if res_Kind r \<noteq> KindPointer \<or> \<not> has_prefix (res_GoType r) ''*'' then None
      else (let element = drop 1 (res_GoType r)
            in if element = [] \<or> contains_str element ''unsafe.'' then None else Some element))"

type_synonym slice_plans = "(nat \<times> slice_plan) list \<times> (nat \<times> nat) list"

definition plan_array :: "param list \<Rightarrow> resolved list \<Rightarrow> nat \<Rightarrow> slice_plans \<Rightarrow> slice_plans" where
  "plan_array params resolved i s =
     (let p = params ! i; j = p_NativeArrayCountParamIndex p in
      if p_IsRetVal p \<or> p_IsReserved p \<or> \<not> index_in params i j \<or>
         references_to p_NativeArrayCountParamIndex params (nat j) \<noteq> 1 then s
      else (case typed_pointer (resolved ! i) of
          None \<Rightarrow> s
        | Some element \<Rightarrow>
            if \<not> elidable params resolved (nat j) then s
            else ((i, \<lparr>sp_element = element, sp_rawPointerType = res_GoType (resolved ! i),
                       sp_countIndex = nat j\<rparr>) # fst s, (nat j, i) # snd s)))"

definition plan_buffer :: "param list \<Rightarrow> resolved list \<Rightarrow> nat \<Rightarrow> slice_plans \<Rightarrow> slice_plans" where
  "plan_buffer params resolved i s =
     (let p = params ! i; j = p_MemorySizeBytesParamIndex p in
      if p_IsRetVal p \<or> p_IsReserved p \<or> i \<in> fst ` set (fst s) \<or>
         (\<not> isVoidPointer (p_Type p) \<and> \<not> isBytePointer (p_Type p)) \<or> \<not> index_in params i j \<or>
         references_to p_MemorySizeBytesParamIndex params (nat j) \<noteq> 1 \<or>
         references_to p_NativeArrayCountParamIndex params (nat j) \<noteq> 0 \<or>
         nat j \<in> fst ` set (snd s) \<or> \<not> elidable params resolved (nat j) then s
      else ((i, \<lparr>sp_element = ''byte'', sp_rawPointerType = ''*byte'', sp_countIndex = nat j\<rparr>) # fst s,
            (nat j, i) # snd s))"

definition planSliceParams :: "param list \<Rightarrow> resolved list \<Rightarrow> bool \<Rightarrow> slice_plans" where
  "planSliceParams params resolved typedArrays =
     (let s = (if typedArrays then fold (plan_array params resolved) [0..<length params] ([], []) else ([], []))
      in fold (plan_buffer params resolved) [0..<length params] s)"

section \<open>COM out-parameters\<close>

definition is_iid_param :: "param \<Rightarrow> bool" where
  "is_iid_param p \<longleftrightarrow> isGuidPointer (p_Type p) \<and> p_IsIn p \<and> \<not> p_IsOut p \<and> \<not> p_IsReserved p \<and>
     contains_str (to_lower (p_Name p)) ''iid''"

definition is_void_out :: "param \<Rightarrow> bool" where
  "is_void_out p \<longleftrightarrow> \<not> is_iid_param p \<and> isVoidDoublePointer (p_Type p) \<and> p_IsOut p \<and> \<not> p_IsReserved p"

definition indexes :: "('a \<Rightarrow> bool) \<Rightarrow> 'a list \<Rightarrow> nat list" where
  "indexes P xs = filter (\<lambda>i. P (xs ! i)) [0..<length xs]"

definition iidPairedOutParams :: "param list \<Rightarrow> nat list" where
  "iidPairedOutParams params =
     (let iids = indexes is_iid_param params;
          voidPPOuts = indexes is_void_out params;
          candidates = indexes (\<lambda>p. is_void_out p \<and> \<not> p_IsComOutPtr p \<and> p_IidParamIndex p < 0) params;
          uniquePair = (length iids = 1 \<and> length voidPPOuts = 1)
      in filter (\<lambda>c. (\<exists>i \<in> set iids. i + 1 = c) \<or> (uniquePair \<and> iids \<noteq> [])) candidates)"

definition com_out :: "param list \<Rightarrow> nat \<Rightarrow> bool" where
  "com_out params i \<longleftrightarrow>
     (let p = params ! i in p_IsOut p \<and> \<not> p_IsReserved p \<and>
        (p_IsComOutPtr p \<or> 0 \<le> p_IidParamIndex p \<or> i \<in> set (iidPairedOutParams params)) \<and>
        isVoidDoublePointer (p_Type p))"

definition retypeComOutParams :: "param list \<Rightarrow> resolved list \<Rightarrow> generator \<Rightarrow> resolved list \<times> generator" where
  "retypeComOutParams params resolved g =
     (map (\<lambda>i. if com_out params i then Resolved ''**win32.IUnknown'' KindPointer else resolved ! i)
        [0..<length params],
      if \<exists>i \<in> set [0..<length params]. com_out params i
      then set_import ''win32'' (RuntimeImportPath (g_mapper g)) g else g)"

section \<open>Parameters\<close>

record shaped_param =
  sh_decl :: string
  sh_preamble :: "string list"
  sh_word :: string
  sh_spec :: string
  sh_pointer :: bool
  sh_call :: bool

definition specWord :: string where
  "specWord = ''win32.Word''"

definition word_param :: "string \<Rightarrow> string list \<Rightarrow> string \<Rightarrow> bool \<Rightarrow> shaped_param" where
  "word_param decl pre word ptr = \<lparr>sh_decl = decl, sh_preamble = pre, sh_word = word, sh_spec = specWord,
     sh_pointer = ptr, sh_call = False\<rparr>"

definition pointer_word :: "string \<Rightarrow> string" where
  "pointer_word x = ''uintptr(unsafe.Pointer('' @ x @ ''))''"

definition registerStructWord :: "32 word \<Rightarrow> string \<Rightarrow> string option" where
  "registerStructWord n name =
     (if n \<in> {1, 2, 4, 8} then Some (''uintptr(win32.StructArg('' @ name @ ''))'') else None)"

definition show_bool :: "bool \<Rightarrow> string" where
  "show_bool b = (if b then ''true'' else ''false'')"

definition struct_spec :: "layout \<Rightarrow> string" where
  "struct_spec l = (case hfa l of (n, is64, ok) \<Rightarrow>
     ''win32.Struct('' @ show_nat (unat (l_size l)) @ '', '' @ show_nat (unat (l_align l)) @ '', '' @
     show_nat (unat n) @ '', '' @ show_bool is64 @ '')'')"

definition is_hfa :: "layout \<Rightarrow> bool" where
  "is_hfa l = snd (snd (hfa l))"

definition by_value_composite :: "kind \<Rightarrow> bool" where
  "by_value_composite k \<longleftrightarrow> k = KindStruct \<or> k = KindUnion \<or> k = KindGUID"

definition float_param :: "string \<Rightarrow> string \<Rightarrow> resolved \<Rightarrow> shaped_param" where
  "float_param decl name r =
     (let single = (res_GoType r = ''float32'') in
      \<lparr>sh_decl = decl, sh_preamble = [],
       sh_word = (if single then ''uintptr(math.Float32bits('' else ''uintptr(math.Float64bits('') @ name @ ''))'',
       sh_spec = (if single then ''win32.Float32'' else ''win32.Float64''), sh_pointer = False, sh_call = True\<rparr>)"

definition composite_param :: "string \<Rightarrow> string \<Rightarrow> layout \<Rightarrow> shaped_param option" where
  "composite_param decl name l =
     (if \<not> l_ok l then None
      else (case registerStructWord (l_size l) name of
          Some word \<Rightarrow>
            if \<not> is_hfa l then Some (word_param decl [] word False)
            else Some \<lparr>sh_decl = decl, sh_preamble = [], sh_word = pointer_word (''&'' @ name), sh_spec = struct_spec l,
                       sh_pointer = True, sh_call = True\<rparr>
        | None \<Rightarrow> Some \<lparr>sh_decl = decl, sh_preamble = [], sh_word = pointer_word (''&'' @ name),
                         sh_spec = struct_spec l, sh_pointer = True, sh_call = True\<rparr>))"

definition shapeParam :: "string \<Rightarrow> param \<Rightarrow> resolved \<Rightarrow> generator \<Rightarrow> shaped_param option option" where
  "shapeParam name p r g =
     (let local = ''_'' @ name; decl = name @ '' '' @ res_GoType r in
      if p_IsReserved p then Some (Some (word_param [] [] ''0'' False))
      else if isWideStringPtr r \<and> \<not> p_IsOut p then
        Some (Some (if p_IsOptional p
          then word_param (name @ '' *string'') [local @ '' := win32.UTF16PtrOrNil('' @ name @ '')''] (pointer_word local) True
          else word_param (name @ '' string'') [local @ '' := win32.UTF16Ptr('' @ name @ '')''] (pointer_word local) True))
      else if isBOOL r \<and> \<not> p_IsOut p then
        Some (Some (word_param (name @ '' bool'') [local @ '' := win32.Bool32('' @ name @ '')'']
                      (''uintptr('' @ local @ '')'') False))
      else (case ArgClassOf r (res_GoType r) of
          ArgScalar \<Rightarrow> Some (Some (word_param decl [] (''uintptr('' @ name @ '')'') False))
        | ArgPointer \<Rightarrow> Some (Some (word_param decl [] (pointer_word name) True))
        | ArgBool8 \<Rightarrow> Some (Some (word_param (name @ '' bool'') [] (''uintptr(win32.Bool8('' @ name @ ''))'') False))
        | ArgFloat \<Rightarrow> Some (Some (float_param decl name r))
        | ArgUnsupported \<Rightarrow>
            if \<not> by_value_composite (res_Kind r) then Some None
            else map_option (composite_param decl name) (layout_of_ref (p_Type p) g)))"

text \<open>\<open>[out,retval]\<close> elevation.\<close>

datatype ret_val_mode = RetValNone | RetValHRESULT | RetValRawError | RetValVoid

definition retValElevationMode :: "bool \<Rightarrow> resolved \<Rightarrow> ret_val_mode" where
  "retValElevationMode setLastError ret =
     (if isHRESULT ret then RetValHRESULT
      else if setLastError \<and> isBOOL ret then RetValRawError
      else if res_Kind ret = KindVoid then RetValVoid
      else RetValNone)"

definition retValElement :: "param \<Rightarrow> resolved \<Rightarrow> string option" where
  "retValElement p r = (if \<not> p_IsRetVal p \<or> p_IsIn p then None else typed_pointer r)"

text \<open>What the loop over the parameters collects.\<close>

record shaping =
  sg_decls :: "string list"
  sg_preamble :: "string list"
  sg_argWords :: "string list"
  sg_specArgs :: "string list"
  sg_returnValues :: "string list"
  sg_returnTypes :: "string list"
  sg_usesUnsafe :: bool
  sg_viaCall :: bool

definition empty_shaping :: shaping where
  "empty_shaping = \<lparr>sg_decls = [], sg_preamble = [], sg_argWords = [], sg_specArgs = [],
     sg_returnValues = [], sg_returnTypes = [], sg_usesUnsafe = False, sg_viaCall = False\<rparr>"

definition add_shaped :: "shaped_param \<Rightarrow> shaping \<Rightarrow> shaping" where
  "add_shaped sp s = s\<lparr>sg_decls := sg_decls s @ (if sh_decl sp = [] then [] else [sh_decl sp]),
     sg_preamble := sg_preamble s @ sh_preamble sp, sg_argWords := sg_argWords s @ [sh_word sp],
     sg_specArgs := sg_specArgs s @ [sh_spec sp], sg_usesUnsafe := (sg_usesUnsafe s \<or> sh_pointer sp),
     sg_viaCall := (sg_viaCall s \<or> sh_call sp)\<rparr>"

definition add_elevated :: "string \<Rightarrow> string \<Rightarrow> shaping \<Rightarrow> shaping" where
  "add_elevated name element s =
     (let local = ''_'' @ name in
      s\<lparr>sg_preamble := sg_preamble s @ [local @ '' := new('' @ element @ '')''],
        sg_argWords := sg_argWords s @ [''uintptr(win32.OutParam(unsafe.Pointer('' @ local @ '')))''],
        sg_specArgs := sg_specArgs s @ [specWord], sg_returnValues := sg_returnValues s @ [''*'' @ local],
        sg_returnTypes := sg_returnTypes s @ [element], sg_usesUnsafe := True\<rparr>)"

definition add_count :: "string \<Rightarrow> shaping \<Rightarrow> shaping" where
  "add_count array s = s\<lparr>sg_argWords := sg_argWords s @ [''uintptr(len('' @ array @ ''))''],
     sg_specArgs := sg_specArgs s @ [specWord]\<rparr>"

definition add_slice :: "string \<Rightarrow> slice_plan \<Rightarrow> shaping \<Rightarrow> shaping" where
  "add_slice name plan s =
     (let local = ''_'' @ name in
      s\<lparr>sg_decls := sg_decls s @ [name @ '' []'' @ sp_element plan],
        sg_preamble := sg_preamble s @ [''var '' @ local @ '' '' @ sp_rawPointerType plan,
          ''if len('' @ name @ '') > 0 { '' @ local @ '' = &'' @ name @ ''[0] }''],
        sg_argWords := sg_argWords s @ [pointer_word local], sg_specArgs := sg_specArgs s @ [specWord],
        sg_usesUnsafe := True\<rparr>)"

text \<open>
  The loop, for functions and COM methods alike: \<open>elevate\<close> says whether results are elevated,
  \<open>skipped\<close> renders the diagnostic of a parameter that cannot be marshaled.
\<close>

fun shape_params :: "bool \<Rightarrow> (param \<Rightarrow> resolved \<Rightarrow> string) \<Rightarrow> slice_plans \<Rightarrow> string list \<Rightarrow>
    (nat \<times> param \<times> resolved) list \<Rightarrow> shaping \<Rightarrow> generator \<Rightarrow> (shaping option \<times> generator) option" where
  "shape_params elevate skipped plans names [] s g = Some (Some s, g)"
| "shape_params elevate skipped plans names ((i, p, r) # rest) s g =
     (case (if elevate then retValElement p r else None) of
        Some element \<Rightarrow> shape_params elevate skipped plans names rest (add_elevated (names ! i) element s) g
      | None \<Rightarrow>
     (case map_of (snd plans) i of
        Some array \<Rightarrow> shape_params elevate skipped plans names rest (add_count (names ! array) s) g
      | None \<Rightarrow>
     (case map_of (fst plans) i of
        Some plan \<Rightarrow> shape_params elevate skipped plans names rest (add_slice (names ! i) plan s) g
      | None \<Rightarrow>
     (case shapeParam (names ! i) p r g of
        None \<Rightarrow> None
      | Some None \<Rightarrow> Some (None, diag (skipped p r) g)
      | Some (Some sp) \<Rightarrow> shape_params elevate skipped plans names rest (add_shaped sp s) g))))"


text \<open>The resolved parameters (COM outs retyped) and the resolved result.\<close>

definition resolve_signature :: "string \<Rightarrow> param list \<Rightarrow> type_ref \<Rightarrow> generator \<Rightarrow>
    ((resolved list \<times> resolved) \<times> generator) option" where
  "resolve_signature ns params ret g = do {
     (resolved, g) \<leftarrow> resolve_all (\<lambda>p. resolve_type (p_Type p) \<lparr>cx_Namespace = ns, cx_IsReturn = False\<rparr>) params g;
     let (resolved, g) = retypeComOutParams params resolved g;
     (r, g) \<leftarrow> resolve_type ret \<lparr>cx_Namespace = ns, cx_IsReturn = True\<rparr> g;
     Some ((resolved, r), g)
   }"

definition shape_signature :: "bool \<Rightarrow> (param \<Rightarrow> resolved \<Rightarrow> string) \<Rightarrow> param list \<Rightarrow> resolved list \<Rightarrow> resolved \<Rightarrow>
    generator \<Rightarrow> (shaping option \<times> generator) option" where
  "shape_signature elevate skipped params resolved ret g =
     shape_params elevate skipped (planSliceParams params resolved True)
       (param_names params (signature_idents resolved ret))
       (zip [0..<length params] (zip params resolved)) empty_shaping g"

section \<open>Informational successes\<close>

definition informationalFunctions :: "string list" where
  "informationalFunctions = [''System.Com.CoInitializeEx'']"

definition informationalComMethods :: "string list" where
  "informationalComMethods = [''Data.Xml.XmlLite.IXmlReader.Read'']"

definition mark_informational :: "string \<Rightarrow> generator \<Rightarrow> generator" where
  "mark_informational key g = g\<lparr>g_informationalMatched := List.insert key (g_informationalMatched g)\<rparr>"

definition isInformationalFunction :: "string \<Rightarrow> string \<Rightarrow> generator \<Rightarrow> bool \<times> generator" where
  "isInformationalFunction namespace f g =
     (let key = namespace @ ''.'' @ f in
      if key \<notin> set informationalFunctions then (False, g) else (True, mark_informational key g))"

definition isInformationalComMethod :: "string \<Rightarrow> string \<Rightarrow> string \<Rightarrow> generator \<Rightarrow> bool \<times> generator" where
  "isInformationalComMethod namespace iface method g =
     (if has_prefix iface ''IEnum'' \<and> (method = ''Next'' \<or> method = ''Skip'') then (True, g)
      else (let key = namespace @ ''.'' @ iface @ ''.'' @ method in
            if key \<notin> set informationalComMethods then (False, g) else (True, mark_informational key g)))"

definition checkInformationalEntries :: "generator \<Rightarrow> generator" where
  "checkInformationalEntries g =
     fold (\<lambda>key. diag (''informational-success entry '' @ key @ '' matched no emitted API (stale entry?)''))
       (sort (filter (\<lambda>key. key \<notin> set (g_informationalMatched g)) (informationalFunctions @ informationalComMethods))) g"

section \<open>Dispatch and results\<close>

definition maxCallWords :: nat where
  "maxCallWords = 4 + 42 - 1"

definition specDecl :: "string \<Rightarrow> string list \<Rightarrow> string \<Rightarrow> string" where
  "specDecl specVar specArgs retSpec =
     ''var '' @ specVar @ '' = &win32.Spec{Args: []win32.Arg{'' @ join_with '', '' specArgs @ ''}'' @
     (if retSpec \<noteq> [] then '', Ret: '' @ retSpec else []) @ ''}''"

definition callExpr :: "string \<Rightarrow> string \<Rightarrow> string \<Rightarrow> string list \<Rightarrow> return_kind \<Rightarrow> string" where
  "callExpr target specVar retArg argWords kind =
     (let call = ''win32.Call('' @ join_with '', '' (target # specVar # retArg # argWords) @ '')''
      in if kind = RetFloat then call else call @ ''.Tuple()'')"

definition syscall_expr :: "string list \<Rightarrow> string" where
  "syscall_expr words = ''syscall.SyscallN('' @ join_with '', '' words @ '')''"

definition invalidValueChecks :: "string list \<Rightarrow> string \<Rightarrow> string \<Rightarrow> string list" where
  "invalidValueChecks values goType name =
     map (\<lambda>v. if v = ''-1'' then name @ '' == ^'' @ goType @ ''(0)'' else name @ '' == '' @ v)
       (if values = [] then [''0''] else values)"

definition failureChecks :: "resolved \<Rightarrow> generator \<Rightarrow> string list" where
  "failureChecks r g =
     (if res_Kind r = KindHandleTypedef then
        (case Typedef (g_registry g) (res_TypedefApi r) (res_TypedefName r) of
           None \<Rightarrow> [] | Some td \<Rightarrow> invalidValueChecks (td_InvalidValues td) (res_GoType r) ''ret'')
      else if res_Kind r \<in> {KindPointer, KindPointerTypedef, KindComPtr} then [''ret == nil'']
      else [])"

definition returnConversion :: "resolved \<Rightarrow> string" where
  "returnConversion r =
     (if res_Kind r = KindScalar \<and> res_GoType r = ''bool'' then ''byte(r1) != 0''
      else if res_Kind r = KindPointer \<or> res_Kind r = KindComPtr then
        (if res_GoType r = ''unsafe.Pointer'' then ''unsafe.Pointer(r1)''
         else ''('' @ res_GoType r @ '')(unsafe.Pointer(r1))'')
      else if res_Kind r = KindPointerTypedef then res_GoType r @ ''(unsafe.Pointer(r1))''
      else if res_Kind r = KindVoid then []
      else res_GoType r @ ''(r1)'')"

definition with_error :: "string \<Rightarrow> string" where
  "with_error t = ''('' @ t @ '', error)''"

text \<open>
  The tail of \<open>buildReturnShape\<close>, for a result that comes back in the integer register; \<open>expr\<close> is
  the conversion of that register.
\<close>

definition register_return :: "namespace_meta \<Rightarrow> function_decl \<Rightarrow> resolved \<Rightarrow> string \<Rightarrow> function_model \<Rightarrow>
    generator \<Rightarrow> function_model \<times> generator" where
  "register_return meta f r expr model g =
     (let m = model\<lparr>fnm_RetExpr := expr\<rparr>; t = res_GoType r in
      if fn_SetLastError f \<and> isBOOL r then (m\<lparr>fnm_ReturnKind := RetBoolErr, fnm_ReturnSig := ''error''\<rparr>, g)
      else if isHRESULT r then
        (let (informational, g) = isInformationalFunction (ns_Namespace meta) (fn_Name f) g in
         if informational then (m\<lparr>fnm_ReturnKind := RetHResultValueErr, fnm_ReturnSig := ''(win32.HRESULT, error)''\<rparr>, g)
         else (m\<lparr>fnm_ReturnKind := RetHResultErr, fnm_ReturnSig := ''error''\<rparr>, g))
      else if isBOOL r then (m\<lparr>fnm_ReturnKind := RetBoolValue, fnm_ReturnSig := ''bool''\<rparr>, g)
      else if fn_SetLastError f then
        (if failureChecks r g \<noteq> []
         then (m\<lparr>fnm_ReturnKind := RetValErr, fnm_ReturnSig := with_error t, fnm_FailureChecks := failureChecks r g\<rparr>, g)
         else (m\<lparr>fnm_ReturnKind := RetValLast, fnm_ReturnSig := with_error t\<rparr>, g))
      else (m\<lparr>fnm_ReturnKind := RetVal, fnm_ReturnSig := t\<rparr>, g))"

definition return_skipped :: "function_decl \<Rightarrow> string \<Rightarrow> string" where
  "return_skipped f what = ''function '' @ fn_Name f @ '': '' @ what @ '' not marshalable, function skipped''"

definition float_result :: "string \<Rightarrow> string \<times> string" where
  "float_result t = (if t = ''float32'' then (''math.Float32frombits(uint32(r.F0))'', ''win32.Float32'')
                     else (''math.Float64frombits(r.F0)'', ''win32.Float64''))"

text \<open>The model with its return shape, the descriptor of the result and the result-buffer argument.\<close>

definition buildReturnShape :: "function_model \<Rightarrow> namespace_meta \<Rightarrow> function_decl \<Rightarrow> resolved \<Rightarrow> generator \<Rightarrow>
    ((function_model \<times> string \<times> string) option \<times> generator) option" where
  "buildReturnShape model meta f r g =
     (let t = res_GoType r; by_value = diag (return_skipped f (''by-value '' @ t @ '' return'')) g in
      if res_Kind r = KindVoid then Some (Some (model\<lparr>fnm_ReturnKind := RetVoid\<rparr>, [], ''nil''), g)
      else if by_value_composite (res_Kind r) then do {
        l \<leftarrow> layout_of_ref (fn_Return f) g;
        if \<not> l_ok l then Some (None, by_value)
        else if registerSized l \<and> \<not> is_hfa l then
          (let (m, g) = register_return meta f r (''win32.StructRet['' @ t @ ''](r1)'') model g in Some (Some (m, [], ''nil''), g))
        else Some (Some (model\<lparr>fnm_Preamble := fnm_Preamble model @ [''_ret := new('' @ t @ '')''], fnm_RetExpr := ''*_ret'',
                      fnm_ReturnKind := (if fn_SetLastError f then RetStructOutLast else RetStructOut),
                      fnm_ReturnSig := (if fn_SetLastError f then with_error t else t)\<rparr>,
                    struct_spec l, ''win32.OutParam(unsafe.Pointer(_ret))''), g)
      }
      else if res_Kind r = KindArray then Some (None, by_value)
      else if isFloat r then
        (if fn_SetLastError f then Some (None, diag (return_skipped f (t @ '' return with SetLastError'')) g)
         else Some (Some (model\<lparr>fnm_ReturnKind := RetFloat, fnm_ReturnSig := t, fnm_RetExpr := fst (float_result t)\<rparr>,
                          snd (float_result t), ''nil''), g))
      else (let (m, g) = register_return meta f r (returnConversion r) model g in Some (Some (m, [], ''nil''), g)))"

text \<open>The elevated results of a function whose status is clean.\<close>

definition elevated_return :: "namespace_meta \<Rightarrow> function_decl \<Rightarrow> ret_val_mode \<Rightarrow> shaping \<Rightarrow> function_model \<Rightarrow>
    generator \<Rightarrow> function_model \<times> generator" where
  "elevated_return meta f mode s model g =
     (let m = model\<lparr>fnm_ReturnValues := sg_returnValues s\<rparr>;
          tuple = ''('' @ join_with '', '' (sg_returnTypes s @ [''error'']) @ '')'' in
      case mode of
        RetValHRESULT \<Rightarrow>
          (let (informational, g) = isInformationalFunction (ns_Namespace meta) (fn_Name f) g;
               g = (if informational
                    then diag (''function '' @ fn_Name f @ '': informational-success annotation not applied ([out,retval] elevation)'') g
                    else g)
           in (m\<lparr>fnm_ReturnKind := RetRetValHResult, fnm_ReturnSig := tuple\<rparr>, g))
      | RetValRawError \<Rightarrow> (m\<lparr>fnm_ReturnKind := RetRetValBoolErr, fnm_ReturnSig := tuple\<rparr>, g)
      | RetValVoid \<Rightarrow>
          (m\<lparr>fnm_ReturnKind := RetRetValVoid,
             fnm_ReturnSig := (if length (sg_returnTypes s) = 1 then hd (sg_returnTypes s)
                               else ''('' @ join_with '', '' (sg_returnTypes s) @ '')'')\<rparr>, g)
      | RetValNone \<Rightarrow> (m, g))"

definition exportOf :: "function_decl \<Rightarrow> string" where
  "exportOf f = (if fn_EntryPoint f \<noteq> [] then fn_EntryPoint f else fn_Name f)"

definition availabilityComments :: "function_decl \<Rightarrow> string list" where
  "availabilityComments f =
     (if av_DocURL (fn_Availability f) \<noteq> [] then [av_DocURL (fn_Availability f)] else []) @
     (if av_Platform (fn_Availability f) \<noteq> [] then [''Minimum OS: '' @ av_Platform (fn_Availability f) @ ''.''] else [])"

definition functionComments :: "function_decl \<Rightarrow> string \<Rightarrow> string list" where
  "functionComments f goName =
     (goName @ '' calls '' @ trim_suffix (fn_DLL f) ''.dll'' @ ''!'' @ exportOf f @ ''.'') # availabilityComments f"


section \<open>Functions\<close>

definition claimFunctionName :: "namespace_meta \<Rightarrow> function_decl \<Rightarrow> string \<Rightarrow> generator \<Rightarrow> string option \<times> generator" where
  "claimFunctionName meta f rawName g =
     (let raw = (\<lambda>g. let (ok, g) = claimName rawName g in
           if ok then (Some rawName, g) else (None, diag (already_used ''function'' (fn_Name f) meta) g)) in
      if fn_UnsuffixedName f = [] then raw g
      else (let candidate = Export (fn_UnsuffixedName f); (ok, g) = claimName candidate g in
            if ok then (Some candidate, g)
            else raw (diag (''function '' @ ns_Namespace meta @ '': bare name '' @ candidate @ '' taken, keeping '' @ rawName) g)))"

definition param_skipped :: "string \<Rightarrow> param \<Rightarrow> resolved \<Rightarrow> string" where
  "param_skipped name p r = ''function '' @ name @ '': param '' @ p_Name p @ '' not marshalable ('' @
     res_GoType r @ ''), function skipped''"

definition too_many_words :: "function_decl \<Rightarrow> nat \<Rightarrow> string" where
  "too_many_words f n = ''function '' @ fn_Name f @ '': '' @ show_nat n @
     '' argument words exceed the register-aware call limit, function skipped''"

text \<open>The packages every function body needs, on top of those of its signature.\<close>

definition commit_function_imports :: "string gomap \<Rightarrow> bool \<Rightarrow> generator \<Rightarrow> generator" where
  "commit_function_imports imports usesUnsafe g =
     (let g = set_import ''win32'' (RuntimeImportPath (g_mapper g))
                (set_import ''syscall'' ''syscall'' (with_imports (commit_imports (imports_of g) imports) g))
      in if usesUnsafe then set_import ''unsafe'' ''unsafe'' g else g)"

definition informational_note :: string where
  "informational_note = ''The returned HRESULT preserves informational successes (e.g. S_FALSE); the error is non-nil only on failure.''"

text \<open>
  The second half of \<open>buildFunction\<close>: the name, the dispatch expression, the imports and the
  comments of a function whose parameters and result have a shape.
\<close>

definition finish_function :: "namespace_meta \<Rightarrow> function_decl \<Rightarrow> string \<Rightarrow> string gomap \<Rightarrow> shaping \<Rightarrow>
    function_model \<Rightarrow> string \<Rightarrow> string \<Rightarrow> generator \<Rightarrow> function_model option \<times> generator" where
  "finish_function meta f rawName imports s model retSpec retArg g =
     (let viaCall = (sg_viaCall s \<or> retSpec \<noteq> []); words = sg_argWords s in
      if viaCall \<and> maxCallWords < length words
      then (None, with_imports imports (diag (too_many_words f (length words)) g))
      else (case claimFunctionName meta f rawName g of
          (None, g) \<Rightarrow> (None, with_imports imports g)
        | (Some goName, g) \<Rightarrow>
            (let proc = ''proc'' @ goName; specVar = ''spec'' @ goName; target = proc @ ''.Addr()'';
                 g = commit_function_imports imports (sg_usesUnsafe s \<or> viaCall) g
             in (Some (model\<lparr>fnm_GoName := goName, fnm_ProcVar := proc,
                   fnm_SpecDecl := (if viaCall then specDecl specVar (sg_specArgs s) retSpec else fnm_SpecDecl model),
                   fnm_CallExpr := (if viaCall then callExpr target specVar retArg words (fnm_ReturnKind model)
                                    else syscall_expr (target # words)),
                   fnm_CommentLines := functionComments f goName @
                     (if fnm_ReturnKind model = RetHResultValueErr then [informational_note] else [])\<rparr>), g))))"

definition buildFunction :: "namespace_meta \<Rightarrow> function_decl \<Rightarrow> string \<Rightarrow> generator \<Rightarrow>
    (function_model option \<times> generator) option" where
  "buildFunction meta f rawName g = do {
     let imports = imports_of g;
     ((resolved, ret), g) \<leftarrow> resolve_signature (ns_Namespace meta) (fn_Params f) (fn_Return f) (with_imports [] g);
     let mode = retValElevationMode (fn_SetLastError f) ret;
     (shaped, g) \<leftarrow> shape_signature (mode \<noteq> RetValNone) (param_skipped (fn_Name f)) (fn_Params f) resolved ret g;
     case shaped of
       None \<Rightarrow> Some (None, with_imports imports g)
     | Some s \<Rightarrow> do {
         let model = empty_function_model\<lparr>fnm_ProcVar := ''proc'' @ rawName,
               fnm_ParamStr := join_with '', '' (sg_decls s), fnm_Preamble := sg_preamble s,
               fnm_ArgExprs := sg_argWords s\<rparr>;
         if sg_returnValues s \<noteq> [] then
           (let (model, g) = elevated_return meta f mode s model g
            in Some (finish_function meta f rawName imports s model [] ''nil'' g))
         else do {
           (result, g) \<leftarrow> buildReturnShape model meta f ret g;
           Some (case result of
               None \<Rightarrow> (None, with_imports imports g)
             | Some (model, retSpec, retArg) \<Rightarrow> finish_function meta f rawName imports s model retSpec retArg g)
         }
       }
   }"

section \<open>Header inlines\<close>

definition loadableModuleSuffixes :: "string list" where
  "loadableModuleSuffixes = [''.dll'', ''.drv'', ''.exe'', ''.cpl'', ''.sys'', ''.ax'', ''.ocx'']"

definition IsLoadableModule :: "string \<Rightarrow> bool" where
  "IsLoadableModule dll \<longleftrightarrow> (\<exists>suf \<in> set loadableModuleSuffixes. has_suffix (to_lower dll) suf)"

definition inlineConstantExpr :: "function_decl \<Rightarrow> resolved \<Rightarrow> generator \<Rightarrow> string option option" where
  "inlineConstantExpr f r g =
     (case parse_int64 (fn_Constant f) of
        None \<Rightarrow> Some None
      | Some v \<Rightarrow> map_option (\<lambda>base.
          if v < 0 \<and> (res_Kind r = KindHandleTypedef \<or> res_GoType r = ''uintptr'' \<or> base = ''uintptr'')
          then Some (''^'' @ res_GoType r @ ''('' @ show_int (- v - 1) @ '')'')
          else Some (res_GoType r @ ''('' @ (if v < 0 then literalForBase (fn_Constant f) base else fn_Constant f) @ '')''))
          (constant_base_of (fn_Return f) g))"

definition inline_skipped :: "function_decl \<Rightarrow> string \<Rightarrow> string" where
  "inline_skipped f why = ''function '' @ fn_Name f @ '': '' @ why @ '', skipped''"

definition inline_model :: "function_decl \<Rightarrow> resolved \<Rightarrow> string \<Rightarrow> string \<Rightarrow> function_model" where
  "inline_model f r expr goName = empty_function_model\<lparr>fnm_GoName := goName, fnm_ReturnSig := res_GoType r,
     fnm_ReturnKind := RetInline, fnm_RetExpr := expr,
     fnm_CommentLines := (goName @ '' is a header inline, not a DLL export: it evaluates to the constant '' @
       fn_Constant f @ ''.'') # availabilityComments f\<rparr>"

definition buildInlineFunction :: "namespace_meta \<Rightarrow> function_decl \<Rightarrow> string \<Rightarrow> generator \<Rightarrow>
    (function_model option \<times> generator) option" where
  "buildInlineFunction meta f rawName g =
     (if fn_Constant f = [] then
        Some (None, diag (inline_skipped f (''DLL '' @ quoted (fn_DLL f) @
          '' is not a loadable module and no [Constant] value is recorded'')) g)
      else if fn_Params f \<noteq> [] then
        Some (None, diag (inline_skipped f (''[Constant] inline takes '' @ show_nat (length (fn_Params f)) @ '' params'')) g)
      else do {
        let imports = imports_of g;
        (r, g) \<leftarrow> resolve_type (fn_Return f) \<lparr>cx_Namespace = ns_Namespace meta, cx_IsReturn = True\<rparr> (with_imports [] g);
        if res_Kind r = KindUnsupported \<or> res_Kind r = KindVoid then
          Some (None, with_imports imports (diag (inline_skipped f ''[Constant] inline return not representable'') g))
        else do {
          expr \<leftarrow> inlineConstantExpr f r g;
          case expr of
            None \<Rightarrow> Some (None, with_imports imports (diag (inline_skipped f (''[Constant] value '' @ quoted (fn_Constant f) @
                      '' not representable as '' @ res_GoType r)) g))
          | Some e \<Rightarrow> Some (case claimFunctionName meta f rawName g of
                (None, g) \<Rightarrow> (None, with_imports imports g)
              | (Some goName, g) \<Rightarrow> (Some (inline_model f r e goName), with_imports (commit_imports (imports_of g) imports) g))
        }
      })"

section \<open>The functions of a namespace\<close>

text \<open>The emitted functions in metadata order, each with its declaration.\<close>

fun function_models :: "namespace_meta \<Rightarrow> function_decl list \<Rightarrow> string list \<Rightarrow> generator \<Rightarrow>
    ((function_decl \<times> function_model) list \<times> generator) option" where
  "function_models meta [] seen g = Some ([], g)"
| "function_models meta (f # fs) seen g =
     (let rawName = Export (fn_Name f) in
      if \<not> amd64Compatible (av_Architectures (fn_Availability f)) \<or> rawName \<in> set seen
      then function_models meta fs seen g
      else do {
        (model, g) \<leftarrow> (if IsLoadableModule (fn_DLL f) then buildFunction meta f rawName g
                       else buildInlineFunction meta f rawName g);
        (models, g) \<leftarrow> function_models meta fs (rawName # seen) g;
        Some (case model of None \<Rightarrow> models | Some m \<Rightarrow> (f, m) # models, g)
      })"

definition proc_of :: "function_decl \<times> function_model \<Rightarrow> proc_model" where
  "proc_of e = \<lparr>prm_VarName = fnm_ProcVar (snd e), prm_ExportName = exportOf (fst e), prm_GoName = fnm_GoName (snd e)\<rparr>"

definition dll_key :: "function_decl \<times> function_model \<Rightarrow> string" where
  "dll_key e = to_upper (fn_DLL (fst e))"

text \<open>\<open>dllProcs\<close> and \<open>dllSpelling\<close>: per upper-cased module name, the first spelling and the procs.\<close>

definition add_proc :: "function_decl \<times> function_model \<Rightarrow> (string \<times> proc_model list) gomap \<Rightarrow>
    (string \<times> proc_model list) gomap" where
  "add_proc e dlls = AList.update (dll_key e)
     (case map_of dlls (dll_key e) of None \<Rightarrow> (fn_DLL (fst e), [proc_of e])
      | Some (spelling, procs) \<Rightarrow> (spelling, procs @ [proc_of e])) dlls"

definition dll_model_of :: "string \<times> string \<times> proc_model list \<Rightarrow> dll_model" where
  "dll_model_of d = (case d of (key, spelling, procs) \<Rightarrow>
     \<lparr>dll_VarName = dllVarName spelling, dll_FileName = spelling, dll_Procs = sort_key prm_VarName procs\<rparr>)"

definition dispatched :: "(function_decl \<times> function_model) list \<Rightarrow> (function_decl \<times> function_model) list" where
  "dispatched emitted = filter (\<lambda>e. IsLoadableModule (fn_DLL (fst e))) emitted"

definition group_dlls :: "(function_decl \<times> function_model) list \<Rightarrow> dll_model list" where
  "group_dlls emitted = map dll_model_of (sort_key fst (fold add_proc (dispatched emitted) []))"

definition buildFunctionModels :: "namespace_meta \<Rightarrow> generator \<Rightarrow>
    ((function_model list \<times> dll_model list \<times> proc_model list) \<times> generator) option" where
  "buildFunctionModels meta g = do {
     (emitted, g) \<leftarrow> function_models meta (ns_Functions meta) [] g;
     let procs = sort_key prm_GoName (map proc_of (dispatched emitted));
     let (procs, g) = (if procs = [] then ([], g)
         else (let (ok, g) = claimName ''Procs'' g in
               if ok then (procs, g)
               else ([], diag (''package '' @ ns_Namespace meta @ '': Procs table name already used, probe table not emitted'') g)));
     Some ((sort_key fnm_GoName (map snd emitted), group_dlls emitted, procs), g)
   }"

definition functionCandidates :: "namespace_meta \<Rightarrow> nat" where
  "functionCandidates meta = length (remdups (map (\<lambda>f. Export (fn_Name f))
     (filter (\<lambda>f. amd64Compatible (av_Architectures (fn_Availability f))) (ns_Functions meta))))"

end
