(* ===== verification/Slices.thy ===== *)
theory Slices
  imports Functions
begin

text \<open>
  What the slice planner and the parameter loop of \<open>functions.go\<close> guarantee together: a count or size
  parameter dropped from the signature is supplied by the length of a slice the signature declares,
  and every native parameter gets one argument word and one descriptor.
\<close>

section \<open>Plans and elided counts\<close>

definition sliceable :: "param list \<Rightarrow> resolved list \<Rightarrow> nat \<Rightarrow> bool" where
  "sliceable params resolved i \<longleftrightarrow> typed_pointer (resolved ! i) \<noteq> None \<or>
     isVoidPointer (p_Type (params ! i)) \<or> isBytePointer (p_Type (params ! i))"

definition slice_entry :: "param list \<Rightarrow> resolved list \<Rightarrow> nat \<Rightarrow> nat \<Rightarrow> bool" where
  "slice_entry params resolved i j \<longleftrightarrow> i < length params \<and> j < length params \<and> i \<noteq> j \<and>
     \<not> p_IsRetVal (params ! i) \<and> \<not> p_IsReserved (params ! i) \<and>
     sliceable params resolved i \<and> elidable params resolved j"

text \<open>Plans and elided counts are two views of one injective pairing.\<close>

definition plans_ok :: "param list \<Rightarrow> resolved list \<Rightarrow> slice_plans \<Rightarrow> bool" where
  "plans_ok params resolved s \<longleftrightarrow> distinct (map fst (fst s)) \<and> distinct (map fst (snd s)) \<and>
     (\<forall>(i, pl) \<in> set (fst s). slice_entry params resolved i (sp_countIndex pl) \<and> (sp_countIndex pl, i) \<in> set (snd s)) \<and>
     (\<forall>(j, i) \<in> set (snd s). \<exists>pl. (i, pl) \<in> set (fst s) \<and> sp_countIndex pl = j)"

lemma plans_ok_empty: "plans_ok params resolved ([], [])"
  by (simp add: plans_ok_def)

lemma plans_ok_add:
  assumes "plans_ok params resolved s" "i \<notin> fst ` set (fst s)" "j \<notin> fst ` set (snd s)"
    "slice_entry params resolved i j" "sp_countIndex pl = j"
  shows "plans_ok params resolved ((i, pl) # fst s, (j, i) # snd s)"
  using assms unfolding plans_ok_def by auto

lemma typed_pointer_kind: "typed_pointer r = Some e \<Longrightarrow> res_Kind r = KindPointer"
  by (simp add: typed_pointer_def split: if_splits)

lemma integer_count_no_pointer: "isIntegerCount r \<Longrightarrow> res_Kind r \<noteq> KindPointer"
  by (auto simp: isIntegerCount_def split: if_splits)

lemma references_once:
  assumes "references_to index params j = 1" "i < length params" "k < length params"
    "index (params ! i) = int j" "index (params ! k) = int j"
  shows "i = k"
proof (rule ccontr)
  let ?S = "{i. i < length params \<and> index (params ! i) = int j}"
  assume "i \<noteq> k"
  then have "card {i, k} = 2" by simp
  moreover have "card {i, k} \<le> card ?S" using assms by (intro card_mono) auto
  ultimately show False using assms(1) by (simp add: references_to_def length_filter_conv_card)
qed

definition arrays_ok :: "param list \<Rightarrow> resolved list \<Rightarrow> nat \<Rightarrow> slice_plans \<Rightarrow> bool" where
  "arrays_ok params resolved k s \<longleftrightarrow> plans_ok params resolved s \<and> fst ` set (fst s) \<subseteq> {..<k} \<and>
     (\<forall>(j, i) \<in> set (snd s). i < k \<and> p_NativeArrayCountParamIndex (params ! i) = int j)"

lemma plan_array_cases:
  "plan_array params resolved k s = s \<or>
   (\<exists>pl. plan_array params resolved k s = ((k, pl) # fst s, (nat (p_NativeArrayCountParamIndex (params ! k)), k) # snd s) \<and>
      \<not> p_IsRetVal (params ! k) \<and> \<not> p_IsReserved (params ! k) \<and>
      index_in params k (p_NativeArrayCountParamIndex (params ! k)) \<and>
      references_to p_NativeArrayCountParamIndex params (nat (p_NativeArrayCountParamIndex (params ! k))) = 1 \<and>
      typed_pointer (resolved ! k) \<noteq> None \<and>
      elidable params resolved (nat (p_NativeArrayCountParamIndex (params ! k))) \<and>
      sp_countIndex pl = nat (p_NativeArrayCountParamIndex (params ! k)))"
  unfolding plan_array_def Let_def by (simp split: option.split)

lemma plan_buffer_cases:
  "plan_buffer params resolved k s = s \<or>
   (\<exists>pl. plan_buffer params resolved k s = ((k, pl) # fst s, (nat (p_MemorySizeBytesParamIndex (params ! k)), k) # snd s) \<and>
      \<not> p_IsRetVal (params ! k) \<and> \<not> p_IsReserved (params ! k) \<and>
      index_in params k (p_MemorySizeBytesParamIndex (params ! k)) \<and>
      (isVoidPointer (p_Type (params ! k)) \<or> isBytePointer (p_Type (params ! k))) \<and>
      k \<notin> fst ` set (fst s) \<and> nat (p_MemorySizeBytesParamIndex (params ! k)) \<notin> fst ` set (snd s) \<and>
      elidable params resolved (nat (p_MemorySizeBytesParamIndex (params ! k))) \<and>
      sp_countIndex pl = nat (p_MemorySizeBytesParamIndex (params ! k)))"
  unfolding plan_buffer_def Let_def by simp

lemma plan_array_ok:
  assumes s: "arrays_ok params resolved k s" and k: "k < length params"
  shows "arrays_ok params resolved (Suc k) (plan_array params resolved k s)"
proof -
  let ?j = "p_NativeArrayCountParamIndex (params ! k)"
  have keep: "arrays_ok params resolved (Suc k) s" using s unfolding arrays_ok_def by fastforce
  from plan_array_cases [of params resolved k s]
  consider "plan_array params resolved k s = s"
    | (add) pl where "plan_array params resolved k s = ((k, pl) # fst s, (nat ?j, k) # snd s)"
        "\<not> p_IsRetVal (params ! k)" "\<not> p_IsReserved (params ! k)" "index_in params k ?j"
        "references_to p_NativeArrayCountParamIndex params (nat ?j) = 1" "typed_pointer (resolved ! k) \<noteq> None"
        "elidable params resolved (nat ?j)" "sp_countIndex pl = nat ?j"
    by blast
  then show ?thesis
  proof cases
    case 1
    with keep show ?thesis by simp
  next
    case add
    have j: "0 \<le> ?j" "int (nat ?j) = ?j" "nat ?j < length params" "nat ?j \<noteq> k"
      using add(4) by (auto simp: index_in_def)
    have "k \<notin> fst ` set (fst s)" using s by (auto simp: arrays_ok_def)
    moreover have "nat ?j \<notin> fst ` set (snd s)"
    proof
      assume "nat ?j \<in> fst ` set (snd s)"
      then obtain i where "(nat ?j, i) \<in> set (snd s)" by auto
      then have i: "i < k" "p_NativeArrayCountParamIndex (params ! i) = int (nat ?j)"
        using s by (auto simp: arrays_ok_def)
      then have "i = k" using references_once [OF add(5), of i k] k j by simp
      with i show False by simp
    qed
    moreover have "slice_entry params resolved k (nat ?j)"
      using add k j by (simp add: slice_entry_def sliceable_def)
    ultimately have "plans_ok params resolved (plan_array params resolved k s)"
      using s plans_ok_add [OF _ _ _ _ add(8)] by (simp add: arrays_ok_def add(1))
    with keep j add show ?thesis by (simp add: arrays_ok_def)
  qed
qed

lemma arrays_ok_fold:
  "k \<le> length params \<Longrightarrow> arrays_ok params resolved k (fold (plan_array params resolved) [0..<k] ([], []))"
  by (induction k) (simp_all add: arrays_ok_def plans_ok_empty plan_array_ok [unfolded arrays_ok_def])

lemma plan_buffer_ok:
  assumes s: "plans_ok params resolved s" and k: "k < length params"
  shows "plans_ok params resolved (plan_buffer params resolved k s)"
proof -
  let ?j = "p_MemorySizeBytesParamIndex (params ! k)"
  from plan_buffer_cases [of params resolved k s]
  consider "plan_buffer params resolved k s = s"
    | (add) pl where "plan_buffer params resolved k s = ((k, pl) # fst s, (nat ?j, k) # snd s)"
        "\<not> p_IsRetVal (params ! k)" "\<not> p_IsReserved (params ! k)" "index_in params k ?j"
        "isVoidPointer (p_Type (params ! k)) \<or> isBytePointer (p_Type (params ! k))"
        "k \<notin> fst ` set (fst s)" "nat ?j \<notin> fst ` set (snd s)"
        "elidable params resolved (nat ?j)" "sp_countIndex pl = nat ?j"
    by blast
  then show ?thesis
  proof cases
    case 1
    with s show ?thesis by simp
  next
    case add
    have "nat ?j < length params" "nat ?j \<noteq> k" using add(4) by (auto simp: index_in_def)
    then have "slice_entry params resolved k (nat ?j)" using add k by (simp add: slice_entry_def sliceable_def)
    then show ?thesis using plans_ok_add [OF s add(6,7)] add(1,9) by simp
  qed
qed

lemma planSliceParams_ok: "plans_ok params resolved (planSliceParams params resolved t)"
proof -
  let ?s = "if t then fold (plan_array params resolved) [0..<length params] ([], []) else ([], [])"
  have "plans_ok params resolved ?s"
    using arrays_ok_fold [of "length params" params resolved] by (simp add: arrays_ok_def plans_ok_empty)
  moreover have "k \<le> length params \<Longrightarrow> plans_ok params resolved s \<Longrightarrow>
      plans_ok params resolved (fold (plan_buffer params resolved) [0..<k] s)" for k s
    by (induction k) (simp_all add: plan_buffer_ok)
  ultimately show ?thesis by (simp only: planSliceParams_def Let_def order_refl)
qed

section \<open>Resolved pointers\<close>

lemma resolve_pointer_kind:
  assumes "resolve_type ref ctx g = Some (r, g')" "ref_Kind ref = ''PointerTo''" "ref_Child ref = Some c"
  shows "res_Kind r = KindPointer"
  using assms
  by (auto simp: resolve_type_def GoType.simps [of _ _ ref] resolvePointer.simps [of _ _ ref]
      split: if_split_asm option.split_asm)

lemma byte_buffer_pointer: "isVoidPointer ref \<or> isBytePointer ref \<Longrightarrow> ref_Kind ref = ''PointerTo'' \<and> ref_Child ref \<noteq> None"
  by (auto simp: isVoidPointer_def isBytePointer_def native_pointer_def split: option.splits)

lemma resolve_all_length: "resolve_all f xs st = Some (rs, st') \<Longrightarrow> length rs = length xs"
  by (induction xs arbitrary: rs st) (auto split: option.splits)

lemma resolve_all_nth:
  "resolve_all f xs st = Some (rs, st') \<Longrightarrow> i < length xs \<Longrightarrow> \<exists>st1 st2. f (xs ! i) st1 = Some (rs ! i, st2)"
proof (induction xs arbitrary: rs st i)
  case (Cons x xs)
  then obtain r st1 rs' where 1: "f x st = Some (r, st1)" "resolve_all f xs st1 = Some (rs', st')" "rs = r # rs'"
    by (auto split: option.splits)
  show ?case
  proof (cases i)
    case 0
    with 1 show ?thesis by auto
  next
    case (Suc k)
    with 1 Cons.IH [OF 1(2), of k] Cons.prems show ?thesis by simp
  qed
qed simp

lemma resolve_signature_buffers:
  assumes r: "resolve_signature ns params ret g = Some ((resolved, x), g')"
  shows "length resolved = length params"
    "i < length params \<Longrightarrow> isVoidPointer (p_Type (params ! i)) \<or> isBytePointer (p_Type (params ! i)) \<Longrightarrow>
       res_Kind (resolved ! i) = KindPointer"
proof -
  let ?f = "\<lambda>p. resolve_type (p_Type p) \<lparr>cx_Namespace = ns, cx_IsReturn = False\<rparr>"
  from r obtain rs g1 where 1: "resolve_all ?f params g = Some (rs, g1)"
    "resolved = fst (retypeComOutParams params rs g1)"
    by (auto simp: resolve_signature_def bind_eq_Some_conv Let_def split_def)
  then have eq: "resolved = map (\<lambda>i. if com_out params i then Resolved ''**win32.IUnknown'' KindPointer else rs ! i)
      [0..<length params]" by (simp add: retypeComOutParams_def)
  then show "length resolved = length params" by simp
  assume i: "i < length params" and b: "isVoidPointer (p_Type (params ! i)) \<or> isBytePointer (p_Type (params ! i))"
  obtain st1 st2 where "?f (params ! i) st1 = Some (rs ! i, st2)" using resolve_all_nth [OF 1(1) i] by auto
  then have "res_Kind (rs ! i) = KindPointer"
    using byte_buffer_pointer [OF b] by (auto intro: resolve_pointer_kind)
  with i show "res_Kind (resolved ! i) = KindPointer" by (simp add: eq)
qed

section \<open>The parameter loop\<close>

text \<open>The argument word a parameter must get, and the declaration it must leave, given the plans.\<close>

definition word_ok :: "bool \<Rightarrow> slice_plans \<Rightarrow> string list \<Rightarrow> nat \<times> param \<times> resolved \<Rightarrow> string \<Rightarrow> bool" where
  "word_ok elevate plans names x w \<longleftrightarrow>
     (case x of (i, p, r) \<Rightarrow> (elevate \<longrightarrow> retValElement p r = None) \<longrightarrow>
        (\<forall>a. map_of (snd plans) i = Some a \<longrightarrow> w = ''uintptr(len('' @ names ! a @ ''))''))"

definition decl_ok :: "bool \<Rightarrow> slice_plans \<Rightarrow> string list \<Rightarrow> string list \<Rightarrow> nat \<times> param \<times> resolved \<Rightarrow> bool" where
  "decl_ok elevate plans names decls x \<longleftrightarrow>
     (case x of (i, p, r) \<Rightarrow> (elevate \<longrightarrow> retValElement p r = None) \<longrightarrow> map_of (snd plans) i = None \<longrightarrow>
        (\<forall>pl. map_of (fst plans) i = Some pl \<longrightarrow> names ! i @ '' []'' @ sp_element pl \<in> set decls))"

lemma decl_ok_mono: "decl_ok e plans names ds x \<Longrightarrow> set ds \<subseteq> set ds' \<Longrightarrow> decl_ok e plans names ds' x"
  unfolding decl_ok_def by (cases x) auto

lemma shape_params_step:
  assumes "shape_params e skipped plans names ((i, p, r) # rest) s g = Some (Some s', g')"
  obtains s1 w sp where "shape_params e skipped plans names rest s1 g = Some (Some s', g')"
    "sg_argWords s1 = sg_argWords s @ [w]" "sg_specArgs s1 = sg_specArgs s @ [sp]"
    "set (sg_decls s) \<subseteq> set (sg_decls s1)" "word_ok e plans names (i, p, r) w"
    "decl_ok e plans names (sg_decls s1) (i, p, r)"
proof -
  consider (elevated) el where "(if e then retValElement p r else None) = Some el"
    | (count) a where "(if e then retValElement p r else None) = None" "map_of (snd plans) i = Some a"
    | (slice) pl where "(if e then retValElement p r else None) = None" "map_of (snd plans) i = None"
        "map_of (fst plans) i = Some pl"
    | (plain) "(if e then retValElement p r else None) = None" "map_of (snd plans) i = None"
        "map_of (fst plans) i = None"
    by fastforce
  then show thesis
  proof cases
    case elevated
    with assms show thesis
      by (intro that [of "add_elevated (names ! i) el s" "''uintptr(win32.OutParam(unsafe.Pointer('' @ (''_'' @ names ! i) @ '')))''" specWord])
         (auto simp: add_elevated_def Let_def word_ok_def decl_ok_def split: if_split_asm)
  next
    case count
    with assms show thesis
      by (intro that [of "add_count (names ! a) s" "''uintptr(len('' @ names ! a @ ''))''" specWord])
         (auto simp: add_count_def word_ok_def decl_ok_def)
  next
    case slice
    with assms show thesis
      by (intro that [of "add_slice (names ! i) pl s" "pointer_word (''_'' @ names ! i)" specWord])
         (auto simp: add_slice_def Let_def word_ok_def decl_ok_def)
  next
    case plain
    with assms obtain sp where "shapeParam (names ! i) p r g = Some (Some sp)"
      by (auto split: option.split_asm)
    with assms plain show thesis
      by (intro that [of "add_shaped sp s" "sh_word sp" "sh_spec sp"])
         (auto simp: add_shaped_def word_ok_def decl_ok_def)
  qed
qed

lemma shape_params_words:
  "shape_params e skipped plans names ps s g = Some (Some s', g') \<Longrightarrow>
     \<exists>ws sps. sg_argWords s' = sg_argWords s @ ws \<and> sg_specArgs s' = sg_specArgs s @ sps \<and>
       length sps = length ps \<and> list_all2 (word_ok e plans names) ps ws \<and>
       set (sg_decls s) \<subseteq> set (sg_decls s') \<and> (\<forall>x \<in> set ps. decl_ok e plans names (sg_decls s') x)"
proof (induction ps arbitrary: s)
  case (Cons x ps)
  obtain i p r where x: "x = (i, p, r)" by (cases x)
  from Cons.prems [unfolded x] obtain s1 w sp where
    1: "shape_params e skipped plans names ps s1 g = Some (Some s', g')"
    "sg_argWords s1 = sg_argWords s @ [w]" "sg_specArgs s1 = sg_specArgs s @ [sp]"
    "set (sg_decls s) \<subseteq> set (sg_decls s1)" "word_ok e plans names (i, p, r) w"
    "decl_ok e plans names (sg_decls s1) (i, p, r)" by (rule shape_params_step)
  from Cons.IH [OF 1(1)] obtain ws sps where 2: "sg_argWords s' = sg_argWords s1 @ ws"
    "sg_specArgs s' = sg_specArgs s1 @ sps" "length sps = length ps" "list_all2 (word_ok e plans names) ps ws"
    "set (sg_decls s1) \<subseteq> set (sg_decls s')" "\<forall>x \<in> set ps. decl_ok e plans names (sg_decls s') x" by blast
  show ?case
    using 1 2 x decl_ok_mono [OF 1(6) 2(5)]
    by (intro exI [of _ "w # ws"] exI [of _ "sp # sps"]) auto
qed auto

section \<open>Counts come from declared slices\<close>

lemma plan_pair:
  assumes "plans_ok params resolved s" "map_of (snd s) j = Some i"
  obtains pl where "map_of (fst s) i = Some pl" "slice_entry params resolved i j"
proof -
  from assms(2) have "(j, i) \<in> set (snd s)" by (rule map_of_SomeD)
  with assms(1) obtain pl where pl: "(i, pl) \<in> set (fst s)" "sp_countIndex pl = j"
    by (fastforce simp: plans_ok_def)
  with assms(1) have "slice_entry params resolved i j" "map_of (fst s) i = Some pl"
    by (fastforce simp: plans_ok_def)+
  then show thesis using that by simp
qed

lemma slice_not_elided:
  assumes ok: "plans_ok params resolved s" and b: "\<And>k. k < length params \<Longrightarrow>
      isVoidPointer (p_Type (params ! k)) \<or> isBytePointer (p_Type (params ! k)) \<Longrightarrow> res_Kind (resolved ! k) = KindPointer"
    and i: "slice_entry params resolved i j"
  shows "map_of (snd s) i = None"
proof (rule ccontr)
  assume "map_of (snd s) i \<noteq> None"
  then obtain k where "map_of (snd s) i = Some k" by auto
  then obtain pl where "slice_entry params resolved k i" using plan_pair [OF ok] by blast
  then have "isIntegerCount (resolved ! i)" by (simp add: slice_entry_def elidable_def)
  then have "res_Kind (resolved ! i) \<noteq> KindPointer" by (rule integer_count_no_pointer)
  with i b [of i] show False by (auto simp: slice_entry_def sliceable_def typed_pointer_def split: if_splits)
qed

text \<open>
  \<^bold>\<open>C17\<close>: a shaped signature has exactly one argument word and one descriptor per native parameter,
  and whenever a count or size parameter is left out of the Go signature, its word is the length of
  another parameter that the signature does declare, as a slice.
\<close>

theorem shape_signature_counts:
  assumes r: "resolve_signature ns params ret g = Some ((resolved, x), g1)"
    and s: "shape_signature e skipped params resolved x g1 = Some (Some s, g2)"
  defines "names \<equiv> param_names params (signature_idents resolved x)"
  shows "length (sg_argWords s) = length params \<and> length (sg_specArgs s) = length params \<and>
    (\<forall>j i. map_of (snd (planSliceParams params resolved True)) j = Some i \<longrightarrow>
       j < length params \<and> i < length params \<and> i \<noteq> j \<and>
       sg_argWords s ! j = ''uintptr(len('' @ names ! i @ ''))'' \<and>
       (\<exists>t. names ! i @ '' []'' @ t \<in> set (sg_decls s)))"
proof -
  let ?ps = "zip [0..<length params] (zip params resolved)"
  let ?plans = "planSliceParams params resolved True"
  have len: "length resolved = length params" using resolve_signature_buffers(1) [OF r] .
  from shape_params_words [OF s [unfolded shape_signature_def]] obtain ws sps where
    w: "sg_argWords s = ws" "sg_specArgs s = sps" "length sps = length ?ps"
      "list_all2 (word_ok e ?plans names) ?ps ws" "\<forall>y \<in> set ?ps. decl_ok e ?plans names (sg_decls s) y"
    by (auto simp: names_def empty_shaping_def)
  have count: "j < length params \<and> i < length params \<and> i \<noteq> j \<and>
       sg_argWords s ! j = ''uintptr(len('' @ names ! i @ ''))'' \<and> (\<exists>t. names ! i @ '' []'' @ t \<in> set (sg_decls s))"
    if j: "map_of (snd ?plans) j = Some i" for i j
  proof -
    obtain pl where pl: "map_of (fst ?plans) i = Some pl" and se: "slice_entry params resolved i j"
      using plan_pair [OF planSliceParams_ok j] by blast
    then have ij: "i < length params" "j < length params" "i \<noteq> j" "isIntegerCount (resolved ! j)"
      "\<not> p_IsRetVal (params ! i)" by (simp_all add: slice_entry_def elidable_def)
    have "retValElement (params ! j) (resolved ! j) = None"
      using integer_count_no_pointer [OF ij(4)] by (simp add: retValElement_def typed_pointer_def)
    moreover have "word_ok e ?plans names (j, params ! j, resolved ! j) (ws ! j)"
      using list_all2_nthD [OF w(4), of j] ij len by simp
    ultimately have "sg_argWords s ! j = ''uintptr(len('' @ names ! i @ ''))''"
      using j w(1) by (simp add: word_ok_def)
    moreover have "map_of (snd ?plans) i = None"
      by (rule slice_not_elided [OF planSliceParams_ok resolve_signature_buffers(2) [OF r] se])
    moreover have "(i, params ! i, resolved ! i) \<in> set ?ps"
      using nth_mem [of i ?ps] ij len by simp
    then have "decl_ok e ?plans names (sg_decls s) (i, params ! i, resolved ! i)" using w(5) by blast
    ultimately show ?thesis using ij pl by (auto simp: decl_ok_def retValElement_def)
  qed
  have "length ws = length params" using list_all2_lengthD [OF w(4)] len by simp
  with count w(1-3) len show ?thesis by simp
qed

definition plain_param :: "string \<Rightarrow> type_ref \<Rightarrow> param" where
  "plain_param n t = \<lparr>p_Name = n, p_Type = t, p_IsIn = True, p_IsOut = False, p_IsOptional = False, p_IsReserved = False,
     p_IsConst = False, p_IsComOutPtr = False, p_IsRetVal = False, p_NativeArrayCountParamIndex = -1,
     p_NativeArrayCountConst = 0, p_MemorySizeBytesParamIndex = -1, p_IidParamIndex = -1, p_FreeWith = []\<rparr>"

definition buffer_params :: "param list" where
  "buffer_params = [(plain_param ''buf'' (PointerTo (Native ''Byte'')))\<lparr>p_MemorySizeBytesParamIndex := 1\<rparr>,
     plain_param ''size'' (Native ''UInt32'')]"

lemma shape_signature_counts_witness:
  "\<exists>resolved x g1 s g2.
     resolve_signature ''A'' buffer_params (Native ''Void'') (New (empty_registry []) [] []) = Some ((resolved, x), g1) \<and>
     shape_signature False (\<lambda>p r. []) buffer_params resolved x g1 = Some (Some s, g2) \<and>
     sg_argWords s ! 1 = ''uintptr(len(buf))'' \<and> length (sg_argWords s) = 2"
proof -
  let ?g = "New (empty_registry []) [] []"
  have e: "case resolve_signature ''A'' buffer_params (Native ''Void'') ?g of None \<Rightarrow> False
      | Some ((resolved, x), g1) \<Rightarrow>
          (case shape_signature False (\<lambda>p r. []) buffer_params resolved x g1 of None \<Rightarrow> False
           | Some (shaped, g2) \<Rightarrow> shaped \<noteq> None \<and>
               map_of (snd (planSliceParams buffer_params resolved True)) 1 = Some 0 \<and>
               param_names buffer_params (signature_idents resolved x) ! 0 = ''buf'')"
    by code_simp
  then obtain resolved x g1 where
    r: "resolve_signature ''A'' buffer_params (Native ''Void'') ?g = Some ((resolved, x), g1)"
    by (cases "resolve_signature ''A'' buffer_params (Native ''Void'') ?g") auto
  with e obtain s g2 where s: "shape_signature False (\<lambda>p r. []) buffer_params resolved x g1 = Some (Some s, g2)"
    by (cases "shape_signature False (\<lambda>p r. []) buffer_params resolved x g1") auto
  from e r s have p: "map_of (snd (planSliceParams buffer_params resolved True)) 1 = Some 0"
      "param_names buffer_params (signature_idents resolved x) ! 0 = ''buf''"
    by simp_all
  have "length buffer_params = 2" by (simp add: buffer_params_def)
  with shape_signature_counts [OF r s] p have "sg_argWords s ! 1 = ''uintptr(len(buf))''" "length (sg_argWords s) = 2"
    by auto
  with r s show ?thesis by blast
qed

end
