(* ===== verification/FunctionFacts.thy ===== *)
theory FunctionFacts
  imports Functions
begin

text \<open>
  What the function builder keeps: only the claim of the function's own name changes the claimed
  names, so the functions of a package never share a name; a call through \<open>win32.Call\<close> stays within
  the word limit; and grouping the exports by module loses none.
\<close>

section \<open>Frames\<close>

lemma resolve_all_claims:
  "resolve_all (\<lambda>p. resolve_type (f p) c) xs g = Some (rs, g') \<Longrightarrow> g_claimedNames g' = g_claimedNames g"
proof (induction xs arbitrary: rs g)
  case (Cons x xs)
  then obtain r g1 where "resolve_type (f x) c g = Some (r, g1)"
    "\<exists>rs. resolve_all (\<lambda>p. resolve_type (f p) c) xs g1 = Some (rs, g')" by (auto split: option.split_asm)
  with Cons.IH show ?case by (auto dest: resolve_type_claims)
qed simp

lemma with_imports_claims [simp]: "g_claimedNames (with_imports i g) = g_claimedNames g"
  by (simp add: with_imports_def)

lemma retype_claims: "g_claimedNames (snd (retypeComOutParams ps rs g)) = g_claimedNames g"
  by (simp add: retypeComOutParams_def)

lemma resolve_signature_claims:
  assumes "resolve_signature ns ps ret g = Some (x, g')"
  shows "g_claimedNames g' = g_claimedNames g"
proof -
  from assms obtain rs g1 y where
    1: "resolve_all (\<lambda>p. resolve_type (p_Type p) \<lparr>cx_Namespace = ns, cx_IsReturn = False\<rparr>) ps g = Some (rs, g1)"
    and 2: "resolve_type ret \<lparr>cx_Namespace = ns, cx_IsReturn = True\<rparr> (snd (retypeComOutParams ps rs g1)) = Some (y, g')"
    by (auto simp: resolve_signature_def bind_eq_Some_conv Let_def split_def)
  show ?thesis using resolve_all_claims [OF 1] resolve_type_claims [OF 2] by (simp add: retype_claims)
qed

lemma shape_params_claims:
  "shape_params e sk plans names ps s g = Some (x, g') \<Longrightarrow> g_claimedNames g' = g_claimedNames g"
  by (induction e sk plans names ps s g rule: shape_params.induct) (auto split: option.split_asm if_split_asm)

lemma shape_signature_claims:
  "shape_signature e sk ps rs r g = Some (x, g') \<Longrightarrow> g_claimedNames g' = g_claimedNames g"
  unfolding shape_signature_def by (rule shape_params_claims)

lemma informational_claims: "g_claimedNames (snd (isInformationalFunction ns f g)) = g_claimedNames g"
  by (simp add: isInformationalFunction_def mark_informational_def Let_def)

lemma register_return_claims: "g_claimedNames (snd (register_return meta f r e m g)) = g_claimedNames g"
  using informational_claims [of "ns_Namespace meta" "fn_Name f" g]
  by (simp add: register_return_def Let_def split_def)

lemma elevated_return_claims: "g_claimedNames (snd (elevated_return meta f mode s m g)) = g_claimedNames g"
  using informational_claims [of "ns_Namespace meta" "fn_Name f" g]
  by (cases mode) (simp_all add: elevated_return_def Let_def split_def)

lemma buildReturnShape_claims:
  "buildReturnShape m meta f r g = Some (x, g') \<Longrightarrow> g_claimedNames g' = g_claimedNames g"
  using register_return_claims [of meta f r _ m g]
  by (auto simp: buildReturnShape_def bind_eq_Some_conv Let_def split_def split: if_split_asm)

section \<open>Function names\<close>

lemma claimFunctionName_fresh:
  assumes "claimFunctionName meta f raw g = (n, g')"
  shows "case n of None \<Rightarrow> set (g_claimedNames g) = set (g_claimedNames g')
    | Some name \<Rightarrow> name \<notin> set (g_claimedNames g) \<and> set (g_claimedNames g') = insert name (set (g_claimedNames g))"
  using assms by (auto simp: claimFunctionName_def claimName_def Let_def split: if_split_asm option.splits)

lemma commit_function_imports_claims [simp]: "g_claimedNames (commit_function_imports i u g) = g_claimedNames g"
  by (simp add: commit_function_imports_def Let_def)

lemma finish_function_fresh:
  assumes "finish_function meta f raw imports s m rs ra g = (x, g')"
  shows "fresh_names g (case x of None \<Rightarrow> [] | Some m \<Rightarrow> [fnm_GoName m]) g'"
proof (cases "(sg_viaCall s \<or> rs \<noteq> []) \<and> maxCallWords < length (sg_argWords s)")
  case True
  with assms show ?thesis by (auto simp: finish_function_def Let_def intro: fresh_names_Nil)
next
  case False
  obtain n g1 where c: "claimFunctionName meta f raw g = (n, g1)" by fastforce
  show ?thesis
  proof (cases n)
    case None
    with assms c False claimFunctionName_fresh [OF c] show ?thesis
      by (auto simp: finish_function_def Let_def intro!: fresh_names_Nil)
  next
    case (Some name)
    then obtain m where "x = Some m" "fnm_GoName m = name" "g_claimedNames g' = g_claimedNames g1"
      using assms unfolding finish_function_def Let_def if_not_P [OF False] c Some prod.case option.case by auto
    with claimFunctionName_fresh [OF c] Some show ?thesis by (simp add: fresh_names_def)
  qed
qed

lemma fresh_names_frame: "g_claimedNames g1 = g_claimedNames g \<Longrightarrow> fresh_names g1 xs g2 \<Longrightarrow> fresh_names g xs g2"
  by (simp add: fresh_names_def)

lemma buildFunction_fresh:
  assumes "buildFunction meta f raw g = Some (x, g')"
  shows "fresh_names g (case x of None \<Rightarrow> [] | Some m \<Rightarrow> [fnm_GoName m]) g'"
proof -
  let ?sk = "param_skipped (fn_Name f)"
  from assms obtain rs r g1 shaped g2 where
    1: "resolve_signature (ns_Namespace meta) (fn_Params f) (fn_Return f) (with_imports [] g) = Some ((rs, r), g1)"
    and 2: "shape_signature (retValElevationMode (fn_SetLastError f) r \<noteq> RetValNone) ?sk (fn_Params f) rs r g1 = Some (shaped, g2)"
    by (auto simp: buildFunction_def bind_eq_Some_conv Let_def)
  have g2: "g_claimedNames g2 = g_claimedNames g"
    using resolve_signature_claims [OF 1] shape_signature_claims [OF 2] by simp
  show ?thesis
  proof (cases shaped)
    case None
    with assms 1 2 g2 show ?thesis by (auto simp: buildFunction_def Let_def intro: fresh_names_Nil)
  next
    case (Some s)
    let ?m = "empty_function_model\<lparr>fnm_ProcVar := ''proc'' @ raw, fnm_ParamStr := join_with '', '' (sg_decls s),
      fnm_Preamble := sg_preamble s, fnm_ArgExprs := sg_argWords s\<rparr>"
    show ?thesis
    proof (cases "sg_returnValues s = []")
      case False
      define e where "e = elevated_return meta f (retValElevationMode (fn_SetLastError f) r) s ?m g2"
      have "finish_function meta f raw (imports_of g) s (fst e) [] ''nil'' (snd e) = (x, g')"
        using assms 1 2 Some False by (simp add: buildFunction_def Let_def split_def e_def)
      from fresh_names_frame [OF _ finish_function_fresh [OF this]] show ?thesis
        using elevated_return_claims g2 by (simp add: e_def)
    next
      case True
      then obtain res g3 where 3: "buildReturnShape ?m meta f r g2 = Some (res, g3)"
        and x: "(case res of None \<Rightarrow> (None, with_imports (imports_of g) g3)
          | Some (m, rs, ra) \<Rightarrow> finish_function meta f raw (imports_of g) s m rs ra g3) = (x, g')"
        using assms 1 2 Some by (auto simp: buildFunction_def Let_def bind_eq_Some_conv)
      have g3: "g_claimedNames g3 = g_claimedNames g" using buildReturnShape_claims [OF 3] g2 by simp
      show ?thesis
      proof (cases res)
        case None
        with x g3 show ?thesis by (auto intro: fresh_names_Nil)
      next
        case (Some t)
        obtain m rs ra where "t = (m, rs, ra)" by (cases t)
        with x Some have "finish_function meta f raw (imports_of g) s m rs ra g3 = (x, g')" by simp
        from fresh_names_frame [OF g3 finish_function_fresh [OF this]] show ?thesis .
      qed
    qed
  qed
qed

lemma buildInlineFunction_fresh:
  assumes "buildInlineFunction meta f raw g = Some (x, g')"
  shows "fresh_names g (case x of None \<Rightarrow> [] | Some m \<Rightarrow> [fnm_GoName m]) g'"
proof (cases "fn_Constant f = [] \<or> fn_Params f \<noteq> []")
  case True
  with assms show ?thesis by (auto simp: buildInlineFunction_def intro: fresh_names_Nil split: if_split_asm)
next
  case False
  then obtain r g1 where 1: "resolve_type (fn_Return f) \<lparr>cx_Namespace = ns_Namespace meta, cx_IsReturn = True\<rparr> (with_imports [] g) = Some (r, g1)"
    using assms by (auto simp: buildInlineFunction_def bind_eq_Some_conv Let_def)
  have g1: "g_claimedNames g1 = g_claimedNames g" using resolve_type_claims [OF 1] by simp
  show ?thesis
  proof (cases "res_Kind r = KindUnsupported \<or> res_Kind r = KindVoid")
    case True
    with assms False 1 g1 show ?thesis by (auto simp: buildInlineFunction_def Let_def intro: fresh_names_Nil)
  next
    case ok: False
    obtain e where e: "inlineConstantExpr f r g1 = Some e"
      using assms False 1 ok by (auto simp: buildInlineFunction_def Let_def bind_eq_Some_conv)
    show ?thesis
    proof (cases e)
      case None
      with assms False 1 ok e g1 show ?thesis by (auto simp: buildInlineFunction_def Let_def intro: fresh_names_Nil)
    next
      case (Some t)
      obtain n g2 where c: "claimFunctionName meta f raw g1 = (n, g2)" by fastforce
      with assms False 1 ok e Some claimFunctionName_fresh [OF c] g1 show ?thesis
        by (cases n) (auto simp: buildInlineFunction_def Let_def inline_model_def fresh_names_def)
    qed
  qed
qed

lemma function_models_names:
  "function_models meta fs seen g = Some (es, g') \<Longrightarrow> fresh_names g (map (fnm_GoName \<circ> snd) es) g'"
proof (induction fs arbitrary: seen g es)
  case Nil
  then show ?case by (simp add: fresh_names_Nil)
next
  case (Cons f fs)
  let ?raw = "Export (fn_Name f)"
  show ?case
  proof (cases "\<not> amd64Compatible (av_Architectures (fn_Availability f)) \<or> ?raw \<in> set seen")
    case True
    with Cons show ?thesis by auto
  next
    case False
    then obtain m g1 es1 where
      m: "(if IsLoadableModule (fn_DLL f) then buildFunction meta f ?raw g else buildInlineFunction meta f ?raw g) = Some (m, g1)"
      and r: "function_models meta fs (?raw # seen) g1 = Some (es1, g')"
      and es: "es = (case m of None \<Rightarrow> es1 | Some m \<Rightarrow> (f, m) # es1)"
      using Cons.prems by (auto simp: Let_def bind_eq_Some_conv)
    have "fresh_names g (case m of None \<Rightarrow> [] | Some m \<Rightarrow> [fnm_GoName m]) g1"
      using m buildFunction_fresh buildInlineFunction_fresh by (simp split: if_split_asm)
    from fresh_names_append [OF this Cons.IH [OF r]] show ?thesis by (cases m) (simp_all add: es)
  qed
qed

section \<open>Dispatch\<close>

lemma finish_function_shape:
  assumes "finish_function meta f raw imports s m rs ra g = (Some x, g')"
  shows "fnm_ProcVar x = ''proc'' @ fnm_GoName x \<and> fnm_ArgExprs x = fnm_ArgExprs m \<and>
    fnm_ReturnKind x = fnm_ReturnKind m \<and> (fnm_GoName x = raw \<or> fnm_GoName x = Export (fn_UnsuffixedName f)) \<and>
    (fnm_SpecDecl m = [] \<longrightarrow> fnm_SpecDecl x \<noteq> [] \<longrightarrow> length (sg_argWords s) \<le> maxCallWords)"
proof -
  have ok: "\<not> ((sg_viaCall s \<or> rs \<noteq> []) \<and> maxCallWords < length (sg_argWords s))"
  proof
    assume "(sg_viaCall s \<or> rs \<noteq> []) \<and> maxCallWords < length (sg_argWords s)"
    with assms show False by (simp add: finish_function_def Let_def)
  qed
  obtain n g1 where c: "claimFunctionName meta f raw g = (Some n, g1)"
    using assms unfolding finish_function_def Let_def if_not_P [OF ok]
    by (cases "claimFunctionName meta f raw g") (auto split: option.split_asm)
  then have "n = raw \<or> n = Export (fn_UnsuffixedName f)"
    by (auto simp: claimFunctionName_def Let_def split: if_split_asm prod.split_asm)
  then show ?thesis
    using assms ok unfolding finish_function_def Let_def if_not_P [OF ok] c prod.case option.case
    by (auto split: if_split_asm)
qed

lemma register_return_words:
  "fnm_ArgExprs (fst (register_return meta f r e m g)) = fnm_ArgExprs m \<and>
   fnm_SpecDecl (fst (register_return meta f r e m g)) = fnm_SpecDecl m \<and>
   fnm_ReturnKind (fst (register_return meta f r e m g)) \<noteq> RetInline"
  by (simp add: register_return_def Let_def split_def)

lemma elevated_return_words:
  "fnm_ArgExprs (fst (elevated_return meta f mode s m g)) = fnm_ArgExprs m \<and>
   fnm_SpecDecl (fst (elevated_return meta f mode s m g)) = fnm_SpecDecl m \<and>
   (fnm_ReturnKind m \<noteq> RetInline \<longrightarrow> fnm_ReturnKind (fst (elevated_return meta f mode s m g)) \<noteq> RetInline)"
  by (cases mode) (simp_all add: elevated_return_def Let_def split_def)

lemma buildReturnShape_words:
  "buildReturnShape m meta f r g = Some (Some (m', rs, ra), g') \<Longrightarrow>
     fnm_ArgExprs m' = fnm_ArgExprs m \<and> fnm_SpecDecl m' = fnm_SpecDecl m \<and> fnm_ReturnKind m' \<noteq> RetInline"
  using register_return_words [of meta f r _ m g]
  by (auto simp: buildReturnShape_def bind_eq_Some_conv Let_def split_def split: if_split_asm)

lemma buildFunction_shape:
  assumes "buildFunction meta f raw g = Some (Some x, g')"
  shows "fnm_ProcVar x = ''proc'' @ fnm_GoName x \<and> fnm_ReturnKind x \<noteq> RetInline \<and>
    (fnm_GoName x = raw \<or> fnm_GoName x = Export (fn_UnsuffixedName f)) \<and>
    (fnm_SpecDecl x \<noteq> [] \<longrightarrow> length (fnm_ArgExprs x) \<le> maxCallWords)"
proof -
  let ?sk = "param_skipped (fn_Name f)"
  from assms obtain rs r g1 s g2 where
    1: "resolve_signature (ns_Namespace meta) (fn_Params f) (fn_Return f) (with_imports [] g) = Some ((rs, r), g1)"
    and 2: "shape_signature (retValElevationMode (fn_SetLastError f) r \<noteq> RetValNone) ?sk (fn_Params f) rs r g1 = Some (Some s, g2)"
    by (auto simp: buildFunction_def bind_eq_Some_conv Let_def split: option.split_asm)
  let ?m = "empty_function_model\<lparr>fnm_ProcVar := ''proc'' @ raw, fnm_ParamStr := join_with '', '' (sg_decls s),
      fnm_Preamble := sg_preamble s, fnm_ArgExprs := sg_argWords s\<rparr>"
  have m: "fnm_ArgExprs ?m = sg_argWords s" "fnm_SpecDecl ?m = []" "fnm_ReturnKind ?m \<noteq> RetInline"
    by (simp_all add: empty_function_model_def)
  obtain m rs' ra g3 where "finish_function meta f raw (imports_of g) s m rs' ra g3 = (Some x, g')"
    "fnm_ArgExprs m = sg_argWords s" "fnm_SpecDecl m = []" "fnm_ReturnKind m \<noteq> RetInline"
  proof (cases "sg_returnValues s = []")
    case False
    define e where "e = elevated_return meta f (retValElevationMode (fn_SetLastError f) r) s ?m g2"
    have "finish_function meta f raw (imports_of g) s (fst e) [] ''nil'' (snd e) = (Some x, g')"
      using assms 1 2 False by (simp add: buildFunction_def Let_def split_def e_def)
    with that m show thesis
      using elevated_return_words [of meta f _ s ?m g2] unfolding e_def by metis
  next
    case True
    then obtain m' rs' ra g3 where 3: "buildReturnShape ?m meta f r g2 = Some (Some (m', rs', ra), g3)"
      and x: "finish_function meta f raw (imports_of g) s m' rs' ra g3 = (Some x, g')"
      using assms 1 2 by (auto simp: buildFunction_def Let_def bind_eq_Some_conv split: option.split_asm)
    from that [OF x] buildReturnShape_words [OF 3] m show thesis by simp
  qed
  with finish_function_shape show ?thesis by metis
qed

section \<open>Modules\<close>

lemma mset_update_procs:
  "mset (concat (map (snd \<circ> snd) (AList.update k (sp, case map_of d k of None \<Rightarrow> ps | Some (s, qs) \<Rightarrow> qs @ ps) d))) =
     mset (concat (map (snd \<circ> snd) d)) + mset ps"
  by (induction d) (auto split: option.split)

lemma mset_add_proc:
  "mset (concat (map (snd \<circ> snd) (add_proc e d))) = add_mset (proc_of e) (mset (concat (map (snd \<circ> snd) d)))"
proof (cases "map_of d (dll_key e)")
  case None
  then show ?thesis using mset_update_procs [of "dll_key e" "fn_DLL (fst e)" "[proc_of e]" d]
    by (simp add: add_proc_def)
next
  case (Some x)
  then show ?thesis using mset_update_procs [of "dll_key e" "fst x" "[proc_of e]" d]
    by (cases x) (simp add: add_proc_def)
qed

lemma mset_fold_add_proc:
  "mset (concat (map (snd \<circ> snd) (fold add_proc es d))) = mset (concat (map (snd \<circ> snd) d)) + mset (map proc_of es)"
  by (induction es arbitrary: d) (simp_all add: mset_add_proc)

lemma mset_concat_cong: "(\<And>x. mset (f x) = mset (h x)) \<Longrightarrow> mset (concat (map f xs)) = mset (concat (map h xs))"
  by (induction xs) simp_all

lemma mset_concat_map_mset: "mset (concat (map f xs)) = (\<Sum>x\<in>#mset xs. mset (f x))"
  by (induction xs) simp_all

lemma mset_group_dlls: "mset (concat (map dll_Procs (group_dlls es))) = mset (map proc_of (dispatched es))"
proof -
  let ?d = "fold add_proc (dispatched es) []"
  have "mset (concat (map dll_Procs (group_dlls es))) = mset (concat (map (\<lambda>x. dll_Procs (dll_model_of x)) (sort_key fst ?d)))"
    by (simp add: group_dlls_def comp_def)
  also have "\<dots> = mset (concat (map (snd \<circ> snd) (sort_key fst ?d)))"
    by (rule mset_concat_cong) (auto simp: dll_model_of_def split: prod.split)
  also have "\<dots> = mset (concat (map (snd \<circ> snd) ?d))" by (simp only: mset_concat_map_mset mset_sort)
  also have "\<dots> = mset (map proc_of (dispatched es))" by (simp only: mset_fold_add_proc) simp
  finally show ?thesis .
qed

text \<open>
  What relates an emitted function to its declaration: one that dispatches has a module, its procedure
  variable is named after it, and its name is the exported one, with or without the \<open>W\<close> suffix; one
  that does not is a header inline.
\<close>

definition emitted_from :: "function_decl \<Rightarrow> function_model \<Rightarrow> bool" where
  "emitted_from f m \<longleftrightarrow> (fnm_ReturnKind m = RetInline \<longleftrightarrow> \<not> IsLoadableModule (fn_DLL f)) \<and>
     (fnm_ReturnKind m \<noteq> RetInline \<longrightarrow> fnm_ProcVar m = ''proc'' @ fnm_GoName m \<and>
        (fnm_GoName m = Export (fn_Name f) \<or> fnm_GoName m = Export (fn_UnsuffixedName f)))"

lemma buildInlineFunction_kind:
  "buildInlineFunction meta f raw g = Some (Some m, g') \<Longrightarrow> fnm_ReturnKind m = RetInline"
proof -
  assume b: "buildInlineFunction meta f raw g = Some (Some m, g')"
  then have c: "\<not> fn_Constant f = []" "\<not> fn_Params f \<noteq> []"
    by (auto simp: buildInlineFunction_def split: if_split_asm)
  with b obtain r g1 where
    r: "resolve_type (fn_Return f) \<lparr>cx_Namespace = ns_Namespace meta, cx_IsReturn = True\<rparr> (with_imports [] g) = Some (r, g1)"
    by (auto simp: buildInlineFunction_def bind_eq_Some_conv Let_def)
  have k: "\<not> (res_Kind r = KindUnsupported \<or> res_Kind r = KindVoid)"
    using b c r by (auto simp: buildInlineFunction_def Let_def)
  obtain e where e: "inlineConstantExpr f r g1 = Some e"
    using b c r k by (auto simp: buildInlineFunction_def Let_def bind_eq_Some_conv)
  obtain n g2 where n: "claimFunctionName meta f raw g1 = (n, g2)" by fastforce
  have "\<exists>t n. m = inline_model f r t n"
    using b c r k e n by (cases e; cases n) (auto simp: buildInlineFunction_def Let_def)
  then show ?thesis by (auto simp: inline_model_def)
qed

lemma function_models_emitted:
  "function_models meta fs seen g = Some (es, g') \<Longrightarrow> e \<in> set es \<Longrightarrow>
     fst e \<in> set fs \<and> emitted_from (fst e) (snd e)"
proof (induction fs arbitrary: seen g es)
  case (Cons f fs)
  let ?raw = "Export (fn_Name f)"
  show ?case
  proof (cases "\<not> amd64Compatible (av_Architectures (fn_Availability f)) \<or> ?raw \<in> set seen")
    case True
    with Cons show ?thesis by auto
  next
    case False
    then obtain m g1 es1 where
      m: "(if IsLoadableModule (fn_DLL f) then buildFunction meta f ?raw g else buildInlineFunction meta f ?raw g) = Some (m, g1)"
      and r: "function_models meta fs (?raw # seen) g1 = Some (es1, g')"
      and es: "es = (case m of None \<Rightarrow> es1 | Some m \<Rightarrow> (f, m) # es1)"
      using Cons.prems(1) by (auto simp: Let_def bind_eq_Some_conv)
    show ?thesis
    proof (cases "e \<in> set es1")
      case True
      with Cons.IH [OF r] show ?thesis by simp
    next
      case False
      then obtain m' where e: "m = Some m'" "e = (f, m')"
        using es Cons.prems(2) by (auto split: option.split_asm)
      with m buildFunction_shape buildInlineFunction_kind have "emitted_from f m'"
        unfolding emitted_from_def by (cases "IsLoadableModule (fn_DLL f)") auto
      with e show ?thesis by simp
    qed
  qed
qed simp

text \<open>The groups: one per upper-cased module name, under the first spelling of it.\<close>

definition grouped :: "(function_decl \<times> function_model) set \<Rightarrow> (string \<times> string \<times> proc_model list) list \<Rightarrow> bool" where
  "grouped E d \<longleftrightarrow> distinct (map fst d) \<and>
     (\<forall>(key, spelling, procs) \<in> set d. procs \<noteq> [] \<and> key = to_upper spelling \<and>
        (\<forall>p \<in> set procs. \<exists>e \<in> E. to_upper (fn_DLL (fst e)) = key \<and> p = proc_of e))"

lemma groupedD:
  "grouped E d \<Longrightarrow> (key, spelling, procs) \<in> set d \<Longrightarrow> procs \<noteq> [] \<and> key = to_upper spelling \<and>
     (\<forall>p \<in> set procs. \<exists>e \<in> E. to_upper (fn_DLL (fst e)) = key \<and> p = proc_of e)"
  unfolding grouped_def by (drule conjunct2, drule bspec, assumption, unfold prod.case, assumption)

lemma set_update_subset: "set (AList.update k v d) \<subseteq> insert (k, v) {x \<in> set d. fst x \<noteq> k}"
  if "distinct (map fst d)"
  using that by (induction d) (auto, force)

lemma grouped_add_proc:
  assumes "grouped E d"
  shows "grouped (insert e E) (add_proc e d)"
proof -
  let ?v = "case map_of d (dll_key e) of None \<Rightarrow> (fn_DLL (fst e), [proc_of e])
      | Some (spelling, procs) \<Rightarrow> (spelling, procs @ [proc_of e])"
  have d: "distinct (map fst d)" using assms by (simp add: grouped_def)
  have old: "procs \<noteq> [] \<and> key = to_upper spelling \<and> (\<forall>p \<in> set procs. \<exists>e \<in> E. to_upper (fn_DLL (fst e)) = key \<and> p = proc_of e)"
    if "(key, spelling, procs) \<in> set d" for key spelling procs
    by (rule groupedD [OF assms that])
  have new: "snd ?v \<noteq> [] \<and> dll_key e = to_upper (fst ?v) \<and>
      (\<forall>p \<in> set (snd ?v). \<exists>e' \<in> insert e E. to_upper (fn_DLL (fst e')) = dll_key e \<and> p = proc_of e')"
  proof (cases "map_of d (dll_key e)")
    case None
    then show ?thesis by (simp add: dll_key_def)
  next
    case (Some x)
    obtain sp ps where x: "x = (sp, ps)" by fastforce
    from old [OF map_of_SomeD [OF Some [unfolded x]]] show ?thesis
      using Some x by (auto simp: dll_key_def)
  qed
  have "distinct (map fst (add_proc e d))" using d by (simp add: add_proc_def distinct_update)
  moreover have "procs \<noteq> [] \<and> key = to_upper spelling \<and>
      (\<forall>p \<in> set procs. \<exists>e' \<in> insert e E. to_upper (fn_DLL (fst e')) = key \<and> p = proc_of e')"
    if "(key, spelling, procs) \<in> set (add_proc e d)" for key spelling procs
  proof (cases "(key, spelling, procs) \<in> set d")
    case True
    from old [OF this] show ?thesis by auto
  next
    case False
    with that set_update_subset [OF d, of "dll_key e" ?v] have "(key, spelling, procs) = (dll_key e, ?v)"
      unfolding add_proc_def by auto
    then have "key = dll_key e" "fst ?v = spelling" "snd ?v = procs" by (metis fst_conv snd_conv)+
    with new show ?thesis by metis
  qed
  ultimately show ?thesis unfolding grouped_def by fast
qed

lemma sort_key_empty: "sort_key f xs = [] \<longleftrightarrow> xs = []"
  by (metis length_sort length_0_conv)

lemma grouped_fold_add_proc: "grouped E d \<Longrightarrow> grouped (set es \<union> E) (fold add_proc es d)"
proof (induction es arbitrary: E d)
  case (Cons e es)
  from Cons.IH [OF grouped_add_proc [OF Cons.prems, of e]] show ?case by simp
qed simp

lemma group_dlls_grouped:
  shows "distinct (map (to_upper \<circ> dll_FileName) (group_dlls es))"
    and "sorted (map (to_upper \<circ> dll_FileName) (group_dlls es))"
    and "d \<in> set (group_dlls es) \<Longrightarrow> dll_Procs d \<noteq> [] \<and> dll_VarName d = dllVarName (dll_FileName d) \<and>
      sorted (map prm_VarName (dll_Procs d)) \<and>
      (\<forall>p \<in> set (dll_Procs d). \<exists>e \<in> set (dispatched es). to_upper (fn_DLL (fst e)) = to_upper (dll_FileName d) \<and> p = proc_of e)"
proof -
  let ?d = "fold add_proc (dispatched es) []"
  have g: "grouped (set (dispatched es)) ?d"
    using grouped_fold_add_proc [of "{}" "[]" "dispatched es"] by (simp add: grouped_def)
  have key: "(to_upper \<circ> dll_FileName) (dll_model_of x) = fst x" if "x \<in> set ?d" for x
  proof -
    obtain k sp ps where x: "x = (k, sp, ps)" by (cases x)
    from groupedD [OF g that [unfolded x]] show ?thesis by (simp add: x dll_model_of_def)
  qed
  then have keys: "map (to_upper \<circ> dll_FileName) (group_dlls es) = map fst (sort_key fst ?d)"
    by (simp add: group_dlls_def)
  show "sorted (map (to_upper \<circ> dll_FileName) (group_dlls es))" unfolding keys by simp
  have "mset (map fst (sort_key fst ?d)) = mset (map fst ?d)" by simp
  from mset_eq_imp_distinct_iff [OF this] show "distinct (map (to_upper \<circ> dll_FileName) (group_dlls es))"
    using g by (simp only: keys grouped_def)
  assume "d \<in> set (group_dlls es)"
  then have "d \<in> dll_model_of ` set ?d" by (simp add: group_dlls_def)
  then obtain y where y: "y \<in> set ?d" "d = dll_model_of y" by (rule imageE)
  obtain key sp ps where "y = (key, sp, ps)" by (cases y)
  with y have x: "(key, sp, ps) \<in> set ?d" "d = dll_model_of (key, sp, ps)" by simp_all
  note ps = groupedD [OF g x(1)]
  then have k: "to_upper sp = key" by (elim conjE) (rule sym)
  from ps show "dll_Procs d \<noteq> [] \<and> dll_VarName d = dllVarName (dll_FileName d) \<and>
      sorted (map prm_VarName (dll_Procs d)) \<and>
      (\<forall>p \<in> set (dll_Procs d). \<exists>e \<in> set (dispatched es). to_upper (fn_DLL (fst e)) = to_upper (dll_FileName d) \<and> p = proc_of e)"
    unfolding x(2) dll_model_of_def prod.case by (simp add: sort_key_empty k)
qed

section \<open>The functions of a package\<close>

definition procs_table_taken :: "namespace_meta \<Rightarrow> string" where
  "procs_table_taken meta = ''package '' @ ns_Namespace meta @ '': Procs table name already used, probe table not emitted''"

lemma buildFunctionModels_parts:
  assumes "buildFunctionModels meta g = Some ((fs, dlls, procs), g')"
  obtains es g1 where "function_models meta (ns_Functions meta) [] g = Some (es, g1)"
    "fs = sort_key fnm_GoName (map snd es)" "dlls = group_dlls es"
    "procs = [] \<and> (dispatched es = [] \<or> procs_table_taken meta \<in> set (g_Diagnostics g')) \<or>
     procs = sort_key prm_GoName (map proc_of (dispatched es)) \<and> ''Procs'' \<notin> set (g_claimedNames g1)"
    "set (g_claimedNames g1) \<subseteq> set (g_claimedNames g')"
proof -
  from assms obtain es g1 where 1: "function_models meta (ns_Functions meta) [] g = Some (es, g1)"
    by (auto simp: buildFunctionModels_def bind_eq_Some_conv)
  let ?procs = "sort_key prm_GoName (map proc_of (dispatched es))"
  have empty: "?procs = [] \<longleftrightarrow> dispatched es = []" by (simp add: sort_key_empty)
  obtain ok g2 where c: "claimName ''Procs'' g1 = (ok, g2)" by fastforce
  have g2: "set (g_claimedNames g1) \<subseteq> set (g_claimedNames g2)" "ok \<longleftrightarrow> ''Procs'' \<notin> set (g_claimedNames g1)"
    using c by (auto simp: claimName_def split: if_split_asm)
  have r: "fs = sort_key fnm_GoName (map snd es) \<and> dlls = group_dlls es \<and>
      (procs, g') = (if ?procs = [] then ([], g1) else if ok then (?procs, g2) else ([], diag (procs_table_taken meta) g2))"
    using assms 1 c by (auto simp: buildFunctionModels_def procs_table_taken_def Let_def split: if_split_asm)
  then have "procs = [] \<and> (dispatched es = [] \<or> procs_table_taken meta \<in> set (g_Diagnostics g')) \<or>
      procs = ?procs \<and> ''Procs'' \<notin> set (g_claimedNames g1)"
    using g2(2) unfolding empty by (auto simp: diag_def split: if_split_asm)
  moreover have "set (g_claimedNames g1) \<subseteq> set (g_claimedNames g')"
    using r g2(1) by (auto simp: diag_def split: if_split_asm)
  ultimately show thesis using 1 r that by blast
qed

text \<open>
  \<^bold>\<open>C15\<close>: the functions of a package have different names, none of them taken before by a type, an enum
  member, a constant or an interface identifier, and every function name is taken afterwards.
\<close>

theorem buildFunctionModels_names:
  assumes "buildFunctionModels meta g = Some ((fs, dlls, procs), g')"
  shows "distinct (map fnm_GoName fs) \<and> set (map fnm_GoName fs) \<inter> set (g_claimedNames g) = {} \<and>
    set (g_claimedNames g) \<union> set (map fnm_GoName fs) \<subseteq> set (g_claimedNames g')"
proof -
  obtain es g1 where 1: "function_models meta (ns_Functions meta) [] g = Some (es, g1)"
    "fs = sort_key fnm_GoName (map snd es)" "set (g_claimedNames g1) \<subseteq> set (g_claimedNames g')"
    using buildFunctionModels_parts [OF assms] by metis
  have eq: "mset (map fnm_GoName fs) = mset (map (fnm_GoName \<circ> snd) es)" by (simp add: 1(2) multiset.map_comp)
  have "distinct (map fnm_GoName fs) = distinct (map (fnm_GoName \<circ> snd) es)"
    using mset_eq_imp_distinct_iff [OF eq] .
  moreover have "set (map fnm_GoName fs) = set (map (fnm_GoName \<circ> snd) es)" using mset_eq_setD [OF eq] .
  ultimately show ?thesis using function_models_names [OF 1(1)] 1(3) unfolding fresh_names_def by auto
qed


text \<open>
  A function that goes through the register-aware call has at most 45 argument words: four for
  the registers, 42 for the stack, less one for a hidden result pointer.
\<close>

theorem buildFunction_call_words:
  assumes "buildFunction meta f raw g = Some (Some m, g')" "fnm_SpecDecl m \<noteq> []"
  shows "length (fnm_ArgExprs m) \<le> 45"
  using buildFunction_shape [OF assms(1)] assms(2) by (simp add: maxCallWords_def)

definition plain_function :: "string \<Rightarrow> string \<Rightarrow> param list \<Rightarrow> function_decl" where
  "plain_function n dll ps = \<lparr>fn_Name = n, fn_DLL = dll, fn_EntryPoint = [], fn_SetLastError = False,
     fn_Return = Native ''UInt32'', fn_Params = ps, fn_Availability = no_availability, fn_UnsuffixedName = [],
     fn_Constant = []\<rparr>"

definition function_sample :: namespace_meta where
  "function_sample = (empty_namespace ''A'')\<lparr>ns_Functions :=
     [plain_function ''GetTick'' ''KERNEL32.dll'' [], plain_function ''Beep'' ''kernel32.dll'' [],
      plain_function ''Inline'' ''FORCEINLINE'' []]\<rparr>"

lemma function_sample_run:
  "map_option (\<lambda>((fs, dlls, procs), g). (map fnm_GoName fs, map dll_FileName dlls, map (map prm_VarName \<circ> dll_Procs) dlls))
     (buildFunctionModels function_sample (New (empty_registry []) [] [])) =
   Some ([''Beep'', ''GetTick''], [''KERNEL32.dll''], [[''procBeep'', ''procGetTick'']])"
  by code_simp

lemma buildFunctionModels_names_witness:
  "\<exists>fs dlls procs g'. buildFunctionModels function_sample (New (empty_registry []) [] []) = Some ((fs, dlls, procs), g') \<and>
     map fnm_GoName fs = [''Beep'', ''GetTick''] \<and> ''Beep'' \<in> set (g_claimedNames g')"
proof -
  obtain fs dlls procs g' where
    m: "buildFunctionModels function_sample (New (empty_registry []) [] []) = Some ((fs, dlls, procs), g')"
    and n: "map fnm_GoName fs = [''Beep'', ''GetTick'']" using function_sample_run by auto
  from buildFunctionModels_names [OF m] have "''Beep'' \<in> set (g_claimedNames g')" unfolding n by simp
  then show ?thesis by (intro exI [of _ fs] exI [of _ dlls] exI [of _ procs] exI [of _ g'] conjI m n)
qed


definition float_function :: function_decl where
  "float_function = (plain_function ''Scale'' ''a.dll'' [])\<lparr>fn_Return := Native ''Double''\<rparr>"

lemma buildFunction_call_words_witness:
  "\<exists>m g'. buildFunction (empty_namespace ''A'') float_function ''Scale'' (New (empty_registry []) [] []) = Some (Some m, g') \<and>
     fnm_SpecDecl m \<noteq> [] \<and> length (fnm_ArgExprs m) \<le> 45"
proof -
  have "map_option (\<lambda>(m, g). map_option (\<lambda>m. fnm_SpecDecl m \<noteq> []) m)
      (buildFunction (empty_namespace ''A'') float_function ''Scale'' (New (empty_registry []) [] [])) = Some (Some True)"
    by code_simp
  then obtain m g' where
    m: "buildFunction (empty_namespace ''A'') float_function ''Scale'' (New (empty_registry []) [] []) = Some (Some m, g')"
    and s: "fnm_SpecDecl m \<noteq> []" by auto
  from buildFunction_call_words [OF m s] show ?thesis by (intro exI [of _ m] exI [of _ g'] conjI m s)
qed

end
