(* ===== verification/Call.thy ===== *)
theory Call
  imports Prelude "HOL-Library.Word"
begin

unbundle bit_operations_syntax

text \<open>
  The register-aware call of \<open>bindings/runtime/win32/call.go\<close>: the planners that assign every argument
  to the registers and the stack of the x64 and the AArch64 convention, the copies of by-value
  composites, and what is read back after the call.

  Memory is a map from 64-bit addresses to bytes. A composite argument's word is the address of the
  value. The address of the k-th buffer \<open>make\<close> allocates is \<open>alloc k\<close>, and the foreign function is a
  parameter: from the planned frame and the memory to the registers it leaves, the memory and the
  value of GetLastError. A panic is a left value with its message. Sizes are kept at 32 bits, and where
  the code adds to one the sum wraps: a buffer or a run of stack words that comes out empty is the
  index panic of the code. A panic inside a planner is recorded in the plan, and \<open>Call\<close> returns the
  first one; the rest of that plan is never seen. A float aggregate has at most four elements, as \<open>Arg\<close>
  says, and the addresses in the arguments and in \<open>ret\<close> can be read and written: a fault at a nil or
  unmapped address is not modelled.
\<close>

section \<open>Descriptors\<close>

datatype arg_kind = ArgWord | ArgFloat32 | ArgFloat64 | ArgStruct

record arg_desc =
  ad_Kind :: arg_kind
  ad_Size :: "32 word"
  ad_Align :: "32 word"
  ad_HFA :: "8 word"
  ad_HFA64 :: bool

definition plain_arg :: "arg_kind \<Rightarrow> arg_desc" where
  "plain_arg k = \<lparr>ad_Kind = k, ad_Size = 0, ad_Align = 0, ad_HFA = 0, ad_HFA64 = False\<rparr>"

definition Struct :: "32 word \<Rightarrow> 32 word \<Rightarrow> 8 word \<Rightarrow> bool \<Rightarrow> arg_desc" where
  "Struct n a h h64 = \<lparr>ad_Kind = ArgStruct, ad_Size = n, ad_Align = a, ad_HFA = h, ad_HFA64 = h64\<rparr>"

record call_spec =
  cs_Args :: "arg_desc list"
  cs_Ret :: arg_desc

record call_result =
  rs_R1 :: "64 word"
  rs_R2 :: "64 word"
  rs_F0 :: "64 word"
  rs_Err :: "64 word"

definition Tuple :: "call_result \<Rightarrow> 64 word \<times> 64 word \<times> 64 word" where
  "Tuple r = (rs_R1 r, rs_R2 r, rs_Err r)"

definition maxStackWords :: nat where
  "maxStackWords = 42"

definition register_sized :: "32 word \<Rightarrow> bool" where
  "register_sized n \<longleftrightarrow> n \<in> {1, 2, 4, 8}"

section \<open>Memory\<close>

type_synonym memory = "64 word \<Rightarrow> 8 word"

text \<open>Little-endian words: the byte at the address is the low one.\<close>

fun loadWord :: "memory \<Rightarrow> 64 word \<Rightarrow> nat \<Rightarrow> 64 word" where
  "loadWord m p 0 = 0"
| "loadWord m p (Suc n) = ucast (m p) OR push_bit 8 (loadWord m (p + 1) n)"

fun storeWord :: "memory \<Rightarrow> 64 word \<Rightarrow> 64 word \<Rightarrow> nat \<Rightarrow> memory" where
  "storeWord m p w 0 = m"
| "storeWord m p w (Suc n) = storeWord (m(p := ucast w)) (p + 1) (drop_bit 8 w) n"

definition copyBytes :: "memory \<Rightarrow> 64 word \<Rightarrow> 64 word \<Rightarrow> nat \<Rightarrow> memory" where
  "copyBytes m dst src n = (\<lambda>a. if unat (a - dst) < n then m (src + (a - dst)) else m a)"

definition zero_fill :: "memory \<Rightarrow> 64 word \<Rightarrow> nat \<Rightarrow> memory" where
  "zero_fill m p n = (\<lambda>a. if unat (a - p) < n then 0 else m a)"

text \<open>The aligned address inside a buffer that starts at \<open>base\<close>.\<close>

definition align_up :: "64 word \<Rightarrow> 64 word \<Rightarrow> 64 word" where
  "align_up base al = base + (al - base mod al) mod al"

text \<open>
  The buffer is as long as the 32-bit sum of size and alignment; \<open>&buffer[0]\<close> and \<open>&buffer[offset]\<close> panic
  outside it. The copy itself is not checked.
\<close>

definition alignedCopy :: "memory \<Rightarrow> 64 word \<Rightarrow> 64 word \<Rightarrow> 32 word \<Rightarrow> 32 word \<Rightarrow> string + 64 word \<times> memory" where
  "alignedCopy m base p n al =
     (let len = unat (n + al); aligned = align_up base (ucast al)
      in if len = 0 \<or> len \<le> unat (aligned - base) then Inl ''index out of range''
         else Inr (aligned, copyBytes (zero_fill m base len) aligned p (unat n)))"

definition hfaElement :: "memory \<Rightarrow> 64 word \<Rightarrow> nat \<Rightarrow> bool \<Rightarrow> 64 word" where
  "hfaElement m p e is64 = (if is64 then loadWord m (p + of_nat (e * 8)) 8 else loadWord m (p + of_nat (e * 4)) 4)"

definition word_count :: "32 word \<Rightarrow> nat" where
  "word_count n = unat ((n + 7) div 8)"

text \<open>A composite's bytes as whole words, the last one padded with zeros.\<close>

definition composite_words :: "memory \<Rightarrow> 64 word \<Rightarrow> 32 word \<Rightarrow> 64 word list" where
  "composite_words m p n =
     map (\<lambda>k. loadWord m (p + of_nat (8 * k)) (min 8 (unat n - 8 * k))) [0..<word_count n]"

text \<open>With no word to append, \<open>&stack[start]\<close> panics.\<close>

definition appendComposite :: "64 word list \<Rightarrow> memory \<Rightarrow> 64 word \<Rightarrow> 32 word \<Rightarrow> 32 word \<Rightarrow> string + 64 word list" where
  "appendComposite stack m p n al =
     (if word_count n = 0 then Inl ''index out of range''
      else Inr ((if 16 \<le> al \<and> odd (length stack) then stack @ [0] else stack) @ composite_words m p n))"

section \<open>Frames\<close>

text \<open>
  What the trampoline reads, with the stack words inline, and the state of a planner: the memory, the
  addresses of the buffers kept alive and the panic that ended it, if any.
\<close>

record call_frame =
  fr_fn :: "64 word"
  fr_ints :: "64 word list"
  fr_floats :: "64 word list"
  fr_stack :: "64 word list"
  fr_x8 :: "64 word"

record call_regs =
  cr_r1 :: "64 word"
  cr_r2 :: "64 word"
  cr_f :: "64 word list"

record plan =
  pl_frame :: call_frame
  pl_mem :: memory
  pl_keep :: "64 word list"
  pl_panic :: "string option"

definition new_frame :: "64 word \<Rightarrow> call_frame" where
  "new_frame fn = \<lparr>fr_fn = fn, fr_ints = replicate 8 0, fr_floats = replicate 8 0, fr_stack = [], fr_x8 = 0\<rparr>"

definition new_plan :: "64 word \<Rightarrow> memory \<Rightarrow> plan" where
  "new_plan fn m = \<lparr>pl_frame = new_frame fn, pl_mem = m, pl_keep = [], pl_panic = None\<rparr>"

text \<open>The first panic is the one that is seen.\<close>

definition panicking :: "string \<Rightarrow> plan \<Rightarrow> plan" where
  "panicking e p = p\<lparr>pl_panic := (case pl_panic p of None \<Rightarrow> Some e | Some first \<Rightarrow> Some first)\<rparr>"

definition push_stack :: "64 word list \<Rightarrow> plan \<Rightarrow> plan" where
  "push_stack ws p = p\<lparr>pl_frame := (pl_frame p)\<lparr>fr_stack := fr_stack (pl_frame p) @ ws\<rparr>\<rparr>"

definition set_int :: "nat \<Rightarrow> 64 word \<Rightarrow> plan \<Rightarrow> plan" where
  "set_int i w p = p\<lparr>pl_frame := (pl_frame p)\<lparr>fr_ints := (fr_ints (pl_frame p))[i := w]\<rparr>\<rparr>"

definition set_float :: "nat \<Rightarrow> 64 word \<Rightarrow> plan \<Rightarrow> plan" where
  "set_float i w p = p\<lparr>pl_frame := (pl_frame p)\<lparr>fr_floats := (fr_floats (pl_frame p))[i := w]\<rparr>\<rparr>"

text \<open>A copy of a composite in a fresh buffer; the result is the address of the copy.\<close>

definition keep_copy :: "(nat \<Rightarrow> 64 word) \<Rightarrow> 64 word \<Rightarrow> 32 word \<Rightarrow> 32 word \<Rightarrow> plan \<Rightarrow> 64 word \<times> plan" where
  "keep_copy alloc value n al p =
     (let base = alloc (length (pl_keep p)) in
      case alignedCopy (pl_mem p) base value n al of
        Inl e \<Rightarrow> (0, panicking e p)
      | Inr (aligned, m) \<Rightarrow> (aligned, p\<lparr>pl_mem := m, pl_keep := pl_keep p @ [base]\<rparr>))"

section \<open>x64\<close>

definition amd64_word :: "(nat \<Rightarrow> 64 word) \<Rightarrow> arg_desc \<Rightarrow> 64 word \<Rightarrow> plan \<Rightarrow> 64 word \<times> plan" where
  "amd64_word alloc a w p =
     (if ad_Kind a = ArgStruct then
        (if register_sized (ad_Size a) then (loadWord (pl_mem p) w (unat (ad_Size a)), p)
         else keep_copy alloc w (ad_Size a) 16 p)
      else (w, p))"

fun amd64_words :: "(nat \<Rightarrow> 64 word) \<Rightarrow> (arg_desc \<times> 64 word) list \<Rightarrow> plan \<Rightarrow> 64 word list \<times> plan" where
  "amd64_words alloc [] p = ([], p)"
| "amd64_words alloc ((a, w) # rest) p =
     (let (word, p) = amd64_word alloc a w p; (words, p) = amd64_words alloc rest p in (word # words, p))"

definition hidden_result :: "arg_desc \<Rightarrow> bool" where
  "hidden_result r \<longleftrightarrow> ad_Kind r = ArgStruct \<and> \<not> register_sized (ad_Size r)"

definition place_amd64 :: "64 word list \<Rightarrow> plan \<Rightarrow> plan" where
  "place_amd64 words p =
     push_stack (drop 4 words)
       (fold (\<lambda>i. set_float i (words ! i) \<circ> set_int i (words ! i)) [0..<min 4 (length words)] p)"

definition planAMD64 :: "(nat \<Rightarrow> 64 word) \<Rightarrow> call_spec \<Rightarrow> 64 word \<Rightarrow> 64 word list \<Rightarrow> plan \<Rightarrow> plan" where
  "planAMD64 alloc spec ret args p =
     (let (words, p) = amd64_words alloc (zip (cs_Args spec) args) p
      in place_amd64 (if hidden_result (cs_Ret spec) then ret # words else words) p)"

definition finishAMD64 :: "call_regs \<Rightarrow> call_spec \<Rightarrow> 64 word \<Rightarrow> memory \<Rightarrow> memory" where
  "finishAMD64 regs spec ret m =
     (if ad_Kind (cs_Ret spec) = ArgStruct \<and> register_sized (ad_Size (cs_Ret spec))
      then storeWord m ret (cr_r1 regs) (unat (ad_Size (cs_Ret spec))) else m)"

section \<open>AArch64\<close>

text \<open>The planner with its two register counters.\<close>

record arm_plan =
  ap_ngrn :: nat
  ap_nsrn :: nat
  ap_plan :: plan

definition put_int :: "64 word \<Rightarrow> arm_plan \<Rightarrow> arm_plan" where
  "put_int w s =
     (if ap_ngrn s < 8 then s\<lparr>ap_plan := set_int (ap_ngrn s) w (ap_plan s), ap_ngrn := ap_ngrn s + 1\<rparr>
      else s\<lparr>ap_plan := push_stack [w] (ap_plan s)\<rparr>)"

definition put_ints :: "64 word list \<Rightarrow> arm_plan \<Rightarrow> arm_plan" where
  "put_ints ws s = fold (\<lambda>w s. s\<lparr>ap_plan := set_int (ap_ngrn s) w (ap_plan s), ap_ngrn := ap_ngrn s + 1\<rparr>) ws s"

definition put_floats :: "64 word list \<Rightarrow> arm_plan \<Rightarrow> arm_plan" where
  "put_floats ws s = fold (\<lambda>w s. s\<lparr>ap_plan := set_float (ap_nsrn s) w (ap_plan s), ap_nsrn := ap_nsrn s + 1\<rparr>) ws s"

definition put_composite :: "64 word \<Rightarrow> arg_desc \<Rightarrow> arm_plan \<Rightarrow> arm_plan" where
  "put_composite value a s =
     (let p = ap_plan s; fr = pl_frame p in
      case appendComposite (fr_stack fr) (pl_mem p) value (ad_Size a) (ad_Align a) of
        Inl e \<Rightarrow> s\<lparr>ap_plan := panicking e p\<rparr>
      | Inr stack \<Rightarrow> s\<lparr>ap_plan := p\<lparr>pl_frame := fr\<lparr>fr_stack := stack\<rparr>\<rparr>\<rparr>)"

definition arm_struct :: "(nat \<Rightarrow> 64 word) \<Rightarrow> arg_desc \<Rightarrow> 64 word \<Rightarrow> arm_plan \<Rightarrow> arm_plan" where
  "arm_struct alloc a value s =
     (if 0 < ad_HFA a then
        (let elements = unat (ad_HFA a) in
         if ap_nsrn s + elements \<le> 8
         then put_floats (map (\<lambda>e. hfaElement (pl_mem (ap_plan s)) value e (ad_HFA64 a)) [0..<elements]) s
         else put_composite value a (s\<lparr>ap_nsrn := 8\<rparr>))
      else if 16 < ad_Size a then
        (let (aligned, p) = keep_copy alloc value (ad_Size a) 8 (ap_plan s) in put_int aligned (s\<lparr>ap_plan := p\<rparr>))
      else
        (let s = (if 16 \<le> ad_Align a \<and> odd (ap_ngrn s) then s\<lparr>ap_ngrn := ap_ngrn s + 1\<rparr> else s) in
         if ap_ngrn s + word_count (ad_Size a) \<le> 8
         then put_ints (composite_words (pl_mem (ap_plan s)) value (ad_Size a)) s
         else put_composite value a (s\<lparr>ap_ngrn := 8\<rparr>)))"

definition arm_arg :: "(nat \<Rightarrow> 64 word) \<Rightarrow> arg_desc \<times> 64 word \<Rightarrow> arm_plan \<Rightarrow> arm_plan" where
  "arm_arg alloc x s = (case x of (a, w) \<Rightarrow>
     (case ad_Kind a of
        ArgWord \<Rightarrow> put_int w s
      | ArgStruct \<Rightarrow> arm_struct alloc a w s
      | _ \<Rightarrow> if ap_nsrn s < 8 then put_floats [w] s
             else s\<lparr>ap_nsrn := 8, ap_plan := push_stack [w] (ap_plan s)\<rparr>))"

definition indirect_result :: "arg_desc \<Rightarrow> bool" where
  "indirect_result r \<longleftrightarrow> ad_Kind r = ArgStruct \<and> ad_HFA r = 0 \<and> 16 < ad_Size r"

definition planARM64 :: "(nat \<Rightarrow> 64 word) \<Rightarrow> call_spec \<Rightarrow> 64 word \<Rightarrow> 64 word list \<Rightarrow> plan \<Rightarrow> plan" where
  "planARM64 alloc spec ret args p =
     (let p = (if indirect_result (cs_Ret spec) then p\<lparr>pl_frame := (pl_frame p)\<lparr>fr_x8 := ret\<rparr>\<rparr> else p)
      in ap_plan (fold (arm_arg alloc) (zip (cs_Args spec) args) \<lparr>ap_ngrn = 0, ap_nsrn = 0, ap_plan = p\<rparr>))"

definition finishARM64 :: "call_regs \<Rightarrow> call_spec \<Rightarrow> 64 word \<Rightarrow> memory \<Rightarrow> memory" where
  "finishARM64 regs spec ret m =
     (let r = cs_Ret spec in
      if ad_Kind r \<noteq> ArgStruct then m
      else if 0 < ad_HFA r then
        fold (\<lambda>e m. if ad_HFA64 r then storeWord m (ret + of_nat (e * 8)) (cr_f regs ! e) 8
                    else storeWord m (ret + of_nat (e * 4)) (cr_f regs ! e) 4) [0..<unat (ad_HFA r)] m
      else if ad_Size r \<le> 8 then storeWord m ret (cr_r1 regs) (unat (ad_Size r))
      else if ad_Size r \<le> 16 then
        storeWord (storeWord m ret (cr_r1 regs) 8) (ret + 8) (cr_r2 regs) (unat (ad_Size r - 8))
      else m)"

section \<open>The call\<close>

type_synonym foreign = "call_frame \<Rightarrow> memory \<Rightarrow> call_regs \<times> memory \<times> 64 word"

definition Call :: "string \<Rightarrow> (nat \<Rightarrow> 64 word) \<Rightarrow> foreign \<Rightarrow> 64 word \<Rightarrow> call_spec \<Rightarrow> 64 word \<Rightarrow> 64 word list \<Rightarrow>
    memory \<Rightarrow> string + call_result \<times> memory" where
  "Call arch alloc invoke fn spec ret args m =
     (if length args \<noteq> length (cs_Args spec) then Inl ''win32: Call argument count does not match its Spec''
      else if arch \<noteq> ''amd64'' \<and> arch \<noteq> ''arm64'' then Inl (''win32: Call is not supported on '' @ arch)
      else
        (let p = (if arch = ''amd64'' then planAMD64 else planARM64) alloc spec ret args (new_plan fn m) in
         case pl_panic p of
           Some e \<Rightarrow> Inl e
         | None \<Rightarrow>
             if maxStackWords < length (fr_stack (pl_frame p)) then Inl ''win32: Call has too many stack arguments''
             else (case invoke (pl_frame p) (pl_mem p) of
                 (regs, m, err) \<Rightarrow>
                   Inr (\<lparr>rs_R1 = cr_r1 regs, rs_R2 = cr_r2 regs, rs_F0 = cr_f regs ! 0, rs_Err = err\<rparr>,
                        (if arch = ''amd64'' then finishAMD64 else finishARM64) regs spec ret m))))"

end
