(* ===== verification/CallFacts.thy ===== *)
theory CallFacts
  imports Call
begin

unbundle bit_operations_syntax

text \<open>
  What the planners of \<open>Call\<close> guarantee: on x64 every argument reaches the position the convention
  gives it and the stack limit is never exceeded by a call the generator emits; on AArch64 every
  argument has registers or stack words of its own. Copies of composites are aligned and hold the
  bytes of the value.
\<close>

section \<open>Copies\<close>

text \<open>The addresses of a region; regions may wrap around.\<close>

definition region :: "64 word \<Rightarrow> nat \<Rightarrow> 64 word set" where
  "region p n = {a. unat (a - p) < n}"

lemma region_mono: "n \<le> k \<Longrightarrow> region p n \<subseteq> region p k"
  by (auto simp: region_def)

lemma region_nth: "k < n \<Longrightarrow> n \<le> 2 ^ 64 \<Longrightarrow> p + of_nat k \<in> region p n"
  by (simp add: region_def unat_of_nat)

lemma align_up_unat:
  assumes "al = 2 ^ j" "j < 64"
  shows "unat (align_up base (of_nat al)) mod al = 0"
    "unat (align_up base (of_nat al) - base) < al"
proof -
  let ?w = "of_nat al :: 64 word"
  have al': "al < 2 ^ 64" using assms power_strict_increasing [of j 64 "2::nat"] by simp
  then have al: "unat ?w = al" "0 < al" using assms(1) by (simp_all only: unat_of_nat) simp_all
  have off: "unat ((?w - base mod ?w) mod ?w) = (al - unat base mod al) mod al"
  proof -
    have "unat (base mod ?w) = unat base mod al" by (simp add: unat_mod al)
    moreover from this have "base mod ?w \<le> ?w" using al by (simp add: word_le_nat_alt less_imp_le)
    ultimately have "unat (?w - base mod ?w) = al - unat base mod al" by (simp add: unat_sub al)
    then show ?thesis by (simp add: unat_mod al)
  qed
  have diff: "align_up base ?w - base = (?w - base mod ?w) mod ?w" by (simp add: align_up_def)
  show "unat (align_up base ?w - base) < al" by (simp add: diff off al)
  have "unat (align_up base ?w) = (unat base + (al - unat base mod al) mod al) mod 2 ^ 64"
    by (simp only: align_up_def unat_word_ariths(1) off) simp
  moreover have "al dvd 2 ^ 64" using assms le_imp_power_dvd [of j 64 "2::nat"] by simp
  ultimately have "unat (align_up base ?w) mod al = (unat base + (al - unat base mod al) mod al) mod al"
    by (simp add: mod_mod_cancel)
  also have "\<dots> = (unat base mod al + (al - unat base mod al)) mod al" by (simp add: mod_add_eq mod_simps)
  also have "\<dots> = 0" using al by (simp add: less_imp_le)
  finally show "unat (align_up base ?w) mod al = 0" .
qed

text \<open>A copy is aligned, has the bytes of the value, and changes its buffer only.\<close>

lemma alignedCopy_fits:
  assumes al: "unat al = 2 ^ j" and n: "unat n + unat al < 2 ^ 32"
  shows "alignedCopy m base p n al =
    Inr (align_up base (of_nat (unat al)),
         copyBytes (zero_fill m base (unat n + unat al)) (align_up base (of_nat (unat al))) p (unat n))"
proof -
  have u: "ucast al = (of_nat (unat al) :: 64 word)" by simp
  have "(2 :: nat) ^ j < 2 ^ 32" using al n by simp
  then have "j < 32" by (rule power_less_imp_less_exp [rotated]) simp
  then have "unat (align_up base (of_nat (unat al)) - base) < unat al" by (intro align_up_unat(2) [OF al]) simp
  moreover have "unat (n + al) = unat n + unat al" by (rule unat_add_lem [THEN iffD1]) (use n in simp)
  ultimately show ?thesis unfolding alignedCopy_def Let_def u by simp
qed

lemma alignedCopy_correct:
  assumes c: "alignedCopy m base p n32 al32 = Inr (a, m')" and al32: "unat al32 = 2 ^ j" and n32: "unat n32 + unat al32 < 2 ^ 32"
    and sep: "region p (unat n32) \<inter> region base (unat n32 + unat al32) = {}"
  defines "n \<equiv> unat n32" and "al \<equiv> unat al32"
  shows "unat a mod al = 0" "\<And>k. k < n \<Longrightarrow> m' (a + of_nat k) = m (p + of_nat k)"
    "\<And>x. x \<notin> region base (n + al) \<Longrightarrow> m' x = m x" "region a n \<subseteq> region base (n + al)"
proof -
  have a: "a = align_up base (of_nat al)" and m': "m' = copyBytes (zero_fill m base (n + al)) a p n"
    using c alignedCopy_fits [OF al32 n32] by (auto simp: n_def al_def)
  have "(2 :: nat) ^ j < 2 ^ 32" using al32 n32 by simp
  then have "j < 32" by (rule power_less_imp_less_exp [rotated]) simp
  with al32 have al: "al = 2 ^ j" "j < 64" by (simp_all add: al_def)
  have n: "n + al \<le> 2 ^ 63" using n32 by (simp add: n_def al_def)
  note sep = sep [folded n_def al_def]
  show "unat a mod al = 0" using align_up_unat(1) [OF al] by (simp add: a)
  have off: "unat (a - base) < al" using align_up_unat(2) [OF al] by (simp add: a)
  show sub: "region a n \<subseteq> region base (n + al)"
  proof
    fix x
    assume "x \<in> region a n"
    then have x: "unat (x - a) < n" by (simp add: region_def)
    have "unat ((x - a) + (a - base)) = unat (x - a) + unat (a - base)"
      by (rule unat_add_lem [THEN iffD1]) (use x off n in simp)
    then have "unat (x - base) = unat (x - a) + unat (a - base)" by simp
    with x off show "x \<in> region base (n + al)" by (simp add: region_def)
  qed
  show "m' x = m x" if "x \<notin> region base (n + al)" for x
    using that sub by (auto simp: m' copyBytes_def zero_fill_def region_def)
  show "m' (a + of_nat k) = m (p + of_nat k)" if k: "k < n" for k
  proof -
    have u: "unat (of_nat k :: 64 word) = k" using k n by (simp add: unat_of_nat)
    have "p + of_nat k \<in> region p n" using k u by (simp add: region_def)
    then have "p + of_nat k \<notin> region base (n + al)" using sep by blast
    with k u show ?thesis by (simp add: m' copyBytes_def zero_fill_def region_def)
  qed
qed

lemma loadWord_cong:
  "(\<And>k. k < n \<Longrightarrow> m (p + of_nat k) = m' (p + of_nat k)) \<Longrightarrow> loadWord m p n = loadWord m' p n"
proof (induction n arbitrary: p)
  case (Suc n)
  have "loadWord m (p + 1) n = loadWord m' (p + 1) n"
    by (rule Suc.IH) (use Suc.prems [of "Suc _"] in \<open>simp add: algebra_simps\<close>)
  with Suc.prems [of 0] show ?case by simp
qed simp

section \<open>Separate buffers\<close>

text \<open>
  What the Go allocator gives: the buffers of one call do not overlap each other or the values the
  arguments point to. \<open>bound\<close> is at least the size of every buffer, and that size does not wrap at 32 bits.
\<close>

definition struct_size :: "arg_desc \<Rightarrow> nat" where
  "struct_size a = (if ad_Kind a = ArgStruct then unat (ad_Size a) else 0)"

definition separate :: "(nat \<Rightarrow> 64 word) \<Rightarrow> nat \<Rightarrow> (arg_desc \<times> 64 word) list \<Rightarrow> bool" where
  "separate alloc bound xs \<longleftrightarrow> bound \<le> 2 ^ 62 \<and>
     (\<forall>(a, w) \<in> set xs. struct_size a + 16 \<le> bound \<and> struct_size a + 16 < 2 ^ 32) \<and>
     (\<forall>k < length xs. \<forall>l < k. region (alloc k) bound \<inter> region (alloc l) bound = {}) \<and>
     (\<forall>k < length xs. \<forall>(a, w) \<in> set xs. region w (struct_size a) \<inter> region (alloc k) bound = {})"

lemma region_disjoint:
  assumes "unat p + n \<le> unat q" "unat q + k \<le> 2 ^ 64"
  shows "region p n \<inter> region q k = {}" "region q k \<inter> region p n = {}"
proof -
  have "unat (a - q) < k \<Longrightarrow> \<not> unat (a - p) < n" for a
  proof -
    assume k: "unat (a - q) < k"
    have "unat (q + (a - q)) = unat q + unat (a - q)"
      by (rule unat_add_lem [THEN iffD1]) (use k assms(2) in simp)
    then have a: "unat q \<le> unat a" by simp
    then have "p \<le> a" using assms(1) by (simp add: word_le_nat_alt)
    then have "unat (a - p) = unat a - unat p" by (simp add: unat_sub)
    then show "\<not> unat (a - p) < n" using a assms(1) by simp
  qed
  then show "region p n \<inter> region q k = {}" "region q k \<inter> region p n = {}" by (auto simp: region_def)
qed

text \<open>A call with a word and a 24-byte structure, and two buffers for it.\<close>

definition sample_buffers :: "nat \<Rightarrow> 64 word" where
  "sample_buffers k = (if k = 0 then 0x10000 else 0x20000)"

definition sample_spec :: call_spec where
  "sample_spec = \<lparr>cs_Args = [plain_arg ArgWord, Struct 24 8 0 False], cs_Ret = plain_arg ArgWord\<rparr>"

text \<open>Memory that differs from the start only in the first \<open>k\<close> buffers.\<close>

definition same_outside :: "(nat \<Rightarrow> 64 word) \<Rightarrow> nat \<Rightarrow> nat \<Rightarrow> nat \<Rightarrow> memory \<Rightarrow> memory \<Rightarrow> bool" where
  "same_outside alloc bound k l m m' \<longleftrightarrow> (\<forall>x. (\<forall>i \<in> {k..<l}. x \<notin> region (alloc i) bound) \<longrightarrow> m' x = m x)"

lemma same_outside_refl: "same_outside alloc b k k m m"
  by (simp add: same_outside_def)

lemma same_outside_trans:
  "same_outside alloc b k l m1 m2 \<Longrightarrow> same_outside alloc b l n m2 m3 \<Longrightarrow> k \<le> l \<Longrightarrow> l \<le> n \<Longrightarrow>
     same_outside alloc b k n m1 m3"
  by (simp add: same_outside_def)

text \<open>The value an argument's word stands for, in the memory the callee sees.\<close>

definition carries :: "memory \<Rightarrow> nat \<Rightarrow> arg_desc \<times> 64 word \<Rightarrow> 64 word \<Rightarrow> memory \<Rightarrow> bool" where
  "carries m0 al x word m \<longleftrightarrow>
     (case x of (a, w) \<Rightarrow> unat word mod al = 0 \<and>
        (\<forall>k < unat (ad_Size a). m (word + of_nat k) = m0 (w + of_nat k)))"

lemma argument_value_kept:
  assumes sep: "separate alloc bound xs" "(a, w) \<in> set xs" "k \<le> length xs"
    and same: "same_outside alloc bound 0 k m0 m" and j: "j < struct_size a"
  shows "m (w + of_nat j) = m0 (w + of_nat j)"
proof -
  have b: "struct_size a + 16 \<le> bound" "bound \<le> 2 ^ 62"
    and d: "\<And>i. i < length xs \<Longrightarrow> region w (struct_size a) \<inter> region (alloc i) bound = {}"
    using sep by (fastforce simp: separate_def)+
  have "w + of_nat j \<in> region w (struct_size a)" using j b by (intro region_nth) simp_all
  then have "w + of_nat j \<notin> region (alloc i) bound" if "i \<in> {0..<k}" for i
    using d [of i] that sep(3) by fastforce
  with same show ?thesis unfolding same_outside_def by blast
qed

lemma keep_copy_correct:
  assumes c: "keep_copy alloc w (ad_Size a) al32 p = (word, p')" and al: "unat al32 = 2 ^ j" "unat al32 \<le> 16"
    and sep: "separate alloc bound xs" "(a, w) \<in> set xs" "ad_Kind a = ArgStruct" "length (pl_keep p) < length xs"
    and same: "same_outside alloc bound 0 (length (pl_keep p)) m0 (pl_mem p)"
  shows "carries m0 (unat al32) (a, w) word (pl_mem p')" "length (pl_keep p') = Suc (length (pl_keep p))"
    "same_outside alloc bound (length (pl_keep p)) (Suc (length (pl_keep p))) (pl_mem p) (pl_mem p')"
    "region word (unat (ad_Size a)) \<subseteq> region (alloc (length (pl_keep p))) bound" "pl_frame p' = pl_frame p"
    "pl_panic p' = pl_panic p"
proof -
  let ?k = "length (pl_keep p)" and ?n = "unat (ad_Size a)" and ?al = "unat al32"
  have b: "?n + 16 \<le> bound" "?n + 16 < 2 ^ 32" and d: "\<And>k. k < length xs \<Longrightarrow> region w ?n \<inter> region (alloc k) bound = {}"
    using sep by (fastforce simp: separate_def struct_size_def)+
  have n: "?n + ?al < 2 ^ 32" using b al(2) by simp
  obtain m' where m': "alignedCopy (pl_mem p) (alloc ?k) w (ad_Size a) al32 = Inr (word, m')"
    and p': "p' = p\<lparr>pl_mem := m', pl_keep := pl_keep p @ [alloc ?k]\<rparr>"
    using c by (auto simp: keep_copy_def Let_def alignedCopy_fits [OF al(1) n])
  have sub: "region (alloc ?k) (?n + ?al) \<subseteq> region (alloc ?k) bound" using b al(2) by (intro region_mono) simp
  have dis: "region w ?n \<inter> region (alloc ?k) (?n + ?al) = {}" using d [OF sep(4)] sub by blast
  note copy = alignedCopy_correct [OF m' al(1) n dis]
  show "length (pl_keep p') = Suc ?k" "pl_frame p' = pl_frame p" "pl_panic p' = pl_panic p" by (simp_all add: p')
  show "same_outside alloc bound ?k (Suc ?k) (pl_mem p) (pl_mem p')"
    using copy(3) sub by (auto simp: p' same_outside_def)
  show "region word ?n \<subseteq> region (alloc ?k) bound" using copy(4) sub by blast
  have src: "pl_mem p (w + of_nat k) = m0 (w + of_nat k)" if "k < ?n" for k
    using argument_value_kept [OF sep(1,2) _ same, of k] that sep(3,4) by (simp add: struct_size_def)
  show "carries m0 ?al (a, w) word (pl_mem p')"
    using copy(1,2) src by (simp add: carries_def p')
qed

lemma carries_keeps:
  assumes "carries m0 al (a, w) word m" "region word (unat (ad_Size a)) \<subseteq> region (alloc k) bound"
    "same_outside alloc bound (Suc k) l m m'" "\<And>i. i \<in> {Suc k..<l} \<Longrightarrow> region (alloc i) bound \<inter> region (alloc k) bound = {}"
    "unat (ad_Size a) \<le> 2 ^ 62"
  shows "carries m0 al (a, w) word m'"
proof -
  have "m' (word + of_nat j) = m (word + of_nat j)" if "j < unat (ad_Size a)" for j
  proof -
    have "word + of_nat j \<in> region word (unat (ad_Size a))" using that assms(5) by (intro region_nth) simp_all
    then have "word + of_nat j \<in> region (alloc k) bound" using assms(2) by blast
    then have "\<forall>i \<in> {Suc k..<l}. word + of_nat j \<notin> region (alloc i) bound" using assms(4) by blast
    with assms(3) show ?thesis unfolding same_outside_def by blast
  qed
  with assms(1) show ?thesis by (simp add: carries_def)
qed

section \<open>x64\<close>

definition delivered :: "memory \<Rightarrow> arg_desc \<times> 64 word \<Rightarrow> 64 word \<Rightarrow> memory \<Rightarrow> bool" where
  "delivered m0 x word m \<longleftrightarrow>
     (case x of (a, w) \<Rightarrow>
        if ad_Kind a \<noteq> ArgStruct then word = w
        else if register_sized (ad_Size a) then word = loadWord m0 w (unat (ad_Size a))
        else carries m0 16 x word m)"

lemma amd64_words_correct:
  assumes "separate alloc bound ys" "set xs \<subseteq> set ys" "length (pl_keep p) + length xs \<le> length ys"
    "same_outside alloc bound 0 (length (pl_keep p)) m0 (pl_mem p)" "amd64_words alloc xs p = (words, p')"
  shows "list_all2 (\<lambda>x word. delivered m0 x word (pl_mem p')) xs words \<and> pl_frame p' = pl_frame p \<and> pl_panic p' = pl_panic p \<and>
    length (pl_keep p) \<le> length (pl_keep p') \<and> length (pl_keep p') \<le> length (pl_keep p) + length xs \<and>
    same_outside alloc bound (length (pl_keep p)) (length (pl_keep p')) (pl_mem p) (pl_mem p')"
  using assms
proof (induction xs arbitrary: p words p')
  case Nil
  then show ?case by (simp add: same_outside_refl)
next
  case (Cons x xs)
  obtain a w where x: "x = (a, w)" by (cases x)
  obtain word p1 where w1: "amd64_word alloc a w p = (word, p1)" by fastforce
  obtain ws p2 where w2: "amd64_words alloc xs p1 = (ws, p2)" by fastforce
  have res: "words = word # ws" "p' = p2" using Cons.prems(5) x w1 w2 by simp_all
  have ys: "(a, w) \<in> set ys" using Cons.prems(2) x by simp
  let ?k = "length (pl_keep p)"
  show ?case
  proof (cases "ad_Kind a = ArgStruct \<and> \<not> register_sized (ad_Size a)")
    case False
    then have p1: "p1 = p" using w1 by (auto simp: amd64_word_def split: if_splits)
    have IH: "list_all2 (\<lambda>x word. delivered m0 x word (pl_mem p2)) xs ws \<and> pl_frame p2 = pl_frame p \<and> pl_panic p2 = pl_panic p \<and>
      ?k \<le> length (pl_keep p2) \<and> length (pl_keep p2) \<le> ?k + length xs \<and>
      same_outside alloc bound ?k (length (pl_keep p2)) (pl_mem p) (pl_mem p2)"
      using Cons.IH [OF Cons.prems(1) _ _ Cons.prems(4) w2 [unfolded p1]] Cons.prems(2,3) by simp
    have "delivered m0 x word m" for m
    proof (cases "ad_Kind a = ArgStruct")
      case True
      then have "word = loadWord (pl_mem p) w (unat (ad_Size a))"
        using False w1 by (auto simp: amd64_word_def)
      also have "\<dots> = loadWord m0 w (unat (ad_Size a))"
        using argument_value_kept [OF Cons.prems(1) ys _ Cons.prems(4)] Cons.prems(3) True
        by (intro loadWord_cong) (simp add: struct_size_def)
      finally show ?thesis using True False by (simp add: delivered_def x)
    qed (use w1 in \<open>simp add: delivered_def x amd64_word_def\<close>)
    with IH show ?thesis by (simp add: res)
  next
    case True
    then have c: "keep_copy alloc w (ad_Size a) 16 p = (word, p1)" using w1 by (simp add: amd64_word_def)
    have "unat (16 :: 32 word) = 2 ^ 4" by simp
    note copy = keep_copy_correct [OF c this _ Cons.prems(1) ys _ _ Cons.prems(4)]
    have c1: "carries m0 16 (a, w) word (pl_mem p1)" "length (pl_keep p1) = Suc ?k"
      "same_outside alloc bound ?k (Suc ?k) (pl_mem p) (pl_mem p1)"
      "region word (unat (ad_Size a)) \<subseteq> region (alloc ?k) bound" "pl_frame p1 = pl_frame p" "pl_panic p1 = pl_panic p"
      using copy True Cons.prems(3) by simp_all
    have s1: "same_outside alloc bound 0 (length (pl_keep p1)) m0 (pl_mem p1)"
      using same_outside_trans [OF Cons.prems(4) c1(3)] c1(2) by simp
    have IH: "list_all2 (\<lambda>x word. delivered m0 x word (pl_mem p2)) xs ws \<and> pl_frame p2 = pl_frame p1 \<and> pl_panic p2 = pl_panic p1 \<and>
      Suc ?k \<le> length (pl_keep p2) \<and> length (pl_keep p2) \<le> Suc ?k + length xs \<and>
      same_outside alloc bound (Suc ?k) (length (pl_keep p2)) (pl_mem p1) (pl_mem p2)"
      using Cons.IH [OF Cons.prems(1) _ _ s1 w2] Cons.prems(2,3) c1(2) by simp
    have "carries m0 16 (a, w) word (pl_mem p2)"
    proof (rule carries_keeps [where k = ?k and alloc = alloc and bound = bound, OF c1(1,4)])
      show "same_outside alloc bound (Suc ?k) (length (pl_keep p2)) (pl_mem p1) (pl_mem p2)" using IH by blast
      have sz: "struct_size a + 16 \<le> bound" "bound \<le> 2 ^ 62"
        and far: "\<And>i. i < length ys \<Longrightarrow> ?k < i \<Longrightarrow> region (alloc i) bound \<inter> region (alloc ?k) bound = {}"
        using Cons.prems(1) ys by (fastforce simp: separate_def)+
      show "unat (ad_Size a) \<le> 2 ^ 62" using sz True by (simp add: struct_size_def)
      show "region (alloc i) bound \<inter> region (alloc ?k) bound = {}" if "i \<in> {Suc ?k..<length (pl_keep p2)}" for i
        using far [of i] that IH Cons.prems(3) by simp
    qed
    then have "delivered m0 x word (pl_mem p2)" using True by (simp add: delivered_def x)
    moreover have "same_outside alloc bound ?k (length (pl_keep p2)) (pl_mem p) (pl_mem p2)"
      using same_outside_trans [OF c1(3), of "length (pl_keep p2)" "pl_mem p2"] IH by simp
    ultimately show ?thesis using IH c1(5,6) res by simp
  qed
qed

text \<open>The position of the i-th word of an x64 call: a register for the first four, then the stack.\<close>

definition amd64_slot :: "call_frame \<Rightarrow> nat \<Rightarrow> 64 word" where
  "amd64_slot fr i = (if i < 4 then fr_ints fr ! i else fr_stack fr ! (i - 4))"

lemma place_registers:
  "k \<le> 8 \<Longrightarrow> length (fr_ints (pl_frame p)) = 8 \<Longrightarrow> length (fr_floats (pl_frame p)) = 8 \<Longrightarrow>
   (let p' = fold (\<lambda>i. set_float i (words ! i) \<circ> set_int i (words ! i)) [0..<k] p in
    length (fr_ints (pl_frame p')) = 8 \<and> length (fr_floats (pl_frame p')) = 8 \<and>
    (\<forall>i < k. fr_ints (pl_frame p') ! i = words ! i \<and> fr_floats (pl_frame p') ! i = words ! i) \<and>
    fr_stack (pl_frame p') = fr_stack (pl_frame p) \<and> pl_mem p' = pl_mem p \<and> pl_panic p' = pl_panic p)"
  by (induction k) (auto simp: Let_def set_int_def set_float_def nth_list_update less_Suc_eq)

lemma place_amd64_slots:
  assumes "length (fr_ints (pl_frame p)) = 8" "length (fr_floats (pl_frame p)) = 8" "fr_stack (pl_frame p) = []"
  shows "\<And>i. i < length words \<Longrightarrow> amd64_slot (pl_frame (place_amd64 words p)) i = words ! i"
    "\<And>i. i < length words \<Longrightarrow> i < 4 \<Longrightarrow> fr_floats (pl_frame (place_amd64 words p)) ! i = words ! i"
    "length (fr_stack (pl_frame (place_amd64 words p))) = length words - 4"
    "pl_mem (place_amd64 words p) = pl_mem p" "pl_panic (place_amd64 words p) = pl_panic p"
  using place_registers [of "min 4 (length words)" p words] assms
  by (auto simp: Let_def place_amd64_def push_stack_def amd64_slot_def)

text \<open>
  The x64 planner delivers every argument to its position: integers, pointers and float bits as
  they are, with the first four also in the float registers; a composite of 1, 2, 4 or 8 bytes as the
  word with its bytes; any other composite as the 16-byte-aligned address of a copy of its bytes. A
  result that does not fit a register shifts all of them by one, behind the result's address.
\<close>

lemma planAMD64_delivers:
  fixes m :: memory and fn ret :: "64 word"
  assumes len: "length args = length (cs_Args spec)"
    and sep: "separate alloc bound (zip (cs_Args spec) args)" and i: "i < length args"
  defines "p \<equiv> planAMD64 alloc spec ret args (new_plan fn m)"
    and "off \<equiv> (if hidden_result (cs_Ret spec) then 1 else 0 :: nat)"
  shows "delivered m (cs_Args spec ! i, args ! i) (amd64_slot (pl_frame p) (i + off)) (pl_mem p) \<and>
    (i + off < 4 \<longrightarrow> fr_floats (pl_frame p) ! (i + off) = amd64_slot (pl_frame p) (i + off)) \<and>
    (off = 1 \<longrightarrow> amd64_slot (pl_frame p) 0 = ret) \<and>
    length (fr_stack (pl_frame p)) = length args + off - 4"
proof -
  let ?xs = "zip (cs_Args spec) args"
  obtain words p1 where w: "amd64_words alloc ?xs (new_plan fn m) = (words, p1)" by fastforce
  let ?words = "if hidden_result (cs_Ret spec) then ret # words else words"
  have p: "p = place_amd64 ?words p1" by (simp add: p_def planAMD64_def w)
  have c: "list_all2 (\<lambda>x word. delivered m x word (pl_mem p1)) ?xs words" "pl_frame p1 = new_frame fn"
    using amd64_words_correct [OF sep order_refl _ _ w, of m] by (simp_all add: new_plan_def same_outside_refl)
  have fr: "length (fr_ints (pl_frame p1)) = 8" "length (fr_floats (pl_frame p1)) = 8" "fr_stack (pl_frame p1) = []"
    using c(2) by (simp_all add: new_frame_def)
  have lw: "length words = length args" using list_all2_lengthD [OF c(1)] len by simp
  have "?words ! (i + off) = words ! i" "i + off < length ?words" using i lw by (simp_all add: off_def)
  moreover have "delivered m (cs_Args spec ! i, args ! i) (words ! i) (pl_mem p1)"
    using list_all2_nthD [OF c(1), of i] i len by simp
  moreover have "off = 1 \<longrightarrow> ?words ! 0 = ret \<and> 0 < length ?words" by (simp add: off_def)
  ultimately show ?thesis
    using place_amd64_slots [OF fr, where words = ?words] by (simp add: p off_def lw)
qed

text \<open>A composite whose buffer, of its size and 16 bytes more, does not wrap at 32 bits.\<close>

definition copy_fits :: "arg_desc \<Rightarrow> bool" where
  "copy_fits a \<longleftrightarrow> (ad_Kind a = ArgStruct \<longrightarrow> unat (ad_Size a) + 16 < 2 ^ 32)"

lemma keep_copy_panic:
  assumes "ad_Kind a = ArgStruct" "copy_fits a" "al = 8 \<or> al = 16"
  shows "pl_panic (snd (keep_copy alloc w (ad_Size a) al p)) = pl_panic p"
proof -
  have "unat al = 2 ^ (if al = 8 then 3 else 4)" "unat (ad_Size a) + unat al < 2 ^ 32"
    using assms by (auto simp: copy_fits_def)
  from alignedCopy_fits [OF this] show ?thesis by (simp add: keep_copy_def Let_def)
qed

lemma keep_copy_frame: "pl_frame (snd (keep_copy alloc w n al p)) = pl_frame p"
  by (simp add: keep_copy_def Let_def panicking_def split: sum.split prod.split)

lemma amd64_word_panic: "copy_fits a \<Longrightarrow> pl_panic (snd (amd64_word alloc a w p)) = pl_panic p"
  by (simp add: amd64_word_def keep_copy_panic)

lemma amd64_words_length:
  "amd64_words alloc xs p = (ws, p') \<Longrightarrow> length ws = length xs \<and> pl_frame p' = pl_frame p \<and>
     (list_all (copy_fits \<circ> fst) xs \<longrightarrow> pl_panic p' = pl_panic p)"
proof (induction xs arbitrary: p ws p')
  case (Cons x xs)
  obtain a w where x: "x = (a, w)" by (cases x)
  obtain word p1 where w1: "amd64_word alloc a w p = (word, p1)" by fastforce
  obtain ws1 p2 where w2: "amd64_words alloc xs p1 = (ws1, p2)" by fastforce
  have "pl_frame p1 = pl_frame p"
    using w1 by (auto simp: amd64_word_def keep_copy_def Let_def panicking_def split: if_splits prod.splits sum.splits)
  moreover have "copy_fits a \<longrightarrow> pl_panic p1 = pl_panic p" using amd64_word_panic [of a alloc w p] w1 by simp
  ultimately show ?case using Cons.IH [OF w2] Cons.prems x w1 w2 by auto
qed simp

lemma amd64_panic: "pl_panic (planAMD64 alloc spec ret args p) = pl_panic (snd (amd64_words alloc (zip (cs_Args spec) args) p))"
proof -
  have "pl_panic (fold (\<lambda>i. set_float i (ws ! i) \<circ> set_int i (ws ! i)) is q) = pl_panic q" for ws "is" q
    by (induction "is" arbitrary: q) (simp_all add: set_float_def set_int_def)
  then show ?thesis by (simp add: planAMD64_def place_amd64_def push_stack_def Let_def split: prod.split)
qed

lemma separate_fits: "separate alloc bound ys \<Longrightarrow> (a, w) \<in> set ys \<Longrightarrow> copy_fits a"
  by (fastforce simp: separate_def copy_fits_def struct_size_def)

lemma planAMD64_no_panic:
  assumes "separate alloc bound (zip (cs_Args spec) args)"
  shows "pl_panic (planAMD64 alloc spec ret args (new_plan fn m)) = None"
proof -
  obtain words p1 where w: "amd64_words alloc (zip (cs_Args spec) args) (new_plan fn m) = (words, p1)" by fastforce
  have "list_all (copy_fits \<circ> fst) (zip (cs_Args spec) args)"
    using separate_fits [OF assms] by (auto simp: list_all_iff)
  then have "pl_panic p1 = None" using amd64_words_length [OF w] by (simp add: new_plan_def)
  then show ?thesis by (simp add: amd64_panic w)
qed

text \<open>
  \<^bold>\<open>C20\<close>: on x64, a call with at most 45 argument words, the generator's limit, never panics, also when its
  result takes a hidden pointer, as long as no composite comes within 16 bytes of 4 GiB. That bound is sharp: the
  length of the buffer for a composite of 16 bytes less than 4 GiB wraps to zero, and the call panics.
\<close>

theorem Call_amd64_total:
  assumes "length args = length (cs_Args spec)" "length args \<le> 45" "list_all copy_fits (cs_Args spec)"
  shows "(\<exists>r. Call ''amd64'' alloc invoke fn spec ret args m = Inr r) \<and>
    Call ''amd64'' alloc invoke fn \<lparr>cs_Args = [Struct (- 16) al h wide], cs_Ret = res\<rparr> ret [v] m = Inl ''index out of range''"
proof
  let ?p = "planAMD64 alloc spec ret args (new_plan fn m)"
  obtain words p1 where w: "amd64_words alloc (zip (cs_Args spec) args) (new_plan fn m) = (words, p1)" by fastforce
  let ?words = "if hidden_result (cs_Ret spec) then ret # words else words"
  have "list_all (copy_fits \<circ> fst) (zip (cs_Args spec) args)"
    using assms(3) by (auto simp: list_all_iff dest: set_zip_leftD)
  then have l: "length words = length args" "pl_frame p1 = new_frame fn" "pl_panic p1 = None"
    using amd64_words_length [OF w] assms(1) by (simp_all add: new_plan_def)
  have "?p = place_amd64 ?words p1" by (simp add: planAMD64_def w)
  then have "length (fr_stack (pl_frame ?p)) = length ?words - 4"
    using place_amd64_slots(3) [of p1 ?words] l(2) by (simp add: new_frame_def)
  also have "\<dots> \<le> maxStackWords" using l(1) assms(2) by (auto simp: maxStackWords_def)
  finally have st: "length (fr_stack (pl_frame ?p)) \<le> maxStackWords" .
  have "pl_panic ?p = None" using l(3) by (simp add: amd64_panic w)
  with st show "\<exists>r. Call ''amd64'' alloc invoke fn spec ret args m = Inr r"
    using assms(1) by (auto simp: Call_def Let_def split: prod.split)
next
  let ?spec = "\<lparr>cs_Args = [Struct (- 16) al h wide], cs_Ret = res\<rparr>"
  have "\<not> register_sized (- 16)" by (simp add: register_sized_def)
  then have "pl_panic (planAMD64 alloc ?spec ret [v] (new_plan fn m)) = Some ''index out of range''"
    by (simp add: amd64_panic amd64_word_def Struct_def keep_copy_def alignedCopy_def Let_def panicking_def new_plan_def)
  then show "Call ''amd64'' alloc invoke fn ?spec ret [v] m = Inl ''index out of range''"
    by (simp add: Call_def)
qed

lemma Call_amd64_total_witness:
  "\<exists>r. Call ''amd64'' sample_buffers (\<lambda>fr m. (\<lparr>cr_r1 = 0, cr_r2 = 0, cr_f = [0, 0, 0, 0]\<rparr>, m, 0)) 0 sample_spec 0 [7, 256] (\<lambda>a. ucast a) = Inr r"
proof -
  have l: "length [7, 256 :: 64 word] = length (cs_Args sample_spec)" "length [7, 256 :: 64 word] \<le> 45"
    "list_all copy_fits (cs_Args sample_spec)"
    by (simp_all add: sample_spec_def copy_fits_def plain_arg_def Struct_def)
  show ?thesis by (rule conjunct1 [OF Call_amd64_total [OF l, where al = 8 and h = 0 and wide = False and res = "plain_arg ArgWord" and v = 0]])
qed

section \<open>AArch64\<close>

text \<open>Four 8-byte float elements: four float registers, or four stack words.\<close>

definition hfa4 :: arg_desc where
  "hfa4 = Struct 32 8 4 True"

lemma put_floats_frame:
  "ap_nsrn (put_floats ws s) = ap_nsrn s + length ws \<and> ap_ngrn (put_floats ws s) = ap_ngrn s \<and>
   fr_stack (pl_frame (ap_plan (put_floats ws s))) = fr_stack (pl_frame (ap_plan s)) \<and>
   fr_ints (pl_frame (ap_plan (put_floats ws s))) = fr_ints (pl_frame (ap_plan s)) \<and>
   pl_mem (ap_plan (put_floats ws s)) = pl_mem (ap_plan s) \<and> pl_keep (ap_plan (put_floats ws s)) = pl_keep (ap_plan s) \<and>
   pl_panic (ap_plan (put_floats ws s)) = pl_panic (ap_plan s)"
  by (induction ws arbitrary: s) (simp_all add: put_floats_def set_float_def)

lemma arm_hfa4:
  "ap_nsrn s + 4 \<le> 8 \<Longrightarrow> ap_nsrn (arm_arg alloc (hfa4, w) s) = ap_nsrn s + 4 \<and>
     fr_stack (pl_frame (ap_plan (arm_arg alloc (hfa4, w) s))) = fr_stack (pl_frame (ap_plan s)) \<and>
     pl_panic (ap_plan (arm_arg alloc (hfa4, w) s)) = pl_panic (ap_plan s)"
  "8 < ap_nsrn s + 4 \<Longrightarrow> ap_nsrn (arm_arg alloc (hfa4, w) s) = 8 \<and>
     length (fr_stack (pl_frame (ap_plan (arm_arg alloc (hfa4, w) s)))) = length (fr_stack (pl_frame (ap_plan s))) + 4 \<and>
     pl_panic (ap_plan (arm_arg alloc (hfa4, w) s)) = pl_panic (ap_plan s)"
  by (simp_all add: arm_arg_def arm_struct_def hfa4_def Struct_def put_floats_frame Let_def put_composite_def
      appendComposite_def composite_words_def word_count_def)

lemma arm_hfa4_stack:
  "ap_nsrn s = 8 \<Longrightarrow> length (fr_stack (pl_frame (ap_plan (fold (arm_arg alloc) (replicate n (hfa4, w)) s)))) =
     length (fr_stack (pl_frame (ap_plan s))) + 4 * n \<and>
     pl_panic (ap_plan (fold (arm_arg alloc) (replicate n (hfa4, w)) s)) = pl_panic (ap_plan s)"
  by (induction n arbitrary: s) (simp_all add: arm_hfa4)

text \<open>
  \<^bold>\<open>C21\<close>: on AArch64 the generator's limit is not enough. Thirteen arguments of four 8-byte float elements
  each are well within 45 argument words, but need 44 stack words, and the call always panics.
\<close>

theorem Call_arm64_stack_panic:
  "Call ''arm64'' alloc invoke fn \<lparr>cs_Args = replicate 13 hfa4, cs_Ret = plain_arg ArgWord\<rparr> ret (replicate 13 w) m =
     Inl ''win32: Call has too many stack arguments'' \<and> 13 \<le> (45 :: nat)"
proof -
  let ?spec = "\<lparr>cs_Args = replicate 13 hfa4, cs_Ret = plain_arg ArgWord\<rparr>"
  let ?s = "\<lparr>ap_ngrn = 0, ap_nsrn = 0, ap_plan = new_plan fn m\<rparr>"
  let ?step = "arm_arg alloc (hfa4, w)"
  have "zip (replicate 13 hfa4) (replicate 13 w) = replicate 13 (hfa4, w)" by (simp add: zip_replicate)
  also have "\<dots> = (hfa4, w) # (hfa4, w) # replicate 11 (hfa4, w)" by (simp add: eval_nat_numeral)
  finally have z: "fold (arm_arg alloc) (zip (replicate 13 hfa4) (replicate 13 w)) ?s =
      fold (arm_arg alloc) (replicate 11 (hfa4, w)) (?step (?step ?s))" by (simp only: fold_simps)
  have p: "planARM64 alloc ?spec ret (replicate 13 w) (new_plan fn m) =
      ap_plan (fold (arm_arg alloc) (replicate 11 (hfa4, w)) (?step (?step ?s)))"
    using z by (simp only: planARM64_def indirect_result_def plain_arg_def Let_def) simp
  have "ap_nsrn (?step (?step ?s)) = 8" "fr_stack (pl_frame (ap_plan (?step (?step ?s)))) = []"
    "pl_panic (ap_plan (?step (?step ?s))) = None"
    by (simp_all add: arm_hfa4 new_plan_def new_frame_def)
  then have "length (fr_stack (pl_frame (planARM64 alloc ?spec ret (replicate 13 w) (new_plan fn m)))) = 44"
    "pl_panic (planARM64 alloc ?spec ret (replicate 13 w) (new_plan fn m)) = None"
    unfolding p using arm_hfa4_stack [of "?step (?step ?s)" alloc 11 w] by (simp_all only: list.size)
  then show ?thesis by (simp add: Call_def maxStackWords_def)
qed

end
