(* ===== verification/Trampoline.thy ===== *)
theory Trampoline
  imports Call
begin

unbundle bit_operations_syntax

text \<open>
  The assembly of \<open>call_amd64.s\<close> and \<open>call_arm64.s\<close>: the two trampolines \<open>SyscallN\<close> enters with the address of
  a call frame, as programs of a small register machine. Operands stand in the order of the Go assembler, with
  the destination last. Memory is read and written by aligned words of eight bytes, which is all the trampolines
  do; anything else is a fault. The foreign function is a parameter: from its address and the machine before the
  call to the machine after it has returned.
\<close>

section \<open>The machine\<close>

datatype 'r operand = Imm "64 word" | Reg 'r | Mem "64 word" 'r | Idx 'r 'r

datatype alu = AddOp | SubOp | AndOp | LslOp

text \<open>
  \<open>Alu\<close> says first whether the zero flag is set (always on x64, never for the forms used on AArch64);
  \<open>Branch\<close> names the value of the flag that takes the branch.
\<close>

datatype 'r instr =
    Move "'r operand" "'r operand"
  | Lea "64 word" 'r 'r
  | Alu bool alu "'r operand" 'r 'r
  | Test 'r
  | Cmp 'r 'r
  | StorePair 'r 'r "64 word" 'r
  | LoadPair "64 word" 'r 'r 'r
  | CallReg 'r
  | Branch bool string
  | BranchZero 'r string
  | Return

record 'r machine =
  mc_regs :: "'r \<Rightarrow> 64 word"
  mc_mem :: "64 word \<Rightarrow> 64 word"
  mc_zero :: bool

type_synonym 'r callee = "64 word \<Rightarrow> 'r machine \<Rightarrow> 'r machine"

type_synonym 'r program = "(string \<times> 'r instr list) list"

definition aligned :: "nat \<Rightarrow> 64 word \<Rightarrow> bool" where
  "aligned n a \<longleftrightarrow> n dvd unat a"

definition load :: "64 word \<Rightarrow> 'r machine \<Rightarrow> 64 word option" where
  "load a s = (if aligned 8 a then Some (mc_mem s a) else None)"

definition store :: "64 word \<Rightarrow> 64 word \<Rightarrow> 'r machine \<Rightarrow> 'r machine option" where
  "store a w s = (if aligned 8 a then Some (s\<lparr>mc_mem := (mc_mem s)(a := w)\<rparr>) else None)"

definition set_reg :: "'r \<Rightarrow> 64 word \<Rightarrow> 'r machine \<Rightarrow> 'r machine" where
  "set_reg r w s = s\<lparr>mc_regs := (mc_regs s)(r := w)\<rparr>"

fun fetch :: "'r operand \<Rightarrow> 'r machine \<Rightarrow> 64 word option" where
  "fetch (Imm w) s = Some w"
| "fetch (Reg r) s = Some (mc_regs s r)"
| "fetch (Mem k r) s = load (mc_regs s r + k) s"
| "fetch (Idx i r) s = load (mc_regs s r + mc_regs s i) s"

fun assign :: "'r operand \<Rightarrow> 64 word \<Rightarrow> 'r machine \<Rightarrow> 'r machine option" where
  "assign (Imm _) w s = None"
| "assign (Reg r) w s = Some (set_reg r w s)"
| "assign (Mem k r) w s = store (mc_regs s r + k) w s"
| "assign (Idx i r) w s = store (mc_regs s r + mc_regs s i) w s"

fun alu_value :: "alu \<Rightarrow> 64 word \<Rightarrow> 64 word \<Rightarrow> 64 word" where
  "alu_value AddOp x y = y + x"
| "alu_value SubOp x y = y - x"
| "alu_value AndOp x y = y AND x"
| "alu_value LslOp x y = push_bit (unat x) y"

text \<open>The instructions that go on to the next one; the branches have no effect of their own.\<close>

fun exec :: "'r callee \<Rightarrow> 'r instr \<Rightarrow> 'r machine \<Rightarrow> 'r machine option" where
  "exec f (Move src dst) s = Option.bind (fetch src s) (\<lambda>w. assign dst w s)"
| "exec f (Lea k r d) s = Some (set_reg d (mc_regs s r + k) s)"
| "exec f (Alu flags op x y d) s = Option.bind (fetch x s) (\<lambda>w.
     let v = alu_value op w (mc_regs s y); s' = set_reg d v s in Some (if flags then s'\<lparr>mc_zero := (v = 0)\<rparr> else s'))"
| "exec f (Test r) s = Some (s\<lparr>mc_zero := (mc_regs s r = 0)\<rparr>)"
| "exec f (Cmp a b) s = Some (s\<lparr>mc_zero := (mc_regs s a = mc_regs s b)\<rparr>)"
| "exec f (StorePair a b k r) s = Option.bind (store (mc_regs s r + k) (mc_regs s a) s) (store (mc_regs s r + k + 8) (mc_regs s b))"
| "exec f (LoadPair k r a b) s = Option.bind (load (mc_regs s r + k) s) (\<lambda>v. Option.bind (load (mc_regs s r + k + 8) s) (\<lambda>w.
     Some (set_reg b w (set_reg a v s))))"
| "exec f (CallReg r) s = Some (f (mc_regs s r) s)"
| "exec f _ s = Some s"

definition goto :: "'r program \<Rightarrow> string \<Rightarrow> 'r instr list" where
  "goto prog l = concat (map snd (dropWhile (\<lambda>b. fst b \<noteq> l) prog))"

text \<open>The run of the instructions from a point on; \<open>None\<close> is a fault or too little fuel.\<close>

fun run :: "'r callee \<Rightarrow> 'r program \<Rightarrow> nat \<Rightarrow> 'r instr list \<Rightarrow> 'r machine \<Rightarrow> 'r machine option" where
  "run f prog 0 code s = None"
| "run f prog (Suc n) [] s = None"
| "run f prog (Suc n) (i # code) s =
     (case i of
        Return \<Rightarrow> Some s
      | Branch z l \<Rightarrow> run f prog n (if mc_zero s = z then goto prog l else code) s
      | BranchZero r l \<Rightarrow> run f prog n (if mc_regs s r = 0 then goto prog l else code) s
      | _ \<Rightarrow> Option.bind (exec f i s) (run f prog n code))"

section \<open>The frame\<close>

text \<open>The fields of \<open>callFrame\<close> with their sizes in words; \<open>go_asm.h\<close> gives their offsets.\<close>

definition callFrame_fields :: "(string \<times> nat) list" where
  "callFrame_fields = [(''fn'', 1), (''ints'', 8), (''floats'', 8), (''nstack'', 1), (''stack'', 1), (''x8'', 1),
     (''r1'', 1), (''r2'', 1), (''f'', 4), (''stackWords'', maxStackWords)]"

definition callFrame :: "string \<Rightarrow> nat" where
  "callFrame name = 8 * sum_list (map snd (takeWhile (\<lambda>x. fst x \<noteq> name) callFrame_fields))"

definition field :: "string \<Rightarrow> nat \<Rightarrow> 'r \<Rightarrow> 'r operand" where
  "field name k r = Mem (of_nat (callFrame name + k)) r"

section \<open>x64\<close>

datatype amd64_reg = AX | CX | DX | R8 | R9 | R10 | R11 | SP | XMM nat

definition OUTGOING_BYTES :: "64 word" where
  "OUTGOING_BYTES = of_nat (32 + maxStackWords * 8)"

definition callTrampoline_amd64 :: "amd64_reg program" where
  "callTrampoline_amd64 = [
     (''entry'', [
       Move (Reg SP) (Reg AX),
       Alu True SubOp (Imm 16) SP SP,
       Alu True AndOp (Imm (NOT 15)) SP SP,
       Move (Reg AX) (Mem 8 SP),
       Move (Reg CX) (Mem 0 SP),
       Alu True SubOp (Imm OUTGOING_BYTES) SP SP,
       Move (field ''nstack'' 0 CX) (Reg R10),
       Test R10,
       Branch True ''loaded'',
       Move (field ''stack'' 0 CX) (Reg R11),
       Lea 32 SP R8]),
     (''copy'', [
       Move (Mem 0 R11) (Reg R9),
       Move (Reg R9) (Mem 0 R8),
       Alu True AddOp (Imm 8) R11 R11,
       Alu True AddOp (Imm 8) R8 R8,
       Alu True SubOp (Imm 1) R10 R10,
       Branch False ''copy'']),
     (''loaded'', [
       Move (field ''floats'' 0 CX) (Reg (XMM 0)),
       Move (field ''floats'' 8 CX) (Reg (XMM 1)),
       Move (field ''floats'' 16 CX) (Reg (XMM 2)),
       Move (field ''floats'' 24 CX) (Reg (XMM 3)),
       Move (field ''fn'' 0 CX) (Reg AX),
       Move (field ''ints'' 8 CX) (Reg DX),
       Move (field ''ints'' 16 CX) (Reg R8),
       Move (field ''ints'' 24 CX) (Reg R9),
       Move (field ''ints'' 0 CX) (Reg CX),
       CallReg AX,
       Alu True AddOp (Imm OUTGOING_BYTES) SP SP,
       Move (Mem 0 SP) (Reg CX),
       Move (Reg AX) (field ''r1'' 0 CX),
       Move (Reg DX) (field ''r2'' 0 CX),
       Move (Reg (XMM 0)) (field ''f'' 0 CX),
       Move (Mem 8 SP) (Reg SP),
       Return])]"

section \<open>AArch64\<close>

text \<open>
  The assembler's own prologue, which makes the frame the \<open>TEXT\<close> line asks for and saves the link register
  in it, has run: the stack pointer is the one the first instruction sees.
\<close>

datatype arm64_reg = R nat | F nat | RSP

definition callTrampoline_arm64 :: "arm64_reg program" where
  "callTrampoline_arm64 = [
     (''entry'', [
       StorePair (R 19) (R 20) 16 RSP,
       Move (Reg (R 0)) (Reg (R 19)),
       Move (Reg RSP) (Reg (R 20)),
       Move (field ''nstack'' 0 (R 19)) (Reg (R 9)),
       BranchZero (R 9) ''regs'',
       Alu False AddOp (Imm 1) (R 9) (R 10),
       Alu False AndOp (Imm (NOT 1)) (R 10) (R 10),
       Alu False LslOp (Imm 3) (R 10) (R 10),
       Alu False SubOp (Reg (R 10)) RSP RSP,
       Move (field ''stack'' 0 (R 19)) (Reg (R 11)),
       Move (Reg RSP) (Reg (R 12)),
       Alu False LslOp (Imm 3) (R 9) (R 9),
       Move (Imm 0) (Reg (R 13))]),
     (''copy'', [
       Move (Idx (R 13) (R 11)) (Reg (R 14)),
       Move (Reg (R 14)) (Idx (R 13) (R 12)),
       Alu False AddOp (Imm 8) (R 13) (R 13),
       Cmp (R 13) (R 9),
       Branch False ''copy'']),
     (''regs'',
       map (\<lambda>k. Move (field ''floats'' (8 * k) (R 19)) (Reg (F k))) [0..<8] @
       [Move (field ''x8'' 0 (R 19)) (Reg (R 8))] @
       map (\<lambda>k. Move (field ''ints'' (8 * k) (R 19)) (Reg (R k))) [0..<8] @
       [Move (field ''fn'' 0 (R 19)) (Reg (R 12)),
       CallReg (R 12),
       Move (Reg (R 20)) (Reg RSP),
       Move (Reg (R 0)) (field ''r1'' 0 (R 19)),
       Move (Reg (R 1)) (field ''r2'' 0 (R 19))] @
       map (\<lambda>k. Move (Reg (F k)) (field ''f'' (8 * k) (R 19))) [0..<4] @
       [LoadPair 16 RSP (R 19) (R 20),
       Return])]"

end
