(* ===== verification/TrampolineFacts.thy ===== *)
theory TrampolineFacts
  imports Trampoline CallFacts
begin

text \<open>
  The trampolines fulfil the contract the planners rely on: the foreign function finds the words of the frame in
  its registers and on an aligned stack, and the frame gets the result registers back.
\<close>

section \<open>Addresses\<close>

abbreviation word_at :: "64 word \<Rightarrow> nat \<Rightarrow> 64 word" where
  "word_at p i \<equiv> p + 8 * of_nat i"

definition words_at :: "64 word \<Rightarrow> nat \<Rightarrow> 64 word set" where
  "words_at p n = word_at p ` {..<n}"

lemma aligned_add: "aligned n a \<Longrightarrow> aligned n b \<Longrightarrow> n dvd 2 ^ 64 \<Longrightarrow> aligned n (a + b)"
  unfolding aligned_def by (simp add: unat_word_ariths dvd_mod)

lemma aligned_8_word [simp]: "aligned 8 a \<Longrightarrow> aligned 8 (word_at a i)"
proof (rule aligned_add)
  show "aligned 8 (8 * of_nat i)" unfolding aligned_def by (simp add: unat_word_ariths dvd_mod)
qed simp_all

lemma aligned_16_8: "aligned 16 a \<Longrightarrow> aligned 8 a"
  unfolding aligned_def by (rule dvd_trans) simp_all

lemma aligned_mask: "aligned 16 (a AND NOT 15)"
proof -
  have "take_bit 4 (a AND NOT 15) = a AND (NOT 15 AND mask 4)" by (simp only: take_bit_eq_mask ac_simps)
  also have "NOT 15 AND mask 4 = (0 :: 64 word)" by (simp add: mask_eq_exp_minus_1)
  finally have "take_bit 4 (a AND NOT 15) = 0" by simp
  moreover have "take_bit 4 (unat (a AND NOT 15)) = unat (take_bit 4 (a AND NOT 15))" by (simp only: unsigned_take_bit_eq)
  ultimately have "unat (a AND NOT 15) mod 2 ^ 4 = 0" by (simp only: take_bit_eq_mod unsigned_0)
  then show ?thesis unfolding aligned_def by (simp only: dvd_eq_mod_eq_0) simp
qed

lemma word_at_inj: "word_at p i = word_at p j \<Longrightarrow> i < 1000 \<Longrightarrow> j < 1000 \<Longrightarrow> i = j"
proof -
  assume a: "word_at p i = word_at p j" "i < 1000" "j < 1000"
  then have "8 * of_nat i = (8 * of_nat j :: 64 word)" by simp
  then have "unat (8 * of_nat i :: 64 word) = unat (8 * of_nat j :: 64 word)" by simp
  with a(2,3) show ?thesis by (simp add: unat_word_ariths unat_of_nat)
qed

lemma words_at_mono: "n \<le> m \<Longrightarrow> words_at p n \<subseteq> words_at p m"
  unfolding words_at_def by (rule image_mono) simp

lemma words_at_range:
  assumes "a \<in> words_at p n" "unat p + 8 * n \<le> 2 ^ 64"
  shows "unat p \<le> unat a \<and> unat a < unat p + 8 * n"
proof -
  obtain i where i: "i < n" "a = word_at p i" using assms(1) by (auto simp: words_at_def)
  have "unat (8 * of_nat i :: 64 word) = 8 * i" using i(1) assms(2) by (simp add: unat_word_ariths unat_of_nat)
  then have "unat a = unat p + 8 * i" using i assms(2) by (simp add: unat_word_ariths)
  with i(1) show ?thesis by simp
qed

lemma words_at_apart: "unat p + 8 * n \<le> unat q \<Longrightarrow> unat q + 8 * m \<le> 2 ^ 64 \<Longrightarrow> words_at q m \<inter> words_at p n = {}"
  using words_at_range [of _ p n] words_at_range [of _ q m] by fastforce

section \<open>Execution\<close>

lemma set_reg_simps [simp]:
  "mc_regs (set_reg r w s) = (mc_regs s)(r := w)" "mc_mem (set_reg r w s) = mc_mem s" "mc_zero (set_reg r w s) = mc_zero s"
  by (simp_all add: set_reg_def)

lemma load_aligned [simp]: "aligned 8 a \<Longrightarrow> load a s = Some (mc_mem s a)"
  by (simp add: load_def)

lemma store_aligned [simp]: "aligned 8 a \<Longrightarrow> store a w s = Some (s\<lparr>mc_mem := (mc_mem s)(a := w)\<rparr>)"
  by (simp add: store_def)

lemma field_offsets [simp]:
  "callFrame ''fn'' = 0" "callFrame ''ints'' = 8" "callFrame ''floats'' = 72" "callFrame ''nstack'' = 136"
  "callFrame ''stack'' = 144" "callFrame ''x8'' = 152" "callFrame ''r1'' = 160" "callFrame ''r2'' = 168" "callFrame ''f'' = 176"
  by code_simp+

text \<open>A block without branches runs as a whole.\<close>

fun exec_all :: "'r callee \<Rightarrow> 'r instr list \<Rightarrow> 'r machine \<Rightarrow> 'r machine option" where
  "exec_all f [] s = Some s"
| "exec_all f (i # is) s = Option.bind (exec f i s) (exec_all f is)"

fun straight :: "'r instr \<Rightarrow> bool" where
  "straight (Branch z l) = False"
| "straight (BranchZero r l) = False"
| "straight Return = False"
| "straight _ = True"

lemma run_straight: "straight i \<Longrightarrow> run f prog (Suc n) (i # code) s = Option.bind (exec f i s) (run f prog n code)"
  by (cases i) simp_all

lemma run_block:
  "list_all straight is \<Longrightarrow> exec_all f is s = Some s' \<Longrightarrow> run f prog (length is + n) (is @ code) s = run f prog n code s'"
proof (induction "is" arbitrary: s)
  case (Cons i "is")
  then obtain s1 where 1: "exec f i s = Some s1" "exec_all f is s1 = Some s'" by (auto simp: bind_eq_Some_conv)
  with Cons show ?case by (simp add: run_straight del: run.simps)
qed simp

text \<open>The words a copy loop has written after \<open>n\<close> rounds.\<close>

fun copy_words :: "(64 word \<Rightarrow> 64 word) \<Rightarrow> 64 word \<Rightarrow> 64 word \<Rightarrow> nat \<Rightarrow> 64 word \<Rightarrow> 64 word" where
  "copy_words m dst src 0 = m"
| "copy_words m dst src (Suc n) = copy_words (m(dst := m src)) (dst + 8) (src + 8) n"

lemma word_at_Suc: "word_at p (Suc i) = word_at (p + 8) i"
  by (simp add: algebra_simps)

lemma words_at_Suc: "words_at p (Suc n) = insert p (words_at (p + 8) n)"
  unfolding words_at_def lessThan_Suc_eq_insert_0 image_insert image_image word_at_Suc by simp

lemma copy_words_other: "a \<notin> words_at dst n \<Longrightarrow> copy_words m dst src n a = m a"
  by (induction n arbitrary: m dst src) (simp_all add: words_at_Suc)

lemma copy_words_copied:
  assumes "words_at dst n \<inter> words_at src n = {}" "n < 1000" "i < n"
  shows "copy_words m dst src n (word_at dst i) = m (word_at src i)"
  using assms
proof (induction n arbitrary: m dst src i)
  case (Suc n)
  have sep: "words_at (dst + 8) n \<inter> words_at (src + 8) n = {}" using Suc.prems(1) by (auto simp: words_at_Suc)
  show ?case
  proof (cases i)
    case 0
    have "dst \<notin> words_at (dst + 8) n"
    proof
      assume "dst \<in> words_at (dst + 8) n"
      then obtain k where "k < n" "word_at dst 0 = word_at dst (Suc k)" unfolding words_at_def word_at_Suc by auto
      with word_at_inj [of dst 0 "Suc k"] Suc.prems(2) show False by simp
    qed
    then show ?thesis by (simp add: 0 copy_words_other)
  next
    case (Suc j)
    then have j: "j < n" using Suc.prems(3) by simp
    have "word_at (src + 8) j \<in> words_at (src + 8) n" using j by (simp add: words_at_def)
    then have "word_at (src + 8) j \<noteq> dst" using Suc.prems(1) by (auto simp: words_at_Suc)
    with Suc.IH [OF sep _ j] Suc.prems(2) show ?thesis unfolding Suc word_at_Suc by simp
  qed
qed simp

section \<open>x64\<close>

abbreviation "P64 \<equiv> callTrampoline_amd64"

definition copy_round :: "amd64_reg machine \<Rightarrow> amd64_reg machine" where
  "copy_round s = s\<lparr>mc_regs := (mc_regs s)(R9 := mc_mem s (mc_regs s R11), R11 := mc_regs s R11 + 8,
     R8 := mc_regs s R8 + 8, R10 := mc_regs s R10 - 1),
     mc_mem := (mc_mem s)(mc_regs s R8 := mc_mem s (mc_regs s R11)), mc_zero := (mc_regs s R10 - 1 = 0)\<rparr>"

lemma amd64_round:
  assumes "aligned 8 (mc_regs s R11)" "aligned 8 (mc_regs s R8)"
  shows "run f P64 (6 + k) (goto P64 ''copy'') s =
    run f P64 k (goto P64 (if mc_regs s R10 = 1 then ''loaded'' else ''copy'')) (copy_round s)"
proof -
  let ?b = "[Move (Mem 0 R11) (Reg R9), Move (Reg R9) (Mem 0 R8), Alu True AddOp (Imm 8) R11 R11,
    Alu True AddOp (Imm 8) R8 R8, Alu True SubOp (Imm 1) R10 R10]"
  have g: "goto P64 ''copy'' = ?b @ Branch False ''copy'' # goto P64 ''loaded''"
    by (simp add: goto_def callTrampoline_amd64_def)
  have e: "exec_all f ?b s = Some (copy_round s)" using assms by (simp add: copy_round_def set_reg_def Let_def)
  have n: "6 + k = length ?b + Suc k" by simp
  have "run f P64 (6 + k) (goto P64 ''copy'') s = run f P64 (Suc k) (Branch False ''copy'' # goto P64 ''loaded'') (copy_round s)"
    unfolding g n by (rule run_block [OF _ e]) simp
  also have "\<dots> = run f P64 k (goto P64 (if mc_regs s R10 = 1 then ''loaded'' else ''copy'')) (copy_round s)"
    by (simp add: copy_round_def)
  finally show ?thesis .
qed

lemma amd64_copy:
  assumes "mc_regs s R10 = of_nat (Suc n)" "Suc n < 1000" "aligned 8 (mc_regs s R11)" "aligned 8 (mc_regs s R8)"
  shows "\<exists>s'. (\<forall>k. run f P64 (6 * Suc n + k) (goto P64 ''copy'') s = run f P64 k (goto P64 ''loaded'') s') \<and>
    (\<forall>r. r \<notin> {R8, R9, R10, R11} \<longrightarrow> mc_regs s' r = mc_regs s r) \<and>
    mc_mem s' = copy_words (mc_mem s) (mc_regs s R8) (mc_regs s R11) (Suc n)"
  using assms
proof (induction n arbitrary: s)
  case 0
  then show ?case using amd64_round [of s f] by (intro exI [of _ "copy_round s"]) (simp add: copy_round_def)
next
  case (Suc n)
  let ?s = "copy_round s"
  have more: "mc_regs s R10 \<noteq> 1"
  proof
    assume "mc_regs s R10 = 1"
    then have "unat (mc_regs s R10) = 1" by simp
    then show False using Suc.prems(1,2) by (simp add: unat_of_nat del: of_nat_Suc)
  qed
  have "mc_regs ?s R10 = of_nat (Suc n)" "aligned 8 (mc_regs ?s R11)" "aligned 8 (mc_regs ?s R8)"
    using Suc.prems aligned_8_word [of _ 1] by (simp_all add: copy_round_def)
  from Suc.IH [OF this(1) _ this(2,3)] Suc.prems(2) obtain s' where
    run: "\<And>k. run f P64 (6 * Suc n + k) (goto P64 ''copy'') ?s = run f P64 k (goto P64 ''loaded'') s'"
    and regs: "\<forall>r. r \<notin> {R8, R9, R10, R11} \<longrightarrow> mc_regs s' r = mc_regs ?s r"
    and mem: "mc_mem s' = copy_words (mc_mem ?s) (mc_regs ?s R8) (mc_regs ?s R11) (Suc n)" by auto
  have "run f P64 (6 * Suc (Suc n) + k) (goto P64 ''copy'') s = run f P64 k (goto P64 ''loaded'') s'" for k
  proof -
    have "run f P64 (6 * Suc (Suc n) + k) (goto P64 ''copy'') s = run f P64 (6 + (6 * Suc n + k)) (goto P64 ''copy'') s"
      by (simp add: algebra_simps)
    also have "\<dots> = run f P64 k (goto P64 ''loaded'') s'"
      unfolding amd64_round [OF Suc.prems(3,4)] using more run by simp
    finally show ?thesis .
  qed
  with regs mem show ?case by (intro exI [of _ s']) (simp add: copy_round_def)
qed

text \<open>More fuel does not change a run that has ended.\<close>

lemma run_more: "run f prog n code s = Some r \<Longrightarrow> n \<le> m \<Longrightarrow> run f prog m code s = Some r"
proof (induction n arbitrary: m code s)
  case (Suc n)
  then obtain m' where m: "m = Suc m'" "n \<le> m'" by (cases m) auto
  obtain i c where code: "code = i # c" using Suc.prems(1) by (cases code) auto
  show ?case
  proof (cases "straight i")
    case True
    with Suc.prems(1) Suc.IH [OF _ m(2)] show ?thesis
      by (auto simp: m(1) code run_straight bind_eq_Some_conv simp del: run.simps)
  next
    case False
    with Suc.prems(1) Suc.IH [OF _ m(2)] show ?thesis by (cases i) (simp_all add: m(1) code)
  qed
qed simp

text \<open>The frame in memory, and its fields as words of it.\<close>

definition field_at :: "64 word \<Rightarrow> string \<Rightarrow> nat \<Rightarrow> 64 word" where
  "field_at p name i = p + of_nat (callFrame name + 8 * i)"

definition frame_in :: "(64 word \<Rightarrow> 64 word) \<Rightarrow> 64 word \<Rightarrow> call_frame \<Rightarrow> bool" where
  "frame_in m p fr \<longleftrightarrow> aligned 8 p \<and> length (fr_ints fr) = 8 \<and> length (fr_floats fr) = 8 \<and>
     length (fr_stack fr) \<le> maxStackWords \<and> m (field_at p ''fn'' 0) = fr_fn fr \<and>
     (\<forall>i < 8. m (field_at p ''ints'' i) = fr_ints fr ! i) \<and> (\<forall>i < 8. m (field_at p ''floats'' i) = fr_floats fr ! i) \<and>
     m (field_at p ''x8'' 0) = fr_x8 fr \<and> m (field_at p ''nstack'' 0) = of_nat (length (fr_stack fr)) \<and>
     aligned 8 (m (field_at p ''stack'' 0)) \<and>
     (\<forall>i < length (fr_stack fr). m (word_at (m (field_at p ''stack'' 0)) i) = fr_stack fr ! i)"

text \<open>The words a trampoline reads or writes through the frame.\<close>

definition frame_words :: "(64 word \<Rightarrow> 64 word) \<Rightarrow> 64 word \<Rightarrow> call_frame \<Rightarrow> 64 word set" where
  "frame_words m p fr = words_at p 26 \<union> words_at (m (field_at p ''stack'' 0)) (length (fr_stack fr))"

lemma field_at_word: "8 * k = callFrame name \<Longrightarrow> field_at p name i = word_at p (k + i)"
proof -
  assume k: "8 * k = callFrame name"
  have "callFrame name + 8 * i = 8 * (k + i)" using k by simp
  then have "field_at p name i = p + of_nat (8 * (k + i))" by (simp only: field_at_def)
  then show ?thesis by simp
qed

lemma field_words:
  "field_at p ''fn'' i = word_at p (0 + i)" "field_at p ''ints'' i = word_at p (1 + i)"
  "field_at p ''floats'' i = word_at p (9 + i)" "field_at p ''nstack'' i = word_at p (17 + i)"
  "field_at p ''stack'' i = word_at p (18 + i)" "field_at p ''x8'' i = word_at p (19 + i)"
  "field_at p ''r1'' i = word_at p (20 + i)" "field_at p ''r2'' i = word_at p (21 + i)"
  "field_at p ''f'' i = word_at p (22 + i)"
  by (rule field_at_word, simp)+

lemma aligned_add8 [simp]: "aligned 8 a \<Longrightarrow> aligned 8 b \<Longrightarrow> aligned 8 (a + b)"
  by (rule aligned_add) simp_all

lemma aligned_numeral [simp]: "aligned n (numeral k) \<longleftrightarrow> n dvd unat (numeral k :: 64 word)"
  by (simp add: aligned_def)

lemma word_at_in [intro]: "i < n \<Longrightarrow> word_at p i \<in> words_at p n"
  by (auto simp: words_at_def)

text \<open>The stack of the trampoline: the two saved words above the outgoing area.\<close>

definition amd64_low :: "64 word \<Rightarrow> 64 word" where
  "amd64_low sp = ((sp - 16) AND NOT 15) - OUTGOING_BYTES"

lemma OUTGOING_368: "OUTGOING_BYTES = 368"
  by (simp add: OUTGOING_BYTES_def maxStackWords_def)

lemma amd64_low_aligned [simp]: "aligned 16 (amd64_low sp)" "aligned 8 (amd64_low sp)"
proof -
  have "aligned 16 (((sp - 16) AND NOT 15) + (- 368))" by (rule aligned_add [OF aligned_mask]) (simp_all add: aligned_def)
  then show "aligned 16 (amd64_low sp)" by (simp add: amd64_low_def OUTGOING_368)
  then show "aligned 8 (amd64_low sp)" by (rule aligned_16_8)
qed

definition amd64_entry :: "call_frame \<Rightarrow> amd64_reg machine \<Rightarrow> bool" where
  "amd64_entry fr s \<longleftrightarrow> frame_in (mc_mem s) (mc_regs s CX) fr \<and>
     words_at (amd64_low (mc_regs s SP)) 48 \<inter> frame_words (mc_mem s) (mc_regs s CX) fr = {}"

text \<open>What the foreign function finds: its address is called with the arguments in place.\<close>

definition amd64_receives :: "call_frame \<Rightarrow> amd64_reg machine \<Rightarrow> bool" where
  "amd64_receives fr c \<longleftrightarrow> mc_regs c CX = fr_ints fr ! 0 \<and> mc_regs c DX = fr_ints fr ! 1 \<and>
     mc_regs c R8 = fr_ints fr ! 2 \<and> mc_regs c R9 = fr_ints fr ! 3 \<and>
     (\<forall>i < 4. mc_regs c (XMM i) = fr_floats fr ! i) \<and> aligned 16 (mc_regs c SP) \<and>
     (\<forall>i < length (fr_stack fr). mc_mem c (word_at (mc_regs c SP + 32) i) = fr_stack fr ! i)"

text \<open>What the convention asks of it: the stack pointer and the words above the outgoing area stay.\<close>

definition amd64_abi :: "amd64_reg callee \<Rightarrow> bool" where
  "amd64_abi f \<longleftrightarrow> (\<forall>t s. mc_regs (f t s) SP = mc_regs s SP \<and>
     mc_mem (f t s) (mc_regs s SP + 368) = mc_mem s (mc_regs s SP + 368) \<and>
     mc_mem (f t s) (mc_regs s SP + 376) = mc_mem s (mc_regs s SP + 376))"

definition amd64_saved :: "amd64_reg machine \<Rightarrow> amd64_reg machine" where
  "amd64_saved s = (let low = amd64_low (mc_regs s SP) in
     s\<lparr>mc_regs := (mc_regs s)(AX := mc_regs s SP, SP := low, R10 := mc_mem s (mc_regs s CX + 136)),
       mc_mem := (mc_mem s)(low + 376 := mc_regs s SP, low + 368 := mc_regs s CX),
       mc_zero := (mc_mem s (mc_regs s CX + 136) = 0)\<rparr>)"

lemma amd64_prologue:
  assumes "amd64_entry fr s"
  shows "run f P64 (8 + k) (goto P64 ''entry'') s = run f P64 k (Branch True ''loaded'' #
    Move (field ''stack'' 0 CX) (Reg R11) # Lea 32 SP R8 # goto P64 ''copy'') (amd64_saved s)"
proof -
  let ?b = "[Move (Reg SP) (Reg AX), Alu True SubOp (Imm 16) SP SP, Alu True AndOp (Imm (NOT 15)) SP SP,
    Move (Reg AX) (Mem 8 SP), Move (Reg CX) (Mem 0 SP), Alu True SubOp (Imm OUTGOING_BYTES) SP SP,
    Move (field ''nstack'' 0 CX) (Reg R10), Test R10]"
  let ?rest = "Branch True ''loaded'' # Move (field ''stack'' 0 CX) (Reg R11) # Lea 32 SP R8 # goto P64 ''copy''"
  have g: "goto P64 ''entry'' = ?b @ ?rest" by (simp add: goto_def callTrampoline_amd64_def)
  define top where "top = (mc_regs s SP - 16) AND NOT 15"
  have low: "amd64_low (mc_regs s SP) = top - 368" by (simp add: amd64_low_def top_def OUTGOING_368)
  have p: "aligned 8 (mc_regs s CX)" using assms by (simp add: amd64_entry_def frame_in_def)
  have top: "aligned 8 top" unfolding top_def by (rule aligned_16_8 [OF aligned_mask])
  have mask: "mc_regs s SP - 16 AND - 16 = top" by (simp add: top_def)
  have in_area: "top \<in> words_at (top - 368) 48" "top + 8 \<in> words_at (top - 368) 48"
    using word_at_in [of 46 48 "top - 368"] word_at_in [of 47 48 "top - 368"] by (simp_all add: add.commute)
  have "field_at (mc_regs s CX) ''nstack'' 0 \<in> words_at (mc_regs s CX) 26" unfolding field_words by (rule word_at_in) simp
  then have "field_at (mc_regs s CX) ''nstack'' 0 \<notin> words_at (top - 368) 48"
    using assms unfolding amd64_entry_def frame_words_def low by blast
  then have "mc_regs s CX + 136 \<notin> words_at (top - 368) 48" by (simp add: field_at_def)
  with in_area have sep: "mc_regs s CX + 136 \<noteq> top" "mc_regs s CX + 136 \<noteq> top + 8" by metis+
  have e: "exec_all f ?b s = Some (amd64_saved s)"
    using p top sep
    by (simp add: amd64_saved_def low set_reg_def Let_def field_def OUTGOING_368 mask add.commute [of 8 top])
  have n: "8 + k = length ?b + k" by simp
  show ?thesis unfolding g n by (rule run_block [OF _ e]) simp
qed

text \<open>
  The machine at \<open>loaded\<close>: the frame still in \<open>CX\<close>, the two saved words, and the stack words of the frame behind
  the shadow space; outside the trampoline's stack memory is untouched.
\<close>

definition amd64_ready :: "call_frame \<Rightarrow> amd64_reg machine \<Rightarrow> amd64_reg machine \<Rightarrow> bool" where
  "amd64_ready fr s c \<longleftrightarrow> (let low = amd64_low (mc_regs s SP) in
     mc_regs c SP = low \<and> mc_regs c CX = mc_regs s CX \<and>
     mc_mem c (low + 368) = mc_regs s CX \<and> mc_mem c (low + 376) = mc_regs s SP \<and>
     (\<forall>a. a \<notin> words_at low 48 \<longrightarrow> mc_mem c a = mc_mem s a) \<and>
     (\<forall>i < length (fr_stack fr). mc_mem c (word_at (low + 32) i) = fr_stack fr ! i))"

lemma word_at_shift: "word_at (p + 32) i = word_at p (4 + i)"
  by (simp add: algebra_simps)

lemma words_at_shift: "n + 4 \<le> m \<Longrightarrow> words_at (p + 32) n \<subseteq> words_at p m"
proof
  fix a assume n: "n + 4 \<le> m" and "a \<in> words_at (p + 32) n"
  then obtain i where "i < n" "a = word_at p (4 + i)" unfolding words_at_def word_at_shift by blast
  with n show "a \<in> words_at p m" using word_at_in [of "4 + i" m p] by simp
qed

lemma amd64_saved_mem:
  assumes "low = amd64_low (mc_regs s SP)"
  shows "mc_mem (amd64_saved s) (low + 368) = mc_regs s CX" "mc_mem (amd64_saved s) (low + 376) = mc_regs s SP"
    "a \<notin> words_at low 48 \<Longrightarrow> mc_mem (amd64_saved s) a = mc_mem s a"
proof -
  show "mc_mem (amd64_saved s) (low + 368) = mc_regs s CX" "mc_mem (amd64_saved s) (low + 376) = mc_regs s SP"
    by (simp_all add: amd64_saved_def Let_def assms)
  have "low + 368 \<in> words_at low 48" "low + 376 \<in> words_at low 48"
    using word_at_in [of 46 48 low] word_at_in [of 47 48 low] by simp_all
  then show "a \<notin> words_at low 48 \<Longrightarrow> mc_mem (amd64_saved s) a = mc_mem s a"
    by (auto simp: amd64_saved_def Let_def assms)
qed

lemma amd64_enter:
  assumes "amd64_entry fr s"
  shows "\<exists>j c. j \<le> 11 + 6 * length (fr_stack fr) \<and> amd64_ready fr s c \<and>
    (\<forall>k. run f P64 (j + k) (goto P64 ''entry'') s = run f P64 k (goto P64 ''loaded'') c)"
proof -
  define low where "low = amd64_low (mc_regs s SP)"
  define n where "n = length (fr_stack fr)"
  define src where "src = mc_mem s (mc_regs s CX + 144)"
  let ?s = "amd64_saved s"
  note mem = amd64_saved_mem [OF low_def]
  have fr: "frame_in (mc_mem s) (mc_regs s CX) fr" and sep: "words_at low 48 \<inter> frame_words (mc_mem s) (mc_regs s CX) fr = {}"
    using assms by (simp_all add: amd64_entry_def low_def)
  have count: "mc_mem s (mc_regs s CX + 136) = of_nat n" and n: "n \<le> 42" and src8: "aligned 8 src"
    and words: "\<And>i. i < n \<Longrightarrow> mc_mem s (word_at src i) = fr_stack fr ! i"
    using fr by (simp_all add: frame_in_def field_at_def n_def src_def maxStackWords_def)
  have regs: "mc_regs ?s SP = low" "mc_regs ?s CX = mc_regs s CX" "mc_regs ?s R10 = of_nat n" "mc_zero ?s = (of_nat n = (0 :: 64 word))"
    by (simp_all add: amd64_saved_def Let_def low_def count)
  have zero: "of_nat n = (0 :: 64 word) \<longleftrightarrow> n = 0" using n by (simp add: word_of_nat_eq_0_iff nat_dvd_not_less) (use n in \<open>auto dest: dvd_imp_le\<close>)
  show ?thesis
  proof (cases n)
    case 0
    have "run f P64 (9 + k) (goto P64 ''entry'') s = run f P64 k (goto P64 ''loaded'') ?s" for k
      using amd64_prologue [OF assms, of f "Suc k"] regs(4) by (simp add: 0)
    moreover have "amd64_ready fr s ?s"
      using mem regs 0 by (simp add: amd64_ready_def Let_def low_def [symmetric] n_def)
    ultimately show ?thesis by (intro exI [of _ 9] exI [of _ ?s]) simp
  next
    case (Suc n')
    let ?t = "set_reg R8 (low + 32) (set_reg R11 src ?s)"
    have stack_out: "mc_regs s CX + 144 \<notin> words_at low 48"
    proof -
      have "field_at (mc_regs s CX) ''stack'' 0 \<in> words_at (mc_regs s CX) 26" unfolding field_words by (rule word_at_in) simp
      then show ?thesis using sep by (auto simp: frame_words_def field_at_def)
    qed
    have enter: "run f P64 (11 + k) (goto P64 ''entry'') s = run f P64 k (goto P64 ''copy'') ?t" for k
    proof -
      have p: "aligned 8 (mc_regs s CX)" using fr by (simp add: frame_in_def)
      have "run f P64 (11 + k) (goto P64 ''entry'') s = run f P64 (3 + k) (Branch True ''loaded'' #
          Move (field ''stack'' 0 CX) (Reg R11) # Lea 32 SP R8 # goto P64 ''copy'') ?s"
        using amd64_prologue [OF assms, of f "3 + k"] by simp
      also have "\<dots> = run f P64 k (goto P64 ''copy'') ?t"
        using p Suc zero regs mem(3) [OF stack_out]
        by (simp add: field_def src_def numeral_3_eq_3)
      finally show ?thesis .
    qed
    have "mc_regs ?t R10 = of_nat (Suc n')" "Suc n' < 1000" "aligned 8 (mc_regs ?t R11)" "aligned 8 (mc_regs ?t R8)"
      using regs n src8 Suc by (simp_all add: low_def)
    from amd64_copy [OF this, of f] obtain c where
      run: "\<And>k. run f P64 (6 * Suc n' + k) (goto P64 ''copy'') ?t = run f P64 k (goto P64 ''loaded'') c"
      and cregs: "mc_regs c SP = low" "mc_regs c CX = mc_regs s CX"
      and cmem: "mc_mem c = copy_words (mc_mem ?s) (low + 32) src n"
      using regs Suc by auto
    have run': "run f P64 (11 + 6 * n + k) (goto P64 ''entry'') s = run f P64 k (goto P64 ''loaded'') c" for k
      using enter [of "6 * n + k"] run [of k] by (simp add: Suc add.assoc)
    have area: "words_at (low + 32) n \<subseteq> words_at low 48" using n by (intro words_at_shift) simp
    have src_out: "words_at src n \<inter> words_at low 48 = {}"
      using sep by (auto simp: frame_words_def field_at_def src_def n_def)
    have kept: "mc_mem c a = mc_mem s a" if "a \<notin> words_at low 48" for a
    proof -
      have "mc_mem c a = mc_mem ?s a" unfolding cmem using that area by (intro copy_words_other) blast
      with mem(3) [OF that] show ?thesis by simp
    qed
    have saved: "mc_mem c (word_at low k) = mc_mem ?s (word_at low k)" if "k \<in> {46, 47}" for k
    proof -
      have "word_at low k \<notin> words_at (low + 32) n"
      proof
        assume "word_at low k \<in> words_at (low + 32) n"
        then obtain i where "i < n" "word_at low k = word_at low (4 + i)" unfolding words_at_def word_at_shift by blast
        with word_at_inj [of low k "4 + i"] n that show False by auto
      qed
      then show ?thesis unfolding cmem by (rule copy_words_other)
    qed
    have stack: "mc_mem c (word_at (low + 32) i) = fr_stack fr ! i" if i: "i < n" for i
    proof -
      have "mc_mem c (word_at (low + 32) i) = mc_mem ?s (word_at src i)"
        unfolding cmem using area src_out n i by (intro copy_words_copied) auto
      also have "\<dots> = mc_mem s (word_at src i)"
        using src_out word_at_in [OF i] by (intro mem(3)) blast
      finally show ?thesis using words [OF i] by simp
    qed
    have "amd64_ready fr s c"
      using cregs kept stack saved [of 46] saved [of 47] mem(1,2)
      by (simp add: amd64_ready_def Let_def low_def [symmetric] n_def)
    with run' show ?thesis by (intro exI [of _ "11 + 6 * n"] exI [of _ c]) (simp add: n_def)
  qed
qed

text \<open>The machine at the call, and the last block.\<close>

definition amd64_call :: "call_frame \<Rightarrow> amd64_reg machine \<Rightarrow> amd64_reg machine" where
  "amd64_call fr c = c\<lparr>mc_regs := (mc_regs c)(XMM 0 := fr_floats fr ! 0, XMM 1 := fr_floats fr ! 1,
     XMM 2 := fr_floats fr ! 2, XMM 3 := fr_floats fr ! 3, AX := fr_fn fr, DX := fr_ints fr ! 1, R8 := fr_ints fr ! 2,
     R9 := fr_ints fr ! 3, CX := fr_ints fr ! 0)\<rparr>"

lemma frame_in_ready:
  assumes "amd64_entry fr s" "amd64_ready fr s c" "k < 26"
  shows "mc_mem c (word_at (mc_regs s CX) k) = mc_mem s (word_at (mc_regs s CX) k)"
proof -
  have "word_at (mc_regs s CX) k \<notin> words_at (amd64_low (mc_regs s SP)) 48"
    using assms(1) word_at_in [OF assms(3)] unfolding amd64_entry_def frame_words_def by blast
  with assms(2) show ?thesis by (simp add: amd64_ready_def Let_def)
qed

lemma amd64_loaded:
  assumes entry: "amd64_entry fr s" and ready: "amd64_ready fr s c"
  shows "run f P64 (9 + k) (goto P64 ''loaded'') c = run f P64 k (drop 9 (goto P64 ''loaded'')) (amd64_call fr c)"
proof -
  let ?b = "[Move (field ''floats'' 0 CX) (Reg (XMM 0)), Move (field ''floats'' 8 CX) (Reg (XMM 1)),
    Move (field ''floats'' 16 CX) (Reg (XMM 2)), Move (field ''floats'' 24 CX) (Reg (XMM 3)),
    Move (field ''fn'' 0 CX) (Reg AX), Move (field ''ints'' 8 CX) (Reg DX), Move (field ''ints'' 16 CX) (Reg R8),
    Move (field ''ints'' 24 CX) (Reg R9), Move (field ''ints'' 0 CX) (Reg CX)]"
  have g: "goto P64 ''loaded'' = ?b @ drop 9 (goto P64 ''loaded'')" by (simp add: goto_def callTrampoline_amd64_def)
  have fr: "frame_in (mc_mem s) (mc_regs s CX) fr" using entry by (simp add: amd64_entry_def)
  have p: "aligned 8 (mc_regs s CX)" and cx: "mc_regs c CX = mc_regs s CX"
    using fr ready by (simp_all add: frame_in_def amd64_ready_def Let_def)
  note same = frame_in_ready [OF entry ready]
  have ints: "mc_mem c (word_at (mc_regs s CX) (1 + i)) = fr_ints fr ! i" if "i < 8" for i
  proof -
    have "mc_mem s (word_at (mc_regs s CX) (1 + i)) = fr_ints fr ! i" using fr that unfolding frame_in_def field_words by blast
    then show ?thesis using same [of "1 + i"] that by simp
  qed
  have floats: "mc_mem c (word_at (mc_regs s CX) (9 + i)) = fr_floats fr ! i" if "i < 8" for i
  proof -
    have "mc_mem s (word_at (mc_regs s CX) (9 + i)) = fr_floats fr ! i" using fr that unfolding frame_in_def field_words by blast
    then show ?thesis using same [of "9 + i"] that by simp
  qed
  have "mc_mem c (word_at (mc_regs s CX) 0) = fr_fn fr"
    using fr same [of 0] unfolding frame_in_def field_words by simp
  then have e: "exec_all f ?b c = Some (amd64_call fr c)"
    using p ints [of 0] ints [of 1] ints [of 2] ints [of 3] floats [of 0] floats [of 1] floats [of 2] floats [of 3]
    by (simp add: amd64_call_def cx set_reg_def field_def)
  have n: "9 + k = length ?b + k" by simp
  show ?thesis by (subst g, subst n, rule run_block [OF _ e]) simp
qed

lemma amd64_return:
  assumes entry: "amd64_entry fr s" and ready: "amd64_ready fr s c" and abi: "amd64_abi f"
  defines "r \<equiv> f (fr_fn fr) (amd64_call fr c)" and "p \<equiv> mc_regs s CX"
  shows "\<exists>s'. run f P64 8 (drop 9 (goto P64 ''loaded'')) (amd64_call fr c) = Some s' \<and> mc_regs s' SP = mc_regs s SP \<and>
    mc_mem s' = (mc_mem r)(field_at p ''r1'' 0 := mc_regs r AX, field_at p ''r2'' 0 := mc_regs r DX, field_at p ''f'' 0 := mc_regs r (XMM 0))"
proof -
  define low where "low = amd64_low (mc_regs s SP)"
  let ?b = "[CallReg AX, Alu True AddOp (Imm OUTGOING_BYTES) SP SP, Move (Mem 0 SP) (Reg CX), Move (Reg AX) (field ''r1'' 0 CX),
    Move (Reg DX) (field ''r2'' 0 CX), Move (Reg (XMM 0)) (field ''f'' 0 CX), Move (Mem 8 SP) (Reg SP)]"
  have g: "drop 9 (goto P64 ''loaded'') = ?b @ [Return]" by (simp add: goto_def callTrampoline_amd64_def)
  have p: "aligned 8 p" using entry by (simp add: amd64_entry_def frame_in_def p_def)
  have low: "aligned 8 low" by (simp add: low_def)
  have call: "mc_regs (amd64_call fr c) AX = fr_fn fr" "mc_regs (amd64_call fr c) SP = low"
      "mc_mem (amd64_call fr c) (low + 368) = p" "mc_mem (amd64_call fr c) (low + 376) = mc_regs s SP"
    using ready by (simp_all add: amd64_call_def amd64_ready_def Let_def low_def p_def)
  then have r: "mc_regs r SP = low" "mc_mem r (low + 368) = p" "mc_mem r (low + 376) = mc_regs s SP"
    using abi [unfolded amd64_abi_def, rule_format, of "fr_fn fr" "amd64_call fr c"] by (simp_all add: r_def)
  have out: "low + 376 \<noteq> p + 160" "low + 376 \<noteq> p + 168" "low + 376 \<noteq> p + 176"
  proof -
    have "low + 376 \<in> words_at low 48" using word_at_in [of 47 48 low] by simp
    then have "low + 376 \<notin> words_at p 26" using entry by (auto simp: amd64_entry_def frame_words_def low_def p_def)
    moreover have "p + 160 \<in> words_at p 26" "p + 168 \<in> words_at p 26" "p + 176 \<in> words_at p 26"
      using word_at_in [of 20 26 p] word_at_in [of 21 26 p] word_at_in [of 22 26 p] by simp_all
    ultimately show "low + 376 \<noteq> p + 160" "low + 376 \<noteq> p + 168" "low + 376 \<noteq> p + 176" by metis+
  qed
  define mem where "mem = (mc_mem r)(p + 160 := mc_regs r AX, p + 168 := mc_regs r DX, p + 176 := mc_regs r (XMM 0))"
  have "\<exists>s'. exec_all f ?b (amd64_call fr c) = Some s' \<and> mc_regs s' SP = mc_regs s SP \<and> mc_mem s' = mem"
    using p low out r by (simp add: call r_def [symmetric] mem_def OUTGOING_368 field_def add.assoc Let_def)
  then obtain s' where e: "exec_all f ?b (amd64_call fr c) = Some s'" "mc_regs s' SP = mc_regs s SP" "mc_mem s' = mem" by blast
  have n: "8 = length ?b + 1" by simp
  have "run f P64 8 (?b @ [Return]) (amd64_call fr c) = run f P64 1 [Return] s'"
    unfolding n by (rule run_block [OF _ e(1)]) simp
  also have "\<dots> = Some s'" by simp
  finally have "run f P64 8 (?b @ [Return]) (amd64_call fr c) = Some s'" .
  with e(2,3) show ?thesis unfolding g by (intro exI [of _ s']) (simp add: mem_def field_at_def)
qed

text \<open>
  The x64 trampoline carries a frame to the foreign function and the results back. When its stack does not
  overlap the frame, it never faults and returns after a bounded number of steps: at the call the first four
  words are in \<open>CX\<close>, \<open>DX\<close>, \<open>R8\<close> and \<open>R9\<close> and the first four float words in the \<open>XMM\<close> registers, the stack pointer
  is aligned to 16 bytes, the stack words follow the shadow space, and memory is otherwise as before; for a
  function that keeps to the convention, the stack pointer is then restored and the frame has the result registers.
\<close>

lemma callTrampoline_amd64_calls:
  assumes "amd64_entry fr s" "amd64_abi f" "28 + 6 * length (fr_stack fr) \<le> fuel"
  defines "p \<equiv> mc_regs s CX"
  shows "\<exists>c s'. run f callTrampoline_amd64 fuel (goto callTrampoline_amd64 ''entry'') s = Some s' \<and> amd64_receives fr c \<and>
    (\<forall>a. a \<in> words_at (amd64_low (mc_regs s SP)) 48 \<or> mc_mem c a = mc_mem s a) \<and>
    mc_regs s' SP = mc_regs s SP \<and>
    (let r = f (fr_fn fr) c in
     mc_mem s' = (mc_mem r)(field_at p ''r1'' 0 := mc_regs r AX, field_at p ''r2'' 0 := mc_regs r DX, field_at p ''f'' 0 := mc_regs r (XMM 0)))"
proof -
  obtain j c where j: "j \<le> 11 + 6 * length (fr_stack fr)" and c: "amd64_ready fr s c"
    and enter: "\<And>k. run f P64 (j + k) (goto P64 ''entry'') s = run f P64 k (goto P64 ''loaded'') c"
    using amd64_enter [OF assms(1)] by blast
  obtain s' where ret: "run f P64 8 (drop 9 (goto P64 ''loaded'')) (amd64_call fr c) = Some s'" "mc_regs s' SP = mc_regs s SP"
    "mc_mem s' = (let r = f (fr_fn fr) (amd64_call fr c) in
       (mc_mem r)(field_at p ''r1'' 0 := mc_regs r AX, field_at p ''r2'' 0 := mc_regs r DX, field_at p ''f'' 0 := mc_regs r (XMM 0)))"
    using amd64_return [OF assms(1) c assms(2)] unfolding p_def Let_def by blast
  have "run f P64 (j + 17) (goto P64 ''entry'') s = Some s'"
    using enter [of 17] amd64_loaded [OF assms(1) c, of f 8] ret(1) by simp
  then have "run f P64 fuel (goto P64 ''entry'') s = Some s'" by (rule run_more) (use j assms(3) in simp)
  moreover have "amd64_receives fr (amd64_call fr c)"
  proof -
    have "mc_regs (amd64_call fr c) (XMM i) = fr_floats fr ! i" if "i < 4" for i
    proof -
      from that have "i \<in> {0, 1, 2, 3}" by auto
      then show ?thesis by (auto simp: amd64_call_def)
    qed
    then show ?thesis using c by (simp add: amd64_receives_def amd64_ready_def Let_def) (simp add: amd64_call_def)
  qed
  moreover have "\<forall>a. a \<in> words_at (amd64_low (mc_regs s SP)) 48 \<or> mc_mem (amd64_call fr c) a = mc_mem s a"
    using c by (auto simp: amd64_ready_def Let_def amd64_call_def)
  ultimately show ?thesis using ret(2,3) by (intro exI [of _ "amd64_call fr c"] exI [of _ s']) (simp add: Let_def)
qed

section \<open>From the planner to the foreign function\<close>

text \<open>Argument \<open>i\<close> of the convention, as the function finds it.\<close>

definition amd64_argument :: "amd64_reg machine \<Rightarrow> nat \<Rightarrow> 64 word" where
  "amd64_argument c i =
     (if i = 0 then mc_regs c CX else if i = 1 then mc_regs c DX else if i = 2 then mc_regs c R8
      else if i = 3 then mc_regs c R9 else mc_mem c (word_at (mc_regs c SP + 32) (i - 4)))"

lemma received_argument:
  "amd64_receives fr c \<Longrightarrow> i < 4 + length (fr_stack fr) \<Longrightarrow> amd64_argument c i = amd64_slot fr i"
proof -
  assume c: "amd64_receives fr c" and i: "i < 4 + length (fr_stack fr)"
  have "i = 0 \<or> i = 1 \<or> i = 2 \<or> i = 3 \<or> 4 \<le> i" by arith
  then show ?thesis
  proof (elim disjE)
    assume "4 \<le> i"
    then obtain k where "i = 4 + k" using le_Suc_ex by blast
    then show ?thesis using c i by (simp add: amd64_receives_def amd64_argument_def amd64_slot_def)
  qed (use c in \<open>simp_all add: amd64_receives_def amd64_argument_def amd64_slot_def\<close>)
qed

text \<open>
  \<^bold>\<open>C18\<close>: on x64 every argument of a call reaches the foreign function where the convention wants it. With the
  planned frame in memory and the trampoline's stack apart from it, the trampoline returns without a fault, and
  the function it calls finds each argument in its integer register or on the stack behind the shadow space:
  words and float bits as they are and, among the first four, in the \<open>XMM\<close> register too, small composites as their
  bytes, others as the address of an aligned copy, behind the result's address if there is one. For a function
  that keeps to the convention the stack pointer is restored and the frame then has its result registers. The
  planner does not panic.
\<close>

theorem Call_amd64_arrives:
  fixes m :: memory and fn ret :: "64 word"
  assumes len: "length args = length (cs_Args spec)" and sep: "separate alloc bound (zip (cs_Args spec) args)"
    and entry: "amd64_entry (pl_frame (planAMD64 alloc spec ret args (new_plan fn m))) s" and abi: "amd64_abi f"
    and fuel: "28 + 6 * maxStackWords \<le> fuel"
  defines "p \<equiv> planAMD64 alloc spec ret args (new_plan fn m)"
    and "off \<equiv> (if hidden_result (cs_Ret spec) then 1 else 0 :: nat)" and "fp \<equiv> mc_regs s CX"
  shows "\<exists>c s'. run f callTrampoline_amd64 fuel (goto callTrampoline_amd64 ''entry'') s = Some s' \<and>
    (\<forall>i < length args. delivered m (cs_Args spec ! i, args ! i) (amd64_argument c (i + off)) (pl_mem p) \<and>
       (i + off < 4 \<longrightarrow> mc_regs c (XMM (i + off)) = amd64_argument c (i + off)) \<and> (off = 1 \<longrightarrow> amd64_argument c 0 = ret)) \<and>
    mc_regs s' SP = mc_regs s SP \<and> pl_panic p = None \<and>
    (let r = f (fr_fn (pl_frame p)) c in mc_mem s' =
       (mc_mem r)(field_at fp ''r1'' 0 := mc_regs r AX, field_at fp ''r2'' 0 := mc_regs r DX, field_at fp ''f'' 0 := mc_regs r (XMM 0)))"
proof -
  have panic: "pl_panic p = None" unfolding p_def by (rule planAMD64_no_panic [OF sep])
  have "length (fr_stack (pl_frame p)) \<le> maxStackWords" using entry by (simp add: amd64_entry_def frame_in_def p_def)
  then have "28 + 6 * length (fr_stack (pl_frame p)) \<le> fuel" using fuel by simp
  from callTrampoline_amd64_calls [OF entry [folded p_def] abi this] obtain c s' where
    run: "run f callTrampoline_amd64 fuel (goto callTrampoline_amd64 ''entry'') s = Some s'"
    and c: "amd64_receives (pl_frame p) c" and sp: "mc_regs s' SP = mc_regs s SP"
    and res: "let r = f (fr_fn (pl_frame p)) c in mc_mem s' =
       (mc_mem r)(field_at fp ''r1'' 0 := mc_regs r AX, field_at fp ''r2'' 0 := mc_regs r DX, field_at fp ''f'' 0 := mc_regs r (XMM 0))"
    unfolding fp_def by blast
  have "delivered m (cs_Args spec ! i, args ! i) (amd64_argument c (i + off)) (pl_mem p) \<and>
      (i + off < 4 \<longrightarrow> mc_regs c (XMM (i + off)) = amd64_argument c (i + off)) \<and> (off = 1 \<longrightarrow> amd64_argument c 0 = ret)"
    if i: "i < length args" for i
  proof -
    note plan = planAMD64_delivers [OF len sep i, where ret = ret and fn = fn and m = m, folded p_def off_def]
    have "amd64_argument c (i + off) = amd64_slot (pl_frame p) (i + off)" "amd64_argument c 0 = amd64_slot (pl_frame p) 0"
      using plan i by (auto intro!: received_argument [OF c])
    moreover have "i + off < 4 \<longrightarrow> mc_regs c (XMM (i + off)) = fr_floats (pl_frame p) ! (i + off)"
      using c by (simp add: amd64_receives_def)
    ultimately show ?thesis using plan by simp
  qed
  with run sp res panic show ?thesis by blast
qed

text \<open>The words of a frame at \<open>0x1000\<close>, and buffers for calls that take words only.\<close>

definition frame_image :: "call_frame \<Rightarrow> 64 word \<Rightarrow> 64 word" where
  "frame_image fr a =
     (let i = unat (a - 0x1000) div 8;
          ws = fr_fn fr # fr_ints fr @ fr_floats fr @ [of_nat (length (fr_stack fr)), 0x10D0, fr_x8 fr, 0, 0, 0, 0, 0, 0] @ fr_stack fr
      in if i < length ws then ws ! i else 0)"

definition far_buffers :: "nat \<Rightarrow> 64 word" where
  "far_buffers k = 0x100000 + 0x1000 * of_nat k"

definition words_spec :: "nat \<Rightarrow> call_spec" where
  "words_spec n = \<lparr>cs_Args = replicate n (plain_arg ArgWord), cs_Ret = plain_arg ArgWord\<rparr>"

lemma words_separate: "length xs < 1000 \<Longrightarrow> \<forall>x \<in> set xs. fst x = plain_arg ArgWord \<Longrightarrow> separate far_buffers 16 xs"
proof -
  assume n: "length xs < 1000" and w: "\<forall>x \<in> set xs. fst x = plain_arg ArgWord"
  have buffer: "unat (far_buffers k) = 0x100000 + 0x1000 * k" if "k < 1000" for k
    using that by (simp add: far_buffers_def unat_word_ariths unat_of_nat)
  have "region (far_buffers k) 16 \<inter> region (far_buffers l) 16 = {}" if "k < length xs" "l < k" for k l
    by (rule region_disjoint(2)) (use that n buffer [of k] buffer [of l] in simp_all)
  moreover have "region a (struct_size (plain_arg ArgWord)) = {}" for a by (simp add: region_def struct_size_def plain_arg_def)
  moreover have "struct_size (plain_arg ArgWord) + 16 \<le> 16" by (simp add: struct_size_def plain_arg_def)
  ultimately show ?thesis using w by (auto simp: separate_def)
qed

lemma words_spec_separate: "n < 1000 \<Longrightarrow> length args = n \<Longrightarrow> separate far_buffers 16 (zip (cs_Args (words_spec n)) args)"
  by (rule words_separate) (auto simp: words_spec_def dest: set_zip_leftD)

text \<open>A call with six words, of a function that adds its first and its fifth argument.\<close>

definition sample_frame :: call_frame where
  "sample_frame = \<lparr>fr_fn = 0x5000, fr_ints = [1, 2, 3, 4, 0, 0, 0, 0], fr_floats = [1, 2, 3, 4, 0, 0, 0, 0],
     fr_stack = [50, 60], fr_x8 = 0\<rparr>"

definition add_first_fifth :: "amd64_reg callee" where
  "add_first_fifth t s = set_reg AX (mc_regs s CX + mc_mem s (mc_regs s SP + 32)) s"

definition sample_amd64 :: "amd64_reg machine" where
  "sample_amd64 = \<lparr>mc_regs = (\<lambda>_. 0)(CX := 0x1000, SP := 0x8008), mc_mem = frame_image sample_frame, mc_zero = False\<rparr>"

lemma sample_entry: "amd64_entry sample_frame sample_amd64"
proof -
  have regs: "mc_regs sample_amd64 CX = 0x1000" "mc_regs sample_amd64 SP = 0x8008" by (simp_all add: sample_amd64_def)
  have low: "amd64_low 0x8008 = 0x7E80" "mc_mem sample_amd64 (field_at 0x1000 ''stack'' 0) = 0x10D0" by code_simp+
  have n: "length (fr_stack sample_frame) = 2" by (simp add: sample_frame_def)
  have fr: "frame_in (mc_mem sample_amd64) 0x1000 sample_frame" by code_simp
  have "words_at 0x7E80 48 \<inter> words_at 0x1000 26 = {}" "words_at 0x7E80 48 \<inter> words_at 0x10D0 2 = {}"
    by (rule words_at_apart; simp)+
  then show ?thesis using fr n by (simp add: amd64_entry_def frame_words_def regs low Int_Un_distrib)
qed

lemma Call_amd64_arrives_witness:
  "\<exists>s'. run add_first_fifth callTrampoline_amd64 280 (goto callTrampoline_amd64 ''entry'') sample_amd64 = Some s' \<and>
     mc_regs s' SP = 0x8008 \<and> mc_mem s' (field_at 0x1000 ''r1'' 0) = 51"
proof -
  let ?args = "[1, 2, 3, 4, 50, 60] :: 64 word list"
  have frame: "pl_frame (planAMD64 far_buffers (words_spec 6) 0 ?args (new_plan 0x5000 (\<lambda>_. 0))) = sample_frame" by code_simp
  have len: "length ?args = length (cs_Args (words_spec 6))" by (simp add: words_spec_def)
  have sep: "separate far_buffers 16 (zip (cs_Args (words_spec 6)) ?args)" by (rule words_spec_separate) simp_all
  have abi: "amd64_abi add_first_fifth" by (simp add: amd64_abi_def add_first_fifth_def)
  have fuel: "28 + 6 * maxStackWords \<le> 280" by (simp add: maxStackWords_def)
  have regs: "mc_regs sample_amd64 CX = 0x1000" "mc_regs sample_amd64 SP = 0x8008" by (simp_all add: sample_amd64_def)
  have no_result: "\<not> hidden_result (cs_Ret (words_spec 6))" by code_simp
  from Call_amd64_arrives [OF len sep, where ret = 0 and fn = "0x5000" and m = "\<lambda>_. 0", unfolded frame, OF sample_entry abi fuel] no_result
  obtain c s' where run: "run add_first_fifth callTrampoline_amd64 280 (goto callTrampoline_amd64 ''entry'') sample_amd64 = Some s'"
    and args: "\<forall>i < length ?args. delivered (\<lambda>_. 0) (cs_Args (words_spec 6) ! i, ?args ! i) (amd64_argument c i)
      (pl_mem (planAMD64 far_buffers (words_spec 6) 0 ?args (new_plan 0x5000 (\<lambda>_. 0))))"
    and sp: "mc_regs s' SP = 0x8008"
    and mem: "let r = add_first_fifth (fr_fn sample_frame) c in mc_mem s' =
       (mc_mem r)(field_at 0x1000 ''r1'' 0 := mc_regs r AX, field_at 0x1000 ''r2'' 0 := mc_regs r DX, field_at 0x1000 ''f'' 0 := mc_regs r (XMM 0))"
    unfolding regs by auto
  have "amd64_argument c 0 = 1" "amd64_argument c 4 = 50"
    using args [rule_format, of 0] args [rule_format, of 4] by (simp_all add: delivered_def words_spec_def plain_arg_def)
  then have "mc_regs c CX = 1" "mc_mem c (mc_regs c SP + 32) = 50" by (simp_all add: amd64_argument_def)
  then have "mc_mem s' (field_at 0x1000 ''r1'' 0) = 51"
    using mem by (simp add: Let_def field_at_def add_first_fifth_def)
  with run sp show ?thesis by blast
qed

end
