(* ===== verification/ArmCall.thy ===== *)
theory ArmCall
  imports CallFacts
begin

text \<open>
  The AArch64 planner of \<open>call.go\<close> gives every argument the run of registers or of stack words the
  procedure call standard assigns to it, and nothing planned later touches it: integers, pointers and
  small composites in X registers or on the stack, floats and homogeneous float aggregates in V
  registers or on the stack. \<open>aapcs_locations\<close> is the standard's assignment, from the descriptors alone.
\<close>

section \<open>Locations\<close>

datatype arm_loc = X nat | V nat | Stk nat

fun read_loc :: "call_frame \<Rightarrow> arm_loc \<Rightarrow> 64 word" where
  "read_loc fr (X i) = fr_ints fr ! i"
| "read_loc fr (V i) = fr_floats fr ! i"
| "read_loc fr (Stk i) = fr_stack fr ! i"

abbreviation arm_stack :: "arm_plan \<Rightarrow> 64 word list" where
  "arm_stack s \<equiv> fr_stack (pl_frame (ap_plan s))"

abbreviation arm_mem :: "arm_plan \<Rightarrow> memory" where
  "arm_mem s \<equiv> pl_mem (ap_plan s)"

abbreviation arm_kept :: "arm_plan \<Rightarrow> nat" where
  "arm_kept s \<equiv> length (pl_keep (ap_plan s))"

abbreviation arm_read :: "arm_plan \<Rightarrow> arm_loc \<Rightarrow> 64 word" where
  "arm_read s \<equiv> read_loc (pl_frame (ap_plan s))"

text \<open>The locations already given away.\<close>

fun used_loc :: "arm_plan \<Rightarrow> arm_loc \<Rightarrow> bool" where
  "used_loc s (X i) = (i < ap_ngrn s)"
| "used_loc s (V i) = (i < ap_nsrn s)"
| "used_loc s (Stk i) = (i < length (arm_stack s))"

definition arm_inv :: "arm_plan \<Rightarrow> bool" where
  "arm_inv s \<longleftrightarrow> ap_ngrn s \<le> 8 \<and> ap_nsrn s \<le> 8 \<and>
     length (fr_ints (pl_frame (ap_plan s))) = 8 \<and> length (fr_floats (pl_frame (ap_plan s))) = 8"

text \<open>A later state of the planner: what was given away keeps its value, only new buffers change.\<close>

definition later :: "(nat \<Rightarrow> 64 word) \<Rightarrow> nat \<Rightarrow> nat \<Rightarrow> arm_plan \<Rightarrow> arm_plan \<Rightarrow> bool" where
  "later alloc bound n s s' \<longleftrightarrow> arm_inv s' \<and> (\<forall>l. used_loc s l \<longrightarrow> used_loc s' l \<and> arm_read s' l = arm_read s l) \<and>
     arm_kept s \<le> arm_kept s' \<and> arm_kept s' \<le> n \<and> same_outside alloc bound (arm_kept s) (arm_kept s') (arm_mem s) (arm_mem s')"

lemma later_refl: "arm_inv s \<Longrightarrow> arm_kept s \<le> n \<Longrightarrow> later alloc bound n s s"
  by (simp add: later_def same_outside_refl)

lemma later_trans: "later alloc bound n s s1 \<Longrightarrow> later alloc bound n s1 s2 \<Longrightarrow> later alloc bound n s s2"
proof -
  assume a: "later alloc bound n s s1" and b: "later alloc bound n s1 s2"
  have "same_outside alloc bound (arm_kept s) (arm_kept s2) (arm_mem s) (arm_mem s2)"
    by (rule same_outside_trans [of _ _ _ "arm_kept s1" _ "arm_mem s1"]) (use a b in \<open>simp_all add: later_def\<close>)
  with a b show ?thesis by (simp add: later_def)
qed

section \<open>The convention\<close>

text \<open>
  The assignment of the AArch64 procedure call standard, as Windows uses it: the locations of the next
  argument and what is used after it, from the X registers, V registers and stack words used so
  far. A composite that no longer fits its registers goes to the stack as a whole, and then no later
  argument takes a register of that kind; a composite of more than 16 bytes is passed as a pointer;
  one aligned to 16 bytes starts at an even X register or stack word.
\<close>

definition words_of :: "arg_desc \<Rightarrow> nat" where
  "words_of a = (unat (ad_Size a) + 7) div 8"

definition even_from :: "arg_desc \<Rightarrow> nat \<Rightarrow> nat" where
  "even_from a n = (if 16 \<le> ad_Align a \<and> odd n then n + 1 else n)"

definition aapcs_next :: "arg_desc \<Rightarrow> nat \<Rightarrow> nat \<Rightarrow> nat \<Rightarrow> arm_loc list \<times> nat \<times> nat \<times> nat" where
  "aapcs_next a ngrn nsrn nsaa =
     (let elements = unat (ad_HFA a); k = words_of a; reg = even_from a ngrn; start = even_from a nsaa in
      if ad_Kind a = ArgFloat32 \<or> ad_Kind a = ArgFloat64 then
        if nsrn < 8 then ([V nsrn], ngrn, nsrn + 1, nsaa) else ([Stk nsaa], ngrn, 8, nsaa + 1)
      else if ad_Kind a = ArgStruct \<and> 0 < elements then
        if nsrn + elements \<le> 8 then (map V [nsrn..<nsrn + elements], ngrn, nsrn + elements, nsaa)
        else (map Stk [start..<start + k], ngrn, 8, start + k)
      else if ad_Kind a = ArgStruct \<and> unat (ad_Size a) \<le> 16 then
        if reg + k \<le> 8 then (map X [reg..<reg + k], reg + k, nsrn, nsaa)
        else (map Stk [start..<start + k], 8, nsrn, start + k)
      else if ngrn < 8 then ([X ngrn], ngrn + 1, nsrn, nsaa) else ([Stk nsaa], 8, nsrn, nsaa + 1))"

fun aapcs_from :: "nat \<Rightarrow> nat \<Rightarrow> nat \<Rightarrow> arg_desc list \<Rightarrow> arm_loc list list" where
  "aapcs_from ngrn nsrn nsaa [] = []"
| "aapcs_from ngrn nsrn nsaa (a # rest) =
     (case aapcs_next a ngrn nsrn nsaa of (ls, ngrn, nsrn, nsaa) \<Rightarrow> ls # aapcs_from ngrn nsrn nsaa rest)"

definition aapcs_locations :: "arg_desc list \<Rightarrow> arm_loc list list" where
  "aapcs_locations = aapcs_from 0 0 0"

text \<open>
  Nine words fill the registers and reach the stack; a 16-byte structure that no longer fits goes to the
  stack as a whole and closes the X registers for the word after it, and an HFA the V registers for the
  float after it.
\<close>

lemma aapcs_samples:
  "aapcs_locations (replicate 9 (plain_arg ArgWord)) = map (\<lambda>i. [X i]) [0..<8] @ [[Stk 0]]"
  "aapcs_locations (replicate 7 (plain_arg ArgWord) @ [Struct 16 8 0 False, plain_arg ArgWord]) =
     map (\<lambda>i. [X i]) [0..<7] @ [[Stk 0, Stk 1], [Stk 2]]"
  "aapcs_locations [Struct 24 8 3 True, Struct 24 8 3 True, Struct 24 8 3 True, plain_arg ArgFloat64] =
     [[V 0, V 1, V 2], [V 3, V 4, V 5], [Stk 0, Stk 1, Stk 2], [Stk 3]]"
  by code_simp+

abbreviation arm_next :: "arm_plan \<Rightarrow> arg_desc \<Rightarrow> arm_loc list \<times> nat \<times> nat \<times> nat" where
  "arm_next s a \<equiv> aapcs_next a (ap_ngrn s) (ap_nsrn s) (length (arm_stack s))"

section \<open>Steps of the planner\<close>

text \<open>A step that gives away the locations \<open>ls\<close> with the words \<open>ws\<close> and copies nothing.\<close>

definition gives :: "arm_plan \<Rightarrow> arm_loc list \<Rightarrow> 64 word list \<Rightarrow> arm_plan \<Rightarrow> bool" where
  "gives s ls ws s' \<longleftrightarrow> arm_inv s' \<and> (\<forall>l. used_loc s l \<longrightarrow> used_loc s' l \<and> arm_read s' l = arm_read s l) \<and>
     pl_mem (ap_plan s') = pl_mem (ap_plan s) \<and> pl_keep (ap_plan s') = pl_keep (ap_plan s) \<and>
     distinct ls \<and> (\<forall>l \<in> set ls. \<not> used_loc s l \<and> used_loc s' l) \<and> map (arm_read s') ls = ws"

lemma gives_later: "gives s ls ws s' \<Longrightarrow> arm_kept s \<le> n \<Longrightarrow> later alloc bound n s s'"
  by (simp add: gives_def later_def same_outside_refl)

lemma put_ints_effect:
  "(let s' = put_ints ws s in ap_ngrn s' = ap_ngrn s + length ws \<and> ap_nsrn s' = ap_nsrn s \<and>
     arm_stack s' = arm_stack s \<and> fr_floats (pl_frame (ap_plan s')) = fr_floats (pl_frame (ap_plan s)) \<and>
     pl_mem (ap_plan s') = pl_mem (ap_plan s) \<and> pl_keep (ap_plan s') = pl_keep (ap_plan s) \<and>
     length (fr_ints (pl_frame (ap_plan s'))) = length (fr_ints (pl_frame (ap_plan s))) \<and>
     pl_panic (ap_plan s') = pl_panic (ap_plan s) \<and>
     (\<forall>i < ap_ngrn s. fr_ints (pl_frame (ap_plan s')) ! i = fr_ints (pl_frame (ap_plan s)) ! i) \<and>
     (\<forall>k < length ws. ap_ngrn s + k < length (fr_ints (pl_frame (ap_plan s))) \<longrightarrow>
        fr_ints (pl_frame (ap_plan s')) ! (ap_ngrn s + k) = ws ! k))"
proof (induction ws arbitrary: s)
  case (Cons w ws)
  let ?s1 = "s\<lparr>ap_plan := set_int (ap_ngrn s) w (ap_plan s), ap_ngrn := ap_ngrn s + 1\<rparr>"
  have step: "put_ints (w # ws) s = put_ints ws ?s1" by (simp add: put_ints_def)
  show ?case
    using Cons [of ?s1] unfolding step Let_def
    by (auto simp: set_int_def nth_list_update nth_Cons split: nat.splits)
qed (simp add: put_ints_def)

lemma put_floats_effect:
  "(let s' = put_floats ws s in ap_nsrn s' = ap_nsrn s + length ws \<and> ap_ngrn s' = ap_ngrn s \<and>
     arm_stack s' = arm_stack s \<and> fr_ints (pl_frame (ap_plan s')) = fr_ints (pl_frame (ap_plan s)) \<and>
     pl_mem (ap_plan s') = pl_mem (ap_plan s) \<and> pl_keep (ap_plan s') = pl_keep (ap_plan s) \<and>
     length (fr_floats (pl_frame (ap_plan s'))) = length (fr_floats (pl_frame (ap_plan s))) \<and>
     pl_panic (ap_plan s') = pl_panic (ap_plan s) \<and>
     (\<forall>i < ap_nsrn s. fr_floats (pl_frame (ap_plan s')) ! i = fr_floats (pl_frame (ap_plan s)) ! i) \<and>
     (\<forall>k < length ws. ap_nsrn s + k < length (fr_floats (pl_frame (ap_plan s))) \<longrightarrow>
        fr_floats (pl_frame (ap_plan s')) ! (ap_nsrn s + k) = ws ! k))"
proof (induction ws arbitrary: s)
  case (Cons w ws)
  let ?s1 = "s\<lparr>ap_plan := set_float (ap_nsrn s) w (ap_plan s), ap_nsrn := ap_nsrn s + 1\<rparr>"
  have step: "put_floats (w # ws) s = put_floats ws ?s1" by (simp add: put_floats_def)
  show ?case
    using Cons [of ?s1] unfolding step Let_def
    by (auto simp: set_float_def nth_list_update nth_Cons split: nat.splits)
qed (simp add: put_floats_def)

lemma gives_ints:
  assumes "arm_inv s" "ap_ngrn s + length ws \<le> 8"
  shows "gives s (map X [ap_ngrn s..<ap_ngrn s + length ws]) ws (put_ints ws s)"
proof -
  let ?s' = "put_ints ws s"
  note e = put_ints_effect [of ws s, unfolded Let_def]
  have "used_loc ?s' l \<and> arm_read ?s' l = arm_read s l" if "used_loc s l" for l
    using that e by (cases l) auto
  moreover have "map (arm_read ?s') (map X [ap_ngrn s..<ap_ngrn s + length ws]) = ws"
    using e assms by (intro nth_equalityI) (auto simp: arm_inv_def)
  ultimately show ?thesis using e assms by (auto simp: gives_def arm_inv_def distinct_map inj_on_def)
qed

lemma gives_floats:
  assumes "arm_inv s" "ap_nsrn s + length ws \<le> 8"
  shows "gives s (map V [ap_nsrn s..<ap_nsrn s + length ws]) ws (put_floats ws s)"
proof -
  let ?s' = "put_floats ws s"
  note e = put_floats_effect [of ws s, unfolded Let_def]
  have "used_loc ?s' l \<and> arm_read ?s' l = arm_read s l" if "used_loc s l" for l
    using that e by (cases l) auto
  moreover have "map (arm_read ?s') (map V [ap_nsrn s..<ap_nsrn s + length ws]) = ws"
    using e assms by (intro nth_equalityI) (auto simp: arm_inv_def)
  ultimately show ?thesis using e assms by (auto simp: gives_def arm_inv_def distinct_map inj_on_def)
qed

lemma gives_stack:
  assumes "arm_inv s" "s' = s\<lparr>ap_plan := push_stack (pad @ ws) (ap_plan s)\<rparr>"
  shows "gives s (map Stk [length (arm_stack s @ pad)..<length (arm_stack s @ pad) + length ws]) ws s'"
proof -
  have st: "arm_stack s' = arm_stack s @ pad @ ws" "ap_ngrn s' = ap_ngrn s" "ap_nsrn s' = ap_nsrn s"
    "fr_ints (pl_frame (ap_plan s')) = fr_ints (pl_frame (ap_plan s))"
    "fr_floats (pl_frame (ap_plan s')) = fr_floats (pl_frame (ap_plan s))"
    "arm_mem s' = arm_mem s" "pl_keep (ap_plan s') = pl_keep (ap_plan s)"
    by (simp_all add: assms(2) push_stack_def)
  have "used_loc s' l \<and> arm_read s' l = arm_read s l" if "used_loc s l" for l
    using that st by (cases l) (auto simp: nth_append)
  moreover have "map (arm_read s') (map Stk [length (arm_stack s @ pad)..<length (arm_stack s @ pad) + length ws]) = ws"
    using st by (intro nth_equalityI) (auto simp: nth_append)
  ultimately show ?thesis using assms(1) st by (auto simp: gives_def arm_inv_def distinct_map inj_on_def)
qed

text \<open>Leaving registers unused before a step.\<close>

lemma gives_skip:
  assumes "gives s1 ls ws s'" "ap_plan s1 = ap_plan s" "ap_ngrn s \<le> ap_ngrn s1" "ap_nsrn s \<le> ap_nsrn s1"
  shows "gives s ls ws s'"
proof -
  have "used_loc s l \<Longrightarrow> used_loc s1 l" for l using assms(2-4) by (cases l) auto
  with assms(1,2) show ?thesis unfolding gives_def by auto
qed

lemma gives_int:
  assumes "arm_inv s"
  shows "gives s [if ap_ngrn s < 8 then X (ap_ngrn s) else Stk (length (arm_stack s))] [w] (put_int w s)"
proof (cases "ap_ngrn s < 8")
  case True
  then have "put_int w s = put_ints [w] s" by (simp add: put_int_def put_ints_def)
  with gives_ints [OF assms, of "[w]"] True show ?thesis by simp
next
  case False
  then have "put_int w s = s\<lparr>ap_plan := push_stack ([] @ [w]) (ap_plan s)\<rparr>" by (simp add: put_int_def)
  from gives_stack [OF assms this] False show ?thesis by simp
qed

lemma gives_float:
  assumes "arm_inv s"
  shows "gives s [if ap_nsrn s < 8 then V (ap_nsrn s) else Stk (length (arm_stack s))] [w]
    (if ap_nsrn s < 8 then put_floats [w] s else s\<lparr>ap_nsrn := 8, ap_plan := push_stack [w] (ap_plan s)\<rparr>)"
proof (cases "ap_nsrn s < 8")
  case True
  with gives_floats [OF assms, of "[w]"] show ?thesis by simp
next
  case False
  then have "s\<lparr>ap_nsrn := 8, ap_plan := push_stack [w] (ap_plan s)\<rparr> = s\<lparr>ap_plan := push_stack ([] @ [w]) (ap_plan s)\<rparr>"
    using assms by (simp add: arm_inv_def)
  from gives_stack [OF assms this] False show ?thesis by simp
qed

lemma put_composite_push:
  assumes "word_count (ad_Size a) \<noteq> 0"
  shows "put_composite w a s = s\<lparr>ap_plan := push_stack ((if 16 \<le> ad_Align a \<and> odd (length (arm_stack s)) then [0] else []) @
    composite_words (arm_mem s) w (ad_Size a)) (ap_plan s)\<rparr>"
  using assms by (simp add: put_composite_def push_stack_def appendComposite_def Let_def)

lemma gives_composite:
  fixes s :: arm_plan and a :: arg_desc
  assumes "arm_inv s" "word_count (ad_Size a) \<noteq> 0"
  defines "start \<equiv> even_from a (length (arm_stack s))"
  shows "gives s (map Stk [start..<start + word_count (ad_Size a)]) (composite_words (arm_mem s) w (ad_Size a))
    (put_composite w a s)"
proof -
  let ?pad = "if 16 \<le> ad_Align a \<and> odd (length (arm_stack s)) then [0 :: 64 word] else []"
  have "length (arm_stack s @ ?pad) = start" by (simp add: start_def even_from_def)
  with gives_stack [OF assms(1) put_composite_push [OF assms(2)]] show ?thesis by (simp add: composite_words_def)
qed

text \<open>The 32-bit rounding to words is exact for the sizes of composites that are not copied.\<close>

lemma word_count_exact: "ad_Kind a = ArgStruct \<Longrightarrow> copy_fits a \<Longrightarrow> word_count (ad_Size a) = words_of a"
proof -
  assume "ad_Kind a = ArgStruct" "copy_fits a"
  then have "unat (ad_Size a + 7) = unat (ad_Size a) + 7" by (simp add: copy_fits_def unat_word_ariths(1))
  then show ?thesis by (simp add: word_count_def words_of_def unat_div)
qed

section \<open>Delivery\<close>

text \<open>The elements of a float aggregate lie inside it.\<close>

definition hfa_fits :: "arg_desc \<Rightarrow> bool" where
  "hfa_fits a \<longleftrightarrow> unat (ad_HFA a) * (if ad_HFA64 a then 8 else 4) \<le> unat (ad_Size a)"

definition hfa_elements :: "memory \<Rightarrow> 64 word \<Rightarrow> arg_desc \<Rightarrow> 64 word list" where
  "hfa_elements m w a = map (\<lambda>e. hfaElement m w e (ad_HFA64 a)) [0..<unat (ad_HFA a)]"

definition run_of :: "(nat \<Rightarrow> arm_loc) \<Rightarrow> nat \<Rightarrow> arm_loc list \<Rightarrow> bool" where
  "run_of C k ls \<longleftrightarrow> (\<exists>n. ls = map C [n..<n + k])"

text \<open>What the callee finds at the locations of an argument, by its descriptor.\<close>

definition arm_delivered :: "memory \<Rightarrow> arg_desc \<times> 64 word \<Rightarrow> arm_loc list \<Rightarrow> call_frame \<Rightarrow> memory \<Rightarrow> bool" where
  "arm_delivered m0 x ls fr m \<longleftrightarrow> (case x of (a, w) \<Rightarrow>
     let ws = map (read_loc fr) ls; value = composite_words m0 w (ad_Size a); k = word_count (ad_Size a) in
     (case ad_Kind a of
        ArgWord \<Rightarrow> (run_of X 1 ls \<or> run_of Stk 1 ls) \<and> ws = [w]
      | ArgStruct \<Rightarrow>
          if 0 < ad_HFA a then
            run_of V (unat (ad_HFA a)) ls \<and> ws = hfa_elements m0 w a \<or> run_of Stk k ls \<and> ws = value
          else if 16 < ad_Size a then (run_of X 1 ls \<or> run_of Stk 1 ls) \<and> carries m0 8 x (hd ws) m
          else (run_of X k ls \<or> run_of Stk k ls) \<and> ws = value
      | _ \<Rightarrow> (run_of V 1 ls \<or> run_of Stk 1 ls) \<and> ws = [w]))"

lemma run_ofI [simp, intro]: "run_of C 1 [C n]" "run_of C (Suc 0) [C n]" "run_of C k (map C [n..<n + k])"
  by (auto simp: run_of_def intro: exI [of _ n])

lemma word_count_inside: "k < word_count n \<Longrightarrow> 8 * k < unat n"
proof -
  assume k: "k < word_count n"
  have "unat (n + 7) \<le> unat n + 7" by (simp add: unat_word_ariths(1))
  moreover have "word_count n = unat (n + 7) div 8" by (simp add: word_count_def unat_div)
  ultimately show ?thesis using k by linarith
qed

lemma composite_words_cong:
  assumes "\<And>j. j < unat n \<Longrightarrow> m (w + of_nat j) = m' (w + of_nat j)"
  shows "composite_words m w n = composite_words m' w n"
proof -
  have "loadWord m (w + of_nat (8 * k)) (min 8 (unat n - 8 * k)) = loadWord m' (w + of_nat (8 * k)) (min 8 (unat n - 8 * k))"
    if "k < word_count n" for k
  proof (rule loadWord_cong)
    fix j
    assume "j < min 8 (unat n - 8 * k)"
    then have "8 * k + j < unat n" by (simp add: less_diff_conv add.commute)
    from assms [OF this] show "m (w + of_nat (8 * k) + of_nat j) = m' (w + of_nat (8 * k) + of_nat j)"
      by (simp add: add.assoc)
  qed
  then show ?thesis by (simp add: composite_words_def)
qed

lemma hfa_elements_cong:
  assumes fits: "hfa_fits a" and same: "\<And>j. j < unat (ad_Size a) \<Longrightarrow> m (w + of_nat j) = m' (w + of_nat j)"
  shows "hfa_elements m w a = hfa_elements m' w a"
proof -
  have "hfaElement m w e (ad_HFA64 a) = hfaElement m' w e (ad_HFA64 a)" if e: "e < unat (ad_HFA a)" for e
  proof -
    define c :: nat where "c = (if ad_HFA64 a then 8 else 4)"
    have "loadWord m (w + of_nat (e * c)) c = loadWord m' (w + of_nat (e * c)) c"
    proof (rule loadWord_cong)
      fix j
      assume j: "j < c"
      have "e * c + j < Suc e * c" using j by simp
      also have "\<dots> \<le> unat (ad_HFA a) * c" using e by (intro mult_le_mono1) simp
      also have "\<dots> \<le> unat (ad_Size a)" using fits by (simp add: hfa_fits_def c_def)
      finally have "m (w + of_nat (e * c + j)) = m' (w + of_nat (e * c + j))" by (rule same)
      then show "m (w + of_nat (e * c) + of_nat j) = m' (w + of_nat (e * c) + of_nat j)" by (simp add: add.assoc)
    qed
    then show ?thesis by (simp add: hfaElement_def c_def split: if_splits)
  qed
  then show ?thesis by (simp add: hfa_elements_def)
qed

text \<open>One argument: new locations of its own, which no later step changes.\<close>

definition arm_placed :: "(nat \<Rightarrow> 64 word) \<Rightarrow> nat \<Rightarrow> nat \<Rightarrow> memory \<Rightarrow> arm_plan \<Rightarrow> arg_desc \<times> 64 word \<Rightarrow> arm_loc list \<Rightarrow> arm_plan \<Rightarrow> bool" where
  "arm_placed alloc bound n m0 s x ls s' \<longleftrightarrow> distinct ls \<and> (\<forall>l \<in> set ls. \<not> used_loc s l \<and> used_loc s' l) \<and>
     later alloc bound n s s' \<and> arm_kept s' \<le> Suc (arm_kept s) \<and>
     (\<forall>s''. later alloc bound n s' s'' \<longrightarrow> arm_delivered m0 x ls (pl_frame (ap_plan s'')) (arm_mem s''))"

lemma gives_kept_values:
  assumes g: "gives s ls ws s'" and l: "later alloc bound n s' s''"
  shows "map (arm_read s'') ls = ws"
proof -
  have "map (arm_read s'') ls = map (arm_read s') ls"
  proof (rule map_cong)
    fix x
    assume "x \<in> set ls"
    then have "used_loc s' x" using g by (simp add: gives_def)
    then show "arm_read s'' x = arm_read s' x" using l by (simp add: later_def)
  qed simp
  also have "\<dots> = ws" using g unfolding gives_def by blast
  finally show ?thesis .
qed

lemma gives_placed:
  assumes g: "gives s ls ws s'" and n: "arm_kept s \<le> n"
    and d: "\<And>fr m. map (read_loc fr) ls = ws \<Longrightarrow> arm_delivered m0 x ls fr m"
  shows "arm_placed alloc bound n m0 s x ls s'"
proof -
  have "later alloc bound n s' s'' \<Longrightarrow> arm_delivered m0 x ls (pl_frame (ap_plan s'')) (arm_mem s'')" for s''
    by (rule d) (rule gives_kept_values [OF g])
  moreover have "distinct ls" "\<forall>l \<in> set ls. \<not> used_loc s l \<and> used_loc s' l" "arm_kept s' \<le> Suc (arm_kept s)"
    using g by (simp_all add: gives_def)
  ultimately show ?thesis using gives_later [OF g n] unfolding arm_placed_def by blast
qed

lemma composite_arg_words:
  assumes "separate alloc bound ys" "(a, w) \<in> set ys" "arm_kept s \<le> length ys" "ad_Kind a = ArgStruct"
    "same_outside alloc bound 0 (arm_kept s) m0 (arm_mem s)"
  shows "composite_words (arm_mem s) w (ad_Size a) = composite_words m0 w (ad_Size a)"
    "hfa_fits a \<Longrightarrow> hfa_elements (arm_mem s) w a = hfa_elements m0 w a"
proof -
  have same: "arm_mem s (w + of_nat j) = m0 (w + of_nat j)" if "j < unat (ad_Size a)" for j
    using argument_value_kept [OF assms(1,2,3,5)] that assms(4) by (simp add: struct_size_def)
  show "composite_words (arm_mem s) w (ad_Size a) = composite_words m0 w (ad_Size a)"
    by (rule composite_words_cong) (rule same)
  show "hfa_elements (arm_mem s) w a = hfa_elements m0 w a" if "hfa_fits a"
    using that same by (rule hfa_elements_cong)
qed

lemma arm_step_copy:
  assumes inv: "arm_inv s" and sep: "separate alloc bound ys" and ys: "(a, w) \<in> set ys" "arm_kept s < length ys"
    and same: "same_outside alloc bound 0 (arm_kept s) m0 (arm_mem s)"
    and big: "ad_Kind a = ArgStruct" "ad_HFA a = 0" "16 < ad_Size a"
  shows "arm_placed alloc bound (length ys) m0 s (a, w) (fst (arm_next s a)) (arm_arg alloc (a, w) s)"
proof -
  let ?k = "arm_kept s" and ?later = "later alloc bound (length ys)"
  obtain word p where c: "keep_copy alloc w (ad_Size a) 8 (ap_plan s) = (word, p)" by fastforce
  define s1 where "s1 = s\<lparr>ap_plan := p\<rparr>"
  have s': "arm_arg alloc (a, w) s = put_int word s1" using big c by (simp add: arm_arg_def arm_struct_def s1_def)
  have "unat (8 :: 32 word) = 2 ^ 3" "unat (8 :: 32 word) \<le> 16" by simp_all
  note copy = keep_copy_correct [OF c this sep ys(1) big(1) ys(2) same]
  have c1: "carries m0 8 (a, w) word (arm_mem s1)" "arm_kept s1 = Suc ?k"
    "same_outside alloc bound ?k (Suc ?k) (arm_mem s) (arm_mem s1)"
    "region word (unat (ad_Size a)) \<subseteq> region (alloc ?k) bound" "pl_frame (ap_plan s1) = pl_frame (ap_plan s)"
    using copy by (simp_all add: s1_def)
  have cnt: "ap_ngrn s1 = ap_ngrn s" "ap_nsrn s1 = ap_nsrn s" by (simp_all add: s1_def)
  have inv1: "arm_inv s1" using inv c1(5) by (simp add: arm_inv_def cnt)
  have used: "used_loc s1 l = used_loc s l" for l by (cases l) (simp_all add: cnt c1(5))
  have l1: "?later s s1" using inv1 c1 ys(2) used by (simp add: later_def)
  define l where "l = (if ap_ngrn s1 < 8 then X (ap_ngrn s1) else Stk (length (arm_stack s1)))"
  have g: "gives s1 [l] [word] (put_int word s1)" unfolding l_def by (rule gives_int [OF inv1])
  have ls: "fst (arm_next s a) = [l]"
    using big by (simp add: aapcs_next_def l_def cnt c1(5) word_less_nat_alt)
  have l2: "?later s1 (put_int word s1)" by (rule gives_later [OF g]) (use c1(2) ys(2) in simp)
  have run: "run_of X 1 [l] \<or> run_of Stk 1 [l]" by (simp add: l_def run_ofI)
  have "arm_delivered m0 (a, w) [l] (pl_frame (ap_plan s'')) (arm_mem s'')" if "?later (put_int word s1) s''" for s''
  proof -
    have rd: "map (arm_read s'') [l] = [word]" by (rule gives_kept_values [OF g that])
    have k'': "Suc ?k \<le> arm_kept s''" "arm_kept s'' \<le> length ys"
      "same_outside alloc bound (Suc ?k) (arm_kept s'') (arm_mem s1) (arm_mem s'')"
      using later_trans [OF l2 that] by (simp_all add: later_def c1(2))
    have "carries m0 8 (a, w) word (arm_mem s'')"
    proof (rule carries_keeps [OF c1(1,4) k''(3)])
      have sz: "struct_size a + 16 \<le> bound" "bound \<le> 2 ^ 62"
        and far: "\<And>i. i < length ys \<Longrightarrow> ?k < i \<Longrightarrow> region (alloc i) bound \<inter> region (alloc ?k) bound = {}"
        using sep ys by (fastforce simp: separate_def)+
      show "unat (ad_Size a) \<le> 2 ^ 62" using sz big by (simp add: struct_size_def)
      show "region (alloc i) bound \<inter> region (alloc ?k) bound = {}" if "i \<in> {Suc ?k..<arm_kept s''}" for i
        using far [of i] that k''(2) by simp
    qed
    with rd run show ?thesis using big by (simp add: arm_delivered_def)
  qed
  moreover have "later alloc bound (length ys) s (put_int word s1)" by (rule later_trans [OF l1 l2])
  moreover have "distinct [l]" "\<forall>x \<in> set [l]. \<not> used_loc s x \<and> used_loc (put_int word s1) x" "arm_kept (put_int word s1) \<le> Suc ?k"
    using g used c1(2) by (simp_all add: gives_def)
  ultimately show ?thesis unfolding s' ls arm_placed_def by blast
qed

text \<open>Small composites: registers when they fit, the stack otherwise.\<close>

lemma arm_step_small:
  assumes inv: "arm_inv s" and kept: "arm_kept s \<le> n"
    and small: "ad_Kind a = ArgStruct" "ad_HFA a = 0" "\<not> 16 < ad_Size a" and size: "copy_fits a"
    and ws: "composite_words (arm_mem s) w (ad_Size a) = composite_words m0 w (ad_Size a)"
  shows "arm_placed alloc bound n m0 s (a, w) (fst (arm_next s a)) (arm_arg alloc (a, w) s)"
proof -
  define s1 where "s1 = (if 16 \<le> ad_Align a \<and> odd (ap_ngrn s) then s\<lparr>ap_ngrn := ap_ngrn s + 1\<rparr> else s)"
  let ?ws = "composite_words m0 w (ad_Size a)"
  have len: "length ?ws = word_count (ad_Size a)" by (simp add: composite_words_def)
  note k = word_count_exact [OF small(1) size]
  have s16: "unat (ad_Size a) \<le> 16" using small(3) by (simp add: word_less_nat_alt)
  have reg: "ap_ngrn s1 = even_from a (ap_ngrn s)" by (simp add: s1_def even_from_def)
  have mem: "ap_plan s1 = ap_plan s" "ap_ngrn s \<le> ap_ngrn s1" "ap_nsrn s \<le> ap_nsrn s1" by (simp_all add: s1_def)
  have even8: "odd (ap_ngrn s) \<Longrightarrow> ap_ngrn s + 1 \<le> 8"
    using inv by (cases "ap_ngrn s = 8") (simp_all add: arm_inv_def)
  then have inv1: "arm_inv s1" using inv by (simp add: arm_inv_def s1_def)
  have d: "arm_delivered m0 (a, w) ls fr m" if "map (read_loc fr) ls = ?ws" "run_of X (word_count (ad_Size a)) ls \<or> run_of Stk (word_count (ad_Size a)) ls" for ls fr m
    using that small by (simp add: arm_delivered_def)
  show ?thesis
  proof (cases "ap_ngrn s1 + word_count (ad_Size a) \<le> 8")
    case True
    then have s': "arm_arg alloc (a, w) s = put_ints ?ws s1"
      using small by (simp add: arm_arg_def arm_struct_def s1_def [symmetric] ws mem(1))
    have fit: "ap_ngrn s1 + length ?ws \<le> 8" using True by (simp only: len)
    have g: "gives s (map X [ap_ngrn s1..<ap_ngrn s1 + length ?ws]) ?ws (put_ints ?ws s1)"
      by (rule gives_skip [OF gives_ints [OF inv1 fit] mem])
    have "fst (arm_next s a) = map X [ap_ngrn s1..<ap_ngrn s1 + length ?ws]"
      using True small(1,2) s16 by (simp add: aapcs_next_def Let_def len k reg)
    moreover have "arm_placed alloc bound n m0 s (a, w) (map X [ap_ngrn s1..<ap_ngrn s1 + length ?ws]) (put_ints ?ws s1)"
      by (rule gives_placed [OF g kept], erule d) (simp add: len run_ofI)
    ultimately show ?thesis unfolding s' by (simp only:)
  next
    case False
    let ?s2 = "s1\<lparr>ap_ngrn := 8\<rparr>"
    have s': "arm_arg alloc (a, w) s = put_composite w a ?s2"
      using False small by (simp add: arm_arg_def arm_struct_def s1_def [symmetric])
    have inv2: "arm_inv ?s2" using inv1 by (simp add: arm_inv_def)
    have skip: "ap_plan ?s2 = ap_plan s" "ap_ngrn s \<le> ap_ngrn ?s2" "ap_nsrn s \<le> ap_nsrn ?s2"
      using mem inv by (simp_all add: arm_inv_def)
    let ?start = "even_from a (length (arm_stack s))"
    have "word_count (ad_Size a) \<noteq> 0" using False inv1 by (auto simp: arm_inv_def)
    from gives_composite [OF inv2 this, of w]
    have "gives ?s2 (map Stk [?start..<?start + word_count (ad_Size a)]) ?ws (put_composite w a ?s2)"
      by (simp only: skip(1) ws)
    then have g: "gives s (map Stk [?start..<?start + word_count (ad_Size a)]) ?ws (put_composite w a ?s2)"
      by (rule gives_skip [OF _ skip])
    have "fst (arm_next s a) = map Stk [?start..<?start + word_count (ad_Size a)]"
      using False small(1,2) s16 by (simp add: aapcs_next_def Let_def k reg)
    moreover have "arm_placed alloc bound n m0 s (a, w) (map Stk [?start..<?start + word_count (ad_Size a)]) (put_composite w a ?s2)"
      by (rule gives_placed [OF g kept], erule d) (simp add: run_ofI)
    ultimately show ?thesis unfolding s' by (simp only:)
  qed
qed

lemma hfa_words: "0 < ad_HFA a \<Longrightarrow> hfa_fits a \<Longrightarrow> words_of a \<noteq> 0"
proof -
  assume "0 < ad_HFA a" "hfa_fits a"
  then have "0 < unat (ad_Size a)" by (auto simp: hfa_fits_def word_less_nat_alt split: if_splits)
  then show ?thesis by (simp add: words_of_def)
qed

lemma arm_step_hfa:
  assumes inv: "arm_inv s" and kept: "arm_kept s \<le> n"
    and hfa: "ad_Kind a = ArgStruct" "0 < ad_HFA a" and size: "copy_fits a" and fits: "hfa_fits a"
    and ws: "composite_words (arm_mem s) w (ad_Size a) = composite_words m0 w (ad_Size a)"
    and es: "hfa_elements (arm_mem s) w a = hfa_elements m0 w a"
  shows "arm_placed alloc bound n m0 s (a, w) (fst (arm_next s a)) (arm_arg alloc (a, w) s)"
proof (cases "ap_nsrn s + unat (ad_HFA a) \<le> 8")
  case True
  let ?es = "hfa_elements m0 w a"
  have s': "arm_arg alloc (a, w) s = put_floats ?es s"
    using True hfa by (simp add: arm_arg_def arm_struct_def hfa_elements_def [symmetric] es)
  have len: "length ?es = unat (ad_HFA a)" by (simp add: hfa_elements_def)
  have fit: "ap_nsrn s + length ?es \<le> 8" using True by (simp only: len)
  have "fst (arm_next s a) = map V [ap_nsrn s..<ap_nsrn s + length ?es]"
    using True hfa by (simp add: aapcs_next_def Let_def len word_less_nat_alt)
  moreover have "arm_placed alloc bound n m0 s (a, w) (map V [ap_nsrn s..<ap_nsrn s + length ?es]) (put_floats ?es s)"
    by (rule gives_placed [OF gives_floats [OF inv fit] kept]) (use hfa in \<open>simp add: arm_delivered_def len run_ofI\<close>)
  ultimately show ?thesis unfolding s' by (simp only:)
next
  case False
  let ?s2 = "s\<lparr>ap_nsrn := 8\<rparr>"
  have s': "arm_arg alloc (a, w) s = put_composite w a ?s2"
    using False hfa by (simp add: arm_arg_def arm_struct_def)
  have inv2: "arm_inv ?s2" using inv by (simp add: arm_inv_def)
  have skip: "ap_plan ?s2 = ap_plan s" "ap_ngrn s \<le> ap_ngrn ?s2" "ap_nsrn s \<le> ap_nsrn ?s2"
    using inv by (simp_all add: arm_inv_def)
  let ?start = "even_from a (length (arm_stack s))" and ?k = "word_count (ad_Size a)"
  have k: "?k = words_of a" by (rule word_count_exact [OF hfa(1) size])
  have "?k \<noteq> 0" unfolding k by (rule hfa_words [OF hfa(2) fits])
  from gives_composite [OF inv2 this, of w]
  have "gives ?s2 (map Stk [?start..<?start + ?k]) (composite_words m0 w (ad_Size a)) (put_composite w a ?s2)"
    by (simp only: skip(1) ws)
  then have g: "gives s (map Stk [?start..<?start + ?k]) (composite_words m0 w (ad_Size a)) (put_composite w a ?s2)"
    by (rule gives_skip [OF _ skip])
  have "fst (arm_next s a) = map Stk [?start..<?start + ?k]"
    using False hfa by (simp add: aapcs_next_def Let_def k word_less_nat_alt)
  moreover have "arm_placed alloc bound n m0 s (a, w) (map Stk [?start..<?start + ?k]) (put_composite w a ?s2)"
    by (rule gives_placed [OF g kept]) (use hfa in \<open>simp add: arm_delivered_def run_ofI\<close>)
  ultimately show ?thesis unfolding s' by (simp only:)
qed

lemma arm_step:
  assumes inv: "arm_inv s" and sep: "separate alloc bound ys" and ys: "(a, w) \<in> set ys" "arm_kept s < length ys"
    and same: "same_outside alloc bound 0 (arm_kept s) m0 (arm_mem s)" and fits: "hfa_fits a"
  shows "arm_placed alloc bound (length ys) m0 s (a, w) (fst (arm_next s a)) (arm_arg alloc (a, w) s)"
proof (cases "ad_Kind a = ArgStruct")
  case False
  have kept: "arm_kept s \<le> length ys" using ys(2) by simp
  show ?thesis
  proof (cases "ad_Kind a = ArgWord")
    case True
    have "arm_placed alloc bound (length ys) m0 s (a, w) [if ap_ngrn s < 8 then X (ap_ngrn s) else Stk (length (arm_stack s))] (put_int w s)"
      by (rule gives_placed [OF gives_int [OF inv] kept]) (use True in \<open>simp add: arm_delivered_def run_ofI\<close>)
    then show ?thesis using True by (simp add: arm_arg_def aapcs_next_def split: if_splits)
  next
    case False
    let ?s' = "if ap_nsrn s < 8 then put_floats [w] s else s\<lparr>ap_nsrn := 8, ap_plan := push_stack [w] (ap_plan s)\<rparr>"
    have k: "ad_Kind a = ArgFloat32 \<or> ad_Kind a = ArgFloat64"
      using False \<open>ad_Kind a \<noteq> ArgStruct\<close> by (cases "ad_Kind a") simp_all
    have "arm_placed alloc bound (length ys) m0 s (a, w) [if ap_nsrn s < 8 then V (ap_nsrn s) else Stk (length (arm_stack s))] ?s'"
      by (rule gives_placed [OF gives_float [OF inv] kept]) (use k in \<open>auto simp: arm_delivered_def run_ofI\<close>)
    moreover have "arm_arg alloc (a, w) s = ?s'" using k by (auto simp: arm_arg_def)
    moreover have "fst (arm_next s a) = [if ap_nsrn s < 8 then V (ap_nsrn s) else Stk (length (arm_stack s))]"
      using k by (simp add: aapcs_next_def)
    ultimately show ?thesis by (simp only:)
  qed
next
  case True
  have kept: "arm_kept s \<le> length ys" using ys(2) by simp
  note size = separate_fits [OF sep ys(1)]
  note words = composite_arg_words [OF sep ys(1) kept True same]
  show ?thesis
  proof (cases "0 < ad_HFA a")
    case hfa: True
    show ?thesis by (rule arm_step_hfa [OF inv kept True hfa size fits words(1) words(2) [OF fits]])
  next
    case False
    then have z: "ad_HFA a = 0" using word_neq_0_conv [of "ad_HFA a"] by blast
    show ?thesis
    proof (cases "16 < ad_Size a")
      case big: True
      show ?thesis by (rule arm_step_copy [OF inv sep ys same True z big])
    next
      case False
      show ?thesis by (rule arm_step_small [OF inv kept True z False size words(1)])
    qed
  qed
qed

text \<open>The registers and stack words used after an argument are those of the convention, and nothing panics.\<close>

definition arm_counts :: "arm_plan \<Rightarrow> nat \<times> nat \<times> nat" where
  "arm_counts s = (ap_ngrn s, ap_nsrn s, length (arm_stack s))"

lemma put_int_counts:
  "arm_inv s \<Longrightarrow> arm_counts (put_int w s) =
     (if ap_ngrn s < 8 then (ap_ngrn s + 1, ap_nsrn s, length (arm_stack s)) else (8, ap_nsrn s, length (arm_stack s) + 1))"
  "pl_panic (ap_plan (put_int w s)) = pl_panic (ap_plan s)"
  by (auto simp: arm_counts_def put_int_def set_int_def push_stack_def arm_inv_def)

lemma put_composite_counts:
  assumes "word_count (ad_Size a) \<noteq> 0"
  shows "arm_counts (put_composite w a s) =
      (ap_ngrn s, ap_nsrn s, even_from a (length (arm_stack s)) + word_count (ad_Size a))"
    "pl_panic (ap_plan (put_composite w a s)) = pl_panic (ap_plan s)"
  by (simp_all add: put_composite_push [OF assms] arm_counts_def push_stack_def composite_words_def even_from_def)

lemma put_floats_counts:
  "arm_counts (put_floats ws s) = (ap_ngrn s, ap_nsrn s + length ws, length (arm_stack s))"
  "pl_panic (ap_plan (put_floats ws s)) = pl_panic (ap_plan s)"
  using put_floats_effect [of ws s] by (simp_all add: arm_counts_def Let_def)

lemma put_ints_counts:
  "arm_counts (put_ints ws s) = (ap_ngrn s + length ws, ap_nsrn s, length (arm_stack s))"
  "pl_panic (ap_plan (put_ints ws s)) = pl_panic (ap_plan s)"
  using put_ints_effect [of ws s] by (simp_all add: arm_counts_def Let_def)

lemmas put_counts = put_int_counts put_ints_counts put_floats_counts put_composite_counts

lemma arm_struct_counts:
  assumes inv: "arm_inv s" and a: "ad_Kind a = ArgStruct" "copy_fits a" "hfa_fits a"
  shows "arm_counts (arm_struct alloc a w s) = snd (arm_next s a) \<and> pl_panic (ap_plan (arm_struct alloc a w s)) = pl_panic (ap_plan s)"
proof -
  note k = word_count_exact [OF a(1,2)]
  consider (hfa) "0 < ad_HFA a" | (big) "ad_HFA a = 0" "16 < ad_Size a" | (small) "ad_HFA a = 0" "\<not> 16 < ad_Size a"
    using word_neq_0_conv [of "ad_HFA a"] by blast
  then show ?thesis
  proof cases
    case hfa
    then have "word_count (ad_Size a) \<noteq> 0" using hfa_words [OF _ a(3)] by (simp add: k)
    with hfa a(1) show ?thesis
      by (simp add: arm_struct_def aapcs_next_def Let_def put_counts k word_less_nat_alt)
  next
    case big
    obtain word p where c: "keep_copy alloc w (ad_Size a) 8 (ap_plan s) = (word, p)" by fastforce
    have p: "pl_frame p = pl_frame (ap_plan s)" "pl_panic p = pl_panic (ap_plan s)"
      using keep_copy_frame [of alloc w "ad_Size a" 8 "ap_plan s"] keep_copy_panic [OF a(1,2), of 8 alloc w "ap_plan s"] c by simp_all
    then have "arm_inv (s\<lparr>ap_plan := p\<rparr>)" using inv by (simp add: arm_inv_def)
    with big a(1) p show ?thesis
      by (simp add: arm_struct_def aapcs_next_def Let_def c put_counts word_less_nat_alt)
  next
    case small
    define s1 where "s1 = (if 16 \<le> ad_Align a \<and> odd (ap_ngrn s) then s\<lparr>ap_ngrn := ap_ngrn s + 1\<rparr> else s)"
    have s1: "ap_ngrn s1 = even_from a (ap_ngrn s)" "ap_nsrn s1 = ap_nsrn s" "ap_plan s1 = ap_plan s"
      by (simp_all add: s1_def even_from_def)
    have "even_from a (ap_ngrn s) \<le> 8" using inv by (cases "ap_ngrn s = 8") (auto simp: arm_inv_def even_from_def)
    moreover have "length (composite_words m w (ad_Size a)) = words_of a" for m by (simp add: composite_words_def k)
    ultimately show ?thesis
      using small a(1) by (simp add: arm_struct_def aapcs_next_def Let_def s1_def [symmetric] s1 put_counts k word_less_nat_alt)
  qed
qed

lemma arm_arg_counts:
  assumes inv: "arm_inv s" and a: "copy_fits a" "hfa_fits a"
  shows "arm_counts (arm_arg alloc (a, w) s) = snd (arm_next s a) \<and>
    pl_panic (ap_plan (arm_arg alloc (a, w) s)) = pl_panic (ap_plan s)"
proof (cases "ad_Kind a")
  case ArgWord
  then show ?thesis using inv by (simp add: arm_arg_def aapcs_next_def put_counts)
next
  case ArgStruct
  then show ?thesis using arm_struct_counts [OF inv ArgStruct a] by (simp add: arm_arg_def)
qed (simp_all add: arm_arg_def aapcs_next_def put_counts, simp_all add: arm_counts_def push_stack_def)

lemma arm_args:
  assumes "arm_inv s" "separate alloc bound ys" "set xs \<subseteq> set ys" "arm_kept s + length xs \<le> length ys"
    "same_outside alloc bound 0 (arm_kept s) m0 (arm_mem s)" "\<forall>x \<in> set xs. hfa_fits (fst x)"
  shows "let s' = fold (arm_arg alloc) xs s; locs = aapcs_from (ap_ngrn s) (ap_nsrn s) (length (arm_stack s)) (map fst xs) in
     distinct (concat locs) \<and> (\<forall>l \<in> set (concat locs). \<not> used_loc s l \<and> used_loc s' l) \<and> later alloc bound (length ys) s s' \<and>
     pl_panic (ap_plan s') = pl_panic (ap_plan s) \<and>
     list_all2 (\<lambda>x ls. arm_delivered m0 x ls (pl_frame (ap_plan s')) (arm_mem s')) xs locs"
  using assms
proof (induction xs arbitrary: s)
  case Nil
  then show ?case by (simp add: later_refl)
next
  case (Cons x xs)
  obtain a w where x: "x = (a, w)" by (cases x)
  let ?s1 = "arm_arg alloc x s" and ?s' = "fold (arm_arg alloc) xs (arm_arg alloc x s)" and ?ls = "fst (arm_next s a)"
  define locs where "locs = aapcs_from (ap_ngrn ?s1) (ap_nsrn ?s1) (length (arm_stack ?s1)) (map fst xs)"
  have a: "(a, w) \<in> set ys" "arm_kept s < length ys" "hfa_fits a" using Cons.prems x by auto
  have p: "arm_placed alloc bound (length ys) m0 s x ?ls ?s1"
    unfolding x by (rule arm_step [OF Cons.prems(1,2) a(1,2) Cons.prems(5) a(3)])
  note p = p [unfolded arm_placed_def]
  have c: "arm_counts ?s1 = snd (arm_next s a)" "pl_panic (ap_plan ?s1) = pl_panic (ap_plan s)"
    using arm_arg_counts [OF Cons.prems(1) separate_fits [OF Cons.prems(2) a(1)] a(3), of alloc w] by (simp_all add: x)
  have locs: "aapcs_from (ap_ngrn s) (ap_nsrn s) (length (arm_stack s)) (map fst (x # xs)) = ?ls # locs"
    using c(1) by (cases "arm_next s a") (simp add: x locs_def arm_counts_def)
  have l1: "later alloc bound (length ys) s ?s1" and k1: "arm_kept ?s1 \<le> Suc (arm_kept s)" using p by blast+
  have mono: "arm_inv ?s1" "arm_kept s \<le> arm_kept ?s1" "same_outside alloc bound (arm_kept s) (arm_kept ?s1) (arm_mem s) (arm_mem ?s1)"
    using l1 by (simp_all add: later_def)
  have sub: "set xs \<subseteq> set ys" "arm_kept ?s1 + length xs \<le> length ys" "\<forall>x \<in> set xs. hfa_fits (fst x)"
    using Cons.prems(3,4,6) k1 by simp_all
  have same: "same_outside alloc bound 0 (arm_kept ?s1) m0 (arm_mem ?s1)"
    by (rule same_outside_trans [OF Cons.prems(5) mono(3)]) (use mono(2) in simp_all)
  have d: "distinct (concat locs)" and fresh: "\<forall>l \<in> set (concat locs). \<not> used_loc ?s1 l \<and> used_loc ?s' l"
    and l2: "later alloc bound (length ys) ?s1 ?s'" and panic: "pl_panic (ap_plan ?s') = pl_panic (ap_plan ?s1)"
    and all: "list_all2 (\<lambda>x ls. arm_delivered m0 x ls (pl_frame (ap_plan ?s')) (arm_mem ?s')) xs locs"
    using Cons.IH [OF mono(1) Cons.prems(2) sub(1,2) same sub(3)] unfolding Let_def locs_def by blast+
  have old: "\<And>l. used_loc s l \<Longrightarrow> used_loc ?s1 l" using l1 by (simp add: later_def)
  have new: "\<And>l. used_loc ?s1 l \<Longrightarrow> used_loc ?s' l" using l2 by (simp add: later_def)
  have "distinct (concat (?ls # locs))" using d fresh p by auto
  moreover have "\<forall>l \<in> set (concat (?ls # locs)). \<not> used_loc s l \<and> used_loc ?s' l" using fresh p old new by auto
  moreover have "later alloc bound (length ys) s ?s'" by (rule later_trans [OF l1 l2])
  moreover have "arm_delivered m0 x ?ls (pl_frame (ap_plan ?s')) (arm_mem ?s')" using p l2 by blast
  ultimately show ?case unfolding Let_def locs using all panic c(2) by simp
qed

text \<open>The locations a frame has.\<close>

fun valid_loc :: "call_frame \<Rightarrow> arm_loc \<Rightarrow> bool" where
  "valid_loc fr (X i) = (i < 8)"
| "valid_loc fr (V i) = (i < 8)"
| "valid_loc fr (Stk i) = (i < length (fr_stack fr))"

lemma arm_arg_x8 [simp]: "fr_x8 (pl_frame (ap_plan (arm_arg alloc x s))) = fr_x8 (pl_frame (ap_plan s))"
proof -
  have [simp]: "fr_x8 (pl_frame (ap_plan (put_ints ws s))) = fr_x8 (pl_frame (ap_plan s))" for ws s
    unfolding put_ints_def by (induction ws arbitrary: s) (simp_all add: set_int_def)
  have [simp]: "fr_x8 (pl_frame (ap_plan (put_floats ws s))) = fr_x8 (pl_frame (ap_plan s))" for ws s
    unfolding put_floats_def by (induction ws arbitrary: s) (simp_all add: set_float_def)
  have [simp]: "fr_x8 (pl_frame (ap_plan (put_composite w a s))) = fr_x8 (pl_frame (ap_plan s))" for w a s
    by (simp add: put_composite_def Let_def panicking_def split: sum.split)
  have [simp]: "fr_x8 (pl_frame (ap_plan (put_int w s))) = fr_x8 (pl_frame (ap_plan s))" for w s
    by (simp add: put_int_def set_int_def push_stack_def)
  show ?thesis
    by (auto simp: arm_arg_def arm_struct_def push_stack_def keep_copy_frame Let_def split_def split: arg_kind.split)
qed

lemma arm_args_x8: "fr_x8 (pl_frame (ap_plan (fold (arm_arg alloc) xs s))) = fr_x8 (pl_frame (ap_plan s))"
  by (induction xs arbitrary: s) simp_all

text \<open>
  The AArch64 planner puts every argument at the locations of the convention, which are its own, and after
  the whole plan each holds its argument: words in X registers or on the stack, float bits in V
  registers or on the stack, the elements of a float aggregate in consecutive V registers, small composites as
  whole words, and large ones as the aligned address of a copy of their bytes. A large result's address
  is in \<open>X8\<close>, and the planner does not panic.
\<close>

lemma planARM64_delivers:
  fixes m :: memory and fn ret :: "64 word"
  assumes len: "length args = length (cs_Args spec)" and sep: "separate alloc bound (zip (cs_Args spec) args)"
    and fits: "list_all hfa_fits (cs_Args spec)"
  defines "p \<equiv> planARM64 alloc spec ret args (new_plan fn m)" and "locs \<equiv> aapcs_locations (cs_Args spec)"
  shows "distinct (concat locs) \<and> (\<forall>l \<in> set (concat locs). valid_loc (pl_frame p) l) \<and>
    list_all2 (\<lambda>x ls. arm_delivered m x ls (pl_frame p) (pl_mem p)) (zip (cs_Args spec) args) locs \<and>
    (indirect_result (cs_Ret spec) \<longrightarrow> fr_x8 (pl_frame p) = ret) \<and> pl_panic p = None"
proof -
  let ?xs = "zip (cs_Args spec) args"
  define p0 where "p0 = (if indirect_result (cs_Ret spec) then (new_plan fn m)\<lparr>pl_frame := (new_frame fn)\<lparr>fr_x8 := ret\<rparr>\<rparr> else new_plan fn m)"
  let ?s = "\<lparr>ap_ngrn = 0, ap_nsrn = 0, ap_plan = p0\<rparr>"
  have p: "p = ap_plan (fold (arm_arg alloc) ?xs ?s)" by (simp add: p_def planARM64_def p0_def new_plan_def)
  have s: "arm_inv ?s" "arm_kept ?s = 0" "arm_mem ?s = m" "pl_panic p0 = None" "arm_stack ?s = []"
    by (simp_all add: arm_inv_def p0_def new_plan_def new_frame_def)
  have locs: "locs = aapcs_from (ap_ngrn ?s) (ap_nsrn ?s) (length (arm_stack ?s)) (map fst ?xs)"
    unfolding s(5) by (simp add: locs_def aapcs_locations_def len)
  have f: "\<forall>x \<in> set ?xs. hfa_fits (fst x)"
  proof
    fix x
    assume x: "x \<in> set ?xs"
    obtain a w where "x = (a, w)" by (cases x)
    with x have "fst x \<in> set (cs_Args spec)" by (auto dest: set_zip_leftD)
    with fits show "hfa_fits (fst x)" by (simp add: list_all_iff)
  qed
  have "arm_kept ?s + length ?xs \<le> length ?xs" "same_outside alloc bound 0 (arm_kept ?s) m (arm_mem ?s)"
    by (simp_all only: s same_outside_refl add_0 order_refl)
  from arm_args [OF s(1) sep order_refl this f]
  have l: "distinct (concat locs)" "\<forall>l \<in> set (concat locs). \<not> used_loc ?s l \<and> used_loc (fold (arm_arg alloc) ?xs ?s) l"
    and inv: "arm_inv (fold (arm_arg alloc) ?xs ?s)" and panic: "pl_panic p = pl_panic (ap_plan ?s)"
    and all: "list_all2 (\<lambda>x ls. arm_delivered m x ls (pl_frame p) (pl_mem p)) ?xs locs"
    unfolding p Let_def later_def locs by blast+
  have "valid_loc (pl_frame p) l" if "used_loc (fold (arm_arg alloc) ?xs ?s) l" for l
    using that inv by (cases l) (simp_all add: p arm_inv_def)
  moreover have "indirect_result (cs_Ret spec) \<longrightarrow> fr_x8 (pl_frame p) = ret" by (simp add: p arm_args_x8 p0_def)
  moreover have "pl_panic p = None" using panic s(4) by simp
  ultimately show ?thesis using l all by blast
qed

end
