(* ===== verification/ArmTrampoline.thy ===== *)
theory ArmTrampoline
  imports TrampolineFacts ArmCall
begin

text \<open>
  The AArch64 trampoline: it loads the eight integer and the eight float registers and the result pointer, puts
  the stack words at the aligned stack pointer, and stores the result registers.
\<close>

abbreviation "A64 \<equiv> callTrampoline_arm64"

text \<open>The outgoing words: one more than an odd count, to keep the stack pointer aligned.\<close>

definition even_up :: "nat \<Rightarrow> nat" where
  "even_up n = n + n mod 2"

definition arm64_low :: "64 word \<Rightarrow> nat \<Rightarrow> 64 word" where
  "arm64_low sp n = sp - 8 * of_nat (even_up n)"

definition arm64_area :: "64 word \<Rightarrow> nat \<Rightarrow> 64 word set" where
  "arm64_area sp n = words_at (arm64_low sp n) (even_up n + 4)"

definition arm64_entry :: "call_frame \<Rightarrow> arm64_reg machine \<Rightarrow> bool" where
  "arm64_entry fr s \<longleftrightarrow> frame_in (mc_mem s) (mc_regs s (R 0)) fr \<and> aligned 16 (mc_regs s RSP) \<and>
     arm64_area (mc_regs s RSP) (length (fr_stack fr)) \<inter> frame_words (mc_mem s) (mc_regs s (R 0)) fr = {}"

definition arm64_receives :: "call_frame \<Rightarrow> arm64_reg machine \<Rightarrow> bool" where
  "arm64_receives fr c \<longleftrightarrow> (\<forall>i < 8. mc_regs c (R i) = fr_ints fr ! i \<and> mc_regs c (F i) = fr_floats fr ! i) \<and>
     mc_regs c (R 8) = fr_x8 fr \<and> aligned 16 (mc_regs c RSP) \<and>
     (\<forall>i < length (fr_stack fr). mc_mem c (word_at (mc_regs c RSP) i) = fr_stack fr ! i)"

text \<open>
  The convention: the callee-saved registers the trampoline uses stay, and so do the two words above its outgoing
  area that it saved their values in; \<open>R20\<close> has the stack pointer these words are relative to.
\<close>

definition arm64_abi :: "arm64_reg callee \<Rightarrow> bool" where
  "arm64_abi f \<longleftrightarrow> (\<forall>t s. mc_regs (f t s) (R 19) = mc_regs s (R 19) \<and> mc_regs (f t s) (R 20) = mc_regs s (R 20) \<and>
     mc_mem (f t s) (mc_regs s (R 20) + 16) = mc_mem s (mc_regs s (R 20) + 16) \<and>
     mc_mem (f t s) (mc_regs s (R 20) + 24) = mc_mem s (mc_regs s (R 20) + 24))"

section \<open>The stack\<close>

lemma stack_bytes:
  assumes "n \<le> 42"
  shows "push_bit 3 ((of_nat n + 1) AND NOT 1) = (8 * of_nat (even_up n) :: 64 word)"
proof -
  have "list_all (\<lambda>n. push_bit 3 ((of_nat n + 1) AND NOT 1) = (8 * of_nat (even_up n) :: 64 word)) [0..<43]" by code_simp
  with assms show ?thesis by (simp add: list_all_iff)
qed

lemma even_up_even: "even (even_up n)" "n \<le> even_up n" "even_up n \<le> n + 1"
  by (simp_all add: even_up_def)

lemma aligned_diff: "aligned n a \<Longrightarrow> aligned n b \<Longrightarrow> n dvd 2 ^ 64 \<Longrightarrow> aligned n (a - b)"
  unfolding aligned_def by (simp add: unat_sub_if_size word_size)

lemma arm64_low_aligned: "aligned 16 sp \<Longrightarrow> aligned 16 (arm64_low sp n)"
proof -
  obtain k where k: "even_up n = 2 * k" using even_up_even(1) by (rule evenE)
  have "aligned 16 (8 * of_nat (even_up n))" unfolding aligned_def k by (simp add: unat_word_ariths dvd_mod)
  then show "aligned 16 sp \<Longrightarrow> aligned 16 (arm64_low sp n)" unfolding arm64_low_def by (intro aligned_diff) simp_all
qed

section \<open>The copy loop\<close>

definition arm_round :: "arm64_reg machine \<Rightarrow> arm64_reg machine" where
  "arm_round s = s\<lparr>mc_regs := (mc_regs s)(R 14 := mc_mem s (mc_regs s (R 11) + mc_regs s (R 13)), R 13 := mc_regs s (R 13) + 8),
     mc_mem := (mc_mem s)(mc_regs s (R 12) + mc_regs s (R 13) := mc_mem s (mc_regs s (R 11) + mc_regs s (R 13))),
     mc_zero := (mc_regs s (R 13) + 8 = mc_regs s (R 9))\<rparr>"

lemma arm64_round:
  assumes "aligned 8 (mc_regs s (R 11) + mc_regs s (R 13))" "aligned 8 (mc_regs s (R 12) + mc_regs s (R 13))"
  shows "run f A64 (5 + k) (goto A64 ''copy'') s =
    run f A64 k (goto A64 (if mc_regs s (R 13) + 8 = mc_regs s (R 9) then ''regs'' else ''copy'')) (arm_round s)"
proof -
  let ?b = "[Move (Idx (R 13) (R 11)) (Reg (R 14)), Move (Reg (R 14)) (Idx (R 13) (R 12)), Alu False AddOp (Imm 8) (R 13) (R 13),
    Cmp (R 13) (R 9)]"
  have g: "goto A64 ''copy'' = ?b @ Branch False ''copy'' # goto A64 ''regs''"
    by (simp add: goto_def callTrampoline_arm64_def)
  have e: "exec_all f ?b s = Some (arm_round s)" using assms by (simp add: arm_round_def set_reg_def Let_def)
  have n: "5 + k = length ?b + Suc k" by simp
  have "run f A64 (5 + k) (goto A64 ''copy'') s = run f A64 (Suc k) (Branch False ''copy'' # goto A64 ''regs'') (arm_round s)"
    unfolding g n by (rule run_block [OF _ e]) simp
  also have "\<dots> = run f A64 k (goto A64 (if mc_regs s (R 13) + 8 = mc_regs s (R 9) then ''regs'' else ''copy'')) (arm_round s)"
    by (simp add: arm_round_def)
  finally show ?thesis .
qed

lemma arm64_copy:
  assumes "mc_regs s (R 13) = 8 * of_nat i" "mc_regs s (R 9) = 8 * of_nat (i + Suc n)" "i + Suc n < 1000"
    "aligned 8 (mc_regs s (R 11))" "aligned 8 (mc_regs s (R 12))"
  shows "\<exists>s'. (\<forall>k. run f A64 (5 * Suc n + k) (goto A64 ''copy'') s = run f A64 k (goto A64 ''regs'') s') \<and>
    (\<forall>r. r \<notin> {R 13, R 14} \<longrightarrow> mc_regs s' r = mc_regs s r) \<and>
    mc_mem s' = copy_words (mc_mem s) (word_at (mc_regs s (R 12)) i) (word_at (mc_regs s (R 11)) i) (Suc n)"
  using assms
proof (induction n arbitrary: s i)
  case 0
  have "mc_regs s (R 13) + 8 = mc_regs s (R 9)" using 0 by (simp add: algebra_simps)
  with 0 show ?case using arm64_round [of s f] by (intro exI [of _ "arm_round s"]) (simp add: arm_round_def)
next
  case (Suc n)
  let ?s = "arm_round s"
  have more: "mc_regs s (R 13) + 8 \<noteq> mc_regs s (R 9)"
  proof
    assume "mc_regs s (R 13) + 8 = mc_regs s (R 9)"
    then have "word_at 0 (Suc i) = word_at 0 (i + Suc (Suc n))" using Suc.prems(1,2) by (simp add: algebra_simps)
    from word_at_inj [OF this] Suc.prems(3) show False by simp
  qed
  have a: "aligned 8 (mc_regs s (R 11) + mc_regs s (R 13))" "aligned 8 (mc_regs s (R 12) + mc_regs s (R 13))"
    using Suc.prems by simp_all
  have "mc_regs ?s (R 13) = 8 * of_nat (Suc i)" "mc_regs ?s (R 9) = 8 * of_nat (Suc i + Suc n)" "Suc i + Suc n < 1000"
    "aligned 8 (mc_regs ?s (R 11))" "aligned 8 (mc_regs ?s (R 12))"
    using Suc.prems by (simp_all add: arm_round_def algebra_simps)
  from Suc.IH [OF this] obtain s' where
    run: "\<And>k. run f A64 (5 * Suc n + k) (goto A64 ''copy'') ?s = run f A64 k (goto A64 ''regs'') s'"
    and regs: "\<forall>r. r \<notin> {R 13, R 14} \<longrightarrow> mc_regs s' r = mc_regs ?s r"
    and mem: "mc_mem s' = copy_words (mc_mem ?s) (word_at (mc_regs ?s (R 12)) (Suc i)) (word_at (mc_regs ?s (R 11)) (Suc i)) (Suc n)" by blast
  have "run f A64 (5 * Suc (Suc n) + k) (goto A64 ''copy'') s = run f A64 k (goto A64 ''regs'') s'" for k
  proof -
    have "run f A64 (5 * Suc (Suc n) + k) (goto A64 ''copy'') s = run f A64 (5 + (5 * Suc n + k)) (goto A64 ''copy'') s"
      by (simp add: algebra_simps)
    also have "\<dots> = run f A64 k (goto A64 ''regs'') s'"
      unfolding arm64_round [OF a] using more run by simp
    finally show ?thesis .
  qed
  moreover have "mc_mem s' = copy_words (mc_mem s) (word_at (mc_regs s (R 12)) i) (word_at (mc_regs s (R 11)) i) (Suc (Suc n))"
    unfolding mem using Suc.prems(1) by (simp add: arm_round_def algebra_simps)
  ultimately show ?case using regs by (intro exI [of _ s']) (simp add: arm_round_def)
qed

section \<open>Entry\<close>

definition arm_saved :: "arm64_reg machine \<Rightarrow> arm64_reg machine" where
  "arm_saved s = s\<lparr>mc_regs := (mc_regs s)(R 19 := mc_regs s (R 0), R 20 := mc_regs s RSP, R 9 := mc_mem s (mc_regs s (R 0) + 136)),
     mc_mem := (mc_mem s)(mc_regs s RSP + 16 := mc_regs s (R 19), mc_regs s RSP + 24 := mc_regs s (R 20))\<rparr>"

lemma arm_area_words:
  assumes "i < 4"
  shows "word_at sp i \<in> arm64_area sp n"
proof -
  have "word_at sp i = word_at (arm64_low sp n) (even_up n + i)" by (simp add: arm64_low_def algebra_simps)
  then show ?thesis unfolding arm64_area_def using assms by (simp only:) (rule word_at_in, simp)
qed

lemma arm_frame_out:
  assumes "arm64_entry fr s" "k < 26"
  shows "word_at (mc_regs s (R 0)) k \<notin> arm64_area (mc_regs s RSP) (length (fr_stack fr))"
  using assms(1) word_at_in [OF assms(2)] unfolding arm64_entry_def frame_words_def by blast

lemma arm64_prologue:
  assumes "arm64_entry fr s"
  shows "run f A64 (4 + k) (goto A64 ''entry'') s = run f A64 k (drop 4 (goto A64 ''entry'')) (arm_saved s)"
proof -
  let ?b = "[StorePair (R 19) (R 20) 16 RSP, Move (Reg (R 0)) (Reg (R 19)), Move (Reg RSP) (Reg (R 20)),
    Move (field ''nstack'' 0 (R 19)) (Reg (R 9))]"
  have g: "goto A64 ''entry'' = ?b @ drop 4 (goto A64 ''entry'')" by (simp add: goto_def callTrampoline_arm64_def)
  have p: "aligned 8 (mc_regs s (R 0))" and sp: "aligned 8 (mc_regs s RSP)"
    using assms by (simp_all add: arm64_entry_def frame_in_def aligned_16_8)
  have "mc_regs s (R 0) + 136 \<notin> arm64_area (mc_regs s RSP) (length (fr_stack fr))" using arm_frame_out [OF assms, of 17] by simp
  moreover have "mc_regs s RSP + 16 \<in> arm64_area (mc_regs s RSP) (length (fr_stack fr))"
    "mc_regs s RSP + 24 \<in> arm64_area (mc_regs s RSP) (length (fr_stack fr))"
    using arm_area_words [of 2] arm_area_words [of 3] by simp_all
  ultimately have "mc_regs s (R 0) + 136 \<noteq> mc_regs s RSP + 16" "mc_regs s (R 0) + 136 \<noteq> mc_regs s RSP + 24" by metis+
  then have e: "exec_all f ?b s = Some (arm_saved s)"
    using p sp by (simp add: arm_saved_def set_reg_def Let_def field_def add.assoc)
  have n: "4 + k = length ?b + k" by simp
  show ?thesis by (subst g, subst n, rule run_block [OF _ e]) simp
qed

text \<open>The machine at \<open>regs\<close>.\<close>

definition arm64_ready :: "call_frame \<Rightarrow> arm64_reg machine \<Rightarrow> arm64_reg machine \<Rightarrow> bool" where
  "arm64_ready fr s c \<longleftrightarrow> (let n = length (fr_stack fr); sp = mc_regs s RSP in
     mc_regs c RSP = arm64_low sp n \<and> mc_regs c (R 19) = mc_regs s (R 0) \<and> mc_regs c (R 20) = sp \<and>
     mc_mem c (sp + 16) = mc_regs s (R 19) \<and> mc_mem c (sp + 24) = mc_regs s (R 20) \<and>
     (\<forall>a. a \<notin> arm64_area sp n \<longrightarrow> mc_mem c a = mc_mem s a) \<and>
     (\<forall>i < n. mc_mem c (word_at (arm64_low sp n) i) = fr_stack fr ! i))"

lemma arm_saved_mem:
  "mc_mem (arm_saved s) (mc_regs s RSP + 16) = mc_regs s (R 19)" "mc_mem (arm_saved s) (mc_regs s RSP + 24) = mc_regs s (R 20)"
  "a \<notin> arm64_area (mc_regs s RSP) n \<Longrightarrow> mc_mem (arm_saved s) a = mc_mem s a"
proof -
  show "mc_mem (arm_saved s) (mc_regs s RSP + 16) = mc_regs s (R 19)" "mc_mem (arm_saved s) (mc_regs s RSP + 24) = mc_regs s (R 20)"
    by (simp_all add: arm_saved_def)
  have "mc_regs s RSP + 16 \<in> arm64_area (mc_regs s RSP) n" "mc_regs s RSP + 24 \<in> arm64_area (mc_regs s RSP) n"
    using arm_area_words [of 2] arm_area_words [of 3] by simp_all
  then show "a \<notin> arm64_area (mc_regs s RSP) n \<Longrightarrow> mc_mem (arm_saved s) a = mc_mem s a"
    by (auto simp: arm_saved_def)
qed

definition arm_setup :: "call_frame \<Rightarrow> arm64_reg machine \<Rightarrow> arm64_reg machine" where
  "arm_setup fr s = (let n = length (fr_stack fr); low = arm64_low (mc_regs s RSP) n in
     s\<lparr>mc_regs := (mc_regs s)(R 10 := 8 * of_nat (even_up n), RSP := low, R 11 := mc_mem s (mc_regs s (R 19) + 144),
       R 12 := low, R 9 := 8 * of_nat n, R 13 := 0)\<rparr>)"

lemma arm64_setup:
  assumes "mc_regs s (R 9) = of_nat (length (fr_stack fr))" "length (fr_stack fr) \<le> 42" "length (fr_stack fr) \<noteq> 0"
    "aligned 8 (mc_regs s (R 19))"
  shows "run f A64 (9 + k) (drop 4 (goto A64 ''entry'')) s = run f A64 k (goto A64 ''copy'') (arm_setup fr s)"
proof -
  define n where "n = length (fr_stack fr)"
  let ?b = "[Alu False AddOp (Imm 1) (R 9) (R 10), Alu False AndOp (Imm (NOT 1)) (R 10) (R 10), Alu False LslOp (Imm 3) (R 10) (R 10),
    Alu False SubOp (Reg (R 10)) RSP RSP, Move (field ''stack'' 0 (R 19)) (Reg (R 11)), Move (Reg RSP) (Reg (R 12)),
    Alu False LslOp (Imm 3) (R 9) (R 9), Move (Imm 0) (Reg (R 13))]"
  have g: "drop 4 (goto A64 ''entry'') = BranchZero (R 9) ''regs'' # ?b @ goto A64 ''copy''"
    by (simp add: goto_def callTrampoline_arm64_def)
  have bytes: "push_bit 3 ((of_nat n + 1) AND NOT 1) = (8 * of_nat (even_up n) :: 64 word)" "push_bit 3 (of_nat n) = (8 * of_nat n :: 64 word)"
    using stack_bytes [of n] assms(2) by (simp_all add: n_def push_bit_eq_mult)
  have e: "exec_all f ?b s = Some (arm_setup fr s)"
    using assms bytes by (simp add: arm_setup_def set_reg_def Let_def field_def arm64_low_def n_def [symmetric])
  have "run f A64 (9 + k) (drop 4 (goto A64 ''entry'')) s = run f A64 (8 + k) (?b @ goto A64 ''copy'') s"
  proof -
    have "of_nat n \<noteq> (0 :: 64 word)"
    proof
      assume "of_nat n = (0 :: 64 word)"
      then have "unat (of_nat n :: 64 word) = 0" by simp
      then show False using assms(2,3) by (simp add: unat_of_nat n_def)
    qed
    moreover have "9 + k = Suc (8 + k)" by simp
    ultimately show ?thesis unfolding g using assms(1) by (simp only: run.simps instr.case n_def) simp
  qed
  also have "\<dots> = run f A64 k (goto A64 ''copy'') (arm_setup fr s)"
  proof -
    have n: "8 + k = length ?b + k" by simp
    show ?thesis by (subst n, rule run_block [OF _ e]) simp
  qed
  finally show ?thesis .
qed

lemma arm64_enter:
  assumes "arm64_entry fr s"
  shows "\<exists>j c. j \<le> 13 + 5 * length (fr_stack fr) \<and> arm64_ready fr s c \<and>
    (\<forall>k. run f A64 (j + k) (goto A64 ''entry'') s = run f A64 k (goto A64 ''regs'') c)"
proof -
  define n where "n = length (fr_stack fr)"
  define sp where "sp = mc_regs s RSP"
  define low where "low = arm64_low sp n"
  define src where "src = mc_mem s (mc_regs s (R 0) + 144)"
  let ?s = "arm_saved s"
  note mem = arm_saved_mem [where s = s, folded sp_def]
  have fr: "frame_in (mc_mem s) (mc_regs s (R 0)) fr"
    and sep: "arm64_area sp n \<inter> frame_words (mc_mem s) (mc_regs s (R 0)) fr = {}" and sp16: "aligned 16 sp"
    using assms by (simp_all add: arm64_entry_def sp_def n_def)
  have count: "mc_mem s (mc_regs s (R 0) + 136) = of_nat n" and n: "n \<le> 42" and src8: "aligned 8 src" and p: "aligned 8 (mc_regs s (R 0))"
    and words: "\<And>i. i < n \<Longrightarrow> mc_mem s (word_at src i) = fr_stack fr ! i"
    using fr by (simp_all add: frame_in_def field_at_def n_def src_def maxStackWords_def)
  have regs: "mc_regs ?s RSP = sp" "mc_regs ?s (R 19) = mc_regs s (R 0)" "mc_regs ?s (R 20) = sp" "mc_regs ?s (R 9) = of_nat n"
    by (simp_all add: arm_saved_def sp_def count)
  have low8: "aligned 8 low" using arm64_low_aligned [OF sp16] by (simp add: low_def aligned_16_8)
  show ?thesis
  proof (cases "n = 0")
    case True
    have "drop 4 (goto A64 ''entry'') = BranchZero (R 9) ''regs'' # drop 5 (goto A64 ''entry'')"
      by (simp add: goto_def callTrampoline_arm64_def)
    then have "run f A64 (5 + k) (goto A64 ''entry'') s = run f A64 k (goto A64 ''regs'') ?s" for k
      using arm64_prologue [OF assms, of f "Suc k"] regs(4) by (simp add: True)
    moreover have "arm64_ready fr s ?s"
      using mem regs True by (simp add: arm64_ready_def Let_def n_def [symmetric] sp_def [symmetric] arm64_low_def even_up_def)
    ultimately show ?thesis by (intro exI [of _ 5] exI [of _ ?s]) simp
  next
    case False
    then obtain n' where Suc: "n = Suc n'" by (cases n) auto
    let ?t = "arm_setup fr ?s"
    have "mc_regs s (R 0) + 144 \<notin> arm64_area sp n" using arm_frame_out [OF assms, of 18] by (simp add: sp_def n_def)
    then have src: "mc_mem ?s (mc_regs s (R 0) + 144) = src" using mem(3) by (simp add: src_def)
    have t: "mc_regs ?t (R 13) = 8 * of_nat 0" "mc_regs ?t (R 9) = 8 * of_nat (0 + Suc n')" "0 + Suc n' < 1000"
      "aligned 8 (mc_regs ?t (R 11))" "aligned 8 (mc_regs ?t (R 12))"
      and t': "mc_regs ?t (R 11) = src" "mc_regs ?t (R 12) = low" "mc_regs ?t RSP = low" "mc_regs ?t (R 19) = mc_regs s (R 0)"
        "mc_regs ?t (R 20) = sp" "mc_mem ?t = mc_mem ?s"
      using regs n src8 low8 src Suc by (simp_all add: arm_setup_def Let_def n_def [symmetric] low_def)
    from arm64_copy [OF t, of f] obtain c where
      run: "\<And>k. run f A64 (5 * n + k) (goto A64 ''copy'') ?t = run f A64 k (goto A64 ''regs'') c"
      and cregs: "mc_regs c RSP = low" "mc_regs c (R 19) = mc_regs s (R 0)" "mc_regs c (R 20) = sp"
      and cmem: "mc_mem c = copy_words (mc_mem ?s) low src n"
      using t' Suc by auto
    have prep: "run f A64 (9 + k) (drop 4 (goto A64 ''entry'')) ?s = run f A64 k (goto A64 ''copy'') ?t" for k
      by (rule arm64_setup) (use regs n False p in \<open>simp_all add: n_def\<close>)
    have run': "run f A64 (13 + 5 * n + k) (goto A64 ''entry'') s = run f A64 k (goto A64 ''regs'') c" for k
      using arm64_prologue [OF assms, of f "9 + (5 * n + k)"] prep [of "5 * n + k"] run [of k] by (simp add: add.assoc)
    have area: "words_at low n \<subseteq> arm64_area sp n"
      unfolding arm64_area_def low_def by (rule words_at_mono) (simp add: even_up_def)
    have src_out: "words_at src n \<inter> arm64_area sp n = {}"
      using sep by (auto simp: frame_words_def field_at_def src_def n_def)
    have kept: "mc_mem c a = mc_mem s a" if "a \<notin> arm64_area sp n" for a
    proof -
      have "mc_mem c a = mc_mem ?s a" unfolding cmem using that area by (intro copy_words_other) blast
      with mem(3) [OF that] show ?thesis by simp
    qed
    have saved: "mc_mem c (word_at sp k) = mc_mem ?s (word_at sp k)" if "k < 4" for k
    proof -
      have "word_at sp k \<notin> words_at low n"
      proof
        assume "word_at sp k \<in> words_at low n"
        then obtain i where i: "i < n" "word_at sp k = word_at low i" unfolding words_at_def by blast
        have "word_at sp k = word_at low (even_up n + k)" by (simp add: low_def arm64_low_def algebra_simps)
        with i word_at_inj [of low "even_up n + k" i] n that even_up_even(2,3) [of n] show False by simp
      qed
      then show ?thesis unfolding cmem by (rule copy_words_other)
    qed
    have stack: "mc_mem c (word_at low i) = fr_stack fr ! i" if i: "i < n" for i
    proof -
      have "mc_mem c (word_at low i) = mc_mem ?s (word_at src i)"
        unfolding cmem using area src_out n i by (intro copy_words_copied) auto
      also have "\<dots> = mc_mem s (word_at src i)"
        using src_out word_at_in [OF i] by (intro mem(3)) blast
      finally show ?thesis using words [OF i] by simp
    qed
    have "arm64_ready fr s c"
      using cregs kept stack saved [of 2] saved [of 3] mem(1,2)
      by (simp add: arm64_ready_def Let_def low_def [symmetric] sp_def [symmetric] n_def [symmetric])
    with run' show ?thesis by (intro exI [of _ "13 + 5 * n"] exI [of _ c]) (simp add: n_def)
  qed
qed

section \<open>Call and return\<close>

definition arm64_call :: "call_frame \<Rightarrow> arm64_reg machine \<Rightarrow> arm64_reg machine" where
  "arm64_call fr c = c\<lparr>mc_regs := (mc_regs c)(F 0 := fr_floats fr ! 0, F 1 := fr_floats fr ! 1, F 2 := fr_floats fr ! 2,
     F 3 := fr_floats fr ! 3, F 4 := fr_floats fr ! 4, F 5 := fr_floats fr ! 5, F 6 := fr_floats fr ! 6, F 7 := fr_floats fr ! 7,
     R 8 := fr_x8 fr, R 0 := fr_ints fr ! 0, R 1 := fr_ints fr ! 1, R 2 := fr_ints fr ! 2, R 3 := fr_ints fr ! 3,
     R 4 := fr_ints fr ! 4, R 5 := fr_ints fr ! 5, R 6 := fr_ints fr ! 6, R 7 := fr_ints fr ! 7, R 12 := fr_fn fr)\<rparr>"

lemma registers: "[0..<8] = [0, 1, 2, 3, 4, 5, 6, 7]" "[0..<4] = [0, 1, 2, 3]"
  by code_simp+

lemma below_8: "i < 8 \<Longrightarrow> i = 0 \<or> i = 1 \<or> i = 2 \<or> i = 3 \<or> i = 4 \<or> i = 5 \<or> i = 6 \<or> i = (7 :: nat)"
  by arith

lemma arm64_call_regs: "i < 8 \<Longrightarrow> mc_regs (arm64_call fr c) (R i) = fr_ints fr ! i \<and> mc_regs (arm64_call fr c) (F i) = fr_floats fr ! i"
  by (drule below_8, elim disjE) (simp_all add: arm64_call_def)

lemma arm64_loaded:
  assumes entry: "arm64_entry fr s" and ready: "arm64_ready fr s c"
  shows "run f A64 (18 + k) (goto A64 ''regs'') c = run f A64 k (drop 18 (goto A64 ''regs'')) (arm64_call fr c)"
proof -
  let ?p = "mc_regs s (R 0)"
  define b where "b = map (\<lambda>k. Move (field ''floats'' (8 * k) (R 19)) (Reg (F k))) [0..<8] @
       [Move (field ''x8'' 0 (R 19)) (Reg (R 8))] @
       map (\<lambda>k. Move (field ''ints'' (8 * k) (R 19)) (Reg (R k))) [0..<8] @
       [Move (field ''fn'' 0 (R 19)) (Reg (R 12))]"
  have g: "goto A64 ''regs'' = b @ drop 18 (goto A64 ''regs'')" by (simp add: goto_def callTrampoline_arm64_def b_def)
  have fr: "frame_in (mc_mem s) ?p fr" using entry by (simp add: arm64_entry_def)
  have p: "aligned 8 ?p" and r19: "mc_regs c (R 19) = ?p"
    using fr ready by (simp_all add: frame_in_def arm64_ready_def Let_def)
  have same: "mc_mem c (word_at ?p k) = mc_mem s (word_at ?p k)" if "k < 26" for k
    using ready arm_frame_out [OF entry that] by (simp add: arm64_ready_def Let_def)
  have ints: "mc_mem c (word_at ?p (1 + i)) = fr_ints fr ! i" if "i < 8" for i
  proof -
    have "mc_mem s (word_at ?p (1 + i)) = fr_ints fr ! i" using fr that unfolding frame_in_def field_words by blast
    then show ?thesis using same [of "1 + i"] that by simp
  qed
  have floats: "mc_mem c (word_at ?p (9 + i)) = fr_floats fr ! i" if "i < 8" for i
  proof -
    have "mc_mem s (word_at ?p (9 + i)) = fr_floats fr ! i" using fr that unfolding frame_in_def field_words by blast
    then show ?thesis using same [of "9 + i"] that by simp
  qed
  have "mc_mem c (word_at ?p 0) = fr_fn fr" "mc_mem c (word_at ?p 19) = fr_x8 fr"
    using fr same [of 0] same [of 19] unfolding frame_in_def field_words by simp_all
  then have e: "exec_all f b c = Some (arm64_call fr c)"
    using p ints [of 0] ints [of 1] ints [of 2] ints [of 3] ints [of 4] ints [of 5] ints [of 6] ints [of 7]
      floats [of 0] floats [of 1] floats [of 2] floats [of 3] floats [of 4] floats [of 5] floats [of 6] floats [of 7]
    by (simp add: b_def registers arm64_call_def r19 set_reg_def field_def)
  have n: "18 + k = length b + k" by (simp add: b_def)
  have "list_all straight b" by (simp add: b_def registers)
  from run_block [OF this e] show ?thesis by (subst g, subst n)
qed

definition store_results :: "64 word \<Rightarrow> arm64_reg machine \<Rightarrow> 64 word \<Rightarrow> 64 word" where
  "store_results p r = (mc_mem r)(field_at p ''r1'' 0 := mc_regs r (R 0), field_at p ''r2'' 0 := mc_regs r (R 1),
     field_at p ''f'' 0 := mc_regs r (F 0), field_at p ''f'' 1 := mc_regs r (F 1),
     field_at p ''f'' 2 := mc_regs r (F 2), field_at p ''f'' 3 := mc_regs r (F 3))"

lemma arm64_return:
  assumes entry: "arm64_entry fr s" and ready: "arm64_ready fr s c" and abi: "arm64_abi f"
  shows "\<exists>s'. run f A64 10 (drop 18 (goto A64 ''regs'')) (arm64_call fr c) = Some s' \<and> mc_regs s' RSP = mc_regs s RSP \<and>
    mc_regs s' (R 19) = mc_regs s (R 19) \<and> mc_regs s' (R 20) = mc_regs s (R 20) \<and>
    mc_mem s' = store_results (mc_regs s (R 0)) (f (fr_fn fr) (arm64_call fr c))"
proof -
  define sp where "sp = mc_regs s RSP"
  define p where "p = mc_regs s (R 0)"
  define r where "r = f (fr_fn fr) (arm64_call fr c)"
  let ?b = "[CallReg (R 12), Move (Reg (R 20)) (Reg RSP), Move (Reg (R 0)) (field ''r1'' 0 (R 19)),
    Move (Reg (R 1)) (field ''r2'' 0 (R 19)), Move (Reg (F 0)) (field ''f'' 0 (R 19)), Move (Reg (F 1)) (field ''f'' 8 (R 19)),
    Move (Reg (F 2)) (field ''f'' 16 (R 19)), Move (Reg (F 3)) (field ''f'' 24 (R 19)), LoadPair 16 RSP (R 19) (R 20)]"
  have g: "drop 18 (goto A64 ''regs'') = ?b @ [Return]" by (simp add: goto_def callTrampoline_arm64_def registers)
  have p8: "aligned 8 p" and sp8: "aligned 8 sp"
    using entry by (simp_all add: arm64_entry_def frame_in_def p_def sp_def aligned_16_8)
  have call: "mc_regs (arm64_call fr c) (R 12) = fr_fn fr" "mc_regs (arm64_call fr c) (R 19) = p" "mc_regs (arm64_call fr c) (R 20) = sp"
      "mc_mem (arm64_call fr c) (sp + 16) = mc_regs s (R 19)" "mc_mem (arm64_call fr c) (sp + 24) = mc_regs s (R 20)"
    using ready by (simp_all add: arm64_call_def arm64_ready_def Let_def sp_def p_def)
  then have r: "mc_regs r (R 19) = p" "mc_regs r (R 20) = sp" "mc_mem r (sp + 16) = mc_regs s (R 19)" "mc_mem r (sp + 24) = mc_regs s (R 20)"
    using abi [unfolded arm64_abi_def, rule_format, of "fr_fn fr" "arm64_call fr c"] by (simp_all add: r_def)
  have out: "a \<noteq> b" if "a \<in> {sp + 16, sp + 24}" "b \<in> {p + 160, p + 168, p + 176, p + 184, p + 192, p + 200}" for a b
  proof -
    have "a \<in> arm64_area sp (length (fr_stack fr))"
      using that(1) arm_area_words [of 2 sp] arm_area_words [of 3 sp] by auto
    moreover have "b \<in> words_at p 26"
      using that(2) word_at_in [of 20 26 p] word_at_in [of 21 26 p] word_at_in [of 22 26 p] word_at_in [of 23 26 p]
        word_at_in [of 24 26 p] word_at_in [of 25 26 p] by auto
    ultimately show ?thesis using entry by (auto simp: arm64_entry_def frame_words_def sp_def p_def)
  qed
  have kept: "store_results p r (sp + 16) = mc_regs s (R 19)" "store_results p r (sp + 24) = mc_regs s (R 20)"
    using r(3,4) out [of "sp + 16"] out [of "sp + 24"] by (simp_all add: store_results_def field_at_def)
  have "exec_all f ?b (arm64_call fr c) =
      Option.bind (exec f (LoadPair 16 RSP (R 19) (R 20)) (r\<lparr>mc_regs := (mc_regs r)(RSP := sp), mc_mem := store_results p r\<rparr>)) Some"
    using p8 r(1,2) by (simp add: call r_def [symmetric] store_results_def set_reg_def field_def field_at_def)
  also have "\<dots> = Some (set_reg (R 20) (mc_regs s (R 20)) (set_reg (R 19) (mc_regs s (R 19))
      (r\<lparr>mc_regs := (mc_regs r)(RSP := sp), mc_mem := store_results p r\<rparr>)))" (is "_ = Some ?s'")
    using sp8 kept by (simp add: add.assoc)
  finally have e: "exec_all f ?b (arm64_call fr c) = Some ?s'" .
  have n: "10 = length ?b + 1" by simp
  have "run f A64 10 (?b @ [Return]) (arm64_call fr c) = run f A64 1 [Return] ?s'"
    unfolding n by (rule run_block [OF _ e]) simp
  also have "\<dots> = Some ?s'" by simp
  finally show ?thesis unfolding g p_def [symmetric] r_def [symmetric] by (intro exI [of _ ?s']) (simp add: sp_def)
qed

text \<open>
  The AArch64 trampoline carries a frame to the foreign function and the results back. When its stack does
  not overlap the frame, it never faults and returns after a bounded number of steps: at the call \<open>X0\<close> to \<open>X7\<close>, \<open>D0\<close> to
  \<open>D7\<close> and \<open>X8\<close> are those of the frame, the stack pointer is aligned to 16 bytes and points at the stack words, and
  memory is otherwise as before; for a function that keeps to the convention, the stack pointer and the callee-saved
  registers are then restored and the frame has the result registers.
\<close>

lemma callTrampoline_arm64_calls:
  assumes "arm64_entry fr s" "arm64_abi f" "41 + 5 * length (fr_stack fr) \<le> fuel"
  shows "\<exists>c s'. run f callTrampoline_arm64 fuel (goto callTrampoline_arm64 ''entry'') s = Some s' \<and> arm64_receives fr c \<and>
    (\<forall>a. a \<in> arm64_area (mc_regs s RSP) (length (fr_stack fr)) \<or> mc_mem c a = mc_mem s a) \<and>
    mc_regs s' RSP = mc_regs s RSP \<and> mc_regs s' (R 19) = mc_regs s (R 19) \<and> mc_regs s' (R 20) = mc_regs s (R 20) \<and>
    mc_mem s' = store_results (mc_regs s (R 0)) (f (fr_fn fr) c)"
proof -
  obtain j c where j: "j \<le> 13 + 5 * length (fr_stack fr)" and c: "arm64_ready fr s c"
    and enter: "\<And>k. run f A64 (j + k) (goto A64 ''entry'') s = run f A64 k (goto A64 ''regs'') c"
    using arm64_enter [OF assms(1)] by blast
  obtain s' where ret: "run f A64 10 (drop 18 (goto A64 ''regs'')) (arm64_call fr c) = Some s'"
    and s': "mc_regs s' RSP = mc_regs s RSP" "mc_regs s' (R 19) = mc_regs s (R 19)" "mc_regs s' (R 20) = mc_regs s (R 20)"
      "mc_mem s' = store_results (mc_regs s (R 0)) (f (fr_fn fr) (arm64_call fr c))"
    using arm64_return [OF assms(1) c assms(2)] by blast
  have "run f A64 (j + 28) (goto A64 ''entry'') s = Some s'"
    using enter [of 28] arm64_loaded [OF assms(1) c, of f 10] ret by simp
  then have "run f A64 fuel (goto A64 ''entry'') s = Some s'" by (rule run_more) (use j assms(3) in simp)
  moreover have "arm64_receives fr (arm64_call fr c)"
  proof -
    have "aligned 16 (mc_regs c RSP)" using c arm64_low_aligned assms(1) by (simp add: arm64_ready_def Let_def arm64_entry_def)
    moreover have "mc_regs (arm64_call fr c) RSP = mc_regs c RSP" "mc_mem (arm64_call fr c) = mc_mem c"
      "mc_regs (arm64_call fr c) (R 8) = fr_x8 fr" by (simp_all add: arm64_call_def)
    ultimately show ?thesis using c arm64_call_regs [of _ fr c] by (simp add: arm64_receives_def arm64_ready_def Let_def)
  qed
  moreover have "\<forall>a. a \<in> arm64_area (mc_regs s RSP) (length (fr_stack fr)) \<or> mc_mem (arm64_call fr c) a = mc_mem s a"
    using c by (auto simp: arm64_ready_def Let_def arm64_call_def)
  ultimately show ?thesis using s' by blast
qed

section \<open>From the planner to the foreign function\<close>

text \<open>A location of the convention, as the function finds it.\<close>

fun machine_loc :: "arm64_reg machine \<Rightarrow> arm_loc \<Rightarrow> 64 word" where
  "machine_loc c (X i) = mc_regs c (R i)"
| "machine_loc c (V i) = mc_regs c (F i)"
| "machine_loc c (Stk i) = mc_mem c (word_at (mc_regs c RSP) i)"

lemma received_loc: "arm64_receives fr c \<Longrightarrow> valid_loc fr l \<Longrightarrow> machine_loc c l = read_loc fr l"
  by (cases l) (simp_all add: arm64_receives_def)

text \<open>
  \<^bold>\<open>C19\<close>: on AArch64 every argument of a call reaches the foreign function where the procedure call standard wants
  it. With the planned frame in memory and the trampoline's stack apart from it, the trampoline returns without a
  fault, and when the function is called every argument is in the registers and stack words of
  \<open>aapcs_locations\<close>, the assignment of the standard computed from the descriptors alone: the next X or V registers
  while they last, the stack for a composite that no longer fits and for everything of its kind after it. These
  locations do not overlap, and hold the words of the argument; \<open>X8\<close> has the address of a large result. For a
  function that keeps to the convention the stack pointer and the callee-saved registers are restored and the
  frame then has its result registers. The planner does not panic.
\<close>

theorem Call_arm64_arrives:
  fixes m :: memory and fn ret :: "64 word"
  assumes len: "length args = length (cs_Args spec)" and sep: "separate alloc bound (zip (cs_Args spec) args)"
    and fits: "list_all hfa_fits (cs_Args spec)"
    and entry: "arm64_entry (pl_frame (planARM64 alloc spec ret args (new_plan fn m))) s" and abi: "arm64_abi f"
    and fuel: "41 + 5 * maxStackWords \<le> fuel"
  defines "p \<equiv> planARM64 alloc spec ret args (new_plan fn m)" and "locs \<equiv> aapcs_locations (cs_Args spec)"
  shows "\<exists>c s'. run f callTrampoline_arm64 fuel (goto callTrampoline_arm64 ''entry'') s = Some s' \<and> distinct (concat locs) \<and>
    list_all2 (\<lambda>x ls. arm_delivered m x ls (pl_frame p) (pl_mem p)) (zip (cs_Args spec) args) locs \<and>
    (\<forall>l \<in> set (concat locs). machine_loc c l = read_loc (pl_frame p) l) \<and>
    (indirect_result (cs_Ret spec) \<longrightarrow> mc_regs c (R 8) = ret) \<and> pl_panic p = None \<and>
    mc_regs s' RSP = mc_regs s RSP \<and> mc_regs s' (R 19) = mc_regs s (R 19) \<and> mc_regs s' (R 20) = mc_regs s (R 20) \<and>
    mc_mem s' = store_results (mc_regs s (R 0)) (f (fr_fn (pl_frame p)) c)"
proof -
  have "length (fr_stack (pl_frame p)) \<le> maxStackWords" using entry by (simp add: arm64_entry_def frame_in_def p_def)
  then have "41 + 5 * length (fr_stack (pl_frame p)) \<le> fuel" using fuel by simp
  from callTrampoline_arm64_calls [OF entry [folded p_def] abi this] obtain c s' where
    run: "run f callTrampoline_arm64 fuel (goto callTrampoline_arm64 ''entry'') s = Some s'"
    and c: "arm64_receives (pl_frame p) c"
    and s': "mc_regs s' RSP = mc_regs s RSP" "mc_regs s' (R 19) = mc_regs s (R 19)" "mc_regs s' (R 20) = mc_regs s (R 20)"
      "mc_mem s' = store_results (mc_regs s (R 0)) (f (fr_fn (pl_frame p)) c)" by blast
  note plan = planARM64_delivers [OF len sep fits, where ret = ret and fn = fn and m = m, folded p_def locs_def]
  have "\<forall>l \<in> set (concat locs). machine_loc c l = read_loc (pl_frame p) l" using plan received_loc [OF c] by blast
  moreover have "indirect_result (cs_Ret spec) \<longrightarrow> mc_regs c (R 8) = ret" using plan c by (simp add: arm64_receives_def)
  ultimately show ?thesis using run s' plan by blast
qed

text \<open>A call with ten words, of a function that gives back the address it was called at.\<close>

definition ten_frame :: call_frame where
  "ten_frame = \<lparr>fr_fn = 0x5000, fr_ints = [1, 2, 3, 4, 5, 6, 7, 8], fr_floats = replicate 8 0, fr_stack = [50, 60], fr_x8 = 0\<rparr>"

definition own_address :: "arm64_reg callee" where
  "own_address t s = set_reg (R 0) t s"

definition sample_arm64 :: "arm64_reg machine" where
  "sample_arm64 = \<lparr>mc_regs = (\<lambda>_. 0)(R 0 := 0x1000, RSP := 0x8000), mc_mem = frame_image ten_frame, mc_zero = False\<rparr>"

lemma sample_arm64_entry: "arm64_entry ten_frame sample_arm64"
proof -
  have regs: "mc_regs sample_arm64 (R 0) = 0x1000" "mc_regs sample_arm64 RSP = 0x8000" by (simp_all add: sample_arm64_def)
  have n: "length (fr_stack ten_frame) = 2" by (simp add: ten_frame_def)
  have low: "arm64_low 0x8000 2 = 0x7FF0" "even_up 2 = 2" "mc_mem sample_arm64 (field_at 0x1000 ''stack'' 0) = 0x10D0" "aligned 16 0x8000"
    by code_simp+
  have fr: "frame_in (mc_mem sample_arm64) 0x1000 ten_frame" by code_simp
  have "words_at 0x7FF0 6 \<inter> words_at 0x1000 26 = {}" "words_at 0x7FF0 6 \<inter> words_at 0x10D0 2 = {}"
    by (rule words_at_apart; simp)+
  then show ?thesis using fr n low(4) by (simp add: arm64_entry_def arm64_area_def frame_words_def regs low Int_Un_distrib)
qed

lemma Call_arm64_arrives_witness:
  "\<exists>s'. run own_address callTrampoline_arm64 260 (goto callTrampoline_arm64 ''entry'') sample_arm64 = Some s' \<and>
     mc_regs s' RSP = 0x8000 \<and> mc_mem s' (field_at 0x1000 ''r1'' 0) = 0x5000 \<and>
     aapcs_locations (cs_Args (words_spec 10)) = [[X 0], [X 1], [X 2], [X 3], [X 4], [X 5], [X 6], [X 7], [Stk 0], [Stk 1]]"
proof -
  let ?args = "[1, 2, 3, 4, 5, 6, 7, 8, 50, 60] :: 64 word list"
  have frame: "pl_frame (planARM64 far_buffers (words_spec 10) 0 ?args (new_plan 0x5000 (\<lambda>_. 0))) = ten_frame" by code_simp
  have len: "length ?args = length (cs_Args (words_spec 10))" by (simp add: words_spec_def)
  have sep: "separate far_buffers 16 (zip (cs_Args (words_spec 10)) ?args)" by (rule words_spec_separate) simp_all
  have fits: "list_all hfa_fits (cs_Args (words_spec 10))" by code_simp
  have abi: "arm64_abi own_address" by (simp add: arm64_abi_def own_address_def)
  have fuel: "41 + 5 * maxStackWords \<le> 260" by (simp add: maxStackWords_def)
  have regs: "mc_regs sample_arm64 (R 0) = 0x1000" "mc_regs sample_arm64 RSP = 0x8000" by (simp_all add: sample_arm64_def)
  from Call_arm64_arrives [OF len sep fits, where ret = 0 and fn = "0x5000" and m = "\<lambda>_. 0", unfolded frame, OF sample_arm64_entry abi fuel]
  obtain c s' where run: "run own_address callTrampoline_arm64 260 (goto callTrampoline_arm64 ''entry'') sample_arm64 = Some s'"
    and sp: "mc_regs s' RSP = 0x8000" and mem: "mc_mem s' = store_results 0x1000 (own_address (fr_fn ten_frame) c)"
    unfolding regs by blast
  have "mc_mem s' (field_at 0x1000 ''r1'' 0) = 0x5000"
    by (simp add: mem store_results_def field_at_def own_address_def ten_frame_def)
  moreover have "aapcs_locations (cs_Args (words_spec 10)) = [[X 0], [X 1], [X 2], [X 3], [X 4], [X 5], [X 6], [X 7], [Stk 0], [Stk 1]]"
    by code_simp
  ultimately show ?thesis using run sp by blast
qed

end
