(* ===== verification/Runtime.thy ===== *)
theory Runtime
  imports Prelude "HOL-Library.Word"
begin

unbundle bit_operations_syntax

text \<open>
  The value helpers of \<open>bindings/runtime/win32\<close>: the error values and \<open>errors.Is\<close> on them
  (\<open>hresult.go\<close>, \<open>loader.go\<close>), results and GUIDs (\<open>runtime.go\<close>), small by-value structures and UTF-16
  strings, and the dispatch of \<open>iunknown.go\<close>.
\<close>

section \<open>Errors\<close>

text \<open>
  The error values of the runtime. \<open>Errno\<close> is \<open>syscall.Errno\<close>, \<open>ProcError\<close> has the module, the export
  (empty when the module failed to load) and the cause; the last two are the sentinels.
\<close>

datatype go_error = Errno "64 word" | HRESULT "32 word" | ProcError string string go_error
  | ErrDLLNotFound | ErrProcNotFound

definition Failed :: "32 word \<Rightarrow> bool" where
  "Failed hr \<longleftrightarrow> sint hr < 0"

definition hresult_is :: "32 word \<Rightarrow> go_error \<Rightarrow> bool" where
  "hresult_is hr target \<longleftrightarrow>
     (case target of Errno e \<Rightarrow> drop_bit 16 hr = 0x8007 \<and> hr AND 0xFFFF = ucast e | _ \<Rightarrow> False)"

definition proc_error_is :: "string \<Rightarrow> go_error \<Rightarrow> bool" where
  "proc_error_is proc target \<longleftrightarrow> (if proc = [] then target = ErrDLLNotFound else target = ErrProcNotFound)"

text \<open>
  \<open>errors.Is\<close> for targets that are error codes or sentinels: equality or the error's own \<open>Is\<close>, then
  the error it unwraps to. A \<open>*ProcError\<close> is compared by address, so it equals no such target, and the
  \<open>Is\<close> of \<open>syscall.Errno\<close> answers only for sentinels of the standard library.
\<close>

fun errors_is :: "go_error \<Rightarrow> go_error \<Rightarrow> bool" where
  "errors_is (ProcError dll proc e) target \<longleftrightarrow>
     proc_error_is proc target \<or> errors_is e target"
| "errors_is (HRESULT hr) target \<longleftrightarrow> HRESULT hr = target \<or> hresult_is hr target"
| "errors_is e target \<longleftrightarrow> e = target"

definition ErrIfFailed :: "32 word \<Rightarrow> go_error option" where
  "ErrIfFailed hresult = (if 0 \<le> sint hresult then None else Some (HRESULT hresult))"

definition LastError :: "64 word \<Rightarrow> go_error" where
  "LastError errno = (if errno \<noteq> 0 then Errno errno else Errno 87)"

definition Bool32 :: "bool \<Rightarrow> 32 word" where
  "Bool32 v = (if v then 1 else 0)"

definition Bool8 :: "bool \<Rightarrow> 8 word" where
  "Bool8 v = (if v then 1 else 0)"

definition BoolErr :: "32 word \<Rightarrow> go_error option" where
  "BoolErr b = (if b \<noteq> 0 then None else Some (Errno 1))"

definition Succeeded :: "32 word \<Rightarrow> bool" where
  "Succeeded hresult \<longleftrightarrow> 0 \<le> sint hresult"

definition hresult_constants :: "32 word gomap" where
  "hresult_constants =
     [(''S_OK'', 0), (''S_FALSE'', 1), (''E_NOTIMPL'', 0x80004001), (''E_NOINTERFACE'', 0x80004002),
      (''E_POINTER'', 0x80004003), (''E_ABORT'', 0x80004004), (''E_FAIL'', 0x80004005),
      (''E_UNEXPECTED'', 0x8000FFFF), (''E_ACCESSDENIED'', 0x80070005), (''E_HANDLE'', 0x80070006),
      (''E_OUTOFMEMORY'', 0x8007000E), (''E_INVALIDARG'', 0x80070057)]"

section \<open>GUIDs\<close>

record guid =
  gd_Data1 :: "32 word"
  gd_Data2 :: "16 word"
  gd_Data3 :: "16 word"
  gd_Data4 :: "8 word list"

definition hex_byte :: "8 word \<Rightarrow> string" where
  "hex_byte b = show_hex 2 (unat b)"

definition guid_String :: "guid \<Rightarrow> string" where
  "guid_String g =
     show_hex 8 (unat (gd_Data1 g)) @ ''-'' @ show_hex 4 (unat (gd_Data2 g)) @ ''-'' @
     show_hex 4 (unat (gd_Data3 g)) @ ''-'' @ concat (map hex_byte (take 2 (gd_Data4 g))) @ ''-'' @
     concat (map hex_byte (drop 2 (gd_Data4 g)))"

section \<open>Small structures\<close>

text \<open>
  A by-value structure is its bytes; a word of the call holds the first one in its low end. A value
  larger than a word panics.
\<close>

fun word_of_bytes :: "8 word list \<Rightarrow> 64 word" where
  "word_of_bytes [] = 0"
| "word_of_bytes (b # bs) = ucast b OR push_bit 8 (word_of_bytes bs)"

fun bytes_of_word :: "64 word \<Rightarrow> nat \<Rightarrow> 8 word list" where
  "bytes_of_word w 0 = []"
| "bytes_of_word w (Suc n) = ucast w # bytes_of_word (drop_bit 8 w) n"

definition StructArg :: "8 word list \<Rightarrow> string + 64 word" where
  "StructArg v =
     (if 8 < length v then Inl ''win32: by-value struct is too large to pass in a register''
      else Inr (word_of_bytes v))"

definition StructRet :: "nat \<Rightarrow> 64 word \<Rightarrow> string + 8 word list" where
  "StructRet n w =
     (if 8 < n then Inl ''win32: by-value struct is too large to return in a register''
      else Inr (bytes_of_word w n))"

section \<open>Result pointers (outparam.go)\<close>

text \<open>
  The two package variables. \<open>OutParam\<close> gives back its pointer; the store behind the flag, which nothing
  sets, is there for the compiler, whose escape analysis has no counterpart here.
\<close>

record escape_sink =
  alwaysFalse :: bool
  outParamSink :: "64 word"

definition OutParam :: "64 word \<Rightarrow> escape_sink \<Rightarrow> 64 word \<times> escape_sink" where
  "OutParam p s = (p, if alwaysFalse s then s\<lparr>outParamSink := p\<rparr> else s)"

section \<open>UTF-16 strings\<close>

text \<open>
  A Go string is the list of its code points, as WTF-8 has them: lone surrogates too, and U+FFFD for
  bytes that are no code point. Memory at a pointer is a function from offsets to code units. \<open>syscall\<close>
  encodes with surrogate pairs, and keeps a lone surrogate in both directions.
\<close>

definition valid_rune :: "nat \<Rightarrow> bool" where
  "valid_rune r \<longleftrightarrow> r < 0xD800 \<or> 0xE000 \<le> r \<and> r < 0x110000"

definition encode_rune :: "nat \<Rightarrow> nat list" where
  "encode_rune r =
     (if 0x110000 \<le> r then [0xFFFD]
      else if r < 0x10000 then [r]
      else [0xD800 + (r - 0x10000) div 0x400, 0xDC00 + (r - 0x10000) mod 0x400])"

definition utf16_encode :: "nat list \<Rightarrow> nat list" where
  "utf16_encode s = concat (map encode_rune s)"

fun utf16_decode :: "nat list \<Rightarrow> nat list" where
  "utf16_decode [] = []"
| "utf16_decode [u] = [u]"
| "utf16_decode (u # v # us) =
     (if 0xD800 \<le> u \<and> u < 0xDC00 \<and> 0xDC00 \<le> v \<and> v < 0xE000
      then (0x10000 + (u - 0xD800) * 0x400 + (v - 0xDC00)) # utf16_decode us
      else u # utf16_decode (v # us))"

text \<open>The terminated code units of a string; a string with a NUL panics.\<close>

definition UTF16Ptr :: "nat list \<Rightarrow> string + nat list" where
  "UTF16Ptr s = (if 0 \<in> set s then Inl ''win32: string contains NUL byte'' else Inr (utf16_encode s @ [0]))"

definition UTF16PtrOrNil :: "nat list option \<Rightarrow> string + nat list option" where
  "UTF16PtrOrNil s = (case s of None \<Rightarrow> Inr None | Some s \<Rightarrow> map_sum id Some (UTF16Ptr s))"

text \<open>The scan for the terminator reads past any buffer that has none.\<close>

partial_function (option) scan_nul :: "(nat \<Rightarrow> nat) \<Rightarrow> nat \<Rightarrow> nat option" where
  "scan_nul mem n = (if mem n = 0 then Some n else scan_nul mem (n + 1))"

definition UTF16ToString :: "(nat \<Rightarrow> nat) option \<Rightarrow> nat list option" where
  "UTF16ToString p =
     (case p of None \<Rightarrow> Some []
      | Some mem \<Rightarrow> map_option (\<lambda>n. utf16_decode (takeWhile (\<lambda>u. u \<noteq> 0) (map mem [0..<n]))) (scan_nul mem 0))"

section \<open>COM objects\<close>

text \<open>
  The first word of an object is its vtable. The callee is a parameter: from the function's address
  and its argument words to the first result word and the memory.
\<close>

type_synonym words = "64 word \<Rightarrow> 64 word"

type_synonym com_call = "64 word \<Rightarrow> 64 word list \<Rightarrow> words \<Rightarrow> 64 word \<times> words"

definition vtable_slot :: "64 word \<Rightarrow> nat \<Rightarrow> words \<Rightarrow> 64 word" where
  "vtable_slot obj n m = m (m obj + of_nat (8 * n))"

definition unknown_QueryInterface ::
    "com_call \<Rightarrow> 64 word \<Rightarrow> 64 word \<Rightarrow> 64 word \<Rightarrow> words \<Rightarrow> go_error option \<times> words" where
  "unknown_QueryInterface invoke u riid ppv m =
     (let (r1, m) = invoke (vtable_slot u 0 m) [u, riid, ppv] m in (ErrIfFailed (ucast r1), m))"

definition AddRef :: "com_call \<Rightarrow> 64 word \<Rightarrow> words \<Rightarrow> 32 word \<times> words" where
  "AddRef invoke u m = (let (r1, m) = invoke (vtable_slot u 1 m) [u] m in (ucast r1, m))"

definition Release :: "com_call \<Rightarrow> 64 word \<Rightarrow> words \<Rightarrow> 32 word \<times> words" where
  "Release invoke u m = (let (r1, m) = invoke (vtable_slot u 2 m) [u] m in (ucast r1, m))"

definition assertInterfaceStruct :: "nat \<Rightarrow> string + unit" where
  "assertInterfaceStruct sizeof =
     (if sizeof \<noteq> 8 then Inl ''win32: type argument is not a single-word COM interface struct'' else Inr ())"

text \<open>\<open>slot\<close> is the address of the new out word, which starts as nil.\<close>

definition QueryInterface :: "com_call \<Rightarrow> nat \<Rightarrow> 64 word \<Rightarrow> 64 word \<Rightarrow> 64 word \<Rightarrow> words \<Rightarrow>
    string + (go_error + 64 word) \<times> words" where
  "QueryInterface invoke sizeof slot obj iid m =
     (case assertInterfaceStruct sizeof of
        Inl e \<Rightarrow> Inl e
      | Inr _ \<Rightarrow> (case unknown_QueryInterface invoke obj iid slot (m(slot := 0)) of
            (Some e, m) \<Rightarrow> Inr (Inl e, m)
          | (None, m) \<Rightarrow> Inr (Inr (m slot), m)))"

definition Cast :: "nat \<Rightarrow> 64 word \<Rightarrow> string + 64 word" where
  "Cast sizeof unk = (case assertInterfaceStruct sizeof of Inl e \<Rightarrow> Inl e | Inr _ \<Rightarrow> Inr unk)"

end
