(* ===== verification/RuntimeFacts.thy ===== *)
theory RuntimeFacts
  imports Runtime ConstInit
begin

unbundle bit_operations_syntax

text \<open>
  Round trips of the runtime's values: strings through UTF-16 buffers, small structures through
  argument words, and GUIDs through their text, as the generator reads it.
\<close>

lemma unat_bound: "unat w < 2 ^ LENGTH('a)" for w :: "'a::len word"
  by (rule unsigned_less)

section \<open>UTF-16 strings\<close>

lemma decode_encode_rune: "valid_rune r \<Longrightarrow> utf16_decode (encode_rune r @ us) = r # utf16_decode us"
proof (cases "r < 0x10000")
  case True
  assume "valid_rune r"
  with True show ?thesis by (cases us) (auto simp: encode_rune_def valid_rune_def)
next
  case False
  assume v: "valid_rune r"
  let ?x = "r - 0x10000"
  have "?x < 0x100000" using v False by (auto simp: valid_rune_def)
  then have "?x div 0x400 < 0x400" by (simp add: less_mult_imp_div_less)
  moreover have "?x div 0x400 * 0x400 + ?x mod 0x400 = ?x" by (rule div_mult_mod_eq)
  ultimately show ?thesis using v False by (simp add: encode_rune_def valid_rune_def)
qed

lemma decode_encode: "\<forall>r \<in> set s. valid_rune r \<Longrightarrow> utf16_decode (utf16_encode s) = s"
  by (induction s) (simp_all add: utf16_encode_def decode_encode_rune)

lemma encode_no_nul: "0 \<notin> set s \<Longrightarrow> 0 \<notin> set (utf16_encode s)"
  by (induction s) (auto simp: utf16_encode_def encode_rune_def split: if_splits)

lemma scan_nul_run: "\<forall>i < n. mem (k + i) \<noteq> 0 \<Longrightarrow> mem (k + n) = 0 \<Longrightarrow> scan_nul mem k = Some (k + n)"
proof (induction n arbitrary: k)
  case 0
  then show ?case by (simp add: scan_nul.simps)
next
  case (Suc n)
  have "mem k \<noteq> 0" using Suc.prems(1) by (metis add.right_neutral zero_less_Suc)
  moreover have "scan_nul mem (k + 1) = Some (k + 1 + n)"
    by (rule Suc.IH) (use Suc.prems in \<open>auto simp: add.assoc dest: spec [of _ "Suc _"]\<close>)
  ultimately show ?case by (subst scan_nul.simps) simp
qed

text \<open>
  \<^bold>\<open>C27\<close>: a string of valid code points without NUL that \<open>UTF16Ptr\<close> writes anywhere in memory is read back
  unchanged by \<open>UTF16ToString\<close>, whose scan stops at the terminator.
\<close>

theorem UTF16_roundtrip:
  assumes s: "\<forall>r \<in> set s. valid_rune r" and u: "UTF16Ptr s = Inr units"
    and mem: "\<forall>i < length units. mem i = units ! i"
  shows "UTF16ToString (Some mem) = Some s"
proof -
  let ?us = "utf16_encode s"
  have us: "units = ?us @ [0]" "0 \<notin> set ?us"
    using u encode_no_nul by (auto simp: UTF16Ptr_def split: if_splits)
  have unit: "mem i = ?us ! i" if "i < length ?us" for i using mem that by (simp add: us(1) nth_append)
  have "scan_nul mem 0 = Some (0 + length ?us)"
  proof (rule scan_nul_run)
    show "\<forall>i < length ?us. mem (0 + i) \<noteq> 0" using unit us(2) by (metis add_0 nth_mem)
    show "mem (0 + length ?us) = 0" using mem by (simp add: us(1))
  qed
  moreover have "map mem [0..<length ?us] = ?us" by (rule nth_equalityI) (simp_all add: unit)
  moreover have "takeWhile (\<lambda>u. u \<noteq> 0) ?us = ?us"
    unfolding takeWhile_eq_all_conv using us(2) by metis
  ultimately show ?thesis
    by (simp only: UTF16ToString_def option.case option.map add_0 decode_encode [OF s])
qed

lemma UTF16_roundtrip_witness: "UTF16ToString (Some (\<lambda>i. [0x48, 0xD83D, 0xDE00, 0] ! i)) = Some [0x48, 0x1F600]"
  by (rule UTF16_roundtrip [where units = "[0x48, 0xD83D, 0xDE00, 0]"])
    (simp_all add: valid_rune_def UTF16Ptr_def utf16_encode_def encode_rune_def)

section \<open>Small structures\<close>

lemma bytes_of_word_of_bytes: "length v \<le> 8 \<Longrightarrow> bytes_of_word (word_of_bytes v) (length v) = v"
proof (induction v)
  case (Cons b bs)
  let ?w = "word_of_bytes bs"
  have n: "length bs \<le> 7" using Cons.prems by simp
  have small: "word_of_bytes bs = take_bit (8 * length bs) (word_of_bytes bs)" for bs
  proof (induction bs)
    case (Cons c cs)
    have "take_bit (8 * length (c # cs)) (word_of_bytes (c # cs)) =
        take_bit (8 + 8 * length cs) (ucast c) OR push_bit 8 (take_bit (8 * length cs) (word_of_bytes cs))"
      by (simp add: take_bit_push_bit take_bit_or)
    moreover have "take_bit (8 + 8 * length cs) (ucast c :: 64 word) = ucast c"
      by (simp add: bit_eq_iff bit_simps) (auto simp: bit_simps dest: bit_imp_le_length)
    ultimately show ?case using Cons by simp
  qed simp
  have "ucast (ucast b OR push_bit 8 ?w :: 64 word) = b"
    by (rule bit_eqI) (auto simp: bit_simps)
  moreover have "drop_bit 8 (ucast b OR push_bit 8 ?w) = ?w"
  proof (rule bit_eqI)
    fix i
    have "bit ?w i \<Longrightarrow> i < 8 * length bs" by (subst (asm) small) (simp add: bit_simps)
    then have "bit ?w i \<Longrightarrow> i + 8 < 64" using n by fastforce
    moreover have "\<not> bit b (8 + i)" using bit_imp_le_length [of b "8 + i"] by auto
    ultimately show "bit (drop_bit 8 (ucast b OR push_bit 8 ?w)) i = bit ?w i"
      by (auto simp: bit_simps)
  qed
  ultimately show ?case using Cons by simp
qed simp

text \<open>
  A by-value structure of at most eight bytes survives the argument word: \<open>StructRet\<close> gives back what
  \<open>StructArg\<close> packed; anything larger panics in both.
\<close>

theorem StructArg_roundtrip:
  "case StructArg v of Inr w \<Rightarrow> length v \<le> 8 \<and> StructRet (length v) w = Inr v
     | Inl _ \<Rightarrow> 8 < length v \<and> (\<forall>w. \<exists>e. StructRet (length v) w = Inl e)"
  by (simp add: StructArg_def StructRet_def bytes_of_word_of_bytes)

section \<open>GUIDs\<close>

lemma show_base_length: "0 < k \<Longrightarrow> n < 16 ^ k \<Longrightarrow> length (show_base 16 n) \<le> k"
proof (induction k arbitrary: n)
  case (Suc k)
  show ?case
  proof (cases "n < 16")
    case True
    then show ?thesis by (subst show_base.simps) simp
  next
    case False
    then have "0 < k" using Suc.prems(2) by (cases k) simp_all
    moreover have "n div 16 < 16 ^ k" using Suc.prems(2) by (simp add: less_mult_imp_div_less mult.commute)
    ultimately have "length (show_base 16 (n div 16)) \<le> k" by (rule Suc.IH)
    with False show ?thesis by (subst show_base.simps) simp
  qed
qed simp

lemma show_hex_length: "0 < k \<Longrightarrow> n < 16 ^ k \<Longrightarrow> length (show_hex k n) = k"
  using show_base_length [of k n] by (simp add: show_hex_def pad_left_def)

lemma digit_char_no_dash: "d < 16 \<Longrightarrow> digit_char d \<noteq> CHR ''-''"
  by (auto simp: digit_char_def char_eq_byte byte_of_Char)

lemma show_hex_no_dash: "CHR ''-'' \<notin> set (show_hex w n)"
proof -
  have "CHR ''-'' \<notin> set (show_base b n)" if "b = 16" for b
    using that
  proof (induction b n rule: show_base.induct)
    case (1 b n)
    then show ?case by (subst show_base.simps) (auto simp: digit_char_no_dash [symmetric] dest: digit_char_no_dash)
  qed
  then show ?thesis by (auto simp: show_hex_def pad_left_def char_eq_byte byte_of_Char)
qed

lemma parse_pairs_hex: "parse_pairs (concat (map hex_byte bs)) = Some (map unat bs)"
proof (induction bs)
  case (Cons b bs)
  have b: "unat b < 256" using unat_bound [of b] by simp
  then have "length (hex_byte b) = 2" by (simp add: hex_byte_def show_hex_length)
  then obtain x y where xy: "hex_byte b = [x, y]" by (auto simp: numeral_2_eq_2 length_Suc_conv)
  have "parse_uint 16 8 (hex_byte b) = Some (unat b)" using b by (simp add: hex_byte_def parse_uint_show_hex)
  with xy Cons show ?case by simp
qed simp

lemma concat_hex_length: "length (concat (map hex_byte bs)) = 2 * length bs"
proof (induction bs)
  case (Cons b bs)
  have "unat b < 256" using unat_bound [of b] by simp
  then have "length (hex_byte b) = 2" by (simp add: hex_byte_def show_hex_length)
  with Cons show ?case by simp
qed simp

text \<open>The text of a GUID is one the generator accepts; its literal has the fields of the GUID.\<close>

lemma guid_String_literal:
  assumes "length (gd_Data4 g) = 8"
  shows "guidLiteral (guid_String g) =
    Inr (guid_text (''0x'' @ show_hex 8 (unat (gd_Data1 g))) (''0x'' @ show_hex 4 (unat (gd_Data2 g)))
      (''0x'' @ show_hex 4 (unat (gd_Data3 g))) (map (\<lambda>b. ''0x'' @ show_hex 2 (unat b)) (gd_Data4 g)))"
proof -
  let ?d4 = "concat (map hex_byte (take 2 (gd_Data4 g)))" and ?d5 = "concat (map hex_byte (drop 2 (gd_Data4 g)))"
  let ?parts = "[show_hex 8 (unat (gd_Data1 g)), show_hex 4 (unat (gd_Data2 g)), show_hex 4 (unat (gd_Data3 g)), ?d4, ?d5]"
  have "guid_String g = join_with ''-'' ?parts" by (simp add: guid_String_def)
  moreover have "CHR ''-'' \<notin> set p" if "p \<in> set ?parts" for p
    using that show_hex_no_dash by (auto simp: hex_byte_def)
  ultimately have parts: "split_on (CHR ''-'') (guid_String g) = ?parts" by (metis list.distinct(1) split_on_join)
  have bytes: "parse_pairs (?d4 @ ?d5) = Some (map unat (gd_Data4 g))"
    using parse_pairs_hex [of "gd_Data4 g"] by (metis append_take_drop_id concat_append map_append)
  have d: "unat (gd_Data1 g) < 2 ^ 32" "unat (gd_Data2 g) < 2 ^ 16" "unat (gd_Data3 g) < 2 ^ 16"
    using unat_bound [of "gd_Data1 g"] unat_bound [of "gd_Data2 g"] unat_bound [of "gd_Data3 g"] by simp_all
  have len: "length ?d4 = 4" "length ?d5 = 12" using assms by (simp_all add: concat_hex_length)
  show ?thesis
    unfolding guidLiteral_def Let_def parts
    using d len bytes by (simp add: parse_uint_show_hex comp_def)
qed

section \<open>Errors\<close>

text \<open>The failure of a system call, as the loader and the helpers report it.\<close>

lemma errors_is_load:
  "errors_is (ProcError dll [] (Errno e)) ErrDLLNotFound" "\<not> errors_is (ProcError dll [] (Errno e)) ErrProcNotFound"
  "proc \<noteq> [] \<Longrightarrow> errors_is (ProcError dll proc (Errno e)) ErrProcNotFound"
  "proc \<noteq> [] \<Longrightarrow> \<not> errors_is (ProcError dll proc (Errno e)) ErrDLLNotFound"
  "errors_is (ProcError dll proc (Errno e)) (Errno f) \<longleftrightarrow> e = f"
  by (auto simp: proc_error_is_def)

end
