(* ===== verification/Loader.thy ===== *)
theory Loader
  imports Runtime
begin

text \<open>
  The lazy loader of \<open>bindings/runtime/win32/loader.go\<close> as a transition system. Threads resolve procs;
  every proc and every module has a \<open>sync.Once\<close>, and a thread that finds one running waits. Each step is
  one action between two synchronizations. What the system answers is open: \<open>LoadLibraryExW\<close> and
  \<open>GetProcAddress\<close> may return any word and any error code, differently every time.
\<close>

section \<open>State\<close>

text \<open>\<open>sync.Once\<close>: not started, running in a thread, or done.\<close>

datatype once = Fresh | Running nat | Finished

record dll =
  dl_name :: string
  dl_once :: once
  dl_handle :: "64 word"
  dl_err :: "go_error option"

record lazy_proc =
  pr_dll :: nat
  pr_name :: string
  pr_once :: once
  pr_addr :: "64 word"
  pr_err :: "go_error option"

definition NewDLL :: "string \<Rightarrow> dll" where
  "NewDLL name = \<lparr>dl_name = name, dl_once = Fresh, dl_handle = 0, dl_err = None\<rparr>"

definition NewProc :: "nat \<Rightarrow> string \<Rightarrow> lazy_proc" where
  "NewProc d name = \<lparr>pr_dll = d, pr_name = name, pr_once = Fresh, pr_addr = 0, pr_err = None\<rparr>"

text \<open>
  Where a thread is: at the once of a proc, inside it before the module's once, inside both, inside the
  first with the module loaded, or past both.
\<close>

datatype thread = Idle | AtProc nat | InProc nat | InDll nat | DllLoaded nat | Found nat

text \<open>\<open>ld_loads\<close> records the calls of \<open>loadSystemDLL\<close>, \<open>ld_log\<close> what the finished calls returned.\<close>

record loader =
  ld_dlls :: "dll list"
  ld_procs :: "lazy_proc list"
  ld_threads :: "thread list"
  ld_loads :: "nat list"
  ld_log :: "(nat \<times> (go_error + 64 word)) list"

section \<open>Operations\<close>

text \<open>\<open>syscall.EINVAL\<close>, the error of the conversions of a name that contains a NUL.\<close>

definition EINVAL :: "64 word" where
  "EINVAL = 0x20000027"

definition loadSystemDLL :: "string \<Rightarrow> 64 word \<times> 64 word \<Rightarrow> 64 word \<times> go_error option" where
  "loadSystemDLL name answer =
     (if CHR 0x00 \<in> set name then (0, Some (ProcError name [] (Errno EINVAL)))
      else case answer of (handle, callErr) \<Rightarrow>
        if handle = 0 then (0, Some (ProcError name [] (Errno callErr))) else (handle, None))"

text \<open>The closure of \<open>DLL.load\<close>.\<close>

definition load_dll :: "64 word \<times> 64 word \<Rightarrow> dll \<Rightarrow> dll" where
  "load_dll answer d =
     (let (handle, err) = loadSystemDLL (dl_name d) answer
      in d\<lparr>dl_handle := handle, dl_err := err, dl_once := Finished\<rparr>)"

text \<open>The end of \<open>find\<close>'s closure, once the module is loaded.\<close>

definition resolve_proc :: "dll \<Rightarrow> 64 word \<times> 64 word \<Rightarrow> lazy_proc \<Rightarrow> lazy_proc" where
  "resolve_proc d answer p =
     (case dl_err d of
        Some e \<Rightarrow> p\<lparr>pr_err := Some e\<rparr>
      | None \<Rightarrow>
          if CHR 0x00 \<in> set (pr_name p) then p\<lparr>pr_err := Some (ProcError (dl_name d) (pr_name p) (Errno EINVAL))\<rparr>
          else (case answer of (addr, err) \<Rightarrow>
          if addr = 0 then p\<lparr>pr_err := Some (ProcError (dl_name d) (pr_name p) (Errno err))\<rparr>
          else p\<lparr>pr_addr := addr\<rparr>))"

text \<open>What \<open>Addr\<close> returns, or the error it panics with; \<open>Find\<close> returns the same error.\<close>

definition Addr :: "lazy_proc \<Rightarrow> go_error + 64 word" where
  "Addr p = (case pr_err p of Some e \<Rightarrow> Inl e | None \<Rightarrow> Inr (pr_addr p))"

definition goto :: "nat \<Rightarrow> thread \<Rightarrow> loader \<Rightarrow> loader" where
  "goto t x s = s\<lparr>ld_threads := (ld_threads s)[t := x]\<rparr>"

definition set_dll :: "nat \<Rightarrow> dll \<Rightarrow> loader \<Rightarrow> loader" where
  "set_dll d x s = s\<lparr>ld_dlls := (ld_dlls s)[d := x]\<rparr>"

definition set_proc :: "nat \<Rightarrow> lazy_proc \<Rightarrow> loader \<Rightarrow> loader" where
  "set_proc p x s = s\<lparr>ld_procs := (ld_procs s)[p := x]\<rparr>"

text \<open>One step of a thread, with the system's answer; \<open>None\<close> when the thread is idle or has to wait.\<close>

definition advance :: "nat \<Rightarrow> 64 word \<times> 64 word \<Rightarrow> loader \<Rightarrow> loader option" where
  "advance t answer s =
     (if length (ld_threads s) \<le> t then None
      else (case ld_threads s ! t of
          Idle \<Rightarrow> None
        | AtProc i \<Rightarrow> (let p = ld_procs s ! i in
            case pr_once p of
              Fresh \<Rightarrow> Some (goto t (InProc i) (set_proc i (p\<lparr>pr_once := Running t\<rparr>) s))
            | Running _ \<Rightarrow> None
            | Finished \<Rightarrow> Some (goto t (Found i) s))
        | InProc i \<Rightarrow> (let j = pr_dll (ld_procs s ! i); d = ld_dlls s ! j in
            case dl_once d of
              Fresh \<Rightarrow> Some (goto t (InDll i) (set_dll j (d\<lparr>dl_once := Running t\<rparr>) s))
            | Running _ \<Rightarrow> None
            | Finished \<Rightarrow> Some (goto t (DllLoaded i) s))
        | InDll i \<Rightarrow> (let j = pr_dll (ld_procs s ! i); d = ld_dlls s ! j in
            Some (goto t (DllLoaded i) (set_dll j (load_dll answer d) (s\<lparr>ld_loads := ld_loads s @ [j]\<rparr>))))
        | DllLoaded i \<Rightarrow> (let p = ld_procs s ! i; p = resolve_proc (ld_dlls s ! pr_dll p) answer p in
            Some (goto t (Found i) (set_proc i (p\<lparr>pr_once := Finished\<rparr>) s)))
        | Found i \<Rightarrow> Some (goto t Idle (s\<lparr>ld_log := ld_log s @ [(i, Addr (ld_procs s ! i))]\<rparr>))))"

text \<open>An idle thread calls \<open>Find\<close> or \<open>Addr\<close> on a proc.\<close>

definition begin_find :: "nat \<Rightarrow> nat \<Rightarrow> loader \<Rightarrow> loader option" where
  "begin_find t i s =
     (if t < length (ld_threads s) \<and> ld_threads s ! t = Idle \<and> i < length (ld_procs s)
      then Some (goto t (AtProc i) s) else None)"

inductive loader_work :: "loader \<Rightarrow> loader \<Rightarrow> bool" where
  advance: "advance t answer s = Some s' \<Longrightarrow> loader_work s s'"

inductive loader_step :: "loader \<Rightarrow> loader \<Rightarrow> bool" where
  call: "begin_find t i s = Some s' \<Longrightarrow> loader_step s s'"
| work: "loader_work s s' \<Longrightarrow> loader_step s s'"

definition loader_init :: "loader \<Rightarrow> bool" where
  "loader_init s \<longleftrightarrow>
     (\<forall>d \<in> set (ld_dlls s). d = NewDLL (dl_name d)) \<and>
     (\<forall>p \<in> set (ld_procs s). p = NewProc (pr_dll p) (pr_name p) \<and> pr_dll p < length (ld_dlls s)) \<and>
     (\<forall>x \<in> set (ld_threads s). x = Idle) \<and> ld_loads s = [] \<and> ld_log s = []"

end
