(* ===== verification/LoaderFacts.thy ===== *)
theory LoaderFacts
  imports Loader
begin

text \<open>
  What the lazy loader guarantees under every interleaving: a module is loaded at most once, all calls
  on a proc agree, failures carry the module or the export that is missing, and no call waits forever.
\<close>

section \<open>Transition systems\<close>

locale stepping =
  fixes init inv :: "'s \<Rightarrow> bool" and step :: "'s \<Rightarrow> 's \<Rightarrow> bool"
  assumes init_inv: "init s \<Longrightarrow> inv s"
    and step_inv: "inv s \<Longrightarrow> step s s' \<Longrightarrow> inv s'"
begin

lemma steps_inv: "step\<^sup>*\<^sup>* s s' \<Longrightarrow> inv s \<Longrightarrow> inv s'"
  by (induction rule: rtranclp_induct) (auto intro: step_inv)

lemma reachable_inv: "init s \<Longrightarrow> step\<^sup>*\<^sup>* s s' \<Longrightarrow> inv s'"
  by (simp add: steps_inv init_inv)

end

text \<open>A system whose own work, without new requests, always can go on until it is quiet, and ends.\<close>

locale draining = stepping init inv step
  for init inv :: "'s \<Rightarrow> bool" and step :: "'s \<Rightarrow> 's \<Rightarrow> bool" +
  fixes work :: "'s \<Rightarrow> 's \<Rightarrow> bool" and quiet :: "'s \<Rightarrow> bool" and rank :: "'s \<Rightarrow> nat"
  assumes work_step: "work s s' \<Longrightarrow> step s s'"
    and progress: "inv s \<Longrightarrow> \<not> quiet s \<Longrightarrow> \<exists>s'. work s s'"
    and decrease: "inv s \<Longrightarrow> work s s' \<Longrightarrow> rank s' < rank s"
begin

lemma bounded_work: "(work ^^ n) s s' \<Longrightarrow> inv s \<Longrightarrow> inv s' \<and> n + rank s' \<le> rank s"
proof (induction n arbitrary: s')
  case (Suc n)
  then obtain s1 where s1: "(work ^^ n) s s1" "work s1 s'" by auto
  from Suc.IH [OF s1(1) Suc.prems(2)] s1(2) show ?case
    using decrease [of s1 s'] step_inv [OF _ work_step, of s1 s'] by fastforce
qed simp

lemma drains: "inv s \<Longrightarrow> \<exists>s'. work\<^sup>*\<^sup>* s s' \<and> quiet s'"
proof (induction "rank s" arbitrary: s rule: less_induct)
  case less
  show ?case
  proof (cases "quiet s")
    case False
    then obtain s1 where s1: "work s s1" using progress less.prems by blast
    then obtain s' where "work\<^sup>*\<^sup>* s1 s'" "quiet s'"
      using less.hyps [OF decrease [OF less.prems s1]] step_inv [OF less.prems work_step [OF s1]] by blast
    with s1 show ?thesis by (meson converse_rtranclp_into_rtranclp)
  qed blast
qed

end

section \<open>The invariant\<close>

definition holds_proc :: "loader \<Rightarrow> nat \<Rightarrow> nat \<Rightarrow> bool" where
  "holds_proc s t i \<longleftrightarrow> t < length (ld_threads s) \<and> ld_threads s ! t \<in> {InProc i, InDll i, DllLoaded i}"

definition holds_dll :: "loader \<Rightarrow> nat \<Rightarrow> nat \<Rightarrow> bool" where
  "holds_dll s t j \<longleftrightarrow> t < length (ld_threads s) \<and>
     (\<exists>i < length (ld_procs s). ld_threads s ! t = InDll i \<and> pr_dll (ld_procs s ! i) = j)"

definition thread_ok :: "loader \<Rightarrow> nat \<Rightarrow> bool" where
  "thread_ok s t \<longleftrightarrow> (case ld_threads s ! t of
     Idle \<Rightarrow> True
   | AtProc i \<Rightarrow> i < length (ld_procs s)
   | InProc i \<Rightarrow> i < length (ld_procs s) \<and> pr_once (ld_procs s ! i) = Running t
   | InDll i \<Rightarrow> i < length (ld_procs s) \<and> pr_once (ld_procs s ! i) = Running t \<and>
       dl_once (ld_dlls s ! pr_dll (ld_procs s ! i)) = Running t
   | DllLoaded i \<Rightarrow> i < length (ld_procs s) \<and> pr_once (ld_procs s ! i) = Running t \<and>
       dl_once (ld_dlls s ! pr_dll (ld_procs s ! i)) = Finished
   | Found i \<Rightarrow> i < length (ld_procs s) \<and> pr_once (ld_procs s ! i) = Finished)"

text \<open>The outcome of a finished proc, given its module.\<close>

definition settled :: "dll \<Rightarrow> lazy_proc \<Rightarrow> bool" where
  "settled d p \<longleftrightarrow> dl_once d = Finished \<and>
     (case dl_err d of
        Some e \<Rightarrow> pr_err p = Some e
      | None \<Rightarrow> (pr_err p = None \<and> pr_addr p \<noteq> 0) \<or> (\<exists>e. pr_err p = Some (ProcError (dl_name d) (pr_name p) (Errno e))))"

definition proc_ok :: "loader \<Rightarrow> nat \<Rightarrow> bool" where
  "proc_ok s i \<longleftrightarrow> (let p = ld_procs s ! i in pr_dll p < length (ld_dlls s) \<and>
     (\<forall>t. pr_once p = Running t \<longrightarrow> holds_proc s t i) \<and> (pr_once p \<noteq> Finished \<longrightarrow> pr_err p = None) \<and>
     (pr_once p = Finished \<longrightarrow> settled (ld_dlls s ! pr_dll p) p))"

definition dll_ok :: "loader \<Rightarrow> nat \<Rightarrow> bool" where
  "dll_ok s j \<longleftrightarrow> (let d = ld_dlls s ! j in
     (\<forall>t. dl_once d = Running t \<longrightarrow> holds_dll s t j) \<and>
     count_list (ld_loads s) j = (if dl_once d = Finished then 1 else 0) \<and>
     (dl_once d = Finished \<longrightarrow>
       (case dl_err d of None \<Rightarrow> dl_handle d \<noteq> 0 | Some e \<Rightarrow> \<exists>c. e = ProcError (dl_name d) [] (Errno c))))"

definition log_ok :: "loader \<Rightarrow> nat \<times> (go_error + 64 word) \<Rightarrow> bool" where
  "log_ok s x \<longleftrightarrow> (case x of (i, r) \<Rightarrow>
     i < length (ld_procs s) \<and> pr_once (ld_procs s ! i) = Finished \<and> r = Addr (ld_procs s ! i))"

definition loader_inv :: "loader \<Rightarrow> bool" where
  "loader_inv s \<longleftrightarrow> (\<forall>t < length (ld_threads s). thread_ok s t) \<and> (\<forall>i < length (ld_procs s). proc_ok s i) \<and>
     (\<forall>j < length (ld_dlls s). dll_ok s j) \<and> (\<forall>x \<in> set (ld_log s). log_ok s x)"

declare thread.case_cong [cong]

lemmas loader_inv_defs = thread_ok_def proc_ok_def dll_ok_def log_ok_def holds_proc_def holds_dll_def

lemma loader_invD:
  assumes "loader_inv s"
  shows "t < length (ld_threads s) \<Longrightarrow> thread_ok s t" "i < length (ld_procs s) \<Longrightarrow> proc_ok s i"
    "j < length (ld_dlls s) \<Longrightarrow> dll_ok s j" "x \<in> set (ld_log s) \<Longrightarrow> log_ok s x"
  using assms by (simp_all add: loader_inv_def)

text \<open>The state after a step that moves one thread and changes one proc, one module, or neither.\<close>

lemma goto_simps [simp]:
  "ld_dlls (goto t x s) = ld_dlls s" "ld_procs (goto t x s) = ld_procs s"
  "ld_threads (goto t x s) = (ld_threads s)[t := x]" "ld_loads (goto t x s) = ld_loads s" "ld_log (goto t x s) = ld_log s"
  by (simp_all add: goto_def)

lemma set_simps [simp]:
  "ld_dlls (set_dll j d s) = (ld_dlls s)[j := d]" "ld_procs (set_dll j d s) = ld_procs s"
  "ld_threads (set_dll j d s) = ld_threads s" "ld_loads (set_dll j d s) = ld_loads s" "ld_log (set_dll j d s) = ld_log s"
  "ld_dlls (set_proc i p s) = ld_dlls s" "ld_procs (set_proc i p s) = (ld_procs s)[i := p]"
  "ld_threads (set_proc i p s) = ld_threads s" "ld_loads (set_proc i p s) = ld_loads s" "ld_log (set_proc i p s) = ld_log s"
  by (simp_all add: set_dll_def set_proc_def)

lemma loader_invI:
  assumes "\<And>t. t < length (ld_threads s) \<Longrightarrow> thread_ok s t" "\<And>i. i < length (ld_procs s) \<Longrightarrow> proc_ok s i"
    "\<And>j. j < length (ld_dlls s) \<Longrightarrow> dll_ok s j" "\<And>x. x \<in> set (ld_log s) \<Longrightarrow> log_ok s x"
  shows "loader_inv s"
  using assms by (simp add: loader_inv_def)

lemma loader_init_inv: "loader_init s \<Longrightarrow> loader_inv s"
proof -
  assume i: "loader_init s"
  have d: "dl_once (ld_dlls s ! j) = Fresh" if "j < length (ld_dlls s)" for j
    using i that unfolding loader_init_def NewDLL_def by (metis dll.select_convs(2) nth_mem)
  have p: "pr_once (ld_procs s ! k) = Fresh \<and> pr_err (ld_procs s ! k) = None \<and> pr_dll (ld_procs s ! k) < length (ld_dlls s)"
    if "k < length (ld_procs s)" for k
    using i that unfolding loader_init_def NewProc_def by (metis lazy_proc.select_convs(3,5) nth_mem)
  have t: "ld_threads s ! u = Idle" if "u < length (ld_threads s)" for u
    using i that by (simp add: loader_init_def)
  show ?thesis
  proof (rule loader_invI)
    show "thread_ok s u" if "u < length (ld_threads s)" for u using t [OF that] by (simp add: thread_ok_def)
    show "proc_ok s k" if "k < length (ld_procs s)" for k using p [OF that] by (simp add: proc_ok_def)
    show "dll_ok s j" if "j < length (ld_dlls s)" for j using d [OF that] i by (simp add: dll_ok_def loader_init_def)
    show "log_ok s x" if "x \<in> set (ld_log s)" for x using that i by (simp add: loader_init_def)
  qed
qed

lemma inv_call:
  assumes inv: "loader_inv s" and s': "begin_find t i s = Some s'"
  shows "loader_inv s'"
proof -
  have t: "t < length (ld_threads s)" "ld_threads s ! t = Idle" "i < length (ld_procs s)" and s': "s' = goto t (AtProc i) s"
    using s' by (auto simp: begin_find_def split: if_splits)
  note ok = loader_invD [OF inv]
  show ?thesis
  proof (rule loader_invI)
    show "thread_ok s' u" if "u < length (ld_threads s')" for u
      using ok(1) [of u] that t by (cases "u = t") (simp_all add: thread_ok_def s')
    show "proc_ok s' k" if "k < length (ld_procs s')" for k
      using ok(2) [of k] that t by (auto simp: proc_ok_def holds_proc_def s' Let_def nth_list_update)
    show "dll_ok s' j" if "j < length (ld_dlls s')" for j
      using ok(3) [of j] that t by (auto simp: dll_ok_def holds_dll_def s' Let_def nth_list_update)
    show "log_ok s' x" if "x \<in> set (ld_log s')" for x
      using ok(4) [of x] that by (simp add: log_ok_def s')
  qed
qed

lemma inv_at_fresh:
  assumes inv: "loader_inv s" and t: "t < length (ld_threads s)" "ld_threads s ! t = AtProc i"
    and p: "pr_once (ld_procs s ! i) = Fresh"
    and s': "s' = goto t (InProc i) (set_proc i ((ld_procs s ! i)\<lparr>pr_once := Running t\<rparr>) s)"
  shows "loader_inv s'"
proof -
  note ok = loader_invD [OF inv]
  have i: "i < length (ld_procs s)" using ok(1) [OF t(1)] t by (simp add: thread_ok_def)
  show ?thesis
  proof (rule loader_invI)
    show "thread_ok s' u" if "u < length (ld_threads s')" for u
      using ok(1) [of u] that t i p by (cases "u = t"; cases "ld_threads s ! u") (auto simp: thread_ok_def s' nth_list_update)
    show "proc_ok s' k" if "k < length (ld_procs s')" for k
      using ok(2) [of k] that t i p by (cases "k = i") (auto simp: proc_ok_def holds_proc_def s' Let_def nth_list_update)
    show "dll_ok s' j" if "j < length (ld_dlls s')" for j
      using ok(3) [of j] that t i by (auto simp: dll_ok_def holds_dll_def s' Let_def nth_list_update)
    show "log_ok s' x" if "x \<in> set (ld_log s')" for x
      using ok(4) [of x] that p i by (auto simp: log_ok_def s' nth_list_update)
  qed
qed

lemma inv_at_finished:
  assumes inv: "loader_inv s" and t: "t < length (ld_threads s)" "ld_threads s ! t = AtProc i"
    and p: "pr_once (ld_procs s ! i) = Finished" and s': "s' = goto t (Found i) s"
  shows "loader_inv s'"
proof -
  note ok = loader_invD [OF inv]
  show ?thesis
  proof (rule loader_invI)
    show "thread_ok s' u" if "u < length (ld_threads s')" for u
      using ok(1) [of u] that t p by (cases "u = t") (simp_all add: thread_ok_def s')
    show "proc_ok s' k" if "k < length (ld_procs s')" for k
      using ok(2) [of k] that t by (auto simp: proc_ok_def holds_proc_def s' Let_def nth_list_update)
    show "dll_ok s' j" if "j < length (ld_dlls s')" for j
      using ok(3) [of j] that t by (auto simp: dll_ok_def holds_dll_def s' Let_def nth_list_update)
    show "log_ok s' x" if "x \<in> set (ld_log s')" for x
      using ok(4) [of x] that by (simp add: log_ok_def s')
  qed
qed

lemma inv_in_fresh:
  assumes inv: "loader_inv s" and t: "t < length (ld_threads s)" "ld_threads s ! t = InProc i"
    and d: "dl_once (ld_dlls s ! pr_dll (ld_procs s ! i)) = Fresh"
    and s': "s' = goto t (InDll i) (set_dll (pr_dll (ld_procs s ! i)) ((ld_dlls s ! pr_dll (ld_procs s ! i))\<lparr>dl_once := Running t\<rparr>) s)"
  shows "loader_inv s'"
proof -
  note ok = loader_invD [OF inv]
  let ?j = "pr_dll (ld_procs s ! i)"
  have i: "i < length (ld_procs s)" "pr_once (ld_procs s ! i) = Running t"
    using ok(1) [OF t(1)] t by (simp_all add: thread_ok_def)
  have j: "?j < length (ld_dlls s)" using ok(2) [OF i(1)] by (simp add: proc_ok_def Let_def)
  show ?thesis
  proof (rule loader_invI)
    show "thread_ok s' u" if "u < length (ld_threads s')" for u
      using ok(1) [of u] that t i j d by (cases "u = t"; cases "ld_threads s ! u") (auto simp: thread_ok_def s' nth_list_update)
    show "proc_ok s' k" if "k < length (ld_procs s')" for k
      using ok(2) [of k] that t i j d by (auto simp: proc_ok_def settled_def holds_proc_def s' Let_def nth_list_update)
    show "dll_ok s' k" if "k < length (ld_dlls s')" for k
    proof (cases "k = ?j")
      case True
      with ok(3) [of k] that t i j d show ?thesis
        by (auto simp: dll_ok_def holds_dll_def s' Let_def)
    next
      case False
      with ok(3) [of k] that t i j show ?thesis
        by (auto simp: dll_ok_def holds_dll_def s' Let_def nth_list_update)
    qed
    show "log_ok s' x" if "x \<in> set (ld_log s')" for x
      using ok(4) [of x] that by (auto simp: log_ok_def s')
  qed
qed

lemma inv_in_finished:
  assumes inv: "loader_inv s" and t: "t < length (ld_threads s)" "ld_threads s ! t = InProc i"
    and d: "dl_once (ld_dlls s ! pr_dll (ld_procs s ! i)) = Finished" and s': "s' = goto t (DllLoaded i) s"
  shows "loader_inv s'"
proof -
  note ok = loader_invD [OF inv]
  have i: "i < length (ld_procs s)" "pr_once (ld_procs s ! i) = Running t"
    using ok(1) [OF t(1)] t by (simp_all add: thread_ok_def)
  show ?thesis
  proof (rule loader_invI)
    show "thread_ok s' u" if "u < length (ld_threads s')" for u
      using ok(1) [of u] that t i d by (cases "u = t") (simp_all add: thread_ok_def s')
    show "proc_ok s' k" if "k < length (ld_procs s')" for k
      using ok(2) [of k] that t i by (auto simp: proc_ok_def holds_proc_def s' Let_def nth_list_update)
    show "dll_ok s' j" if "j < length (ld_dlls s')" for j
      using ok(3) [of j] that t by (auto simp: dll_ok_def holds_dll_def s' Let_def nth_list_update)
    show "log_ok s' x" if "x \<in> set (ld_log s')" for x
      using ok(4) [of x] that by (simp add: log_ok_def s')
  qed
qed

lemma inv_load:
  assumes inv: "loader_inv s" and t: "t < length (ld_threads s)" "ld_threads s ! t = InDll i"
    and l: "loadSystemDLL (dl_name (ld_dlls s ! pr_dll (ld_procs s ! i))) answer = (handle, err)"
    and s': "s' = goto t (DllLoaded i) (set_dll (pr_dll (ld_procs s ! i))
      ((ld_dlls s ! pr_dll (ld_procs s ! i))\<lparr>dl_handle := handle, dl_err := err, dl_once := Finished\<rparr>)
      (s\<lparr>ld_loads := ld_loads s @ [pr_dll (ld_procs s ! i)]\<rparr>))"
  shows "loader_inv s'"
proof -
  note ok = loader_invD [OF inv]
  let ?j = "pr_dll (ld_procs s ! i)" and ?d = "ld_dlls s ! pr_dll (ld_procs s ! i)"
  have i: "i < length (ld_procs s)" "pr_once (ld_procs s ! i) = Running t" "dl_once ?d = Running t"
    using ok(1) [OF t(1)] t by (simp_all add: thread_ok_def)
  have j: "?j < length (ld_dlls s)" using ok(2) [OF i(1)] by (simp add: proc_ok_def Let_def)
  have r: "case err of None \<Rightarrow> handle \<noteq> 0 | Some e \<Rightarrow> \<exists>c. e = ProcError (dl_name ?d) [] (Errno c)"
    using l by (auto simp: loadSystemDLL_def split: prod.splits if_splits)
  show ?thesis
  proof (rule loader_invI)
    show "thread_ok s' u" if "u < length (ld_threads s')" for u
      using ok(1) [of u] that t i j by (cases "u = t"; cases "ld_threads s ! u") (auto simp: thread_ok_def s' nth_list_update)
    show "proc_ok s' k" if "k < length (ld_procs s')" for k
      using ok(2) [of k] that t i j by (auto simp: proc_ok_def settled_def holds_proc_def s' Let_def nth_list_update)
    show "dll_ok s' k" if "k < length (ld_dlls s')" for k
    proof (cases "k = ?j")
      case True
      with ok(3) [of k] that t i j r show ?thesis by (cases err) (simp_all add: dll_ok_def s' Let_def)
    next
      case False
      with ok(3) [of k] that t i j show ?thesis
        by (auto simp: dll_ok_def holds_dll_def s' Let_def nth_list_update)
    qed
    show "log_ok s' x" if "x \<in> set (ld_log s')" for x
      using ok(4) [of x] that by (auto simp: log_ok_def s')
  qed
qed

lemma inv_resolve:
  assumes inv: "loader_inv s" and t: "t < length (ld_threads s)" "ld_threads s ! t = DllLoaded i"
    and s': "s' = goto t (Found i) (set_proc i
      ((resolve_proc (ld_dlls s ! pr_dll (ld_procs s ! i)) answer (ld_procs s ! i))\<lparr>pr_once := Finished\<rparr>) s)"
  shows "loader_inv s'"
proof -
  note ok = loader_invD [OF inv]
  let ?p = "ld_procs s ! i" and ?d = "ld_dlls s ! pr_dll (ld_procs s ! i)"
  let ?p' = "(resolve_proc ?d answer ?p)\<lparr>pr_once := Finished\<rparr>"
  have i: "i < length (ld_procs s)" "pr_once ?p = Running t" "dl_once ?d = Finished"
    using ok(1) [OF t(1)] t by (simp_all add: thread_ok_def)
  have p: "pr_err ?p = None" "pr_dll ?p < length (ld_dlls s)" using ok(2) [OF i(1)] i(2) by (simp_all add: proc_ok_def Let_def)
  have same: "pr_dll ?p' = pr_dll ?p" "pr_name ?p' = pr_name ?p" "pr_once ?p' = Finished"
    by (auto simp: resolve_proc_def split: option.split prod.split)
  have r: "settled ?d ?p'"
    using i(3) p(1) by (auto simp: settled_def resolve_proc_def split: option.split prod.split)
  show ?thesis
  proof (rule loader_invI)
    show "thread_ok s' u" if "u < length (ld_threads s')" for u
      using ok(1) [of u] that t i same by (cases "u = t"; cases "ld_threads s ! u") (auto simp: thread_ok_def s' nth_list_update)
    show "proc_ok s' k" if "k < length (ld_procs s')" for k
    proof (cases "k = i")
      case True
      with i p same r show ?thesis by (simp add: proc_ok_def s' Let_def)
    next
      case False
      with ok(2) [of k] that t i show ?thesis by (auto simp: proc_ok_def holds_proc_def s' Let_def nth_list_update)
    qed
    show "dll_ok s' j" if "j < length (ld_dlls s')" for j
      using ok(3) [of j] that t i same by (auto simp: dll_ok_def holds_dll_def s' Let_def nth_list_update)
    show "log_ok s' x" if "x \<in> set (ld_log s')" for x
      using ok(4) [of x] that i by (auto simp: log_ok_def s' nth_list_update)
  qed
qed

lemma inv_return:
  assumes inv: "loader_inv s" and t: "t < length (ld_threads s)" "ld_threads s ! t = Found i"
    and s': "s' = goto t Idle (s\<lparr>ld_log := ld_log s @ [(i, Addr (ld_procs s ! i))]\<rparr>)"
  shows "loader_inv s'"
proof -
  note ok = loader_invD [OF inv]
  have i: "i < length (ld_procs s)" "pr_once (ld_procs s ! i) = Finished"
    using ok(1) [OF t(1)] t by (simp_all add: thread_ok_def)
  show ?thesis
  proof (rule loader_invI)
    show "thread_ok s' u" if "u < length (ld_threads s')" for u
      using ok(1) [of u] that t by (cases "u = t") (simp_all add: thread_ok_def s')
    show "proc_ok s' k" if "k < length (ld_procs s')" for k
      using ok(2) [of k] that t by (auto simp: proc_ok_def holds_proc_def s' Let_def nth_list_update)
    show "dll_ok s' j" if "j < length (ld_dlls s')" for j
      using ok(3) [of j] that t by (auto simp: dll_ok_def holds_dll_def s' Let_def nth_list_update)
    show "log_ok s' x" if "x \<in> set (ld_log s')" for x
      using ok(4) [of x] that i by (auto simp: log_ok_def s')
  qed
qed

lemma inv_advance:
  assumes inv: "loader_inv s" and a: "advance t answer s = Some s'"
  shows "loader_inv s'"
proof -
  have t: "t < length (ld_threads s)" using a by (auto simp: advance_def split: if_splits)
  note adv = a [unfolded advance_def if_not_P [OF not_le [THEN iffD2, OF t]]]
  show ?thesis
  proof (cases "ld_threads s ! t")
    case Idle
    with adv show ?thesis by simp
  next
    case (AtProc i)
    then show ?thesis
      using adv inv_at_fresh [OF inv t AtProc _ refl] inv_at_finished [OF inv t AtProc _ refl]
      by (cases "pr_once (ld_procs s ! i)") (auto simp: Let_def)
  next
    case (InProc i)
    then show ?thesis
      using adv inv_in_fresh [OF inv t InProc _ refl] inv_in_finished [OF inv t InProc _ refl]
      by (cases "dl_once (ld_dlls s ! pr_dll (ld_procs s ! i))") (auto simp: Let_def)
  next
    case (InDll i)
    obtain handle err where l: "loadSystemDLL (dl_name (ld_dlls s ! pr_dll (ld_procs s ! i))) answer = (handle, err)"
      by fastforce
    from inv_load [OF inv t InDll l refl] adv show ?thesis by (simp add: InDll l load_dll_def Let_def)
  next
    case (DllLoaded i)
    from inv_resolve [OF inv t DllLoaded refl, of answer] adv show ?thesis by (simp add: DllLoaded Let_def)
  next
    case (Found i)
    from inv_return [OF inv t Found refl] adv show ?thesis by (simp add: Found)
  qed
qed

section \<open>Progress\<close>

definition thread_rank :: "thread \<Rightarrow> nat" where
  "thread_rank x = (case x of Idle \<Rightarrow> 0 | Found _ \<Rightarrow> 1 | DllLoaded _ \<Rightarrow> 2 | InDll _ \<Rightarrow> 3 | InProc _ \<Rightarrow> 4 | AtProc _ \<Rightarrow> 5)"

definition loader_rank :: "loader \<Rightarrow> nat" where
  "loader_rank s = sum_list (map thread_rank (ld_threads s))"

definition quiet :: "loader \<Rightarrow> bool" where
  "quiet s \<longleftrightarrow> (\<forall>x \<in> set (ld_threads s). x = Idle)"

lemma loader_rank_bound: "loader_rank s \<le> 5 * length (ld_threads s)"
proof -
  have "sum_list (map thread_rank xs) \<le> 5 * length xs" for xs
    by (induction xs) (auto simp: thread_rank_def split: thread.split)
  then show ?thesis by (simp add: loader_rank_def)
qed

lemma rank_update:
  "t < length xs \<Longrightarrow> thread_rank x < thread_rank (xs ! t) \<Longrightarrow>
     sum_list (map thread_rank (xs[t := x])) < sum_list (map thread_rank xs)"
  by (induction xs arbitrary: t) (auto simp: nth_Cons split: nat.splits)

lemma advance_threads:
  assumes "advance t answer s = Some s'"
  shows "t < length (ld_threads s) \<and> (\<exists>x. ld_threads s' = (ld_threads s)[t := x] \<and> thread_rank x < thread_rank (ld_threads s ! t))"
proof -
  have t: "t < length (ld_threads s)" using assms by (auto simp: advance_def split: if_splits)
  note adv = assms [unfolded advance_def if_not_P [OF not_le [THEN iffD2, OF t]]]
  show ?thesis
    using adv t
    by (cases "ld_threads s ! t") (auto simp: Let_def thread_rank_def split: once.splits prod.splits)
qed

lemma work_decreases: "loader_work s s' \<Longrightarrow> loader_rank s' < loader_rank s"
  by (erule loader_work.cases) (auto simp: loader_rank_def dest!: advance_threads intro: rank_update)

lemma workI: "advance t (0, 0) s \<noteq> None \<Longrightarrow> \<exists>s'. loader_work s s'"
  using loader_work.intros by blast

lemma advance_free:
  "t < length (ld_threads s) \<Longrightarrow> ld_threads s ! t \<in> {InDll i, DllLoaded i, Found i} \<Longrightarrow> \<exists>s'. loader_work s s'"
  by (rule workI [of t]) (auto simp: advance_def Let_def split: prod.split)

lemma advance_once:
  "t < length (ld_threads s) \<Longrightarrow> ld_threads s ! t = AtProc i \<Longrightarrow> (\<And>u. pr_once (ld_procs s ! i) \<noteq> Running u) \<Longrightarrow>
     \<exists>s'. loader_work s s'"
  "t < length (ld_threads s) \<Longrightarrow> ld_threads s ! t = InProc i \<Longrightarrow>
     (\<And>u. dl_once (ld_dlls s ! pr_dll (ld_procs s ! i)) \<noteq> Running u) \<Longrightarrow> \<exists>s'. loader_work s s'"
  by (rule workI [of t]; auto simp: advance_def Let_def split: once.split)+

text \<open>The thread that holds what another one waits for can take a step.\<close>

lemma holder_moves:
  assumes inv: "loader_inv s" and h: "holds_proc s t i"
  shows "\<exists>s'. loader_work s s'"
proof (cases "ld_threads s ! t = InProc i")
  case False
  with h show ?thesis using advance_free [of t s i] by (auto simp: holds_proc_def)
next
  case True
  let ?d = "ld_dlls s ! pr_dll (ld_procs s ! i)"
  have t: "t < length (ld_threads s)" using h by (simp add: holds_proc_def)
  show ?thesis
  proof (cases "dl_once ?d")
    case (Running u)
    have i: "i < length (ld_procs s)" using loader_invD(1) [OF inv t] True by (simp add: thread_ok_def)
    then have "pr_dll (ld_procs s ! i) < length (ld_dlls s)"
      using loader_invD(2) [OF inv] by (simp add: proc_ok_def Let_def)
    from loader_invD(3) [OF inv this] Running have "holds_dll s u (pr_dll (ld_procs s ! i))"
      by (simp add: dll_ok_def Let_def)
    then obtain k where "u < length (ld_threads s)" "ld_threads s ! u = InDll k" by (auto simp: holds_dll_def)
    with advance_free [of u s k] show ?thesis by simp
  qed (use advance_once(2) [OF t True] in simp_all)
qed

lemma loader_progress:
  assumes inv: "loader_inv s" and "\<not> quiet s"
  shows "\<exists>s'. loader_work s s'"
proof -
  obtain t where t: "t < length (ld_threads s)" "ld_threads s ! t \<noteq> Idle"
    using assms(2) by (auto simp: quiet_def in_set_conv_nth)
  show ?thesis
  proof (cases "ld_threads s ! t")
    case (AtProc i)
    show ?thesis
    proof (cases "pr_once (ld_procs s ! i)")
      case (Running u)
      have i: "i < length (ld_procs s)" using loader_invD(1) [OF inv t(1)] AtProc by (simp add: thread_ok_def)
      from loader_invD(2) [OF inv i] Running have "holds_proc s u i" by (simp add: proc_ok_def Let_def)
      then show ?thesis by (rule holder_moves [OF inv])
    qed (use advance_once(1) [OF t(1) AtProc] in simp_all)
  next
    case (Found i)
    with advance_free [of t s i] t show ?thesis by simp
  qed (use t in \<open>auto simp: holds_proc_def intro!: holder_moves [OF inv, of t]\<close>)
qed

lemma inv_work: "loader_inv s \<Longrightarrow> loader_work s s' \<Longrightarrow> loader_inv s'"
  by (auto elim!: loader_work.cases intro: inv_advance)

lemma inv_step: "loader_inv s \<Longrightarrow> loader_step s s' \<Longrightarrow> loader_inv s'"
  by (erule loader_step.cases) (auto intro: inv_call inv_work)

interpretation lazy_loader: draining loader_init loader_inv loader_step loader_work quiet loader_rank
  by unfold_locales (auto intro: loader_init_inv inv_step loader_step.work loader_progress work_decreases)

text \<open>A run with given calls (left) and answers of the system (right).\<close>

fun run_loader :: "(nat \<times> (nat + 64 word \<times> 64 word)) list \<Rightarrow> loader \<Rightarrow> loader option" where
  "run_loader [] s = Some s"
| "run_loader ((t, Inl i) # xs) s = Option.bind (begin_find t i s) (run_loader xs)"
| "run_loader ((t, Inr answer) # xs) s = Option.bind (advance t answer s) (run_loader xs)"

lemma run_loader_steps: "run_loader xs s = Some s' \<Longrightarrow> loader_step\<^sup>*\<^sup>* s s'"
proof (induction xs s rule: run_loader.induct)
  case (2 t i xs s)
  then obtain s1 where "begin_find t i s = Some s1" "run_loader xs s1 = Some s'" by (auto simp: bind_eq_Some_conv)
  then show ?case using 2 by (auto intro: converse_rtranclp_into_rtranclp loader_step.call)
next
  case (3 t answer xs s)
  then obtain s1 where "advance t answer s = Some s1" "run_loader xs s1 = Some s'" by (auto simp: bind_eq_Some_conv)
  then show ?case using 3 by (auto intro: converse_rtranclp_into_rtranclp loader_step.work loader_work.advance)
qed simp

definition sample_loader :: loader where
  "sample_loader = \<lparr>ld_dlls = [NewDLL ''KERNEL32.dll''], ld_procs = [NewProc 0 ''Sleep'', NewProc 0 ''Beep''],
     ld_threads = [Idle, Idle], ld_loads = [], ld_log = []\<rparr>"

definition sample_schedule :: "(nat \<times> (nat + 64 word \<times> 64 word)) list" where
  "sample_schedule = [(0, Inl 0), (1, Inl 1), (0, Inr (0, 0)), (1, Inr (0, 0)), (0, Inr (0, 0)), (0, Inr (4096, 0)),
     (1, Inr (0, 0)), (1, Inr (0, 127)), (0, Inr (8192, 0)), (1, Inr (0, 0)), (0, Inr (0, 0))]"

lemma sample_loader_init: "loader_init sample_loader"
  by (simp add: loader_init_def sample_loader_def NewDLL_def NewProc_def)

lemma sample_run:
  "map_option (\<lambda>s. (length (ld_log s), length (ld_dlls s))) (run_loader sample_schedule sample_loader) = Some (2, 1)"
  by code_simp

text \<open>
  \<^bold>\<open>C24\<close>: under every interleaving of calls, a module is loaded at most once; all finished calls on one proc
  returned the same address or the same error; an address is not null and comes from a loaded module;
  and an error names the module, with the export unless the module itself is missing.
\<close>

theorem loader_agreement:
  assumes "loader_init s0" "loader_step\<^sup>*\<^sup>* s0 s"
  shows "(\<forall>j < length (ld_dlls s). count_list (ld_loads s) j \<le> 1) \<and>
    (\<forall>(i, r) \<in> set (ld_log s). \<forall>(k, r') \<in> set (ld_log s). i = k \<longrightarrow> r = r') \<and>
    (\<forall>(i, r) \<in> set (ld_log s). let p = ld_procs s ! i; d = ld_dlls s ! pr_dll p in
       case r of
         Inr a \<Rightarrow> a \<noteq> 0 \<and> dl_handle d \<noteq> 0 \<and> count_list (ld_loads s) (pr_dll p) = 1
       | Inl e \<Rightarrow> \<exists>c. e = ProcError (dl_name d) [] (Errno c) \<or> e = ProcError (dl_name d) (pr_name p) (Errno c))"
proof -
  have inv: "loader_inv s" using assms by (rule lazy_loader.reachable_inv)
  note ok = loader_invD [OF inv]
  have one: "\<forall>j < length (ld_dlls s). count_list (ld_loads s) j \<le> 1" using ok(3) by (auto simp: dll_ok_def Let_def)
  have same: "\<forall>(i, r) \<in> set (ld_log s). \<forall>(k, r') \<in> set (ld_log s). i = k \<longrightarrow> r = r'"
  proof -
    have "r = Addr (ld_procs s ! i)" if "(i, r) \<in> set (ld_log s)" for i r using ok(4) [OF that] by (simp add: log_ok_def)
    then show ?thesis by auto
  qed
  have outcome: "let p = ld_procs s ! i; d = ld_dlls s ! pr_dll p in
      case r of Inr a \<Rightarrow> a \<noteq> 0 \<and> dl_handle d \<noteq> 0 \<and> count_list (ld_loads s) (pr_dll p) = 1
       | Inl e \<Rightarrow> \<exists>c. e = ProcError (dl_name d) [] (Errno c) \<or> e = ProcError (dl_name d) (pr_name p) (Errno c)"
    if "(i, r) \<in> set (ld_log s)" for i r
  proof -
    let ?p = "ld_procs s ! i" and ?d = "ld_dlls s ! pr_dll (ld_procs s ! i)"
    have l: "i < length (ld_procs s)" "pr_once ?p = Finished" "r = Addr ?p" using ok(4) [OF that] by (simp_all add: log_ok_def)
    have p: "pr_dll ?p < length (ld_dlls s)" "settled ?d ?p" using ok(2) [OF l(1)] l(2) by (simp_all add: proc_ok_def Let_def)
    have d: "dl_once ?d = Finished" "count_list (ld_loads s) (pr_dll ?p) = 1"
      "case dl_err ?d of None \<Rightarrow> dl_handle ?d \<noteq> 0 | Some e \<Rightarrow> \<exists>c. e = ProcError (dl_name ?d) [] (Errno c)"
      using ok(3) [OF p(1)] p(2) by (simp_all add: dll_ok_def settled_def Let_def)
    show ?thesis
      using p(2) d by (cases "dl_err ?d") (auto simp: l(3) settled_def Addr_def Let_def)
  qed
  show ?thesis using one same outcome by blast
qed

lemma loader_agreement_witness:
  "\<exists>s. run_loader sample_schedule sample_loader = Some s \<and> length (ld_log s) = 2 \<and> count_list (ld_loads s) 0 \<le> 1"
proof -
  obtain s where s: "run_loader sample_schedule sample_loader = Some s" "length (ld_log s) = 2" "length (ld_dlls s) = 1"
    using sample_run by auto
  from loader_agreement [OF sample_loader_init run_loader_steps [OF s(1)]]
  have "\<forall>j < length (ld_dlls s). count_list (ld_loads s) j \<le> 1" by (rule conjunct1)
  with s(3) have "count_list (ld_loads s) 0 \<le> 1" by simp
  with s show ?thesis by blast
qed

text \<open>
  \<^bold>\<open>C25\<close>: no call on a proc waits forever. In every reachable state some call under way can take a step,
  unless all threads are idle, and without new calls at most five steps per thread are possible; so the
  calls can be run to their end, and every schedule that does not stop early ends there.
\<close>

theorem loader_returns:
  assumes "loader_init s0" "loader_step\<^sup>*\<^sup>* s0 s"
  shows "(quiet s \<or> (\<exists>s'. loader_work s s')) \<and> (\<forall>n s'. (loader_work ^^ n) s s' \<longrightarrow> n \<le> 5 * length (ld_threads s)) \<and>
    (\<exists>s'. loader_work\<^sup>*\<^sup>* s s' \<and> quiet s')"
proof -
  have inv: "loader_inv s" using assms by (rule lazy_loader.reachable_inv)
  have "n \<le> 5 * length (ld_threads s)" if "(loader_work ^^ n) s s'" for n s'
    using lazy_loader.bounded_work [OF that inv] loader_rank_bound [of s] by linarith
  with lazy_loader.progress [OF inv] lazy_loader.drains [OF inv] show ?thesis by blast
qed

lemma loader_returns_witness:
  "\<exists>s. run_loader sample_schedule sample_loader = Some s \<and> (\<exists>s'. loader_work\<^sup>*\<^sup>* s s' \<and> quiet s')"
proof -
  obtain s where s: "run_loader sample_schedule sample_loader = Some s" using sample_run by auto
  from loader_returns [OF sample_loader_init run_loader_steps [OF s]] s show ?thesis by blast
qed

end
