(* ===== verification/Interfaces.thy ===== *)
theory Interfaces
  imports Functions
begin

text \<open>
  COM interfaces and handle closers: \<open>interfaces.go\<close>, \<open>handles.go\<close> and \<open>coverage.go\<close> of
  \<open>internal/codegen/emit/raw\<close>. An interface becomes a structure with one method per vtable entry that can
  be marshaled; a handle typedef with a usable free function gets a \<open>Close\<close> helper.

  As in \<open>Functions\<close>, the outer \<open>None\<close> is a resolution that does not return.
\<close>

section \<open>COM methods\<close>

definition method_key :: "namespace_meta \<Rightarrow> string \<Rightarrow> com_method \<Rightarrow> string" where
  "method_key meta iface m = ns_Namespace meta @ ''.'' @ iface @ ''.'' @ cm_Name m"

definition method_skipped :: "string \<Rightarrow> com_method \<Rightarrow> string \<Rightarrow> string" where
  "method_skipped iface m what = ''interface '' @ iface @ '': method '' @ cm_Name m @ what @ '', method skipped''"

definition com_param_skipped :: "string \<Rightarrow> com_method \<Rightarrow> param \<Rightarrow> resolved \<Rightarrow> string" where
  "com_param_skipped iface m p r =
     method_skipped iface m ('' param '' @ p_Name p @ '' not marshalable ('' @ res_GoType r @ '')'')"

text \<open>
  The result shape: the model, the argument descriptors (a hidden result pointer comes first), the
  descriptor of the result and whether \<open>win32.Call\<close> is needed.
\<close>

definition com_return :: "namespace_meta \<Rightarrow> string \<Rightarrow> com_method \<Rightarrow> resolved \<Rightarrow> shaping \<Rightarrow> com_method_model \<Rightarrow>
    generator \<Rightarrow> (com_method_model \<times> string list \<times> string \<times> bool) option \<times> generator" where
  "com_return meta iface m r s model g =
     (let t = res_GoType r; key = method_key meta iface m; win32 = set_import ''win32'' (RuntimeImportPath (g_mapper g));
          shaped = (\<lambda>x. Some (x, sg_specArgs s, [], sg_viaCall s)) in
      if isHRESULT r \<and> sg_returnValues s \<noteq> [] then
        (shaped (model\<lparr>cmm_ReturnKind := RetRetValHResult, cmm_ReturnValues := sg_returnValues s,
           cmm_ReturnSig := ''('' @ join_with '', '' (sg_returnTypes s @ [''error'']) @ '')''\<rparr>),
         if key \<in> set informationalComMethods
         then diag (''interface '' @ iface @ '': method '' @ cm_Name m @
                    '' informational-success annotation not applied ([out,retval] elevation)'') (mark_informational key g)
         else g)
      else if isHRESULT r then
        (let (informational, g) = isInformationalComMethod (ns_Namespace meta) iface (cm_Name m) g in
         if informational
         then (shaped (model\<lparr>cmm_ReturnKind := RetHResultValueErr, cmm_ReturnSig := ''(win32.HRESULT, error)''\<rparr>),
               set_import ''win32'' (RuntimeImportPath (g_mapper g)) g)
         else (shaped (model\<lparr>cmm_ReturnKind := RetHResultErr, cmm_ReturnSig := ''error''\<rparr>), g))
      else if res_Kind r = KindVoid then (shaped (model\<lparr>cmm_ReturnKind := RetVoid\<rparr>), g)
      else if by_value_composite (res_Kind r) then
        (Some (model\<lparr>cmm_Preamble := (''_ret := new('' @ t @ '')'') # cmm_Preamble model,
            cmm_ArgExprs := ''uintptr(win32.OutParam(unsafe.Pointer(_ret)))'' # cmm_ArgExprs model,
            cmm_ReturnKind := RetStructOut, cmm_ReturnSig := t, cmm_RetExpr := ''*_ret''\<rparr>,
          specWord # sg_specArgs s, [], sg_viaCall s), win32 g)
      else if res_Kind r = KindArray then
        (None, diag (method_skipped iface m ('' by-value '' @ t @ '' return not marshalable'')) g)
      else if isFloat r then
        (Some (model\<lparr>cmm_ReturnKind := RetFloat, cmm_ReturnSig := t, cmm_RetExpr := fst (float_result t)\<rparr>,
          sg_specArgs s, snd (float_result t), True), g)
      else (shaped (model\<lparr>cmm_ReturnKind := RetVal, cmm_ReturnSig := t, cmm_RetExpr := returnConversion r\<rparr>), g))"

definition slot_target :: "nat \<Rightarrow> string" where
  "slot_target slot = ''self.LpVtbl['' @ show_nat slot @ '']''"

definition self_word :: string where
  "self_word = ''uintptr(unsafe.Pointer(self))''"

text \<open>The dispatch expression, the imports and the comment of a method whose shape is known.\<close>

definition finish_com_method :: "string \<Rightarrow> com_method \<Rightarrow> nat \<Rightarrow> string gomap \<Rightarrow>
    com_method_model \<times> string list \<times> string \<times> bool \<Rightarrow> generator \<Rightarrow> com_method_model option \<times> generator" where
  "finish_com_method iface m slot imports shaped g = (case shaped of (model, specArgs, retSpec, viaCall) \<Rightarrow>
     let words = cmm_ArgExprs model in
     if viaCall \<and> maxCallWords < length words + 1 then
       (None, with_imports imports (diag (method_skipped iface m ('': '' @ show_nat (length words + 1) @
          '' argument words exceed the register-aware call limit'')) g))
     else
       (let specVar = ''spec'' @ Export iface @ ''_'' @ cmm_GoName model; target = slot_target slot;
            g = (if viaCall then set_import ''win32'' (RuntimeImportPath (g_mapper g)) g else g)
        in (Some (model\<lparr>
              cmm_SpecDecl := (if viaCall then specDecl specVar (specWord # specArgs) retSpec else cmm_SpecDecl model),
              cmm_CallExpr := (if viaCall then callExpr target specVar ''nil'' (self_word # words) (cmm_ReturnKind model)
                               else syscall_expr (target # self_word # words)),
              cmm_CommentLines := (cmm_GoName model @ '' dispatches through '' @ iface @ [CHR 0x27] @ ''s vtable slot '' @ show_nat slot @ ''.'') #
                (if cmm_ReturnKind model = RetHResultValueErr then [informational_note] else [])\<rparr>),
            with_imports (commit_imports (imports_of g) imports) g)))"

definition buildComMethod :: "namespace_meta \<Rightarrow> string \<Rightarrow> com_method \<Rightarrow> nat \<Rightarrow> generator \<Rightarrow>
    (com_method_model option \<times> generator) option" where
  "buildComMethod meta iface m slot g = do {
     let imports = imports_of g;
     ((resolved, ret), g) \<leftarrow> resolve_signature (ns_Namespace meta) (cm_Params m) (cm_Return m) (with_imports [] g);
     (shaped, g) \<leftarrow> shape_signature (isHRESULT ret) (com_param_skipped iface m) (cm_Params m) resolved ret g;
     Some (case shaped of
         None \<Rightarrow> (None, with_imports imports g)
       | Some s \<Rightarrow>
           (let model = empty_com_method_model\<lparr>cmm_GoName := Export (cm_Name m),
                  cmm_ParamStr := join_with '', '' (sg_decls s), cmm_Slot := slot,
                  cmm_Preamble := sg_preamble s, cmm_ArgExprs := sg_argWords s\<rparr>
            in (case com_return meta iface m ret s model g of
                (None, g) \<Rightarrow> (None, with_imports imports g)
              | (Some x, g) \<Rightarrow> finish_com_method iface m slot imports x g)))
   }"

section \<open>Interfaces\<close>

definition runtimeRootInterface :: string where
  "runtimeRootInterface = ''System.Com.IUnknown''"

text \<open>One round of the loop that keeps method names apart, and the loop.\<close>

definition suffix_method :: "string \<Rightarrow> com_method_model \<Rightarrow> com_method_model" where
  "suffix_method goName m =
     (let old = cmm_GoName m; new = old @ ''_''; m = m\<lparr>cmm_GoName := new\<rparr> in
      if cmm_SpecDecl m = [] then m
      else m\<lparr>cmm_SpecDecl := replace_first '' = &win32.Spec'' ''_ = &win32.Spec'' (cmm_SpecDecl m),
             cmm_CallExpr := replace_first ('', spec'' @ goName @ ''_'' @ trim_suffix new ''_'' @ '','')
               ('', spec'' @ goName @ ''_'' @ new @ '','') (cmm_CallExpr m)\<rparr>)"

function rename_method :: "string \<Rightarrow> string list \<Rightarrow> com_method_model \<Rightarrow> com_method_model" where
  "rename_method goName used m =
     (if cmm_GoName m \<in> set used then rename_method goName used (suffix_method goName m) else m)"
  by pat_completeness auto
termination
proof (relation "measure (\<lambda>(goName, used, m). card {x \<in> set used. length (cmm_GoName m) \<le> length x})")
  fix goName used and m :: com_method_model
  assume a: "cmm_GoName m \<in> set used"
  have n: "cmm_GoName (suffix_method goName m) = cmm_GoName m @ ''_''" by (simp add: suffix_method_def Let_def)
  have "cmm_GoName m \<in> {x \<in> set used. length (cmm_GoName m) \<le> length x} - {x \<in> set used. length (cmm_GoName m @ ''_'') \<le> length x}"
    using a by simp
  then have "{x \<in> set used. length (cmm_GoName m @ ''_'') \<le> length x} \<subset> {x \<in> set used. length (cmm_GoName m) \<le> length x}"
    by fastforce
  then show "((goName, used, suffix_method goName m), goName, used, m)
      \<in> measure (\<lambda>(goName, used, m). card {x \<in> set used. length (cmm_GoName m) \<le> length x})"
    by (simp add: n psubset_card_mono)
qed simp

declare rename_method.simps [simp del]

text \<open>The methods in vtable order; a skipped method keeps its slot.\<close>

fun com_methods :: "namespace_meta \<Rightarrow> string \<Rightarrow> com_method list \<Rightarrow> nat \<Rightarrow> string list \<Rightarrow> generator \<Rightarrow>
    (com_method_model list \<times> generator) option" where
  "com_methods meta name [] slot used g = Some ([], g)"
| "com_methods meta name (m # ms) slot used g = do {
     (model, g) \<leftarrow> buildComMethod meta name m slot g;
     (case model of
        None \<Rightarrow> com_methods meta name ms (slot + 1) used g
      | Some x \<Rightarrow> do {
          let x = rename_method (Export name) used x;
          (xs, g) \<leftarrow> com_methods meta name ms (slot + 1) (cmm_GoName x # used) g;
          Some (x # xs, g)
        })
   }"

text \<open>The IID variable.\<close>

definition interface_iid :: "string \<Rightarrow> string \<Rightarrow> com_interface \<Rightarrow> interface_model \<Rightarrow> generator \<Rightarrow> interface_model \<times> generator" where
  "interface_iid name goName c model g =
     (if ci_GUID c = [] then (model, g)
      else (case guidLiteral (ci_GUID c) of
          Inl e \<Rightarrow> (model, diag (''interface '' @ name @ '': '' @ e) g)
        | Inr literal \<Rightarrow>
            (let (ok, g) = claimName (''IID_'' @ goName) g in
             if ok then (model\<lparr>ifm_IIDVar := ''IID_'' @ goName, ifm_IIDLiteral := literal\<rparr>,
                         set_import ''win32'' (RuntimeImportPath (g_mapper g)) g)
             else (model, diag (''interface '' @ name @ '': IID name IID_'' @ goName @ '' already used'') g))))"

text \<open>The base: embedded, or named in a note when its import was severed or it is unknown.\<close>

definition interface_base :: "namespace_meta \<Rightarrow> string \<Rightarrow> com_interface \<Rightarrow> interface_model \<Rightarrow> generator \<Rightarrow>
    (interface_model \<times> generator) option" where
  "interface_base meta name c model g =
     (let api = ci_BaseInterfaceApi c; base = ci_BaseInterface c; ns = ns_Namespace meta in
      if base = [] then Some (model, g)
      else if (api \<noteq> ns \<and> (ns, api) \<in> set (mp_Blocked (g_mapper g))) \<or> Interface (g_registry g) api base = None then
        Some (model\<lparr>ifm_BaseNote := ''Base interface '' @ api @ ''.'' @ base @
                 '' not embeddable here (import cycle); inherited methods are not promoted.''\<rparr>,
              diag (''interface '' @ name @ '': base '' @ api @ ''.'' @ base @ '' not embedded'') g)
      else do {
        (r, g) \<leftarrow> resolve_type (TypeRef ''ApiRef'' base api ''Com'' None 0 False) \<lparr>cx_Namespace = ns, cx_IsReturn = False\<rparr> g;
        Some (model\<lparr>ifm_BaseType := trim_prefix (res_GoType r) ''*''\<rparr>, g)
      })"

definition buildInterface :: "namespace_meta \<Rightarrow> string \<Rightarrow> string \<Rightarrow> com_interface \<Rightarrow> generator \<Rightarrow>
    (interface_model option \<times> generator) option" where
  "buildInterface meta name goName c g =
     (case VtableStartSlot (g_registry g) (ns_Namespace meta) name of
        (_, False) \<Rightarrow> Some (None, diag (''interface '' @ name @ '': unresolvable base chain, skipped'') g)
      | (startSlot, True) \<Rightarrow>
          (let model = empty_interface_model\<lparr>ifm_TypeName := goName, ifm_DocURL := av_DocURL (ci_Availability c),
                 ifm_GUID := ci_GUID c\<rparr>;
               (model, g) = interface_iid name goName c model g in
           if ns_Namespace meta @ ''.'' @ name = runtimeRootInterface then
             Some (Some (model\<lparr>ifm_AliasOf := ''win32.IUnknown''\<rparr>), set_import ''win32'' (RuntimeImportPath (g_mapper g)) g)
           else do {
             (model, g) \<leftarrow> interface_base meta name c model g;
             (methods, g) \<leftarrow> com_methods meta name (ci_Methods c) startSlot [] g;
             Some (Some (model\<lparr>ifm_Methods := methods\<rparr>), g)
           }))"

fun interface_models :: "namespace_meta \<Rightarrow> (string \<times> com_interface) list \<Rightarrow> generator \<Rightarrow>
    (interface_model list \<times> generator) option" where
  "interface_models meta [] g = Some ([], g)"
| "interface_models meta ((name, c) # cs) g =
     (let goName = Export name; (ok, g) = claimTypeName goName g in
      if \<not> ok then interface_models meta cs (diag (already_used ''interface'' name meta) g)
      else do {
        (model, g) \<leftarrow> buildInterface meta name goName c g;
        (models, g) \<leftarrow> interface_models meta cs g;
        Some (case model of None \<Rightarrow> models | Some m \<Rightarrow> m # models, g)
      })"

definition buildInterfaceModels :: "namespace_meta \<Rightarrow> generator \<Rightarrow> (interface_model list \<times> generator) option" where
  "buildInterfaceModels meta g = interface_models meta (sort_key fst (ns_Interfaces meta)) g"

section \<open>Handle closers\<close>

definition no_closer :: "string \<Rightarrow> string \<Rightarrow> string \<Rightarrow> string" where
  "no_closer handle free what = ''handle '' @ handle @ '': free func '' @ free @ what @ '', no closer''"

text \<open>The statement that calls the free function and turns its result into an error, if there is one.\<close>

definition closer_return :: "function_decl \<Rightarrow> resolved \<Rightarrow> string \<Rightarrow> generator \<Rightarrow> string option \<times> generator" where
  "closer_return f r call g =
     (if isHRESULT r \<or> (fn_SetLastError f \<and> isBOOL r) then (Some (''return '' @ call), g)
      else if isBOOL r then (Some (''return win32.BoolErr(win32.Bool32('' @ call @ ''))''),
                             set_import ''win32'' (RuntimeImportPath (g_mapper g)) g)
      else if res_Kind r = KindVoid then (Some (call @ [CHR 0x0A, CHR 0x09] @ ''return nil''), g)
      else (None, g))"

definition closer_text :: "string \<Rightarrow> string \<Rightarrow> typedef_def \<Rightarrow> string \<Rightarrow> string \<Rightarrow> string" where
  "closer_text closerName handle td goType returnStmt =
     (let sentinels = (if td_InvalidValues td = [] then [''0''] else td_InvalidValues td); nl = [CHR 0x0A]; tab = [CHR 0x09] in
      ''// '' @ closerName @ '' releases a '' @ handle @ '' handle by calling '' @ td_FreeFunc td @
      ''. Closing the zero or invalid'' @ nl @ ''// sentinel value ('' @ join_with '', '' sentinels @
      '') is a no-op that returns nil.'' @ nl @ ''func '' @ closerName @ ''(h '' @ goType @ '') error {'' @ nl @ tab @ ''if '' @
      join_with '' || '' (invalidValueChecks sentinels goType ''h'') @ '' {'' @ nl @ tab @ tab @ ''return nil'' @ nl @ tab @ ''}'' @
      nl @ tab @ returnStmt @ nl @ ''}'' @ nl @ nl)"

definition handle_kind :: "kind \<Rightarrow> bool" where
  "handle_kind k \<longleftrightarrow> k = KindHandleTypedef \<or> k = KindScalarTypedef"

text \<open>The called function: its name in its own package, or qualified and imported.\<close>

definition closer_callee :: "namespace_meta \<Rightarrow> string \<Rightarrow> string \<Rightarrow> generator \<Rightarrow> string \<times> generator" where
  "closer_callee meta owner free g =
     (if owner \<noteq> ns_Namespace meta
      then (ImportAlias owner @ ''.'' @ Export free, set_import (ImportAlias owner) (ImportPathFor (g_mapper g) owner) g)
      else (Export free, g))"

definition owner_function :: "string \<Rightarrow> generator \<Rightarrow> (string \<times> function_decl) option" where
  "owner_function free g = Option.bind (map_of (reg_FunctionOwner (g_registry g)) free)
     (\<lambda>owner. map_option (Pair (fr_Namespace owner)) (fr_Function owner))"

definition buildCloser :: "namespace_meta \<Rightarrow> string \<Rightarrow> typedef_def \<Rightarrow> generator \<Rightarrow> (string option \<times> generator) option" where
  "buildCloser meta handle td g = do {
     let ns = ns_Namespace meta;
     let ctx = \<lparr>cx_Namespace = ns, cx_IsReturn = False\<rparr>;
     let free = td_FreeFunc td;
     (h, g) \<leftarrow> resolve_type (TypeRef ''ApiRef'' handle ns ''Typedef'' None 0 False) ctx g;
     if \<not> handle_kind (res_Kind h) then Some (None, g)
     else (case owner_function free g of
         Some (owner, f) \<Rightarrow>
           if length (fn_Params f) \<noteq> 1 then
             Some (None, diag (no_closer handle free ('' takes '' @ show_nat (length (fn_Params f)) @ '' params'')) g)
           else do {
             (p, g) \<leftarrow> resolve_type (p_Type (hd (fn_Params f))) ctx g;
             if \<not> (handle_kind (res_Kind p) \<or> res_Kind p = KindScalar) then
               Some (None, diag (no_closer handle free '' param not handle-convertible'') g)
             else do {
               let imports = imports_of g;
               (r, g) \<leftarrow> resolve_type (fn_Return f) \<lparr>cx_Namespace = owner, cx_IsReturn = True\<rparr> (with_imports [] g);
               let (callee, g) = closer_callee meta owner free (with_imports imports g);
               let (stmt, g) = closer_return f r (callee @ ''('' @ res_GoType p @ ''(h))'') g;
               let closerName = ''Close'' @ Export handle;
               Some (case stmt of
                   None \<Rightarrow> (None, diag (no_closer handle free '' return not normalizable'') g)
                 | Some s \<Rightarrow>
                     (let (ok, g) = claimName closerName g in
                      if ok then (Some (closer_text closerName handle td (res_GoType h) s), g)
                      else (None, diag (''handle '' @ handle @ '': closer name '' @ closerName @ '' already used'') g)))
             }
           }
       | None \<Rightarrow> Some (None, diag (no_closer handle free '' ambiguous or unknown'') g))
   }"

fun handle_closers :: "namespace_meta \<Rightarrow> (string \<times> typedef_def) list \<Rightarrow> generator \<Rightarrow> (string \<times> generator) option" where
  "handle_closers meta [] g = Some ([], g)"
| "handle_closers meta ((name, td) # ts) g = do {
     (block, g) \<leftarrow> buildCloser meta name td g;
     (body, g) \<leftarrow> handle_closers meta ts g;
     Some ((case block of None \<Rightarrow> [] | Some b \<Rightarrow> b) @ body, g)
   }"

definition buildHandleClosers :: "namespace_meta \<Rightarrow> generator \<Rightarrow> (string \<times> generator) option" where
  "buildHandleClosers meta g =
     handle_closers meta (sort_key fst (filter (\<lambda>(n, td). td_FreeFunc td \<noteq> []) (ns_Typedefs meta))) g"

section \<open>Coverage\<close>

definition new_coverage :: "string \<Rightarrow> namespace_coverage" where
  "new_coverage namespace = \<lparr>cov_Namespace = namespace, cov_Functions = 0, cov_FunctionsEmitted = 0, cov_Methods = 0,
     cov_MethodsEmitted = 0, cov_Structs = 0, cov_StructsEmitted = 0, cov_Closers = 0, cov_ClosersEmitted = 0\<rparr>"

text \<open>\<open>coverageOf\<close> hands out a pointer; here the counter is changed in place by a function.\<close>

definition coverageOf :: "string \<Rightarrow> (namespace_coverage \<Rightarrow> namespace_coverage) \<Rightarrow> generator \<Rightarrow> generator" where
  "coverageOf namespace change g = g\<lparr>g_coverage :=
     AList.update namespace
       (change (case map_of (g_coverage g) namespace of None \<Rightarrow> new_coverage namespace | Some c \<Rightarrow> c)) (g_coverage g)\<rparr>"

definition Coverage :: "generator \<Rightarrow> namespace_coverage list" where
  "Coverage g = map snd (sort_key fst (g_coverage g))"

end
