(* ===== verification/InterfaceFacts.thy ===== *)
theory InterfaceFacts
  imports Interfaces
begin

text \<open>
  What the interface builder keeps: every emitted method dispatches through the vtable slot of its own
  metadata entry, names are unique, and a renamed method's call still uses the variable it declares.
\<close>

section \<open>Text\<close>

lemma replace_first_skip: "old \<noteq> [] \<Longrightarrow> hd old \<notin> set p \<Longrightarrow> replace_first old new (p @ s) = p @ replace_first old new s"
  by (induction p) (auto simp: has_prefix_def neq_Nil_conv)

lemma replace_first_here: "old \<noteq> [] \<Longrightarrow> replace_first old new (old @ s) = new @ s"
  by (cases old) (auto simp: has_prefix_def)

lemma digit_char_no_comma: "d < 16 \<Longrightarrow> digit_char d \<noteq> CHR '',''"
  by (auto simp: digit_char_def char_eq_byte byte_of_Char)

lemma show_nat_plain: "CHR '','' \<notin> set (show_nat n)"
proof -
  have "CHR '','' \<notin> set (show_base b n)" if "b = 10" for b
    using that
  proof (induction b n rule: show_base.induct)
    case (1 b n)
    then show ?case by (subst show_base.simps) (auto simp: digit_char_no_comma [symmetric] dest: digit_char_no_comma)
  qed
  then show ?thesis by (simp add: show_nat_def)
qed

section \<open>Dispatch\<close>

text \<open>
  The call of a method goes through its slot of the vtable of \<open>self\<close>; a register-aware call names the
  descriptor variable that the method declares, which carries the method's own name.
\<close>

definition dispatches :: "string \<Rightarrow> com_method_model \<Rightarrow> bool" where
  "dispatches goName x \<longleftrightarrow>
     (if cmm_SpecDecl x = []
      then has_prefix (cmm_CallExpr x) (''syscall.SyscallN('' @ slot_target (cmm_Slot x) @ '', '' @ self_word)
      else \<exists>d e. cmm_SpecDecl x = ''var spec'' @ goName @ ''_'' @ cmm_GoName x @ '' = &win32.Spec'' @ d \<and>
        cmm_CallExpr x = ''win32.Call('' @ slot_target (cmm_Slot x) @ '', spec'' @ goName @ ''_'' @ cmm_GoName x @ '','' @ e)"

definition no_space :: "string \<Rightarrow> bool" where
  "no_space s \<longleftrightarrow> CHR '' '' \<notin> set s"

lemma suffix_method_dispatches:
  assumes d: "dispatches goName x" and ns: "no_space goName" "no_space (cmm_GoName x)"
  shows "dispatches goName (suffix_method goName x)"
proof (cases "cmm_SpecDecl x = []")
  case True
  with d show ?thesis by (simp add: dispatches_def suffix_method_def Let_def)
next
  case False
  let ?v = "''spec'' @ goName @ ''_'' @ cmm_GoName x"
  obtain a e where a: "cmm_SpecDecl x = ''var '' @ ?v @ '' = &win32.Spec'' @ a"
    and e: "cmm_CallExpr x = (''win32.Call('' @ slot_target (cmm_Slot x)) @ ('', '' @ ?v @ '','') @ e"
    using d False by (auto simp: dispatches_def)
  have nosp: "CHR '' '' \<notin> set ?v" using ns by (simp add: no_space_def)
  have "replace_first '' = &win32.Spec'' ''_ = &win32.Spec'' (''var '' @ ?v @ '' = &win32.Spec'' @ a) =
      ''var '' @ replace_first '' = &win32.Spec'' ''_ = &win32.Spec'' (?v @ '' = &win32.Spec'' @ a)"
    by (simp add: has_prefix_def)
  also have "\<dots> = ''var '' @ ?v @ ''_ = &win32.Spec'' @ a"
    by (subst replace_first_skip) (simp, use nosp in simp, subst replace_first_here, simp, simp)
  finally have sd: "replace_first '' = &win32.Spec'' ''_ = &win32.Spec'' (cmm_SpecDecl x) = ''var '' @ ?v @ ''_ = &win32.Spec'' @ a"
    by (simp only: a)
  have comma: "CHR '','' \<notin> set (''win32.Call('' @ slot_target (cmm_Slot x))" by (simp add: slot_target_def show_nat_plain)
  have "replace_first ('', '' @ ?v @ '','') ('', '' @ ?v @ ''_,'') (cmm_CallExpr x) =
      (''win32.Call('' @ slot_target (cmm_Slot x)) @ ('', '' @ ?v @ ''_,'') @ e"
    unfolding e by (subst replace_first_skip) (simp, use comma in simp, subst replace_first_here, simp, simp)
  then show ?thesis
    using False sd by (auto simp: dispatches_def suffix_method_def Let_def)
qed

lemma suffix_method_frame [simp]:
  "cmm_GoName (suffix_method goName m) = cmm_GoName m @ ''_''" "cmm_Slot (suffix_method goName m) = cmm_Slot m"
  "cmm_CommentLines (suffix_method goName m) = cmm_CommentLines m"
  by (simp_all add: suffix_method_def Let_def)

text \<open>The comment keeps the name the method had first.\<close>

lemma rename_method_frame:
  "cmm_Slot (rename_method goName used m) = cmm_Slot m \<and>
   cmm_CommentLines (rename_method goName used m) = cmm_CommentLines m \<and>
   cmm_GoName (rename_method goName used m) \<notin> set used \<and>
   (\<exists>n. cmm_GoName (rename_method goName used m) = cmm_GoName m @ replicate n (CHR ''_'')) \<and>
   (no_space goName \<longrightarrow> no_space (cmm_GoName m) \<longrightarrow> dispatches goName m \<longrightarrow> dispatches goName (rename_method goName used m))"
proof (induction goName used m rule: rename_method.induct)
  case (1 goName used m)
  show ?case
  proof (cases "cmm_GoName m \<in> set used")
    case True
    note IH = 1 [OF True]
    have r: "rename_method goName used m = rename_method goName used (suffix_method goName m)"
      using True by (subst rename_method.simps) simp
    obtain n where n: "cmm_GoName (rename_method goName used m) = cmm_GoName m @ ''_'' @ replicate n (CHR ''_'')"
      using IH by (auto simp: r)
    have "\<exists>n. cmm_GoName (rename_method goName used m) = cmm_GoName m @ replicate n (CHR ''_'')"
      by (rule exI [of _ "Suc n"]) (simp add: n)
    moreover have "no_space (cmm_GoName m) \<Longrightarrow> no_space (cmm_GoName (suffix_method goName m))" by (simp add: no_space_def)
    ultimately show ?thesis using IH suffix_method_dispatches by (simp add: r)
  next
    case False
    then have "rename_method goName used m = m" by (subst rename_method.simps) simp
    with False show ?thesis by (auto intro: exI [of _ 0])
  qed
qed

lemma renamed_comment:
  "cmm_CommentLines (rename_method goName used m) = cmm_CommentLines m"
  "cmm_GoName m \<in> set used \<Longrightarrow> cmm_GoName (rename_method goName used m) \<noteq> cmm_GoName m"
  using rename_method_frame [of goName used m] by auto

section \<open>Methods\<close>

lemma finish_com_method_dispatches:
  assumes "finish_com_method iface m slot imports (model, specArgs, retSpec, viaCall) g = (Some x, g')"
    and model: "cmm_GoName model = n" "cmm_Slot model = slot" "cmm_SpecDecl model = []"
  shows "cmm_GoName x = n \<and> cmm_Slot x = slot \<and> dispatches (Export iface) x"
proof -
  have ok: "\<not> (viaCall \<and> maxCallWords < length (cmm_ArgExprs model) + 1)"
    using assms(1) by (auto simp: finish_com_method_def Let_def)
  have x: "cmm_GoName x = n" "cmm_Slot x = slot"
    "cmm_SpecDecl x = (if viaCall then specDecl (''spec'' @ Export iface @ ''_'' @ n) (specWord # specArgs) retSpec else [])"
    "cmm_CallExpr x = (if viaCall then callExpr (slot_target slot) (''spec'' @ Export iface @ ''_'' @ n) ''nil''
       (self_word # cmm_ArgExprs model) (cmm_ReturnKind model) else syscall_expr (slot_target slot # self_word # cmm_ArgExprs model))"
    using assms unfolding finish_com_method_def Let_def prod.case if_not_P [OF ok] by auto
  have join: "\<exists>e. join_with '', '' (a # ws) = a @ e" for a ws by (cases ws) auto
  show ?thesis
  proof (cases viaCall)
    case True
    have "\<exists>e. cmm_CallExpr x = ''win32.Call('' @ slot_target slot @ '', spec'' @ Export iface @ ''_'' @ n @ '','' @ e"
      using True by (cases "cmm_ReturnKind model = RetFloat") (simp_all add: x(4) callExpr_def Let_def)
    with True show ?thesis by (simp add: x dispatches_def specDecl_def)
  next
    case False
    obtain e where "join_with '', '' (self_word # cmm_ArgExprs model) = self_word @ e" using join by blast
    with False have "cmm_CallExpr x = (''syscall.SyscallN('' @ slot_target slot @ '', '' @ self_word) @ (e @ '')'')"
      by (simp add: x(4) syscall_expr_def)
    with False show ?thesis by (simp only: x dispatches_def if_False simp_thms if_True has_prefix_append)
  qed
qed

lemma com_return_frame:
  assumes "com_return meta iface m r s model g = (Some (model', a, b, v), g')"
  shows "cmm_GoName model' = cmm_GoName model \<and> cmm_Slot model' = cmm_Slot model \<and> cmm_SpecDecl model' = cmm_SpecDecl model"
  using assms by (auto simp: com_return_def Let_def split_def split: if_split_asm)

text \<open>The two stages of an emitted method.\<close>

lemma buildComMethodE:
  assumes "buildComMethod meta iface m slot g = Some (Some x, g')"
  obtains r s model0 model a b v g1 g2 where "com_return meta iface m r s model0 g1 = (Some (model, a, b, v), g2)"
    "finish_com_method iface m slot (imports_of g) (model, a, b, v) g2 = (Some x, g')"
    "cmm_GoName model0 = Export (cm_Name m)" "cmm_Slot model0 = slot" "cmm_SpecDecl model0 = []"
proof -
  from assms obtain rs r g1 s g2 where
    1: "resolve_signature (ns_Namespace meta) (cm_Params m) (cm_Return m) (with_imports [] g) = Some ((rs, r), g1)"
    and 2: "shape_signature (isHRESULT r) (com_param_skipped iface m) (cm_Params m) rs r g1 = Some (Some s, g2)"
    by (auto simp: buildComMethod_def bind_eq_Some_conv Let_def split: option.split_asm)
  let ?m = "empty_com_method_model\<lparr>cmm_GoName := Export (cm_Name m), cmm_ParamStr := join_with '', '' (sg_decls s),
    cmm_Slot := slot, cmm_Preamble := sg_preamble s, cmm_ArgExprs := sg_argWords s\<rparr>"
  obtain y g3 where 3: "com_return meta iface m r s ?m g2 = (y, g3)" by fastforce
  have c: "(case y of None \<Rightarrow> (None, with_imports (imports_of g) g3)
      | Some x \<Rightarrow> finish_com_method iface m slot (imports_of g) x g3) = (Some x, g')"
    using assms 1 2 3 by (simp add: buildComMethod_def Let_def)
  then obtain model a b v where y: "y = Some (model, a, b, v)" by (cases y) auto
  show thesis by (rule that [OF 3 [unfolded y]]) (use c y in \<open>simp_all add: empty_com_method_model_def\<close>)
qed

lemma buildComMethod_dispatches:
  assumes "buildComMethod meta iface m slot g = Some (Some x, g')"
  shows "cmm_GoName x = Export (cm_Name m) \<and> cmm_Slot x = slot \<and> dispatches (Export iface) x"
proof -
  obtain r s model0 model a b v g1 g2 where 1: "com_return meta iface m r s model0 g1 = (Some (model, a, b, v), g2)"
    and 2: "finish_com_method iface m slot (imports_of g) (model, a, b, v) g2 = (Some x, g')"
    and 3: "cmm_GoName model0 = Export (cm_Name m)" "cmm_Slot model0 = slot" "cmm_SpecDecl model0 = []"
    using assms by (rule buildComMethodE)
  from finish_com_method_dispatches [OF 2] com_return_frame [OF 1] 3 show ?thesis by simp
qed

text \<open>Methods \<open>xs\<close> made from the metadata methods \<open>ms\<close>, which start at \<open>slot\<close>.\<close>

definition method_ok :: "string \<Rightarrow> com_method list \<Rightarrow> nat \<Rightarrow> com_method_model \<Rightarrow> bool" where
  "method_ok goName ms slot x \<longleftrightarrow> slot \<le> cmm_Slot x \<and> cmm_Slot x < slot + length ms \<and> dispatches goName x \<and>
     (\<exists>n. cmm_GoName x = Export (cm_Name (ms ! (cmm_Slot x - slot))) @ replicate n (CHR ''_''))"

lemma method_ok_Cons:
  assumes "method_ok goName ms (slot + 1) x"
  shows "method_ok goName (m # ms) slot x"
proof -
  have "Suc slot \<le> cmm_Slot x" using assms by (simp add: method_ok_def)
  then have "cmm_Slot x - slot = Suc (cmm_Slot x - (slot + 1))" by simp
  with assms show ?thesis by (auto simp: method_ok_def)
qed

lemma com_methods_ok:
  assumes "com_methods meta name ms slot used g = Some (xs, g')" "no_space (Export name)"
    "\<forall>m \<in> set ms. no_space (Export (cm_Name m))"
  shows "distinct (map cmm_GoName xs) \<and> cmm_GoName ` set xs \<inter> set used = {} \<and> sorted_wrt (<) (map cmm_Slot xs) \<and>
    (\<forall>x \<in> set xs. method_ok (Export name) ms slot x)"
  using assms
proof (induction ms arbitrary: slot used g xs)
  case (Cons m ms)
  obtain y g1 where 1: "buildComMethod meta name m slot g = Some (y, g1)"
    using Cons.prems(1) by (auto simp: bind_eq_Some_conv)
  have ns: "no_space (Export (cm_Name m))" "\<forall>m \<in> set ms. no_space (Export (cm_Name m))" using Cons.prems(3) by simp_all
  show ?case
  proof (cases y)
    case None
    then have "com_methods meta name ms (slot + 1) used g1 = Some (xs, g')" using Cons.prems(1) 1 by simp
    from Cons.IH [OF this Cons.prems(2) ns(2)] show ?thesis using method_ok_Cons by blast
  next
    case (Some x0)
    define x where "x = rename_method (Export name) used x0"
    obtain ys g2 where r: "com_methods meta name ms (slot + 1) (cmm_GoName x # used) g1 = Some (ys, g2)" and xs: "xs = x # ys"
      using Cons.prems(1) 1 Some by (auto simp: x_def Let_def bind_eq_Some_conv)
    have g2: "com_methods meta name ms (slot + 1) (cmm_GoName x # used) g1 = Some (ys, g')"
      using Cons.prems(1) 1 Some r by (auto simp: x_def Let_def)
    note IH = Cons.IH [OF g2 Cons.prems(2) ns(2)]
    have b: "cmm_GoName x0 = Export (cm_Name m)" "cmm_Slot x0 = slot" "dispatches (Export name) x0"
      using buildComMethod_dispatches [OF 1 [unfolded Some]] by simp_all
    have x: "cmm_Slot x = slot" "cmm_GoName x \<notin> set used" "dispatches (Export name) x"
      "\<exists>n. cmm_GoName x = Export (cm_Name m) @ replicate n (CHR ''_'')"
      using rename_method_frame [of "Export name" used x0] b Cons.prems(2) ns(1) by (simp_all add: x_def)
    have "method_ok (Export name) (m # ms) slot x" using x by (simp add: method_ok_def)
    moreover have "\<forall>y \<in> set ys. slot < cmm_Slot y" using IH by (auto simp: method_ok_def)
    ultimately show ?thesis using IH x(1,2) method_ok_Cons by (auto simp: xs)
  qed
qed simp

text \<open>
  \<^bold>\<open>C26\<close>: the methods of an emitted interface come in vtable order with names of their own, each dispatches
  through the slot its metadata entry has after the inherited methods, also when entries before it were
  skipped, and renaming an overload keeps the call and the descriptor it declares together.
\<close>

theorem buildInterface_slots:
  assumes b: "buildInterface meta name (Export name) c g = Some (Some model, g')"
    and n: "no_space (Export name)" "\<forall>m \<in> set (ci_Methods c). no_space (Export (cm_Name m))"
  shows "distinct (map cmm_GoName (ifm_Methods model)) \<and> sorted_wrt (<) (map cmm_Slot (ifm_Methods model)) \<and>
    (\<forall>x \<in> set (ifm_Methods model).
       method_ok (Export name) (ci_Methods c) (fst (VtableStartSlot (g_registry g) (ns_Namespace meta) name)) x)"
proof -
  obtain slot where v: "VtableStartSlot (g_registry g) (ns_Namespace meta) name = (slot, True)"
    using b by (auto simp: buildInterface_def split: prod.split_asm bool.split_asm)
  define m0 where "m0 = interface_iid name (Export name) c (empty_interface_model\<lparr>ifm_TypeName := Export name,
    ifm_DocURL := av_DocURL (ci_Availability c), ifm_GUID := ci_GUID c\<rparr>) g"
  have m0: "ifm_Methods (fst m0) = []"
    by (auto simp: m0_def interface_iid_def empty_interface_model_def Let_def split_def split: sum.split)
  show ?thesis
  proof (cases "ns_Namespace meta @ ''.'' @ name = runtimeRootInterface")
    case True
    with b v m0 show ?thesis by (auto simp: buildInterface_def m0_def [symmetric] Let_def split_def)
  next
    case False
    obtain m1 g1 where 1: "interface_base meta name c (fst m0) (snd m0) = Some (m1, g1)"
      using b v False by (auto simp: buildInterface_def m0_def [symmetric] Let_def split_def bind_eq_Some_conv)
    then obtain ms where 2: "com_methods meta name (ci_Methods c) slot [] g1 = Some (ms, g')" and m: "ifm_Methods model = ms"
      using b v False by (auto simp: buildInterface_def m0_def [symmetric] Let_def split_def bind_eq_Some_conv)
    from com_methods_ok [OF 2 n] show ?thesis by (simp add: m v)
  qed
qed

text \<open>Two overloads that return a float, after the three methods of the root.\<close>

definition float_method :: "string \<Rightarrow> com_method" where
  "float_method n = \<lparr>cm_Name = n, cm_Return = Native ''Single'', cm_Params = []\<rparr>"

definition overloads :: com_interface where
  "overloads = (plain_interface ''IUnknown'' ''System.Com'' [])\<lparr>ci_Methods := [float_method ''Get'', float_method ''Get'']\<rparr>"

lemma overloads_run:
  "map_option (\<lambda>(m, g). map_option (\<lambda>m. map (\<lambda>x. (cmm_GoName x, cmm_Slot x, take 20 (cmm_SpecDecl x))) (ifm_Methods m)) m)
     (buildInterface sample_namespace ''IStream'' (Export ''IStream'') overloads (New sample_registry [] [])) =
   Some (Some [(''Get'', 3, ''var specIStream_Get ''), (''Get_'', 4, ''var specIStream_Get_'')])"
  by code_simp

lemma buildInterface_slots_witness:
  "\<exists>model g'. buildInterface sample_namespace ''IStream'' (Export ''IStream'') overloads (New sample_registry [] []) = Some (Some model, g') \<and>
     map cmm_GoName (ifm_Methods model) = [''Get'', ''Get_''] \<and> sorted_wrt (<) (map cmm_Slot (ifm_Methods model))"
proof -
  obtain model g' where
    m: "buildInterface sample_namespace ''IStream'' (Export ''IStream'') overloads (New sample_registry [] []) = Some (Some model, g')"
    and n: "map cmm_GoName (ifm_Methods model) = [''Get'', ''Get_'']"
    using overloads_run by (auto simp: map_eq_Cons_conv)
  have "no_space (Export ''IStream'')" "\<forall>m \<in> set (ci_Methods overloads). no_space (Export (cm_Name m))"
    by code_simp+
  from buildInterface_slots [OF m this] have "sorted_wrt (<) (map cmm_Slot (ifm_Methods model))" by blast
  then show ?thesis by (intro exI [of _ model] exI [of _ g'] conjI m n)
qed

section \<open>Closers\<close>

text \<open>
  An emitted closer imports the package of the free function whenever that is another one, whatever
  the cycle breaker severed, and without recording the namespace as referenced.
\<close>

lemma closer_callee_import:
  assumes "owner \<noteq> ns_Namespace meta" "closer_callee meta owner free g = (callee, g')"
  shows "map_of (imports_of g') (ImportAlias owner) = Some (ImportPathFor (g_mapper g) owner)"
    "rn_Referenced (g_resolution g') = rn_Referenced (g_resolution g)"
  using assms by (auto simp: closer_callee_def set_import_def imports_of_def update_conv')

end
