(* ===== verification/Files.thy ===== *)
theory Files
  imports Claims
begin

text \<open>
  Writing Go files: the import scan and the assembly of \<open>writeFileTagged\<close> (\<open>generator.go\<close>), the scaffold
  of \<open>internal/codegen/shared/fileasm/fileasm.go\<close>, and the sweep \<open>pruneStale\<close>.

  The output tree is a map from paths to contents and a list of directories, with \<open>/\<close> between the
  parts of a path. Every operation of the file system succeeds. \<open>go/format\<close> is a parameter: from a source
  text to the formatted text or a syntax error.
\<close>

section \<open>Scanning code\<close>

text \<open>\<open>strings.Index\<close>.\<close>

fun index_of :: "string \<Rightarrow> string \<Rightarrow> nat option" where
  "index_of [] p = (if p = [] then Some 0 else None)"
| "index_of (c # cs) p = (if has_prefix (c # cs) p then Some 0 else map_option Suc (index_of cs p))"

definition isIdentByte :: "char \<Rightarrow> bool" where
  "isIdentByte c \<longleftrightarrow> c = CHR ''_'' \<or> is_lower_ascii c \<or> is_upper_ascii c \<or> is_digit_ascii c"

lemma index_of_bound: "index_of s p = Some n \<Longrightarrow> n \<le> length s"
  by (induction s p arbitrary: n rule: index_of.induct) (auto split: if_splits)

text \<open>The loop of \<open>referencesAlias\<close> from a position.\<close>

function references_from :: "string \<Rightarrow> string \<Rightarrow> nat \<Rightarrow> bool" where
  "references_from code needle from =
     (if length code < from then False
      else (case index_of (drop from code) needle of
          None \<Rightarrow> False
        | Some index \<Rightarrow>
            (let position = from + index in
             if position = 0 \<or> \<not> isIdentByte (code ! (position - 1)) then True
             else references_from code needle (position + 1))))"
  by pat_completeness auto
termination
  by (relation "measure (\<lambda>(code, needle, from). Suc (length code) - from)") auto

declare references_from.simps [simp del]

definition referencesAlias :: "string \<Rightarrow> string \<Rightarrow> bool" where
  "referencesAlias code alias = references_from code (alias @ ''.'') 0"

definition newline :: char where
  "newline = CHR 0x0A"

definition cut_comment :: "string \<Rightarrow> string" where
  "cut_comment line = (case index_of line ''//'' of None \<Rightarrow> line | Some index \<Rightarrow> take index line)"

definition stripComments :: "string \<Rightarrow> string" where
  "stripComments body = join_with [newline] (map cut_comment (split_on newline body))"

section \<open>Assembly\<close>

record go_file =
  gf_PackageName :: string
  gf_BuildTag :: string
  gf_Imports :: "string gomap"
  gf_Body :: string

definition generatedHeader :: string where
  "generatedHeader = ''// Code generated by go-bindings-win32-codegen. DO NOT EDIT.''"

definition GeneratedBuildTag :: string where
  "GeneratedBuildTag = ''windows && (amd64 || arm64)''"

text \<open>The part after the last slash.\<close>

definition lastSegment :: "string \<Rightarrow> string" where
  "lastSegment path = last (split_on (CHR ''/'') path)"

definition import_line :: "string \<times> string \<Rightarrow> string" where
  "import_line e = (case e of (alias, path) \<Rightarrow>
     if lastSegment path = alias then quoted path else alias @ '' '' @ quoted path)"

definition internal_path :: "string \<times> string \<Rightarrow> bool" where
  "internal_path e \<longleftrightarrow> CHR ''.'' \<in> set (snd e)"

definition tab_line :: "string \<Rightarrow> string" where
  "tab_line line = CHR 0x09 # line @ [newline]"

definition writeImports :: "string gomap \<Rightarrow> string" where
  "writeImports imports =
     (if imports = [] then []
      else (let stdlib = sort (map import_line (filter (\<lambda>e. \<not> internal_path e) imports));
                internal = sort (map import_line (filter internal_path imports))
            in ''import ('' @ [newline] @ concat (map tab_line stdlib) @
               (if stdlib \<noteq> [] \<and> internal \<noteq> [] then [newline] else []) @
               concat (map tab_line internal) @ '')'' @ [newline, newline]))"

definition assemble_text :: "go_file \<Rightarrow> string" where
  "assemble_text file = generatedHeader @ [newline, newline] @ ''//go:build '' @ gf_BuildTag file @ [newline, newline] @
     ''package '' @ gf_PackageName file @ [newline, newline] @ writeImports (gf_Imports file) @ gf_Body file"

definition Assemble :: "(string \<Rightarrow> string + string) \<Rightarrow> go_file \<Rightarrow> string + string" where
  "Assemble format file =
     (case format (assemble_text file) of
        Inl e \<Rightarrow> Inl (''fileasm: generated '' @ gf_PackageName file @ '' does not parse: '' @ e)
      | Inr s \<Rightarrow> Inr s)"

section \<open>Writing\<close>

definition is_space :: "char \<Rightarrow> bool" where
  "is_space c \<longleftrightarrow> c \<in> {CHR '' '', CHR 0x09, CHR 0x0A, CHR 0x0B, CHR 0x0C, CHR 0x0D}"

text \<open>The packages a body may name without the resolver recording them.\<close>

definition fixed_imports :: "mapper \<Rightarrow> string gomap" where
  "fixed_imports m = [(''unsafe'', ''unsafe''), (''syscall'', ''syscall''), (''win32'', RuntimeImportPath m), (''math'', ''math'')]"

definition prune_imports :: "mapper \<Rightarrow> string \<Rightarrow> string gomap \<Rightarrow> string gomap" where
  "prune_imports m code imports =
     (let used = (\<lambda>e. referencesAlias code (fst e))
      in fold (\<lambda>(a, p). AList.update a p) (filter used (fixed_imports m)) (filter used imports))"

definition join_path :: "string \<Rightarrow> string \<Rightarrow> string" where
  "join_path dir name = dir @ ''/'' @ name"

definition write_path :: "string \<Rightarrow> string \<Rightarrow> generator \<Rightarrow> generator" where
  "write_path path content g = g\<lparr>g_writtenFiles := AList.update path content (g_writtenFiles g)\<rparr>"

text \<open>An empty body writes nothing; a body that does not parse is the returned error.\<close>

definition writeFileTagged :: "(string \<Rightarrow> string + string) \<Rightarrow> string \<Rightarrow> string \<Rightarrow> string \<Rightarrow> string gomap \<Rightarrow> string \<Rightarrow> string \<Rightarrow>
    generator \<Rightarrow> string + generator" where
  "writeFileTagged format dir fileName packageName imports body buildTag g =
     (if list_all is_space body then Inr g
      else map_sum id (\<lambda>content. write_path (join_path dir fileName) content g)
        (Assemble format \<lparr>gf_PackageName = packageName, gf_BuildTag = buildTag,
           gf_Imports = prune_imports (g_mapper g) (stripComments body) imports, gf_Body = body\<rparr>))"

definition writeFile :: "(string \<Rightarrow> string + string) \<Rightarrow> string \<Rightarrow> string \<Rightarrow> string \<Rightarrow> string gomap \<Rightarrow> string \<Rightarrow>
    generator \<Rightarrow> string + generator" where
  "writeFile format dir fileName packageName imports body g =
     writeFileTagged format dir fileName packageName imports body GeneratedBuildTag g"

section \<open>Sweeping\<close>

record file_tree =
  ft_Files :: "string gomap"
  ft_Dirs :: "string list"

definition path_dir :: "string \<Rightarrow> string" where
  "path_dir path = join_with ''/'' (butlast (split_on (CHR ''/'') path))"

definition stale_file :: "bool \<Rightarrow> string gomap \<Rightarrow> string \<times> string \<Rightarrow> bool" where
  "stale_file fullSweep written e \<longleftrightarrow> (case e of (path, content) \<Rightarrow>
     has_suffix path ''.go'' \<and> path \<notin> fst ` set written \<and>
     (fullSweep \<or> path_dir path \<in> path_dir ` fst ` set written) \<and> has_prefix content generatedHeader)"

definition empty_dir :: "file_tree \<Rightarrow> string \<Rightarrow> bool" where
  "empty_dir t d \<longleftrightarrow> (\<forall>e \<in> set (ft_Files t). path_dir (fst e) \<noteq> d) \<and> (\<forall>e \<in> set (ft_Dirs t). path_dir e \<noteq> d)"

definition remove_empty :: "string \<Rightarrow> file_tree \<Rightarrow> file_tree" where
  "remove_empty d t = (if empty_dir t d then t\<lparr>ft_Dirs := removeAll d (ft_Dirs t)\<rparr> else t)"

text \<open>The tree is the output directory; directories go deepest first.\<close>

definition pruneStale :: "bool \<Rightarrow> string gomap \<Rightarrow> file_tree \<Rightarrow> file_tree" where
  "pruneStale fullSweep written t =
     fold remove_empty (rev (sort (ft_Dirs t)))
       (t\<lparr>ft_Files := filter (\<lambda>e. \<not> stale_file fullSweep written e) (ft_Files t)\<rparr>)"

end
