(* ===== verification/FilesFacts.thy ===== *)
theory FilesFacts
  imports Files
begin

text \<open>
  The alias scan finds exactly the qualified uses; the import block does not depend on the order of Go's
  maps; the sweep removes only generated files and leaves no empty directory.
\<close>

section \<open>The alias scan\<close>

lemma index_of_Some: "index_of s p = Some n \<Longrightarrow> has_prefix (drop n s) p \<and> (\<forall>m < n. \<not> has_prefix (drop m s) p)"
proof (induction s p arbitrary: n rule: index_of.induct)
  case (2 c cs p)
  show ?case
  proof (cases "has_prefix (c # cs) p")
    case False
    with "2.prems" obtain k where "index_of cs p = Some k" "n = Suc k" by auto
    with "2.IH" [OF False] False show ?thesis by (auto simp: less_Suc_eq_0_disj)
  qed (use "2.prems" in auto)
qed (auto simp: has_prefix_def split: if_splits)

lemma index_of_None: "index_of s p = None \<Longrightarrow> m \<le> length s \<Longrightarrow> \<not> has_prefix (drop m s) p"
proof (induction s p arbitrary: m rule: index_of.induct)
  case (2 c cs p)
  then show ?case by (cases m) (auto split: if_splits)
qed (auto simp: has_prefix_def split: if_splits)

definition qualified_at :: "string \<Rightarrow> string \<Rightarrow> nat \<Rightarrow> bool" where
  "qualified_at code needle n \<longleftrightarrow> n \<le> length code \<and> has_prefix (drop n code) needle \<and> (n = 0 \<or> \<not> isIdentByte (code ! (n - 1)))"

lemma references_from_iff: "references_from code needle start \<longleftrightarrow> (\<exists>n \<ge> start. qualified_at code needle n)"
proof (induction code needle start rule: references_from.induct)
  case (1 code needle start)
  show ?case
  proof (cases "length code < start")
    case True
    then show ?thesis by (subst references_from.simps) (auto simp: qualified_at_def)
  next
    case ok: False
    show ?thesis
    proof (cases "index_of (drop start code) needle")
      case None
      have "\<not> qualified_at code needle n" if "start \<le> n" for n
      proof
        assume q: "qualified_at code needle n"
        then have "n \<le> length code" by (simp add: qualified_at_def)
        then have "n - start \<le> length (drop start code)" using that by simp
        moreover have "has_prefix (drop (n - start) (drop start code)) needle" using q that by (simp add: qualified_at_def)
        ultimately show False using index_of_None [OF None] by blast
      qed
      then show ?thesis using ok None by (subst references_from.simps) auto
    next
      case (Some index)
      let ?n = "start + index"
      have n: "?n \<le> length code" "has_prefix (drop ?n code) needle"
        using index_of_bound [OF Some] index_of_Some [OF Some] ok by (auto simp: add.commute)
      have before: "\<not> qualified_at code needle m" if "start \<le> m" "m < ?n" for m
        using index_of_Some [OF Some] that by (auto simp: qualified_at_def dest: spec [of _ "m - start"])
      show ?thesis
      proof (cases "?n = 0 \<or> \<not> isIdentByte (code ! (?n - 1))")
        case True
        then have "qualified_at code needle ?n" using n by (simp add: qualified_at_def)
        then have "\<exists>m \<ge> start. qualified_at code needle m" by (intro exI [of _ ?n]) simp
        moreover have "references_from code needle start"
          using ok Some True by (subst references_from.simps) (auto simp: Let_def)
        ultimately show ?thesis by simp
      next
        case False
        then have "\<not> qualified_at code needle ?n" by (simp add: qualified_at_def)
        then have "(\<exists>m \<ge> start. qualified_at code needle m) \<longleftrightarrow> (\<exists>m \<ge> ?n + 1. qualified_at code needle m)"
          using before by (metis add_leD1 le_neq_implies_less not_less_eq_eq Suc_eq_plus1 not_le)
        moreover have "references_from code needle start = references_from code needle (?n + 1)"
          using ok Some False by (subst references_from.simps) (auto simp: Let_def)
        ultimately show ?thesis using 1 [OF ok Some refl False] by simp
      qed
    qed
  qed
qed

text \<open>No identifier can continue after such a text.\<close>

definition ends_word :: "string \<Rightarrow> bool" where
  "ends_word p \<longleftrightarrow> p = [] \<or> \<not> isIdentByte (last p)"

text \<open>
  The alias scan answers yes exactly when the code has the alias followed by a dot at the start or
  after a byte that cannot end an identifier; overlapping and earlier partial matches hide none.
\<close>

theorem referencesAlias_iff:
  "referencesAlias code alias \<longleftrightarrow> (\<exists>p s. code = p @ alias @ ''.'' @ s \<and> ends_word p)"
proof -
  have "(\<exists>n. qualified_at code (alias @ ''.'') n) \<longleftrightarrow> (\<exists>p s. code = p @ alias @ ''.'' @ s \<and> ends_word p)"
  proof
    assume "\<exists>n. qualified_at code (alias @ ''.'') n"
    then obtain n where "qualified_at code (alias @ ''.'') n" by blast
    then obtain s where n: "n \<le> length code" "drop n code = (alias @ ''.'') @ s" "n = 0 \<or> \<not> isIdentByte (code ! (n - 1))"
      unfolding qualified_at_def has_prefix_iff by blast
    have "code = take n code @ alias @ ''.'' @ s" using n(2) append_take_drop_id [of n code] by simp
    moreover have "ends_word (take n code)"
      using n(1,3) by (auto simp: ends_word_def last_conv_nth)
    ultimately show "\<exists>p s. code = p @ alias @ ''.'' @ s \<and> ends_word p" by blast
  next
    assume "\<exists>p s. code = p @ alias @ ''.'' @ s \<and> ends_word p"
    then obtain p s where c: "code = p @ (alias @ ''.'') @ s" and p: "ends_word p" by auto
    have "qualified_at code (alias @ ''.'') (length p)"
      using p unfolding ends_word_def qualified_at_def c by (auto simp: nth_append last_conv_nth simp del: append_assoc)
    then show "\<exists>n. qualified_at code (alias @ ''.'') n" by blast
  qed
  then show ?thesis by (simp add: referencesAlias_def references_from_iff)
qed

section \<open>The import block\<close>

lemma writeImports_order: "mset a = mset b \<Longrightarrow> writeImports a = writeImports b"
proof -
  assume m: "mset a = mset b"
  have "sort (map import_line (filter P a)) = sort (map import_line (filter P b))" for P
    by (rule properties_for_sort) (simp_all add: m)
  moreover have "a = [] \<longleftrightarrow> b = []" using m by auto
  ultimately show ?thesis unfolding writeImports_def by (simp only: Let_def)
qed

section \<open>The sweep\<close>

lemma prefix_less: "y \<noteq> [] \<Longrightarrow> x < x @ y" for x :: string
  by (induction x) (auto simp: neq_Nil_conv)

lemma path_dir_split: "path_dir e = d \<Longrightarrow> e \<noteq> [] \<Longrightarrow> d < e"
proof -
  assume d: "path_dir e = d" and e: "e \<noteq> []"
  let ?ps = "split_on (CHR ''/'') e"
  have join: "join_with ''/'' (ps @ [x]) = (if ps = [] then x else join_with ''/'' ps @ ''/'' @ x)" for ps x
    by (induction ps rule: join_with.induct [of _ "''/''"]) (auto simp: neq_Nil_conv)
  have split: "e = join_with ''/'' (butlast ?ps @ [last ?ps])" by simp
  show "d < e"
  proof (cases "butlast ?ps = []")
    case True
    then have "d = []" using d by (simp add: path_dir_def)
    then show ?thesis using e prefix_less [of e "[]"] by simp
  next
    case False
    then have "e = d @ ''/'' @ last ?ps" using split d by (simp only: join path_dir_def if_False)
    then show ?thesis using prefix_less [of "''/'' @ last ?ps" d] by simp
  qed
qed

lemma remove_empty_frame:
  "ft_Files (remove_empty d t) = ft_Files t" "set (ft_Dirs (remove_empty d t)) \<subseteq> set (ft_Dirs t)"
  "x \<in> set (ft_Dirs t) \<Longrightarrow> x \<notin> set (ft_Dirs (remove_empty d t)) \<Longrightarrow> x = d \<and> empty_dir t d"
  by (auto simp: remove_empty_def split: if_splits)

lemma empty_dir_mono:
  "empty_dir t d \<Longrightarrow> ft_Files t' = ft_Files t \<Longrightarrow> set (ft_Dirs t') \<subseteq> set (ft_Dirs t) \<Longrightarrow> empty_dir t' d"
  by (auto simp: empty_dir_def)

lemma sweep_frame:
  "ft_Files (fold remove_empty ds t) = ft_Files t \<and> set (ft_Dirs (fold remove_empty ds t)) \<subseteq> set (ft_Dirs t) \<and>
   (\<forall>x \<in> set (ft_Dirs t) - set (ft_Dirs (fold remove_empty ds t)). empty_dir (fold remove_empty ds t) x)"
proof (induction ds arbitrary: t)
  case (Cons d ds)
  let ?t1 = "remove_empty d t" and ?t2 = "fold remove_empty ds (remove_empty d t)"
  note IH = Cons.IH [of ?t1] and f = remove_empty_frame [where d = d and t = t]
  have "empty_dir ?t2 x" if "x \<in> set (ft_Dirs t)" "x \<notin> set (ft_Dirs ?t2)" for x
  proof (cases "x \<in> set (ft_Dirs ?t1)")
    case False
    then have "empty_dir t x" using f(3) that(1) by blast
    then show ?thesis by (rule empty_dir_mono) (use IH f in auto)
  qed (use IH that in blast)
  with IH f show ?case by auto
qed simp

text \<open>After a directory was visited it is gone or has something left in it, when its subdirectories came first.\<close>

lemma sweep_nonempty:
  assumes "sorted_wrt (>) ds" "set ds \<subseteq> set (ft_Dirs t)" "[] \<notin> set (ft_Dirs t)"
    "\<forall>e \<in> set (ft_Dirs t) - set ds. \<forall>d \<in> set ds. d < e"
    "\<forall>e \<in> set (ft_Dirs t) - set ds. \<not> empty_dir t e"
  shows "\<forall>d \<in> set (ft_Dirs (fold remove_empty ds t)). \<not> empty_dir (fold remove_empty ds t) d"
  using assms
proof (induction ds arbitrary: t)
  case Nil
  then show ?case by simp
next
  case (Cons d ds)
  let ?t1 = "remove_empty d t"
  have sorted: "sorted_wrt (>) ds" "\<forall>x \<in> set ds. x < d" using Cons.prems(1) by auto
  have dirs: "set (ft_Dirs ?t1) = (if empty_dir t d then set (ft_Dirs t) - {d} else set (ft_Dirs t))"
    by (simp add: remove_empty_def)
  have sub: "set ds \<subseteq> set (ft_Dirs ?t1)" using Cons.prems(2) sorted(2) dirs by auto
  have left: "\<forall>e \<in> set (ft_Dirs ?t1) - set ds. \<not> empty_dir ?t1 e"
  proof
    fix e
    assume e: "e \<in> set (ft_Dirs ?t1) - set ds"
    show "\<not> empty_dir ?t1 e"
    proof (cases "empty_dir t d")
      case False
      then have "?t1 = t" by (simp add: remove_empty_def)
      then show ?thesis using e Cons.prems(5) False by (cases "e = d") auto
    next
      case True
      then have "e \<in> set (ft_Dirs t) - set (d # ds)" using e dirs by auto
      then have "\<not> empty_dir t e" "d < e" using Cons.prems(4,5) by auto
      moreover have "path_dir d \<noteq> e"
      proof
        assume "path_dir d = e"
        moreover have "d \<noteq> []" using Cons.prems(2,3) by auto
        ultimately have "e < d" by (rule path_dir_split)
        with \<open>d < e\<close> show False by simp
      qed
      ultimately show ?thesis using True by (auto simp: empty_dir_def remove_empty_def)
    qed
  qed
  have above: "\<forall>e \<in> set (ft_Dirs ?t1) - set ds. \<forall>x \<in> set ds. x < e"
    using Cons.prems(4) sorted(2) dirs by (auto split: if_splits)
  have "[] \<notin> set (ft_Dirs ?t1)" using Cons.prems(3) dirs by auto
  from Cons.IH [OF sorted(1) sub this above left] show ?case by simp
qed

text \<open>
  \<^bold>\<open>C23\<close>: the sweep deletes exactly the Go files with the generator's header that this run did not write,
  and unless it is a full sweep only those in a directory the run wrote a file to; everything else stays
  as it is. The directories it removes are empty, while every directory that stays still has something
  in it.
\<close>

theorem pruneStale_safe:
  fixes t :: file_tree and full and written :: "string gomap"
  assumes "distinct (ft_Dirs t)" "[] \<notin> set (ft_Dirs t)"
  defines "t' \<equiv> pruneStale full written t"
  shows "set (ft_Files t') \<subseteq> set (ft_Files t) \<and>
    (\<forall>(path, content) \<in> set (ft_Files t). (path, content) \<notin> set (ft_Files t') \<longleftrightarrow>
       has_suffix path ''.go'' \<and> has_prefix content generatedHeader \<and> path \<notin> fst ` set written \<and>
       (full \<or> (\<exists>(path', content') \<in> set written. path_dir path' = path_dir path))) \<and>
    (\<forall>d \<in> set (ft_Dirs t). d \<in> set (ft_Dirs t') \<longleftrightarrow> \<not> empty_dir t' d)"
proof -
  let ?t0 = "t\<lparr>ft_Files := filter (\<lambda>e. \<not> stale_file full written e) (ft_Files t)\<rparr>"
  let ?ds = "rev (sort (ft_Dirs t))"
  have t': "t' = fold remove_empty ?ds ?t0" by (simp add: t'_def pruneStale_def)
  note f = sweep_frame [of ?ds ?t0, folded t']
  have files: "ft_Files t' = filter (\<lambda>e. \<not> stale_file full written e) (ft_Files t)" using f by simp
  have "sorted_wrt (>) ?ds"
    using assms(1) by (simp add: sorted_wrt_rev) (metis distinct_sort sorted_sort strict_sorted_iff)
  then have "\<forall>d \<in> set (ft_Dirs t'). \<not> empty_dir t' d"
    unfolding t' by (rule sweep_nonempty) (use assms(2) in simp_all)
  then have dirs: "\<forall>d \<in> set (ft_Dirs t). d \<in> set (ft_Dirs t') \<longleftrightarrow> \<not> empty_dir t' d" using f by auto
  have "stale_file full written (path, content) \<longleftrightarrow>
      has_suffix path ''.go'' \<and> has_prefix content generatedHeader \<and> path \<notin> fst ` set written \<and>
      (full \<or> (\<exists>(path', content') \<in> set written. path_dir path' = path_dir path))" for path content
  proof -
    have "path_dir path \<in> path_dir ` fst ` set written \<longleftrightarrow> (\<exists>(path', content') \<in> set written. path_dir path' = path_dir path)"
      unfolding image_image image_iff split_def by (metis (no_types))
    then show ?thesis unfolding stale_file_def by blast
  qed
  then have "\<forall>(path, content) \<in> set (ft_Files t). (path, content) \<notin> set (ft_Files t') \<longleftrightarrow>
      has_suffix path ''.go'' \<and> has_prefix content generatedHeader \<and> path \<notin> fst ` set written \<and>
      (full \<or> (\<exists>(path', content') \<in> set written. path_dir path' = path_dir path))"
    by (auto simp: files)
  with dirs show ?thesis by (simp add: files)
qed

definition sample_tree :: file_tree where
  "sample_tree = \<lparr>ft_Files = [(''out/a/old.go'', generatedHeader @ ''x''), (''out/b/hand.go'', ''package b'')],
     ft_Dirs = [''out'', ''out/a'', ''out/b'']\<rparr>"

text \<open>A filtered run that wrote only in \<open>out/b\<close> leaves the stale file of \<open>out/a\<close>; a full one deletes it.\<close>

lemma pruneStale_safe_witness:
  "(''out/a/old.go'', generatedHeader @ ''x'') \<in> set (ft_Files (pruneStale False [(''out/b/new.go'', [])] sample_tree)) \<and>
   (''out/a/old.go'', generatedHeader @ ''x'') \<notin> set (ft_Files (pruneStale True [(''out/b/new.go'', [])] sample_tree)) \<and>
   \<not> empty_dir (pruneStale True [(''out/b/new.go'', [])] sample_tree) ''out/b'' \<and>
   empty_dir (pruneStale True [(''out/b/new.go'', [])] sample_tree) ''out/a''"
proof -
  let ?w = "[(''out/b/new.go'', [])]" and ?old = "(''out/a/old.go'', generatedHeader @ ''x'')"
  let ?t' = "pruneStale True ?w sample_tree"
  have d: "distinct (ft_Dirs sample_tree)" "[] \<notin> set (ft_Dirs sample_tree)" by code_simp+
  note full = pruneStale_safe [OF d, of True ?w] and part = pruneStale_safe [OF d, of False ?w]
  have old: "?old \<in> set (ft_Files sample_tree)" by code_simp
  have facts: "has_suffix ''out/a/old.go'' ''.go''" "has_prefix (generatedHeader @ ''x'') generatedHeader"
    "''out/a/old.go'' \<notin> fst ` set ?w" "path_dir ''out/b/new.go'' \<noteq> path_dir ''out/a/old.go''" by code_simp+
  have kept: "?old \<in> set (ft_Files (pruneStale False ?w sample_tree))"
    using part old facts(4) by (elim conjE) (drule (1) bspec, simp)
  have gone: "?old \<notin> set (ft_Files ?t')" using full old facts(1-3) by (elim conjE) (drule (1) bspec, simp)
  have left: "d \<in> set (ft_Dirs ?t') \<longleftrightarrow> \<not> empty_dir ?t' d" if "d \<in> set (ft_Dirs sample_tree)" for d
    using full that by blast
  have dirs: "ft_Dirs ?t' = [''out'', ''out/b'']" by code_simp
  have "''out/a'' \<in> set (ft_Dirs sample_tree)" "''out/b'' \<in> set (ft_Dirs sample_tree)" by code_simp+
  from this [THEN left] dirs kept gone show ?thesis by simp
qed

section \<open>Comments\<close>

text \<open>
  The comment cut does not know string literals: a use behind a URL on the same line is not seen, so
  its import would be pruned.
\<close>

lemma stripComments_literal:
  "stripComments (''x = '' @ quoted ''http://a'' @ '' + foundation.B'') = ''x = '' @ CHR 0x22 # ''http:''"
  by code_simp

end
