(* ===== verification/Emission.thy ===== *)
theory Emission
  imports Interfaces Files
begin

text \<open>
  The run of the generator (\<open>generator.go\<close>): the pre-pass that finds the types it will not emit, the files
  of a namespace and the worklist over the namespaces.

  The renderers, from a model to its text or the error of a template, are an argument of the run, which
  \<open>template_renderers\<close> of \<open>TemplateFacts\<close> supplies; \<open>go/format\<close> is one of them and a parameter.
  The outer \<open>None\<close> is a resolution that does not return, a left value the error \<open>EmitAll\<close> returns.
\<close>

record renderers =
  rd_Typedef :: "typedef_model \<Rightarrow> string + string"
  rd_Enum :: "enum_model \<Rightarrow> string + string"
  rd_Struct :: "struct_model \<Rightarrow> string + string"
  rd_Delegate :: "delegate_model \<Rightarrow> string + string"
  rd_Interface :: "interface_model \<Rightarrow> string + string"
  rd_Constant :: "constant_model \<Rightarrow> string + string"
  rd_Function :: "function_model \<Rightarrow> string + string"
  rd_DLL :: "dll_model list \<Rightarrow> string + string"
  rd_Procs :: "proc_model list \<Rightarrow> string + string"
  rd_format :: "string \<Rightarrow> string + string"

section \<open>Skipped types\<close>

definition note_skipped :: "string \<Rightarrow> string list \<Rightarrow> string \<Rightarrow> bool \<times> string list \<Rightarrow> bool \<times> string list" where
  "note_skipped ns emitted name s =
     (let key = qual_key ns (Export name) in
      if Export name \<notin> set emitted \<and> key \<notin> set (snd s) then (True, key # snd s) else s)"

definition skip_namespace :: "namespace_meta \<Rightarrow> generator \<Rightarrow> (bool \<times> generator) option" where
  "skip_namespace meta g = do {
     (models, g) \<leftarrow> buildStructModels meta (with_imports [] (prepareNamespaceClaims meta g));
     (archModels, g) \<leftarrow> buildArchStructModels meta g;
     let emitted = map stm_TypeName models @ map stm_TypeName (concat (map snd archModels));
     let (grew, skipped) = fold (note_skipped (ns_Namespace meta) emitted) (map fst (entries (ns_Structs meta)))
           (False, mp_SkippedTypes (g_mapper g));
     Some (grew, g\<lparr>g_mapper := (g_mapper g)\<lparr>mp_SkippedTypes := skipped\<rparr>\<rparr>)
   }"

fun skip_round :: "namespace_meta list \<Rightarrow> generator \<Rightarrow> (bool \<times> generator) option" where
  "skip_round [] g = Some (False, g)"
| "skip_round (meta # metas) g = do {
     (grew, g) \<leftarrow> skip_namespace meta g;
     (more, g) \<leftarrow> skip_round metas g;
     Some (grew \<or> more, g)
   }"

text \<open>At most \<open>n\<close> rounds; the code runs ten.\<close>

fun skip_rounds :: "nat \<Rightarrow> generator \<Rightarrow> generator option" where
  "skip_rounds 0 g = Some g"
| "skip_rounds (Suc n) g = do {
     (grew, g) \<leftarrow> skip_round (reg_Namespaces (g_registry g)) g;
     if grew then skip_rounds n g else Some g
   }"

text \<open>The diagnostics of the pre-pass are cut off again; what it recorded as referenced stays.\<close>

definition computeSkippedTypes :: "generator \<Rightarrow> generator option" where
  "computeSkippedTypes g = do {
     g' \<leftarrow> skip_rounds 10 (g\<lparr>g_mapper := (g_mapper g)\<lparr>mp_SkippedTypes := []\<rparr>\<rparr>);
     Some (g'\<lparr>g_Diagnostics := take (length (g_Diagnostics g)) (g_Diagnostics g'),
        g_resolution := (g_resolution g')\<lparr>rn_Diagnostics :=
          take (length (rn_Diagnostics (g_resolution g))) (rn_Diagnostics (g_resolution g'))\<rparr>\<rparr>)
   }"

section \<open>The files of a namespace\<close>

text \<open>\<open>renderInto\<close> over the models: the texts in order, or the first error.\<close>

fun render_all :: "('m \<Rightarrow> string + string) \<Rightarrow> 'm list \<Rightarrow> string + string" where
  "render_all f [] = Inr []"
| "render_all f (m # ms) =
     (case f m of Inl e \<Rightarrow> Inl e | Inr t \<Rightarrow> map_sum id ((@) t) (render_all f ms))"

type_synonym emit_step = "generator \<Rightarrow> (string + generator) option"

fun emit_steps :: "emit_step list \<Rightarrow> emit_step" where
  "emit_steps [] g = Some (Inr g)"
| "emit_steps (s # ss) g =
     (case s g of None \<Rightarrow> None | Some (Inl e) \<Rightarrow> Some (Inl e) | Some (Inr g) \<Rightarrow> emit_steps ss g)"

definition package_dir :: "namespace_meta \<Rightarrow> generator \<Rightarrow> string" where
  "package_dir meta g = join_path (g_outDir g) (PackagePath (ns_Namespace meta))"

text \<open>One file: the body is built with its own import set.\<close>

definition emit_tagged :: "renderers \<Rightarrow> namespace_meta \<Rightarrow> string \<Rightarrow> string \<Rightarrow> string + string \<Rightarrow> emit_step" where
  "emit_tagged rd meta ending tag body g =
     (let name = PackageName (ns_Namespace meta) in
      Some (case body of
          Inl e \<Rightarrow> Inl e
        | Inr b \<Rightarrow> writeFileTagged (rd_format rd) (package_dir meta g) (name @ ending) name (imports_of g) b tag g))"

definition emit_file :: "renderers \<Rightarrow> namespace_meta \<Rightarrow> string \<Rightarrow> string gomap \<Rightarrow>
    (generator \<Rightarrow> ((string + string) \<times> generator) option) \<Rightarrow> emit_step" where
  "emit_file rd meta ending imports build g = do {
     (body, g) \<leftarrow> build (with_imports imports g);
     emit_tagged rd meta ending GeneratedBuildTag body g
   }"

definition typedefs_step :: "renderers \<Rightarrow> namespace_meta \<Rightarrow> emit_step" where
  "typedefs_step rd meta = emit_file rd meta ''_typedefs.go'' [] (\<lambda>g.
     map_option (\<lambda>(ms, g). (render_all (rd_Typedef rd) ms, g)) (buildTypedefModels meta g))"

definition enums_step :: "renderers \<Rightarrow> namespace_meta \<Rightarrow> emit_step" where
  "enums_step rd meta = emit_file rd meta ''_enums.go'' [(''fmt'', ''fmt''), (''strings'', ''strings'')] (\<lambda>g.
     (case buildEnumModels meta g of (ms, g) \<Rightarrow> Some (render_all (rd_Enum rd) ms, g)))"

definition top_level_count :: "namespace_meta \<Rightarrow> struct_model list \<Rightarrow> nat" where
  "top_level_count meta ms = length (filter (\<lambda>m. isTopLevelStruct meta (stm_TypeName m)) ms)"

definition structs_step :: "renderers \<Rightarrow> namespace_meta \<Rightarrow> emit_step" where
  "structs_step rd meta = emit_file rd meta ''_structs.go'' [] (\<lambda>g. do {
     (ms, g) \<leftarrow> buildStructModels meta g;
     Some (render_all (rd_Struct rd) ms,
       coverageOf (ns_Namespace meta) (\<lambda>c. c\<lparr>cov_Structs := length (entries (ns_Structs meta)),
         cov_StructsEmitted := top_level_count meta ms\<rparr>) g)
   })"

definition models_on :: "string \<Rightarrow> (string \<times> struct_model list) list \<Rightarrow> struct_model list" where
  "models_on arch models = (case map_of models arch of None \<Rightarrow> [] | Some ms \<Rightarrow> ms)"

definition arch_file :: "renderers \<Rightarrow> namespace_meta \<Rightarrow> (string \<times> struct_model list) list \<Rightarrow> string gomap \<Rightarrow> string \<Rightarrow> emit_step" where
  "arch_file rd meta models imports arch g =
     (let ms = models_on arch models;
          g = (if arch = hd emitArches
               then coverageOf (ns_Namespace meta) (\<lambda>c. c\<lparr>cov_StructsEmitted := cov_StructsEmitted c + top_level_count meta ms\<rparr>) g
               else g)
      in emit_tagged rd meta (''_structs_'' @ arch @ ''.go'') (''windows && '' @ arch) (render_all (rd_Struct rd) ms)
           (with_imports imports g))"

definition arch_step_files :: "renderers \<Rightarrow> namespace_meta \<Rightarrow> emit_step" where
  "arch_step_files rd meta g = do {
     (models, g) \<leftarrow> buildArchStructModels meta (with_imports [] g);
     emit_steps (map (arch_file rd meta models (imports_of g)) emitArches) g
   }"

definition delegates_step :: "renderers \<Rightarrow> namespace_meta \<Rightarrow> emit_step" where
  "delegates_step rd meta = emit_file rd meta ''_delegates.go'' [] (\<lambda>g.
     map_option (\<lambda>(ms, g). (render_all (rd_Delegate rd) ms, g)) (buildDelegateModels meta g))"

text \<open>The root's methods belong to the runtime and count as emitted.\<close>

definition methods_emitted :: "namespace_meta \<Rightarrow> interface_model \<Rightarrow> nat" where
  "methods_emitted meta m =
     (if ifm_AliasOf m \<noteq> [] then (case map_of (ns_Interfaces meta) (ifm_TypeName m) of
        None \<Rightarrow> 0 | Some c \<Rightarrow> length (ci_Methods c)) else 0) + length (ifm_Methods m)"

definition interfaces_step :: "renderers \<Rightarrow> namespace_meta \<Rightarrow> emit_step" where
  "interfaces_step rd meta = emit_file rd meta ''_interfaces.go'' [] (\<lambda>g. do {
     (ms, g) \<leftarrow> buildInterfaceModels meta g;
     Some (render_all (rd_Interface rd) ms,
       coverageOf (ns_Namespace meta) (\<lambda>c. c\<lparr>
         cov_Methods := sum_list (map (length \<circ> ci_Methods \<circ> snd) (entries (ns_Interfaces meta))),
         cov_MethodsEmitted := sum_list (map (methods_emitted meta) ms)\<rparr>) g)
   })"

definition constants_step :: "renderers \<Rightarrow> namespace_meta \<Rightarrow> emit_step" where
  "constants_step rd meta = emit_file rd meta ''_constants.go'' [] (\<lambda>g.
     map_option (\<lambda>(ms, g). (render_all (rd_Constant rd) ms, g)) (buildConstantModels meta g))"

definition opt_block :: "'m list \<Rightarrow> ('m list \<Rightarrow> string + string) \<Rightarrow> string + string" where
  "opt_block ms f = (if ms = [] then Inr [] else f ms)"

definition append_blocks :: "(string + string) list \<Rightarrow> string + string" where
  "append_blocks blocks = render_all id blocks"

definition functions_step :: "renderers \<Rightarrow> namespace_meta \<Rightarrow> emit_step" where
  "functions_step rd meta = emit_file rd meta ''_functions.go'' [] (\<lambda>g. do {
     ((functions, dlls, procs), g) \<leftarrow> buildFunctionModels meta g;
     Some (append_blocks [opt_block dlls (rd_DLL rd), opt_block procs (rd_Procs rd), render_all (rd_Function rd) functions],
       coverageOf (ns_Namespace meta) (\<lambda>c. c\<lparr>cov_Functions := functionCandidates meta,
         cov_FunctionsEmitted := length functions\<rparr>) g)
   })"

text \<open>\<open>strings.Count\<close> for a non-empty pattern.\<close>

function count_str :: "string \<Rightarrow> string \<Rightarrow> nat" where
  "count_str s p =
     (if p = [] then 0
      else (case index_of s p of None \<Rightarrow> 0 | Some n \<Rightarrow> Suc (count_str (drop (n + length p) s) p)))"
  by pat_completeness auto
termination
proof (relation "measure (\<lambda>(s, p). length s)", simp)
  fix s p :: string and n
  assume p: "p \<noteq> []" and i: "index_of s p = Some n"
  have "s \<noteq> []" using p i by (cases s) auto
  with p show "((drop (n + length p) s, p), s, p) \<in> measure (\<lambda>(s, p). length s)" by simp
qed

declare count_str.simps [simp del]

definition handles_step :: "renderers \<Rightarrow> namespace_meta \<Rightarrow> emit_step" where
  "handles_step rd meta = emit_file rd meta ''_handles.go'' [] (\<lambda>g. do {
     (body, g) \<leftarrow> buildHandleClosers meta g;
     Some (Inr body,
       coverageOf (ns_Namespace meta) (\<lambda>c. c\<lparr>
         cov_Closers := length (filter (\<lambda>(n, td). td_FreeFunc td \<noteq> []) (entries (ns_Typedefs meta))),
         cov_ClosersEmitted := count_str body (newline # ''func Close'')\<rparr>) g)
   })"

definition doc_step :: "namespace_meta \<Rightarrow> emit_step" where
  "doc_step meta g =
     (let name = PackageName (ns_Namespace meta) in
      Some (Inr (write_path (join_path (package_dir meta g) ''doc.go'')
        (generatedHeader @ [newline, newline] @ ''//go:build '' @ GeneratedBuildTag @ [newline, newline] @ ''// Package '' @ name @
         '' binds the Windows.Win32.'' @ ns_Namespace meta @ '' API surface.'' @ [newline] @ ''package '' @ name @ [newline]) g)))"

definition emitNamespace :: "renderers \<Rightarrow> namespace_meta \<Rightarrow> emit_step" where
  "emitNamespace rd meta g =
     emit_steps [typedefs_step rd meta, enums_step rd meta, structs_step rd meta, arch_step_files rd meta, delegates_step rd meta,
       interfaces_step rd meta, constants_step rd meta, functions_step rd meta, handles_step rd meta, doc_step meta]
       (prepareNamespaceClaims meta g)"

section \<open>The run\<close>

definition discovered :: "string list \<Rightarrow> generator \<Rightarrow> string list" where
  "discovered emitted g = sort (filter (\<lambda>r. r \<notin> set emitted \<and> \<not> IsExternal r) (remdups (rn_Referenced (g_resolution g))))"

text \<open>The worklist: a namespace is emitted once, and what it referenced is appended.\<close>

function emit_loop :: "renderers \<Rightarrow> namespace_meta gomap \<Rightarrow> string list \<Rightarrow> string list \<Rightarrow> generator \<Rightarrow>
    (string + string list \<times> generator) option" where
  "emit_loop rd byNamespace [] emitted g = Some (Inr (emitted, g))"
| "emit_loop rd byNamespace (ns # pending) emitted g =
     (if ns \<in> set emitted then emit_loop rd byNamespace pending emitted g
      else (case map_of byNamespace ns of
          None \<Rightarrow> Some (Inl (''referenced namespace '' @ ns @ '' not in loaded metadata (re-run ingest without a filter)''))
        | Some meta \<Rightarrow> (case emitNamespace rd meta g of
            None \<Rightarrow> None
          | Some (Inl e) \<Rightarrow> Some (Inl (''emitting '' @ ns @ '': '' @ e))
          | Some (Inr g) \<Rightarrow> emit_loop rd byNamespace (pending @ discovered (ns # emitted) g) (ns # emitted) g)))"
  by pat_completeness auto
termination
proof (relation "inv_image (less_than <*lex*> less_than)
    (\<lambda>(rd, byNamespace, pending, emitted, g). (card (fst ` set byNamespace - set emitted), length pending))", goal_cases)
  case (3 rd byNamespace ns pending emitted g meta r g')
  then have "ns \<in> fst ` set byNamespace - set emitted" by (auto dest: map_of_SomeD intro: image_eqI [of _ _ "(ns, meta)"])
  then have "card (fst ` set byNamespace - set (ns # emitted)) < card (fst ` set byNamespace - set emitted)"
    by (intro psubset_card_mono) auto
  then show ?case by simp
qed auto

definition reset_run :: "generator \<Rightarrow> generator" where
  "reset_run g = g\<lparr>g_abiRecords := [], g_coverage := [], g_writtenFiles := []\<rparr>"

definition run_roots :: "string list \<Rightarrow> generator \<Rightarrow> string list" where
  "run_roots filters g =
     (if filters \<noteq> [] then sort filters
      else filter (\<lambda>ns. \<not> IsExternal ns) (map ns_Namespace (reg_Namespaces (g_registry g))))"

text \<open>Writing a file creates its parent directories; those above the output directory are not swept.\<close>

definition parent_dirs :: "string \<Rightarrow> string \<Rightarrow> string list" where
  "parent_dirs root path =
     (let parts = split_on (CHR ''/'') path
      in filter (\<lambda>d. d = root \<or> has_prefix d (root @ ''/'')) (map (\<lambda>k. join_with ''/'' (take k parts)) [1..<length parts]))"

definition write_tree :: "string \<Rightarrow> string gomap \<Rightarrow> file_tree \<Rightarrow> file_tree" where
  "write_tree root written t =
     fold (\<lambda>(path, content) t. t\<lparr>ft_Files := AList.update path content (ft_Files t),
       ft_Dirs := List.union (parent_dirs root path) (ft_Dirs t)\<rparr>) written t"

definition EmitAll :: "renderers \<Rightarrow> string list \<Rightarrow> file_tree \<Rightarrow> generator \<Rightarrow> (string + nat \<times> generator \<times> file_tree) option" where
  "EmitAll rd filters t g = do {
     let byNamespace = reg_ByNamespace (g_registry g);
     let pending = run_roots filters g;
     g \<leftarrow> computeSkippedTypes (g\<lparr>g_archStructs := computeArchStructs (g_registry g)\<rparr>);
     result \<leftarrow> emit_loop rd byNamespace pending [] (reset_run g);
     Some (case result of
         Inl e \<Rightarrow> Inl e
       | Inr (emitted, g) \<Rightarrow>
           (let t = pruneStale (filters = []) (g_writtenFiles g) (write_tree (g_outDir g) (g_writtenFiles g) t);
                g = (if filters = [] then checkInformationalEntries g else g);
                g = g\<lparr>g_Diagnostics := g_Diagnostics g @ rn_Diagnostics (g_resolution g)\<rparr>
            in Inr (length emitted, g, t)))
   }"

end
