(* ===== verification/RunOutput.thy ===== *)
theory RunOutput
  imports Emission
begin

text \<open>
  What a builder leaves alone: the output directory, the files written so far and the coverage counters.
  The contract is the locale \<open>output_frame\<close>, for any property of a state that depends on no more than
  these; it is interpreted on the equality of these parts. Only the steps of \<open>emitNamespace\<close> write files
  and count; the second half says what each of them adds.
\<close>

section \<open>The contract of the builders\<close>

definition same_output :: "generator \<Rightarrow> generator \<Rightarrow> bool" where
  "same_output g g' \<longleftrightarrow> g_outDir g' = g_outDir g \<and> g_writtenFiles g' = g_writtenFiles g \<and> g_coverage g' = g_coverage g"

lemma same_output_ops:
  "same_output g (diag d g)" "same_output g (set_import a p g)" "same_output g (with_imports imps g)"
  "same_output g (snd (claimName n g))" "same_output g (snd (claimTypeName n g))" "same_output g (snd (claim_struct b n g))"
  "same_output g (unclaimName n g)" "same_output g (prepareNamespaceClaims meta g)" "same_output g (mark_informational k g)"
  "same_output g (g\<lparr>g_claimedNames := cs, g_typeNames := ts, g_layoutArch := arch\<rparr>)"
  "same_output g (g\<lparr>g_abiRecords := rs\<rparr>)" "same_output g (g\<lparr>g_resolution := rn\<rparr>)" "same_output g (g\<lparr>g_mapper := m\<rparr>)"
  by (simp_all add: same_output_def diag_def set_import_def with_imports_def claimName_def claimTypeName_def claim_struct_def
      unclaimName_def prepareNamespaceClaims_def mark_informational_def Let_def)

locale output_frame =
  fixes inv :: "generator \<Rightarrow> bool"
  assumes frame: "same_output g g' \<Longrightarrow> inv g' = inv g"
begin

lemma inv_ops [simp]:
  "inv (diag d g) = inv g" "inv (set_import a p g) = inv g" "inv (with_imports imps g) = inv g"
  "inv (snd (claimName n g)) = inv g" "inv (snd (claimTypeName n g)) = inv g" "inv (snd (claim_struct b n g)) = inv g"
  "inv (unclaimName n g) = inv g" "inv (prepareNamespaceClaims meta g) = inv g" "inv (mark_informational k g) = inv g"
  "inv (g\<lparr>g_claimedNames := cs, g_typeNames := ts, g_layoutArch := arch\<rparr>) = inv g"
  "inv (g\<lparr>g_abiRecords := rs\<rparr>) = inv g" "inv (g\<lparr>g_resolution := rn\<rparr>) = inv g" "inv (g\<lparr>g_mapper := m\<rparr>) = inv g"
  by (rule frame, rule same_output_ops)+

lemma inv_claims:
  "claimName n g = (b, g') \<Longrightarrow> inv g' = inv g" "claimTypeName n g = (b, g') \<Longrightarrow> inv g' = inv g"
  "claim_struct nested n g = (b, g') \<Longrightarrow> inv g' = inv g"
  using inv_ops(4-6) by (metis snd_conv)+

text \<open>The judgement: the state of a result, where there is one, keeps the property.\<close>

definition quiet :: "('a \<times> generator) option \<Rightarrow> bool" where
  "quiet r \<longleftrightarrow> (\<forall>x g. r = Some (x, g) \<longrightarrow> inv g)"

lemma quietD: "quiet r \<Longrightarrow> r = Some (x, g) \<Longrightarrow> inv g"
  by (simp add: quiet_def)

lemma quiet_simps [simp]: "quiet None" "quiet (Some p) = inv (snd p)"
  by (simp add: quiet_def) (cases p, simp add: quiet_def)

lemma quiet_bind: "quiet r \<Longrightarrow> (\<And>x g. r = Some (x, g) \<Longrightarrow> inv g \<Longrightarrow> quiet (f (x, g))) \<Longrightarrow> quiet (Option.bind r f)"
  by (auto simp: quiet_def bind_eq_Some_conv)

lemma plain_bind: "(\<And>x. r = Some x \<Longrightarrow> quiet (f x)) \<Longrightarrow> quiet (Option.bind r f)"
  by (cases r) simp_all

lemma quiet_map: "quiet r \<Longrightarrow> (\<And>x g. inv g \<Longrightarrow> inv (snd (f (x, g)))) \<Longrightarrow> quiet (map_option f r)"
  by (cases r) auto

lemma quiet_resolve: "inv g \<Longrightarrow> quiet (resolve_type ref ctx g)"
  by (auto simp: resolve_type_def quiet_def)

lemma quiet_resolve_all: "inv g \<Longrightarrow> quiet (resolve_all (\<lambda>p. resolve_type (f p) ctx) ps g)"
proof (induction ps arbitrary: g)
  case (Cons p ps)
  have step: "quiet (resolve_type (f p) ctx g)" using Cons.prems by (rule quiet_resolve)
  have "inv g2" if "resolve_all (\<lambda>p. resolve_type (f p) ctx) (p # ps) g = Some (rs, g2)" for rs g2
  proof -
    from that obtain r g1 rs' where "resolve_type (f p) ctx g = Some (r, g1)"
      "resolve_all (\<lambda>p. resolve_type (f p) ctx) ps g1 = Some (rs', g2)" by (auto split: option.split_asm)
    with Cons.IH quietD [OF step] show ?thesis by (blast dest: quietD)
  qed
  then show ?case by (simp add: quiet_def)
qed simp

section \<open>Types\<close>

lemma quiet_typedefBacking: "inv g \<Longrightarrow> quiet (typedefBacking td ns g)"
  unfolding typedefBacking_def by (auto intro!: quiet_bind quiet_resolve)

lemma quiet_typedef_models: "inv g \<Longrightarrow> quiet (typedef_models meta ts g)"
proof (induction meta ts g rule: typedef_models.induct)
  case (2 meta name td ts g)
  obtain b g1 where c: "claimTypeName (Export name) g = (b, g1)" by fastforce
  have "inv g1" using inv_claims(2) [OF c] 2 by simp
  then show ?case using 2 c by (cases b) (auto simp: Let_def intro!: quiet_bind quiet_typedefBacking)
qed simp

lemma quiet_enum_members: "inv g \<Longrightarrow> enum_members enum base ms seen g = (xs, ys, g') \<Longrightarrow> inv g'"
proof (induction enum base ms seen g arbitrary: xs ys g' rule: enum_members.induct)
  case (2 enum base m ms seen g)
  obtain b g1 where c: "claimName (Export (em_Name m)) g = (b, g1)" by fastforce
  have "inv g1" using inv_claims(1) [OF c] 2 by simp
  with 2 c show ?case by (cases b) (auto simp: Let_def split: prod.splits)
qed simp

lemma quiet_enum_models: "inv g \<Longrightarrow> enum_models meta es g = (xs, g') \<Longrightarrow> inv g'"
proof (induction meta es g arbitrary: xs g' rule: enum_models.induct)
  case (2 meta name enum es g)
  obtain b g1 where c: "claimTypeName (Export name) g = (b, g1)" by fastforce
  have "inv g1" using inv_claims(2) [OF c] 2 by simp
  with 2 c show ?case using quiet_enum_members by (cases b) (fastforce simp: Let_def split: prod.splits)+
qed simp

lemma quiet_fieldGoType: "inv g \<Longrightarrow> quiet (fieldGoType meta parent ref nested g)"
  unfolding fieldGoType_def
  by (auto intro!: quiet_bind quiet_resolve plain_bind [where r = "blob_type_of ref g" for g] split: option.split)

lemma quiet_struct_fields: "inv g \<Longrightarrow> quiet (struct_fields meta name fs nested used g)"
proof (induction meta name fs nested used g rule: struct_fields.induct)
  case (2 meta name f fs nested used g)
  then show ?case by (auto simp: Let_def intro!: quiet_bind quiet_fieldGoType split: option.split)
qed simp

lemma quiet_recordABI:
  assumes "inv g" "\<And>g'. inv g' \<Longrightarrow> quiet (f g')"
  shows "quiet (Option.bind (recordABI ns name d fs g) f)"
proof (rule plain_bind)
  fix g' assume "recordABI ns name d fs g = Some g'"
  then have "inv g'" using assms(1) by (auto simp: recordABI_def bind_eq_Some_conv Let_def split: if_split_asm)
  then show "quiet (f g')" by (rule assms(2))
qed

lemma quiet_blob_struct: "inv g \<Longrightarrow> quiet (blob_struct meta name d isUnion g)"
proof -
  assume g: "inv g"
  have "quiet (opaqueBlobFields d name what g)" for what
    unfolding opaqueBlobFields_def using g by (intro plain_bind) (auto split: option.split)
  then show ?thesis unfolding blob_struct_def
    by (auto intro!: quiet_bind quiet_recordABI split: option.split)
qed

lemma quiet_plain_struct_models: "inv g \<Longrightarrow> quiet (plain_struct_models meta name d models nested g)"
  unfolding plain_struct_models_def
  by (auto intro!: quiet_bind quiet_struct_fields quiet_recordABI split: option.split)

lemma quiet_struct_tree:
  "inv g \<Longrightarrow> quiet (buildStructTree meta name d isNested g)"
  "inv g \<Longrightarrow> nested_structs meta name ds g = Some (ms, ns, g') \<Longrightarrow> inv g'"
proof (induction meta name d isNested g and meta name ds g arbitrary: and ms ns g' rule: buildStructTree_nested_structs.induct)
  case (1 meta name d isNested g)
  obtain b g1 where c: "claim_struct isNested name g = (b, g1)" by fastforce
  have g1: "inv g1" using inv_claims(3) [OF c] "1.prems" by simp
  show ?case
  proof (cases "b \<and> \<not> st_IsUnion d \<and> needs_packed_blob d g1 = Some False")
    case False
    with c g1 show ?thesis
      by (auto simp: buildStructTree.simps [of meta name d isNested g] intro: quiet_blob_struct split: option.split bool.split)
  next
    case True
    have "inv g2" if "nested_structs meta name (sorted_entries (st_NestedTypes d)) g1 = Some (ms, ns, g2)" for ms ns g2
      using "1.IH" [OF c [symmetric] _ _ _ _ g1 that] True by auto
    with c True show ?thesis
      by (auto simp: buildStructTree.simps [of meta name d isNested g] intro!: quiet_plain_struct_models split: option.split)
  qed
next
  case (2 meta name g)
  then show ?case by simp
next
  case (3 meta name nested d ds g)
  from "3.prems"(2) obtain sub g1 ms' ns' where
    t: "buildStructTree meta (nestedTypeName name nested) d True g = Some (sub, g1)"
    and r: "nested_structs meta name ds g1 = Some (ms', ns', g')"
    by (auto simp: nested_structs.simps(2) split: option.split_asm)
  have "inv g1" using "3.IH"(1) [OF "3.prems"(1)] t by (rule quietD)
  from "3.IH"(2) [OF t refl this r] show ?case .
qed

lemma quiet_struct_models: "inv g \<Longrightarrow> quiet (struct_models meta ds g)"
proof (induction meta ds g rule: struct_models.induct)
  case (2 meta name d ds g)
  obtain c g1 where c: "chooseArchVariant name d g = (c, g1)" by fastforce
  then have "inv g1" using 2 by (auto simp: chooseArchVariant_def split: option.splits if_splits)
  with 2 c show ?case by (auto simp: Let_def intro!: quiet_bind quiet_struct_tree(1) split: option.split)
qed simp

lemma quiet_arch_models: "inv g \<Longrightarrow> quiet (arch_models meta arch ds g)"
  by (induction meta arch ds g rule: arch_models.induct)
    (auto intro!: quiet_bind quiet_struct_tree(1) split: option.split)

lemma quiet_arch_passes:
  "inv g \<Longrightarrow> arch_passes meta ds bc bt arches unionClaims consumed g = Some (ms, uc, con, g') \<Longrightarrow> inv g'"
proof (induction arches arbitrary: unionClaims consumed g ms)
  case (Cons arch arches)
  have "quiet (arch_models meta arch ds (g\<lparr>g_claimedNames := bc, g_typeNames := bt, g_layoutArch := arch\<rparr>))"
    by (rule quiet_arch_models) (simp add: Cons.prems(1))
  with Cons show ?case by (auto simp: bind_eq_Some_conv dest: quietD)
qed simp

lemma quiet_buildArchStructModels: "inv g \<Longrightarrow> quiet (buildArchStructModels meta g)"
  using quiet_arch_passes by (auto simp: buildArchStructModels_def Let_def quiet_def bind_eq_Some_conv split: if_split_asm)

lemma quiet_delegate_models: "inv g \<Longrightarrow> quiet (delegate_models meta ds g)"
proof (induction meta ds g rule: delegate_models.induct)
  case (2 meta name d ds g)
  obtain b g1 where c: "claimTypeName (Export name) g = (b, g1)" by fastforce
  have g1: "inv g1" using inv_claims(2) [OF c] 2 by simp
  have "quiet (delegateSignature meta d g)" if "inv g" for g
    unfolding delegateSignature_def using that by (auto intro!: quiet_bind quiet_resolve quiet_resolve_all)
  with g1 2 c show ?case by (cases b) (auto simp: Let_def intro!: quiet_bind)
qed simp

section \<open>Constants and functions\<close>

lemma quiet_array_literal: "inv g \<Longrightarrow> quiet (array_literal ref grp ns g)"
  unfolding array_literal_def by (auto intro!: quiet_bind quiet_resolve split: option.split)

lemma quiet_literals:
  "inv g \<Longrightarrow> quiet (compositeLiteral ref vs ns g)"
  "inv g \<Longrightarrow> quiet (field_literals fvs ns g)"
  "inv g \<Longrightarrow> quiet (fieldLiteral ref v ns g)"
proof (induction ref vs ns g and fvs ns g and ref v ns g rule: compositeLiteral_field_literals_fieldLiteral.induct)
  case (1 ref vs ns g)
  show ?case
  proof (cases "ref_Kind ref = ''Native'' \<and> ref_Name ref = ''Guid''")
    case True
    with "1.prems" show ?thesis by (simp add: compositeLiteral.simps [of ref vs ns g])
  next
    case False
    show ?thesis
    proof (cases "resolve_type ref \<lparr>cx_Namespace = ns, cx_IsReturn = False\<rparr> g")
      case None
      with False "1.prems" show ?thesis by (simp add: compositeLiteral.simps [of ref vs ns g])
    next
      case (Some p)
      obtain r g1 where p: "p = (r, g1)" by fastforce
      have g1: "inv g1" using quietD [OF quiet_resolve [OF "1.prems"]] Some p by blast
      have "quiet (field_literals (zip (st_Fields d) vs) ns g1)"
        if "res_Kind r = KindStruct" "map_of (reg_StructIndex (g_registry g1)) (qual_key (ref_Api ref) (ref_Name ref)) = Some d"
          "\<not> length (st_Fields d) < length vs" for d
        by (rule "1.IH" [OF False Some [unfolded p] refl that g1])
      with False Some p g1 show ?thesis
        by (auto simp: compositeLiteral.simps [of ref vs ns g] quiet_def split: option.split_asm if_split_asm)
    qed
  qed
next
  case (2 ns g)
  then show ?case by simp
next
  case (3 f v rest ns g)
  show ?case
  proof (cases "fieldLiteral (sf_Type f) v ns g")
    case None
    then show ?thesis by (simp add: field_literals.simps(2))
  next
    case (Some p)
    obtain x g1 where p: "p = (x, g1)" by fastforce
    have g1: "inv g1" using quietD [OF "3.IH"(1) [OF "3.prems"]] Some p by blast
    show ?thesis
    proof (cases x)
      case (Inl e)
      with Some p g1 show ?thesis by (simp add: field_literals.simps(2))
    next
      case (Inr y)
      from "3.IH"(2) [OF Some [unfolded p] refl Inr g1] Some p Inr show ?thesis
        by (auto simp: field_literals.simps(2) quiet_def split: option.split_asm)
    qed
  qed
next
  case (4 ref v ns g)
  show ?case
  proof (cases v)
    case (InitNumber n)
    with quiet_resolve [OF "4.prems", of ref "\<lparr>cx_Namespace = ns, cx_IsReturn = False\<rparr>"] show ?thesis
      by (auto simp: fieldLiteral.simps quiet_def split: option.split_asm)
  next
    case (InitGroup grp)
    with 4 quiet_array_literal show ?thesis by (auto simp: fieldLiteral.simps split: sum.split)
  qed
qed

lemma quiet_buildConstant: "inv g \<Longrightarrow> quiet (buildConstant meta c g)"
proof -
  assume g: "inv g"
  have "quiet (buildStructConstant meta c g)"
    using g unfolding buildStructConstant_def
    by (auto intro!: plain_bind [where r = "parseInitializer (cn_Value c)"] quiet_bind quiet_literals(1) split: sum.split)
  moreover have "quiet (number_constant c r g)" if "inv g" for r g
    using that unfolding number_constant_def Let_def by (auto intro!: plain_bind [where r = "constant_base_of (cn_Type c) g"])
  ultimately show ?thesis
    using g unfolding buildConstant_def by (auto intro!: quiet_bind quiet_resolve split: sum.split)
qed

lemma quiet_constant_models: "inv g \<Longrightarrow> quiet (constant_models meta cs g)"
proof (induction meta cs g rule: constant_models.induct)
  case (2 meta c cs g)
  obtain b g1 where c: "claimName (Export (cn_Name c)) g = (b, g1)" by fastforce
  have "inv g1" using inv_claims(1) [OF c] 2 by simp
  then show ?case using 2 c
    by (cases b) (auto simp: Let_def intro!: quiet_bind quiet_buildConstant split: option.split)
qed simp

lemma quiet_shape_params: "inv g \<Longrightarrow> quiet (shape_params elevate skipped plans names ps s g)"
proof (induction elevate skipped plans names ps s g rule: shape_params.induct)
  case (2 elevate skipped plans names i p r rest s g)
  then show ?case by (auto split: option.split)
qed simp

lemma quiet_shape_signature: "inv g \<Longrightarrow> quiet (shape_signature elevate skipped ps resolved ret g)"
  unfolding shape_signature_def by (rule quiet_shape_params)

lemma inv_retype: "inv (snd (retypeComOutParams ps rs g)) = inv g"
  by (simp add: retypeComOutParams_def)

lemma quiet_resolve_signature: "inv g \<Longrightarrow> quiet (resolve_signature ns ps ret g)"
  unfolding resolve_signature_def Let_def
  by (auto simp: split_def inv_retype intro!: quiet_bind quiet_resolve quiet_resolve_all)

lemma inv_informational [simp]:
  "inv (snd (isInformationalFunction ns f g)) = inv g" "inv (snd (isInformationalComMethod ns iface m g)) = inv g"
  by (simp_all add: isInformationalFunction_def isInformationalComMethod_def Let_def)

lemma inv_register_return [simp]: "inv (snd (register_return meta f r expr model g)) = inv g"
  by (auto simp: register_return_def Let_def split_def)

lemma inv_elevated_return [simp]: "inv (snd (elevated_return meta f mode s model g)) = inv g"
  by (cases mode) (auto simp: elevated_return_def Let_def split_def)

lemma quiet_buildReturnShape: "inv g \<Longrightarrow> quiet (buildReturnShape model meta f r g)"
  by (auto simp: buildReturnShape_def Let_def split_def intro!: plain_bind)

lemma inv_claimFunctionName [simp]: "inv (snd (claimFunctionName meta f rawName g)) = inv g"
  by (auto simp: claimFunctionName_def Let_def split_def)

lemma inv_commit_function_imports [simp]: "inv (commit_function_imports imports u g) = inv g"
  by (simp add: commit_function_imports_def Let_def)

lemma inv_finish_function [simp]: "inv (snd (finish_function meta f rawName imports s model spec arg g)) = inv g"
proof -
  obtain n g1 where c: "claimFunctionName meta f rawName g = (n, g1)" by fastforce
  then have "inv g1 = inv g" using inv_claimFunctionName [of meta f rawName g] by simp
  with c show ?thesis by (cases n) (simp_all add: finish_function_def Let_def)
qed

lemma quiet_buildFunction: "inv g \<Longrightarrow> quiet (buildFunction meta f rawName g)"
  unfolding buildFunction_def Let_def
  by (rule quiet_bind [OF quiet_resolve_signature])
    (auto simp: split_def intro!: quiet_bind quiet_shape_signature quiet_buildReturnShape split: option.split)

lemma quiet_buildInlineFunction: "inv g \<Longrightarrow> quiet (buildInlineFunction meta f rawName g)"
  unfolding buildInlineFunction_def Let_def
  by (auto simp: split_def intro!: quiet_bind quiet_resolve plain_bind [where r = "inlineConstantExpr f r g" for r g] split: option.split)

lemma quiet_function_models: "inv g \<Longrightarrow> quiet (function_models meta fs seen g)"
proof (induction fs arbitrary: seen g)
  case (Cons f fs)
  then show ?case by (auto simp: Let_def intro!: quiet_bind quiet_buildFunction quiet_buildInlineFunction)
qed simp

lemma quiet_buildFunctionModels: "inv g \<Longrightarrow> quiet (buildFunctionModels meta g)"
  unfolding buildFunctionModels_def Let_def
  by (rule quiet_bind [OF quiet_function_models]) (simp_all add: split_def)

section \<open>Interfaces and closers\<close>

lemma inv_com_return [simp]: "inv (snd (com_return meta iface m r s model g)) = inv g"
  by (auto simp: com_return_def Let_def split_def)

lemma inv_finish_com_method [simp]: "inv (snd (finish_com_method iface m slot imports x g)) = inv g"
  by (cases x) (auto simp: finish_com_method_def Let_def)

lemma quiet_buildComMethod: "inv g \<Longrightarrow> quiet (buildComMethod meta iface m slot g)"
  unfolding buildComMethod_def Let_def
  by (rule quiet_bind [OF quiet_resolve_signature])
    (auto simp: split_def intro!: quiet_bind quiet_shape_signature plain_bind [where r = "layout_of_ref ref g" for ref g]
      split: option.split)

lemma quiet_com_methods: "inv g \<Longrightarrow> quiet (com_methods meta name ms slot used g)"
proof (induction ms arbitrary: slot used g)
  case (Cons m ms)
  then show ?case by (auto simp: Let_def intro!: quiet_bind quiet_buildComMethod split: option.split)
qed simp

lemma inv_interface_iid [simp]: "inv (snd (interface_iid name goName c model g)) = inv g"
  by (auto simp: interface_iid_def Let_def split_def split: sum.split)

lemma quiet_buildInterface: "inv g \<Longrightarrow> quiet (buildInterface meta name goName c g)"
proof -
  assume g: "inv g"
  have "quiet (interface_base meta name c model g)" if "inv g" for model g
    using that unfolding interface_base_def Let_def by (auto intro!: quiet_bind quiet_resolve)
  with g show ?thesis unfolding buildInterface_def Let_def
    by (auto simp: split_def intro!: quiet_bind quiet_com_methods split: bool.split)
qed

lemma quiet_interface_models: "inv g \<Longrightarrow> quiet (interface_models meta cs g)"
proof (induction meta cs g rule: interface_models.induct)
  case (2 meta name c cs g)
  obtain b g1 where claim: "claimTypeName (Export name) g = (b, g1)" by fastforce
  have "inv g1" using inv_claims(2) [OF claim] 2 by simp
  then show ?case using 2 claim by (cases b) (auto simp: Let_def intro!: quiet_bind quiet_buildInterface)
qed simp

lemma inv_closer [simp]:
  "inv (snd (closer_callee meta owner free g)) = inv g" "inv (snd (closer_return f r call g)) = inv g"
  by (simp_all add: closer_callee_def closer_return_def)

lemma quiet_buildCloser: "inv g \<Longrightarrow> quiet (buildCloser meta handle td g)"
  unfolding buildCloser_def Let_def
  by (rule quiet_bind [OF quiet_resolve]) (auto simp: split_def intro!: quiet_bind quiet_resolve split: option.split)

lemma quiet_handle_closers: "inv g \<Longrightarrow> quiet (handle_closers meta ts g)"
proof (induction meta ts g rule: handle_closers.induct)
  case (2 meta name td ts g)
  then show ?case by (auto intro!: quiet_bind quiet_buildCloser)
qed simp

end

interpretation silent: output_frame "same_output g0" for g0 :: generator
  by unfold_locales (simp add: same_output_def)

section \<open>The steps of a namespace\<close>

text \<open>A counter of a namespace; one that was never touched is zero.\<close>

definition count_of :: "(namespace_coverage \<Rightarrow> nat) \<Rightarrow> string \<Rightarrow> generator \<Rightarrow> nat" where
  "count_of f ns g = (case map_of (g_coverage g) ns of None \<Rightarrow> 0 | Some c \<Rightarrow> f c)"

lemma coverageOf_frame [simp]:
  "g_outDir (coverageOf ns change g) = g_outDir g" "g_writtenFiles (coverageOf ns change g) = g_writtenFiles g"
  by (simp_all add: coverageOf_def)

lemma count_of_coverageOf:
  "f (new_coverage ns) = 0 \<Longrightarrow> (\<And>c. f (change c) = f c) \<Longrightarrow> count_of f ns (coverageOf ns change g) = count_of f ns g"
  "(\<And>c. f (change c) = n) \<Longrightarrow> count_of f ns (coverageOf ns change g) = n"
  "ns \<noteq> ns' \<Longrightarrow> count_of f ns (coverageOf ns' change g) = count_of f ns g"
  by (auto simp: count_of_def coverageOf_def update_conv' split: option.split)

text \<open>
  What a step may do: it writes files into the tree and never takes one back, and it counts only for its
  own namespace. \<open>F\<close> holds the counters it leaves alone.
\<close>

definition adds :: "(namespace_coverage \<Rightarrow> nat) set \<Rightarrow> string \<Rightarrow> generator \<Rightarrow> generator \<Rightarrow> bool" where
  "adds F ns g g' \<longleftrightarrow> g_outDir g' = g_outDir g \<and> fst ` set (g_writtenFiles g) \<subseteq> fst ` set (g_writtenFiles g') \<and>
     (\<forall>f ns'. ns' \<noteq> ns \<longrightarrow> count_of f ns' g' = count_of f ns' g) \<and> (\<forall>f \<in> F. count_of f ns g' = count_of f ns g)"

lemma adds_refl [simp]: "adds F ns g g"
  by (simp add: adds_def)

lemma adds_trans: "adds F ns g1 g2 \<Longrightarrow> adds F ns g2 g3 \<Longrightarrow> adds F ns g1 g3"
  by (auto simp: adds_def)

lemma adds_mono: "adds F ns g g' \<Longrightarrow> F' \<subseteq> F \<Longrightarrow> adds F' ns g g'"
  by (auto simp: adds_def)

lemma adds_same_output: "same_output g g' \<Longrightarrow> adds F ns g g'"
  by (simp add: adds_def same_output_def count_of_def)

lemma adds_coverageOf:
  "(\<And>f c. f \<in> F \<Longrightarrow> f (change c) = f c) \<Longrightarrow> (\<And>f. f \<in> F \<Longrightarrow> f (new_coverage ns) = 0) \<Longrightarrow> adds F ns g (coverageOf ns change g)"
  by (simp add: adds_def count_of_coverageOf(1) count_of_coverageOf(3))

lemma adds_write_path: "adds F ns g (write_path path content g)"
  by (auto simp: adds_def write_path_def count_of_def dom_update)

definition step_adds :: "(namespace_coverage \<Rightarrow> nat) set \<Rightarrow> string \<Rightarrow> emit_step \<Rightarrow> bool" where
  "step_adds F ns s \<longleftrightarrow> (\<forall>g g'. s g = Some (Inr g') \<longrightarrow> adds F ns g g')"

lemma step_addsD: "step_adds F ns s \<Longrightarrow> s g = Some (Inr g') \<Longrightarrow> adds F ns g g'"
  by (simp add: step_adds_def)

lemma emit_steps_cases:
  assumes "emit_steps (s # ss) g = Some (Inr g')"
  obtains g1 where "s g = Some (Inr g1)" "emit_steps ss g1 = Some (Inr g')"
  using assms by (auto split: option.split_asm sum.split_asm)

lemma steps_add: "(\<And>s. s \<in> set ss \<Longrightarrow> step_adds F ns s) \<Longrightarrow> step_adds F ns (emit_steps ss)"
proof (induction ss)
  case (Cons s ss)
  show ?case unfolding step_adds_def
  proof (intro allI impI)
    fix g g' assume "emit_steps (s # ss) g = Some (Inr g')"
    then obtain g1 where "s g = Some (Inr g1)" "emit_steps ss g1 = Some (Inr g')" by (rule emit_steps_cases)
    then show "adds F ns g g'" using Cons by (auto intro: adds_trans dest: step_addsD)
  qed
qed (simp add: step_adds_def)

lemma emit_tagged_adds: "step_adds F ns (emit_tagged rd meta ending tag body)"
  by (auto simp: step_adds_def emit_tagged_def writeFileTagged_def map_sum_def adds_write_path Let_def
      split: sum.split_asm if_split_asm)

lemma emit_file_adds:
  assumes "\<And>g body g'. build g = Some (body, g') \<Longrightarrow> adds F ns g g'"
  shows "step_adds F ns (emit_file rd meta ending imports build)"
proof -
  have "adds F ns g g'" if "emit_file rd meta ending imports build g = Some (Inr g')" for g g'
  proof -
    from that obtain body g1 where b: "build (with_imports imports g) = Some (body, g1)"
      "emit_tagged rd meta ending GeneratedBuildTag body g1 = Some (Inr g')"
      by (auto simp: emit_file_def bind_eq_Some_conv)
    have "adds F ns g (with_imports imports g)" by (rule adds_same_output) (rule same_output_ops)
    with assms [OF b(1)] step_addsD [OF emit_tagged_adds b(2)] show ?thesis by (blast intro: adds_trans)
  qed
  then show ?thesis by (simp add: step_adds_def)
qed

lemma quiet_adds: "output_frame.quiet (same_output g) r \<Longrightarrow> r = Some (x, g') \<Longrightarrow> adds F ns g g'"
  by (rule adds_same_output) (rule silent.quietD)

lemma same_output_refl [simp]: "same_output g g"
  by (simp add: same_output_def)

text \<open>The counters a namespace ends with: the same whatever they were before.\<close>

definition sets_count :: "(namespace_coverage \<Rightarrow> nat) \<Rightarrow> string \<Rightarrow> nat \<Rightarrow> emit_step \<Rightarrow> bool" where
  "sets_count f ns n s \<longleftrightarrow> (\<forall>g g'. s g = Some (Inr g') \<longrightarrow> count_of f ns g' = n)"

lemma sets_count_steps:
  assumes "sets_count f ns n s" "\<And>s. s \<in> set ss \<Longrightarrow> step_adds {f} ns s"
  shows "sets_count f ns n (emit_steps (pre @ s # ss))"
proof -
  have "count_of f ns g' = n" if "emit_steps (pre @ s # ss) g = Some (Inr g')" for g g'
    using that
  proof (induction pre arbitrary: g)
    case Nil
    then obtain g1 where 1: "s g = Some (Inr g1)" "emit_steps ss g1 = Some (Inr g')"
      unfolding append_Nil by (rule emit_steps_cases)
    from steps_add [OF assms(2)] 1(2) have "adds {f} ns g1 g'" by (rule step_addsD)
    with assms(1) 1(1) show ?case by (simp add: sets_count_def adds_def)
  next
    case (Cons p pre)
    from Cons.prems [unfolded append_Cons] obtain g1 where "emit_steps (pre @ s # ss) g1 = Some (Inr g')"
      by (rule emit_steps_cases)
    then show ?case by (rule Cons.IH)
  qed
  then show ?thesis by (simp add: sets_count_def)
qed

lemma emit_file_sets:
  assumes "\<And>g body g'. build g = Some (body, g') \<Longrightarrow> count_of f ns g' = n"
  shows "sets_count f ns n (emit_file rd meta ending imports build)"
proof -
  have "count_of f ns g' = n" if "emit_file rd meta ending imports build g = Some (Inr g')" for g g'
  proof -
    from that obtain body g1 where b: "build (with_imports imports g) = Some (body, g1)"
      "emit_tagged rd meta ending GeneratedBuildTag body g1 = Some (Inr g')"
      by (auto simp: emit_file_def bind_eq_Some_conv)
    from step_addsD [OF emit_tagged_adds b(2)] have "adds {f} ns g1 g'" .
    with assms [OF b(1)] show ?thesis by (simp add: adds_def)
  qed
  then show ?thesis by (simp add: sets_count_def)
qed

lemma steps_of_namespace:
  fixes meta :: namespace_meta and rd :: renderers
  defines "ns \<equiv> ns_Namespace meta"
  shows "step_adds UNIV ns (typedefs_step rd meta)" "step_adds UNIV ns (enums_step rd meta)"
    "step_adds UNIV ns (delegates_step rd meta)" "step_adds UNIV ns (constants_step rd meta)"
    "step_adds UNIV ns (doc_step meta)"
proof -
  show "step_adds UNIV ns (typedefs_step rd meta)" unfolding typedefs_step_def
    by (rule emit_file_adds) (auto simp: buildTypedefModels_def intro: quiet_adds [OF silent.quiet_typedef_models [OF same_output_refl]])
  show "step_adds UNIV ns (enums_step rd meta)" unfolding enums_step_def
    by (rule emit_file_adds)
      (auto simp: buildEnumModels_def split: prod.split_asm intro: adds_same_output silent.quiet_enum_models [OF same_output_refl])
  show "step_adds UNIV ns (delegates_step rd meta)" unfolding delegates_step_def
    by (rule emit_file_adds) (auto simp: buildDelegateModels_def intro: quiet_adds [OF silent.quiet_delegate_models [OF same_output_refl]])
  show "step_adds UNIV ns (constants_step rd meta)" unfolding constants_step_def
    by (rule emit_file_adds) (auto simp: buildConstantModels_def intro: quiet_adds [OF silent.quiet_constant_models [OF same_output_refl]])
  show "step_adds UNIV ns (doc_step meta)"
    by (auto simp: step_adds_def doc_step_def Let_def intro: adds_write_path)
qed

lemma new_coverage_zero:
  "cov_Structs (new_coverage ns) = 0" "cov_Methods (new_coverage ns) = 0"
  "cov_Functions (new_coverage ns) = 0" "cov_Closers (new_coverage ns) = 0"
  by (simp_all add: new_coverage_def)

lemma counting_adds:
  assumes "output_frame.quiet (same_output g) r" "r = Some (x, g1)"
    and "\<And>f c. f \<in> F \<Longrightarrow> f (change c) = f c" "\<And>f. f \<in> F \<Longrightarrow> f (new_coverage ns) = 0"
  shows "adds F ns g (coverageOf ns change g1)"
  by (rule adds_trans [OF quiet_adds [OF assms(1,2)]], rule adds_coverageOf) (use assms(3,4) in auto)

lemma counting_steps:
  fixes meta :: namespace_meta and rd :: renderers
  defines "ns \<equiv> ns_Namespace meta"
  shows "step_adds {cov_Methods, cov_Functions, cov_Closers} ns (structs_step rd meta)"
    "step_adds {cov_Structs, cov_Methods, cov_Functions, cov_Closers} ns (arch_step_files rd meta)"
    "step_adds {cov_Structs, cov_Functions, cov_Closers} ns (interfaces_step rd meta)"
    "step_adds {cov_Structs, cov_Methods, cov_Closers} ns (functions_step rd meta)"
    "step_adds {cov_Structs, cov_Methods, cov_Functions} ns (handles_step rd meta)"
proof -
  show "step_adds {cov_Methods, cov_Functions, cov_Closers} ns (structs_step rd meta)" unfolding structs_step_def ns_def
    by (rule emit_file_adds)
      (auto simp: buildStructModels_def new_coverage_zero bind_eq_Some_conv
        intro!: counting_adds [OF silent.quiet_struct_models [OF same_output_refl]])
  show "step_adds {cov_Structs, cov_Functions, cov_Closers} ns (interfaces_step rd meta)" unfolding interfaces_step_def ns_def
    by (rule emit_file_adds)
      (auto simp: buildInterfaceModels_def new_coverage_zero bind_eq_Some_conv
        intro!: counting_adds [OF silent.quiet_interface_models [OF same_output_refl]])
  show "step_adds {cov_Structs, cov_Methods, cov_Closers} ns (functions_step rd meta)" unfolding functions_step_def ns_def
    by (rule emit_file_adds)
      (auto simp: new_coverage_zero bind_eq_Some_conv
        intro!: counting_adds [OF silent.quiet_buildFunctionModels [OF same_output_refl]])
  show "step_adds {cov_Structs, cov_Methods, cov_Functions} ns (handles_step rd meta)" unfolding handles_step_def ns_def
    by (rule emit_file_adds)
      (auto simp: buildHandleClosers_def new_coverage_zero bind_eq_Some_conv
        intro!: counting_adds [OF silent.quiet_handle_closers [OF same_output_refl]])
  let ?F = "{cov_Structs, cov_Methods, cov_Functions, cov_Closers}"
  have arch: "step_adds ?F ns (arch_file rd meta models imps arch)" for models imps arch
  proof -
    have "adds ?F ns g g'" if a: "arch_file rd meta models imps arch g = Some (Inr g')" for g g'
    proof -
      define g1 where "g1 = (if arch = hd emitArches
        then coverageOf ns (\<lambda>c. c\<lparr>cov_StructsEmitted := cov_StructsEmitted c + top_level_count meta (models_on arch models)\<rparr>) g else g)"
      have 1: "adds ?F ns g g1" unfolding g1_def by (auto simp: new_coverage_zero intro!: adds_coverageOf)
      have "adds ?F ns g1 (with_imports imps g1)" by (rule adds_same_output) (rule same_output_ops)
      moreover have "emit_tagged rd meta (''_structs_'' @ arch @ ''.go'') (''windows && '' @ arch)
          (render_all (rd_Struct rd) (models_on arch models)) (with_imports imps g1) = Some (Inr g')"
        using a unfolding arch_file_def Let_def g1_def ns_def .
      ultimately show ?thesis using 1 step_addsD [OF emit_tagged_adds] by (blast intro: adds_trans)
    qed
    then show ?thesis by (simp add: step_adds_def)
  qed
  have "adds ?F ns g g'" if "arch_step_files rd meta g = Some (Inr g')" for g g'
  proof -
    from that obtain ms g1 where b: "buildArchStructModels meta (with_imports [] g) = Some (ms, g1)"
      "emit_steps (map (arch_file rd meta ms (imports_of g1)) emitArches) g1 = Some (Inr g')"
      by (auto simp: arch_step_files_def bind_eq_Some_conv)
    have "same_output g (with_imports [] g)" by (rule same_output_ops)
    from quiet_adds [OF silent.quiet_buildArchStructModels [OF this] b(1)] have 1: "adds ?F ns g g1" .
    have "step_adds ?F ns (emit_steps (map (arch_file rd meta ms (imports_of g1)) emitArches))"
      by (rule steps_add) (use arch in auto)
    from adds_trans [OF 1 step_addsD [OF this b(2)]] show ?thesis .
  qed
  then show "step_adds ?F ns (arch_step_files rd meta)" by (simp add: step_adds_def)
qed

lemma counted_steps:
  fixes meta :: namespace_meta and rd :: renderers
  defines "ns \<equiv> ns_Namespace meta"
  shows "sets_count cov_Structs ns (length (entries (ns_Structs meta))) (structs_step rd meta)"
    "sets_count cov_Methods ns (sum_list (map (length \<circ> ci_Methods \<circ> snd) (entries (ns_Interfaces meta)))) (interfaces_step rd meta)"
    "sets_count cov_Functions ns (functionCandidates meta) (functions_step rd meta)"
    "sets_count cov_Closers ns (length (filter (\<lambda>(n, td). td_FreeFunc td \<noteq> []) (entries (ns_Typedefs meta)))) (handles_step rd meta)"
  unfolding ns_def structs_step_def interfaces_step_def functions_step_def handles_step_def
  by (rule emit_file_sets, auto simp: bind_eq_Some_conv count_of_coverageOf(2))+

text \<open>
  A namespace that is emitted leaves its package: the package comment in its directory, and counters for
  every structure, method, function and closer it declares; the files and counters of the others stay.
\<close>

lemma emitNamespace_adds:
  assumes "emitNamespace rd meta g = Some (Inr g')"
  defines "ns \<equiv> ns_Namespace meta"
  shows "adds {} ns g g'"
    and "join_path (package_dir meta g) ''doc.go'' \<in> fst ` set (g_writtenFiles g')"
    and "count_of cov_Structs ns g' = length (entries (ns_Structs meta))"
    and "count_of cov_Methods ns g' = sum_list (map (length \<circ> ci_Methods \<circ> snd) (entries (ns_Interfaces meta)))"
    and "count_of cov_Functions ns g' = functionCandidates meta"
    and "count_of cov_Closers ns g' = length (filter (\<lambda>(n, td). td_FreeFunc td \<noteq> []) (entries (ns_Typedefs meta)))"
proof -
  let ?T = "typedefs_step rd meta" and ?E = "enums_step rd meta" and ?S = "structs_step rd meta" and ?A = "arch_step_files rd meta"
    and ?D = "delegates_step rd meta" and ?I = "interfaces_step rd meta" and ?C = "constants_step rd meta"
    and ?F = "functions_step rd meta" and ?H = "handles_step rd meta" and ?doc = "doc_step meta"
  note plain = steps_of_namespace(1-4) [where meta = meta and rd = rd, folded ns_def] steps_of_namespace(5) [of meta, folded ns_def]
  note counting = counting_steps [where meta = meta and rd = rd, folded ns_def]
  have mono: "step_adds F ns s \<Longrightarrow> F' \<subseteq> F \<Longrightarrow> step_adds F' ns s" for F F' s
    unfolding step_adds_def by (blast intro: adds_mono)
  have run: "emit_steps [?T, ?E, ?S, ?A, ?D, ?I, ?C, ?F, ?H, ?doc] (prepareNamespaceClaims meta g) = Some (Inr g')"
    using assms(1) by (simp only: emitNamespace_def)
  have same: "same_output g (prepareNamespaceClaims meta g)" by (rule same_output_ops)
  have all: "step_adds {} ns s" if "s \<in> set [?T, ?E, ?S, ?A, ?D, ?I, ?C, ?F, ?H, ?doc]" for s
    using that plain counting by (auto intro: mono)
  from adds_trans [OF adds_same_output [OF same] step_addsD [OF steps_add [OF all] run]] show "adds {} ns g g'" .
  have "step_adds {} ns (emit_steps [?T, ?E, ?S, ?A, ?D, ?I, ?C, ?F, ?H])" by (rule steps_add) (rule all, auto)
  moreover obtain g1 where g1: "emit_steps [?T, ?E, ?S, ?A, ?D, ?I, ?C, ?F, ?H] (prepareNamespaceClaims meta g) = Some (Inr g1)"
    "?doc g1 = Some (Inr g')"
  proof -
    have split: "\<exists>g1. emit_steps xs g = Some (Inr g1) \<and> s g1 = Some (Inr g')" if "emit_steps (xs @ [s]) g = Some (Inr g')" for xs s g
      using that
    proof (induction xs arbitrary: g)
      case (Cons x xs)
      from Cons.prems [unfolded append_Cons] obtain g1 where "x g = Some (Inr g1)" "emit_steps (xs @ [s]) g1 = Some (Inr g')"
        by (rule emit_steps_cases)
      with Cons.IH show ?case by auto
    qed (auto split: option.split_asm sum.split_asm)
    from split [of "[?T, ?E, ?S, ?A, ?D, ?I, ?C, ?F, ?H]" ?doc] run that show thesis by auto
  qed
  ultimately have "g_outDir g1 = g_outDir (prepareNamespaceClaims meta g)" by (auto simp: adds_def dest: step_addsD)
  then have "package_dir meta g1 = package_dir meta g" using same by (simp add: package_dir_def same_output_def)
  with g1(2) show "join_path (package_dir meta g) ''doc.go'' \<in> fst ` set (g_writtenFiles g')"
    by (auto simp: doc_step_def Let_def write_path_def dom_update)
  have count: "count_of f ns g' = n" if "sets_count f ns n (emit_steps [?T, ?E, ?S, ?A, ?D, ?I, ?C, ?F, ?H, ?doc])" for f n
    using that run by (simp add: sets_count_def)
  note set_count = counted_steps [where meta = meta and rd = rd, folded ns_def]
  show "count_of cov_Structs ns g' = length (entries (ns_Structs meta))"
    by (rule count, rule sets_count_steps [of _ _ _ ?S "[?A, ?D, ?I, ?C, ?F, ?H, ?doc]" "[?T, ?E]", unfolded append.simps, OF set_count(1)])
      (use plain counting in \<open>auto intro: mono\<close>)
  show "count_of cov_Methods ns g' = sum_list (map (length \<circ> ci_Methods \<circ> snd) (entries (ns_Interfaces meta)))"
    by (rule count, rule sets_count_steps [of _ _ _ ?I "[?C, ?F, ?H, ?doc]" "[?T, ?E, ?S, ?A, ?D]", unfolded append.simps, OF set_count(2)])
      (use plain counting in \<open>auto intro: mono\<close>)
  show "count_of cov_Functions ns g' = functionCandidates meta"
    by (rule count, rule sets_count_steps [of _ _ _ ?F "[?H, ?doc]" "[?T, ?E, ?S, ?A, ?D, ?I, ?C]", unfolded append.simps, OF set_count(3)])
      (use plain counting in \<open>auto intro: mono\<close>)
  show "count_of cov_Closers ns g' = length (filter (\<lambda>(n, td). td_FreeFunc td \<noteq> []) (entries (ns_Typedefs meta)))"
    by (rule count, rule sets_count_steps [of _ _ _ ?H "[?doc]" "[?T, ?E, ?S, ?A, ?D, ?I, ?C, ?F]", unfolded append.simps, OF set_count(4)])
      (use plain counting in \<open>auto intro: mono\<close>)
qed

end
