(* ===== verification/Validate.thy ===== *)
theory Validate
  imports Functions
begin

text \<open>
  The metadata check of \<open>cmd/generate/validate.go\<close>: the errors and warnings of a loaded registry, and what
  an accepted registry guarantees to the type mapper. The lines printed to standard output and whether
  the process exits with success are the result.
\<close>

section \<open>The check\<close>

definition validEnumBases :: "string list" where
  "validEnumBases = [''int8'', ''uint8'', ''int16'', ''uint16'', ''int32'', ''uint32'', ''int64'', ''uint64'']"

text \<open>Whether the index for a target kind has the key; \<open>None\<close> when the kind is unknown.\<close>

definition known_target :: "registry \<Rightarrow> string \<Rightarrow> string \<Rightarrow> bool option" where
  "known_target reg kind key =
     (if kind = ''Struct'' \<or> kind = ''Union'' then Some (map_of (reg_StructIndex reg) key \<noteq> None)
      else if kind = ''Enum'' then Some (map_of (reg_EnumBaseIndex reg) key \<noteq> None)
      else if kind = ''Typedef'' then Some (map_of (reg_TypedefIndex reg) key \<noteq> None)
      else if kind = ''FunctionPointer'' then Some (map_of (reg_DelegateIndex reg) key \<noteq> None)
      else if kind = ''Com'' then Some (map_of (reg_InterfaceIndex reg) key \<noteq> None)
      else None)"

definition reference_errors :: "registry \<Rightarrow> string \<Rightarrow> type_ref \<Rightarrow> string list" where
  "reference_errors reg namespace ref =
     (if ref_Kind ref \<noteq> ''ApiRef'' \<or> ref_Api ref = [] then []
      else if map_of (reg_ByNamespace reg) (ref_Api ref) = None then
        [''['' @ namespace @ ''] reference to unknown namespace '' @ ref_Api ref @ '' ('' @ ref_Name ref @ '')'']
      else (let key = ref_Api ref @ ''.'' @ ref_Name ref in
        case known_target reg (ref_TargetKind ref) key of
          None \<Rightarrow> [''['' @ namespace @ ''] reference '' @ key @ '' has no target kind'']
        | Some True \<Rightarrow> []
        | Some False \<Rightarrow> [''['' @ namespace @ ''] dangling '' @ ref_TargetKind ref @ '' reference '' @ key]))"

definition function_errors :: "string \<Rightarrow> function_decl \<Rightarrow> string list" where
  "function_errors namespace f =
     (if fn_DLL f = [] then [''['' @ namespace @ ''] function '' @ fn_Name f @ '' has no DLL import''] else [])"

definition function_warnings :: "string \<Rightarrow> function_decl \<Rightarrow> string list" where
  "function_warnings namespace f =
     (if fn_DLL f \<noteq> [] \<and> \<not> IsLoadableModule (fn_DLL f) \<and> fn_Constant f = [] then
        [''['' @ namespace @ ''] function '' @ fn_Name f @ '' imports '' @ quoted (fn_DLL f) @
         '', which is not a loadable module, and carries no [Constant] (the generator skips it)'']
      else [])"

definition enum_errors :: "string \<Rightarrow> string \<times> enum_def \<Rightarrow> string list" where
  "enum_errors namespace e = (case e of (name, enum) \<Rightarrow>
     if en_BaseType enum \<in> set validEnumBases then []
     else [''['' @ namespace @ ''] enum '' @ name @ '' has invalid base type '' @ quoted (en_BaseType enum)])"

definition enum_warnings :: "string \<Rightarrow> string \<times> enum_def \<Rightarrow> string list" where
  "enum_warnings namespace e = (case e of (name, enum) \<Rightarrow>
     if en_Members enum = [] then [''['' @ namespace @ ''] enum '' @ name @ '' has no members''] else [])"

definition typedef_errors :: "string \<Rightarrow> string \<times> typedef_def \<Rightarrow> string list" where
  "typedef_errors namespace e = (case e of (name, td) \<Rightarrow>
     if ref_Kind (td_Underlying td) = [] then [''['' @ namespace @ ''] typedef '' @ name @ '' has no underlying type''] else [])"

definition interface_errors :: "registry \<Rightarrow> string \<Rightarrow> string \<times> com_interface \<Rightarrow> string list" where
  "interface_errors reg namespace e = (case e of (name, c) \<Rightarrow>
     if ci_BaseInterface c \<noteq> [] \<and> map_of (reg_InterfaceIndex reg) (base_key c) = None then
       [''['' @ namespace @ ''] COM interface '' @ name @ '' has dangling base '' @ base_key c]
     else [])"

definition interface_warnings :: "string \<Rightarrow> string \<times> com_interface \<Rightarrow> string list" where
  "interface_warnings namespace e = (case e of (name, c) \<Rightarrow>
     if ci_GUID c = [] then [''['' @ namespace @ ''] COM interface '' @ name @ '' has no GUID''] else [])"

definition namespace_errors :: "registry \<Rightarrow> namespace_meta \<Rightarrow> string list" where
  "namespace_errors reg meta =
     (let ns = ns_Namespace meta in
      concat (map (reference_errors reg ns) (WalkNamespaceRefs meta)) @
      concat (map (function_errors ns) (ns_Functions meta)) @
      concat (map (enum_errors ns) (ns_Enums meta)) @
      concat (map (typedef_errors ns) (ns_Typedefs meta)) @
      concat (map (interface_errors reg ns) (ns_Interfaces meta)))"

definition namespace_warnings :: "namespace_meta \<Rightarrow> string list" where
  "namespace_warnings meta =
     (let ns = ns_Namespace meta in
      concat (map (function_warnings ns) (ns_Functions meta)) @
      concat (map (enum_warnings ns) (ns_Enums meta)) @
      concat (map (interface_warnings ns) (ns_Interfaces meta)))"

definition runValidate :: "registry \<Rightarrow> string list \<times> bool" where
  "runValidate reg =
     (let errors = sort (concat (map (namespace_errors reg) (reg_Namespaces reg)));
          warnings = sort (concat (map namespace_warnings (reg_Namespaces reg)))
      in (map ((@) ''warning: '') warnings @ map ((@) ''error: '') errors @
          [''validate: '' @ show_nat (length (reg_Namespaces reg)) @ '' namespaces, '' @ show_nat (length errors) @
           '' errors, '' @ show_nat (length warnings) @ '' warnings''],
          errors = []))"

section \<open>What an accepted registry guarantees\<close>

lemma sort_eq_Nil: "sort xs = [] \<longleftrightarrow> xs = []"
  by (metis length_sort length_0_conv)

lemma runValidate_accepts:
  "snd (runValidate reg) \<longleftrightarrow> (\<forall>meta \<in> set (reg_Namespaces reg). namespace_errors reg meta = [])"
  by (simp add: runValidate_def Let_def sort_eq_Nil)

text \<open>A reference whose target is in its index, as the mapper's lookups need it.\<close>

definition ref_known :: "registry \<Rightarrow> type_ref \<Rightarrow> bool" where
  "ref_known reg ref \<longleftrightarrow> known_target reg (ref_TargetKind ref) (qual_key (ref_Api ref) (ref_Name ref)) = Some True"

lemma reference_errors_known:
  "reference_errors reg ns ref = [] \<Longrightarrow> ref_Kind ref = ''ApiRef'' \<Longrightarrow> ref_Api ref \<noteq> [] \<Longrightarrow> ref_known reg ref"
  by (auto simp: reference_errors_def ref_known_def qual_key_def Let_def split: if_splits option.splits bool.splits)

text \<open>
  The shape the mapper expects of one node: mapped native types, pointees, element types with a length,
  and anonymous references only to nested structures. The check does not look at these.
\<close>

definition node_ok :: "type_ref \<Rightarrow> bool" where
  "node_ok ref \<longleftrightarrow>
     (if ref_Kind ref = ''Native'' then ref_Name ref \<in> {''Void'', ''Guid''} \<union> fst ` set primitiveGoTypes
      else if ref_Kind ref = ''ApiRef'' then ref_Api ref = [] \<longrightarrow> ref_TargetKind ref \<in> {''Struct'', ''Union''}
      else if ref_Kind ref = ''PointerTo'' then ref_Child ref \<noteq> None
      else ref_Kind ref = ''Array'' \<and> ref_Child ref \<noteq> None \<and> ref_ArrayLen ref \<noteq> 0)"

lemma node_ok_kind:
  "node_ok ref \<Longrightarrow> ref_Kind ref = ''Native'' \<or> ref_Kind ref = ''ApiRef'' \<or> ref_Kind ref = ''PointerTo'' \<or> ref_Kind ref = ''Array''"
  unfolding node_ok_def by presburger

text \<open>A well-typed reference: every node of it has the right shape and names something known.\<close>

definition well_typed :: "registry \<Rightarrow> type_ref \<Rightarrow> bool" where
  "well_typed reg ref \<longleftrightarrow> (\<forall>x \<in> set (walk_ref ref). node_ok x \<and> (ref_Kind x = ''ApiRef'' \<longrightarrow> ref_Api x \<noteq> [] \<longrightarrow> ref_known reg x))"

lemma well_typed_child: "well_typed reg ref \<Longrightarrow> ref_Child ref = Some c \<Longrightarrow> well_typed reg c"
  unfolding well_typed_def walk_ref.simps [of ref] by simp

lemma well_typed_self: "well_typed reg ref \<Longrightarrow> node_ok ref \<and> (ref_Kind ref = ''ApiRef'' \<longrightarrow> ref_Api ref \<noteq> [] \<longrightarrow> ref_known reg ref)"
  unfolding well_typed_def walk_ref.simps [of ref] by simp

text \<open>
  A resolution that goes well: whatever it reports is a severed import, and with no import severed it
  reports nothing and the type is supported.
\<close>

definition resolves_well :: "mapper \<Rightarrow> resolution \<Rightarrow> resolved \<Rightarrow> resolution \<Rightarrow> bool" where
  "resolves_well m st r st' \<longleftrightarrow>
     (\<exists>ds. rn_Diagnostics st' = rn_Diagnostics st @ ds \<and> (\<forall>d \<in> set ds. contains_str d ''cycle break: '') \<and>
        (mp_Blocked m = [] \<longrightarrow> ds = [] \<and> res_Kind r \<noteq> KindUnsupported))"

lemma resolves_well_same: "rn_Diagnostics st' = rn_Diagnostics st \<Longrightarrow> res_Kind r \<noteq> KindUnsupported \<Longrightarrow> resolves_well m st r st'"
  by (simp add: resolves_well_def)

lemma resolves_well_kind:
  "resolves_well m st r st' \<Longrightarrow> res_Kind r' \<noteq> KindUnsupported \<Longrightarrow> resolves_well m st r' st'"
  by (auto simp: resolves_well_def)

lemma resolves_well_noted:
  assumes "mp_Blocked m \<noteq> []" "contains_str d ''cycle break: ''"
  shows "resolves_well m st r (note_diag d st)"
    and "resolves_well m (note_diag d st) r' st' \<Longrightarrow> resolves_well m st r' st'"
proof -
  show "resolves_well m st r (note_diag d st)"
    using assms by (simp add: resolves_well_def note_diag_def)
  assume "resolves_well m (note_diag d st) r' st'"
  then obtain ds where "rn_Diagnostics st' = rn_Diagnostics st @ [d] @ ds" "\<forall>d \<in> set ds. contains_str d ''cycle break: ''"
    by (auto simp: resolves_well_def note_diag_def)
  with assms show "resolves_well m st r' st'" unfolding resolves_well_def by (intro exI [of _ "[d] @ ds"]) simp
qed

lemma cycle_break_contains [simp]:
  "contains_str (cycle_break ctx what ref how) ''cycle break: ''"
  "contains_str (in_namespace ctx @ not_representable ref) ''cycle break: ''"
  unfolding contains_str_iff cycle_break_def not_representable_def append_assoc by blast+

lemma resolveNative_well:
  "node_ok ref \<Longrightarrow> ref_Kind ref = ''Native'' \<Longrightarrow>
     resolves_well m st (fst (resolveNative ref ctx st)) (snd (resolveNative ref ctx st))"
proof (cases "map_of primitiveGoTypes (ref_Name ref)")
  case None
  assume "node_ok ref" "ref_Kind ref = ''Native''"
  with None have "ref_Name ref = ''Void'' \<or> ref_Name ref = ''Guid''"
    by (auto simp: node_ok_def map_of_eq_None_iff)
  then show ?thesis by (auto simp: resolveNative_def intro: resolves_well_same)
qed (auto simp: resolveNative_def intro: resolves_well_same)

lemma resolveNamedRef_well:
  assumes "well_typed (mp_Registry m) ref" "ref_Kind ref = ''ApiRef''"
  shows "resolves_well m st (fst (resolveNamedRef m ref ctx st)) (snd (resolveNamedRef m ref ctx st))"
proof -
  obtain t st1 where q: "qualifiedName m (ref_Api ref) (ref_Name ref) ctx st = (t, st1)" by fastforce
  have d: "rn_Diagnostics st1 = rn_Diagnostics st"
    using qualifiedName_diagnostics [of m "ref_Api ref" "ref_Name ref" ctx st] by (simp add: q)
  have w: "ref_Api ref = [] \<longrightarrow> ref_TargetKind ref \<in> {''Struct'', ''Union''}" "ref_Api ref \<noteq> [] \<longrightarrow> ref_known (mp_Registry m) ref"
    using well_typed_self [OF assms(1)] assms(2) by (simp_all add: node_ok_def)
  consider "ref_TargetKind ref \<in> {''Struct'', ''Union'', ''Enum'', ''FunctionPointer'', ''Com''}"
    | td where "ref_TargetKind ref = ''Typedef''" "Typedef (mp_Registry m) (ref_Api ref) (ref_Name ref) = Some td"
    using w by (auto simp: ref_known_def known_target_def Typedef_def split: if_splits)
  then show ?thesis
    by cases (auto simp: resolveNamedRef_def resolveTypedefRef_def q Let_def d intro: resolves_well_same)
qed

text \<open>The types of the typedefs are well-typed themselves: flattening resolves them.\<close>

definition typedefs_typed :: "registry \<Rightarrow> bool" where
  "typedefs_typed reg \<longleftrightarrow> (\<forall>key td. map_of (reg_TypedefIndex reg) key = Some td \<longrightarrow> well_typed reg (td_Underlying td))"

lemma GoType_well_aux:
  "typedefs_typed (mp_Registry m) \<Longrightarrow> mp_SkippedTypes m = [] \<Longrightarrow> well_typed (mp_Registry m) ref \<Longrightarrow>
     GoType n m ref ctx st = Some (r, st') \<Longrightarrow> resolves_well m st r st'"
  "typedefs_typed (mp_Registry m) \<Longrightarrow> mp_SkippedTypes m = [] \<Longrightarrow> well_typed (mp_Registry m) ref \<Longrightarrow>
     ref_Kind ref = ''ApiRef'' \<Longrightarrow> resolveApiRef n m ref ctx st = Some (r, st') \<Longrightarrow> resolves_well m st r st'"
  "typedefs_typed (mp_Registry m) \<Longrightarrow> mp_SkippedTypes m = [] \<Longrightarrow> well_typed (mp_Registry m) ref \<Longrightarrow>
     mp_Blocked m \<noteq> [] \<Longrightarrow> resolveBlockedRef n m ref ctx st = Some (r, st') \<Longrightarrow> resolves_well m st r st'"
  "typedefs_typed (mp_Registry m) \<Longrightarrow> mp_SkippedTypes m = [] \<Longrightarrow> well_typed (mp_Registry m) ref \<Longrightarrow>
     ref_Kind ref = ''PointerTo'' \<Longrightarrow> resolvePointer n m ref ctx st = Some (r, st') \<Longrightarrow> resolves_well m st r st'"
  "typedefs_typed (mp_Registry m) \<Longrightarrow> mp_SkippedTypes m = [] \<Longrightarrow> well_typed (mp_Registry m) ref \<Longrightarrow>
     ref_Kind ref = ''Array'' \<Longrightarrow> resolveArray n m ref ctx st = Some (r, st') \<Longrightarrow> resolves_well m st r st'"
proof (induction n m ref ctx st and n m ref ctx st and n m ref ctx st and n m ref ctx st and n m ref ctx st
    arbitrary: r st' and r st' and r st' and r st' and r st'
    rule: GoType_resolveApiRef_resolveBlockedRef_resolvePointer_resolveArray.induct)
  case (1 n m ref ctx st)
  note ok = well_typed_self [OF "1.prems"(3), THEN conjunct1]
  show ?case
  proof (cases "ref_Kind ref = ''Native''")
    case True
    then show ?thesis using resolveNative_well [OF ok True, of m st ctx] "1.prems"(4) by (simp add: GoType.simps)
  next
    case False
    then consider "ref_Kind ref = ''ApiRef''" | "ref_Kind ref = ''PointerTo''" | "ref_Kind ref = ''Array''"
      using node_ok_kind [OF ok] by blast
    then show ?thesis
    proof cases
      case k: 1
      then have "resolveApiRef n m ref ctx st = Some (r, st')" using "1.prems"(4) False by (simp add: GoType.simps [of n m ref ctx st])
      from "1.IH"(1) [OF False k "1.prems"(1-3) k this] show ?thesis .
    next
      case k: 2
      then have "resolvePointer n m ref ctx st = Some (r, st')" using "1.prems"(4) False by (simp add: GoType.simps [of n m ref ctx st])
      moreover have "ref_Kind ref \<noteq> ''ApiRef''" using k by simp
      ultimately show ?thesis using "1.IH"(2) [OF False _ k "1.prems"(1-3) k] by blast
    next
      case k: 3
      then have "resolveArray n m ref ctx st = Some (r, st')" using "1.prems"(4) False by (simp add: GoType.simps [of n m ref ctx st])
      moreover have "ref_Kind ref \<noteq> ''ApiRef''" "ref_Kind ref \<noteq> ''PointerTo''" using k by simp_all
      ultimately show ?thesis using "1.IH"(3) [OF False _ _ k "1.prems"(1-3) k] by blast
    qed
  qed
next
  case (2 n m ref ctx st)
  show ?case
  proof (cases "ref_Api ref \<noteq> cx_Namespace ctx \<and> (cx_Namespace ctx, ref_Api ref) \<in> set (mp_Blocked m)")
    case True
    then have "mp_Blocked m \<noteq> []" by auto
    with True 2 show ?thesis by (simp add: resolveApiRef.simps [of n m ref ctx st])
  next
    case False
    then have "resolveNamedRef m ref ctx st = (r, st')"
      using "2.prems"(2,5) unfolding resolveApiRef.simps [of n m ref ctx st] if_not_P [OF False] by simp
    with resolveNamedRef_well [OF "2.prems"(3,4), of st ctx] show ?thesis by simp
  qed
next
  case (3 n m ref ctx st)
  note noted = resolves_well_noted [OF "3.prems"(4)]
  show ?case
  proof (cases "ref_TargetKind ref = ''Typedef''")
    case False
    then show ?thesis using "3.prems"(5)
      by (auto simp: resolveBlockedRef.simps [of n m ref ctx st] degrade_def Let_def intro: noted(1) split: if_splits)
  next
    case True
    show ?thesis
    proof (cases "Typedef (mp_Registry m) (ref_Api ref) (ref_Name ref)")
      case None
      then show ?thesis using "3.prems"(5) True
        by (auto simp: resolveBlockedRef.simps [of n m ref ctx st] degrade_def intro: noted(1))
    next
      case (Some tdef)
      let ?st = "note_diag (cycle_break ctx ''typedef'' ref ''flattened'') st"
      show ?thesis
      proof (cases "is_void_pointer (td_Underlying tdef)")
        case v: True
        then show ?thesis using "3.prems"(5) True Some
          by (auto simp: resolveBlockedRef.simps [of n m ref ctx st] Let_def intro: noted(1))
      next
        case v: False
        then obtain k where n: "n = Suc k" and g: "GoType k m (td_Underlying tdef) ctx ?st = Some (r, st')"
          using "3.prems"(5) True Some
          by (auto simp: resolveBlockedRef.simps [of n m ref ctx st] Let_def split: nat.splits)
        have "well_typed (mp_Registry m) (td_Underlying tdef)"
          using "3.prems"(1) Some by (simp add: typedefs_typed_def Typedef_def)
        then have "resolves_well m ?st r st'" using "3.IH" True Some v n g "3.prems"(1,2) by simp
        then show ?thesis by (rule noted(2) [rotated]) simp
      qed
    qed
  qed
next
  case (4 n m ref ctx st)
  obtain child where c: "ref_Child ref = Some child"
    using well_typed_self [OF "4.prems"(3)] "4.prems"(4) by (auto simp: node_ok_def)
  show ?case
  proof (cases "is_void child")
    case True
    then show ?thesis using "4.prems"(5) c by (auto simp: resolvePointer.simps [of n m ref ctx st] intro: resolves_well_same)
  next
    case False
    then obtain e st1 where e: "GoType n m child (ctx\<lparr>cx_IsReturn := False\<rparr>) st = Some (e, st1)"
      and r: "st' = st1" "res_Kind r = KindPointer"
      using "4.prems"(5) c by (auto simp: resolvePointer.simps [of n m ref ctx st] split: option.splits if_splits)
    from "4.IH" [OF c False "4.prems"(1,2) well_typed_child [OF "4.prems"(3) c] e] r show ?thesis
      by (auto intro: resolves_well_kind)
  qed
next
  case (5 n m ref ctx st)
  obtain child where c: "ref_Child ref = Some child" and l: "ref_ArrayLen ref \<noteq> 0"
    using well_typed_self [OF "5.prems"(3)] "5.prems"(4) by (auto simp: node_ok_def)
  obtain e st1 where e: "GoType n m child ctx st = Some (e, st1)"
    using "5.prems"(5) c by (auto simp: resolveArray.simps [of n m ref ctx st] split: option.splits)
  then have r: "st' = st1" "r = e \<or> res_Kind r = KindArray"
    using "5.prems"(5) c l by (auto simp: resolveArray.simps [of n m ref ctx st] split: if_splits)
  from "5.IH" [OF c "5.prems"(1,2) well_typed_child [OF "5.prems"(3) c] e] r show ?case
    by (auto intro: resolves_well_kind)
qed

section \<open>Loaded and accepted metadata\<close>

lemma index_map_sources:
  "map_of (index_map ns f es idx) key = Some v \<Longrightarrow>
     map_of idx key = Some v \<or> (\<exists>name x. (name, x) \<in> set es \<and> v = f x \<and> key = qual_key ns name)"
proof (induction es rule: rev_induct)
  case (snoc e es)
  obtain name x where "e = (name, x)" by fastforce
  with snoc show ?case by (auto simp: index_map_def split: if_splits)
qed (simp add: index_map_def)

text \<open>An entry of an index comes from an entry of a namespace; \<open>idx\<close> selects the index and \<open>es\<close> the entries.\<close>

lemma index_sources:
  assumes "\<And>r meta. idx (index_namespace r meta) = index_map (ns_Namespace meta) f (es meta) (idx r)"
    and "map_of (idx (foldl index_namespace r nss)) key = Some v"
  shows "map_of (idx r) key = Some v \<or>
    (\<exists>meta \<in> set nss. \<exists>name x. (name, x) \<in> set (es meta) \<and> v = f x \<and> key = qual_key (ns_Namespace meta) name)"
  using assms(2)
proof (induction nss arbitrary: r)
  case (Cons meta nss)
  from Cons.IH [of "index_namespace r meta"] Cons.prems
  have "map_of (idx (index_namespace r meta)) key = Some v \<or>
      (\<exists>meta \<in> set nss. \<exists>name x. (name, x) \<in> set (es meta) \<and> v = f x \<and> key = qual_key (ns_Namespace meta) name)" by simp
  then show ?case
  proof
    assume "map_of (idx (index_namespace r meta)) key = Some v"
    from index_map_sources [OF this [unfolded assms(1)]] show ?thesis by auto
  qed auto
qed simp

lemma foldl_index_namespaces: "reg_Namespaces (foldl index_namespace r nss) = reg_Namespaces r"
  by (induction nss arbitrary: r) (simp_all add: index_namespace_def Let_def)

lemma loaded_sources:
  assumes "LoadAll dirs = Inr reg"
  shows "reg_Namespaces reg = concat dirs"
    and "map_of (reg_ByNamespace reg) ns = Some meta \<Longrightarrow> meta \<in> set (concat dirs) \<and> ns_Namespace meta = ns"
    and "fst ` set (reg_ByNamespace reg) = ns_Namespace ` set (concat dirs)"
    and "map_of (reg_TypedefIndex reg) key = Some td \<Longrightarrow> \<exists>meta \<in> set (concat dirs). \<exists>name. (name, td) \<in> set (ns_Typedefs meta)"
    and "map_of (reg_StructIndex reg) key = Some d \<Longrightarrow> \<exists>meta \<in> set (concat dirs). \<exists>name. (name, d) \<in> set (ns_Structs meta)"
    and "map_of (reg_InterfaceIndex reg) key = Some c \<Longrightarrow>
      \<exists>meta \<in> set (concat dirs). \<exists>name. (name, c) \<in> set (ns_Interfaces meta) \<and> key = qual_key (ns_Namespace meta) name"
proof -
  let ?nss = "concat dirs"
  have reg: "reg = foldl index_namespace (empty_registry ?nss) ?nss"
    using assms by (auto simp: LoadAll_def Let_def split: if_splits)
  have by_name: "map_of (reg_ByNamespace (foldl index_namespace r nss)) ns = Some meta \<Longrightarrow>
      map_of (reg_ByNamespace r) ns = Some meta \<or> meta \<in> set nss \<and> ns_Namespace meta = ns" for r nss
  proof (induction nss arbitrary: r)
    case (Cons m nss)
    from Cons.IH [of "index_namespace r m"] Cons.prems show ?case
      by (auto simp: index_namespace_def Let_def split: if_splits)
  qed simp
  have keys: "fst ` set (reg_ByNamespace (foldl index_namespace r nss)) = ns_Namespace ` set nss \<union> fst ` set (reg_ByNamespace r)" for r nss
    by (induction nss arbitrary: r) (auto simp: index_namespace_def Let_def)
  show "reg_Namespaces reg = ?nss" by (simp add: reg foldl_index_namespaces empty_registry_def)
  show "map_of (reg_ByNamespace reg) ns = Some meta \<Longrightarrow> meta \<in> set ?nss \<and> ns_Namespace meta = ns"
    using by_name [of "empty_registry ?nss" ?nss] by (simp add: reg empty_registry_def)
  show "fst ` set (reg_ByNamespace reg) = ns_Namespace ` set ?nss"
    by (simp add: reg keys empty_registry_def)
  show "map_of (reg_TypedefIndex reg) key = Some td \<Longrightarrow> \<exists>meta \<in> set ?nss. \<exists>name. (name, td) \<in> set (ns_Typedefs meta)"
    using index_sources [of reg_TypedefIndex id ns_Typedefs "empty_registry ?nss" ?nss key td]
    unfolding reg by (auto simp: index_namespace_def Let_def empty_registry_def)
  show "map_of (reg_StructIndex reg) key = Some d \<Longrightarrow> \<exists>meta \<in> set ?nss. \<exists>name. (name, d) \<in> set (ns_Structs meta)"
    using index_sources [of reg_StructIndex id ns_Structs "empty_registry ?nss" ?nss key d]
    unfolding reg by (auto simp: index_namespace_def Let_def empty_registry_def)
  show "map_of (reg_InterfaceIndex reg) key = Some c \<Longrightarrow>
      \<exists>meta \<in> set ?nss. \<exists>name. (name, c) \<in> set (ns_Interfaces meta) \<and> key = qual_key (ns_Namespace meta) name"
    using index_sources [of reg_InterfaceIndex id ns_Interfaces "empty_registry ?nss" ?nss key c]
    unfolding reg by (auto simp: index_namespace_def Let_def empty_registry_def)
qed

lemma accepted_well_typed:
  assumes "LoadAll dirs = Inr reg" "snd (runValidate reg)"
    and "\<forall>meta \<in> set (concat dirs). \<forall>x \<in> set (WalkNamespaceRefs meta). node_ok x"
  shows "\<forall>meta \<in> set (concat dirs). \<forall>x \<in> set (WalkNamespaceRefs meta). well_typed reg x"
    and "typedefs_typed reg"
proof -
  let ?nss = "concat dirs"
  note nss = loaded_sources(1) [OF assms(1)]
  have known: "ref_known reg x"
    if "meta \<in> set ?nss" "x \<in> set (WalkNamespaceRefs meta)" "ref_Kind x = ''ApiRef''" "ref_Api x \<noteq> []" for meta x
  proof -
    have "namespace_errors reg meta = []" using assms(2) that(1) unfolding runValidate_accepts nss by blast
    then have "reference_errors reg (ns_Namespace meta) x = []" using that(2) by (simp add: namespace_errors_def Let_def)
    then show ?thesis using that(3,4) by (rule reference_errors_known)
  qed
  have typed: "well_typed reg x" if "meta \<in> set ?nss" "x \<in> set (WalkNamespaceRefs meta)" for meta x
    unfolding well_typed_def using WalkNamespaceRefs_closed [OF that(2)] assms(3) known that(1) by blast
  then show "\<forall>meta \<in> set ?nss. \<forall>x \<in> set (WalkNamespaceRefs meta). well_typed reg x" by blast
  show "typedefs_typed reg"
    unfolding typedefs_typed_def
  proof (intro allI impI)
    fix key td
    assume "map_of (reg_TypedefIndex reg) key = Some td"
    then obtain meta name where "meta \<in> set ?nss" "(name, td) \<in> set (ns_Typedefs meta)"
      using loaded_sources(4) [OF assms(1)] by blast
    moreover have "td_Underlying td \<in> set (walk_ref (td_Underlying td))"
      unfolding walk_ref.simps [of "td_Underlying td"] by simp
    then have "(name, td) \<in> set (ns_Typedefs meta) \<Longrightarrow> td_Underlying td \<in> set (WalkNamespaceRefs meta)"
      unfolding WalkNamespaceRefs_def by fastforce
    ultimately show "well_typed reg (td_Underlying td)" using typed by blast
  qed
qed

text \<open>
  What a target kind declares, read off the metadata and not off the registry's indexes; the kinds are
  those of \<open>win32meta.TypeRef\<close>.
\<close>

definition declared_names :: "string \<Rightarrow> namespace_meta \<Rightarrow> string list" where
  "declared_names kind meta =
     (if kind = ''Struct'' \<or> kind = ''Union'' then map fst (ns_Structs meta)
      else if kind = ''Enum'' then map fst (ns_Enums meta)
      else if kind = ''Typedef'' then map fst (ns_Typedefs meta)
      else if kind = ''FunctionPointer'' then map fst (ns_Delegates meta)
      else if kind = ''Com'' then map fst (ns_Interfaces meta)
      else [])"

text \<open>The reference names a loaded namespace, and a declaration of its kind has its qualified name.\<close>

definition declared_reference :: "namespace_meta list \<Rightarrow> type_ref \<Rightarrow> bool" where
  "declared_reference nss ref \<longleftrightarrow>
     (\<exists>ns \<in> set nss. ns_Namespace ns = ref_Api ref) \<and>
     (\<exists>ns \<in> set nss. \<exists>name \<in> set (declared_names (ref_TargetKind ref) ns).
        ns_Namespace ns @ ''.'' @ name = ref_Api ref @ ''.'' @ ref_Name ref)"

lemma index_declares:
  assumes "map_of (idx (foldl index_namespace (empty_registry nss) nss)) key = Some v"
    and "\<And>r meta. idx (index_namespace r meta) = index_map (ns_Namespace meta) f (es meta) (idx r)"
    and "idx (empty_registry nss) = []"
  shows "\<exists>ns \<in> set nss. \<exists>name \<in> set (map fst (es ns)). ns_Namespace ns @ ''.'' @ name = key"
  using index_sources [where idx = idx, OF assms(2,1)] assms(3) by (force simp: qual_key_def)

lemma known_target_declared:
  assumes "LoadAll dirs = Inr reg" "known_target reg kind key = Some True"
  shows "\<exists>ns \<in> set (concat dirs). \<exists>name \<in> set (declared_names kind ns). ns_Namespace ns @ ''.'' @ name = key"
proof -
  let ?nss = "concat dirs"
  have reg: "reg = foldl index_namespace (empty_registry ?nss) ?nss"
    using assms(1) by (auto simp: LoadAll_def Let_def split: if_splits)
  consider v where "kind = ''Struct'' \<or> kind = ''Union''" "map_of (reg_StructIndex reg) key = Some v"
    | v where "kind = ''Enum''" "map_of (reg_EnumBaseIndex reg) key = Some v"
    | v where "kind = ''Typedef''" "map_of (reg_TypedefIndex reg) key = Some v"
    | v where "kind = ''FunctionPointer''" "map_of (reg_DelegateIndex reg) key = Some v"
    | v where "kind = ''Com''" "map_of (reg_InterfaceIndex reg) key = Some v"
    using assms(2) by (auto simp: known_target_def split: if_splits)
  then show ?thesis
  proof cases
    case 1
    from index_declares [where idx = reg_StructIndex and f = id and es = ns_Structs, OF 1(2) [unfolded reg]] 1(1) show ?thesis
      by (auto simp: declared_names_def index_namespace_def Let_def empty_registry_def)
  next
    case 2
    from index_declares [where idx = reg_EnumBaseIndex and f = en_BaseType and es = ns_Enums, OF 2(2) [unfolded reg]] 2(1) show ?thesis
      by (auto simp: declared_names_def index_namespace_def Let_def empty_registry_def)
  next
    case 3
    from index_declares [where idx = reg_TypedefIndex and f = id and es = ns_Typedefs, OF 3(2) [unfolded reg]] 3(1) show ?thesis
      by (auto simp: declared_names_def index_namespace_def Let_def empty_registry_def)
  next
    case 4
    from index_declares [where idx = reg_DelegateIndex and f = id and es = ns_Delegates, OF 4(2) [unfolded reg]] 4(1) show ?thesis
      by (auto simp: declared_names_def index_namespace_def Let_def empty_registry_def)
  next
    case 5
    from index_declares [where idx = reg_InterfaceIndex and f = id and es = ns_Interfaces, OF 5(2) [unfolded reg]] 5(1) show ?thesis
      by (auto simp: declared_names_def index_namespace_def Let_def empty_registry_def)
  qed
qed

lemma reference_errors_declared:
  assumes "LoadAll dirs = Inr reg" "reference_errors reg ns ref = []" "ref_Kind ref = ''ApiRef''" "ref_Api ref \<noteq> []"
  shows "declared_reference (concat dirs) ref"
proof -
  have "map_of (reg_ByNamespace reg) (ref_Api ref) \<noteq> None"
    using assms(2-4) by (auto simp: reference_errors_def Let_def split: if_splits)
  then obtain meta where "map_of (reg_ByNamespace reg) (ref_Api ref) = Some meta" by blast
  from loaded_sources(2) [OF assms(1) this] have "\<exists>ns \<in> set (concat dirs). ns_Namespace ns = ref_Api ref" by blast
  moreover from reference_errors_known [OF assms(2-4)]
  have "known_target reg (ref_TargetKind ref) (ref_Api ref @ ''.'' @ ref_Name ref) = Some True"
    by (simp add: ref_known_def qual_key_def)
  from known_target_declared [OF assms(1) this] have
    "\<exists>ns \<in> set (concat dirs). \<exists>name \<in> set (declared_names (ref_TargetKind ref) ns).
       ns_Namespace ns @ ''.'' @ name = ref_Api ref @ ''.'' @ ref_Name ref" .
  ultimately show ?thesis by (simp add: declared_reference_def)
qed


text \<open>Two namespaces that the check accepts, with a typedef between them.\<close>

definition valid_foundation :: namespace_meta where
  "valid_foundation = (empty_namespace ''Foundation'')\<lparr>ns_Typedefs := [(''HANDLE'', plain_typedef (PointerTo (Native ''Void'')))]\<rparr>"

definition valid_threading :: namespace_meta where
  "valid_threading = (empty_namespace ''Threading'')\<lparr>ns_Structs :=
     [(''WAIT'', ex_struct [ArrayOf 4 (ApiRef ''Typedef'' ''Foundation'' ''HANDLE'')])]\<rparr>"

definition valid_registry :: registry where
  "valid_registry = ex_registry [valid_foundation, valid_threading]"


end
