(* ===== verification/EmissionFacts.thy ===== *)
theory EmissionFacts
  imports RunOutput Validate
begin

text \<open>
  What the run of the generator guarantees: it emits the requested namespaces, each once, and everything
  the emitted packages refer to, and their packages are in the output tree.
\<close>

section \<open>The worklist\<close>

lemma set_discovered: "set (discovered emitted g) = set (rn_Referenced (g_resolution g)) - set emitted"
  by (auto simp: discovered_def IsExternal_def)

text \<open>What holds before every round: references are emitted or waiting, once something was emitted.\<close>

definition loop_ok :: "namespace_meta gomap \<Rightarrow> string list \<Rightarrow> string list \<Rightarrow> generator \<Rightarrow> bool" where
  "loop_ok byNamespace pending emitted g \<longleftrightarrow> distinct emitted \<and> set emitted \<subseteq> fst ` set byNamespace \<and>
     (emitted \<noteq> [] \<longrightarrow> set (rn_Referenced (g_resolution g)) \<subseteq> set emitted \<union> set pending)"

lemma checkInformationalEntries_frame:
  "g_resolution (checkInformationalEntries g) = g_resolution g" "g_coverage (checkInformationalEntries g) = g_coverage g"
proof -
  have "g_resolution (fold (\<lambda>k. diag (f k)) ks g) = g_resolution g" "g_coverage (fold (\<lambda>k. diag (f k)) ks g) = g_coverage g"
    for f :: "string \<Rightarrow> string" and ks
    by (induction ks arbitrary: g) (simp_all add: diag_def)
  then show "g_resolution (checkInformationalEntries g) = g_resolution g" "g_coverage (checkInformationalEntries g) = g_coverage g"
    by (simp_all add: checkInformationalEntries_def)
qed

lemma emit_loop_closed:
  "emit_loop rd byNamespace pending emitted g = Some (Inr (result, g')) \<Longrightarrow> loop_ok byNamespace pending emitted g \<Longrightarrow>
     loop_ok byNamespace [] result g' \<and> set emitted \<union> set pending \<subseteq> set result"
proof (induction rd byNamespace pending emitted g rule: emit_loop.induct)
  case (1 rd byNamespace emitted g)
  then show ?case by simp
next
  case (2 rd byNamespace ns pending emitted g)
  show ?case
  proof (cases "ns \<in> set emitted")
    case True
    moreover have "loop_ok byNamespace pending emitted g" using 2(4) True by (auto simp: loop_ok_def)
    ultimately show ?thesis using 2 by auto
  next
    case False
    obtain meta where meta: "map_of byNamespace ns = Some meta" using 2(3) False by (auto split: option.split_asm)
    obtain g1 where g1: "emitNamespace rd meta g = Some (Inr g1)"
      using 2(3) False meta by (auto split: option.split_asm sum.split_asm)
    have "ns \<in> fst ` set byNamespace" using meta by (auto dest: map_of_SomeD intro: image_eqI [of _ _ "(ns, meta)"])
    then have "loop_ok byNamespace (pending @ discovered (ns # emitted) g1) (ns # emitted) g1"
      using 2(4) False by (auto simp: loop_ok_def set_discovered)
    moreover have "emit_loop rd byNamespace (pending @ discovered (ns # emitted) g1) (ns # emitted) g1 = Some (Inr (result, g'))"
      using 2(3) False meta g1 by simp
    ultimately show ?thesis using 2(2) [OF False meta g1 refl] by auto
  qed
qed

section \<open>The packages\<close>

text \<open>
  The package of a namespace was written under the output directory: its comment is there, and the
  counters of the coverage report hold what the namespace declares.
\<close>

definition package_emitted :: "string \<Rightarrow> namespace_meta \<Rightarrow> generator \<Rightarrow> bool" where
  "package_emitted dir meta g \<longleftrightarrow>
     dir @ ''/'' @ PackagePath (ns_Namespace meta) @ ''/doc.go'' \<in> fst ` set (g_writtenFiles g) \<and>
     count_of cov_Structs (ns_Namespace meta) g = length (entries (ns_Structs meta)) \<and>
     count_of cov_Methods (ns_Namespace meta) g = sum_list (map (length \<circ> ci_Methods \<circ> snd) (entries (ns_Interfaces meta))) \<and>
     count_of cov_Functions (ns_Namespace meta) g = functionCandidates meta \<and>
     count_of cov_Closers (ns_Namespace meta) g = length (filter (\<lambda>(n, td). td_FreeFunc td \<noteq> []) (entries (ns_Typedefs meta)))"

lemma emitNamespace_package: "emitNamespace rd meta g = Some (Inr g') \<Longrightarrow> package_emitted (g_outDir g) meta g'"
  using emitNamespace_adds [of rd meta g g']
  by (simp add: package_emitted_def package_dir_def join_path_def)

lemma package_emitted_stays:
  "package_emitted dir meta g \<Longrightarrow> adds {} ns g g' \<Longrightarrow> ns_Namespace meta \<noteq> ns \<Longrightarrow> package_emitted dir meta g'"
  unfolding package_emitted_def adds_def by auto

lemma emit_loop_packages:
  assumes "\<And>ns meta. map_of byNamespace ns = Some meta \<Longrightarrow> ns_Namespace meta = ns"
  shows "emit_loop rd byNamespace pending emitted g = Some (Inr (result, g')) \<Longrightarrow>
     \<forall>ns \<in> set emitted. \<exists>meta. map_of byNamespace ns = Some meta \<and> package_emitted (g_outDir g) meta g \<Longrightarrow>
     \<forall>ns \<in> set result. \<exists>meta. map_of byNamespace ns = Some meta \<and> package_emitted (g_outDir g) meta g'"
  using assms
proof (induction rd byNamespace pending emitted g rule: emit_loop.induct)
  case (1 rd byNamespace emitted g)
  then show ?case by simp
next
  case (2 rd byNamespace ns pending emitted g)
  note keys = "2.prems"(3)
  show ?case
  proof (cases "ns \<in> set emitted")
    case True
    with 2 show ?thesis by simp
  next
    case False
    obtain meta where meta: "map_of byNamespace ns = Some meta" using 2(3) False by (auto split: option.split_asm)
    obtain g1 where g1: "emitNamespace rd meta g = Some (Inr g1)"
      using 2(3) False meta by (auto split: option.split_asm sum.split_asm)
    note adds = emitNamespace_adds(1) [OF g1]
    have out: "g_outDir g1 = g_outDir g" using adds by (simp add: adds_def)
    have "\<forall>x \<in> set (ns # emitted). \<exists>meta. map_of byNamespace x = Some meta \<and> package_emitted (g_outDir g) meta g1"
    proof
      fix x assume "x \<in> set (ns # emitted)"
      then consider "x = ns" | m where "x \<noteq> ns" "map_of byNamespace x = Some m" "package_emitted (g_outDir g) m g"
        using 2(4) False by auto
      then show "\<exists>meta. map_of byNamespace x = Some meta \<and> package_emitted (g_outDir g) meta g1"
      proof cases
        case 1
        with meta emitNamespace_package [OF g1] show ?thesis by blast
      next
        case 2
        have "package_emitted (g_outDir g) m g1"
          by (rule package_emitted_stays [OF 2(3) adds]) (use 2(1) keys [OF 2(2)] keys [OF meta] in simp)
        with 2(2) show ?thesis by blast
      qed
    qed
    moreover have "emit_loop rd byNamespace (pending @ discovered (ns # emitted) g1) (ns # emitted) g1 = Some (Inr (result, g'))"
      using 2(3) False meta g1 by simp
    ultimately show ?thesis using "2.IH"(2) [OF False meta g1 refl _ _ keys] unfolding out by blast
  qed
qed

lemma write_tree_files: "fst ` set written \<subseteq> fst ` set (ft_Files (write_tree root written t))"
proof -
  have "fst ` set (ft_Files t) \<union> fst ` set ws \<subseteq> fst ` set (ft_Files (write_tree root ws t))" for ws
  proof (induction ws arbitrary: t)
    case (Cons w ws)
    obtain p c where w: "w = (p, c)" by fastforce
    let ?u = "t\<lparr>ft_Files := AList.update p c (ft_Files t), ft_Dirs := List.union (parent_dirs root p) (ft_Dirs t)\<rparr>"
    have "write_tree root (w # ws) t = write_tree root ws ?u" by (simp add: write_tree_def w)
    moreover have "fst ` set (ft_Files ?u) = insert p (fst ` set (ft_Files t))" by (simp add: dom_update)
    ultimately show ?case using Cons.IH [of ?u] by (simp add: w)
  qed (simp add: write_tree_def)
  from this [of written] show ?thesis by blast
qed

lemma pruneStale_files: "ft_Files (pruneStale full written t) = filter (\<lambda>e. \<not> stale_file full written e) (ft_Files t)"
proof -
  have "ft_Files (fold remove_empty ds u) = ft_Files u" for ds u
    by (induction ds arbitrary: u) (simp_all add: remove_empty_def)
  then show ?thesis by (simp add: pruneStale_def)
qed

lemma written_files_stay:
  "fst ` set written \<subseteq> fst ` set (ft_Files (pruneStale full written (write_tree root written t)))"
proof
  fix p assume p: "p \<in> fst ` set written"
  then have "p \<in> fst ` set (ft_Files (write_tree root written t))" by (rule subsetD [OF write_tree_files])
  then obtain c where "(p, c) \<in> set (ft_Files (write_tree root written t))" by auto
  moreover have "\<not> stale_file full written (p, c)" using p by (simp add: stale_file_def)
  ultimately show "p \<in> fst ` set (ft_Files (pruneStale full written (write_tree root written t)))"
    by (force simp: pruneStale_files)
qed

lemma skip_rounds_out: "skip_rounds n g = Some g' \<Longrightarrow> g_outDir g' = g_outDir g"
proof -
  have space: "output_frame.quiet (same_output g0) (skip_namespace meta g)" if "same_output g0 g" for g0 meta g
    using that unfolding skip_namespace_def Let_def buildStructModels_def
    by (auto intro!: silent.quiet_bind silent.quiet_struct_models silent.quiet_buildArchStructModels split: prod.split)
  have round: "output_frame.quiet (same_output g0) (skip_round metas g)" if "same_output g0 g" for g0 metas g
    using that by (induction metas arbitrary: g) (auto intro!: silent.quiet_bind space)
  show "skip_rounds n g = Some g' \<Longrightarrow> g_outDir g' = g_outDir g"
  proof (induction n arbitrary: g)
    case (Suc n)
    then obtain b g1 where 1: "skip_round (reg_Namespaces (g_registry g)) g = Some (b, g1)"
      "(if b then skip_rounds n g1 else Some g1) = Some g'" by (auto simp: bind_eq_Some_conv)
    from silent.quietD [OF round [OF same_output_refl] 1(1)] have "g_outDir g1 = g_outDir g" by (simp add: same_output_def)
    with Suc.IH [of g1] 1(2) show ?case by (auto split: if_split_asm)
  qed simp
qed


text \<open>Renderers with no text, and a registry in which only B refers to another namespace.\<close>

definition blank_renderers :: renderers where
  "blank_renderers = \<lparr>rd_Typedef = \<lambda>_. Inr [], rd_Enum = \<lambda>_. Inr [], rd_Struct = \<lambda>_. Inr [], rd_Delegate = \<lambda>_. Inr [],
     rd_Interface = \<lambda>_. Inr [], rd_Constant = \<lambda>_. Inr [], rd_Function = \<lambda>_. Inr [], rd_DLL = \<lambda>_. Inr [],
     rd_Procs = \<lambda>_. Inr [], rd_format = Inr\<rparr>"

definition leak_namespaces :: "namespace_meta list" where
  "leak_namespaces = [empty_namespace ''A'',
     (empty_namespace ''B'')\<lparr>ns_Structs := [(''S'', plain_struct [TypeRef ''ApiRef'' ''T'' ''C'' ''Struct'' None 0 False])]\<rparr>,
     (empty_namespace ''C'')\<lparr>ns_Structs := [(''T'', plain_struct [Native ''Int32''])]\<rparr>]"

definition leak_generator :: generator where
  "leak_generator = New (foldl index_namespace (empty_registry leak_namespaces) leak_namespaces) [] ''out''"

definition empty_tree :: file_tree where
  "empty_tree = \<lparr>ft_Files = [], ft_Dirs = []\<rparr>"

text \<open>
  A filtered run is not limited to what the filter refers to: the pre-pass resolves the structures of
  every loaded namespace and what it records stays recorded, so here C is emitted for B, which is not.
\<close>

lemma EmitAll_filter_leak:
  "map_option (map_sum id fst) (EmitAll blank_renderers [''A''] empty_tree leak_generator) = Some (Inr 2)"
  by code_simp


end
