(* ===== verification/Diff.thy ===== *)
theory Diff
  imports Layout Files
begin

text \<open>
  Metadata files and their comparison: \<open>internal/win32meta/io.go\<close>, \<open>cmd/generate/diff.go\<close> and the lookup of
  \<open>cmd/inspect/main.go\<close>.

  JSON is a parameter: \<open>json.Marshal\<close> of each kind of declaration as a function to the text, \<open>None\<close> when
  it returns an error, and the decoder of a metadata file. A directory is a map from file names to
  contents.
\<close>

section \<open>Metadata files\<close>

definition FileName :: "string \<Rightarrow> string" where
  "FileName namespace = namespace @ ''.w32meta.json''"

text \<open>The file \<open>Write\<close> leaves in the directory; it stamps the schema version on what it writes.\<close>

definition Write :: "(namespace_meta \<Rightarrow> string + string) \<Rightarrow> namespace_meta \<Rightarrow> string gomap \<Rightarrow> string + string gomap" where
  "Write encode meta dir =
     (let meta = meta\<lparr>ns_SchemaVersion := CurrentSchemaVersion\<rparr> in
      case encode meta of
        Inl e \<Rightarrow> Inl (''w32meta: marshaling '' @ ns_Namespace meta @ '': '' @ e)
      | Inr data \<Rightarrow> Inr (AList.update (FileName (ns_Namespace meta)) (data @ [newline]) dir))"

definition Read :: "(string \<Rightarrow> string + namespace_meta) \<Rightarrow> string \<Rightarrow> string \<Rightarrow> string + namespace_meta" where
  "Read decode path data =
     (case decode data of
        Inl e \<Rightarrow> Inl (''w32meta: parsing '' @ path @ '': '' @ e)
      | Inr meta \<Rightarrow>
          if ns_SchemaVersion meta \<noteq> CurrentSchemaVersion then
            Inl (''w32meta schema version mismatch: '' @ path @ '' has version '' @ show_int (ns_SchemaVersion meta) @
                 '', want '' @ show_int CurrentSchemaVersion @ '' (re-run ingest)'')
          else Inr meta)"

fun read_files :: "(string \<Rightarrow> string + namespace_meta) \<Rightarrow> (string \<times> string) list \<Rightarrow> string + namespace_meta list" where
  "read_files decode [] = Inr []"
| "read_files decode ((path, data) # files) =
     (case Read decode path data of Inl e \<Rightarrow> Inl e | Inr meta \<Rightarrow> map_sum id ((#) meta) (read_files decode files))"

text \<open>\<open>ReadAll\<close>: \<open>filepath.Glob\<close> returns the matching names in order.\<close>

definition ReadAll :: "(string \<Rightarrow> string + namespace_meta) \<Rightarrow> string gomap \<Rightarrow> string + namespace_meta list" where
  "ReadAll decode dir =
     read_files decode (sort_key fst (filter (\<lambda>e. has_suffix (fst e) ''.w32meta.json'') (entries dir)))"

section \<open>Comparison\<close>

record json_encoders =
  je_Function :: "function_decl \<Rightarrow> string option"
  je_Struct :: "struct_def \<Rightarrow> string option"
  je_Enum :: "enum_def \<Rightarrow> string option"
  je_Interface :: "com_interface \<Rightarrow> string option"
  je_Delegate :: "func_pointer \<Rightarrow> string option"
  je_Typedef :: "typedef_def \<Rightarrow> string option"
  je_Constant :: "constant_decl \<Rightarrow> string option"

record namespace_diff =
  nd_Namespace :: string
  nd_Changes :: "string list gomap"

record diff_report =
  dr_AddedNamespaces :: "string list"
  dr_RemovedNamespaces :: "string list"
  dr_Namespaces :: "namespace_diff list"

text \<open>Assigning in order: the last of several namespaces of one name counts.\<close>

definition indexNamespaces :: "namespace_meta list \<Rightarrow> namespace_meta gomap" where
  "indexNamespaces namespaces = rev (map (\<lambda>meta. (ns_Namespace meta, meta)) namespaces)"

definition jsonEqual :: "('v \<Rightarrow> string option) \<Rightarrow> 'v \<Rightarrow> 'v \<Rightarrow> bool" where
  "jsonEqual encode a b = (case (encode a, encode b) of (Some x, Some y) \<Rightarrow> x = y | _ \<Rightarrow> False)"

definition diff_new :: "('v \<Rightarrow> string option) \<Rightarrow> 'v gomap \<Rightarrow> string \<times> 'v \<Rightarrow> string list" where
  "diff_new encode oldByName e = (case e of (name, newValue) \<Rightarrow>
     (case map_of oldByName name of
        None \<Rightarrow> [CHR ''+'' # name]
      | Some oldValue \<Rightarrow> if jsonEqual encode oldValue newValue then [] else [CHR ''~'' # name]))"

definition diffNamed :: "('v \<Rightarrow> string option) \<Rightarrow> 'v gomap \<Rightarrow> 'v gomap \<Rightarrow> string list" where
  "diffNamed encode oldByName newByName =
     concat (map (diff_new encode oldByName) (entries newByName)) @
     map (\<lambda>e. CHR ''-'' # fst e) (filter (\<lambda>e. map_of newByName (fst e) = None) (entries oldByName))"

definition functionsByName :: "namespace_meta \<Rightarrow> function_decl gomap" where
  "functionsByName meta = rev (map (\<lambda>f. (fn_Name f, f)) (ns_Functions meta))"

definition constantsByName :: "namespace_meta \<Rightarrow> constant_decl gomap" where
  "constantsByName meta = rev (map (\<lambda>c. (cn_Name c, c)) (ns_Constants meta))"

text \<open>The closure \<open>record\<close>: a category without entries is not recorded.\<close>

definition record_change :: "string \<Rightarrow> string list \<Rightarrow> string list gomap \<Rightarrow> string list gomap" where
  "record_change category es changes = (if es = [] then changes else AList.update category (sort es) changes)"

definition compareNamespace :: "json_encoders \<Rightarrow> namespace_meta \<Rightarrow> namespace_meta \<Rightarrow> string list gomap" where
  "compareNamespace je oldMeta newMeta =
     (let changes = [];
          changes = record_change ''functions'' (diffNamed (je_Function je) (functionsByName oldMeta) (functionsByName newMeta)) changes;
          changes = record_change ''structs'' (diffNamed (je_Struct je) (ns_Structs oldMeta) (ns_Structs newMeta)) changes;
          changes = record_change ''enums'' (diffNamed (je_Enum je) (ns_Enums oldMeta) (ns_Enums newMeta)) changes;
          changes = record_change ''interfaces'' (diffNamed (je_Interface je) (ns_Interfaces oldMeta) (ns_Interfaces newMeta)) changes;
          changes = record_change ''delegates'' (diffNamed (je_Delegate je) (ns_Delegates oldMeta) (ns_Delegates newMeta)) changes;
          changes = record_change ''typedefs'' (diffNamed (je_Typedef je) (ns_Typedefs oldMeta) (ns_Typedefs newMeta)) changes
      in record_change ''constants'' (diffNamed (je_Constant je) (constantsByName oldMeta) (constantsByName newMeta)) changes)"

definition missing_keys :: "'v gomap \<Rightarrow> 'w gomap \<Rightarrow> string list" where
  "missing_keys m other = sort (filter (\<lambda>k. map_of other k = None) (map fst (entries m)))"

definition shared_keys :: "'v gomap \<Rightarrow> 'w gomap \<Rightarrow> string list" where
  "shared_keys m other = sort (filter (\<lambda>k. map_of other k \<noteq> None) (map fst (entries m)))"

definition compare_shared :: "json_encoders \<Rightarrow> namespace_meta gomap \<Rightarrow> namespace_meta gomap \<Rightarrow> string \<Rightarrow> namespace_diff list" where
  "compare_shared je oldIndex newIndex namespace =
     (case (map_of oldIndex namespace, map_of newIndex namespace) of
        (Some old, Some new) \<Rightarrow>
          (let changes = compareNamespace je old new in
           if changes = [] then [] else [\<lparr>nd_Namespace = namespace, nd_Changes = changes\<rparr>])
      | _ \<Rightarrow> [])"

definition compareTrees :: "json_encoders \<Rightarrow> namespace_meta gomap \<Rightarrow> namespace_meta gomap \<Rightarrow> diff_report" where
  "compareTrees je oldIndex newIndex =
     \<lparr>dr_AddedNamespaces = missing_keys newIndex oldIndex,
      dr_RemovedNamespaces = missing_keys oldIndex newIndex,
      dr_Namespaces = concat (map (compare_shared je oldIndex newIndex) (shared_keys newIndex oldIndex))\<rparr>"

section \<open>The markdown report\<close>

text \<open>\<open>%v\<close> of a list of strings.\<close>

definition show_strings :: "string list \<Rightarrow> string" where
  "show_strings xs = ''['' @ join_with '' '' xs @ '']''"

definition listCap :: nat where
  "listCap = 50"

definition category_line :: "string \<times> string list \<Rightarrow> string" where
  "category_line e = (case e of (category, es) \<Rightarrow>
     ''- **'' @ category @ ''** ('' @ show_nat (length es) @ ''): '' @
     (if listCap < length es then
        show_strings (take listCap es) @ '' '' @ [CHR 0xE2, CHR 0x80, CHR 0xA6] @ '' and '' @ show_nat (length es - listCap) @ '' more''
      else show_strings es))"

definition namespace_lines :: "string \<Rightarrow> string list \<Rightarrow> string list" where
  "namespace_lines title namespaces =
     (if namespaces = [] then [] else [[], ''## '' @ title] @ map ((@) ''- '') namespaces)"

definition printMarkdown :: "diff_report \<Rightarrow> string list" where
  "printMarkdown report =
     ''# Metadata API diff'' #
     (if dr_AddedNamespaces report = [] \<and> dr_RemovedNamespaces report = [] \<and> dr_Namespaces report = [] then [[], ''No changes.'']
      else namespace_lines ''Added namespaces'' (dr_AddedNamespaces report) @
        namespace_lines ''Removed namespaces'' (dr_RemovedNamespaces report) @
        concat (map (\<lambda>d. [[], ''## '' @ nd_Namespace d] @ map category_line (sort_key fst (nd_Changes d))) (dr_Namespaces report)))"

definition runDiff :: "json_encoders \<Rightarrow> (string \<Rightarrow> string + namespace_meta) \<Rightarrow> string gomap \<Rightarrow> string gomap \<Rightarrow> string + string list" where
  "runDiff je decode oldDir newDir =
     (case ReadAll decode oldDir of
        Inl e \<Rightarrow> Inl e
      | Inr oldNamespaces \<Rightarrow> (case ReadAll decode newDir of
            Inl e \<Rightarrow> Inl e
          | Inr newNamespaces \<Rightarrow>
              Inr (printMarkdown (compareTrees je (indexNamespaces oldNamespaces) (indexNamespaces newNamespaces)))))"

section \<open>Inspection\<close>

text \<open>
  What \<open>dumpOne\<close> prints, with the encoders of \<open>json.MarshalIndent\<close>: the first kind that has the name, where a
  constant replaces a function.
\<close>

definition dumpOne :: "json_encoders \<Rightarrow> namespace_meta \<Rightarrow> string \<Rightarrow> string option option" where
  "dumpOne je meta name =
     (case map_of (ns_Structs meta) name of Some s \<Rightarrow> Some (je_Struct je s) | None \<Rightarrow>
      case map_of (ns_Enums meta) name of Some e \<Rightarrow> Some (je_Enum je e) | None \<Rightarrow>
      case map_of (ns_Interfaces meta) name of Some i \<Rightarrow> Some (je_Interface je i) | None \<Rightarrow>
      case map_of (ns_Delegates meta) name of Some d \<Rightarrow> Some (je_Delegate je d) | None \<Rightarrow>
      case map_of (ns_Typedefs meta) name of Some t \<Rightarrow> Some (je_Typedef je t) | None \<Rightarrow>
      case find (\<lambda>c. cn_Name c = name) (ns_Constants meta) of Some c \<Rightarrow> Some (je_Constant je c) | None \<Rightarrow>
      map_option (je_Function je) (find (\<lambda>f. fn_Name f = name) (ns_Functions meta)))"

end
