(* ===== verification/DiffFacts.thy ===== *)
theory DiffFacts
  imports Diff
begin

text \<open>
  What the comparison of two metadata trees reports: nothing exactly when they declare the same, up to
  JSON.
\<close>

section \<open>One category\<close>

lemma map_of_entries: "map_of (entries m) = map_of m"
  by (simp add: entries_def map_of_clearjunk)

lemma keys_entries: "fst ` set (entries m) = fst ` set m"
  by (metis map_of_entries dom_map_of_conv_image_fst)

lemma distinct_entries: "distinct (map fst (entries m))"
  by (simp add: entries_def distinct_clearjunk)

lemma diff_new_iff:
  "x \<in> set (diff_new encode old (k, v)) \<longleftrightarrow> map_of old k = None \<and> x = CHR ''+'' # k \<or>
     (\<exists>a. map_of old k = Some a \<and> \<not> jsonEqual encode a v \<and> x = CHR ''~'' # k)"
  by (cases "map_of old k") (auto simp: diff_new_def)

lemma diffNamed_entries:
  "CHR ''+'' # name \<in> set (diffNamed encode old new) \<longleftrightarrow> map_of old name = None \<and> map_of new name \<noteq> None"
  "CHR ''-'' # name \<in> set (diffNamed encode old new) \<longleftrightarrow> map_of old name \<noteq> None \<and> map_of new name = None"
  "CHR ''~'' # name \<in> set (diffNamed encode old new) \<longleftrightarrow>
     (\<exists>a b. map_of old name = Some a \<and> map_of new name = Some b \<and> \<not> jsonEqual encode a b)"
proof -
  have e: "(k, v) \<in> set (entries m) \<longleftrightarrow> map_of m k = Some v" for k v and m :: "'a gomap"
    by (rule in_entries_iff)
  have new: "x \<in> set (concat (map (diff_new encode old) (entries new))) \<longleftrightarrow>
      (\<exists>k v. map_of new k = Some v \<and> x \<in> set (diff_new encode old (k, v)))" for x
    using e [where m = new] by auto
  have gone: "x \<in> set (map (\<lambda>e. CHR ''-'' # fst e) (filter (\<lambda>e. map_of new (fst e) = None) (entries old))) \<longleftrightarrow>
      (\<exists>k v. map_of old k = Some v \<and> map_of new k = None \<and> x = CHR ''-'' # k)" for x
    using e [where m = old] by force
  note sets = diffNamed_def set_append Un_iff new gone diff_new_iff
  show "CHR ''+'' # name \<in> set (diffNamed encode old new) \<longleftrightarrow> map_of old name = None \<and> map_of new name \<noteq> None"
    unfolding sets by auto
  show "CHR ''-'' # name \<in> set (diffNamed encode old new) \<longleftrightarrow> map_of old name \<noteq> None \<and> map_of new name = None"
    unfolding sets by auto
  show "CHR ''~'' # name \<in> set (diffNamed encode old new) \<longleftrightarrow>
     (\<exists>a b. map_of old name = Some a \<and> map_of new name = Some b \<and> \<not> jsonEqual encode a b)"
    unfolding sets by auto
qed

lemma rel_option_iff_both:
  "rel_option P x y \<longleftrightarrow> (x \<noteq> None \<longleftrightarrow> y \<noteq> None) \<and> (\<forall>a b. x = Some a \<longrightarrow> y = Some b \<longrightarrow> P a b)"
  by (cases x; cases y) auto

lemma rel_option_maps:
  "(\<forall>k. g k \<noteq> None \<longrightarrow> f k \<noteq> None) \<and> (\<forall>k. f k \<noteq> None \<longrightarrow> g k \<noteq> None) \<and>
     (\<forall>k a b. f k = Some a \<longrightarrow> g k = Some b \<longrightarrow> P a b) \<longleftrightarrow> (\<forall>k. rel_option P (f k) (g k))"
  unfolding rel_option_iff_both by (intro iffI allI conjI impI) simp_all

text \<open>Two maps declare the same: each name in both, with equal JSON, or in none.\<close>

definition same_named :: "('v \<Rightarrow> string option) \<Rightarrow> 'v gomap \<Rightarrow> 'v gomap \<Rightarrow> bool" where
  "same_named encode old new \<longleftrightarrow> (\<forall>name. rel_option (jsonEqual encode) (map_of old name) (map_of new name))"

lemma diffNamed_Nil: "diffNamed encode old new = [] \<longleftrightarrow> same_named encode old new"
proof
  assume "diffNamed encode old new = []"
  then have "x \<notin> set (diffNamed encode old new)" for x by simp
  then have "map_of old name = None \<longleftrightarrow> map_of new name = None"
    and "map_of old name = Some a \<Longrightarrow> map_of new name = Some b \<Longrightarrow> jsonEqual encode a b" for name a b
    using diffNamed_entries [of _ encode old new] by blast+
  then show "same_named encode old new"
    unfolding same_named_def rel_option_iff_both by simp
next
  assume same: "same_named encode old new"
  have "concat (map (diff_new encode old) (entries new)) = []"
  proof -
    have "diff_new encode old e = []" if "e \<in> set (entries new)" for e
    proof -
      obtain k v where e: "e = (k, v)" by fastforce
      have "map_of new k = Some v" using that by (simp add: e in_entries_iff)
      with same obtain a where "map_of old k = Some a" "jsonEqual encode a v"
        unfolding same_named_def by (metis option_rel_Some2)
      then show ?thesis by (simp add: diff_new_def e)
    qed
    then show ?thesis by simp
  qed
  moreover have "filter (\<lambda>e. map_of new (fst e) = None) (entries old) = []"
  proof -
    have "map_of new (fst e) \<noteq> None" if "e \<in> set (entries old)" for e
    proof -
      obtain k v where e: "e = (k, v)" by fastforce
      have "map_of old k = Some v" using that by (simp add: e in_entries_iff)
      with same show ?thesis unfolding same_named_def by (metis e fst_conv option_rel_Some1 option.distinct(1))
    qed
    then show ?thesis by (simp add: filter_empty_conv)
  qed
  ultimately show "diffNamed encode old new = []" by (simp add: diffNamed_def)
qed

section \<open>Namespaces and trees\<close>

lemma record_change_Nil: "record_change category es changes = [] \<longleftrightarrow> es = [] \<and> changes = []"
proof -
  have "AList.update category v changes \<noteq> []" for v by (cases changes) auto
  then show ?thesis by (simp add: record_change_def)
qed

definition same_api :: "json_encoders \<Rightarrow> namespace_meta \<Rightarrow> namespace_meta \<Rightarrow> bool" where
  "same_api je a b \<longleftrightarrow>
     same_named (je_Function je) (functionsByName a) (functionsByName b) \<and>
     same_named (je_Struct je) (ns_Structs a) (ns_Structs b) \<and>
     same_named (je_Enum je) (ns_Enums a) (ns_Enums b) \<and>
     same_named (je_Interface je) (ns_Interfaces a) (ns_Interfaces b) \<and>
     same_named (je_Delegate je) (ns_Delegates a) (ns_Delegates b) \<and>
     same_named (je_Typedef je) (ns_Typedefs a) (ns_Typedefs b) \<and>
     same_named (je_Constant je) (constantsByName a) (constantsByName b)"

lemma compareNamespace_Nil: "compareNamespace je a b = [] \<longleftrightarrow> same_api je a b"
  by (auto simp: compareNamespace_def Let_def record_change_Nil diffNamed_Nil same_api_def)

lemma sort_Nil_iff: "sort xs = [] \<longleftrightarrow> xs = []"
  by (metis length_sort length_0_conv)

lemma missing_keys_Nil: "missing_keys m other = [] \<longleftrightarrow> (\<forall>k. map_of m k \<noteq> None \<longrightarrow> map_of other k \<noteq> None)"
proof -
  have "k \<in> fst ` set (entries m) \<longleftrightarrow> map_of m k \<noteq> None" for k
    by (simp add: keys_entries map_of_eq_None_iff)
  moreover have "missing_keys m other = [] \<longleftrightarrow> (\<forall>k \<in> fst ` set (entries m). map_of other k \<noteq> None)"
    by (simp add: missing_keys_def sort_Nil_iff filter_empty_conv)
  ultimately show ?thesis by blast
qed

lemma set_shared_keys: "set (shared_keys m other) = {k. map_of m k \<noteq> None \<and> map_of other k \<noteq> None}"
proof -
  have "k \<in> fst ` set (entries m) \<longleftrightarrow> map_of m k \<noteq> None" for k
    by (simp add: keys_entries map_of_eq_None_iff)
  then show ?thesis by (auto simp: shared_keys_def)
qed

text \<open>
  The comparison reports nothing exactly when both trees have the same namespaces and these declare
  the same names of every kind with the same JSON; where it reports something the report is not the
  line that says there are no changes.
\<close>

theorem compareTrees_silent:
  "(printMarkdown (compareTrees je old new) = [''# Metadata API diff'', [], ''No changes.'']) =
   (\<forall>namespace. rel_option (same_api je) (map_of old namespace) (map_of new namespace))"
proof -
  let ?r = "compareTrees je old new"
  let ?silent = "dr_AddedNamespaces ?r = [] \<and> dr_RemovedNamespaces ?r = [] \<and> dr_Namespaces ?r = []"
  have shared: "dr_Namespaces ?r = [] \<longleftrightarrow> (\<forall>k a b. map_of old k = Some a \<longrightarrow> map_of new k = Some b \<longrightarrow> same_api je a b)"
  proof -
    have "dr_Namespaces ?r = [] \<longleftrightarrow> (\<forall>k \<in> set (shared_keys new old). compare_shared je old new k = [])"
      by (simp add: compareTrees_def)
    also have "\<dots> \<longleftrightarrow> (\<forall>k a b. map_of old k = Some a \<longrightarrow> map_of new k = Some b \<longrightarrow> compare_shared je old new k = [])"
      unfolding set_shared_keys by blast
    also have "\<dots> \<longleftrightarrow> (\<forall>k a b. map_of old k = Some a \<longrightarrow> map_of new k = Some b \<longrightarrow> same_api je a b)"
      by (simp add: compare_shared_def Let_def compareNamespace_Nil) blast
    finally show ?thesis .
  qed
  have "?silent \<longleftrightarrow> (\<forall>k. rel_option (same_api je) (map_of old k) (map_of new k))"
    unfolding shared
    unfolding compareTrees_def diff_report.select_convs missing_keys_Nil
    by (rule rel_option_maps)
  moreover have "printMarkdown ?r = [''# Metadata API diff'', [], ''No changes.''] \<longleftrightarrow> ?silent"
    by (auto simp: printMarkdown_def namespace_lines_def neq_Nil_conv)
  ultimately show ?thesis by blast
qed

text \<open>
  Of several functions of one name only the last is compared: a change of an earlier one, such as the
  variant for another architecture, is not reported.
\<close>

lemma diff_shadowed:
  assumes "fn_Name g = fn_Name f" "fn_Name g' = fn_Name f" "je_Function je f \<noteq> None"
  shows "diffNamed (je_Function je) (functionsByName ((empty_namespace ns)\<lparr>ns_Functions := [g, f]\<rparr>))
    (functionsByName ((empty_namespace ns)\<lparr>ns_Functions := [g', f]\<rparr>)) = []"
  using assms by (auto simp: diffNamed_Nil same_named_def functionsByName_def jsonEqual_def)

section \<open>Metadata files\<close>

text \<open>What \<open>Write\<close> stored is read back, with the current schema version, if the decoder inverts the encoder on it.\<close>

lemma Read_Write:
  assumes "Write encode meta dir = Inr dir'"
    and "\<And>data. encode (meta\<lparr>ns_SchemaVersion := CurrentSchemaVersion\<rparr>) = Inr data \<Longrightarrow>
      decode (data @ [newline]) = Inr (meta\<lparr>ns_SchemaVersion := CurrentSchemaVersion\<rparr>)"
  shows "\<exists>data. map_of dir' (FileName (ns_Namespace meta)) = Some data \<and>
    Read decode path data = Inr (meta\<lparr>ns_SchemaVersion := CurrentSchemaVersion\<rparr>)"
proof -
  obtain data where e: "encode (meta\<lparr>ns_SchemaVersion := CurrentSchemaVersion\<rparr>) = Inr data"
    and d: "dir' = AList.update (FileName (ns_Namespace meta)) (data @ [newline]) dir"
    using assms(1) by (auto simp: Write_def Let_def split: sum.splits)
  from assms(2) [OF e] show ?thesis
    by (intro exI [of _ "data @ [newline]"]) (simp add: d Read_def update_conv')
qed

end
