(* ===== verification/Reports.thy ===== *)
theory Reports
  imports Emission "HOL-Library.Product_Lexorder"
begin

text \<open>
  What a run leaves besides the packages: the diagnostics baseline (\<open>internal/diagnostics/baseline.go\<close>), the
  layout tests (\<open>abitest.go\<close>), the coverage report (\<open>cmd/generate/coverage.go\<close>), and the commands that
  produce them (\<open>cmd/generate/main.go\<close>).

  Parameters: the JSON encoder and decoder of the baseline file, and the text of a percentage, which the
  code computes in floating point.
\<close>

section \<open>The diagnostics baseline\<close>

definition normalize_diagnostics :: "string list \<Rightarrow> string list" where
  "normalize_diagnostics diagnostics = sort (remdups diagnostics)"

text \<open>The contents of the file \<open>WriteBaseline\<close> writes.\<close>

definition WriteBaseline :: "(string list \<Rightarrow> string) \<Rightarrow> string list \<Rightarrow> string" where
  "WriteBaseline marshal diagnostics = marshal (normalize_diagnostics diagnostics) @ [newline]"

text \<open>The entries that are not in the committed file; of the system's error for a missing file only the start is kept.\<close>

definition CheckBaseline :: "(string \<Rightarrow> string + string list) \<Rightarrow> string \<Rightarrow> string gomap \<Rightarrow> string list \<Rightarrow> string + string list" where
  "CheckBaseline unmarshal path files diagnostics =
     (case map_of files path of
        None \<Rightarrow> Inl (''diagnostics baseline: open '' @ path)
      | Some data \<Rightarrow> (case unmarshal data of
          Inl e \<Rightarrow> Inl (''diagnostics baseline '' @ path @ '': '' @ e)
        | Inr known \<Rightarrow> Inr (filter (\<lambda>entry. entry \<notin> set known) (normalize_diagnostics diagnostics))))"

section \<open>Layout tests\<close>

definition ABIRecords :: "generator \<Rightarrow> abi_record list" where
  "ABIRecords g = map snd (sort_key fst (g_abiRecords g))"

definition ABITestFileName :: "string \<Rightarrow> string \<Rightarrow> string" where
  "ABITestFileName namespace arch =
     ''abi_'' @ replace_all ''/'' ''_'' (PackagePath namespace) @ (if arch \<noteq> [] then ''_'' @ arch else []) @ ''_test.go''"

text \<open>One line of the table: the name, the expression and the expected number.\<close>

definition abi_case :: "string \<Rightarrow> string \<Rightarrow> 32 word \<Rightarrow> string" where
  "abi_case name expr n =
     CHR 0x09 # ''{'' @ quoted name @ '', '' @ expr @ '', '' @ show_nat (unat n) @ ''},'' @ [newline]"

definition size_case :: "string \<Rightarrow> abi_record \<Rightarrow> string" where
  "size_case alias r = (let qualified = alias @ ''.'' @ ar_TypeName r in
     abi_case (qualified @ '' size'') (''unsafe.Sizeof('' @ qualified @ ''{})'') (ar_Size r))"

definition offset_case :: "string \<Rightarrow> abi_record \<Rightarrow> abi_field \<Rightarrow> string" where
  "offset_case alias r f = (let qualified = alias @ ''.'' @ ar_TypeName r in
     abi_case (qualified @ ''.'' @ af_Name f) (''unsafe.Offsetof('' @ qualified @ ''{}.'' @ af_Name f @ '')'') (af_Offset f))"

definition abi_lines :: "string \<Rightarrow> abi_record \<Rightarrow> string" where
  "abi_lines alias r = size_case alias r @ concat (map (offset_case alias r) (ar_Fields r))"

definition record_group :: "abi_record \<Rightarrow> string \<times> string" where
  "record_group r = (ar_Namespace r, ar_Arch r)"

definition abi_ident :: "string \<times> string \<Rightarrow> string" where
  "abi_ident key = (case key of (namespace, arch) \<Rightarrow>
     replace_all ''.'' ''_'' namespace @ (if arch \<noteq> [] then ''_'' @ arch else []))"

text \<open>The file before and after the rows of its table.\<close>

definition abi_head :: "(string \<Rightarrow> string) \<Rightarrow> string \<times> string \<Rightarrow> string" where
  "abi_head importPathFor key = (case key of (namespace, arch) \<Rightarrow>
     (let buildTag = (if arch \<noteq> [] then ''windows && '' @ arch else GeneratedBuildTag);
          scope = (if arch \<noteq> [] then ''every '' @ arch @ ''-specific struct'' else ''every struct'')
      in generatedHeader @ [newline, newline] @ ''//go:build '' @ buildTag @ [newline, newline] @
         ''package abi'' @ [newline, newline] @ ''import ('' @ [newline] @ tab_line (quoted ''testing'') @ tab_line (quoted ''unsafe'') @
         [newline] @ tab_line (ImportAlias namespace @ '' '' @ quoted (importPathFor namespace)) @ '')'' @ [newline, newline] @
         ''// abi'' @ abi_ident key @ '' holds the expected C layout of '' @ scope @ '' emitted for'' @ [newline] @
         ''// Windows.Win32.'' @ namespace @ ''.'' @ [newline] @ ''var abi'' @ abi_ident key @ '' = []abiCase{'' @ [newline]))"

definition abi_tail :: "string \<times> string \<Rightarrow> string" where
  "abi_tail key = ''}'' @ [newline, newline] @ ''func TestABI_'' @ abi_ident key @ ''(t *testing.T) { checkABI(t, abi'' @ abi_ident key @ '') }'' @ [newline]"

definition abi_file :: "(string \<Rightarrow> string) \<Rightarrow> abi_record list \<Rightarrow> string \<times> string \<Rightarrow> string" where
  "abi_file importPathFor records key =
     abi_head importPathFor key @
     concat (map (abi_lines (ImportAlias (fst key))) (filter (\<lambda>r. record_group r = key) records)) @ abi_tail key"

definition abi_groups :: "abi_record list \<Rightarrow> (string \<times> string) list" where
  "abi_groups records = sort (remdups (map record_group records))"

definition BuildABITests :: "abi_record list \<Rightarrow> (string \<Rightarrow> string) \<Rightarrow> string gomap" where
  "BuildABITests records importPathFor =
     fold (\<lambda>key. AList.update (ABITestFileName (fst key) (snd key)) (abi_file importPathFor records key)) (abi_groups records) []"

section \<open>Classes of diagnostics\<close>

text \<open>
  The regular expressions of \<open>coverage.go\<close> are alternatives of literal pieces with \<open>.*\<close> between them,
  some anchored at the start.
\<close>

record diagnostic_class =
  dc_name :: string
  dc_skip :: bool
  dc_pattern :: "(bool \<times> string list) list"

definition diagnosticClasses :: "diagnostic_class list" where
  "diagnosticClasses =
     [\<lparr>dc_name = ''function or method skipped: parameter not marshalable'', dc_skip = True,
        dc_pattern = [(False, [''param '', '' not marshalable''])]\<rparr>,
      \<lparr>dc_name = ''function or method skipped: return not marshalable'', dc_skip = True,
        dc_pattern = [(False, [''return with SetLastError not marshalable'']), (False, [''return not marshalable''])]\<rparr>,
      \<lparr>dc_name = ''function skipped: not a DLL export and no [Constant]'', dc_skip = True,
        dc_pattern = [(False, [''not a loadable module''])]\<rparr>,
      \<lparr>dc_name = ''struct skipped: no amd64 layout'', dc_skip = True, dc_pattern = [(False, [''no amd64 variant, skipped''])]\<rparr>,
      \<lparr>dc_name = ''struct or union skipped: layout not computable'', dc_skip = True,
        dc_pattern = [(False, [''layout not computable'']), (False, [''type unresolved, struct skipped''])]\<rparr>,
      \<lparr>dc_name = ''struct note: x86 layout differs, 64-bit layout emitted'', dc_skip = False,
        dc_pattern = [(False, [''emitting the 64-bit layout only''])]\<rparr>,
      \<lparr>dc_name = ''struct note: amd64 and arm64 layouts differ, emitted per architecture'', dc_skip = False,
        dc_pattern = [(False, [''emitted per architecture''])]\<rparr>,
      \<lparr>dc_name = ''handle closer not emitted'', dc_skip = True,
        dc_pattern = [(False, [''no closer'']), (False, [''closer name '', '' already used''])]\<rparr>,
      \<lparr>dc_name = ''name collision: construct dropped'', dc_skip = True,
        dc_pattern = [(False, [''name already used'']), (False, [''IID name '', '' already used'']), (False, [''Procs table name''])]\<rparr>,
      \<lparr>dc_name = ''name collision: -W suffix kept'', dc_skip = False, dc_pattern = [(False, [''bare name '', '' taken, keeping''])]\<rparr>,
      \<lparr>dc_name = ''constant skipped: initializer not representable'', dc_skip = True, dc_pattern = [(True, [''constant ''])]\<rparr>,
      \<lparr>dc_name = ''cross-namespace reference degraded (import cycle)'', dc_skip = False, dc_pattern = [(False, [''cycle break''])]\<rparr>,
      \<lparr>dc_name = ''reference to a skipped type degraded'', dc_skip = False, dc_pattern = [(False, [''reference to skipped type''])]\<rparr>,
      \<lparr>dc_name = ''interface skipped: unresolvable base chain'', dc_skip = True, dc_pattern = [(False, [''unresolvable base chain''])]\<rparr>,
      \<lparr>dc_name = ''interface note: base not embedded (import cycle)'', dc_skip = False, dc_pattern = [(False, [''not embedded''])]\<rparr>,
      \<lparr>dc_name = ''curated entry did not match (stale)'', dc_skip = False, dc_pattern = [(False, [''stale entry''])]\<rparr>,
      \<lparr>dc_name = ''informational-success annotation not applied'', dc_skip = False, dc_pattern = [(False, [''annotation not applied''])]\<rparr>]"

text \<open>The pieces from the start of the text, and from anywhere on its first line.\<close>

function match_here :: "string list \<Rightarrow> string \<Rightarrow> bool" and match_line :: "string list \<Rightarrow> string \<Rightarrow> bool" where
  "match_here ps s =
     (case ps of [] \<Rightarrow> True | p # ps \<Rightarrow> if has_prefix s p then match_line ps (drop (length p) s) else False)"
| "match_line ps s =
     (if match_here ps s then True
      else (case s of [] \<Rightarrow> False | c # cs \<Rightarrow> if c = newline then False else match_line ps cs))"
  by pat_completeness auto
termination
  by (relation "inv_image (less_than <*lex*> less_than <*lex*> less_than)
      (\<lambda>x. case x of Inl (ps, s) \<Rightarrow> (length ps, length s, 0 :: nat) | Inr (ps, s) \<Rightarrow> (length ps, length s, 1))") auto

declare match_here.simps [simp del] match_line.simps [simp del]

fun search_pieces :: "string list \<Rightarrow> string \<Rightarrow> bool" where
  "search_pieces ps [] = match_here ps []"
| "search_pieces ps (c # cs) = (if match_here ps (c # cs) then True else search_pieces ps cs)"

definition pattern_matches :: "(bool \<times> string list) list \<Rightarrow> string \<Rightarrow> bool" where
  "pattern_matches pattern s =
     list_ex (\<lambda>(anchored, ps). if anchored then match_here ps s else search_pieces ps s) pattern"

text \<open>The index of the first class that matches.\<close>

fun classify_from :: "nat \<Rightarrow> diagnostic_class list \<Rightarrow> string \<Rightarrow> nat option" where
  "classify_from i [] d = None"
| "classify_from i (class # classes) d =
     (if pattern_matches (dc_pattern class) d then Some i else classify_from (i + 1) classes d)"

definition classify :: "string \<Rightarrow> nat option" where
  "classify d = classify_from 0 diagnosticClasses d"

text \<open>\<open>not marshalable \(([^)]+)\)\<close>: what it captures at the first place where it matches.\<close>

definition captured_here :: "string \<Rightarrow> string option" where
  "captured_here s =
     (let rest = trim_prefix s ''not marshalable (''; t = takeWhile (\<lambda>c. c \<noteq> CHR '')'') rest in
      if has_prefix s ''not marshalable ('' \<and> t \<noteq> [] \<and> length t < length rest then Some t else None)"

fun notMarshalableType :: "string \<Rightarrow> string option" where
  "notMarshalableType [] = None"
| "notMarshalableType (c # cs) = (case captured_here (c # cs) of Some t \<Rightarrow> Some t | None \<Rightarrow> notMarshalableType cs)"

text \<open>The name before the colon in \<open>struct NAME: architecture-specific layout, emitted per architecture\<close>.\<close>

definition archVariantStruct :: "string \<Rightarrow> string option" where
  "archVariantStruct d =
     (let rest = trim_prefix d ''struct ''; word = takeWhile (\<lambda>c. \<not> (is_space c \<and> c \<noteq> CHR 0x0B)) rest in
      if has_prefix d ''struct '' \<and> 1 < length word \<and> last word = CHR '':'' \<and>
         has_prefix (drop (length word) rest) '' architecture-specific layout, emitted per architecture''
      then Some (butlast word) else None)"

section \<open>The coverage report\<close>

definition em_dash :: string where
  "em_dash = [CHR 0xE2, CHR 0x80, CHR 0x94]"

definition percent :: "(nat \<Rightarrow> nat \<Rightarrow> string) \<Rightarrow> nat \<Rightarrow> nat \<Rightarrow> string" where
  "percent percentage emitted declared = (if declared = 0 then em_dash else percentage emitted declared @ ''%'')"

definition ratio :: "nat \<Rightarrow> nat \<Rightarrow> string" where
  "ratio emitted declared =
     (if declared = 0 then em_dash
      else if emitted = declared then show_nat declared
      else show_nat emitted @ '' / '' @ show_nat declared)"

definition add_coverage :: "namespace_coverage \<Rightarrow> namespace_coverage \<Rightarrow> namespace_coverage" where
  "add_coverage e t = t\<lparr>
     cov_Functions := cov_Functions t + cov_Functions e, cov_FunctionsEmitted := cov_FunctionsEmitted t + cov_FunctionsEmitted e,
     cov_Methods := cov_Methods t + cov_Methods e, cov_MethodsEmitted := cov_MethodsEmitted t + cov_MethodsEmitted e,
     cov_Structs := cov_Structs t + cov_Structs e, cov_StructsEmitted := cov_StructsEmitted t + cov_StructsEmitted e,
     cov_Closers := cov_Closers t + cov_Closers e, cov_ClosersEmitted := cov_ClosersEmitted t + cov_ClosersEmitted e\<rparr>"

definition coverage_totals :: "namespace_coverage list \<Rightarrow> namespace_coverage" where
  "coverage_totals coverage = fold add_coverage coverage (new_coverage [])"

definition class_count :: "nat \<Rightarrow> string list \<Rightarrow> nat" where
  "class_count i diagnostics = length (filter (\<lambda>d. classify d = Some i) diagnostics)"

definition unclassified :: "string list \<Rightarrow> nat" where
  "unclassified diagnostics = length (filter (\<lambda>d. classify d = None) diagnostics)"

definition type_counts :: "string list \<Rightarrow> nat gomap" where
  "type_counts diagnostics =
     fold (\<lambda>d counts. case notMarshalableType d of None \<Rightarrow> counts | Some t \<Rightarrow> add_weight t 1 counts) diagnostics []"

text \<open>More skips first, then by name.\<close>

definition sorted_types :: "nat gomap \<Rightarrow> (string \<times> nat) list" where
  "sorted_types counts = sort_key (\<lambda>e. - int (snd e)) (sort_key fst counts)"

definition coverage_row :: "(nat \<Rightarrow> nat \<Rightarrow> string) \<Rightarrow> string \<Rightarrow> nat \<Rightarrow> nat \<Rightarrow> string" where
  "coverage_row percentage name emitted declared =
     ''| '' @ name @ '' | '' @ show_nat emitted @ '' | '' @ show_nat declared @ '' | '' @ percent percentage emitted declared @ '' |''"

definition class_rows :: "string list \<Rightarrow> string list" where
  "class_rows diagnostics = concat (map (\<lambda>i.
     (let class = diagnosticClasses ! i; n = class_count i diagnostics in
      if n = 0 then []
      else [''| '' @ dc_name class @ '' | '' @ (if dc_skip class then ''skip'' else ''note'') @ '' | '' @ show_nat n @ '' |'']))
     [0..<length diagnosticClasses])"

definition type_section :: "string list \<Rightarrow> string list" where
  "type_section diagnostics =
     (let counts = type_counts diagnostics in
      if counts = [] then []
      else [[], ''### Types behind the not-marshalable skips'', [], ''| Go type | Skips |'', ''|---|---:|''] @
        map (\<lambda>(t, n). ''| `'' @ t @ ''` | '' @ show_nat n @ '' |'') (sorted_types counts))"

definition arch_section :: "string list \<Rightarrow> string list" where
  "arch_section diagnostics =
     (let names = sort (List.map_filter archVariantStruct diagnostics) in
      if names = [] then []
      else [[], ''## Structs with architecture-specific layouts'', [],
          ''The amd64 and arm64 layouts of these differ (directly, or through a by-value'',
          ''field); each is emitted from its own metadata variant into `<pkg>_structs_amd64.go`'',
          ''and `<pkg>_structs_arm64.go`, and its ABI assertions run per architecture.'', []] @
        map (\<lambda>n. ''- `'' @ n @ ''`'') names)"

definition namespace_row :: "namespace_coverage \<Rightarrow> string" where
  "namespace_row e =
     ''| '' @ cov_Namespace e @ '' | '' @ ratio (cov_FunctionsEmitted e) (cov_Functions e) @ '' | '' @
     ratio (cov_MethodsEmitted e) (cov_Methods e) @ '' | '' @ ratio (cov_StructsEmitted e) (cov_Structs e) @ '' | '' @
     ratio (cov_ClosersEmitted e) (cov_Closers e) @ '' |''"

definition writeCoverage :: "(nat \<Rightarrow> nat \<Rightarrow> string) \<Rightarrow> string \<Rightarrow> namespace_coverage list \<Rightarrow> string list \<Rightarrow> string" where
  "writeCoverage percentage version coverage diagnostics =
     (let totals = coverage_totals coverage; row = coverage_row percentage in
      concat (map (\<lambda>line. line @ [newline])
       ([''# Coverage'', [],
         ''<!-- Generated by `go run ./cmd/generate bindings --coverage docs/COVERAGE.md`; do not edit. -->'', [],
         ''Generated from `Microsoft.Windows.SDK.Win32Metadata` **'' @ version @ ''** (`metadata/winmd/Windows.Win32.winmd`).'', [],
         ''Everything the metadata declares is emitted unless a diagnostic below says'',
         ''otherwise; the diagnostics are ratcheted in CI (`metadata/diagnostics-baseline.json`).'', [],
         ''## Totals'', [],
         ''| Construct | Emitted | Declared | Coverage |'', ''|---|---:|---:|---:|'',
         row ''Namespaces (packages)'' (length coverage) (length coverage),
         row ''Functions'' (cov_FunctionsEmitted totals) (cov_Functions totals),
         row ''COM methods'' (cov_MethodsEmitted totals) (cov_Methods totals),
         row ''Structs and unions'' (cov_StructsEmitted totals) (cov_Structs totals),
         row ''Handle closers (`[RAIIFree]`)'' (cov_ClosersEmitted totals) (cov_Closers totals),
         [], ''## Diagnostics by class'', [],
         show_nat (length diagnostics) @ '' diagnostics. '' @ quoted ''Skip'' @
           '' classes drop a construct; the others record a degradation or a note.'', [],
         ''| Class | Kind | Count |'', ''|---|---|---:|''] @
        class_rows diagnostics @
        (if 0 < unclassified diagnostics then [''| (unclassified) | | '' @ show_nat (unclassified diagnostics) @ '' |''] else []) @
        type_section diagnostics @ arch_section diagnostics @
        [[], ''## Per namespace'', [],
         ''Functions and COM methods emitted / declared; namespaces with no gap are listed for completeness.'', [],
         ''| Namespace | Functions | COM methods | Structs | Closers |'', ''|---|---:|---:|---:|---:|''] @
        map namespace_row coverage)))"

section \<open>The commands\<close>

definition winmdVersion :: "(string \<times> string) list option \<Rightarrow> string \<Rightarrow> string" where
  "winmdVersion records base =
     (case records of
        None \<Rightarrow> []
      | Some [] \<Rightarrow> []
      | Some (r # rs) \<Rightarrow> (case map_of (r # rs) base of Some version \<Rightarrow> version | None \<Rightarrow> snd r))"

definition registryWinmdVersion :: "registry \<Rightarrow> string" where
  "registryWinmdVersion reg =
     (case find (\<lambda>meta. ns_WinmdVersion meta \<noteq> []) (reg_Namespaces reg) of
        Some meta \<Rightarrow> ns_WinmdVersion meta | None \<Rightarrow> ''unknown'')"

definition modulePath :: string where
  "modulePath = ''github.com/deploymenttheory/go-bindings-win32''"

definition trim_space :: "string \<Rightarrow> string" where
  "trim_space s = rev (dropWhile is_space (rev (dropWhile is_space s)))"

text \<open>The filter of the comma-separated \<open>--namespace\<close> flag.\<close>

definition parse_filter :: "string \<Rightarrow> string list" where
  "parse_filter namespaceFilter = remdups (filter (\<lambda>n. n \<noteq> []) (map trim_space (split_on (CHR '','') namespaceFilter)))"

text \<open>The flags that are paths are empty when they are not given.\<close>

record bindings_flags =
  bf_out :: string
  bf_namespace :: string
  bf_verbose :: bool
  bf_diagnostics :: string
  bf_baseline :: string
  bf_coverage :: string

definition write_optional :: "string \<Rightarrow> string \<Rightarrow> string gomap \<Rightarrow> string gomap" where
  "write_optional path content files = (if path = [] then files else AList.update path content files)"

definition beyond_baseline :: "string \<Rightarrow> string list \<Rightarrow> string" where
  "beyond_baseline path new = show_nat (length new) @ '' diagnostics beyond baseline '' @ path @
     '' (fix them, or rewrite the baseline with --diagnostics after review)''"

definition arrow :: string where "arrow = [CHR 0xE2, CHR 0x86, CHR 0x92]"

text \<open>What a command leaves: the files, the lines on standard output and standard error, and the returned error.\<close>

record command_result =
  cr_files :: "string gomap"
  cr_stdout :: "string list"
  cr_stderr :: "string list"
  cr_error :: "string option"

definition wrote_line :: "string \<Rightarrow> string \<Rightarrow> string list" where
  "wrote_line what path = (if path = [] then [] else [''wrote '' @ what @ '' '' @ arrow @ '' '' @ path])"

text \<open>
  The end of \<open>runBindings\<close>, after \<open>n\<close> packages were emitted: the reports are written before the baseline is
  read, and stay written when it fails the run.
\<close>

definition check_run :: "(nat \<Rightarrow> nat \<Rightarrow> string) \<Rightarrow> (string list \<Rightarrow> string) \<Rightarrow> (string \<Rightarrow> string + string list) \<Rightarrow> bindings_flags \<Rightarrow>
    nat \<Rightarrow> generator \<Rightarrow> string gomap \<Rightarrow> command_result" where
  "check_run percentage marshal unmarshal flags n g files =
     (let diags = g_Diagnostics g;
          err = (if bf_verbose flags then map ((@) ''diagnostic: '') diags else []);
          files = write_optional (bf_coverage flags) (writeCoverage percentage (registryWinmdVersion (g_registry g)) (Coverage g) diags) files;
          files = write_optional (bf_diagnostics flags) (WriteBaseline marshal diags) files;
          out = (''emitted '' @ show_nat n @ '' packages '' @ arrow @ '' '' @ bf_out flags @ '' ('' @ show_nat (length diags) @ '' diagnostics)'') #
            wrote_line ''coverage report'' (bf_coverage flags) @ wrote_line ''diagnostics baseline'' (bf_diagnostics flags);
          result = \<lparr>cr_files = files, cr_stdout = out, cr_stderr = err, cr_error = None\<rparr>
      in if bf_baseline flags = [] then result
         else (case CheckBaseline unmarshal (bf_baseline flags) files diags of
             Inl e \<Rightarrow> result\<lparr>cr_error := Some e\<rparr>
           | Inr new \<Rightarrow>
               if new = [] then result\<lparr>cr_stdout := out @ [''diagnostics within baseline'']\<rparr>
               else result\<lparr>cr_stderr := err @ map ((@) ''new diagnostic: '') new,
                      cr_error := Some (beyond_baseline (bf_baseline flags) new)\<rparr>))"

text \<open>A left value is an error before anything was written or printed.\<close>

definition runBindings :: "renderers \<Rightarrow> (nat \<Rightarrow> nat \<Rightarrow> string) \<Rightarrow> (string list \<Rightarrow> string) \<Rightarrow> (string \<Rightarrow> string + string list) \<Rightarrow>
    bindings_flags \<Rightarrow> namespace_meta list \<Rightarrow> string gomap \<Rightarrow> file_tree \<Rightarrow>
    (string + command_result \<times> generator \<times> file_tree) option" where
  "runBindings rd percentage marshal unmarshal flags namespaces files t =
     (case LoadAll [namespaces] of
        Inl e \<Rightarrow> Some (Inl e)
      | Inr reg \<Rightarrow> map_option (map_sum id (\<lambda>(n, g, t). (check_run percentage marshal unmarshal flags n g files, g, t)))
          (EmitAll rd (parse_filter (bf_namespace flags)) t (New reg modulePath (bf_out flags))))"

text \<open>The test directory is a map from file names to contents; what it counts is what it removed.\<close>

definition stale_test :: "string gomap \<Rightarrow> string \<times> string \<Rightarrow> bool" where
  "stale_test written e \<longleftrightarrow> (case e of (name, content) \<Rightarrow>
     has_prefix name ''abi_'' \<and> has_suffix name ''_test.go'' \<and> map_of written name = None \<and> has_prefix content generatedHeader)"

definition pruneGeneratedTests :: "string gomap \<Rightarrow> string gomap \<Rightarrow> string gomap \<times> nat" where
  "pruneGeneratedTests written dir =
     (filter (\<lambda>e. \<not> stale_test written e) dir, length (filter (stale_test written) dir))"

definition runABITest :: "renderers \<Rightarrow> string \<Rightarrow> namespace_meta list \<Rightarrow> file_tree \<Rightarrow> string gomap \<Rightarrow>
    (string + string gomap \<times> file_tree) option" where
  "runABITest rd outDir namespaces t testDir =
     (case LoadAll [namespaces] of
        Inl e \<Rightarrow> Some (Inl e)
      | Inr reg \<Rightarrow> map_option (map_sum id (\<lambda>(n, g, t).
            (let files = BuildABITests (ABIRecords g) (ImportPathFor (g_mapper g))
             in (fst (pruneGeneratedTests files (fold (\<lambda>(name, source). AList.update name source) files testDir)), t))))
          (EmitAll rd [] t (New reg modulePath outDir)))"

end
