(* ===== verification/ReportsFacts.thy ===== *)
theory ReportsFacts
  imports Reports EmissionFacts FunctionFacts
begin

text \<open>
  The ratchet of the diagnostics baseline over a whole run, the layout tests of the recorded structures,
  and the diagnostics the coverage report cannot classify.
\<close>

section \<open>The ratchet\<close>

lemma normalize_sorted_list: "filter P (normalize_diagnostics ds) = sorted_list_of_set {d \<in> set ds. P d}"
proof -
  have "sorted (filter P (normalize_diagnostics ds))" "distinct (filter P (normalize_diagnostics ds))"
    by (simp_all add: normalize_diagnostics_def sorted_filter [of id, simplified])
  moreover have "set (filter P (normalize_diagnostics ds)) = {d \<in> set ds. P d}" by (auto simp: normalize_diagnostics_def)
  ultimately show ?thesis by (metis sorted_list_of_set.idem_if_sorted_distinct)
qed

lemma set_normalize: "set (normalize_diagnostics ds) = set ds"
  by (simp add: normalize_diagnostics_def)

lemma write_optional_other: "p \<noteq> q \<Longrightarrow> map_of (write_optional p content files) q = map_of files q"
  by (simp add: write_optional_def update_conv')

lemma CheckBaseline_written:
  assumes "map_of files path = Some (WriteBaseline marshal ds)" "unmarshal (WriteBaseline marshal ds) = Inr (normalize_diagnostics ds)"
  shows "CheckBaseline unmarshal path files ds' = Inr (sorted_list_of_set (set ds' - set ds))"
  using assms by (simp add: CheckBaseline_def normalize_sorted_list set_normalize set_diff_eq)

text \<open>
  \<^bold>\<open>C34\<close>: the ratchet. Against a baseline written from the diagnostics of an earlier run, a run that emits
  its packages succeeds exactly when it has no diagnostic the earlier run did not have, and then says
  so; otherwise it fails, with the number of the new ones, and prints to standard error exactly the new
  ones, sorted, each once, after the diagnostics that \<open>-v\<close> asks for.
\<close>

theorem runBindings_ratchet:
  assumes "LoadAll [namespaces] = Inr reg"
    and "EmitAll rd (parse_filter (bf_namespace flags)) t (New reg modulePath (bf_out flags)) = Some (Inr (n, g, t'))"
    and "map_of files (bf_baseline flags) = Some (WriteBaseline marshal ds)"
    and "unmarshal (WriteBaseline marshal ds) = Inr (normalize_diagnostics ds)"
    and "bf_baseline flags \<noteq> []" "bf_coverage flags \<noteq> bf_baseline flags" "bf_diagnostics flags \<noteq> bf_baseline flags"
  shows "\<exists>r new. runBindings rd percentage marshal unmarshal flags namespaces files t = Some (Inr (r, g, t')) \<and>
    set new = set (g_Diagnostics g) - set ds \<and> sorted new \<and> distinct new \<and>
    cr_stderr r = (if bf_verbose flags then map ((@) ''diagnostic: '') (g_Diagnostics g) else []) @ map ((@) ''new diagnostic: '') new \<and>
    cr_error r = (if new = [] then None else Some (show_nat (length new) @ '' diagnostics beyond baseline '' @ bf_baseline flags @
       '' (fix them, or rewrite the baseline with --diagnostics after review)'')) \<and>
    (''diagnostics within baseline'' \<in> set (cr_stdout r) \<longleftrightarrow> new = [])"
proof -
  define new where "new = sorted_list_of_set (set (g_Diagnostics g) - set ds)"
  let ?files = "write_optional (bf_diagnostics flags) (WriteBaseline marshal (g_Diagnostics g))
    (write_optional (bf_coverage flags) (writeCoverage percentage (registryWinmdVersion (g_registry g)) (Coverage g) (g_Diagnostics g)) files)"
  have base: "CheckBaseline unmarshal (bf_baseline flags) ?files (g_Diagnostics g) = Inr new"
    unfolding new_def
    by (rule CheckBaseline_written [where unmarshal = unmarshal and marshal = marshal, OF _ assms(4)])
      (use assms(3,6,7) in \<open>simp add: write_optional_other\<close>)
  have r: "runBindings rd percentage marshal unmarshal flags namespaces files t =
      Some (Inr (check_run percentage marshal unmarshal flags n g files, g, t'))"
    by (simp add: runBindings_def assms(1,2))
  have lines: "''diagnostics within baseline'' \<noteq> ''emitted '' @ a" "''diagnostics within baseline'' \<notin> set (wrote_line what path)"
    for a what path by (simp_all add: wrote_line_def)
  have "set new = set (g_Diagnostics g) - set ds" "sorted new" "distinct new" unfolding new_def by simp_all
  then show ?thesis
    unfolding r using lines
    by (intro exI [of _ "check_run percentage marshal unmarshal flags n g files"] exI [of _ new])
      (simp add: check_run_def Let_def assms(5) base beyond_baseline_def)
qed

text \<open>A run over one empty namespace, whose diagnostics are the stale curated entries.\<close>

definition line_marshal :: "string list \<Rightarrow> string" where
  "line_marshal = join_with [newline]"

definition line_unmarshal :: "string \<Rightarrow> string + string list" where
  "line_unmarshal s = Inr (filter (\<lambda>l. l \<noteq> []) (split_on newline s))"

definition sample_flags :: bindings_flags where
  "sample_flags = \<lparr>bf_out = ''out'', bf_namespace = [], bf_verbose = False, bf_diagnostics = [], bf_baseline = ''base.json'', bf_coverage = []\<rparr>"

definition lone_registry :: registry where
  "lone_registry = foldl index_namespace (empty_registry [empty_namespace ''A'']) [empty_namespace ''A'']"

lemma lone_run:
  "map_option (map_sum id (\<lambda>(n, g, t). (n, g_Diagnostics g = []))) (EmitAll blank_renderers [] empty_tree (New lone_registry modulePath ''out''))
   = Some (Inr (1, False))"
  by code_simp

lemma runBindings_ratchet_witness:
  "\<exists>r g t' d. runBindings blank_renderers (\<lambda>_ _. []) line_marshal line_unmarshal sample_flags [empty_namespace ''A'']
     [(''base.json'', WriteBaseline line_marshal [])] empty_tree = Some (Inr (r, g, t')) \<and>
     d \<in> set (g_Diagnostics g) \<and> ''new diagnostic: '' @ d \<in> set (cr_stderr r) \<and> cr_error r \<noteq> None"
proof -
  let ?files = "[(''base.json'', WriteBaseline line_marshal [])]"
  have load: "LoadAll [[empty_namespace ''A'']] = Inr lone_registry" by (simp add: LoadAll_def lone_registry_def)
  have flags: "parse_filter (bf_namespace sample_flags) = []" "bf_out sample_flags = ''out''"
    "bf_baseline sample_flags = ''base.json''" by code_simp+
  obtain n g t' where e: "EmitAll blank_renderers [] empty_tree (New lone_registry modulePath ''out'') = Some (Inr (n, g, t'))"
    and d: "g_Diagnostics g \<noteq> []"
  proof -
    obtain r where r: "EmitAll blank_renderers [] empty_tree (New lone_registry modulePath ''out'') = Some r"
      "map_sum id (\<lambda>(n, g, t). (n, g_Diagnostics g = [])) r = Inr (1, False)" using lone_run by auto
    with that show thesis by (cases r) auto
  qed
  have e': "EmitAll blank_renderers (parse_filter (bf_namespace sample_flags)) empty_tree
      (New lone_registry modulePath (bf_out sample_flags)) = Some (Inr (n, g, t'))" using e by (simp add: flags)
  have base: "map_of ?files (bf_baseline sample_flags) = Some (WriteBaseline line_marshal [])" by (simp add: flags)
  have law: "line_unmarshal (WriteBaseline line_marshal []) = Inr (normalize_diagnostics [])" by code_simp
  have paths: "bf_baseline sample_flags \<noteq> []" "bf_coverage sample_flags \<noteq> bf_baseline sample_flags"
    "bf_diagnostics sample_flags \<noteq> bf_baseline sample_flags" by code_simp+
  from d obtain x where x: "x \<in> set (g_Diagnostics g)" by (cases "g_Diagnostics g") auto
  from runBindings_ratchet [where unmarshal = line_unmarshal and marshal = line_marshal, OF load e' base law paths, of "\<lambda>_ _. []"]
  obtain r new where r: "runBindings blank_renderers (\<lambda>_ _. []) line_marshal line_unmarshal sample_flags [empty_namespace ''A''] ?files empty_tree =
      Some (Inr (r, g, t'))" "set new = set (g_Diagnostics g) - set []" "map ((@) ''new diagnostic: '') new = cr_stderr r"
    "new \<noteq> [] \<longrightarrow> cr_error r \<noteq> None" by (auto simp: sample_flags_def)
  from x r(2) have new: "x \<in> set new" by simp
  then have "''new diagnostic: '' @ x \<in> set (cr_stderr r)" unfolding r(3) [symmetric] set_map by (rule imageI)
  moreover from new r(4) have "cr_error r \<noteq> None" by auto
  ultimately show ?thesis using r(1) x by blast
qed

section \<open>Layout tests\<close>

lemma map_of_fold_update:
  "k \<in> set ks \<Longrightarrow> inj_on f (set ks) \<Longrightarrow> map_of (fold (\<lambda>k. AList.update (f k) (g k)) ks m) (f k) = Some (g k)"
proof (induction ks rule: rev_induct)
  case (snoc x ks)
  show ?case
  proof (cases "k = x")
    case False
    then have "f k \<noteq> f x" using inj_onD [OF snoc.prems(2), of k x] snoc.prems(1) by auto
    moreover have "inj_on f (set ks)" using snoc.prems(2) by (rule inj_on_subset) auto
    ultimately show ?thesis using snoc False by (simp add: update_conv')
  qed (simp add: update_conv')
qed simp

lemma contains_concat: "x \<in> set xs \<Longrightarrow> contains_str (a @ concat (map f xs) @ b) (f x)"
proof -
  assume "x \<in> set xs"
  then obtain ys zs where "xs = ys @ x # zs" by (auto dest: split_list)
  then have "a @ concat (map f xs) @ b = (a @ concat (map f ys)) @ f x @ (concat (map f zs) @ b)" by simp
  then show ?thesis unfolding contains_str_iff by blast
qed

text \<open>
  Every recorded layout is asserted in the test file of its namespace and architecture, with all its
  offsets, when no two of these files have the same name.
\<close>

lemma BuildABITests_covers:
  assumes "r \<in> set records" "inj_on (\<lambda>(ns, arch). ABITestFileName ns arch) (record_group ` set records)"
  shows "\<exists>source. map_of (BuildABITests records importPathFor) (ABITestFileName (ar_Namespace r) (ar_Arch r)) = Some source \<and>
    contains_str source (abi_lines (ImportAlias (ar_Namespace r)) r)"
proof -
  let ?f = "\<lambda>key. ABITestFileName (fst key) (snd key)" and ?k = "record_group r"
  have groups: "set (abi_groups records) = record_group ` set records" by (simp add: abi_groups_def)
  have k: "?k \<in> set (abi_groups records)" using assms(1) unfolding groups by blast
  have inj: "inj_on ?f (set (abi_groups records))" using assms(2) unfolding groups by (simp only: case_prod_unfold)
  have "map_of (BuildABITests records importPathFor) (?f ?k) = Some (abi_file importPathFor records ?k)"
    unfolding BuildABITests_def by (rule map_of_fold_update [where f = ?f, OF k inj])
  moreover have "contains_str (abi_file importPathFor records ?k) (abi_lines (ImportAlias (ar_Namespace r)) r)"
  proof -
    have "r \<in> set (filter (\<lambda>x. record_group x = ?k) records)" using assms(1) by simp
    then show ?thesis unfolding abi_file_def record_group_def fst_conv by (rule contains_concat)
  qed
  ultimately show ?thesis by (simp add: record_group_def)
qed

text \<open>Two groups can have the same file name: then one of the two tables is lost.\<close>

lemma ABITestFileName_clash: "ABITestFileName ''System.Arm64'' [] = ABITestFileName ''System'' ''arm64''"
  by code_simp

section \<open>Diagnostics without a class\<close>

lemma classify_gaps:
  "classify (too_many_words (plain_function ''Blend'' ''a.dll'' []) 46) = None"
  "classify ''struct CONTEXT: no arm64 layout, skipped on arm64'' = None"
  by code_simp+

end
