(* ===== verification/Winmd.thy ===== *)
theory Winmd
  imports Meta
begin

text \<open>
  What the ingester reads of a parsed metadata file. The package \<open>go-winmd\<close> that parses it is not part of
  the repository, so everything here is a parameter of the model: the tables are the rows it returns, with
  the columns the ingester uses; \<open>AttributesFor\<close>, the signature decoders and the constant decoder are
  functions of the file; the flag masks and the codes of the element types are its constants. A code the
  ingester does not name is one of the last constructors.

  A row number counts from one, so the ingester reads \<open>table[row - 1]\<close> (\<open>row_at\<close>): the subtraction wraps
  on 32 bits, and an index outside the table panics (\<open>None\<close>).
\<close>

section \<open>Rows\<close>

datatype table = TableTypeRef | TableTypeDef | TableMethodDef | TableField | TableParam | TableOther nat

record coded_index =
  ix_Table :: table
  ix_Row :: "32 word"

record type_def_row =
  tdr_Flags :: "32 word"
  tdr_Name :: string
  tdr_Namespace :: string
  tdr_Extends :: coded_index
  tdr_FieldFirst :: "32 word"
  tdr_FieldEnd :: "32 word"
  tdr_MethodFirst :: "32 word"
  tdr_MethodEnd :: "32 word"

record type_ref_row =
  trr_Namespace :: string
  trr_Name :: string

record method_def_row =
  mdr_Name :: string
  mdr_Signature :: "32 word"
  mdr_ParamFirst :: "32 word"
  mdr_ParamEnd :: "32 word"

record field_row =
  fdr_Flags :: "32 word"
  fdr_Name :: string
  fdr_Signature :: "32 word"

record param_row =
  pdr_Flags :: "32 word"
  pdr_Name :: string
  pdr_Sequence :: "16 word"

record impl_map_row =
  imr_MappingFlags :: "32 word"
  imr_MemberForwarded :: coded_index
  imr_ImportName :: string
  imr_ImportScope :: "32 word"

record constant_row =
  cor_Type :: "8 word"
  cor_Parent :: coded_index
  cor_Value :: "32 word"

record class_layout_row =
  clr_PackingSize :: "16 word"
  clr_ClassSize :: "32 word"
  clr_Parent :: "32 word"

record nested_class_row =
  ncr_NestedClass :: "32 word"
  ncr_EnclosingClass :: "32 word"

record interface_impl_row =
  iir_Class :: "32 word"
  iir_Interface :: coded_index

section \<open>Decoded signatures, attributes and constants\<close>

datatype element_type =
    ElemVoid | ElemBoolean | ElemChar | ElemInt8 | ElemUInt8 | ElemInt16 | ElemUInt16 | ElemInt32 | ElemUInt32
  | ElemInt64 | ElemUInt64 | ElemFloat32 | ElemFloat64 | ElemIntPtr | ElemUIntPtr | ElemString | ElemObject
  | ElemOther "8 word"

text \<open>A type signature, by its kind; the last flag is \<open>IsConst\<close>.\<close>

datatype type_sig =
    SigPrimitive element_type bool
  | SigNamed string string bool
  | SigPointer type_sig bool
  | SigArray type_sig "32 word" bool
  | SigSZArray type_sig bool
  | SigFuncPtr
  | SigOther int

record method_sig =
  ms_Return :: type_sig
  ms_Params :: "type_sig list"

text \<open>The value of an attribute argument, by its Go type; the last carries the text \<open>fmt.Sprint\<close> prints.\<close>

datatype attr_value =
    AttrInt16 "16 word" | AttrUInt16 "16 word" | AttrInt32 "32 word" | AttrUInt32 "32 word"
  | AttrInt64 "64 word" | AttrUInt64 "64 word" | AttrByte "8 word" | AttrString string | AttrOther string

record attribute =
  at_Name :: string
  at_Fixed :: "attr_value list"
  at_Named :: "attr_value gomap"

text \<open>A decoded constant; a floating-point value carries the shortest text that \<open>strconv.FormatFloat\<close> prints.\<close>

datatype const_value =
    ConstString string | ConstInt64 "64 word" | ConstUInt64 "64 word" | ConstFloat32 string
  | ConstFloat64 string | ConstBool bool | ConstOther

section \<open>The file\<close>

record winmd_file =
  wf_TypeDefs :: "type_def_row list"
  wf_TypeRefs :: "type_ref_row list"
  wf_Methods :: "method_def_row list"
  wf_Fields :: "field_row list"
  wf_Params :: "param_row list"
  wf_ModuleRefs :: "string list"
  wf_ImplMaps :: "impl_map_row list"
  wf_Constants :: "constant_row list"
  wf_ClassLayouts :: "class_layout_row list"
  wf_NestedClasses :: "nested_class_row list"
  wf_InterfaceImpls :: "interface_impl_row list"
  wf_AttributesFor :: "coded_index \<Rightarrow> attribute list"
  wf_MethodSignature :: "32 word \<Rightarrow> string + method_sig"
  wf_FieldSignature :: "32 word \<Rightarrow> string + type_sig"
  wf_DecodeConstant :: "8 word \<Rightarrow> 32 word \<Rightarrow> const_value"
  wf_TypeAttrInterface :: "32 word"
  wf_TypeAttrExplicitLayout :: "32 word"
  wf_FieldAttrLiteral :: "32 word"
  wf_FieldAttrStatic :: "32 word"
  wf_ParamAttrIn :: "32 word"
  wf_ParamAttrOut :: "32 word"
  wf_ParamAttrOptional :: "32 word"
  wf_PInvokeAttrSupportsLastError :: "32 word"

section \<open>Access by row number\<close>

definition row_at :: "'a list \<Rightarrow> 32 word \<Rightarrow> 'a option" where
  "row_at xs row = (let i = unat (row - 1) in if i < length xs then Some (xs ! i) else None)"

text \<open>The row numbers of \<open>for row := first; row < end && int(row) <= len(table); row++\<close>.\<close>

definition rows_between :: "32 word \<Rightarrow> 32 word \<Rightarrow> 'a list \<Rightarrow> 32 word list" where
  "rows_between fst_row end_row xs = map word_of_nat [unat fst_row ..< min (unat end_row) (Suc (length xs))]"

text \<open>The rows of a table with their numbers.\<close>

definition numbered :: "'a list \<Rightarrow> (32 word \<times> 'a) list" where
  "numbered xs = zip (map word_of_nat [1 ..< Suc (length xs)]) xs"

text \<open>A loop whose body may panic, and one whose body may also return an error.\<close>

fun loop :: "('a \<Rightarrow> 's \<Rightarrow> 's option) \<Rightarrow> 'a list \<Rightarrow> 's \<Rightarrow> 's option" where
  "loop f [] s = Some s"
| "loop f (x # xs) s = (case f x s of None \<Rightarrow> None | Some s' \<Rightarrow> loop f xs s')"

fun loop_err :: "('a \<Rightarrow> 's \<Rightarrow> (string + 's) option) \<Rightarrow> 'a list \<Rightarrow> 's \<Rightarrow> (string + 's) option" where
  "loop_err f [] s = Some (Inr s)"
| "loop_err f (x # xs) s =
     (case f x s of None \<Rightarrow> None | Some (Inl e) \<Rightarrow> Some (Inl e) | Some (Inr s') \<Rightarrow> loop_err f xs s')"

end
