(* ===== verification/Ingester.thy ===== *)
theory Ingester
  imports Winmd "HOL-Library.AList"
begin

text \<open>
  The projection of a metadata file into the intermediate representation: \<open>internal/win32meta/ingest\<close>
  (\<open>ingest.go\<close> and \<open>project.go\<close>).

  An operation of the ingester takes the diagnostics collected so far and returns them extended. \<open>None\<close>
  is a crash: an index out of range, or the endless recursion of a structure nested in itself. The lists
  of functions and constants are sorted with \<open>sort.Slice\<close>, which may reorder equal names, so the two
  sorting functions are parameters of the projection.
\<close>

unbundle bit_operations_syntax

section \<open>Options and the ingester\<close>

definition namespacePrefix :: string where "namespacePrefix = ''Windows.Win32.''"
definition metadataNamespace :: string where "metadataNamespace = ''Windows.Win32.Foundation.Metadata''"
definition interopNamespace :: string where "interopNamespace = ''Windows.Win32.Interop''"

text \<open>\<open>None\<close> is an unset field.\<close>

record options =
  op_ProjectPrefix :: string
  op_ApiName :: "(string \<Rightarrow> string) option"
  op_ExcludedNamespaces :: "string list option"
  op_ExtraKinds :: "string \<rightharpoonup> string"

text \<open>The options with every field set.\<close>

record settings =
  se_ProjectPrefix :: string
  se_ApiName :: "string \<Rightarrow> string"
  se_ExcludedNamespaces :: "string list"
  se_ExtraKinds :: "string \<rightharpoonup> string"

definition default_ApiName :: "string \<Rightarrow> string \<Rightarrow> string" where
  "default_ApiName prfx fullNamespace =
     (if \<not> has_prefix fullNamespace prfx then [] else trim_prefix fullNamespace prfx)"

definition withDefaults :: "options \<Rightarrow> settings" where
  "withDefaults opts =
     (let prfx = (if op_ProjectPrefix opts = [] then namespacePrefix else op_ProjectPrefix opts) in
      \<lparr>se_ProjectPrefix = prfx,
       se_ApiName = (case op_ApiName opts of None \<Rightarrow> default_ApiName prfx | Some f \<Rightarrow> f),
       se_ExcludedNamespaces =
         (case op_ExcludedNamespaces opts of None \<Rightarrow> [metadataNamespace, interopNamespace] | Some ex \<Rightarrow> ex),
       se_ExtraKinds = op_ExtraKinds opts\<rparr>)"

record ingester =
  in_file :: winmd_file
  in_winmdVersion :: string
  in_opts :: settings
  in_kindIndex :: "string \<rightharpoonup> string"
  in_implMapIndex :: "32 word \<rightharpoonup> impl_map_row"
  in_constantIndex :: "32 word \<rightharpoonup> constant_row"
  in_classLayoutIndex :: "32 word \<rightharpoonup> class_layout_row"
  in_nestedIndex :: "32 word \<Rightarrow> 32 word list"
  in_nestedSet :: "32 word \<Rightarrow> bool"
  in_interfaceImplIndex :: "32 word \<Rightarrow> coded_index list"

type_synonym diags = "string list"

section \<open>Attributes\<close>

definition typeDefTarget :: "32 word \<Rightarrow> coded_index" where
  "typeDefTarget row = \<lparr>ix_Table = TableTypeDef, ix_Row = row\<rparr>"

definition hasAttribute :: "winmd_file \<Rightarrow> coded_index \<Rightarrow> string \<Rightarrow> bool" where
  "hasAttribute file target name \<longleftrightarrow> list_ex (\<lambda>attr. at_Name attr = name) (wf_AttributesFor file target)"

text \<open>The type assertions \<open>v.(uint32)\<close> and so on: another type gives the zero value.\<close>

definition as_uint32 :: "attr_value \<Rightarrow> 32 word" where
  "as_uint32 v = (case v of AttrUInt32 w \<Rightarrow> w | _ \<Rightarrow> 0)"
definition as_uint16 :: "attr_value \<Rightarrow> 16 word" where
  "as_uint16 v = (case v of AttrUInt16 w \<Rightarrow> w | _ \<Rightarrow> 0)"
definition as_byte :: "attr_value \<Rightarrow> 8 word" where
  "as_byte v = (case v of AttrByte w \<Rightarrow> w | _ \<Rightarrow> 0)"
definition as_int32 :: "attr_value \<Rightarrow> 32 word" where
  "as_int32 v = (case v of AttrInt32 w \<Rightarrow> w | _ \<Rightarrow> 0)"
definition as_string :: "attr_value \<Rightarrow> string" where
  "as_string v = (case v of AttrString s \<Rightarrow> s | _ \<Rightarrow> [])"

definition show_attr :: "attr_value \<Rightarrow> string" where
  "show_attr v = (case v of
      AttrInt16 w \<Rightarrow> show_int (sint w) | AttrUInt16 w \<Rightarrow> show_nat (unat w)
    | AttrInt32 w \<Rightarrow> show_int (sint w) | AttrUInt32 w \<Rightarrow> show_nat (unat w)
    | AttrInt64 w \<Rightarrow> show_int (sint w) | AttrUInt64 w \<Rightarrow> show_nat (unat w)
    | AttrByte w \<Rightarrow> show_nat (unat w) | AttrString s \<Rightarrow> s | AttrOther s \<Rightarrow> s)"

definition is_guid_attribute :: "attribute \<Rightarrow> bool" where
  "is_guid_attribute attr \<longleftrightarrow> at_Name attr = ''GuidAttribute'' \<and> length (at_Fixed attr) = 11"

definition guid_of_attribute :: "attribute \<Rightarrow> string" where
  "guid_of_attribute attr =
     (let fixed = at_Fixed attr;
          hex2 = (\<lambda>v. show_hex 2 (unat (as_byte v)))
      in show_hex 8 (unat (as_uint32 (fixed ! 0))) @ ''-'' @ show_hex 4 (unat (as_uint16 (fixed ! 1))) @ ''-'' @
         show_hex 4 (unat (as_uint16 (fixed ! 2))) @ ''-'' @
         concat (map hex2 (take 2 (drop 3 fixed))) @ ''-'' @ concat (map hex2 (drop 5 fixed)))"

definition guidOf :: "winmd_file \<Rightarrow> coded_index \<Rightarrow> string" where
  "guidOf file target =
     (case find is_guid_attribute (wf_AttributesFor file target) of
        None \<Rightarrow> [] | Some attr \<Rightarrow> guid_of_attribute attr)"

definition archNames :: "32 word \<Rightarrow> string list" where
  "archNames architectures =
     (if architectures AND 1 \<noteq> 0 then [''386''] else []) @ (if architectures AND 2 \<noteq> 0 then [''amd64''] else []) @
     (if architectures AND 4 \<noteq> 0 then [''arm64''] else [])"

definition availability_step :: "attribute \<Rightarrow> availability \<Rightarrow> availability" where
  "availability_step attr av =
     (if length (at_Fixed attr) \<noteq> 1 then av
      else if at_Name attr = ''SupportedOSPlatformAttribute'' then av\<lparr>av_Platform := as_string (hd (at_Fixed attr))\<rparr>
      else if at_Name attr = ''SupportedArchitectureAttribute'' then
        av\<lparr>av_Architectures := archNames (as_int32 (hd (at_Fixed attr)))\<rparr>
      else if at_Name attr = ''DocumentationAttribute'' then av\<lparr>av_DocURL := as_string (hd (at_Fixed attr))\<rparr>
      else av)"

definition availabilityOf :: "winmd_file \<Rightarrow> coded_index \<Rightarrow> availability" where
  "availabilityOf file target = fold availability_step (wf_AttributesFor file target) no_availability"

section \<open>Indices\<close>

definition extendsOf :: "winmd_file \<Rightarrow> type_def_row \<Rightarrow> (string \<times> string) option" where
  "extendsOf file typeDef =
     (let i = tdr_Extends typeDef in
      case ix_Table i of
        TableTypeRef \<Rightarrow>
          if unat (ix_Row i) \<le> length (wf_TypeRefs file)
          then map_option (\<lambda>ref. (trr_Namespace ref, trr_Name ref)) (row_at (wf_TypeRefs file) (ix_Row i))
          else Some ([], [])
      | TableTypeDef \<Rightarrow>
          if unat (ix_Row i) \<le> length (wf_TypeDefs file)
          then map_option (\<lambda>def. (tdr_Namespace def, tdr_Name def)) (row_at (wf_TypeDefs file) (ix_Row i))
          else Some ([], [])
      | _ \<Rightarrow> Some ([], []))"

definition classifyTypeDef :: "winmd_file \<Rightarrow> type_def_row \<Rightarrow> 32 word \<Rightarrow> string option" where
  "classifyTypeDef file typeDef row =
     (if tdr_Flags typeDef AND wf_TypeAttrInterface file \<noteq> 0 then Some ''Com''
      else (case extendsOf file typeDef of None \<Rightarrow> None | Some (ns, name) \<Rightarrow> Some (
        if ns = ''System'' \<and> name = ''Enum'' then ''Enum''
        else if ns = ''System'' \<and> name = ''MulticastDelegate'' then ''FunctionPointer''
        else if ns = ''System'' \<and> name = ''ValueType'' then
          (if hasAttribute file (typeDefTarget row) ''NativeTypedefAttribute'' \<or>
              hasAttribute file (typeDefTarget row) ''MetadataTypedefAttribute'' then ''Typedef''
           else if tdr_Flags typeDef AND wf_TypeAttrExplicitLayout file \<noteq> 0 then ''Union''
           else ''Struct'')
        else if ns = ''System'' \<and> name = ''Attribute'' then []
        else if tdr_Name typeDef \<noteq> ''Apis'' then ''ComClassID''
        else ''Apis'')))"

text \<open>Later rows of one key overwrite earlier ones.\<close>

definition build_implMapIndex :: "winmd_file \<Rightarrow> 32 word \<rightharpoonup> impl_map_row" where
  "build_implMapIndex file =
     fold (\<lambda>r m. if ix_Table (imr_MemberForwarded r) = TableMethodDef then m(ix_Row (imr_MemberForwarded r) \<mapsto> r) else m)
       (wf_ImplMaps file) Map.empty"

definition build_constantIndex :: "winmd_file \<Rightarrow> 32 word \<rightharpoonup> constant_row" where
  "build_constantIndex file =
     fold (\<lambda>r m. if ix_Table (cor_Parent r) = TableField then m(ix_Row (cor_Parent r) \<mapsto> r) else m)
       (wf_Constants file) Map.empty"

definition build_classLayoutIndex :: "winmd_file \<Rightarrow> 32 word \<rightharpoonup> class_layout_row" where
  "build_classLayoutIndex file = fold (\<lambda>r m. m(clr_Parent r \<mapsto> r)) (wf_ClassLayouts file) Map.empty"

definition build_nestedIndex :: "winmd_file \<Rightarrow> 32 word \<Rightarrow> 32 word list" where
  "build_nestedIndex file enclosing =
     map ncr_NestedClass (filter (\<lambda>r. ncr_EnclosingClass r = enclosing) (wf_NestedClasses file))"

definition build_nestedSet :: "winmd_file \<Rightarrow> 32 word \<Rightarrow> bool" where
  "build_nestedSet file row \<longleftrightarrow> list_ex (\<lambda>r. ncr_NestedClass r = row) (wf_NestedClasses file)"

definition build_interfaceImplIndex :: "winmd_file \<Rightarrow> 32 word \<Rightarrow> coded_index list" where
  "build_interfaceImplIndex file row =
     map iir_Interface (filter (\<lambda>r. iir_Class r = row) (wf_InterfaceImpls file))"

definition full_name :: "type_def_row \<Rightarrow> string" where
  "full_name typeDef = tdr_Namespace typeDef @ ''.'' @ tdr_Name typeDef"

definition kind_step :: "winmd_file \<Rightarrow> string \<Rightarrow> 32 word \<times> type_def_row \<Rightarrow> (string \<rightharpoonup> string) \<Rightarrow> (string \<rightharpoonup> string) option" where
  "kind_step file prfx e m = (case e of (row, typeDef) \<Rightarrow>
     if \<not> has_prefix (tdr_Namespace typeDef) prfx \<and> tdr_Namespace typeDef \<noteq> [] then Some m
     else (case classifyTypeDef file typeDef row of None \<Rightarrow> None
       | Some kind \<Rightarrow> Some (if kind \<noteq> [] \<and> tdr_Namespace typeDef \<noteq> [] then m(full_name typeDef \<mapsto> kind) else m)))"

definition buildIndices :: "winmd_file \<Rightarrow> string \<Rightarrow> settings \<Rightarrow> ingester option" where
  "buildIndices file winmdVersion opts =
     (case loop (kind_step file (se_ProjectPrefix opts)) (numbered (wf_TypeDefs file)) (se_ExtraKinds opts) of
        None \<Rightarrow> None
      | Some kinds \<Rightarrow> Some
          \<lparr>in_file = file, in_winmdVersion = winmdVersion, in_opts = opts, in_kindIndex = kinds,
           in_implMapIndex = build_implMapIndex file, in_constantIndex = build_constantIndex file,
           in_classLayoutIndex = build_classLayoutIndex file, in_nestedIndex = build_nestedIndex file,
           in_nestedSet = build_nestedSet file, in_interfaceImplIndex = build_interfaceImplIndex file\<rparr>)"

definition NewWithOptions :: "winmd_file \<Rightarrow> string \<Rightarrow> options \<Rightarrow> ingester option" where
  "NewWithOptions file winmdVersion opts = buildIndices file winmdVersion (withDefaults opts)"

definition no_options :: options where
  "no_options = \<lparr>op_ProjectPrefix = [], op_ApiName = None, op_ExcludedNamespaces = None, op_ExtraKinds = Map.empty\<rparr>"

definition NewIngester :: "winmd_file \<Rightarrow> string \<Rightarrow> ingester option" where
  "NewIngester file winmdVersion = NewWithOptions file winmdVersion no_options"

definition KindIndex :: "ingester \<Rightarrow> string \<rightharpoonup> string" where
  "KindIndex ing = in_kindIndex ing"

section \<open>Type references\<close>

fun primitiveNames :: "element_type \<Rightarrow> string option" where
  "primitiveNames ElemVoid = Some ''Void''"
| "primitiveNames ElemBoolean = Some ''Boolean''"
| "primitiveNames ElemChar = Some ''Char''"
| "primitiveNames ElemInt8 = Some ''SByte''"
| "primitiveNames ElemUInt8 = Some ''Byte''"
| "primitiveNames ElemInt16 = Some ''Int16''"
| "primitiveNames ElemUInt16 = Some ''UInt16''"
| "primitiveNames ElemInt32 = Some ''Int32''"
| "primitiveNames ElemUInt32 = Some ''UInt32''"
| "primitiveNames ElemInt64 = Some ''Int64''"
| "primitiveNames ElemUInt64 = Some ''UInt64''"
| "primitiveNames ElemFloat32 = Some ''Single''"
| "primitiveNames ElemFloat64 = Some ''Double''"
| "primitiveNames ElemIntPtr = Some ''IntPtr''"
| "primitiveNames ElemUIntPtr = Some ''UIntPtr''"
| "primitiveNames ElemString = Some ''String''"
| "primitiveNames ElemObject = Some ''Object''"
| "primitiveNames (ElemOther code) = None"

definition element_code :: "element_type \<Rightarrow> 8 word" where
  "element_code e = (case e of ElemOther code \<Rightarrow> code | _ \<Rightarrow> 0)"

definition unmapped_primitive :: "element_type \<Rightarrow> string" where
  "unmapped_primitive e = ''unmapped primitive 0x'' @ show_hex 2 (unat (element_code e))"

definition typeref_named :: "ingester \<Rightarrow> string \<Rightarrow> string \<Rightarrow> bool \<Rightarrow> diags \<Rightarrow> type_ref \<times> diags" where
  "typeref_named ing ns name c ds =
     (if ns = ''System'' then
        (if name = ''Guid'' then (TypeRef ''Native'' ''Guid'' [] [] None 0 c, ds)
         else (TypeRef ''Native'' ''UIntPtr'' [] [] None 0 c, ds @ [''unmapped System type '' @ name]))
      else if ns = [] then (TypeRef ''ApiRef'' name [] ''Struct'' None 0 c, ds)
      else (let api = se_ApiName (in_opts ing) ns in
        if api = [] then
          (TypeRef ''Native'' ''UIntPtr'' [] [] None 0 c, ds @ [''WinRT type '' @ ns @ ''.'' @ name @ '' degraded to UIntPtr''])
        else
          (TypeRef ''ApiRef'' name api
             (case in_kindIndex ing (ns @ ''.'' @ name) of None \<Rightarrow> [] | Some kind \<Rightarrow> kind) None 0 c, ds)))"

fun typeRefOf :: "ingester \<Rightarrow> type_sig \<Rightarrow> diags \<Rightarrow> type_ref \<times> diags" where
  "typeRefOf ing (SigPrimitive e c) ds =
     (case primitiveNames e of
        None \<Rightarrow> (TypeRef ''Native'' ''UIntPtr'' [] [] None 0 c, ds @ [unmapped_primitive e])
      | Some name \<Rightarrow> (TypeRef ''Native'' name [] [] None 0 c, ds))"
| "typeRefOf ing (SigNamed ns name c) ds = typeref_named ing ns name c ds"
| "typeRefOf ing (SigPointer s c) ds =
     (let (child, ds) = typeRefOf ing s ds in (TypeRef ''PointerTo'' [] [] [] (Some child) 0 c, ds))"
| "typeRefOf ing (SigArray s n c) ds =
     (let (child, ds) = typeRefOf ing s ds in (TypeRef ''Array'' [] [] [] (Some child) n c, ds))"
| "typeRefOf ing (SigSZArray s c) ds =
     (let (child, ds) = typeRefOf ing s ds in (TypeRef ''Array'' [] [] [] (Some child) 0 c, ds))"
| "typeRefOf ing SigFuncPtr ds =
     (PointerTo (Native ''Void''), ds @ [''raw function-pointer signature degraded to *void''])"
| "typeRefOf ing (SigOther kind) ds =
     (Native ''UIntPtr'', ds @ [''unmapped signature kind '' @ show_int kind])"

section \<open>Parameters\<close>

text \<open>\<open>int\<close> is 64 bits wide, so the conversions are exact; the types not listed give \<open>-1\<close>.\<close>

definition intValue :: "attr_value \<Rightarrow> int" where
  "intValue v = (case v of
      AttrInt16 w \<Rightarrow> sint w | AttrUInt16 w \<Rightarrow> uint w | AttrInt32 w \<Rightarrow> sint w | AttrUInt32 w \<Rightarrow> uint w
    | AttrInt64 w \<Rightarrow> sint w | _ \<Rightarrow> -1)"

definition zero_param :: "string \<Rightarrow> type_ref \<Rightarrow> param" where
  "zero_param name t = \<lparr>p_Name = name, p_Type = t, p_IsIn = False, p_IsOut = False, p_IsOptional = False,
     p_IsReserved = False, p_IsConst = False, p_IsComOutPtr = False, p_IsRetVal = False,
     p_NativeArrayCountParamIndex = -1, p_NativeArrayCountConst = 0, p_MemorySizeBytesParamIndex = -1,
     p_IidParamIndex = -1, p_FreeWith = []\<rparr>"

definition native_array_info :: "attr_value gomap \<Rightarrow> param \<Rightarrow> param" where
  "native_array_info named p =
     (let p = (case map_of named ''CountParamIndex'' of None \<Rightarrow> p
                 | Some v \<Rightarrow> p\<lparr>p_NativeArrayCountParamIndex := intValue v\<rparr>)
      in case map_of named ''CountConst'' of None \<Rightarrow> p
           | Some v \<Rightarrow> p\<lparr>p_NativeArrayCountConst := word_of_int (intValue v)\<rparr>)"

definition param_attribute :: "attribute \<Rightarrow> param \<Rightarrow> param" where
  "param_attribute attr p =
     (let name = at_Name attr; fixed = at_Fixed attr; named = at_Named attr in
      if name = ''ConstAttribute'' then p\<lparr>p_IsConst := True\<rparr>
      else if name = ''ReservedAttribute'' then p\<lparr>p_IsReserved := True\<rparr>
      else if name = ''ComOutPtrAttribute'' then p\<lparr>p_IsComOutPtr := True\<rparr>
      else if name = ''RetValAttribute'' then p\<lparr>p_IsRetVal := True\<rparr>
      else if name = ''FreeWithAttribute'' then
        (if length fixed = 1 then p\<lparr>p_FreeWith := as_string (hd fixed)\<rparr> else p)
      else if name = ''NativeArrayInfoAttribute'' then native_array_info named p
      else if name = ''MemorySizeAttribute'' then
        (case map_of named ''BytesParamIndex'' of None \<Rightarrow> p
           | Some v \<Rightarrow> p\<lparr>p_MemorySizeBytesParamIndex := intValue v\<rparr>)
      else if name = ''IidParameterIndexAttribute'' then
        (if length fixed = 1 then p\<lparr>p_IidParamIndex := intValue (hd fixed)\<rparr> else p)
      else p)"

definition applyParamAttributes :: "winmd_file \<Rightarrow> coded_index \<Rightarrow> param \<Rightarrow> param" where
  "applyParamAttributes file target p = fold param_attribute (wf_AttributesFor file target) p"

fun sig_params :: "ingester \<Rightarrow> nat \<Rightarrow> type_sig list \<Rightarrow> diags \<Rightarrow> param list \<times> diags" where
  "sig_params ing i [] ds = ([], ds)"
| "sig_params ing i (s # ss) ds =
     (let (t, ds) = typeRefOf ing s ds; (ps, ds) = sig_params ing (Suc i) ss ds
      in (zero_param (''param'' @ show_nat i) t # ps, ds))"

definition param_of_row :: "winmd_file \<Rightarrow> 32 word \<Rightarrow> param_row \<Rightarrow> param \<Rightarrow> param" where
  "param_of_row file row pr p =
     applyParamAttributes file \<lparr>ix_Table = TableParam, ix_Row = row\<rparr>
       (p\<lparr>p_Name := pdr_Name pr,
          p_IsIn := (pdr_Flags pr AND wf_ParamAttrIn file \<noteq> 0),
          p_IsOut := (pdr_Flags pr AND wf_ParamAttrOut file \<noteq> 0),
          p_IsOptional := (pdr_Flags pr AND wf_ParamAttrOptional file \<noteq> 0)\<rparr>)"

definition param_row_step :: "winmd_file \<Rightarrow> 32 word \<Rightarrow> param list \<Rightarrow> param list option" where
  "param_row_step file row params =
     (case row_at (wf_Params file) row of None \<Rightarrow> None
      | Some pr \<Rightarrow>
          (let s = unat (pdr_Sequence pr) in
           if s = 0 \<or> length params < s then Some params
           else Some (params[s - 1 := param_of_row file row pr (params ! (s - 1))])))"

definition paramsOf :: "ingester \<Rightarrow> method_def_row \<Rightarrow> method_sig \<Rightarrow> diags \<Rightarrow> (param list \<times> diags) option" where
  "paramsOf ing method msig ds =
     (let file = in_file ing; (params, ds) = sig_params ing 0 (ms_Params msig) ds in
      map_option (\<lambda>params. (params, ds))
        (loop (param_row_step file) (rows_between (mdr_ParamFirst method) (mdr_ParamEnd method) (wf_Params file)) params))"

end
