(* ===== verification/Projection.thy ===== *)
theory Projection
  imports Ingester
begin

text \<open>
  The projection of the rows of a metadata file, \<open>internal/win32meta/ingest/project.go\<close>, and the run over all
  of them, \<open>Ingest\<close> in \<open>ingest.go\<close>. \<open>Inl\<close> is a returned error; what the diagnostics hold then is not read
  by any caller.
\<close>

section \<open>Constants\<close>

definition undecoded :: "8 word \<Rightarrow> string" where
  "undecoded code = ''constant type 0x'' @ show_hex 2 (unat code) @ '' undecoded''"

definition decodeConstantValue :: "ingester \<Rightarrow> constant_row \<Rightarrow> diags \<Rightarrow> (string \<times> string) \<times> diags" where
  "decodeConstantValue ing row ds =
     (case wf_DecodeConstant (in_file ing) (cor_Type row) (cor_Value row) of
        ConstString s \<Rightarrow> ((s, ''String''), ds)
      | ConstInt64 w \<Rightarrow> ((show_int (sint w), ''Int''), ds)
      | ConstUInt64 w \<Rightarrow> ((show_nat (unat w), ''UInt''), ds)
      | ConstFloat32 s \<Rightarrow> ((s, ''Float''), ds)
      | ConstFloat64 s \<Rightarrow> ((s, ''Float''), ds)
      | ConstBool b \<Rightarrow> ((if b then ''1'' else ''0'', ''UInt''), ds)
      | ConstOther \<Rightarrow> ((''0'', ''UInt''), ds @ [undecoded (cor_Type row)]))"

definition fieldTarget :: "32 word \<Rightarrow> coded_index" where
  "fieldTarget row = \<lparr>ix_Table = TableField, ix_Row = row\<rparr>"

definition methodTarget :: "32 word \<Rightarrow> coded_index" where
  "methodTarget row = \<lparr>ix_Table = TableMethodDef, ix_Row = row\<rparr>"

definition one_argument :: "string \<Rightarrow> attribute \<Rightarrow> bool" where
  "one_argument name attr \<longleftrightarrow> at_Name attr = name \<and> length (at_Fixed attr) = 1"

definition constant_entry :: "string \<Rightarrow> type_ref \<Rightarrow> availability \<Rightarrow> string \<times> string \<Rightarrow> constant_decl" where
  "constant_entry name t av v =
     \<lparr>cn_Name = name, cn_Type = t, cn_Value = fst v, cn_ValueKind = snd v, cn_Availability = av\<rparr>"

definition projectConstant :: "ingester \<Rightarrow> 32 word \<Rightarrow> diags \<Rightarrow> (constant_decl option \<times> diags) option" where
  "projectConstant ing row ds =
     (let file = in_file ing in
      case row_at (wf_Fields file) row of None \<Rightarrow> None
      | Some field \<Rightarrow> (case wf_FieldSignature file (fdr_Signature field) of
          Inl e \<Rightarrow> Some (None, ds @ [''constant '' @ fdr_Name field @ '': '' @ e])
        | Inr fsig \<Rightarrow>
            (let (t, ds) = typeRefOf ing fsig ds;
                 constant = constant_entry (fdr_Name field) t (availabilityOf file (fieldTarget row));
                 guid = guidOf file (fieldTarget row)
             in if fdr_Flags field AND wf_FieldAttrLiteral file \<noteq> 0 then
                  (case in_constantIndex ing row of
                     None \<Rightarrow> Some (None, ds)
                   | Some constantRow \<Rightarrow>
                       (let (v, ds) = decodeConstantValue ing constantRow ds in Some (Some (constant v), ds)))
                else if guid \<noteq> [] then Some (Some (constant (guid, ''Guid'')), ds)
                else (case find (one_argument ''ConstantAttribute'') (wf_AttributesFor file (fieldTarget row)) of
                    None \<Rightarrow> Some (None, ds)
                  | Some attr \<Rightarrow> Some (Some (constant (as_string (hd (at_Fixed attr)), ''Struct'')), ds)))))"

section \<open>Functions\<close>

definition projectFunction ::
  "ingester \<Rightarrow> 32 word \<Rightarrow> method_def_row \<Rightarrow> impl_map_row \<Rightarrow> method_sig \<Rightarrow> diags \<Rightarrow> (function_decl \<times> diags) option" where
  "projectFunction ing row method implMap msig ds =
     (let file = in_file ing; target = methodTarget row in
      case row_at (wf_ModuleRefs file) (imr_ImportScope implMap) of None \<Rightarrow> None
      | Some dll \<Rightarrow>
          (let (ret, ds) = typeRefOf ing (ms_Return msig) ds in
           case paramsOf ing method msig ds of None \<Rightarrow> None
           | Some (params, ds) \<Rightarrow> Some
               (\<lparr>fn_Name = mdr_Name method, fn_DLL = dll,
                 fn_EntryPoint = (if imr_ImportName implMap \<noteq> mdr_Name method then imr_ImportName implMap else []),
                 fn_SetLastError = (imr_MappingFlags implMap AND wf_PInvokeAttrSupportsLastError file \<noteq> 0),
                 fn_Return = ret, fn_Params = params, fn_Availability = availabilityOf file target,
                 fn_UnsuffixedName =
                   (if hasAttribute file target ''UnicodeAttribute'' \<and> has_suffix (mdr_Name method) ''W''
                    then trim_suffix (mdr_Name method) ''W'' else []),
                 fn_Constant = fold (\<lambda>attr c. if one_argument ''ConstantAttribute'' attr then show_attr (hd (at_Fixed attr)) else c)
                   (wf_AttributesFor file target) []\<rparr>, ds)))"

definition method_step ::
  "ingester \<Rightarrow> 32 word \<Rightarrow> function_decl list \<times> diags \<Rightarrow> (string + function_decl list \<times> diags) option" where
  "method_step ing row st = (case st of (fs, ds) \<Rightarrow>
     (case row_at (wf_Methods (in_file ing)) row of None \<Rightarrow> None
      | Some method \<Rightarrow> (case in_implMapIndex ing row of
          None \<Rightarrow> Some (Inr (fs, ds))
        | Some implMap \<Rightarrow> (case wf_MethodSignature (in_file ing) (mdr_Signature method) of
            Inl e \<Rightarrow> Some (Inl (''method '' @ mdr_Name method @ '': '' @ e))
          | Inr msig \<Rightarrow> (case projectFunction ing row method implMap msig ds of
              None \<Rightarrow> None
            | Some (f, ds) \<Rightarrow> Some (Inr (fs @ [f], ds)))))))"

definition constant_step :: "ingester \<Rightarrow> 32 word \<Rightarrow> constant_decl list \<times> diags \<Rightarrow> (constant_decl list \<times> diags) option" where
  "constant_step ing row st = (case st of (cs, ds) \<Rightarrow>
     (case projectConstant ing row ds of None \<Rightarrow> None
      | Some (None, ds) \<Rightarrow> Some (cs, ds)
      | Some (Some c, ds) \<Rightarrow> Some (cs @ [c], ds)))"

definition method_rows :: "ingester \<Rightarrow> type_def_row \<Rightarrow> 32 word list" where
  "method_rows ing typeDef = rows_between (tdr_MethodFirst typeDef) (tdr_MethodEnd typeDef) (wf_Methods (in_file ing))"

definition field_rows :: "ingester \<Rightarrow> type_def_row \<Rightarrow> 32 word list" where
  "field_rows ing typeDef = rows_between (tdr_FieldFirst typeDef) (tdr_FieldEnd typeDef) (wf_Fields (in_file ing))"

definition projectApis ::
  "ingester \<Rightarrow> type_def_row \<Rightarrow> namespace_meta \<times> diags \<Rightarrow> (string + namespace_meta \<times> diags) option" where
  "projectApis ing typeDef st = (case st of (meta, ds) \<Rightarrow>
     (case loop_err (method_step ing) (method_rows ing typeDef) (ns_Functions meta, ds) of
        None \<Rightarrow> None
      | Some (Inl e) \<Rightarrow> Some (Inl e)
      | Some (Inr (fs, ds)) \<Rightarrow>
          (case loop (constant_step ing) (field_rows ing typeDef) (ns_Constants meta, ds) of
             None \<Rightarrow> None
           | Some (cs, ds) \<Rightarrow> Some (Inr (meta\<lparr>ns_Functions := fs, ns_Constants := cs\<rparr>, ds)))))"

section \<open>Enums\<close>

fun enumBaseNames :: "element_type \<Rightarrow> string option" where
  "enumBaseNames ElemInt8 = Some ''int8''"
| "enumBaseNames ElemUInt8 = Some ''uint8''"
| "enumBaseNames ElemInt16 = Some ''int16''"
| "enumBaseNames ElemUInt16 = Some ''uint16''"
| "enumBaseNames ElemInt32 = Some ''int32''"
| "enumBaseNames ElemUInt32 = Some ''uint32''"
| "enumBaseNames ElemInt64 = Some ''int64''"
| "enumBaseNames ElemUInt64 = Some ''uint64''"
| "enumBaseNames _ = None"

definition enum_base_of :: "winmd_file \<Rightarrow> field_row \<Rightarrow> string \<Rightarrow> string" where
  "enum_base_of file field base =
     (case wf_FieldSignature file (fdr_Signature field) of
        Inr (SigPrimitive e c) \<Rightarrow> (case enumBaseNames e of Some b \<Rightarrow> b | None \<Rightarrow> base)
      | _ \<Rightarrow> base)"

definition enum_field_step :: "ingester \<Rightarrow> 32 word \<Rightarrow> enum_def \<times> diags \<Rightarrow> (enum_def \<times> diags) option" where
  "enum_field_step ing row st = (case st of (enum, ds) \<Rightarrow>
     (case row_at (wf_Fields (in_file ing)) row of None \<Rightarrow> None
      | Some field \<Rightarrow>
          if fdr_Name field = ''value__'' then
            Some (enum\<lparr>en_BaseType := enum_base_of (in_file ing) field (en_BaseType enum)\<rparr>, ds)
          else (case in_constantIndex ing row of
              None \<Rightarrow> Some (enum, ds)
            | Some constantRow \<Rightarrow>
                (let (v, ds) = decodeConstantValue ing constantRow ds in
                 Some (enum\<lparr>en_Members := en_Members enum @ [\<lparr>em_Name = fdr_Name field, em_Value = fst v\<rparr>]\<rparr>, ds)))))"

definition projectEnum :: "ingester \<Rightarrow> type_def_row \<Rightarrow> 32 word \<Rightarrow> diags \<Rightarrow> (enum_def \<times> diags) option" where
  "projectEnum ing typeDef row ds =
     (let file = in_file ing; target = typeDefTarget row in
      loop (enum_field_step ing) (field_rows ing typeDef)
        (\<lparr>en_BaseType = ''uint32'', en_IsFlags = hasAttribute file target ''FlagsAttribute'',
          en_IsScoped = hasAttribute file target ''ScopedEnumAttribute'', en_Members = [],
          en_Availability = availabilityOf file target\<rparr>, ds))"

section \<open>Structures and unions\<close>

definition int64Value :: "attr_value \<Rightarrow> int" where
  "int64Value v = (case v of
      AttrInt32 w \<Rightarrow> sint w | AttrInt64 w \<Rightarrow> sint w | AttrUInt32 w \<Rightarrow> uint w | AttrUInt64 w \<Rightarrow> sint w | _ \<Rightarrow> 0)"

definition field_attribute :: "attribute \<Rightarrow> struct_field \<Rightarrow> struct_field" where
  "field_attribute attr f =
     (let fixed = at_Fixed attr in
      if at_Name attr = ''NativeBitfieldAttribute'' then
        (if length fixed = 3 then
           f\<lparr>sf_Bitfields := sf_Bitfields f @
              [\<lparr>bf_Name = as_string (fixed ! 0), bf_Offset = int64Value (fixed ! 1), bf_Length = int64Value (fixed ! 2)\<rparr>]\<rparr>
         else f)
      else if at_Name attr = ''FlexibleArrayAttribute'' then f\<lparr>sf_IsFlexibleArray := True\<rparr>
      else f)"

definition struct_field_step :: "ingester \<Rightarrow> 32 word \<Rightarrow> struct_field list \<times> diags \<Rightarrow> (struct_field list \<times> diags) option" where
  "struct_field_step ing row st = (case st of (fs, ds) \<Rightarrow>
     (let file = in_file ing in
      case row_at (wf_Fields file) row of None \<Rightarrow> None
      | Some field \<Rightarrow>
          if fdr_Flags field AND wf_FieldAttrStatic file \<noteq> 0 then Some (fs, ds)
          else (case wf_FieldSignature file (fdr_Signature field) of
              Inl e \<Rightarrow> Some (fs, ds @ [''field '' @ fdr_Name field @ '': '' @ e])
            | Inr fsig \<Rightarrow>
                (let (t, ds) = typeRefOf ing fsig ds;
                     f = \<lparr>sf_Name = fdr_Name field, sf_Type = t, sf_Bitfields = [], sf_IsFlexibleArray = False\<rparr>
                 in Some (fs @ [fold field_attribute (wf_AttributesFor file (fieldTarget row)) f], ds)))))"

definition struct_size_field :: "winmd_file \<Rightarrow> 32 word \<Rightarrow> string" where
  "struct_size_field file row =
     fold (\<lambda>attr s. if one_argument ''StructSizeFieldAttribute'' attr then as_string (hd (at_Fixed attr)) else s)
       (wf_AttributesFor file (typeDefTarget row)) []"

text \<open>
  The recursion over nested types takes fuel; the fuel of \<open>Ingest\<close> (\<open>struct_fuel\<close>), one more than there
  are types, runs out exactly when a type is nested in itself, where the recursion of the code never ends.
\<close>

fun projectStruct :: "nat \<Rightarrow> ingester \<Rightarrow> type_def_row \<Rightarrow> 32 word \<Rightarrow> diags \<Rightarrow> (struct_def \<times> diags) option" where
  "projectStruct 0 ing typeDef row ds = None"
| "projectStruct (Suc n) ing typeDef row ds =
     (let file = in_file ing in
      case loop (struct_field_step ing) (field_rows ing typeDef) ([], ds) of None \<Rightarrow> None
      | Some (fs, ds) \<Rightarrow>
          (case loop (\<lambda>nestedRow (m, ds).
                   case row_at (wf_TypeDefs file) nestedRow of None \<Rightarrow> None
                   | Some nestedTypeDef \<Rightarrow>
                       (case projectStruct n ing nestedTypeDef nestedRow ds of None \<Rightarrow> None
                        | Some (s, ds) \<Rightarrow> Some (AList.update (tdr_Name nestedTypeDef) s m, ds)))
                 (in_nestedIndex ing row) ([], ds) of None \<Rightarrow> None
           | Some (nested, ds) \<Rightarrow> Some
               (StructDef fs (tdr_Flags typeDef AND wf_TypeAttrExplicitLayout file \<noteq> 0)
                  (case in_classLayoutIndex ing row of None \<Rightarrow> 0 | Some l \<Rightarrow> clr_PackingSize l)
                  (case in_classLayoutIndex ing row of None \<Rightarrow> 0 | Some l \<Rightarrow> clr_ClassSize l)
                  nested (availabilityOf file (typeDefTarget row)) (struct_size_field file row) [], ds)))"

definition struct_fuel :: "ingester \<Rightarrow> nat" where
  "struct_fuel ing = Suc (length (wf_TypeDefs (in_file ing)))"

definition add_variant :: "struct_def \<Rightarrow> struct_def \<Rightarrow> struct_def" where
  "add_variant existing projected =
     StructDef (st_Fields existing) (st_IsUnion existing) (st_PackingSize existing) (st_Size existing)
       (st_NestedTypes existing) (st_Availability existing) (st_StructSizeField existing)
       (st_ArchVariants existing @ [projected])"

definition projectStructInto ::
  "ingester \<Rightarrow> type_def_row \<Rightarrow> 32 word \<Rightarrow> namespace_meta \<times> diags \<Rightarrow> (namespace_meta \<times> diags) option" where
  "projectStructInto ing typeDef row st = (case st of (meta, ds) \<Rightarrow>
     (case projectStruct (struct_fuel ing) ing typeDef row ds of None \<Rightarrow> None
      | Some (projected, ds) \<Rightarrow>
          (let name = tdr_Name typeDef;
               new = (case map_of (ns_Structs meta) name of None \<Rightarrow> projected
                        | Some existing \<Rightarrow> add_variant existing projected)
           in Some (meta\<lparr>ns_Structs := AList.update name new (ns_Structs meta)\<rparr>, ds))))"


section \<open>Typedefs, delegates and interfaces\<close>

text \<open>The type of the first field that is not static; the loop stops there, decoded or not.\<close>

fun first_field_type :: "ingester \<Rightarrow> 32 word list \<Rightarrow> diags \<Rightarrow> (type_ref option \<times> diags) option" where
  "first_field_type ing [] ds = Some (None, ds)"
| "first_field_type ing (row # rows) ds =
     (let file = in_file ing in
      case row_at (wf_Fields file) row of None \<Rightarrow> None
      | Some field \<Rightarrow>
          if fdr_Flags field AND wf_FieldAttrStatic file \<noteq> 0 then first_field_type ing rows ds
          else (case wf_FieldSignature file (fdr_Signature field) of
              Inl e \<Rightarrow> Some (None, ds)
            | Inr fsig \<Rightarrow> (let (t, ds) = typeRefOf ing fsig ds in Some (Some t, ds))))"

definition zero_ref :: type_ref where
  "zero_ref = TypeRef [] [] [] [] None 0 False"

definition typedef_attribute :: "attribute \<Rightarrow> typedef_def \<Rightarrow> typedef_def" where
  "typedef_attribute attr td =
     (let fixed = at_Fixed attr in
      if length fixed \<noteq> 1 then td
      else if at_Name attr = ''RAIIFreeAttribute'' then td\<lparr>td_FreeFunc := as_string (hd fixed)\<rparr>
      else if at_Name attr = ''InvalidHandleValueAttribute'' then
        td\<lparr>td_InvalidValues := td_InvalidValues td @ [show_int (int64Value (hd fixed))]\<rparr>
      else if at_Name attr = ''AlsoUsableForAttribute'' then td\<lparr>td_AlsoUsableFor := as_string (hd fixed)\<rparr>
      else td)"

definition projectTypedef :: "ingester \<Rightarrow> type_def_row \<Rightarrow> 32 word \<Rightarrow> diags \<Rightarrow> (typedef_def \<times> diags) option" where
  "projectTypedef ing typeDef row ds =
     (let file = in_file ing; target = typeDefTarget row in
      case first_field_type ing (field_rows ing typeDef) ds of None \<Rightarrow> None
      | Some (t, ds) \<Rightarrow> Some
          (fold typedef_attribute (wf_AttributesFor file target)
             \<lparr>td_Underlying = (case t of None \<Rightarrow> zero_ref | Some t \<Rightarrow> t),
              td_IsMetadataTypedef = hasAttribute file target ''MetadataTypedefAttribute'',
              td_FreeFunc = [], td_InvalidValues = [], td_AlsoUsableFor = [],
              td_Availability = availabilityOf file target\<rparr>, ds))"

fun project_invoke ::
  "ingester \<Rightarrow> type_def_row \<Rightarrow> 32 word \<Rightarrow> 32 word list \<Rightarrow> diags \<Rightarrow> (func_pointer option \<times> diags) option" where
  "project_invoke ing typeDef row [] ds = Some (None, ds)"
| "project_invoke ing typeDef row (methodRow # rows) ds =
     (let file = in_file ing in
      case row_at (wf_Methods file) methodRow of None \<Rightarrow> None
      | Some method \<Rightarrow>
          if mdr_Name method \<noteq> ''Invoke'' then project_invoke ing typeDef row rows ds
          else (case wf_MethodSignature file (mdr_Signature method) of
              Inl e \<Rightarrow> Some (None, ds @ [''delegate '' @ tdr_Name typeDef @ '': '' @ e])
            | Inr msig \<Rightarrow>
                (let (ret, ds) = typeRefOf ing (ms_Return msig) ds in
                 case paramsOf ing method msig ds of None \<Rightarrow> None
                 | Some (params, ds) \<Rightarrow> Some
                     (Some \<lparr>fp_Return = ret, fp_Params = params, fp_Availability = availabilityOf file (typeDefTarget row)\<rparr>, ds))))"

definition projectDelegate :: "ingester \<Rightarrow> type_def_row \<Rightarrow> 32 word \<Rightarrow> diags \<Rightarrow> (func_pointer option \<times> diags) option" where
  "projectDelegate ing typeDef row ds = project_invoke ing typeDef row (method_rows ing typeDef) ds"

text \<open>The last implemented interface is the base.\<close>

definition base_step :: "ingester \<Rightarrow> coded_index \<Rightarrow> string \<times> string \<Rightarrow> (string \<times> string) option" where
  "base_step ing base st =
     (case ix_Table base of
        TableTypeRef \<Rightarrow>
          map_option (\<lambda>ref. (trr_Name ref, se_ApiName (in_opts ing) (trr_Namespace ref)))
            (row_at (wf_TypeRefs (in_file ing)) (ix_Row base))
      | TableTypeDef \<Rightarrow>
          map_option (\<lambda>def. (tdr_Name def, se_ApiName (in_opts ing) (tdr_Namespace def)))
            (row_at (wf_TypeDefs (in_file ing)) (ix_Row base))
      | _ \<Rightarrow> Some st)"

definition interface_method_step :: "ingester \<Rightarrow> 32 word \<Rightarrow> com_method list \<times> diags \<Rightarrow> (com_method list \<times> diags) option" where
  "interface_method_step ing row st = (case st of (ms, ds) \<Rightarrow>
     (let file = in_file ing in
      case row_at (wf_Methods file) row of None \<Rightarrow> None
      | Some method \<Rightarrow> (case wf_MethodSignature file (mdr_Signature method) of
          Inl e \<Rightarrow> Some (ms, ds @ [''interface method '' @ mdr_Name method @ '': '' @ e])
        | Inr msig \<Rightarrow>
            (let (ret, ds) = typeRefOf ing (ms_Return msig) ds in
             case paramsOf ing method msig ds of None \<Rightarrow> None
             | Some (params, ds) \<Rightarrow>
                 Some (ms @ [\<lparr>cm_Name = mdr_Name method, cm_Return = ret, cm_Params = params\<rparr>], ds)))))"

definition projectInterface :: "ingester \<Rightarrow> type_def_row \<Rightarrow> 32 word \<Rightarrow> diags \<Rightarrow> (com_interface \<times> diags) option" where
  "projectInterface ing typeDef row ds =
     (let file = in_file ing; target = typeDefTarget row in
      case loop (base_step ing) (in_interfaceImplIndex ing row) ([], []) of None \<Rightarrow> None
      | Some (base, api) \<Rightarrow>
          (case loop (interface_method_step ing) (method_rows ing typeDef) ([], ds) of None \<Rightarrow> None
           | Some (ms, ds) \<Rightarrow> Some
               (\<lparr>ci_GUID = guidOf file target, ci_BaseInterface = base, ci_BaseInterfaceApi = api,
                 ci_Methods = ms, ci_Availability = availabilityOf file target\<rparr>, ds)))"

section \<open>The run\<close>

definition class_id_constant :: "string \<Rightarrow> string \<Rightarrow> constant_decl" where
  "class_id_constant name guid = constant_entry name (Native ''Guid'') no_availability (guid, ''Guid'')"

definition projectTypeDef ::
  "ingester \<Rightarrow> type_def_row \<Rightarrow> 32 word \<Rightarrow> namespace_meta \<times> diags \<Rightarrow> (string + namespace_meta \<times> diags) option" where
  "projectTypeDef ing typeDef row st = (case st of (meta, ds) \<Rightarrow>
     (let name = tdr_Name typeDef in
      case classifyTypeDef (in_file ing) typeDef row of None \<Rightarrow> None
      | Some kind \<Rightarrow>
          if kind = ''Apis'' then projectApis ing typeDef (meta, ds)
          else if kind = ''Enum'' then
            map_option (\<lambda>(e, ds). Inr (meta\<lparr>ns_Enums := AList.update name e (ns_Enums meta)\<rparr>, ds)) (projectEnum ing typeDef row ds)
          else if kind = ''Struct'' \<or> kind = ''Union'' then
            map_option Inr (projectStructInto ing typeDef row (meta, ds))
          else if kind = ''Typedef'' then
            map_option (\<lambda>(t, ds). Inr (meta\<lparr>ns_Typedefs := AList.update name t (ns_Typedefs meta)\<rparr>, ds)) (projectTypedef ing typeDef row ds)
          else if kind = ''FunctionPointer'' then
            map_option (\<lambda>(d, ds). Inr (case d of None \<Rightarrow> (meta, ds)
                | Some d \<Rightarrow> (meta\<lparr>ns_Delegates := AList.update name d (ns_Delegates meta)\<rparr>, ds)))
              (projectDelegate ing typeDef row ds)
          else if kind = ''Com'' then
            map_option (\<lambda>(c, ds). Inr (meta\<lparr>ns_Interfaces := AList.update name c (ns_Interfaces meta)\<rparr>, ds)) (projectInterface ing typeDef row ds)
          else if kind = ''ComClassID'' then
            (let guid = guidOf (in_file ing) (typeDefTarget row) in
             Some (Inr (if guid = [] then (meta, ds)
               else (meta\<lparr>ns_Constants := ns_Constants meta @ [class_id_constant name guid]\<rparr>, ds))))
          else Some (Inr (meta, ds))))"

definition isProjectedNamespace :: "settings \<Rightarrow> string \<Rightarrow> bool" where
  "isProjectedNamespace opts namespace \<longleftrightarrow>
     has_prefix namespace (se_ProjectPrefix opts) \<and> namespace \<notin> set (se_ExcludedNamespaces opts)"

definition new_namespace :: "ingester \<Rightarrow> string \<Rightarrow> namespace_meta" where
  "new_namespace ing short = (empty_namespace short)\<lparr>ns_WinmdVersion := in_winmdVersion ing\<rparr>"

definition typedef_step ::
  "ingester \<Rightarrow> 32 word \<times> type_def_row \<Rightarrow> namespace_meta gomap \<times> diags \<Rightarrow> (string + namespace_meta gomap \<times> diags) option" where
  "typedef_step ing e st = (case (e, st) of ((row, typeDef), (byNamespace, ds)) \<Rightarrow>
     if \<not> isProjectedNamespace (in_opts ing) (tdr_Namespace typeDef) \<or> in_nestedSet ing row then Some (Inr (byNamespace, ds))
     else (let short = se_ApiName (in_opts ing) (tdr_Namespace typeDef);
               meta = (case map_of byNamespace short of Some meta \<Rightarrow> meta | None \<Rightarrow> new_namespace ing short)
           in case projectTypeDef ing typeDef row (meta, ds) of
             None \<Rightarrow> None
           | Some (Inl e) \<Rightarrow> Some (Inl (''projecting '' @ full_name typeDef @ '': '' @ e))
           | Some (Inr (meta, ds)) \<Rightarrow> Some (Inr (AList.update short meta byNamespace, ds))))"

text \<open>\<open>sort.Slice\<close> on the two lists of a namespace, by name.\<close>

record slice_sorters =
  sl_functions :: "function_decl list \<Rightarrow> function_decl list"
  sl_constants :: "constant_decl list \<Rightarrow> constant_decl list"

definition sort_lists :: "slice_sorters \<Rightarrow> namespace_meta \<Rightarrow> namespace_meta" where
  "sort_lists sorters meta =
     meta\<lparr>ns_Functions := sl_functions sorters (ns_Functions meta), ns_Constants := sl_constants sorters (ns_Constants meta)\<rparr>"

text \<open>The namespaces have distinct names, so any way to sort them gives this order.\<close>

definition Ingest :: "slice_sorters \<Rightarrow> ingester \<Rightarrow> (string + namespace_meta list \<times> diags) option" where
  "Ingest sorters ing =
     (case loop_err (typedef_step ing) (numbered (wf_TypeDefs (in_file ing))) ([], []) of
        None \<Rightarrow> None
      | Some (Inl e) \<Rightarrow> Some (Inl e)
      | Some (Inr (byNamespace, ds)) \<Rightarrow>
          Some (Inr (sort_key ns_Namespace (map (sort_lists sorters) (map snd byNamespace)), ds)))"

end
