(* ===== verification/IngestFacts.thy ===== *)
theory IngestFacts
  imports Projection Validate
begin

text \<open>
  What the projection guarantees on a well-formed metadata file: it returns, and what it writes passes the
  check of \<open>validate\<close>. The conditions on the file (\<open>file_ok\<close>) are those of the format: row numbers in range,
  no type nested in itself, signatures that decode, and references to types the file declares.
\<close>

section \<open>Loops\<close>

lemma loop_spec:
  "I s \<Longrightarrow> (\<And>x s. x \<in> set xs \<Longrightarrow> I s \<Longrightarrow> \<exists>t. f x s = Some t \<and> I t) \<Longrightarrow> \<exists>t. loop f xs s = Some t \<and> I t"
proof (induction xs arbitrary: s)
  case (Cons x xs)
  obtain s' where s': "f x s = Some s'" "I s'" using Cons.prems(2) [of x s] Cons.prems(1) by auto
  have "\<exists>t. loop f xs s' = Some t \<and> I t" by (rule Cons.IH [OF s'(2)]) (simp add: Cons.prems(2))
  with s'(1) show ?case by simp
qed simp

lemma loop_invariant:
  "loop f xs s = Some t \<Longrightarrow> I s \<Longrightarrow> (\<And>x s t. x \<in> set xs \<Longrightarrow> f x s = Some t \<Longrightarrow> I s \<Longrightarrow> I t) \<Longrightarrow> I t"
proof (induction xs arbitrary: s)
  case (Cons x xs)
  then obtain s' where s': "f x s = Some s'" "loop f xs s' = Some t" by (auto split: option.splits)
  have "I s'" by (rule Cons.prems(3) [OF _ s'(1) Cons.prems(2)]) simp
  show ?case by (rule Cons.IH [OF s'(2) \<open>I s'\<close>]) (use Cons.prems(3) in \<open>meson list.set_intros(2)\<close>)
qed simp

lemma loop_append:
  "loop f (xs @ ys) s = (case loop f xs s of None \<Rightarrow> None | Some s' \<Rightarrow> loop f ys s')"
  by (induction xs arbitrary: s) (auto split: option.splits)

lemma loop_err_spec:
  "I s \<Longrightarrow> (\<And>x s. x \<in> set xs \<Longrightarrow> I s \<Longrightarrow> \<exists>t. f x s = Some (Inr t) \<and> I t) \<Longrightarrow> \<exists>t. loop_err f xs s = Some (Inr t) \<and> I t"
proof (induction xs arbitrary: s)
  case (Cons x xs)
  obtain s' where s': "f x s = Some (Inr s')" "I s'" using Cons.prems(2) [of x s] Cons.prems(1) by auto
  have "\<exists>t. loop_err f xs s' = Some (Inr t) \<and> I t" by (rule Cons.IH [OF s'(2)]) (simp add: Cons.prems(2))
  with s'(1) show ?case by simp
qed simp

text \<open>What the step of one element establishes and the others keep holds at the end.\<close>

lemma loop_err_establishes:
  assumes "I s"
    and "\<And>x s. x \<in> set xs \<Longrightarrow> I s \<Longrightarrow> \<exists>t. f x s = Some (Inr t) \<and> I t \<and> (P s \<or> x = a \<longrightarrow> P t)"
  shows "\<exists>t. loop_err f xs s = Some (Inr t) \<and> I t \<and> (P s \<or> a \<in> set xs \<longrightarrow> P t)"
  using assms
proof (induction xs arbitrary: s)
  case (Cons x xs)
  obtain s' where s': "f x s = Some (Inr s')" "I s'" "P s \<or> x = a \<longrightarrow> P s'" using Cons.prems(2) [of x s] Cons.prems(1) by auto
  have "\<exists>t. loop_err f xs s' = Some (Inr t) \<and> I t \<and> (P s' \<or> a \<in> set xs \<longrightarrow> P t)"
    by (rule Cons.IH [OF s'(2)]) (rule Cons.prems(2) [OF list.set_intros(2)])
  with s' show ?case by auto
qed simp

section \<open>Rows\<close>

lemma row_at_set: "row_at xs row = Some x \<Longrightarrow> x \<in> set xs"
  by (auto simp: row_at_def Let_def split: if_splits)

lemma row_at_total:
  assumes "row \<noteq> 0" "unat row \<le> length xs"
  shows "row_at xs row \<noteq> None"
proof -
  have "unat (row - 1) = unat row - 1" using assms(1) by (simp add: unat_minus_one)
  moreover have "0 < unat row" using assms(1) by (simp add: unat_gt_0)
  ultimately show ?thesis using assms(2) by (simp add: row_at_def Let_def)
qed

lemma rows_between_row_at:
  assumes "row \<in> set (rows_between a e xs)" "a \<noteq> 0"
  shows "row_at xs row \<noteq> None"
proof -
  from assms(1) obtain k where k: "row = word_of_nat k" "unat a \<le> k" "k < unat e" "k \<le> length xs"
    by (auto simp: rows_between_def)
  have "unat e < 2 ^ LENGTH(32)" by (rule unsigned_less)
  with k(3) have "k < 2 ^ 32" by simp
  then have "unat row = k" using k(1) by (simp add: unat_of_nat take_bit_nat_eq_self)
  moreover have "0 < unat a" using assms(2) by (simp add: unat_gt_0)
  ultimately show ?thesis using k(2,4) by (intro row_at_total) auto
qed

lemma numbered_set: "(row, x) \<in> set (numbered xs) \<Longrightarrow> x \<in> set xs"
  by (auto simp: numbered_def dest: set_zip_rightD)

section \<open>Well-formed files\<close>

text \<open>Row numbers are in range, and no type is nested in itself.\<close>

definition index_valid :: "winmd_file \<Rightarrow> coded_index \<Rightarrow> bool" where
  "index_valid file i \<longleftrightarrow>
     (case ix_Table i of
        TableTypeRef \<Rightarrow> row_at (wf_TypeRefs file) (ix_Row i) \<noteq> None
      | TableTypeDef \<Rightarrow> row_at (wf_TypeDefs file) (ix_Row i) \<noteq> None
      | _ \<Rightarrow> True)"

definition is_interface :: "winmd_file \<Rightarrow> type_def_row \<Rightarrow> bool" where
  "is_interface file td \<longleftrightarrow> tdr_Flags td AND wf_TypeAttrInterface file \<noteq> 0"

definition nesting :: "winmd_file \<Rightarrow> (32 word \<times> 32 word) set" where
  "nesting file = {(ncr_NestedClass r, ncr_EnclosingClass r) | r. r \<in> set (wf_NestedClasses file)}"

definition rows_valid :: "winmd_file \<Rightarrow> bool" where
  "rows_valid file \<longleftrightarrow>
     (\<forall>td \<in> set (wf_TypeDefs file). tdr_FieldFirst td \<noteq> 0 \<and> tdr_MethodFirst td \<noteq> 0 \<and>
        (is_interface file td \<or> index_valid file (tdr_Extends td))) \<and>
     (\<forall>m \<in> set (wf_Methods file). mdr_ParamFirst m \<noteq> 0) \<and>
     (\<forall>r \<in> set (wf_ImplMaps file). row_at (wf_ModuleRefs file) (imr_ImportScope r) \<noteq> None) \<and>
     (\<forall>r \<in> set (wf_NestedClasses file). row_at (wf_TypeDefs file) (ncr_NestedClass r) \<noteq> None) \<and>
     (\<forall>r \<in> set (wf_InterfaceImpls file). index_valid file (iir_Interface r)) \<and>
     acyclic (nesting file)"

text \<open>The types that become declarations of the metadata, under the kind they are classified as.\<close>

definition emitted_rows :: "winmd_file \<Rightarrow> settings \<Rightarrow> (32 word \<times> type_def_row) list" where
  "emitted_rows file opts =
     filter (\<lambda>(row, td). isProjectedNamespace opts (tdr_Namespace td) \<and> \<not> build_nestedSet file row) (numbered (wf_TypeDefs file))"

definition has_invoke :: "winmd_file \<Rightarrow> type_def_row \<Rightarrow> bool" where
  "has_invoke file td \<longleftrightarrow>
     (\<exists>row \<in> set (rows_between (tdr_MethodFirst td) (tdr_MethodEnd td) (wf_Methods file)).
        map_option mdr_Name (row_at (wf_Methods file) row) = Some ''Invoke'')"

definition has_instance_field :: "winmd_file \<Rightarrow> type_def_row \<Rightarrow> bool" where
  "has_instance_field file td \<longleftrightarrow>
     (\<exists>row \<in> set (rows_between (tdr_FieldFirst td) (tdr_FieldEnd td) (wf_Fields file)).
        map_option (\<lambda>f. fdr_Flags f AND wf_FieldAttrStatic file) (row_at (wf_Fields file) row) = Some 0)"

definition referable_kinds :: "string list" where
  "referable_kinds = [''Struct'', ''Union'', ''Enum'', ''Typedef'', ''FunctionPointer'', ''Com'']"

text \<open>The file declares the name as the kind, and nothing else of that full name as another kind.\<close>

definition declares :: "winmd_file \<Rightarrow> settings \<Rightarrow> string \<Rightarrow> string \<Rightarrow> string \<Rightarrow> bool" where
  "declares file opts kind ns name \<longleftrightarrow>
     (\<exists>(row, td) \<in> set (emitted_rows file opts).
        tdr_Namespace td = ns \<and> tdr_Name td = name \<and> classifyTypeDef file td row = Some kind) \<and>
     (\<forall>(row, td) \<in> set (numbered (wf_TypeDefs file)).
        full_name td = ns @ ''.'' @ name \<longrightarrow> classifyTypeDef file td row = Some kind)"

fun sig_closed :: "winmd_file \<Rightarrow> settings \<Rightarrow> type_sig \<Rightarrow> bool" where
  "sig_closed file opts (SigNamed ns name c) \<longleftrightarrow>
     ns = ''System'' \<or> ns = [] \<or> se_ApiName opts ns = [] \<or>
     list_ex (\<lambda>kind. declares file opts kind ns name) referable_kinds"
| "sig_closed file opts (SigPointer s c) \<longleftrightarrow> sig_closed file opts s"
| "sig_closed file opts (SigArray s n c) \<longleftrightarrow> sig_closed file opts s"
| "sig_closed file opts (SigSZArray s c) \<longleftrightarrow> sig_closed file opts s"
| "sig_closed file opts _ \<longleftrightarrow> True"

definition base_closed :: "winmd_file \<Rightarrow> settings \<Rightarrow> coded_index \<Rightarrow> bool" where
  "base_closed file opts i \<longleftrightarrow>
     (case ix_Table i of
        TableTypeRef \<Rightarrow> (case row_at (wf_TypeRefs file) (ix_Row i) of
            None \<Rightarrow> True | Some ref \<Rightarrow> declares file opts ''Com'' (trr_Namespace ref) (trr_Name ref))
      | TableTypeDef \<Rightarrow> (case row_at (wf_TypeDefs file) (ix_Row i) of
            None \<Rightarrow> True | Some td \<Rightarrow> declares file opts ''Com'' (tdr_Namespace td) (tdr_Name td))
      | _ \<Rightarrow> True)"

definition file_ok :: "winmd_file \<Rightarrow> settings \<Rightarrow> bool" where
  "file_ok file opts \<longleftrightarrow> rows_valid file \<and>
     (\<forall>f \<in> set (wf_Fields file).
        case wf_FieldSignature file (fdr_Signature f) of Inl e \<Rightarrow> False | Inr s \<Rightarrow> sig_closed file opts s) \<and>
     (\<forall>m \<in> set (wf_Methods file).
        case wf_MethodSignature file (mdr_Signature m) of Inl e \<Rightarrow> False
        | Inr s \<Rightarrow> list_all (sig_closed file opts) (ms_Return s # ms_Params s)) \<and>
     (\<forall>r \<in> set (wf_InterfaceImpls file). base_closed file opts (iir_Interface r)) \<and>
     [] \<notin> set (wf_ModuleRefs file) \<and>
     (\<forall>(row, td) \<in> set (emitted_rows file opts).
        (classifyTypeDef file td row = Some ''Typedef'' \<longrightarrow> has_instance_field file td) \<and>
        (classifyTypeDef file td row = Some ''FunctionPointer'' \<longrightarrow> has_invoke file td))"

section \<open>The indices\<close>

lemma classify_total:
  assumes "rows_valid file" "td \<in> set (wf_TypeDefs file)"
  shows "classifyTypeDef file td row \<noteq> None"
proof -
  from assms have "is_interface file td \<or> index_valid file (tdr_Extends td)" by (simp add: rows_valid_def)
  then show ?thesis
  proof
    assume "is_interface file td"
    then show ?thesis by (simp add: classifyTypeDef_def is_interface_def)
  next
    assume "index_valid file (tdr_Extends td)"
    then have "extendsOf file td \<noteq> None"
      by (auto simp: extendsOf_def index_valid_def Let_def split: table.splits)
    then show ?thesis by (auto simp: classifyTypeDef_def)
  qed
qed

lemma fold_map_update_ran:
  "fold (\<lambda>r m. if P r then m(k r \<mapsto> r) else m) xs m x = Some v \<Longrightarrow> v \<in> set xs \<or> m x = Some v"
proof (induction xs arbitrary: m)
  case (Cons a xs)
  show ?case using Cons.IH [of "if P a then m(k a \<mapsto> a) else m"] Cons.prems by (auto split: if_splits)
qed simp

lemma implMap_set: "build_implMapIndex file row = Some im \<Longrightarrow> im \<in> set (wf_ImplMaps file)"
  using fold_map_update_ran [of "\<lambda>r. ix_Table (imr_MemberForwarded r) = TableMethodDef" "\<lambda>r. ix_Row (imr_MemberForwarded r)"]
  by (fastforce simp: build_implMapIndex_def)

lemma nestedIndex_set:
  "n \<in> set (build_nestedIndex file row) \<Longrightarrow> (n, row) \<in> nesting file"
  by (auto simp: build_nestedIndex_def nesting_def)

lemma kind_step_total:
  assumes "rows_valid file" "e \<in> set (numbered (wf_TypeDefs file))"
  shows "kind_step file prfx e m \<noteq> None"
proof -
  obtain row td where e: "e = (row, td)" by fastforce
  obtain k where "classifyTypeDef file td row = Some k"
    using classify_total [OF assms(1) numbered_set [of row td]] assms(2) e by auto
  then show ?thesis by (simp add: e kind_step_def)
qed

lemma buildIndices_total: "rows_valid file \<Longrightarrow> \<exists>ing. buildIndices file v opts = Some ing"
proof -
  assume ok: "rows_valid file"
  have "\<exists>m. loop (kind_step file (se_ProjectPrefix opts)) (numbered (wf_TypeDefs file)) (se_ExtraKinds opts) = Some m \<and> True"
    using kind_step_total [OF ok] by (intro loop_spec) auto
  then show ?thesis by (auto simp: buildIndices_def)
qed

lemma buildIndicesD:
  assumes "buildIndices file v opts = Some ing"
  shows "in_file ing = file" "in_opts ing = opts" "in_implMapIndex ing = build_implMapIndex file"
    "in_nestedIndex ing = build_nestedIndex file" "in_nestedSet ing = build_nestedSet file"
    "in_interfaceImplIndex ing = build_interfaceImplIndex file" "in_winmdVersion ing = v"
    "loop (kind_step file (se_ProjectPrefix opts)) (numbered (wf_TypeDefs file)) (se_ExtraKinds opts) = Some (in_kindIndex ing)"
  using assms by (auto simp: buildIndices_def split: option.splits)

text \<open>A declared name has its kind in the index: every row of the name writes that kind.\<close>

lemma kindIndex_declared:
  assumes "buildIndices file v opts = Some ing" "declares file opts kind ns name" "kind \<noteq> []" "ns \<noteq> []"
  shows "in_kindIndex ing (ns @ ''.'' @ name) = Some kind"
proof -
  let ?rows = "numbered (wf_TypeDefs file)" and ?key = "ns @ ''.'' @ name"
  note unique = assms(2) [unfolded declares_def, THEN conjunct2]
  obtain row td where td: "(row, td) \<in> set (emitted_rows file opts)" "tdr_Namespace td = ns" "tdr_Name td = name"
      "classifyTypeDef file td row = Some kind" using assms(2) unfolding declares_def by blast
  then have mem: "(row, td) \<in> set ?rows" and pre: "has_prefix ns (se_ProjectPrefix opts)"
    by (auto simp: emitted_rows_def isProjectedNamespace_def)
  obtain xs ys where split: "?rows = xs @ (row, td) # ys" using mem by (metis split_list)
  obtain m where m: "loop (kind_step file (se_ProjectPrefix opts)) ys m = Some (in_kindIndex ing)" "m ?key = Some kind"
    using buildIndicesD(8) [OF assms(1)] td pre assms(3,4)
    by (auto simp: split loop_append kind_step_def full_name_def split: option.splits)
  show ?thesis
  proof (rule loop_invariant [where I = "\<lambda>m. m ?key = Some kind", OF m])
    fix e s t
    assume e: "e \<in> set ys" "kind_step file (se_ProjectPrefix opts) e s = Some t" "s ?key = Some kind"
    obtain row' td' where e': "e = (row', td')" by fastforce
    have "(row', td') \<in> set ?rows" using e(1) e' by (simp add: split)
    then have "full_name td' = ?key \<Longrightarrow> classifyTypeDef file td' row' = Some kind" using unique by blast
    with e(2,3) show "t ?key = Some kind" by (auto simp: e' kind_step_def split: if_splits option.splits)
  qed
qed


section \<open>References\<close>

definition ingests :: "winmd_file \<Rightarrow> settings \<Rightarrow> ingester \<Rightarrow> bool" where
  "ingests file opts ing \<longleftrightarrow> file_ok file opts \<and> (\<exists>v. buildIndices file v opts = Some ing)"

lemma ingestsD:
  assumes "ingests file opts ing"
  shows "in_file ing = file" "in_opts ing = opts" "in_implMapIndex ing = build_implMapIndex file"
    "in_nestedIndex ing = build_nestedIndex file" "in_nestedSet ing = build_nestedSet file"
    "in_interfaceImplIndex ing = build_interfaceImplIndex file" "file_ok file opts" "rows_valid file"
  using assms buildIndicesD by (auto simp: ingests_def file_ok_def)

lemma ingests_kind:
  "ingests file opts ing \<Longrightarrow> declares file opts kind ns name \<Longrightarrow> kind \<noteq> [] \<Longrightarrow> ns \<noteq> [] \<Longrightarrow>
     in_kindIndex ing (ns @ ''.'' @ name) = Some kind"
  using kindIndex_declared by (auto simp: ingests_def)

text \<open>A reference that names a declaration of the file under its kind.\<close>

definition node_declared :: "winmd_file \<Rightarrow> settings \<Rightarrow> type_ref \<Rightarrow> bool" where
  "node_declared file opts x \<longleftrightarrow> ref_Kind x \<noteq> ''ApiRef'' \<or> ref_Api x = [] \<or>
     (\<exists>ns. ref_Api x = se_ApiName opts ns \<and> ref_TargetKind x \<in> set referable_kinds \<and>
        declares file opts (ref_TargetKind x) ns (ref_Name x))"

definition ref_declared :: "winmd_file \<Rightarrow> settings \<Rightarrow> type_ref \<Rightarrow> bool" where
  "ref_declared file opts ref \<longleftrightarrow> ref_Kind ref \<noteq> [] \<and> list_all (node_declared file opts) (walk_ref ref)"

lemma list_ex_iff_bex: "list_ex P xs \<longleftrightarrow> (\<exists>x \<in> set xs. P x)"
  by (simp add: list_ex_iff)

lemma typeref_named_declared:
  assumes "ingests file opts ing" "sig_closed file opts (SigNamed ns name c)"
  shows "ref_declared file opts (fst (typeref_named ing ns name c ds))"
proof (cases "ns = ''System'' \<or> ns = [] \<or> se_ApiName opts ns = []")
  case True
  then show ?thesis
    by (auto simp: typeref_named_def ref_declared_def node_declared_def Let_def ingestsD(2) [OF assms(1)])
next
  case False
  then obtain kind where k: "kind \<in> set referable_kinds" "declares file opts kind ns name"
    using assms(2) by (auto simp: list_ex_iff)
  then have "kind \<noteq> []" by (auto simp: referable_kinds_def)
  with k False have "in_kindIndex ing (ns @ ''.'' @ name) = Some kind"
    by (intro ingests_kind [OF assms(1)]) auto
  with k False show ?thesis
    by (auto simp: typeref_named_def ref_declared_def node_declared_def Let_def ingestsD(2) [OF assms(1)])
qed

lemma typeRefOf_declared:
  assumes "ingests file opts ing"
  shows "sig_closed file opts s \<Longrightarrow> ref_declared file opts (fst (typeRefOf ing s ds))"
proof (induction s arbitrary: ds)
  case (SigNamed ns name c)
  then show ?case using typeref_named_declared [OF assms] by simp
next
  case (SigPrimitive e c)
  then show ?case by (simp add: ref_declared_def node_declared_def split: option.splits)
qed (simp_all add: ref_declared_def node_declared_def case_prod_beta Let_def)

definition param_declared :: "winmd_file \<Rightarrow> settings \<Rightarrow> param \<Rightarrow> bool" where
  "param_declared file opts p \<longleftrightarrow> ref_declared file opts (p_Type p)"

lemma param_attribute_type [simp]: "p_Type (param_attribute attr p) = p_Type p"
  by (simp add: param_attribute_def native_array_info_def Let_def split: option.splits)

lemma param_of_row_type [simp]: "p_Type (param_of_row file row pr p) = p_Type p"
proof -
  have "p_Type (fold param_attribute attrs q) = p_Type q" for attrs q
    by (induction attrs arbitrary: q) simp_all
  then show ?thesis by (simp add: param_of_row_def applyParamAttributes_def)
qed

lemma sig_params_declared:
  "ingests file opts ing \<Longrightarrow> list_all (sig_closed file opts) ss \<Longrightarrow>
     list_all (param_declared file opts) (fst (sig_params ing i ss ds))"
  by (induction ss arbitrary: i ds)
    (simp_all add: param_declared_def zero_param_def case_prod_beta Let_def typeRefOf_declared)

lemma paramsOf_spec:
  assumes "ingests file opts ing" "method \<in> set (wf_Methods file)" "list_all (sig_closed file opts) (ms_Params msig)"
  shows "\<exists>ps ds'. paramsOf ing method msig ds = Some (ps, ds') \<and> list_all (param_declared file opts) ps"
proof -
  note f = ingestsD(1) [OF assms(1)]
  have first: "mdr_ParamFirst method \<noteq> 0" using ingestsD(8) [OF assms(1)] assms(2) by (simp add: rows_valid_def)
  obtain ps0 ds' where ps0: "sig_params ing 0 (ms_Params msig) ds = (ps0, ds')" by fastforce
  have "list_all (param_declared file opts) ps0" using sig_params_declared [OF assms(1,3), of 0 ds] ps0 by simp
  then have "\<exists>ps. loop (param_row_step file) (rows_between (mdr_ParamFirst method) (mdr_ParamEnd method) (wf_Params file)) ps0 =
      Some ps \<and> list_all (param_declared file opts) ps"
  proof (rule loop_spec)
    fix row ps
    assume row: "row \<in> set (rows_between (mdr_ParamFirst method) (mdr_ParamEnd method) (wf_Params file))"
      and ps: "list_all (param_declared file opts) ps"
    obtain pr where pr: "row_at (wf_Params file) row = Some pr" using rows_between_row_at [OF row first] by auto
    let ?s = "unat (pdr_Sequence pr)"
    show "\<exists>t. param_row_step file row ps = Some t \<and> list_all (param_declared file opts) t"
    proof (cases "?s = 0 \<or> length ps < ?s")
      case False
      then have "?s - 1 < length ps" by linarith
      then have "param_declared file opts (param_of_row file row pr (ps ! (?s - 1)))"
        using ps by (simp add: param_declared_def list_all_length)
      then have "list_all (param_declared file opts) (ps[?s - 1 := param_of_row file row pr (ps ! (?s - 1))])"
        using ps by (auto simp: list_all_iff dest!: set_update_subset_insert [THEN subsetD])
      with False show ?thesis by (simp add: param_row_step_def pr Let_def)
    qed (use ps in \<open>simp add: param_row_step_def pr Let_def\<close>)
  qed
  with ps0 f show ?thesis by (auto simp: paramsOf_def Let_def)
qed


section \<open>Declarations\<close>

definition function_ok :: "winmd_file \<Rightarrow> settings \<Rightarrow> function_decl \<Rightarrow> bool" where
  "function_ok file opts f \<longleftrightarrow>
     fn_DLL f \<noteq> [] \<and> ref_declared file opts (fn_Return f) \<and> list_all (param_declared file opts) (fn_Params f)"

definition constant_ok :: "winmd_file \<Rightarrow> settings \<Rightarrow> constant_decl \<Rightarrow> bool" where
  "constant_ok file opts c \<longleftrightarrow> ref_declared file opts (cn_Type c)"

definition enum_ok :: "enum_def \<Rightarrow> bool" where
  "enum_ok e \<longleftrightarrow> en_BaseType e \<in> set validEnumBases"

definition struct_ok :: "winmd_file \<Rightarrow> settings \<Rightarrow> struct_def \<Rightarrow> bool" where
  "struct_ok file opts s \<longleftrightarrow> list_all (node_declared file opts) (walk_struct s)"

definition delegate_ok :: "winmd_file \<Rightarrow> settings \<Rightarrow> func_pointer \<Rightarrow> bool" where
  "delegate_ok file opts d \<longleftrightarrow> ref_declared file opts (fp_Return d) \<and> list_all (param_declared file opts) (fp_Params d)"

definition interface_ok :: "winmd_file \<Rightarrow> settings \<Rightarrow> com_interface \<Rightarrow> bool" where
  "interface_ok file opts c \<longleftrightarrow>
     (ci_BaseInterface c = [] \<or> (\<exists>ns. ci_BaseInterfaceApi c = se_ApiName opts ns \<and> declares file opts ''Com'' ns (ci_BaseInterface c))) \<and>
     list_all (\<lambda>m. ref_declared file opts (cm_Return m) \<and> list_all (param_declared file opts) (cm_Params m)) (ci_Methods c)"

definition typedef_ok :: "winmd_file \<Rightarrow> settings \<Rightarrow> typedef_def \<Rightarrow> bool" where
  "typedef_ok file opts t \<longleftrightarrow> ref_declared file opts (td_Underlying t)"

definition meta_ok :: "winmd_file \<Rightarrow> settings \<Rightarrow> namespace_meta \<Rightarrow> bool" where
  "meta_ok file opts meta \<longleftrightarrow>
     list_all (function_ok file opts) (ns_Functions meta) \<and> list_all (constant_ok file opts) (ns_Constants meta) \<and>
     list_all (\<lambda>(n, e). enum_ok e) (ns_Enums meta) \<and> list_all (\<lambda>(n, s). struct_ok file opts s) (ns_Structs meta) \<and>
     list_all (\<lambda>(n, d). delegate_ok file opts d) (ns_Delegates meta) \<and>
     list_all (\<lambda>(n, c). interface_ok file opts c) (ns_Interfaces meta) \<and>
     list_all (\<lambda>(n, t). typedef_ok file opts t) (ns_Typedefs meta)"

lemma list_all_update:
  "list_all (\<lambda>(n, x). P x) m \<Longrightarrow> P v \<Longrightarrow> list_all (\<lambda>(n, x). P x) (AList.update k v m)"
  by (induction m) auto

lemma keys_update: "fst ` set (AList.update k v m) = insert k (fst ` set m)"
  by (induction m) auto

lemma field_row_spec:
  assumes "ingests file opts ing" "td \<in> set (wf_TypeDefs file)" "row \<in> set (field_rows ing td)"
  shows "\<exists>f s. row_at (wf_Fields file) row = Some f \<and> wf_FieldSignature file (fdr_Signature f) = Inr s \<and> sig_closed file opts s"
proof -
  have "tdr_FieldFirst td \<noteq> 0" using ingestsD(8) [OF assms(1)] assms(2) by (simp add: rows_valid_def)
  then obtain f where f: "row_at (wf_Fields file) row = Some f"
    using rows_between_row_at assms(3) unfolding field_rows_def ingestsD(1) [OF assms(1)] by blast
  then have "f \<in> set (wf_Fields file)" by (rule row_at_set)
  then have "case wf_FieldSignature file (fdr_Signature f) of Inl e \<Rightarrow> False | Inr s \<Rightarrow> sig_closed file opts s"
    using ingestsD(7) [OF assms(1)] unfolding file_ok_def by blast
  with f show ?thesis by (auto split: sum.splits)
qed

lemma method_row_spec:
  assumes "ingests file opts ing" "td \<in> set (wf_TypeDefs file)" "row \<in> set (method_rows ing td)"
  shows "\<exists>m s. row_at (wf_Methods file) row = Some m \<and> m \<in> set (wf_Methods file) \<and>
    wf_MethodSignature file (mdr_Signature m) = Inr s \<and>
    sig_closed file opts (ms_Return s) \<and> list_all (sig_closed file opts) (ms_Params s)"
proof -
  have "tdr_MethodFirst td \<noteq> 0" using ingestsD(8) [OF assms(1)] assms(2) by (simp add: rows_valid_def)
  then obtain m where m: "row_at (wf_Methods file) row = Some m"
    using rows_between_row_at assms(3) unfolding method_rows_def ingestsD(1) [OF assms(1)] by blast
  then have "m \<in> set (wf_Methods file)" by (rule row_at_set)
  moreover from this have "case wf_MethodSignature file (mdr_Signature m) of Inl e \<Rightarrow> False
      | Inr s \<Rightarrow> list_all (sig_closed file opts) (ms_Return s # ms_Params s)"
    using ingestsD(7) [OF assms(1)] unfolding file_ok_def by blast
  ultimately show ?thesis using m by (auto split: sum.splits)
qed

lemma projectConstant_spec:
  assumes "ingests file opts ing" "td \<in> set (wf_TypeDefs file)" "row \<in> set (field_rows ing td)"
  shows "\<exists>c ds'. projectConstant ing row ds = Some (c, ds') \<and> (\<forall>x. c = Some x \<longrightarrow> constant_ok file opts x)"
proof -
  obtain f s where f: "row_at (wf_Fields file) row = Some f" "wf_FieldSignature file (fdr_Signature f) = Inr s"
    "sig_closed file opts s" using field_row_spec [OF assms] by blast
  obtain t ds1 where t: "typeRefOf ing s ds = (t, ds1)" by fastforce
  have "ref_declared file opts t" using typeRefOf_declared [OF assms(1) f(3), of ds] t by simp
  then have "constant_ok file opts (constant_entry n t av v)" for n av v by (simp add: constant_ok_def constant_entry_def)
  then show ?thesis
    using f t ingestsD(1) [OF assms(1)]
    by (auto simp: projectConstant_def Let_def case_prod_beta split: option.splits)
qed

lemma method_step_spec:
  assumes "ingests file opts ing" "td \<in> set (wf_TypeDefs file)" "row \<in> set (method_rows ing td)"
    and "list_all (function_ok file opts) fs"
  shows "\<exists>fs' ds'. method_step ing row (fs, ds) = Some (Inr (fs', ds')) \<and> list_all (function_ok file opts) fs'"
proof -
  note f = ingestsD(1) [OF assms(1)]
  obtain m s where m: "row_at (wf_Methods file) row = Some m" "m \<in> set (wf_Methods file)"
      "wf_MethodSignature file (mdr_Signature m) = Inr s"
      "sig_closed file opts (ms_Return s)" "list_all (sig_closed file opts) (ms_Params s)"
    using method_row_spec [OF assms(1-3)] by blast
  show ?thesis
  proof (cases "in_implMapIndex ing row")
    case None
    then show ?thesis using m f assms(4) by (simp add: method_step_def)
  next
    case (Some im)
    then have "im \<in> set (wf_ImplMaps file)" using implMap_set by (simp add: ingestsD(3) [OF assms(1)])
    then obtain dll where dll: "row_at (wf_ModuleRefs file) (imr_ImportScope im) = Some dll"
      using ingestsD(8) [OF assms(1)] by (auto simp: rows_valid_def)
    then have "dll \<noteq> []" using row_at_set [OF dll] ingestsD(7) [OF assms(1)] by (auto simp: file_ok_def)
    moreover obtain t ds1 where t: "typeRefOf ing (ms_Return s) ds = (t, ds1)" by fastforce
    moreover have "ref_declared file opts t" using typeRefOf_declared [OF assms(1) m(4), of ds] t by simp
    moreover obtain ps ds2 where "paramsOf ing m s ds1 = Some (ps, ds2)" "list_all (param_declared file opts) ps"
      using paramsOf_spec [OF assms(1) m(2,5)] by blast
    ultimately show ?thesis using m f assms(4) Some dll
      by (simp add: method_step_def projectFunction_def Let_def function_ok_def)
  qed
qed

lemma projectApis_spec:
  assumes "ingests file opts ing" "td \<in> set (wf_TypeDefs file)" "meta_ok file opts meta"
  shows "\<exists>fs cs ds'. projectApis ing td (meta, ds) = Some (Inr (meta\<lparr>ns_Functions := fs, ns_Constants := cs\<rparr>, ds')) \<and>
    meta_ok file opts (meta\<lparr>ns_Functions := fs, ns_Constants := cs\<rparr>)"
proof -
  have "\<exists>t. loop_err (method_step ing) (method_rows ing td) (ns_Functions meta, ds) = Some (Inr t) \<and>
      (\<lambda>t. list_all (function_ok file opts) (fst t)) t"
    by (rule loop_err_spec) (use assms method_step_spec [OF assms(1,2)] in \<open>auto simp: meta_ok_def\<close>)
  then obtain fs ds1 where fs: "loop_err (method_step ing) (method_rows ing td) (ns_Functions meta, ds) = Some (Inr (fs, ds1))"
    "list_all (function_ok file opts) fs" by auto
  have "\<exists>t. loop (constant_step ing) (field_rows ing td) (ns_Constants meta, ds1) = Some t \<and>
      (\<lambda>t. list_all (constant_ok file opts) (fst t)) t"
  proof (rule loop_spec)
    fix row and st :: "constant_decl list \<times> diags"
    assume row: "row \<in> set (field_rows ing td)" and ok: "list_all (constant_ok file opts) (fst st)"
    obtain cs ds2 where st: "st = (cs, ds2)" by fastforce
    obtain c ds3 where "projectConstant ing row ds2 = Some (c, ds3)" "\<forall>x. c = Some x \<longrightarrow> constant_ok file opts x"
      using projectConstant_spec [OF assms(1,2) row] by blast
    with ok show "\<exists>t. constant_step ing row st = Some t \<and> list_all (constant_ok file opts) (fst t)"
      by (cases c) (auto simp: st constant_step_def)
  qed (use assms in \<open>simp add: meta_ok_def\<close>)
  then obtain cs ds2 where cs: "loop (constant_step ing) (field_rows ing td) (ns_Constants meta, ds1) = Some (cs, ds2)"
    "list_all (constant_ok file opts) cs" by auto
  from fs cs assms(3) show ?thesis by (intro exI [of _ fs] exI [of _ cs] exI [of _ ds2]) (simp add: projectApis_def meta_ok_def)
qed


lemma projectEnum_spec:
  assumes "ingests file opts ing" "td \<in> set (wf_TypeDefs file)"
  shows "\<exists>e ds'. projectEnum ing td row ds = Some (e, ds') \<and> enum_ok e"
proof -
  have base: "enum_base_of file f b \<in> set validEnumBases" if "b \<in> set validEnumBases" for f b
  proof -
    have "enumBaseNames e = Some n \<Longrightarrow> n \<in> set validEnumBases" for e n
      by (cases e) (auto simp: validEnumBases_def)
    with that show ?thesis by (auto simp: enum_base_of_def split: sum.splits type_sig.splits option.splits)
  qed
  have "\<exists>t. loop (enum_field_step ing) (field_rows ing td) (e, ds) = Some t \<and> (\<lambda>t. enum_ok (fst t)) t"
    if "enum_ok e" for e
  proof (rule loop_spec)
    fix r and st :: "enum_def \<times> diags"
    assume r: "r \<in> set (field_rows ing td)" and ok: "enum_ok (fst st)"
    obtain e ds1 where st: "st = (e, ds1)" by fastforce
    obtain f where f: "row_at (wf_Fields file) r = Some f" using field_row_spec [OF assms r] by blast
    show "\<exists>t. enum_field_step ing r st = Some t \<and> enum_ok (fst t)"
      using ok f by (cases "in_constantIndex ing r")
        (simp_all add: st enum_field_step_def enum_ok_def base ingestsD(1) [OF assms(1)] case_prod_beta Let_def)
  qed (use that in simp)
  then show ?thesis unfolding projectEnum_def Let_def by (fastforce simp: enum_ok_def validEnumBases_def)
qed

lemma projectTypedef_spec:
  assumes "ingests file opts ing" "td \<in> set (wf_TypeDefs file)" "has_instance_field file td"
  shows "\<exists>t ds'. projectTypedef ing td row ds = Some (t, ds') \<and> typedef_ok file opts t"
proof -
  note f = ingestsD(1) [OF assms(1)]
  have "\<exists>t ds'. first_field_type ing rows ds = Some (Some t, ds') \<and> ref_declared file opts t"
    if "set rows \<subseteq> set (field_rows ing td)"
      "\<exists>r \<in> set rows. map_option (\<lambda>f. fdr_Flags f AND wf_FieldAttrStatic file) (row_at (wf_Fields file) r) = Some 0" for rows
    using that
  proof (induction rows)
    case (Cons r rows)
    obtain fd s where fd: "row_at (wf_Fields file) r = Some fd" "wf_FieldSignature file (fdr_Signature fd) = Inr s"
      "sig_closed file opts s" using field_row_spec [OF assms(1,2)] Cons.prems(1) by (meson list.set_intros(1) subsetD)
    show ?case
    proof (cases "fdr_Flags fd AND wf_FieldAttrStatic file = 0")
      case True
      have "ref_declared file opts (fst (typeRefOf ing s ds))" by (rule typeRefOf_declared [OF assms(1) fd(3)])
      with True fd show ?thesis by (simp add: f Let_def case_prod_beta)
    next
      case False
      with Cons fd have "\<exists>t ds'. first_field_type ing rows ds = Some (Some t, ds') \<and> ref_declared file opts t" by simp
      with False fd show ?thesis by (simp add: f Let_def)
    qed
  qed simp
  then obtain t ds' where t: "first_field_type ing (field_rows ing td) ds = Some (Some t, ds')" "ref_declared file opts t"
    using assms(3) unfolding has_instance_field_def field_rows_def f by blast
  have "td_Underlying (fold typedef_attribute attrs d) = td_Underlying d" for attrs d
    by (induction attrs arbitrary: d) (simp_all add: typedef_attribute_def Let_def)
  with t show ?thesis by (simp add: projectTypedef_def Let_def typedef_ok_def)
qed

lemma projectDelegate_spec:
  assumes "ingests file opts ing" "td \<in> set (wf_TypeDefs file)" "has_invoke file td"
  shows "\<exists>d ds'. projectDelegate ing td row ds = Some (Some d, ds') \<and> delegate_ok file opts d"
proof -
  note f = ingestsD(1) [OF assms(1)]
  have "\<exists>d ds'. project_invoke ing td row rows ds = Some (Some d, ds') \<and> delegate_ok file opts d"
    if "set rows \<subseteq> set (method_rows ing td)"
      "\<exists>r \<in> set rows. map_option mdr_Name (row_at (wf_Methods file) r) = Some ''Invoke''" for rows
    using that
  proof (induction rows)
    case (Cons r rows)
    obtain m s where m: "row_at (wf_Methods file) r = Some m" "m \<in> set (wf_Methods file)"
      "wf_MethodSignature file (mdr_Signature m) = Inr s"
      "sig_closed file opts (ms_Return s)" "list_all (sig_closed file opts) (ms_Params s)"
      using method_row_spec [OF assms(1,2)] Cons.prems(1) by (meson list.set_intros(1) subsetD)
    show ?case
    proof (cases "mdr_Name m = ''Invoke''")
      case True
      obtain t ds1 where t: "typeRefOf ing (ms_Return s) ds = (t, ds1)" by fastforce
      moreover have "ref_declared file opts t" using typeRefOf_declared [OF assms(1) m(4), of ds] t by simp
      moreover obtain ps ds2 where "paramsOf ing m s ds1 = Some (ps, ds2)" "list_all (param_declared file opts) ps"
        using paramsOf_spec [OF assms(1) m(2,5)] by blast
      ultimately show ?thesis using True m by (simp add: f Let_def delegate_ok_def)
    next
      case False
      with Cons m have "\<exists>d ds'. project_invoke ing td row rows ds = Some (Some d, ds') \<and> delegate_ok file opts d" by simp
      with False m show ?thesis by (simp add: f Let_def)
    qed
  qed simp
  then show ?thesis using assms(3) unfolding projectDelegate_def has_invoke_def method_rows_def f by blast
qed


lemma projectInterface_spec:
  assumes "ingests file opts ing" "td \<in> set (wf_TypeDefs file)"
  shows "\<exists>c ds'. projectInterface ing td row ds = Some (c, ds') \<and> interface_ok file opts c"
proof -
  note f = ingestsD(1,2) [OF assms(1)]
  let ?base = "\<lambda>(b, a). b = [] \<or> (\<exists>ns. a = se_ApiName opts ns \<and> declares file opts ''Com'' ns b)"
  have "\<exists>t. loop (base_step ing) (in_interfaceImplIndex ing row) ([], []) = Some t \<and> ?base t"
  proof (rule loop_spec)
    fix i st
    assume i: "i \<in> set (in_interfaceImplIndex ing row)" and ok: "?base st"
    then have "\<exists>r \<in> set (wf_InterfaceImpls file). i = iir_Interface r"
      by (auto simp: ingestsD(6) [OF assms(1)] build_interfaceImplIndex_def)
    then have "index_valid file i" "base_closed file opts i"
      using ingestsD(7,8) [OF assms(1)] unfolding rows_valid_def file_ok_def by blast+
    then show "\<exists>t. base_step ing i st = Some t \<and> ?base t"
      using ok by (auto simp: base_step_def index_valid_def base_closed_def f split: table.splits)
  qed simp
  then obtain b a where b: "loop (base_step ing) (in_interfaceImplIndex ing row) ([], []) = Some (b, a)" "?base (b, a)" by auto
  let ?ok = "\<lambda>m. ref_declared file opts (cm_Return m) \<and> list_all (param_declared file opts) (cm_Params m)"
  have "\<exists>t. loop (interface_method_step ing) (method_rows ing td) ([], ds) = Some t \<and> list_all ?ok (fst t)"
  proof (rule loop_spec)
    fix r and st :: "com_method list \<times> diags"
    assume r: "r \<in> set (method_rows ing td)" and ok: "list_all ?ok (fst st)"
    obtain ms ds1 where st: "st = (ms, ds1)" by fastforce
    obtain m s where m: "row_at (wf_Methods file) r = Some m" "m \<in> set (wf_Methods file)"
      "wf_MethodSignature file (mdr_Signature m) = Inr s"
      "sig_closed file opts (ms_Return s)" "list_all (sig_closed file opts) (ms_Params s)"
      using method_row_spec [OF assms r] by blast
    obtain t ds2 where t: "typeRefOf ing (ms_Return s) ds1 = (t, ds2)" by fastforce
    have "ref_declared file opts t" using typeRefOf_declared [OF assms(1) m(4), of ds1] t by simp
    moreover obtain ps ds3 where "paramsOf ing m s ds2 = Some (ps, ds3)" "list_all (param_declared file opts) ps"
      using paramsOf_spec [OF assms(1) m(2,5)] by blast
    ultimately show "\<exists>t. interface_method_step ing r st = Some t \<and> list_all ?ok (fst t)"
      using m t ok by (simp add: st interface_method_step_def f Let_def)
  qed simp
  then obtain ms ds' where "loop (interface_method_step ing) (method_rows ing td) ([], ds) = Some (ms, ds')" "list_all ?ok ms" by auto
  with b show ?thesis by (simp add: projectInterface_def Let_def interface_ok_def)
qed

subsection \<open>Nested structures\<close>

definition nesting_rank :: "winmd_file \<Rightarrow> 32 word \<Rightarrow> nat" where
  "nesting_rank file row = relation_rank (nesting file) row"

lemma nested_inside: "rows_valid file \<Longrightarrow> Domain (nesting file) \<subseteq> {x. row_at (wf_TypeDefs file) x \<noteq> None}"
  by (auto simp: nesting_def rows_valid_def)

lemma finite_rows: "finite {x. row_at xs x \<noteq> None} \<and> card {x. row_at xs x \<noteq> None} \<le> length xs"
proof -
  let ?R = "{x. row_at xs x \<noteq> None}"
  have "inj_on (\<lambda>x. unat (x - 1)) ?R" by (rule inj_onI) (simp flip: word_unat_eq_iff)
  moreover have "(\<lambda>x. unat (x - 1)) ` ?R \<subseteq> {..< length xs}" by (auto simp: row_at_def Let_def split: if_splits)
  ultimately show ?thesis by (metis card_inj_on_le card_lessThan finite_lessThan inj_on_finite)
qed

lemma nesting_rank_bound: "rows_valid file \<Longrightarrow> nesting_rank file row \<le> length (wf_TypeDefs file)"
  unfolding nesting_rank_def
  using relation_rank_bound [OF nested_inside] finite_rows [of "wf_TypeDefs file"] by (meson le_trans)

lemma nesting_rank_less: "rows_valid file \<Longrightarrow> (n, row) \<in> nesting file \<Longrightarrow> nesting_rank file n < nesting_rank file row"
  unfolding nesting_rank_def
  by (rule relation_rank_less [OF _ nested_inside]) (use finite_rows [of "wf_TypeDefs file"] in \<open>simp_all add: rows_valid_def\<close>)

lemma struct_field_step_spec:
  assumes "ingests file opts ing" "td \<in> set (wf_TypeDefs file)" "r \<in> set (field_rows ing td)"
    and "list_all (\<lambda>f. ref_declared file opts (sf_Type f)) fs"
  shows "\<exists>fs' ds'. struct_field_step ing r (fs, ds) = Some (fs', ds') \<and> list_all (\<lambda>f. ref_declared file opts (sf_Type f)) fs'"
proof -
  obtain f s where f: "row_at (wf_Fields file) r = Some f" "wf_FieldSignature file (fdr_Signature f) = Inr s"
    "sig_closed file opts s" using field_row_spec [OF assms(1-3)] by blast
  have "sf_Type (fold field_attribute attrs x) = sf_Type x" for attrs x
    by (induction attrs arbitrary: x) (simp_all add: field_attribute_def Let_def)
  with f assms(4) typeRefOf_declared [OF assms(1) f(3), of ds] show ?thesis
    by (simp add: struct_field_step_def ingestsD(1) [OF assms(1)] Let_def case_prod_beta)
qed

lemma projectStruct_spec:
  assumes "ingests file opts ing"
  shows "nesting_rank file row < n \<Longrightarrow> td \<in> set (wf_TypeDefs file) \<Longrightarrow>
    \<exists>s ds'. projectStruct n ing td row ds = Some (s, ds') \<and> struct_ok file opts s"
proof (induction n arbitrary: td row ds)
  case (Suc n)
  note f = ingestsD(1) [OF assms]
  have "\<exists>t. loop (struct_field_step ing) (field_rows ing td) ([], ds) = Some t \<and>
      (\<lambda>t. list_all (\<lambda>f. ref_declared file opts (sf_Type f)) (fst t)) t"
    by (rule loop_spec) (use struct_field_step_spec [OF assms Suc.prems(2)] in auto)
  then obtain fs ds1 where fs: "loop (struct_field_step ing) (field_rows ing td) ([], ds) = Some (fs, ds1)"
    "list_all (\<lambda>f. ref_declared file opts (sf_Type f)) fs" by auto
  let ?step = "\<lambda>nestedRow (m, ds).
      case row_at (wf_TypeDefs file) nestedRow of None \<Rightarrow> None
      | Some nestedTypeDef \<Rightarrow>
          (case projectStruct n ing nestedTypeDef nestedRow ds of None \<Rightarrow> None
           | Some (s, ds) \<Rightarrow> Some (AList.update (tdr_Name nestedTypeDef) s m, ds))"
  have "\<exists>t. loop ?step (in_nestedIndex ing row) ([], ds1) = Some t \<and>
      (\<lambda>t. list_all (\<lambda>(k, s). struct_ok file opts s) (fst t)) t"
  proof (rule loop_spec)
    fix r and st :: "struct_def gomap \<times> diags"
    assume r: "r \<in> set (in_nestedIndex ing row)" and ok: "list_all (\<lambda>(k, s). struct_ok file opts s) (fst st)"
    obtain m ds2 where st: "st = (m, ds2)" by fastforce
    have e: "(r, row) \<in> nesting file" using r nestedIndex_set by (simp add: ingestsD(4) [OF assms])
    then have "row_at (wf_TypeDefs file) r \<noteq> None" using nested_inside [OF ingestsD(8) [OF assms]] by blast
    then obtain td' where td': "row_at (wf_TypeDefs file) r = Some td'" by blast
    have "nesting_rank file r < n" using nesting_rank_less [OF ingestsD(8) [OF assms] e] Suc.prems(1) by simp
    then obtain s ds3 where "projectStruct n ing td' r ds2 = Some (s, ds3)" "struct_ok file opts s"
      using Suc.IH row_at_set [OF td'] by blast
    with td' ok show "\<exists>t. ?step r st = Some t \<and> list_all (\<lambda>(k, s). struct_ok file opts s) (fst t)"
      by (simp add: st list_all_update)
  qed simp
  then obtain m ds2 where m: "loop ?step (in_nestedIndex ing row) ([], ds1) = Some (m, ds2)"
    "list_all (\<lambda>(k, s). struct_ok file opts s) m" by auto
  have "struct_ok file opts (StructDef fs u p sz m av ssf [])" for u p sz av ssf
    using fs(2) m(2) by (auto simp: struct_ok_def ref_declared_def list_all_iff)
  with fs(1) m(1) show ?case by (simp add: f Let_def)
qed simp

text \<open>A type nested in itself, where the recursion of the code never ends, gets no fuel that is enough.\<close>

lemma loop_None: "x \<in> set xs \<Longrightarrow> (\<And>s. f x s = None) \<Longrightarrow> loop f xs s = None"
  by (induction xs arbitrary: s) (auto split: option.splits)

lemma projectStruct_cyclic:
  assumes "in_nestedIndex ing = build_nestedIndex (in_file ing)"
  shows "(row, row) \<in> (nesting (in_file ing))\<^sup>+ \<Longrightarrow> projectStruct n ing td row ds = None"
proof (induction n arbitrary: td row ds)
  case (Suc n)
  obtain r where r: "(row, r) \<in> (nesting (in_file ing))\<^sup>*" "(r, row) \<in> nesting (in_file ing)"
    using tranclD2 [OF Suc.prems] by blast
  then have "(r, r) \<in> (nesting (in_file ing))\<^sup>+" by (meson rtrancl_into_trancl2)
  then have none: "projectStruct n ing td' r ds' = None" for td' ds' by (rule Suc.IH)
  have "r \<in> set (in_nestedIndex ing row)"
    using r(2) assms by (auto simp: build_nestedIndex_def nesting_def)
  then have "loop (\<lambda>nestedRow (m, ds).
      case row_at (wf_TypeDefs (in_file ing)) nestedRow of None \<Rightarrow> None
      | Some nestedTypeDef \<Rightarrow>
          (case projectStruct n ing nestedTypeDef nestedRow ds of None \<Rightarrow> None
           | Some (s, ds) \<Rightarrow> Some (AList.update (tdr_Name nestedTypeDef) s m, ds))) (in_nestedIndex ing row) st = None" for st
    by (rule loop_None) (auto simp: none split: option.splits)
  then show ?case by (auto simp: Let_def split: option.splits)
qed simp

lemma projectStructInto_spec:
  assumes "ingests file opts ing" "td \<in> set (wf_TypeDefs file)" "meta_ok file opts meta"
  shows "\<exists>m ds'. projectStructInto ing td row (meta, ds) = Some (meta\<lparr>ns_Structs := m\<rparr>, ds') \<and>
    fst ` set m = insert (tdr_Name td) (fst ` set (ns_Structs meta)) \<and> meta_ok file opts (meta\<lparr>ns_Structs := m\<rparr>)"
proof -
  have "nesting_rank file row < struct_fuel ing"
    using nesting_rank_bound [OF ingestsD(8) [OF assms(1)], of row] by (simp add: struct_fuel_def ingestsD(1) [OF assms(1)])
  then obtain s ds' where s: "projectStruct (struct_fuel ing) ing td row ds = Some (s, ds')" "struct_ok file opts s"
    using projectStruct_spec [OF assms(1) _ assms(2)] by blast
  let ?new = "case map_of (ns_Structs meta) (tdr_Name td) of None \<Rightarrow> s | Some existing \<Rightarrow> add_variant existing s"
  have "struct_ok file opts ?new"
  proof (cases "map_of (ns_Structs meta) (tdr_Name td)")
    case (Some existing)
    then have "struct_ok file opts existing"
      using assms(3) by (auto simp: meta_ok_def list_all_iff dest!: map_of_SomeD)
    with s(2) have "struct_ok file opts (add_variant existing s)"
      by (cases existing) (auto simp: struct_ok_def add_variant_def)
    with Some show ?thesis by simp
  qed (simp add: s)
  with s assms(3) show ?thesis
    by (intro exI [of _ "AList.update (tdr_Name td) ?new (ns_Structs meta)"] exI [of _ ds'])
      (simp add: projectStructInto_def Let_def meta_ok_def list_all_update keys_update)
qed

end
