(* ===== verification/IngestRun.thy ===== *)
theory IngestRun
  imports IngestFacts
begin

text \<open>
  The whole projection of a well-formed file: \<open>Ingest\<close> returns, every declaration of the file is in the
  metadata of its namespace, and the metadata passes \<open>validate\<close> after it is loaded back.
\<close>

section \<open>The run\<close>

definition entry_names :: "namespace_meta \<Rightarrow> string \<Rightarrow> string set" where
  "entry_names meta kind =
     (if kind = ''Struct'' \<or> kind = ''Union'' then fst ` set (ns_Structs meta)
      else if kind = ''Enum'' then fst ` set (ns_Enums meta)
      else if kind = ''Typedef'' then fst ` set (ns_Typedefs meta)
      else if kind = ''FunctionPointer'' then fst ` set (ns_Delegates meta)
      else if kind = ''Com'' then fst ` set (ns_Interfaces meta)
      else {})"

text \<open>Projecting a type keeps the namespace and its entries, and adds the type's entry.\<close>

definition grown :: "namespace_meta \<Rightarrow> namespace_meta \<Rightarrow> string \<Rightarrow> string \<Rightarrow> bool" where
  "grown meta meta' kind name \<longleftrightarrow> ns_Namespace meta' = ns_Namespace meta \<and>
     fst ` set (ns_Structs meta) \<subseteq> fst ` set (ns_Structs meta') \<and>
     fst ` set (ns_Enums meta) \<subseteq> fst ` set (ns_Enums meta') \<and>
     fst ` set (ns_Typedefs meta) \<subseteq> fst ` set (ns_Typedefs meta') \<and>
     fst ` set (ns_Delegates meta) \<subseteq> fst ` set (ns_Delegates meta') \<and>
     fst ` set (ns_Interfaces meta) \<subseteq> fst ` set (ns_Interfaces meta') \<and>
     (kind \<in> set referable_kinds \<longrightarrow> name \<in> entry_names meta' kind)"

lemma grown_entries: "grown meta meta' kind name \<Longrightarrow> entry_names meta k \<subseteq> entry_names meta' k"
  by (simp add: grown_def entry_names_def)

lemma grown_enum: "grown meta (meta\<lparr>ns_Enums := AList.update n e (ns_Enums meta)\<rparr>) ''Enum'' n"
  by (simp add: grown_def entry_names_def keys_update subset_insertI)

lemma grown_typedef: "grown meta (meta\<lparr>ns_Typedefs := AList.update n t (ns_Typedefs meta)\<rparr>) ''Typedef'' n"
  by (simp add: grown_def entry_names_def keys_update subset_insertI)

lemma grown_delegate: "grown meta (meta\<lparr>ns_Delegates := AList.update n d (ns_Delegates meta)\<rparr>) ''FunctionPointer'' n"
  by (simp add: grown_def entry_names_def keys_update subset_insertI)

lemma grown_interface: "grown meta (meta\<lparr>ns_Interfaces := AList.update n c (ns_Interfaces meta)\<rparr>) ''Com'' n"
  by (simp add: grown_def entry_names_def keys_update subset_insertI)

lemma grown_struct:
  "fst ` set m = insert n (fst ` set (ns_Structs meta)) \<Longrightarrow> kind = ''Struct'' \<or> kind = ''Union'' \<Longrightarrow>
     grown meta (meta\<lparr>ns_Structs := m\<rparr>) kind n"
  by (simp add: grown_def entry_names_def subset_insertI)

lemma grown_lists:
  "kind \<notin> set referable_kinds \<Longrightarrow> grown meta (meta\<lparr>ns_Functions := fs, ns_Constants := cs\<rparr>) kind n"
  "kind \<notin> set referable_kinds \<Longrightarrow> grown meta (meta\<lparr>ns_Constants := cs\<rparr>) kind n"
  by (simp_all add: grown_def)

lemma grown_same: "kind \<notin> set referable_kinds \<Longrightarrow> grown meta meta kind n"
  by (simp add: grown_def)

lemma projectTypeDef_spec:
  assumes "ingests file opts ing" "(row, td) \<in> set (emitted_rows file opts)"
    and "classifyTypeDef file td row = Some kind" "meta_ok file opts meta"
  shows "\<exists>meta' ds'. projectTypeDef ing td row (meta, ds) = Some (Inr (meta', ds')) \<and>
    meta_ok file opts meta' \<and> grown meta meta' kind (tdr_Name td)"
proof -
  have td: "td \<in> set (wf_TypeDefs file)" using assms(2) numbered_set by (auto simp: emitted_rows_def)
  have cond: "kind = ''Typedef'' \<Longrightarrow> has_instance_field file td" "kind = ''FunctionPointer'' \<Longrightarrow> has_invoke file td"
    using ingestsD(7) [OF assms(1)] assms(2,3) by (auto simp: file_ok_def)
  note unfold = projectTypeDef_def ingestsD(1) [OF assms(1)] assms(3) Let_def
  consider "kind = ''Apis''" | "kind = ''Enum''" | "kind = ''Struct'' \<or> kind = ''Union''" | "kind = ''Typedef''"
    | "kind = ''FunctionPointer''" | "kind = ''Com''" | "kind = ''ComClassID''"
    | "kind \<noteq> ''Apis''" "kind \<noteq> ''Enum''" "kind \<noteq> ''Struct''" "kind \<noteq> ''Union''" "kind \<noteq> ''Typedef''"
      "kind \<noteq> ''FunctionPointer''" "kind \<noteq> ''Com''" "kind \<noteq> ''ComClassID''" by satx
  then show ?thesis
  proof cases
    case 1
    from projectApis_spec [OF assms(1) td assms(4), of ds] obtain fs cs ds' where
      "projectApis ing td (meta, ds) = Some (Inr (meta\<lparr>ns_Functions := fs, ns_Constants := cs\<rparr>, ds'))"
      "meta_ok file opts (meta\<lparr>ns_Functions := fs, ns_Constants := cs\<rparr>)" by blast
    with 1 grown_lists(1) [of kind] show ?thesis by (simp add: unfold referable_kinds_def)
  next
    case 2
    from projectEnum_spec [OF assms(1) td, of row ds] obtain e ds' where "projectEnum ing td row ds = Some (e, ds')" "enum_ok e" by blast
    with 2 assms(4) grown_enum show ?thesis by (simp add: unfold meta_ok_def list_all_update)
  next
    case 3
    from projectStructInto_spec [OF assms(1) td assms(4), of row ds] obtain m ds' where
      "projectStructInto ing td row (meta, ds) = Some (meta\<lparr>ns_Structs := m\<rparr>, ds')"
      "fst ` set m = insert (tdr_Name td) (fst ` set (ns_Structs meta))" "meta_ok file opts (meta\<lparr>ns_Structs := m\<rparr>)" by blast
    with 3 grown_struct show ?thesis by (auto simp: unfold)
  next
    case 4
    from projectTypedef_spec [OF assms(1) td cond(1) [OF 4], of row ds] obtain t ds' where
      "projectTypedef ing td row ds = Some (t, ds')" "typedef_ok file opts t" by blast
    with 4 assms(4) grown_typedef show ?thesis by (simp add: unfold meta_ok_def list_all_update)
  next
    case 5
    from projectDelegate_spec [OF assms(1) td cond(2) [OF 5], of row ds] obtain d ds' where
      "projectDelegate ing td row ds = Some (Some d, ds')" "delegate_ok file opts d" by blast
    with 5 assms(4) grown_delegate show ?thesis by (simp add: unfold meta_ok_def list_all_update)
  next
    case 6
    from projectInterface_spec [OF assms(1) td, of row ds] obtain c ds' where
      "projectInterface ing td row ds = Some (c, ds')" "interface_ok file opts c" by blast
    with 6 assms(4) grown_interface show ?thesis by (simp add: unfold meta_ok_def list_all_update)
  next
    case 7
    have "constant_ok file opts (class_id_constant n g)" for n g
      by (simp add: constant_ok_def class_id_constant_def constant_entry_def ref_declared_def node_declared_def)
    with 7 assms(4) grown_lists(2) [of kind meta] grown_same [of kind meta] show ?thesis
      by (simp add: unfold meta_ok_def referable_kinds_def)
  next
    case 8
    with assms(4) grown_same [of kind meta] show ?thesis by (simp add: unfold referable_kinds_def)
  qed
qed


definition namespaces_ok :: "winmd_file \<Rightarrow> settings \<Rightarrow> namespace_meta gomap \<Rightarrow> bool" where
  "namespaces_ok file opts m \<longleftrightarrow> distinct (map fst m) \<and> (\<forall>(k, meta) \<in> set m. ns_Namespace meta = k \<and> meta_ok file opts meta)"

definition present :: "namespace_meta gomap \<Rightarrow> string \<Rightarrow> string \<Rightarrow> string \<Rightarrow> bool" where
  "present m api kind name \<longleftrightarrow> (\<exists>meta. map_of m api = Some meta \<and> name \<in> entry_names meta kind)"

lemma meta_ok_new: "meta_ok file opts (new_namespace ing short)"
  by (simp add: meta_ok_def new_namespace_def empty_namespace_def)

lemma new_namespace_name: "ns_Namespace (new_namespace ing short) = short"
  by (simp add: new_namespace_def empty_namespace_def)

lemma namespaces_ok_update:
  assumes "namespaces_ok file opts m" "ns_Namespace meta = short" "meta_ok file opts meta"
  shows "namespaces_ok file opts (AList.update short meta m)"
proof -
  have "set (AList.update short meta m) \<subseteq> insert (short, meta) (set m)" by (induction m) auto
  with assms show ?thesis unfolding namespaces_ok_def by (auto simp: distinct_update)
qed

lemma typedef_step_spec:
  assumes "ingests file opts ing" "e \<in> set (numbered (wf_TypeDefs file))" "namespaces_ok file opts m"
  shows "\<exists>m' ds'. typedef_step ing e (m, ds) = Some (Inr (m', ds')) \<and> namespaces_ok file opts m' \<and>
    (\<forall>api k n. present m api k n \<longrightarrow> present m' api k n) \<and>
    (\<forall>row td kind. e = (row, td) \<longrightarrow> e \<in> set (emitted_rows file opts) \<longrightarrow> classifyTypeDef file td row = Some kind \<longrightarrow>
       kind \<in> set referable_kinds \<longrightarrow> present m' (se_ApiName opts (tdr_Namespace td)) kind (tdr_Name td))"
proof -
  obtain row td where e: "e = (row, td)" by fastforce
  note f = ingestsD(1,2,5) [OF assms(1)]
  show ?thesis
  proof (cases "(row, td) \<in> set (emitted_rows file opts)")
    case False
    then have "\<not> isProjectedNamespace opts (tdr_Namespace td) \<or> build_nestedSet file row"
      using assms(2) e by (simp add: emitted_rows_def)
    with False show ?thesis using assms(3) by (simp add: typedef_step_def e f)
  next
    case True
    then have guard: "\<not> (\<not> isProjectedNamespace opts (tdr_Namespace td) \<or> build_nestedSet file row)"
      by (simp add: emitted_rows_def)
    have "td \<in> set (wf_TypeDefs file)" using numbered_set [of row td] assms(2) e by simp
    then obtain kind where kind: "classifyTypeDef file td row = Some kind"
      using classify_total [OF ingestsD(8) [OF assms(1)]] by blast
    let ?short = "se_ApiName opts (tdr_Namespace td)"
    let ?meta = "case map_of m ?short of Some meta \<Rightarrow> meta | None \<Rightarrow> new_namespace ing ?short"
    have meta: "ns_Namespace ?meta = ?short" "meta_ok file opts ?meta"
      using assms(3) by (auto simp: namespaces_ok_def meta_ok_new new_namespace_name
          split: option.splits dest!: map_of_SomeD)
    obtain meta' ds' where p: "projectTypeDef ing td row (?meta, ds) = Some (Inr (meta', ds'))"
      "meta_ok file opts meta'" "grown ?meta meta' kind (tdr_Name td)"
      using projectTypeDef_spec [OF assms(1) True kind meta(2)] by blast
    have step: "typedef_step ing e (m, ds) = Some (Inr (AList.update ?short meta' m, ds'))"
      using guard p(1) by (simp add: typedef_step_def e f Let_def)
    have "namespaces_ok file opts (AList.update ?short meta' m)"
      using namespaces_ok_update [OF assms(3) _ p(2)] p(3) meta(1) by (simp add: grown_def)
    moreover have "present (AList.update ?short meta' m) api k n" if "present m api k n" for api k n
    proof (cases "api = ?short")
      case True
      with that have "n \<in> entry_names ?meta k" by (auto simp: present_def)
      with grown_entries [OF p(3), of k] True show ?thesis by (auto simp: present_def update_conv)
    next
      case False
      with that show ?thesis by (simp add: present_def update_conv)
    qed
    moreover have "present (AList.update ?short meta' m) ?short kind (tdr_Name td)" if "kind \<in> set referable_kinds"
      using that p(3) by (simp add: present_def update_conv grown_def)
    ultimately show ?thesis using step kind e by auto
  qed
qed

lemma typedef_loop_spec:
  assumes "ingests file opts ing"
  obtains m ds where "loop_err (typedef_step ing) (numbered (wf_TypeDefs file)) ([], []) = Some (Inr (m, ds))"
    "namespaces_ok file opts m"
    "\<And>kind ns name. kind \<in> set referable_kinds \<Longrightarrow> declares file opts kind ns name \<Longrightarrow> present m (se_ApiName opts ns) kind name"
proof -
  let ?rows = "numbered (wf_TypeDefs file)" and ?ok = "\<lambda>st. namespaces_ok file opts (fst st)"
  have "\<exists>t. loop_err (typedef_step ing) ?rows ([], []) = Some (Inr t) \<and> ?ok t"
    by (rule loop_err_spec) (use typedef_step_spec [OF assms] in \<open>fastforce simp: namespaces_ok_def\<close>)+
  then obtain m ds where run: "loop_err (typedef_step ing) ?rows ([], []) = Some (Inr (m, ds))" "namespaces_ok file opts m" by auto
  moreover have "present m (se_ApiName opts ns) kind name"
    if kind: "kind \<in> set referable_kinds" "declares file opts kind ns name" for kind ns name
  proof -
    obtain row td where td: "(row, td) \<in> set (emitted_rows file opts)" "tdr_Namespace td = ns" "tdr_Name td = name"
      "classifyTypeDef file td row = Some kind" using kind(2) unfolding declares_def by blast
    have mem: "(row, td) \<in> set ?rows" using td(1) by (simp add: emitted_rows_def)
    have "\<exists>t. loop_err (typedef_step ing) ?rows ([], []) = Some (Inr t) \<and> ?ok t \<and>
        (present (fst ([], [] :: diags)) (se_ApiName opts ns) kind name \<or> (row, td) \<in> set ?rows \<longrightarrow>
           present (fst t) (se_ApiName opts ns) kind name)"
    proof (rule loop_err_establishes [where P = "\<lambda>st. present (fst st) (se_ApiName opts ns) kind name"])
      fix e and st :: "namespace_meta gomap \<times> diags"
      assume e: "e \<in> set ?rows" and ok: "?ok st"
      obtain m1 ds1 where st: "st = (m1, ds1)" by fastforce
      then have "namespaces_ok file opts m1" using ok by simp
      from typedef_step_spec [OF assms e this, of ds1] obtain m' ds' where
        s: "typedef_step ing e (m1, ds1) = Some (Inr (m', ds'))" "namespaces_ok file opts m'"
        and keep: "\<forall>api k n. present m1 api k n \<longrightarrow> present m' api k n"
        and add: "e = (row, td) \<Longrightarrow> present m' (se_ApiName opts ns) kind name"
        using td kind(1) by blast
      have "present m1 (se_ApiName opts ns) kind name \<or> e = (row, td) \<longrightarrow> present m' (se_ApiName opts ns) kind name"
        using keep add by blast
      with s show "\<exists>t. typedef_step ing e st = Some (Inr t) \<and> ?ok t \<and>
          (present (fst st) (se_ApiName opts ns) kind name \<or> e = (row, td) \<longrightarrow> present (fst t) (se_ApiName opts ns) kind name)"
        unfolding st by (intro exI [of _ "(m', ds')"]) simp
    qed (simp add: namespaces_ok_def)
    with run(1) mem show ?thesis by simp
  qed
  ultimately show thesis by (rule that)
qed


section \<open>Loaded back\<close>

lemma index_map_keys: "fst ` set (index_map ns f es idx) = (\<lambda>e. qual_key ns (fst e)) ` set es \<union> fst ` set idx"
proof (induction es arbitrary: idx)
  case (Cons e es)
  obtain n v where "e = (n, v)" by fastforce
  with Cons.IH [of "(qual_key ns n, f v) # idx"] show ?case by (auto simp: index_map_def)
qed (simp add: index_map_def)

definition index_keys :: "registry \<Rightarrow> string \<Rightarrow> string set" where
  "index_keys r kind =
     (if kind = ''Struct'' \<or> kind = ''Union'' then fst ` set (reg_StructIndex r)
      else if kind = ''Enum'' then fst ` set (reg_EnumBaseIndex r)
      else if kind = ''Typedef'' then fst ` set (reg_TypedefIndex r)
      else if kind = ''FunctionPointer'' then fst ` set (reg_DelegateIndex r)
      else if kind = ''Com'' then fst ` set (reg_InterfaceIndex r)
      else {})"

lemma index_namespace_keys:
  "index_keys (index_namespace r meta) kind = qual_key (ns_Namespace meta) ` entry_names meta kind \<union> index_keys r kind"
  by (simp add: index_keys_def entry_names_def index_namespace_def Let_def index_map_keys image_image)

lemma index_namespaces_keys:
  "index_keys (foldl index_namespace r nss) kind =
     (\<Union>meta \<in> set nss. qual_key (ns_Namespace meta) ` entry_names meta kind) \<union> index_keys r kind"
  by (induction nss arbitrary: r) (auto simp: index_namespace_keys)

lemma known_target_keys:
  "kind \<in> set referable_kinds \<Longrightarrow> known_target reg kind key = Some (key \<in> index_keys reg kind)"
  by (simp add: known_target_def index_keys_def referable_kinds_def map_of_eq_None_iff) satx

lemma by_namespace_keys:
  "fst ` set (reg_ByNamespace (foldl index_namespace r nss)) = ns_Namespace ` set nss \<union> fst ` set (reg_ByNamespace r)"
  by (induction nss arbitrary: r) (auto simp: index_namespace_def Let_def)


lemma reference_declared_accepted:
  assumes "node_declared file opts x"
    and "\<And>kind ns name. kind \<in> set referable_kinds \<Longrightarrow> declares file opts kind ns name \<Longrightarrow>
      qual_key (se_ApiName opts ns) name \<in> index_keys reg kind \<and> se_ApiName opts ns \<in> fst ` set (reg_ByNamespace reg)"
  shows "reference_errors reg n x = []"
proof (cases "ref_Kind x \<noteq> ''ApiRef'' \<or> ref_Api x = []")
  case True
  then show ?thesis by (auto simp: reference_errors_def)
next
  case False
  then obtain ns where ns: "ref_Api x = se_ApiName opts ns" "ref_TargetKind x \<in> set referable_kinds"
    "declares file opts (ref_TargetKind x) ns (ref_Name x)" using assms(1) by (auto simp: node_declared_def)
  from assms(2) [OF ns(2,3)] have "known_target reg (ref_TargetKind x) (ref_Api x @ ''.'' @ ref_Name x) = Some True"
    "map_of (reg_ByNamespace reg) (ref_Api x) \<noteq> None"
    using known_target_keys [OF ns(2)] by (simp_all add: ns(1) qual_key_def map_of_eq_None_iff)
  then show ?thesis by (auto simp: reference_errors_def Let_def)
qed

lemma walk_declared: "ref_declared file opts r \<Longrightarrow> x \<in> set (walk_ref r) \<Longrightarrow> node_declared file opts x"
  by (simp add: ref_declared_def list_all_iff)

lemma meta_ok_refs:
  assumes "meta_ok file opts meta" "x \<in> set (WalkNamespaceRefs meta)"
  shows "node_declared file opts x"
proof -
  note ok = assms(1) [unfolded meta_ok_def list_all_iff]
  have params: "list_all (param_declared file opts) ps \<Longrightarrow> x \<in> set (walk_params ps) \<Longrightarrow> node_declared file opts x" for ps
    by (auto simp: walk_params_def list_all_iff param_declared_def dest: walk_declared)
  from assms(2) consider
      f where "f \<in> set (ns_Functions meta)" "x \<in> set (walk_ref (fn_Return f)) \<or> x \<in> set (walk_params (fn_Params f))"
    | n s where "(n, s) \<in> set (ns_Structs meta)" "x \<in> set (walk_struct s)"
    | n t where "(n, t) \<in> set (ns_Typedefs meta)" "x \<in> set (walk_ref (td_Underlying t))"
    | n d where "(n, d) \<in> set (ns_Delegates meta)" "x \<in> set (walk_ref (fp_Return d)) \<or> x \<in> set (walk_params (fp_Params d))"
    | c where "c \<in> set (ns_Constants meta)" "x \<in> set (walk_ref (cn_Type c))"
    | n c m where "(n, c) \<in> set (ns_Interfaces meta)" "m \<in> set (ci_Methods c)"
        "x \<in> set (walk_ref (cm_Return m)) \<or> x \<in> set (walk_params (cm_Params m))"
    unfolding WalkNamespaceRefs_def by fastforce
  then show ?thesis
  proof cases
    case 1
    with ok have "function_ok file opts f" by blast
    with 1(2) params show ?thesis by (auto simp: function_ok_def dest: walk_declared)
  next
    case 2
    with ok have "struct_ok file opts s" by blast
    with 2(2) show ?thesis by (simp add: struct_ok_def list_all_iff)
  next
    case 3
    with ok have "typedef_ok file opts t" by blast
    with 3(2) show ?thesis by (auto simp: typedef_ok_def dest: walk_declared)
  next
    case 4
    with ok have "delegate_ok file opts d" by blast
    with 4(2) params show ?thesis by (auto simp: delegate_ok_def dest: walk_declared)
  next
    case 5
    with ok have "constant_ok file opts c" by blast
    with 5(2) show ?thesis by (auto simp: constant_ok_def dest: walk_declared)
  next
    case 6
    with ok have "interface_ok file opts c" by blast
    with 6(2,3) params show ?thesis by (auto simp: interface_ok_def list_all_iff dest: walk_declared)
  qed
qed

text \<open>The documented behaviour of \<open>sort.Slice\<close>: a permutation, ordered by name.\<close>

definition sorts :: "slice_sorters \<Rightarrow> bool" where
  "sorts sorters \<longleftrightarrow>
     (\<forall>fs. mset (sl_functions sorters fs) = mset fs \<and> sorted (map fn_Name (sl_functions sorters fs))) \<and>
     (\<forall>cs. mset (sl_constants sorters cs) = mset cs \<and> sorted (map cn_Name (sl_constants sorters cs)))"

lemma sort_lists_ok:
  assumes "sorts sorters" "meta_ok file opts meta"
  shows "meta_ok file opts (sort_lists sorters meta)"
proof -
  have "set (sl_functions sorters fs) = set fs" "set (sl_constants sorters cs) = set cs" for fs cs
    using assms(1) unfolding sorts_def by (metis set_mset_mset)+
  with assms(2) show ?thesis by (simp add: meta_ok_def sort_lists_def list_all_iff)
qed

lemma sort_lists_simps: "ns_Namespace (sort_lists sorters meta) = ns_Namespace meta"
  "entry_names (sort_lists sorters meta) kind = entry_names meta kind"
  by (simp_all add: sort_lists_def entry_names_def)

lemma meta_ok_accepted:
  assumes "meta_ok file opts meta"
    and "\<And>kind ns name. kind \<in> set referable_kinds \<Longrightarrow> declares file opts kind ns name \<Longrightarrow>
      qual_key (se_ApiName opts ns) name \<in> index_keys reg kind \<and> se_ApiName opts ns \<in> fst ` set (reg_ByNamespace reg)"
  shows "namespace_errors reg meta = []"
proof -
  note ok = assms(1) [unfolded meta_ok_def list_all_iff]
  have "concat (map (reference_errors reg n) (WalkNamespaceRefs meta)) = []" for n
    using reference_declared_accepted [OF meta_ok_refs [OF assms(1)] assms(2)] by simp
  moreover have "concat (map (function_errors n) (ns_Functions meta)) = []" for n
    using ok by (auto simp: function_errors_def function_ok_def)
  moreover have "concat (map (enum_errors n) (ns_Enums meta)) = []" for n
    using ok by (auto simp: enum_errors_def enum_ok_def)
  moreover have "concat (map (typedef_errors n) (ns_Typedefs meta)) = []" for n
    using ok by (auto simp: typedef_errors_def typedef_ok_def ref_declared_def)
  moreover have "interface_errors reg n e = []" if e: "e \<in> set (ns_Interfaces meta)" for n e
  proof -
    obtain name c where c: "e = (name, c)" by fastforce
    then have "interface_ok file opts c" using ok e by blast
    then show ?thesis using assms(2) [of "''Com''"]
      by (auto simp: c interface_errors_def interface_ok_def base_key_def referable_kinds_def index_keys_def map_of_eq_None_iff)
  qed
  ultimately show ?thesis by (simp add: namespace_errors_def Let_def)
qed


section \<open>The guarantees\<close>

definition ingest_result :: "winmd_file \<Rightarrow> settings \<Rightarrow> namespace_meta list \<Rightarrow> bool" where
  "ingest_result file opts metas \<longleftrightarrow> sorted (map ns_Namespace metas) \<and> distinct (map ns_Namespace metas) \<and>
     list_all (meta_ok file opts) metas \<and>
     (\<forall>kind ns name. kind \<in> set referable_kinds \<longrightarrow> declares file opts kind ns name \<longrightarrow>
        (\<exists>meta \<in> set metas. ns_Namespace meta = se_ApiName opts ns \<and> name \<in> entry_names meta kind))"

lemma Ingest_spec:
  assumes "ingests file opts ing" "sorts sorters"
  shows "\<exists>metas ds. Ingest sorters ing = Some (Inr (metas, ds)) \<and> ingest_result file opts metas"
proof -
  obtain m ds where m: "loop_err (typedef_step ing) (numbered (wf_TypeDefs file)) ([], []) = Some (Inr (m, ds))"
    "namespaces_ok file opts m"
    and present: "\<And>kind ns name. kind \<in> set referable_kinds \<Longrightarrow> declares file opts kind ns name \<Longrightarrow>
      present m (se_ApiName opts ns) kind name" by (rule typedef_loop_spec [OF assms(1)]) blast
  let ?metas = "sort_key ns_Namespace (map (sort_lists sorters) (map snd m))"
  have keys: "map ns_Namespace (map (sort_lists sorters) (map snd m)) = map fst m"
    using m(2) by (auto simp: namespaces_ok_def sort_lists_simps)
  have "mset (map ns_Namespace ?metas) = mset (map ns_Namespace (map (sort_lists sorters) (map snd m)))"
    by (simp only: mset_map mset_sort)
  then have "mset (map ns_Namespace ?metas) = mset (map fst m)" unfolding keys .
  then have "distinct (map ns_Namespace ?metas) = distinct (map fst m)" by (rule mset_eq_imp_distinct_iff)
  then have "distinct (map ns_Namespace ?metas)" using m(2) unfolding namespaces_ok_def by blast
  moreover have "list_all (meta_ok file opts) ?metas"
    using m(2) sort_lists_ok [OF assms(2)] by (fastforce simp: list_all_iff namespaces_ok_def)
  moreover have "\<exists>meta \<in> set ?metas. ns_Namespace meta = se_ApiName opts ns \<and> name \<in> entry_names meta kind"
    if "kind \<in> set referable_kinds" "declares file opts kind ns name" for kind ns name
  proof -
    from present [OF that] obtain meta where meta: "map_of m (se_ApiName opts ns) = Some meta" "name \<in> entry_names meta kind"
      unfolding present_def by blast
    then have "(se_ApiName opts ns, meta) \<in> set m" by (simp add: map_of_SomeD)
    moreover from this have "ns_Namespace meta = se_ApiName opts ns" using m(2) unfolding namespaces_ok_def by blast
    ultimately show ?thesis using meta(2)
      by (intro bexI [of _ "sort_lists sorters meta"]) (force simp: sort_lists_simps)+
  qed
  ultimately show ?thesis using m(1) by (simp add: Ingest_def ingestsD(1) [OF assms(1)] ingest_result_def)
qed

lemma metas_accepted:
  assumes "list_all (meta_ok file opts) metas"
    and "\<And>kind ns name. kind \<in> set referable_kinds \<Longrightarrow> declares file opts kind ns name \<Longrightarrow>
        \<exists>meta \<in> set metas. ns_Namespace meta = se_ApiName opts ns \<and> name \<in> entry_names meta kind"
  shows "case LoadAll [metas] of Inl e \<Rightarrow> metas = [] | Inr reg \<Rightarrow> snd (runValidate reg)"
proof (cases "metas = []")
  case False
  define reg where reg: "reg = foldl index_namespace (empty_registry metas) metas"
  have known: "qual_key (se_ApiName opts ns) name \<in> index_keys reg kind \<and> se_ApiName opts ns \<in> fst ` set (reg_ByNamespace reg)"
    if d: "kind \<in> set referable_kinds" "declares file opts kind ns name" for kind ns name
  proof -
    obtain meta where "meta \<in> set metas" "ns_Namespace meta = se_ApiName opts ns" "name \<in> entry_names meta kind"
      using assms(2) [OF d] by blast
    then show ?thesis unfolding reg index_namespaces_keys by_namespace_keys by force
  qed
  have "namespace_errors reg meta = []" if "meta \<in> set metas" for meta
    by (rule meta_ok_accepted [of "file" opts, OF _ known])
      (use assms(1) that in \<open>simp_all add: list_all_iff\<close>)
  then have "snd (runValidate reg)" by (simp add: runValidate_accepts reg foldl_index_namespaces empty_registry_def)
  with False show ?thesis by (simp add: LoadAll_def reg)
qed (simp add: LoadAll_def)

lemma ingest_result_accepted:
  assumes "ingest_result file opts metas"
  shows "case LoadAll [metas] of Inl e \<Rightarrow> metas = [] | Inr reg \<Rightarrow> snd (runValidate reg)"
  using metas_accepted [of "file" opts metas] assms unfolding ingest_result_def by blast

text \<open>
  \<^bold>\<open>C29\<close>: ingesting a well-formed metadata file (rows in range, no type nested in itself, signatures that
  decode and name only types the file declares) neither panics nor fails, gives the namespaces in order of
  their names, each once, and what it gives passes \<open>validate\<close>: no reference, base interface, import or
  enum of it is in error.
\<close>

theorem ingested_metadata_validates:
  assumes "file_ok file (withDefaults opts)" "sorts sorters"
  shows "\<exists>ing metas ds. NewWithOptions file version opts = Some ing \<and>
    Ingest sorters ing = Some (Inr (metas, ds)) \<and>
    sorted (map ns_Namespace metas) \<and> distinct (map ns_Namespace metas) \<and>
    (case LoadAll [metas] of Inl e \<Rightarrow> metas = [] | Inr reg \<Rightarrow> snd (runValidate reg))"
proof -
  have "rows_valid file" using assms(1) by (simp add: file_ok_def)
  then obtain ing where ing: "NewWithOptions file version opts = Some ing"
    using buildIndices_total unfolding NewWithOptions_def by blast
  then have "ingests file (withDefaults opts) ing" using assms(1) by (auto simp: ingests_def NewWithOptions_def)
  from Ingest_spec [OF this assms(2)] obtain metas ds where
    "Ingest sorters ing = Some (Inr (metas, ds))" "ingest_result file (withDefaults opts) metas" by blast
  with ing show ?thesis using ingest_result_accepted unfolding ingest_result_def by blast
qed


subsection \<open>A sample file\<close>

text \<open>
  Two namespaces: \<open>Foundation\<close> with a function over a typedef and a structure, declared twice, with a nested union, and
  \<open>System.Com\<close> with an interface derived from another. The first row is the module pseudo-type.
\<close>

definition sample_type :: "string \<Rightarrow> string \<Rightarrow> 32 word \<Rightarrow> coded_index \<Rightarrow> 32 word \<times> 32 word \<Rightarrow> 32 word \<times> 32 word \<Rightarrow> type_def_row" where
  "sample_type ns name flags ext fds mds =
     \<lparr>tdr_Flags = flags, tdr_Name = name, tdr_Namespace = ns, tdr_Extends = ext,
      tdr_FieldFirst = fst fds, tdr_FieldEnd = snd fds, tdr_MethodFirst = fst mds, tdr_MethodEnd = snd mds\<rparr>"

definition sample_winmd :: winmd_file where
  "sample_winmd =
     (let none = \<lparr>ix_Table = TableOther 0, ix_Row = 0\<rparr>; ext = (\<lambda>r. \<lparr>ix_Table = TableTypeRef, ix_Row = r\<rparr>);
          foundation = ''Windows.Win32.Foundation''; com = ''Windows.Win32.System.Com'' in
      \<lparr>wf_TypeDefs =
         [sample_type [] ''<Module>'' 0 none (1, 1) (1, 1),
          sample_type foundation ''Apis'' 0 (ext 1) (1, 1) (1, 2),
          sample_type foundation ''HANDLE'' 8 (ext 2) (1, 2) (2, 2),
          sample_type foundation ''EVENT'' 8 (ext 2) (2, 3) (2, 2),
          sample_type [] ''_Anonymous_e__Union'' 16 (ext 2) (3, 4) (2, 2),
          sample_type com ''IUnknown'' 32 none (4, 4) (2, 3),
          sample_type com ''IStream'' 32 none (4, 4) (3, 4),
          sample_type foundation ''EVENT'' 8 (ext 2) (3, 4) (4, 4)],
       wf_TypeRefs = [\<lparr>trr_Namespace = ''System'', trr_Name = ''Object''\<rparr>, \<lparr>trr_Namespace = ''System'', trr_Name = ''ValueType''\<rparr>,
          \<lparr>trr_Namespace = com, trr_Name = ''IUnknown''\<rparr>],
       wf_Methods = [\<lparr>mdr_Name = ''CloseHandle'', mdr_Signature = 1, mdr_ParamFirst = 1, mdr_ParamEnd = 2\<rparr>,
          \<lparr>mdr_Name = ''Release'', mdr_Signature = 2, mdr_ParamFirst = 2, mdr_ParamEnd = 2\<rparr>,
          \<lparr>mdr_Name = ''Revert'', mdr_Signature = 2, mdr_ParamFirst = 2, mdr_ParamEnd = 2\<rparr>],
       wf_Fields = [\<lparr>fdr_Flags = 0, fdr_Name = ''Value'', fdr_Signature = 1\<rparr>,
          \<lparr>fdr_Flags = 0, fdr_Name = ''Anonymous'', fdr_Signature = 2\<rparr>, \<lparr>fdr_Flags = 0, fdr_Name = ''Handle'', fdr_Signature = 3\<rparr>],
       wf_Params = [\<lparr>pdr_Flags = 1, pdr_Name = ''hObject'', pdr_Sequence = 1\<rparr>],
       wf_ModuleRefs = [''KERNEL32.dll''],
       wf_ImplMaps = [\<lparr>imr_MappingFlags = 64, imr_MemberForwarded = \<lparr>ix_Table = TableMethodDef, ix_Row = 1\<rparr>,
          imr_ImportName = ''CloseHandle'', imr_ImportScope = 1\<rparr>],
       wf_Constants = [], wf_ClassLayouts = [],
       wf_NestedClasses = [\<lparr>ncr_NestedClass = 5, ncr_EnclosingClass = 4\<rparr>],
       wf_InterfaceImpls = [\<lparr>iir_Class = 7, iir_Interface = ext 3\<rparr>],
       wf_AttributesFor = (\<lambda>target. if target = typeDefTarget 3
          then [\<lparr>at_Name = ''NativeTypedefAttribute'', at_Fixed = [], at_Named = []\<rparr>] else []),
       wf_MethodSignature = (\<lambda>b. Inr (if b = 1
          then \<lparr>ms_Return = SigPrimitive ElemInt32 False, ms_Params = [SigNamed foundation ''HANDLE'' False]\<rparr>
          else \<lparr>ms_Return = SigPrimitive ElemUInt32 False, ms_Params = []\<rparr>)),
       wf_FieldSignature = (\<lambda>b. Inr (if b = 1 then SigPointer (SigPrimitive ElemVoid False) False
          else if b = 2 then SigNamed [] ''_Anonymous_e__Union'' False else SigNamed foundation ''HANDLE'' False)),
       wf_DecodeConstant = (\<lambda>t v. ConstOther),
       wf_TypeAttrInterface = 32, wf_TypeAttrExplicitLayout = 16, wf_FieldAttrLiteral = 64, wf_FieldAttrStatic = 16,
       wf_ParamAttrIn = 1, wf_ParamAttrOut = 2, wf_ParamAttrOptional = 16, wf_PInvokeAttrSupportsLastError = 64\<rparr>)"

definition sample_sorters :: slice_sorters where
  "sample_sorters = \<lparr>sl_functions = sort_key fn_Name, sl_constants = sort_key cn_Name\<rparr>"

lemma sample_sorts: "sorts sample_sorters"
  by (simp add: sorts_def sample_sorters_def)

lemma sample_nesting: "acyclic (nesting sample_winmd)"
proof -
  have "nesting sample_winmd = {(5, 4)}" by (simp add: nesting_def sample_winmd_def Let_def)
  then show ?thesis by (simp add: acyclic_insert wf_acyclic)
qed

lemma sample_ok: "file_ok sample_winmd (withDefaults no_options)"
  unfolding file_ok_def rows_valid_def
  by (intro conjI sample_nesting; code_simp)

lemma ingested_metadata_validates_witness:
  "\<exists>ing metas ds. NewWithOptions sample_winmd ''61.0'' no_options = Some ing \<and>
     Ingest sample_sorters ing = Some (Inr (metas, ds)) \<and> distinct (map ns_Namespace metas)"
  using ingested_metadata_validates [OF sample_ok sample_sorts, of "''61.0''"] by blast

end
