(* ===== verification/IngestStructs.thy ===== *)
theory IngestStructs
  imports IngestRun
begin

text \<open>
  What \<open>Ingest\<close> records for a structure that the file declares once per architecture: the first row is the
  entry, the others are its variants, in row order, and no row is lost.
\<close>

section \<open>Projected values do not depend on the diagnostics\<close>

definition same_value :: "('a \<times> diags) option \<Rightarrow> ('a \<times> diags) option \<Rightarrow> bool" where
  "same_value r r' \<longleftrightarrow> map_option fst r = map_option fst r'"

lemma same_valueE:
  assumes "same_value r r'"
  obtains "r = None" "r' = None" | a ds ds' where "r = Some (a, ds)" "r' = Some (a, ds')"
  using assms by (cases r; cases r') (auto simp: same_value_def)

lemma loop_same_value:
  "(\<And>x acc ds ds'. same_value (f x (acc, ds)) (f x (acc, ds'))) \<Longrightarrow> same_value (loop f xs (acc, ds)) (loop f xs (acc, ds'))"
proof (induction xs arbitrary: acc ds ds')
  case (Cons x xs)
  from Cons.prems [of x acc ds ds'] show ?case
  proof (cases rule: same_valueE)
    case (2 a d d')
    with Cons.IH [OF Cons.prems, of a d d'] show ?thesis by simp
  qed (simp add: same_value_def)
qed (simp add: same_value_def)

lemma typeRefOf_value: "fst (typeRefOf ing s ds) = fst (typeRefOf ing s ds')"
  by (induction s arbitrary: ds ds')
    (auto simp: typeref_named_def Let_def case_prod_beta split: option.splits)

lemma struct_field_step_value: "same_value (struct_field_step ing r (fs, ds)) (struct_field_step ing r (fs, ds'))"
  using typeRefOf_value [of ing _ ds ds']
  by (auto simp: same_value_def struct_field_step_def Let_def case_prod_beta split: option.splits sum.splits)

lemma projectStruct_value: "same_value (projectStruct n ing td row ds) (projectStruct n ing td row ds')"
proof (induction n arbitrary: td row ds ds')
  case (Suc n)
  let ?nested = "\<lambda>nestedRow (m, ds).
      case row_at (wf_TypeDefs (in_file ing)) nestedRow of None \<Rightarrow> None
      | Some nestedTypeDef \<Rightarrow>
          (case projectStruct n ing nestedTypeDef nestedRow ds of None \<Rightarrow> None
           | Some (s, ds) \<Rightarrow> Some (AList.update (tdr_Name nestedTypeDef) s m, ds))"
  have nested: "same_value (?nested r (m, d)) (?nested r (m, d'))" for r m d d'
  proof (cases "row_at (wf_TypeDefs (in_file ing)) r")
    case (Some td')
    from Suc.IH [of td' r d d'] show ?thesis by (cases rule: same_valueE) (simp_all add: Some same_value_def)
  qed (simp add: same_value_def)
  have "same_value (loop (struct_field_step ing) (field_rows ing td) ([], ds)) (loop (struct_field_step ing) (field_rows ing td) ([], ds'))"
    by (rule loop_same_value) (rule struct_field_step_value)
  then show ?case
  proof (cases rule: same_valueE)
    case (2 fs d d')
    have "same_value (loop ?nested (in_nestedIndex ing row) ([], d)) (loop ?nested (in_nestedIndex ing row) ([], d'))"
      by (rule loop_same_value) (rule nested)
    then show ?thesis by (cases rule: same_valueE) (simp_all add: 2 Let_def same_value_def)
  qed (simp add: Let_def same_value_def)
qed (simp add: same_value_def)

section \<open>Folding the rows of one name\<close>

definition projected_struct :: "ingester \<Rightarrow> 32 word \<times> type_def_row \<Rightarrow> struct_def" where
  "projected_struct ing e = fst (the (projectStruct (struct_fuel ing) ing (snd e) (fst e) []))"

lemma projectStruct_projected:
  "projectStruct (struct_fuel ing) ing td row ds = Some (s, ds') \<Longrightarrow> s = projected_struct ing (row, td)"
  using projectStruct_value [of "struct_fuel ing" ing td row ds "[]"]
  by (auto simp: projected_struct_def elim: same_valueE)

definition struct_rows :: "winmd_file \<Rightarrow> settings \<Rightarrow> string \<Rightarrow> string \<Rightarrow> 32 word \<times> type_def_row \<Rightarrow> bool" where
  "struct_rows file opts api name e \<longleftrightarrow> (case e of (row, td) \<Rightarrow>
     isProjectedNamespace opts (tdr_Namespace td) \<and> \<not> build_nestedSet file row \<and>
     se_ApiName opts (tdr_Namespace td) = api \<and> tdr_Name td = name \<and>
     classifyTypeDef file td row \<in> {Some ''Struct'', Some ''Union''})"

text \<open>The entry for the projections of several rows: the first one with the others as its variants.\<close>

definition with_variants :: "struct_def list \<Rightarrow> struct_def option" where
  "with_variants ss = (case ss of [] \<Rightarrow> None
     | s # vs \<Rightarrow> Some (StructDef (st_Fields s) (st_IsUnion s) (st_PackingSize s) (st_Size s) (st_NestedTypes s)
         (st_Availability s) (st_StructSizeField s) (st_ArchVariants s @ vs)))"

lemma with_variants_snoc:
  "with_variants (ss @ [v]) = Some (case with_variants ss of None \<Rightarrow> v | Some s \<Rightarrow> add_variant s v)"
  by (cases ss; cases v) (simp_all add: with_variants_def add_variant_def)

definition struct_entry :: "namespace_meta gomap \<Rightarrow> string \<Rightarrow> string \<Rightarrow> struct_def option" where
  "struct_entry m api name = (case map_of m api of None \<Rightarrow> None | Some meta \<Rightarrow> map_of (ns_Structs meta) name)"

lemma loop_err_prefix:
  assumes "loop_err f xs s = Some (Inr t)" "I ys s"
    and "\<And>ys x s t. I ys s \<Longrightarrow> f x s = Some (Inr t) \<Longrightarrow> I (ys @ [x]) t"
  shows "I (ys @ xs) t"
  using assms(1,2)
proof (induction xs arbitrary: ys s)
  case (Cons x xs)
  then obtain s' where s': "f x s = Some (Inr s')" "loop_err f xs s' = Some (Inr t)" by (auto split: option.splits sum.splits)
  from Cons.IH [OF s'(2) assms(3) [OF Cons.prems(2) s'(1)]] show ?case by simp
qed simp


lemma projectTypeDef_structs:
  assumes "projectTypeDef ing td row (meta, ds) = Some (Inr (meta', ds'))"
    and "classifyTypeDef (in_file ing) td row = Some kind" "kind \<noteq> ''Struct''" "kind \<noteq> ''Union''"
  shows "ns_Structs meta' = ns_Structs meta"
  using assms by (auto simp: projectTypeDef_def Let_def projectApis_def split: option.splits sum.splits if_splits)

lemma projectStructInto_entry:
  assumes "projectStructInto ing td row (meta, ds) = Some (meta', ds')"
  shows "map_of (ns_Structs meta') name =
    (if name = tdr_Name td
     then Some (case map_of (ns_Structs meta) name of None \<Rightarrow> projected_struct ing (row, td)
                | Some s \<Rightarrow> add_variant s (projected_struct ing (row, td)))
     else map_of (ns_Structs meta) name)"
proof -
  from assms obtain s where s: "projectStruct (struct_fuel ing) ing td row ds = Some (s, ds')"
    and meta': "meta' = meta\<lparr>ns_Structs := AList.update (tdr_Name td)
      (case map_of (ns_Structs meta) (tdr_Name td) of None \<Rightarrow> s | Some existing \<Rightarrow> add_variant existing s) (ns_Structs meta)\<rparr>"
    by (auto simp: projectStructInto_def Let_def split: option.splits)
  from projectStruct_projected [OF s] show ?thesis by (simp add: meta' update_conv split: option.split)
qed

lemma typedef_step_structs:
  assumes ing: "in_file ing = file" "in_opts ing = opts" "in_nestedSet ing = build_nestedSet file"
    and step: "typedef_step ing e (m, ds) = Some (Inr (m', ds'))"
  shows "struct_entry m' api name =
    (if struct_rows file opts api name e
     then Some (case struct_entry m api name of None \<Rightarrow> projected_struct ing e | Some s \<Rightarrow> add_variant s (projected_struct ing e))
     else struct_entry m api name)"
proof -
  obtain row td where e: "e = (row, td)" by fastforce
  let ?short = "se_ApiName opts (tdr_Namespace td)"
  show ?thesis
  proof (cases "\<not> isProjectedNamespace opts (tdr_Namespace td) \<or> build_nestedSet file row")
    case True
    then show ?thesis using step by (auto simp: typedef_step_def e ing struct_rows_def)
  next
    case False
    let ?meta = "case map_of m ?short of Some meta \<Rightarrow> meta | None \<Rightarrow> new_namespace ing ?short"
    from step False obtain meta' where p: "projectTypeDef ing td row (?meta, ds) = Some (Inr (meta', ds'))"
      and m': "m' = AList.update ?short meta' m"
      by (auto simp: typedef_step_def e ing Let_def split: option.splits sum.splits)
    have old: "map_of (ns_Structs ?meta) name = struct_entry m ?short name"
      by (auto simp: struct_entry_def new_namespace_def empty_namespace_def split: option.split)
    have entry: "struct_entry m' api name = (if api = ?short then map_of (ns_Structs meta') name else struct_entry m api name)"
      by (simp add: struct_entry_def m' update_conv)
    obtain kind where kind: "classifyTypeDef file td row = Some kind"
      using p by (cases "classifyTypeDef file td row") (simp_all add: projectTypeDef_def ing Let_def)
    show ?thesis
    proof (cases "kind = ''Struct'' \<or> kind = ''Union''")
      case True
      then have "projectStructInto ing td row (?meta, ds) = Some (meta', ds')"
        using p kind by (auto simp: projectTypeDef_def ing Let_def)
      from projectStructInto_entry [OF this, of name] show ?thesis
        using False True kind old unfolding entry e by (auto simp: struct_rows_def)
    next
      case False
      then have "map_of (ns_Structs meta') name = struct_entry m ?short name"
        using projectTypeDef_structs [OF p] kind old by (simp add: ing)
      moreover have "\<not> struct_rows file opts api name e" using False kind by (auto simp: struct_rows_def e)
      ultimately show ?thesis by (simp add: entry)
    qed
  qed
qed

definition keys_consistent :: "namespace_meta gomap \<Rightarrow> bool" where
  "keys_consistent m \<longleftrightarrow> distinct (map fst m) \<and> (\<forall>(k, meta) \<in> set m. ns_Namespace meta = k)"

lemma projectTypeDef_namespace:
  assumes "projectTypeDef ing td row (meta, ds) = Some (Inr (meta', ds'))"
  shows "ns_Namespace meta' = ns_Namespace meta"
  using assms by (auto simp: projectTypeDef_def Let_def projectApis_def projectStructInto_def
      split: option.splits sum.splits if_splits)

lemma typedef_step_consistent:
  assumes "typedef_step ing e (m, ds) = Some (Inr (m', ds'))" "keys_consistent m"
  shows "keys_consistent m'"
proof -
  obtain row td where e: "e = (row, td)" by fastforce
  let ?short = "se_ApiName (in_opts ing) (tdr_Namespace td)"
  let ?meta = "case map_of m ?short of Some meta \<Rightarrow> meta | None \<Rightarrow> new_namespace ing ?short"
  show ?thesis
  proof (cases "\<not> isProjectedNamespace (in_opts ing) (tdr_Namespace td) \<or> in_nestedSet ing row")
    case True
    with assms show ?thesis by (auto simp: typedef_step_def e)
  next
    case False
    with assms(1) obtain meta' where p: "projectTypeDef ing td row (?meta, ds) = Some (Inr (meta', ds'))"
      and m': "m' = AList.update ?short meta' m"
      by (auto simp: typedef_step_def e Let_def split: option.splits sum.splits)
    have "ns_Namespace ?meta = ?short"
      using assms(2) by (auto simp: keys_consistent_def new_namespace_name split: option.splits dest!: map_of_SomeD)
    then have "ns_Namespace meta' = ?short" using projectTypeDef_namespace [OF p] by simp
    moreover have "set m' \<subseteq> insert (?short, meta') (set m)" unfolding m' by (induction m) auto
    ultimately show ?thesis using assms(2) unfolding keys_consistent_def m' by (auto simp: distinct_update)
  qed
qed

lemma sorted_lookup:
  assumes "keys_consistent m" "metas = sort_key ns_Namespace (map (sort_lists sorters) (map snd m))"
  shows "map_of (map (\<lambda>meta. (ns_Namespace meta, meta)) metas) api = map_option (sort_lists sorters) (map_of m api)"
proof -
  let ?xs = "map (\<lambda>meta. (ns_Namespace meta, meta)) metas" and ?ys = "map (\<lambda>(k, meta). (k, sort_lists sorters meta)) m"
  have "mset (map fst ?xs) = mset (map (\<lambda>e. ns_Namespace (snd e)) m)"
    by (simp add: assms(2) sort_lists_simps multiset.map_comp comp_def)
  also have "map (\<lambda>e. ns_Namespace (snd e)) m = map fst m" using assms(1) by (auto simp: keys_consistent_def)
  finally have "distinct (map fst ?xs) = distinct (map fst m)" by (rule mset_eq_imp_distinct_iff)
  then have "distinct (map fst ?xs)" using assms(1) unfolding keys_consistent_def by blast
  moreover have "distinct (map fst ?ys)" using assms(1) by (simp add: keys_consistent_def comp_def case_prod_beta)
  moreover have "set ?xs = (\<lambda>e. (ns_Namespace (snd e), sort_lists sorters (snd e))) ` set m"
    by (simp add: assms(2) sort_lists_simps image_image)
  then have "set ?xs = set ?ys" unfolding set_map
    using assms(1) by (auto simp: keys_consistent_def intro!: image_cong)
  ultimately have "map_of ?xs = map_of ?ys" by (simp add: map_of_inject_set)
  then show ?thesis by (simp add: map_of_map)
qed

text \<open>
  \<^bold>\<open>C31\<close>: structures declared once per architecture. A successful run records a structure under a name of a
  namespace exactly when the file has a row for it, and then the entry is the projection of the first such
  row, with the projections of all later ones as its architecture variants, in row order.
\<close>

theorem ingested_struct_variants:
  assumes "NewWithOptions file version opts = Some ing" "Ingest sorters ing = Some (Inr (metas, ds))"
  shows "(case map_of (map (\<lambda>meta. (ns_Namespace meta, meta)) metas) api of
      None \<Rightarrow> None | Some meta \<Rightarrow> map_of (ns_Structs meta) name) =
    with_variants (map (projected_struct ing)
      (filter (struct_rows file (withDefaults opts) api name) (numbered (wf_TypeDefs file))))"
proof -
  let ?opts = "withDefaults opts"
  have ing: "in_file ing = file" "in_opts ing = ?opts" "in_nestedSet ing = build_nestedSet file"
    using assms(1) by (simp_all add: NewWithOptions_def buildIndicesD)
  obtain m where m: "loop_err (typedef_step ing) (numbered (wf_TypeDefs file)) ([], []) = Some (Inr (m, ds))"
    and metas: "metas = sort_key ns_Namespace (map (sort_lists sorters) (map snd m))"
    using assms(2) by (auto simp: Ingest_def ing split: option.splits sum.splits)
  let ?I = "\<lambda>ys st. keys_consistent (fst st) \<and>
    struct_entry (fst st) api name = with_variants (map (projected_struct ing) (filter (struct_rows file ?opts api name) ys))"
  have I: "?I ([] @ numbered (wf_TypeDefs file)) (m, ds)"
  proof (rule loop_err_prefix [where I = ?I, OF m])
    show "?I (ys @ [e]) st'" if "?I ys st" "typedef_step ing e st = Some (Inr st')" for ys e and st st' :: "namespace_meta gomap \<times> diags"
      using that typedef_step_consistent [of ing e "fst st" "snd st" "fst st'" "snd st'"]
        typedef_step_structs [OF ing, of e "fst st" "snd st" "fst st'" "snd st'" api name]
      by (auto simp: with_variants_snoc)
  qed (simp add: struct_entry_def with_variants_def keys_consistent_def)
  then have "map_of (map (\<lambda>meta. (ns_Namespace meta, meta)) metas) api = map_option (sort_lists sorters) (map_of m api)"
    using sorted_lookup metas by simp
  with I show ?thesis by (cases "map_of m api") (simp_all add: struct_entry_def sort_lists_def)
qed


lemma sample_struct_rows:
  "map fst (filter (struct_rows sample_winmd (withDefaults no_options) ''Foundation'' ''EVENT'') (numbered (wf_TypeDefs sample_winmd))) = [4, 8]"
  by code_simp

lemma ingested_struct_variants_witness:
  "\<exists>ing metas ds. Ingest sample_sorters ing = Some (Inr (metas, ds)) \<and>
     (case map_of (map (\<lambda>meta. (ns_Namespace meta, meta)) metas) ''Foundation'' of
        None \<Rightarrow> None | Some meta \<Rightarrow> map_of (ns_Structs meta) ''EVENT'') =
     with_variants (map (projected_struct ing)
       (filter (struct_rows sample_winmd (withDefaults no_options) ''Foundation'' ''EVENT'') (numbered (wf_TypeDefs sample_winmd)))) \<and>
     map fst (filter (struct_rows sample_winmd (withDefaults no_options) ''Foundation'' ''EVENT'') (numbered (wf_TypeDefs sample_winmd))) = [4, 8]"
proof -
  have "\<exists>ing. buildIndices sample_winmd ''61.0'' (withDefaults no_options) = Some ing"
    by (rule buildIndices_total) (use sample_ok in \<open>simp add: file_ok_def\<close>)
  then obtain ing where ing: "NewWithOptions sample_winmd ''61.0'' no_options = Some ing" by (auto simp: NewWithOptions_def)
  then have "ingests sample_winmd (withDefaults no_options) ing" using sample_ok by (auto simp: ingests_def NewWithOptions_def)
  from Ingest_spec [OF this sample_sorts] obtain metas ds where run: "Ingest sample_sorters ing = Some (Inr (metas, ds))" by blast
  show ?thesis
    by (intro exI conjI) (rule run, rule ingested_struct_variants [OF ing run], rule sample_struct_rows)
qed

end
