(* ===== verification/IngestValues.thy ===== *)
theory IngestValues
  imports IngestRun RuntimeFacts
begin

text \<open>
  The values \<open>ingest\<close> writes, as the generator reads them: interface identifiers and the parameters of a method.
\<close>

section \<open>Interface identifiers\<close>

definition attribute_guid :: "attribute \<Rightarrow> guid" where
  "attribute_guid attr =
     \<lparr>gd_Data1 = as_uint32 (at_Fixed attr ! 0), gd_Data2 = as_uint16 (at_Fixed attr ! 1),
      gd_Data3 = as_uint16 (at_Fixed attr ! 2), gd_Data4 = map as_byte (drop 3 (at_Fixed attr))\<rparr>"

lemma guid_of_attribute_String: "guid_of_attribute attr = guid_String (attribute_guid attr)"
  by (simp add: guid_of_attribute_def guid_String_def attribute_guid_def hex_byte_def [abs_def] Let_def
      take_map drop_map comp_def)

text \<open>
  \<^bold>\<open>C28\<close>: an interface identifier survives the metadata. What \<open>guidOf\<close> writes for a [Guid] attribute of
  eleven arguments is what \<open>GUID.String\<close> of the runtime prints for the identifier with these fields, in
  the registry form of five dash-separated groups; and \<open>guidLiteral\<close> of the generator accepts it, and the
  Go literal it emits has the arguments of the attribute as its fields.
\<close>

theorem ingested_guid_literal:
  fixes target :: coded_index
  assumes "find is_guid_attribute (wf_AttributesFor file target) = Some attr"
  defines "d1 \<equiv> as_uint32 (at_Fixed attr ! 0)" and "d2 \<equiv> as_uint16 (at_Fixed attr ! 1)"
    and "d3 \<equiv> as_uint16 (at_Fixed attr ! 2)" and "d4 \<equiv> map as_byte (drop 3 (at_Fixed attr))"
  shows "length d4 = 8 \<and>
    guid_String \<lparr>gd_Data1 = d1, gd_Data2 = d2, gd_Data3 = d3, gd_Data4 = d4\<rparr> = guidOf file target \<and>
    guidOf file target = join_with ''-'' [show_hex 8 (unat d1), show_hex 4 (unat d2), show_hex 4 (unat d3),
      concat (map (\<lambda>b. show_hex 2 (unat b)) (take 2 d4)), concat (map (\<lambda>b. show_hex 2 (unat b)) (drop 2 d4))] \<and>
    guidLiteral (guidOf file target) =
      Inr (guid_text (''0x'' @ show_hex 8 (unat d1)) (''0x'' @ show_hex 4 (unat d2)) (''0x'' @ show_hex 4 (unat d3))
        (map (\<lambda>b. ''0x'' @ show_hex 2 (unat b)) d4))"
proof -
  have "length (at_Fixed attr) = 11" using find_SomeD [OF assms(1)] by (simp add: is_guid_attribute_def)
  then have len: "length d4 = 8" by (simp add: d4_def)
  let ?g = "\<lparr>gd_Data1 = d1, gd_Data2 = d2, gd_Data3 = d3, gd_Data4 = d4\<rparr>"
  have "attribute_guid attr = ?g" by (simp add: attribute_guid_def d1_def d2_def d3_def d4_def)
  then have str: "guidOf file target = guid_String ?g"
    using assms(1) by (simp add: guidOf_def guid_of_attribute_String)
  have parts: "guid_String ?g = join_with ''-'' [show_hex 8 (unat d1), show_hex 4 (unat d2), show_hex 4 (unat d3),
      concat (map (\<lambda>b. show_hex 2 (unat b)) (take 2 d4)), concat (map (\<lambda>b. show_hex 2 (unat b)) (drop 2 d4))]"
    by (simp add: guid_String_def hex_byte_def [abs_def])
  from guid_String_literal [of ?g] len parts show ?thesis unfolding str by simp
qed

definition guid_sample :: attribute where
  "guid_sample = \<lparr>at_Name = ''GuidAttribute'',
     at_Fixed = [AttrUInt32 0, AttrUInt16 0, AttrUInt16 0, AttrByte 0xC0, AttrByte 0, AttrByte 0, AttrByte 0,
       AttrByte 0, AttrByte 0, AttrByte 0, AttrByte 0x46],
     at_Named = []\<rparr>"

definition guid_file :: winmd_file where
  "guid_file =
     \<lparr>wf_TypeDefs = [], wf_TypeRefs = [], wf_Methods = [], wf_Fields = [], wf_Params = [], wf_ModuleRefs = [],
      wf_ImplMaps = [], wf_Constants = [], wf_ClassLayouts = [], wf_NestedClasses = [], wf_InterfaceImpls = [],
      wf_AttributesFor = (\<lambda>target. [guid_sample]), wf_MethodSignature = (\<lambda>b. Inl ''no signature''),
      wf_FieldSignature = (\<lambda>b. Inl ''no signature''), wf_DecodeConstant = (\<lambda>t v. ConstOther),
      wf_TypeAttrInterface = 32, wf_TypeAttrExplicitLayout = 16, wf_FieldAttrLiteral = 64, wf_FieldAttrStatic = 16,
      wf_ParamAttrIn = 1, wf_ParamAttrOut = 2, wf_ParamAttrOptional = 16, wf_PInvokeAttrSupportsLastError = 64\<rparr>"

lemma ingested_guid_literal_witness:
  "guidOf guid_file (typeDefTarget 1) = ''00000000-0000-0000-c000-000000000046'' \<and>
   guid_String \<lparr>gd_Data1 = 0, gd_Data2 = 0, gd_Data3 = 0, gd_Data4 = [0xC0, 0, 0, 0, 0, 0, 0, 0x46]\<rparr> =
     ''00000000-0000-0000-c000-000000000046'' \<and>
   guidLiteral (guidOf guid_file (typeDefTarget 1)) \<noteq> Inl (malformed_guid [])"
proof -
  have shown: "guidOf guid_file (typeDefTarget 1) = ''00000000-0000-0000-c000-000000000046''" by code_simp
  have attr: "find is_guid_attribute (wf_AttributesFor guid_file (typeDefTarget 1)) = Some guid_sample" by code_simp
  have vals: "as_uint32 (at_Fixed guid_sample ! 0) = 0" "as_uint16 (at_Fixed guid_sample ! 1) = 0"
    "as_uint16 (at_Fixed guid_sample ! 2) = 0" "map as_byte (drop 3 (at_Fixed guid_sample)) = [0xC0, 0, 0, 0, 0, 0, 0, 0x46]"
    by code_simp+
  note g = ingested_guid_literal [OF attr, unfolded vals]
  from g [THEN conjunct2, THEN conjunct1] shown
  have "guid_String \<lparr>gd_Data1 = 0, gd_Data2 = 0, gd_Data3 = 0, gd_Data4 = [0xC0, 0, 0, 0, 0, 0, 0, 0x46]\<rparr> =
     ''00000000-0000-0000-c000-000000000046''" by (rule trans)
  moreover have "guidLiteral (guidOf guid_file (typeDefTarget 1)) \<noteq> Inl (malformed_guid [])"
    unfolding g [THEN conjunct2, THEN conjunct2, THEN conjunct2] by simp
  ultimately show ?thesis using shown by blast
qed

section \<open>Parameters\<close>

lemma loop_prefix:
  assumes "loop f xs s = Some t" "I ys s"
    and "\<And>ys x s t. I ys s \<Longrightarrow> f x s = Some t \<Longrightarrow> I (ys @ [x]) t"
  shows "I (ys @ xs) t"
  using assms(1,2)
proof (induction xs arbitrary: ys s)
  case (Cons x xs)
  then obtain s' where s': "f x s = Some s'" "loop f xs s' = Some t" by (auto split: option.splits)
  from Cons.IH [OF s'(2) assms(3) [OF Cons.prems(2) s'(1)]] show ?case by simp
qed simp

text \<open>The last row of a method whose sequence number is that of the parameter.\<close>

definition last_row :: "winmd_file \<Rightarrow> 32 word list \<Rightarrow> nat \<Rightarrow> param_row option" where
  "last_row file rows i =
     (let prs = filter (\<lambda>pr. unat (pdr_Sequence pr) = Suc i) (List.map_filter (row_at (wf_Params file)) rows)
      in if prs = [] then None else Some (last prs))"

lemma last_row_Nil: "last_row file [] i = None"
  by (simp add: last_row_def List.map_filter_def)

lemma last_row_snoc:
  "row_at (wf_Params file) row = Some pr \<Longrightarrow>
     last_row file (rows @ [row]) i = (if unat (pdr_Sequence pr) = Suc i then Some pr else last_row file rows i)"
  by (simp add: last_row_def List.map_filter_def Let_def)

text \<open>What a row says about its parameter; without a row it is as the signature left it.\<close>

definition matches_row :: "winmd_file \<Rightarrow> param_row option \<Rightarrow> nat \<Rightarrow> type_ref \<Rightarrow> param \<Rightarrow> bool" where
  "matches_row file r i t p \<longleftrightarrow> p_Type p = t \<and>
     (case r of
        None \<Rightarrow> p = zero_param (''param'' @ show_nat i) t
      | Some pr \<Rightarrow> p_Name p = pdr_Name pr \<and> (p_IsIn p \<longleftrightarrow> pdr_Flags pr AND wf_ParamAttrIn file \<noteq> 0) \<and>
          (p_IsOut p \<longleftrightarrow> pdr_Flags pr AND wf_ParamAttrOut file \<noteq> 0) \<and>
          (p_IsOptional p \<longleftrightarrow> pdr_Flags pr AND wf_ParamAttrOptional file \<noteq> 0))"

lemma param_attribute_keeps:
  "p_Name (param_attribute attr p) = p_Name p" "p_IsIn (param_attribute attr p) = p_IsIn p"
  "p_IsOut (param_attribute attr p) = p_IsOut p" "p_IsOptional (param_attribute attr p) = p_IsOptional p"
  by (simp_all add: param_attribute_def native_array_info_def Let_def split: option.splits)

lemma param_of_row_matches:
  "matches_row file (Some pr) i (p_Type p) (param_of_row file row pr p)"
proof -
  have "p_Name (fold param_attribute attrs q) = p_Name q \<and> p_IsIn (fold param_attribute attrs q) = p_IsIn q \<and>
      p_IsOut (fold param_attribute attrs q) = p_IsOut q \<and> p_IsOptional (fold param_attribute attrs q) = p_IsOptional q" for attrs q
    by (induction attrs arbitrary: q) (simp_all add: param_attribute_keeps)
  then show ?thesis by (simp add: matches_row_def param_of_row_type) (simp add: param_of_row_def applyParamAttributes_def)
qed

lemma typeRefOf_any: "fst (typeRefOf ing s ds) = fst (typeRefOf ing s [])"
  by (induction s arbitrary: ds)
    (auto simp: typeref_named_def Let_def case_prod_beta split: option.splits)

lemma sig_params_spec:
  "length (fst (sig_params ing i ss ds)) = length ss \<and>
   (\<forall>k < length ss. fst (sig_params ing i ss ds) ! k = zero_param (''param'' @ show_nat (i + k)) (fst (typeRefOf ing (ss ! k) [])))"
proof (induction ss arbitrary: i ds)
  case (Cons s ss)
  have "fst (sig_params ing i (s # ss) ds) =
      zero_param (''param'' @ show_nat i) (fst (typeRefOf ing s [])) # fst (sig_params ing (Suc i) ss (snd (typeRefOf ing s ds)))"
    by (simp add: case_prod_beta Let_def typeRefOf_any [of ing s ds])
  with Cons.IH [of "Suc i" "snd (typeRefOf ing s ds)"] show ?case
    by (auto simp: nth_Cons split: nat.split)
qed simp

text \<open>
  \<^bold>\<open>C32\<close>: the parameters of a method are those of its signature, in order, one for each: parameter \<open>i\<close> has
  the \<open>i\<close>-th type of the signature, and the name and direction flags of the last row of the method with
  sequence number \<open>i + 1\<close>, or a made-up name where there is no such row.
\<close>

theorem paramsOf_rows:
  assumes "paramsOf ing method msig ds = Some (ps, ds')"
  shows "length ps = length (ms_Params msig) \<and>
    (\<forall>i < length ps. matches_row (in_file ing)
       (last_row (in_file ing) (rows_between (mdr_ParamFirst method) (mdr_ParamEnd method) (wf_Params (in_file ing))) i)
       i (fst (typeRefOf ing (ms_Params msig ! i) [])) (ps ! i))"
proof -
  let ?file = "in_file ing" and ?ss = "ms_Params msig"
  let ?rows = "rows_between (mdr_ParamFirst method) (mdr_ParamEnd method) (wf_Params ?file)"
  let ?t = "\<lambda>i. fst (typeRefOf ing (?ss ! i) [])"
  obtain ps0 ds0 where ps0: "sig_params ing 0 ?ss ds = (ps0, ds0)" by fastforce
  with assms have run: "loop (param_row_step ?file) ?rows ps0 = Some ps" by (auto simp: paramsOf_def Let_def)
  let ?I = "\<lambda>rows ps. length ps = length ?ss \<and> (\<forall>i < length ps. matches_row ?file (last_row ?file rows i) i (?t i) (ps ! i))"
  have "?I ([] @ ?rows) ps"
  proof (rule loop_prefix [where I = ?I, OF run])
    show "?I [] ps0" using sig_params_spec [of ing 0 ?ss ds] ps0
      by (simp add: last_row_Nil matches_row_def zero_param_def)
    fix rows row ps ps'
    assume I: "?I rows ps" and step: "param_row_step ?file row ps = Some ps'"
    then obtain pr where pr: "row_at (wf_Params ?file) row = Some pr" by (auto simp: param_row_step_def split: option.splits)
    let ?s = "unat (pdr_Sequence pr)"
    show "?I (rows @ [row]) ps'"
    proof (cases "?s = 0 \<or> length ps < ?s")
      case True
      then have "ps' = ps" using step by (simp add: param_row_step_def pr Let_def)
      with True I show ?thesis by (auto simp: last_row_snoc [OF pr])
    next
      case False
      then obtain k where k: "?s = Suc k" "k < length ps" by (cases ?s) auto
      then have ps': "ps' = ps[k := param_of_row ?file row pr (ps ! k)]" using step by (simp add: param_row_step_def pr Let_def)
      have "p_Type (ps ! k) = ?t k" using I k(2) by (simp add: matches_row_def)
      then have "matches_row ?file (Some pr) k (?t k) (param_of_row ?file row pr (ps ! k))"
        using param_of_row_matches [of ?file pr k "ps ! k" row] by simp
      with I k show ?thesis by (auto simp: ps' last_row_snoc [OF pr] nth_list_update)
    qed
  qed
  then show ?thesis by simp
qed




lemma paramsOf_rows_witness:
  "\<exists>ing ps ds. paramsOf ing (hd (wf_Methods sample_winmd))
      \<lparr>ms_Return = SigPrimitive ElemInt32 False, ms_Params = [SigNamed ''Windows.Win32.Foundation'' ''HANDLE'' False]\<rparr> [] = Some (ps, ds) \<and>
    length ps = 1 \<and> p_Name (ps ! 0) = ''hObject''"
proof -
  let ?m = "hd (wf_Methods sample_winmd)"
  let ?s = "\<lparr>ms_Return = SigPrimitive ElemInt32 False, ms_Params = [SigNamed ''Windows.Win32.Foundation'' ''HANDLE'' False]\<rparr>"
  obtain ing where ing: "ingests sample_winmd (withDefaults no_options) ing"
    using sample_ok buildIndices_total [of sample_winmd "''61.0''" "withDefaults no_options"] by (auto simp: ingests_def file_ok_def)
  have m: "?m \<in> set (wf_Methods sample_winmd)" by (simp add: sample_winmd_def Let_def)
  have "list_all (sig_closed sample_winmd (withDefaults no_options)) (ms_Params ?s)" by code_simp
  then obtain ps ds where p: "paramsOf ing ?m ?s [] = Some (ps, ds)" using paramsOf_spec [OF ing m] by blast
  have row: "last_row sample_winmd (rows_between (mdr_ParamFirst ?m) (mdr_ParamEnd ?m) (wf_Params sample_winmd)) 0 =
      Some \<lparr>pdr_Flags = 1, pdr_Name = ''hObject'', pdr_Sequence = 1\<rparr>" by code_simp
  have len: "length ps = 1" using paramsOf_rows [OF p] by simp
  with paramsOf_rows [OF p] have "matches_row sample_winmd (last_row sample_winmd
      (rows_between (mdr_ParamFirst ?m) (mdr_ParamEnd ?m) (wf_Params sample_winmd)) 0) 0
      (fst (typeRefOf ing (ms_Params ?s ! 0) [])) (ps ! 0)" unfolding ingestsD(1) [OF ing] by fastforce
  then have "p_Name (ps ! 0) = ''hObject''" unfolding row by (simp add: matches_row_def)
  with p len show ?thesis by blast
qed

end
