(* ===== verification/Commands.thy ===== *)
theory Commands
  imports Reports Diff Projection
begin

text \<open>
  The commands around the metadata: the dispatch of \<open>cmd/generate/main.go\<close>, \<open>ingest\<close> and \<open>list\<close>, the download
  of \<open>cmd/generate/fetch.go\<close>, and the summary of \<open>cmd/inspect/main.go\<close>.

  Parameters: the parsed metadata file, the NuGet client of the package \<open>go-winmd\<close>, and JSON. Flags are
  arguments; of a path only what the code looks at is kept. What a command prints is part of its result.
\<close>

section \<open>Dispatch\<close>

datatype command = FetchMetadata | IngestCommand | Bindings | ABITest | ValidateCommand | DiffCommand | ListCommand

definition parse_command :: "string \<Rightarrow> command option" where
  "parse_command arg =
     (if arg = ''fetch-metadata'' then Some FetchMetadata
      else if arg = ''ingest'' then Some IngestCommand
      else if arg = ''bindings'' then Some Bindings
      else if arg = ''abitest'' then Some ABITest
      else if arg = ''validate'' then Some ValidateCommand
      else if arg = ''diff'' then Some DiffCommand
      else if arg = ''list'' then Some ListCommand
      else None)"

definition usage :: "string list" where
  "usage =
     [''usage: generate <command> [flags]'', [], ''commands:'',
      ''  fetch-metadata  download the latest winmd from NuGet into metadata/winmd'',
      ''  ingest          project the winmd into per-namespace .w32meta.json files'',
      ''  bindings        emit the Go bindings from the .w32meta.json metadata (self-cleaning)'',
      ''  abitest         generate the ABI layout acceptance test'',
      ''  validate        structural integrity checks over the metadata'',
      ''  diff            semantic API diff between two metadata trees'',
      ''  list            list the namespaces in the winmd'']"

text \<open>The arguments after the program's name; the runner gives the error of a command. The result is what
  goes to standard error and the exit code.\<close>

definition generate_main :: "(command \<Rightarrow> string list \<Rightarrow> string option) \<Rightarrow> string list \<Rightarrow> string list \<times> nat" where
  "generate_main run args =
     (case args of [] \<Rightarrow> (usage, 2)
      | arg # rest \<Rightarrow> (case parse_command arg of
          None \<Rightarrow> (usage, 2)
        | Some c \<Rightarrow> (case run c rest of None \<Rightarrow> ([], 0) | Some e \<Rightarrow> ([''generate: '' @ e], 1))))"

section \<open>Ingest\<close>

definition selects :: "string list \<Rightarrow> namespace_meta \<Rightarrow> bool" where
  "selects flt meta \<longleftrightarrow> flt = [] \<or> ns_Namespace meta \<in> set flt"

fun write_all :: "(namespace_meta \<Rightarrow> string + string) \<Rightarrow> namespace_meta list \<Rightarrow> string gomap \<Rightarrow> string + string gomap" where
  "write_all encode [] dir = Inr dir"
| "write_all encode (meta # metas) dir =
     (case Write encode meta dir of Inl e \<Rightarrow> Inl e | Inr dir \<Rightarrow> write_all encode metas dir)"

record ingest_flags =
  if_out :: string
  if_namespace :: string
  if_verbose :: bool

text \<open>The directory afterwards, what goes to standard error, and the last line.\<close>

definition runIngest :: "slice_sorters \<Rightarrow> (namespace_meta \<Rightarrow> string + string) \<Rightarrow> string + winmd_file \<Rightarrow> string \<Rightarrow> ingest_flags \<Rightarrow>
    string gomap \<Rightarrow> (string + string gomap \<times> string list \<times> string) option" where
  "runIngest sorters encode opened version flags dir =
     (case opened of
        Inl e \<Rightarrow> Some (Inl e)
      | Inr file \<Rightarrow> (case NewIngester file version of
          None \<Rightarrow> None
        | Some ing \<Rightarrow> (case Ingest sorters ing of
            None \<Rightarrow> None
          | Some (Inl e) \<Rightarrow> Some (Inl e)
          | Some (Inr (namespaces, ds)) \<Rightarrow>
              (let chosen = filter (selects (parse_filter (if_namespace flags))) namespaces in
               case write_all encode chosen dir of
                 Inl e \<Rightarrow> Some (Inl e)
               | Inr dir \<Rightarrow> Some (Inr (dir, if if_verbose flags then map ((@) ''diagnostic: '') ds else [],
                   ''ingested '' @ show_nat (length chosen) @ '' namespaces '' @ arrow @ '' '' @ if_out flags @
                   '' ('' @ show_nat (length ds) @ '' diagnostics)''))))))"

text \<open>\<open>%-60s\<close> and \<open>%5d\<close>: padding with spaces.\<close>

definition pad_end :: "nat \<Rightarrow> string \<Rightarrow> string" where
  "pad_end w s = s @ replicate (w - length s) CHR 0x20"

definition pad_start :: "nat \<Rightarrow> string \<Rightarrow> string" where
  "pad_start w s = replicate (w - length s) CHR 0x20 @ s"

definition list_line :: "namespace_meta \<Rightarrow> string" where
  "list_line meta =
     pad_end 60 (ns_Namespace meta) @ '' '' @ pad_start 5 (show_nat (length (ns_Functions meta))) @ '' funcs '' @
     pad_start 5 (show_nat (length (ns_Structs meta))) @ '' structs '' @
     pad_start 5 (show_nat (length (ns_Enums meta))) @ '' enums '' @
     pad_start 5 (show_nat (length (ns_Interfaces meta))) @ '' ifaces '' @
     pad_start 6 (show_nat (length (ns_Constants meta))) @ '' consts''"

definition runList :: "slice_sorters \<Rightarrow> string + winmd_file \<Rightarrow> (string + string list) option" where
  "runList sorters opened =
     (case opened of
        Inl e \<Rightarrow> Some (Inl e)
      | Inr file \<Rightarrow> (case NewIngester file [] of
          None \<Rightarrow> None
        | Some ing \<Rightarrow> map_option (map_sum id (\<lambda>(namespaces, ds). map list_line namespaces)) (Ingest sorters ing)))"

section \<open>Download\<close>

definition nugetPackage :: string where "nugetPackage = ''microsoft.windows.sdk.win32metadata''"
definition nugetPackageDisplay :: string where "nugetPackageDisplay = ''Microsoft.Windows.SDK.Win32Metadata''"
definition winmdFileName :: string where "winmdFileName = ''Windows.Win32.winmd''"

record provenance =
  pv_File :: string
  pv_Version :: string

text \<open>The client: the latest version of a package, the page of a version, and the file of one with its record.\<close>

record nuget =
  nu_LatestVersion :: "string \<Rightarrow> string + string"
  nu_SourceURL :: "string \<Rightarrow> string \<Rightarrow> string"
  nu_Fetch :: "string \<Rightarrow> string \<Rightarrow> string \<Rightarrow> string \<Rightarrow> string + string \<times> provenance"

text \<open>The output directory: the winmd file, and the records of \<open>PROVENANCE.json\<close> when it can be read.\<close>

record winmd_dir =
  wd_winmd :: "string option"
  wd_records :: "provenance list option"

definition currentProvenance :: "provenance list option \<Rightarrow> provenance option" where
  "currentProvenance records =
     (case records of
        None \<Rightarrow> None
      | Some [] \<Rightarrow> None
      | Some (r # rs) \<Rightarrow> (case find (\<lambda>r. pv_File r = winmdFileName) (r # rs) of Some r' \<Rightarrow> Some r' | None \<Rightarrow> Some r))"

definition up_to_date :: "bool \<Rightarrow> string \<Rightarrow> winmd_dir \<Rightarrow> bool" where
  "up_to_date force target dir \<longleftrightarrow>
     \<not> force \<and> map_option pv_Version (currentProvenance (wd_records dir)) = Some target \<and> wd_winmd dir \<noteq> None"

definition updated_line :: "provenance option \<Rightarrow> string \<Rightarrow> string \<Rightarrow> string" where
  "updated_line current target content =
     ''updated '' @ (case current of None \<Rightarrow> ''(none)'' | Some r \<Rightarrow> pv_Version r) @ '' -> '' @ target @
     '' ('' @ show_nat (length content) @ '' bytes)''"

definition runFetchMetadata :: "nuget \<Rightarrow> string \<Rightarrow> bool \<Rightarrow> winmd_dir \<Rightarrow> string + winmd_dir \<times> string list" where
  "runFetchMetadata client version force dir =
     (case (if version = [] then nu_LatestVersion client nugetPackage else Inr version) of
        Inl e \<Rightarrow> Inl e
      | Inr target \<Rightarrow>
          if up_to_date force target dir then Inr (dir, [''up-to-date '' @ target])
          else (case nu_Fetch client nugetPackage nugetPackageDisplay target winmdFileName of
              Inl e \<Rightarrow> Inl e
            | Inr (content, record) \<Rightarrow> Inr
                (\<lparr>wd_winmd = Some content, wd_records = Some [record]\<rparr>,
                 [''downloading '' @ nu_SourceURL client nugetPackage target,
                  updated_line (currentProvenance (wd_records dir)) target content])))"

section \<open>Inspection\<close>

definition first_names :: "string \<Rightarrow> string list \<Rightarrow> string list" where
  "first_names label names =
     (let sorted_names = sort names; limit = min 20 (length names) in
      if limit = 0 then []
      else [[], label @ '' (first '' @ show_nat limit @ ''):''] @ map ((@) ''  '') (take limit sorted_names))"

definition summarize :: "namespace_meta \<Rightarrow> string list" where
  "summarize meta =
     [''namespace  '' @ ns_Namespace meta @ '' (winmd '' @ ns_WinmdVersion meta @ '', schema '' @ show_int (ns_SchemaVersion meta) @ '')'',
      ''functions  '' @ show_nat (length (ns_Functions meta)),
      ''structs    '' @ show_nat (length (ns_Structs meta)),
      ''enums      '' @ show_nat (length (ns_Enums meta)),
      ''interfaces '' @ show_nat (length (ns_Interfaces meta)),
      ''delegates  '' @ show_nat (length (ns_Delegates meta)),
      ''typedefs   '' @ show_nat (length (ns_Typedefs meta)),
      ''constants  '' @ show_nat (length (ns_Constants meta))] @
     first_names ''functions'' (map fn_Name (ns_Functions meta)) @
     first_names ''structs'' (map fst (ns_Structs meta))"

text \<open>The process: standard output, standard error and the exit code. The texts of a missing construct and of
  a usage error go to standard error.\<close>

definition inspect_main :: "json_encoders \<Rightarrow> (string \<Rightarrow> string + namespace_meta) \<Rightarrow> string \<Rightarrow> string list \<Rightarrow> string list \<times> string list \<times> nat" where
  "inspect_main je readFile name args =
     (case args of
        [path] \<Rightarrow> (case readFile path of
            Inl e \<Rightarrow> ([], [''inspect: '' @ e], 1)
          | Inr meta \<Rightarrow>
              if name = [] then (summarize meta, [], 0)
              else (case dumpOne je meta name of
                  None \<Rightarrow> ([], [''inspect: '' @ quoted name @ '' not found in '' @ ns_Namespace meta], 1)
                | Some out \<Rightarrow> ([case out of None \<Rightarrow> [] | Some text \<Rightarrow> text], [], 0)))
      | _ \<Rightarrow> ([], [''usage: inspect [--name <TypeOrFunction>] <path-to.w32meta.json>''], 2))"

end
