(* ===== verification/CommandFacts.thy ===== *)
theory CommandFacts
  imports Commands DiffFacts IngestRun
begin

text \<open>
  Facts about whole commands: \<open>ingest\<close> followed by \<open>validate\<close> over the files it wrote, what \<open>ingest\<close> leaves in
  its directory, and repeated downloads.
\<close>

section \<open>Writing and reading back\<close>

definition stamped :: "namespace_meta \<Rightarrow> namespace_meta" where
  "stamped meta = meta\<lparr>ns_SchemaVersion := CurrentSchemaVersion\<rparr>"

text \<open>JSON gives the namespace back.\<close>

definition json_inverse :: "(namespace_meta \<Rightarrow> string + string) \<Rightarrow> (string \<Rightarrow> string + namespace_meta) \<Rightarrow> namespace_meta \<Rightarrow> bool" where
  "json_inverse encode decode meta \<longleftrightarrow>
     (case encode (stamped meta) of Inl e \<Rightarrow> False | Inr data \<Rightarrow> decode (data @ [newline]) = Inr (stamped meta))"

definition file_of :: "(namespace_meta \<Rightarrow> string + string) \<Rightarrow> namespace_meta \<Rightarrow> string \<times> string" where
  "file_of encode meta =
     (FileName (ns_Namespace meta), case encode (stamped meta) of Inl e \<Rightarrow> [] | Inr data \<Rightarrow> data @ [newline])"

lemma FileName_inject: "FileName a = FileName b \<longleftrightarrow> a = b"
  by (simp add: FileName_def)

lemma write_all_spec:
  "(\<And>meta. meta \<in> set metas \<Longrightarrow> json_inverse encode decode meta) \<Longrightarrow>
     write_all encode metas dir = Inr (fold (\<lambda>meta. AList.update (fst (file_of encode meta)) (snd (file_of encode meta))) metas dir)"
proof (induction metas arbitrary: dir)
  case (Cons meta metas)
  have "json_inverse encode decode meta" by (rule Cons.prems) simp
  then have "Write encode meta dir = Inr (AList.update (fst (file_of encode meta)) (snd (file_of encode meta)) dir)"
    by (auto simp: Write_def file_of_def json_inverse_def stamped_def Let_def split: sum.splits)
  with Cons show ?case by simp
qed simp

lemma fold_update_lookup:
  "map_of (fold (\<lambda>x. AList.update (k x) (v x)) xs dir) key =
     (case find (\<lambda>x. k x = key) (rev xs) of None \<Rightarrow> map_of dir key | Some x \<Rightarrow> Some (v x))"
  by (induction xs rule: rev_induct) (simp_all add: update_conv)

lemma read_files_spec:
  "(\<And>p d. (p, d) \<in> set files \<Longrightarrow> Read decode p d = Inr (f p)) \<Longrightarrow>
     read_files decode files = Inr (map (\<lambda>e. f (fst e)) files)"
  by (induction files) (auto split: sum.splits)

lemma set_entries: "set (entries m) = {(k, v). map_of m k = Some v}"
  by (auto simp: in_entries_iff)

lemma find_unique:
  assumes "x \<in> set xs" "P x" "\<And>y. y \<in> set xs \<Longrightarrow> P y \<Longrightarrow> y = x"
  shows "find P xs = Some x"
proof (cases "find P xs")
  case None
  with assms(1,2) show ?thesis by (simp add: find_None_iff)
next
  case (Some y)
  then have "y = x" by (intro assms(3)) (auto dest: find_SomeD)
  with Some show ?thesis by simp
qed

lemma same_file:
  "distinct (map ns_Namespace metas) \<Longrightarrow> x \<in> set metas \<Longrightarrow> y \<in> set metas \<Longrightarrow> FileName (ns_Namespace y) = FileName (ns_Namespace x) \<Longrightarrow> y = x"
  by (auto simp: FileName_inject distinct_map dest: inj_onD)

text \<open>Everything written to an empty directory is read back.\<close>

lemma ReadAll_write_all:
  assumes "\<And>meta. meta \<in> set metas \<Longrightarrow> json_inverse encode decode meta" "distinct (map ns_Namespace metas)"
  shows "\<exists>dir metas'. write_all encode metas [] = Inr dir \<and> ReadAll decode dir = Inr metas' \<and> set metas' = stamped ` set metas \<and>
    fst ` set dir = (\<lambda>meta. ns_Namespace meta @ ''.w32meta.json'') ` set metas"
proof -
  let ?dir = "fold (\<lambda>meta. AList.update (fst (file_of encode meta)) (snd (file_of encode meta))) metas []"
  have "map_of ?dir key = Some d \<longleftrightarrow> (key, d) \<in> file_of encode ` set metas" for key d
  proof
    assume "map_of ?dir key = Some d"
    then obtain x where "find (\<lambda>x. fst (file_of encode x) = key) (rev metas) = Some x" "d = snd (file_of encode x)"
      unfolding fold_update_lookup by (auto split: option.splits)
    then show "(key, d) \<in> file_of encode ` set metas" by (auto dest!: find_SomeD)
  next
    assume "(key, d) \<in> file_of encode ` set metas"
    then obtain x where x: "x \<in> set metas" "file_of encode x = (key, d)" by auto
    have "find (\<lambda>x. fst (file_of encode x) = key) (rev metas) = Some x"
    proof (rule find_unique)
      show "fst (file_of encode x) = key" using x(2) by simp
      fix y assume "y \<in> set (rev metas)" "fst (file_of encode y) = key"
      with x show "y = x" by (intro same_file [OF assms(2) x(1)]) (auto simp: file_of_def)
    qed (use x(1) in simp)
    with x(2) show "map_of ?dir key = Some d" unfolding fold_update_lookup by simp
  qed
  then have "set (entries ?dir) = file_of encode ` set metas" unfolding set_entries by auto
  moreover have "has_suffix (FileName n) ''.w32meta.json''" for n by (simp add: FileName_def has_suffix_def)
  ultimately have files: "set (sort_key fst (filter (\<lambda>e. has_suffix (fst e) ''.w32meta.json'') (entries ?dir))) = file_of encode ` set metas"
    by (auto simp: file_of_def)
  let ?files = "sort_key fst (filter (\<lambda>e. has_suffix (fst e) ''.w32meta.json'') (entries ?dir))"
  let ?of = "\<lambda>key. stamped (the (find (\<lambda>m. FileName (ns_Namespace m) = key) metas))"
  have find: "find (\<lambda>m. FileName (ns_Namespace m) = FileName (ns_Namespace meta)) metas = Some meta" if "meta \<in> set metas" for meta
    by (rule find_unique [OF that refl]) (rule same_file [OF assms(2) that])
  have "read_files decode ?files = Inr (map (\<lambda>e. ?of (fst e)) ?files)"
  proof (rule read_files_spec)
    fix p d
    assume "(p, d) \<in> set ?files"
    then have "(p, d) \<in> file_of encode ` set metas" unfolding files .
    then obtain meta where meta: "meta \<in> set metas" "file_of encode meta = (p, d)" by auto
    with assms(1) [OF meta(1)] find [OF meta(1)] show "Read decode p d = Inr (?of p)"
      by (auto simp: Read_def file_of_def json_inverse_def stamped_def split: sum.splits)
  qed
  moreover have "set (map (\<lambda>e. ?of (fst e)) ?files) = stamped ` set metas"
    unfolding set_map files image_image using find by (simp add: file_of_def)
  moreover have "fst ` set (fold (\<lambda>meta. AList.update (fst (file_of encode meta)) (snd (file_of encode meta))) ms d) =
      fst ` set d \<union> (\<lambda>meta. ns_Namespace meta @ ''.w32meta.json'') ` set ms" for ms d
    by (induction ms arbitrary: d) (simp_all add: dom_update file_of_def FileName_def)
  from this [of metas "[]"] have "fst ` set ?dir = (\<lambda>meta. ns_Namespace meta @ ''.w32meta.json'') ` set metas" by simp
  ultimately show ?thesis using write_all_spec [OF assms(1)] by (auto simp: ReadAll_def)
qed

section \<open>Ingest, then validate\<close>

lemma stamped_ok: "meta_ok file opts (stamped meta) = meta_ok file opts meta"
  "entry_names (stamped meta) kind = entry_names meta kind" "ns_Namespace (stamped meta) = ns_Namespace meta"
  by (simp_all add: stamped_def meta_ok_def entry_names_def)

text \<open>
  \<^bold>\<open>C30\<close>: the metadata pipeline. On a well-formed metadata file, \<open>ingest\<close> into an empty directory succeeds
  without a panic and leaves one file for each namespace it projected. If JSON gives back what it was
  given, reading the directory gives exactly these namespaces, with the current schema version; every
  type the metadata file declares is among them; and unless there is none, they load and \<open>validate\<close>
  finds no error in them.
\<close>

theorem ingest_then_validate:
  assumes "file_ok file (withDefaults no_options)" "sorts sorters" "parse_filter (if_namespace flags) = []"
    and "\<forall>ing metas ds. NewIngester file version = Some ing \<longrightarrow> Ingest sorters ing = Some (Inr (metas, ds)) \<longrightarrow>
      (\<forall>meta \<in> set metas. json_inverse encode decode meta)"
  shows "\<exists>ing produced ds dir err line metas.
    NewIngester file version = Some ing \<and> Ingest sorters ing = Some (Inr (produced, ds)) \<and>
    runIngest sorters encode (Inr file) version flags [] = Some (Inr (dir, err, line)) \<and>
    fst ` set dir = (\<lambda>meta. ns_Namespace meta @ ''.w32meta.json'') ` set produced \<and>
    ReadAll decode dir = Inr metas \<and> set metas = (\<lambda>meta. meta\<lparr>ns_SchemaVersion := CurrentSchemaVersion\<rparr>) ` set produced \<and>
    (\<forall>kind ns name. kind \<in> set referable_kinds \<longrightarrow> declares file (withDefaults no_options) kind ns name \<longrightarrow>
       (\<exists>meta \<in> set metas. ns_Namespace meta = se_ApiName (withDefaults no_options) ns \<and> name \<in> entry_names meta kind)) \<and>
    (produced \<noteq> [] \<longrightarrow> (\<exists>reg. LoadAll [metas] = Inr reg \<and> snd (runValidate reg)))"
proof -
  let ?opts = "withDefaults no_options"
  obtain ing where new: "NewIngester file version = Some ing" "ingests file ?opts ing"
    using assms(1) buildIndices_total [of "file" version ?opts]
    by (auto simp: NewIngester_def NewWithOptions_def ingests_def file_ok_def)
  obtain metas ds where run: "Ingest sorters ing = Some (Inr (metas, ds))" "ingest_result file ?opts metas"
    using Ingest_spec [OF new(2) assms(2)] by blast
  obtain dir metas' where w: "write_all encode metas [] = Inr dir" "ReadAll decode dir = Inr metas'" "set metas' = stamped ` set metas"
    and names: "fst ` set dir = (\<lambda>meta. ns_Namespace meta @ ''.w32meta.json'') ` set metas"
    using ReadAll_write_all [of metas encode decode] assms(4) new(1) run by (auto simp: ingest_result_def)
  have "list_all (meta_ok file ?opts) metas'"
    using run(2) w(3) by (auto simp: ingest_result_def list_all_iff stamped_ok)
  moreover have declared: "\<exists>meta \<in> set metas'. ns_Namespace meta = se_ApiName ?opts ns \<and> name \<in> entry_names meta kind"
    if "kind \<in> set referable_kinds" "declares file ?opts kind ns name" for kind ns name
    using run(2) that unfolding w(3) ingest_result_def by (auto simp: stamped_ok)
  ultimately have "case LoadAll [metas'] of Inl e \<Rightarrow> metas' = [] | Inr reg \<Rightarrow> snd (runValidate reg)" using metas_accepted by blast
  moreover have "metas' \<noteq> []" if "metas \<noteq> []" using w(3) that by auto
  ultimately have valid: "metas \<noteq> [] \<longrightarrow> (\<exists>reg. LoadAll [metas'] = Inr reg \<and> snd (runValidate reg))"
    by (auto split: sum.split_asm)
  have "filter (selects []) metas = metas" by (simp add: selects_def)
  then have "\<exists>err line. runIngest sorters encode (Inr file) version flags [] = Some (Inr (dir, err, line))"
    using new(1) run(1) w(1) assms(3) by (simp add: runIngest_def Let_def)
  then obtain err line where ran: "runIngest sorters encode (Inr file) version flags [] = Some (Inr (dir, err, line))" by blast
  have stamp: "set metas' = (\<lambda>meta. meta\<lparr>ns_SchemaVersion := CurrentSchemaVersion\<rparr>) ` set metas"
    unfolding w(3) stamped_def [abs_def] ..
  show ?thesis
    by (intro exI [of _ ing] exI [of _ metas] exI [of _ ds] exI [of _ dir] exI [of _ err] exI [of _ line] exI [of _ metas']
        conjI allI impI new(1) run(1) ran names w(2) stamp declared) (use valid in blast)+
qed

text \<open>The sample file, with an encoding that stands for JSON: a namespace by its name.\<close>

lemma ingest_then_validate_witness:
  "\<exists>encode decode dir err line metas meta.
     runIngest sample_sorters encode (Inr sample_winmd) ''61.0'' \<lparr>if_out = ''metadata/win32'', if_namespace = [], if_verbose = False\<rparr> [] =
       Some (Inr (dir, err, line)) \<and> ReadAll decode dir = Inr metas \<and>
     meta \<in> set metas \<and> ns_Namespace meta = ''Foundation'' \<and> ''EVENT'' \<in> fst ` set (ns_Structs meta)"
proof -
  obtain ing where new: "NewIngester sample_winmd ''61.0'' = Some ing" "ingests sample_winmd (withDefaults no_options) ing"
    using sample_ok buildIndices_total [of sample_winmd "''61.0''" "withDefaults no_options"]
    by (auto simp: NewIngester_def NewWithOptions_def ingests_def file_ok_def)
  obtain metas ds where run: "Ingest sample_sorters ing = Some (Inr (metas, ds))" "ingest_result sample_winmd (withDefaults no_options) metas"
    using Ingest_spec [OF new(2) sample_sorts] by blast
  let ?encode = "\<lambda>meta. Inr (ns_Namespace meta)"
  let ?decode = "\<lambda>data. case find (\<lambda>m. ns_Namespace m @ [newline] = data) metas of None \<Rightarrow> Inl ''no namespace'' | Some m \<Rightarrow> Inr (stamped m)"
  have "find (\<lambda>m. ns_Namespace m @ [newline] = ns_Namespace meta @ [newline]) metas = Some meta" if "meta \<in> set metas" for meta
    by (rule find_unique [OF that refl])
      (use run(2) that in \<open>auto simp: ingest_result_def distinct_map dest: inj_onD\<close>)
  then have inverse: "json_inverse ?encode ?decode meta" if "meta \<in> set metas" for meta
    using that by (simp add: json_inverse_def stamped_def)
  let ?flags = "\<lparr>if_out = ''metadata/win32'', if_namespace = [], if_verbose = False\<rparr>"
  have flt: "parse_filter (if_namespace ?flags) = []" by code_simp
  have json: "\<forall>ing metas ds. NewIngester sample_winmd ''61.0'' = Some ing \<longrightarrow> Ingest sample_sorters ing = Some (Inr (metas, ds)) \<longrightarrow>
      (\<forall>meta \<in> set metas. json_inverse ?encode ?decode meta)"
    using inverse new(1) run(1) by simp
  have event: "''Struct'' \<in> set referable_kinds" "declares sample_winmd (withDefaults no_options) ''Struct'' ''Windows.Win32.Foundation'' ''EVENT''"
    "se_ApiName (withDefaults no_options) ''Windows.Win32.Foundation'' = ''Foundation''" by code_simp+
  have names: "entry_names meta ''Struct'' = fst ` set (ns_Structs meta)" for meta by (simp add: entry_names_def)
  obtain dir err line got where r: "runIngest sample_sorters ?encode (Inr sample_winmd) ''61.0'' ?flags [] = Some (Inr (dir, err, line))"
    "ReadAll ?decode dir = Inr got"
    and all: "\<forall>kind ns name. kind \<in> set referable_kinds \<longrightarrow> declares sample_winmd (withDefaults no_options) kind ns name \<longrightarrow>
       (\<exists>meta \<in> set got. ns_Namespace meta = se_ApiName (withDefaults no_options) ns \<and> name \<in> entry_names meta kind)"
  proof -
    from ingest_then_validate [OF sample_ok sample_sorts flt json] show thesis
      by (elim exE conjE) (rule that)
  qed
  from all event(1,2) obtain meta where "meta \<in> set got" "ns_Namespace meta = se_ApiName (withDefaults no_options) ''Windows.Win32.Foundation''"
    "''EVENT'' \<in> entry_names meta ''Struct''" by blast
  then have "meta \<in> set got \<and> ns_Namespace meta = ''Foundation'' \<and> ''EVENT'' \<in> fst ` set (ns_Structs meta)"
    by (simp only: event(3) names)
  with r show ?thesis by blast
qed

section \<open>What stays in the directory\<close>

text \<open>
  \<open>ingest\<close> only adds and replaces files: the file of a namespace that the metadata no longer has stays, and
  \<open>bindings\<close> loads it again.
\<close>

lemma runIngest_keeps:
  assumes "runIngest sorters encode (Inr file) version flags dir = Some (Inr (dir', err, line))"
    and "map_of dir (FileName ns) = Some content"
    and "\<And>ing metas ds meta. NewIngester file version = Some ing \<Longrightarrow> Ingest sorters ing = Some (Inr (metas, ds)) \<Longrightarrow>
      meta \<in> set metas \<Longrightarrow> ns_Namespace meta \<noteq> ns"
  shows "map_of dir' (FileName ns) = Some content"
proof -
  have keeps: "write_all encode metas d = Inr d' \<Longrightarrow> map_of d' (FileName ns) = map_of d (FileName ns)"
    if "\<And>meta. meta \<in> set metas \<Longrightarrow> ns_Namespace meta \<noteq> ns" for metas d d'
    using that
  proof (induction metas arbitrary: d)
    case (Cons meta metas)
    from Cons.prems(1) obtain d1 where d1: "Write encode meta d = Inr d1" "write_all encode metas d1 = Inr d'" by (auto split: sum.splits)
    have "ns_Namespace meta \<noteq> ns" by (rule Cons.prems(2)) simp
    then have "map_of d1 (FileName ns) = map_of d (FileName ns)"
      using d1(1) by (auto simp: Write_def Let_def update_conv FileName_inject split: sum.splits)
    moreover have "map_of d' (FileName ns) = map_of d1 (FileName ns)"
      by (rule Cons.IH [OF d1(2)]) (rule Cons.prems(2) [OF list.set_intros(2)])
    ultimately show ?case by simp
  qed simp
  from assms(1) obtain ing metas ds where run: "NewIngester file version = Some ing" "Ingest sorters ing = Some (Inr (metas, ds))"
    and w: "write_all encode (filter (selects (parse_filter (if_namespace flags))) metas) dir = Inr dir'"
    by (auto simp: runIngest_def Let_def split: option.splits sum.splits)
  have "map_of dir' (FileName ns) = map_of dir (FileName ns)"
    by (rule keeps [OF _ w]) (use assms(3) [OF run] in simp)
  with assms(2) show ?thesis by simp
qed

section \<open>Downloads\<close>

text \<open>A second download with the same arguments finds the file up to date, if the record names the file and the version.\<close>

lemma runFetchMetadata_twice:
  assumes "runFetchMetadata client version False dir = Inr (dir', out)"
    and "\<And>target content r. nu_Fetch client nugetPackage nugetPackageDisplay target winmdFileName = Inr (content, r) \<Longrightarrow>
      pv_File r = winmdFileName \<and> pv_Version r = target"
  shows "\<exists>target. runFetchMetadata client version False dir' = Inr (dir', [''up-to-date '' @ target])"
proof -
  from assms(1) obtain target where target: "(if version = [] then nu_LatestVersion client nugetPackage else Inr version) = Inr target"
    by (auto simp: runFetchMetadata_def split: sum.splits)
  have "up_to_date False target dir'"
  proof (cases "up_to_date False target dir")
    case True
    with assms(1) target show ?thesis by (auto simp: runFetchMetadata_def)
  next
    case False
    with assms(1) target obtain content r where
      f: "nu_Fetch client nugetPackage nugetPackageDisplay target winmdFileName = Inr (content, r)"
      and d: "dir' = \<lparr>wd_winmd = Some content, wd_records = Some [r]\<rparr>"
      by (auto simp: runFetchMetadata_def split: sum.splits)
    from assms(2) [OF f] show ?thesis by (simp add: d up_to_date_def currentProvenance_def)
  qed
  then show ?thesis using target by (simp add: runFetchMetadata_def)
qed

text \<open>
  A download leaves one record, that of the file it fetched: the records of other files in the directory are
  gone, although the lookups search the list by file name.
\<close>

lemma runFetchMetadata_drops:
  assumes "runFetchMetadata client version force dir = Inr (dir', out)" "dir' \<noteq> dir"
  shows "\<exists>r. wd_records dir' = Some [r]"
  using assms by (auto simp: runFetchMetadata_def split: sum.splits if_splits)

end
