(* ===== verification/LayoutTotal.thy ===== *)
theory LayoutTotal
  imports ConstInit
begin

text \<open>
  The layout engine of \<open>sizes.go\<close> and \<open>constantBase\<close> of \<open>types.go\<close> return: when no structure or typedef
  contains itself by value, one lookup for each of them is enough fuel.
\<close>

section \<open>What a type contains by value\<close>

function value_refs :: "type_ref \<Rightarrow> type_ref list" where
  "value_refs ref =
     (if ref_Kind ref = ''PointerTo'' then []
      else ref # (case ref_Child ref of None \<Rightarrow> [] | Some c \<Rightarrow> value_refs c))"
  by pat_completeness auto
termination by (relation "measure size") (auto dest: size_ref_Child_less)

declare value_refs.simps [simp del]

lemma value_refs_self: "ref_Kind ref \<noteq> ''PointerTo'' \<Longrightarrow> ref \<in> set (value_refs ref)"
  by (subst value_refs.simps) simp

lemma value_refs_child:
  "ref_Kind ref \<noteq> ''PointerTo'' \<Longrightarrow> ref_Child ref = Some c \<Longrightarrow> set (value_refs c) \<subseteq> set (value_refs ref)"
  by (subst value_refs.simps [of ref]) auto

lemma value_refs_walk: "set (value_refs ref) \<subseteq> set (walk_ref ref)"
proof (induction ref rule: value_refs.induct)
  case (1 ref)
  show ?case
  proof (cases "ref_Kind ref = ''PointerTo''")
    case True
    then show ?thesis by (simp add: value_refs.simps [of ref])
  next
    case False
    with 1 show ?thesis
      unfolding value_refs.simps [of ref] walk_ref.simps [of ref] by (cases "ref_Child ref") auto
  qed
qed

text \<open>A structure contains its fields, its nested types and those of its variants.\<close>

fun struct_value_refs :: "struct_def \<Rightarrow> type_ref list" where
  "struct_value_refs (StructDef fs u p sz nested av ssf variants) =
     concat (map (\<lambda>f. value_refs (sf_Type f)) fs) @
     concat (map (\<lambda>(n, s). struct_value_refs s) nested) @
     concat (map struct_value_refs variants)"

lemma struct_value_refs_iff:
  "x \<in> set (struct_value_refs d) \<longleftrightarrow>
     (\<exists>f \<in> set (st_Fields d). x \<in> set (value_refs (sf_Type f))) \<or>
     (\<exists>(n, s) \<in> set (st_NestedTypes d). x \<in> set (struct_value_refs s)) \<or>
     (\<exists>s \<in> set (st_ArchVariants d). x \<in> set (struct_value_refs s))"
  by (cases d) auto

definition nested_value_refs :: "struct_def gomap \<Rightarrow> type_ref list" where
  "nested_value_refs nested = concat (map (struct_value_refs \<circ> snd) nested)"

text \<open>The entries of the registry, typedefs and structures, and which contain which.\<close>

definition value_key :: "type_ref \<Rightarrow> bool \<times> string" where
  "value_key ref = (ref_TargetKind ref = ''Typedef'', qual_key (ref_Api ref) (ref_Name ref))"

definition value_keys :: "registry \<Rightarrow> (bool \<times> string) list" where
  "value_keys reg = map (Pair True \<circ> fst) (reg_TypedefIndex reg) @ map (Pair False \<circ> fst) (reg_StructIndex reg)"

definition value_uses :: "registry \<Rightarrow> ((bool \<times> string) \<times> (bool \<times> string)) set" where
  "value_uses reg = {(k', k). k' \<in> set (value_keys reg) \<and> (\<exists>x. k' = value_key x \<and>
     ((\<exists>n td. k = (True, n) \<and> map_of (reg_TypedefIndex reg) n = Some td \<and> x \<in> set (value_refs (td_Underlying td))) \<or>
      (\<exists>n d. k = (False, n) \<and> map_of (reg_StructIndex reg) n = Some d \<and> x \<in> set (struct_value_refs d))))}"

text \<open>References with an element type for each array, whose entries rank below a bound.\<close>

definition contained_ok :: "registry \<Rightarrow> nat \<Rightarrow> type_ref list \<Rightarrow> bool" where
  "contained_ok reg n xs \<longleftrightarrow> (\<forall>x \<in> set xs. (ref_Kind x = ''Array'' \<longrightarrow> ref_Child x \<noteq> None) \<and>
     (value_key x \<in> set (value_keys reg) \<longrightarrow> relation_rank (value_uses reg) (value_key x) < n))"

definition arrays_ok :: "type_ref list \<Rightarrow> bool" where
  "arrays_ok xs \<longleftrightarrow> (\<forall>x \<in> set xs. ref_Kind x = ''Array'' \<longrightarrow> ref_Child x \<noteq> None)"

definition values_founded :: "registry \<Rightarrow> bool" where
  "values_founded reg \<longleftrightarrow> acyclic (value_uses reg) \<and>
     (\<forall>k td. map_of (reg_TypedefIndex reg) k = Some td \<longrightarrow> arrays_ok (value_refs (td_Underlying td))) \<and>
     (\<forall>k d. map_of (reg_StructIndex reg) k = Some d \<longrightarrow> arrays_ok (struct_value_refs d))"

lemma contained_ok_subset: "contained_ok reg n xs \<Longrightarrow> set ys \<subseteq> set xs \<Longrightarrow> contained_ok reg n ys"
  unfolding contained_ok_def by blast

lemma contained_ok_append: "contained_ok reg n (xs @ ys) \<longleftrightarrow> contained_ok reg n xs \<and> contained_ok reg n ys"
  unfolding contained_ok_def by auto

lemma contained_ok_bound: "arrays_ok xs \<Longrightarrow> contained_ok reg (layout_bound reg) xs"
proof -
  have "Domain (value_uses reg) \<subseteq> set (value_keys reg)" by (auto simp: value_uses_def)
  from relation_rank_bound [OF this] have "relation_rank (value_uses reg) k \<le> length (value_keys reg)" for k
    using card_length [of "value_keys reg"] by (meson List.finite_set le_trans)
  then have "relation_rank (value_uses reg) k < layout_bound reg" for k
    by (simp add: layout_bound_def value_keys_def less_Suc_eq_le)
  then show "arrays_ok xs \<Longrightarrow> ?thesis" by (simp add: contained_ok_def arrays_ok_def)
qed

lemma value_uses_less:
  assumes "values_founded reg" "(k', k) \<in> value_uses reg"
  shows "relation_rank (value_uses reg) k' < relation_rank (value_uses reg) k"
proof (rule relation_rank_less [OF _ _ _ assms(2)])
  show "Domain (value_uses reg) \<subseteq> set (value_keys reg)" by (auto simp: value_uses_def)
qed (use assms(1) in \<open>simp_all add: values_founded_def\<close>)

text \<open>Following an entry goes down one rank.\<close>

lemma contained_ok_step:
  assumes "values_founded reg" "contained_ok reg n xs" "x \<in> set xs" "value_key x = k" "k \<in> set (value_keys reg)"
    and "arrays_ok ys" "\<And>y. y \<in> set ys \<Longrightarrow> value_key y \<in> set (value_keys reg) \<Longrightarrow> (value_key y, k) \<in> value_uses reg"
  shows "\<exists>m. n = Suc m \<and> contained_ok reg m ys"
proof -
  have "relation_rank (value_uses reg) k < n" using assms(2-5) unfolding contained_ok_def by blast
  then obtain m where m: "n = Suc m" "relation_rank (value_uses reg) k \<le> m" by (cases n) auto
  have "relation_rank (value_uses reg) (value_key y) < m" if "y \<in> set ys" "value_key y \<in> set (value_keys reg)" for y
    using value_uses_less [OF assms(1) assms(7) [OF that]] m(2) by linarith
  with assms(6) have "contained_ok reg m ys" unfolding contained_ok_def arrays_ok_def by blast
  with m(1) show ?thesis by blast
qed

lemma contained_ok_typedef:
  assumes "values_founded reg" "contained_ok reg n xs" "x \<in> set xs" "ref_TargetKind x = ''Typedef''"
    and "Typedef reg (ref_Api x) (ref_Name x) = Some td"
  shows "\<exists>m. n = Suc m \<and> contained_ok reg m (value_refs (td_Underlying td))"
proof -
  let ?n = "qual_key (ref_Api x) (ref_Name x)"
  have td: "map_of (reg_TypedefIndex reg) ?n = Some td" using assms(5) by (simp add: Typedef_def)
  show ?thesis
  proof (rule contained_ok_step [OF assms(1-3), of "(True, ?n)"])
    show "value_key x = (True, ?n)" using assms(4) by (simp add: value_key_def)
    show "(True, ?n) \<in> set (value_keys reg)" using map_of_SomeD [OF td] by (force simp: value_keys_def)
    show "arrays_ok (value_refs (td_Underlying td))" using assms(1) td unfolding values_founded_def by blast
    show "(value_key y, True, ?n) \<in> value_uses reg" if "y \<in> set (value_refs (td_Underlying td))" "value_key y \<in> set (value_keys reg)" for y
      using that td unfolding value_uses_def by auto
  qed
qed

lemma contained_ok_struct:
  assumes "values_founded reg" "contained_ok reg n xs" "x \<in> set xs" "ref_TargetKind x \<noteq> ''Typedef''"
    and "map_of (reg_StructIndex reg) (qual_key (ref_Api x) (ref_Name x)) = Some d"
  shows "\<exists>m. n = Suc m \<and> contained_ok reg m (struct_value_refs d)"
proof -
  let ?n = "qual_key (ref_Api x) (ref_Name x)"
  show ?thesis
  proof (rule contained_ok_step [OF assms(1-3), of "(False, ?n)"])
    show "value_key x = (False, ?n)" using assms(4) by (simp add: value_key_def)
    show "(False, ?n) \<in> set (value_keys reg)" using map_of_SomeD [OF assms(5)] by (force simp: value_keys_def)
    show "arrays_ok (struct_value_refs d)" using assms(1,5) unfolding values_founded_def by blast
    show "(value_key y, False, ?n) \<in> value_uses reg" if "y \<in> set (struct_value_refs d)" "value_key y \<in> set (value_keys reg)" for y
      using that assms(5) unfolding value_uses_def by auto
  qed
qed

lemma struct_value_refs_parts:
  "f \<in> set (st_Fields d) \<Longrightarrow> set (value_refs (sf_Type f)) \<subseteq> set (struct_value_refs d)"
  "set (nested_value_refs (st_NestedTypes d)) \<subseteq> set (struct_value_refs d)"
  "pickVariant d arch = Some (i, s) \<Longrightarrow> set (struct_value_refs s) \<subseteq> set (struct_value_refs d)"
proof -
  note iff = struct_value_refs_iff [of _ d, THEN iffD2]
  show "f \<in> set (st_Fields d) \<Longrightarrow> set (value_refs (sf_Type f)) \<subseteq> set (struct_value_refs d)"
    using iff by blast
  show "set (nested_value_refs (st_NestedTypes d)) \<subseteq> set (struct_value_refs d)"
  proof
    fix x assume "x \<in> set (nested_value_refs (st_NestedTypes d))"
    then obtain e where "e \<in> set (st_NestedTypes d)" "x \<in> set (struct_value_refs (snd e))"
      by (auto simp: nested_value_refs_def)
    then show "x \<in> set (struct_value_refs d)" by (intro iff disjI2 disjI1 bexI [of _ e]) (simp_all add: split_def)
  qed
  assume "pickVariant d arch = Some (i, s)"
  from pickVariant_cases [OF this] show "set (struct_value_refs s) \<subseteq> set (struct_value_refs d)"
    using iff by blast
qed

lemma nested_value_refs_lookup: "map_of nested k = Some d \<Longrightarrow> set (struct_value_refs d) \<subseteq> set (nested_value_refs nested)"
  by (auto simp: nested_value_refs_def dest!: map_of_SomeD intro: bexI [of _ "(k, d)"])

section \<open>The layout engine returns\<close>

lemma layout_returns:
  "values_founded reg \<Longrightarrow> contained_ok reg n (value_refs ref @ nested_value_refs nested) \<Longrightarrow> layoutOf n reg arch ref nested \<noteq> None"
  "values_founded reg \<Longrightarrow> ref_Kind ref = ''ApiRef'' \<Longrightarrow> contained_ok reg n (value_refs ref @ nested_value_refs nested) \<Longrightarrow>
     layoutOfApiRef n reg arch ref nested \<noteq> None"
  "values_founded reg \<Longrightarrow> contained_ok reg n (struct_value_refs d) \<Longrightarrow> layoutOfStruct n reg arch d \<noteq> None"
  "values_founded reg \<Longrightarrow> contained_ok reg n (concat (map (value_refs \<circ> sf_Type) fs) @ nested_value_refs (st_NestedTypes d)) \<Longrightarrow>
     place_fields n reg arch d clampPacking fs r \<noteq> None"
proof (induction n reg arch ref nested and n reg arch ref nested and n reg arch d and n reg arch d clampPacking fs r
    rule: layoutOf_layoutOfApiRef_layoutOfStruct_place_fields.induct)
  case (1 n reg arch ref nested)
  have self: "ref_Kind ref \<noteq> ''PointerTo'' \<Longrightarrow> ref \<in> set (value_refs ref @ nested_value_refs nested)" using value_refs_self by simp
  show ?case
  proof (cases "ref_Kind ref = ''Array''")
    case True
    with self "1.prems"(2) obtain c where c: "ref_Child ref = Some c" by (auto simp: contained_ok_def)
    have "contained_ok reg n (value_refs c @ nested_value_refs nested)"
      by (rule contained_ok_subset [OF "1.prems"(2)]) (use value_refs_child [OF _ c] True in auto)
    with "1.IH"(1) True c "1.prems"(1) show ?thesis by (simp add: layoutOf.simps [of n reg arch ref nested])
  next
    case False
    with 1 show ?thesis by (simp add: layoutOf.simps [of n reg arch ref nested])
  qed
next
  case (2 n reg arch ref nested)
  have self: "ref \<in> set (value_refs ref @ nested_value_refs nested)" using value_refs_self [of ref] "2.prems"(2) by simp
  show ?case
  proof (cases "ref_Api ref = []")
    case True
    have "layoutOfStruct n reg arch d \<noteq> None" if d: "map_of nested (ref_Name ref) = Some d" for d
      by (rule "2.IH"(1) [OF True d "2.prems"(1)], rule contained_ok_subset [OF "2.prems"(3)]) (use nested_value_refs_lookup [OF d] in auto)
    with True show ?thesis by (auto simp: layoutOfApiRef.simps [of n reg arch ref nested] split: option.split)
  next
    case api: False
    show ?thesis
    proof (cases "ref_TargetKind ref = ''Typedef''")
      case True
      have "\<exists>m. n = Suc m \<and> layoutOf m reg arch (td_Underlying td) [] \<noteq> None"
        if td: "Typedef reg (ref_Api ref) (ref_Name ref) = Some td" for td
      proof -
        from contained_ok_typedef [OF "2.prems"(1,3) self True td] obtain m where
          m: "n = Suc m" "contained_ok reg m (value_refs (td_Underlying td))" by blast
        have "layoutOf m reg arch (td_Underlying td) [] \<noteq> None"
          by (rule "2.IH"(2) [OF api _ True td m(1) "2.prems"(1)]) (use m(2) True in \<open>simp_all add: nested_value_refs_def\<close>)
        with m(1) show ?thesis by blast
      qed
      with True api show ?thesis
        by (fastforce simp: layoutOfApiRef.simps [of n reg arch ref nested] split: option.split)
    next
      case td: False
      show ?thesis
      proof (cases "ref_TargetKind ref = ''Struct'' \<or> ref_TargetKind ref = ''Union''")
        case True
        have "\<exists>m. n = Suc m \<and> layoutOfStruct m reg arch s \<noteq> None"
          if d: "map_of (reg_StructIndex reg) (qual_key (ref_Api ref) (ref_Name ref)) = Some d"
            and s: "pickVariant d (currentLayoutArch arch) = Some (i, s)" for d i s
        proof -
          from contained_ok_struct [OF "2.prems"(1,3) self td d] obtain m where m: "n = Suc m" "contained_ok reg m (struct_value_refs d)" by blast
          have "contained_ok reg m (struct_value_refs s)" by (rule contained_ok_subset [OF m(2) struct_value_refs_parts(3) [OF s]])
          then have "layoutOfStruct m reg arch s \<noteq> None"
            by (intro "2.IH"(3) [OF api _ td _ True d s refl m(1) "2.prems"(1)]) (use True in auto)
          with m(1) show ?thesis by blast
        qed
        with True api show ?thesis
          by (fastforce simp: layoutOfApiRef.simps [of n reg arch ref nested] Let_def split: option.split)
      next
        case False
        with td api show ?thesis by (simp add: layoutOfApiRef.simps [of n reg arch ref nested] Let_def)
      qed
    qed
  qed
next
  case (3 n reg arch d)
  have "contained_ok reg n (concat (map (value_refs \<circ> sf_Type) (st_Fields d)) @ nested_value_refs (st_NestedTypes d))"
    by (rule contained_ok_subset [OF "3.prems"(2)]) (use struct_value_refs_parts(1,2) in fastforce)
  with "3.IH" "3.prems"(1) show ?case by (simp add: layoutOfStruct.simps [of n reg arch d] comp_def)
next
  case (4 n reg arch d clampPacking r)
  then show ?case by simp
next
  case (5 n reg arch d clampPacking f fs r)
  have "contained_ok reg n (value_refs (sf_Type f) @ nested_value_refs (st_NestedTypes d))"
    "contained_ok reg n (concat (map (value_refs \<circ> sf_Type) fs) @ nested_value_refs (st_NestedTypes d))"
    by (rule contained_ok_subset [OF "5.prems"(2)]; auto)+
  with "5.IH" "5.prems"(1) show ?case by (auto simp: place_fields.simps(2) [of n reg arch d clampPacking f fs r] comp_def split: option.split)
qed

text \<open>The entry points of the builders, with their fuel.\<close>

lemma layout_entry_points:
  assumes "values_founded (g_registry g)"
  shows "arrays_ok (value_refs ref) \<Longrightarrow> layout_of_ref ref g \<noteq> None"
    "arrays_ok (value_refs ref) \<Longrightarrow> blob_type_of ref g \<noteq> None"
    "arrays_ok (struct_value_refs d) \<Longrightarrow> struct_layout_of d clampPacking g \<noteq> None"
    "arrays_ok (struct_value_refs d) \<Longrightarrow> opaqueBlobFields d name what g \<noteq> None"
proof -
  have ref: "layoutOf (layout_bound (g_registry g)) (g_registry g) arch ref [] \<noteq> None" if "arrays_ok (value_refs ref)" for arch
    by (rule layout_returns(1) [OF assms]) (use that contained_ok_bound in \<open>simp add: nested_value_refs_def\<close>)
  then show "arrays_ok (value_refs ref) \<Longrightarrow> layout_of_ref ref g \<noteq> None" "arrays_ok (value_refs ref) \<Longrightarrow> blob_type_of ref g \<noteq> None"
    by (simp_all add: layout_of_ref_def blob_type_of_def layoutBlobType_def)
  assume "arrays_ok (struct_value_refs d)"
  then have d: "contained_ok (g_registry g) (layout_bound (g_registry g)) (struct_value_refs d)" by (rule contained_ok_bound)
  from layout_returns(3) [OF assms this, of "g_layoutArch g"] show "opaqueBlobFields d name what g \<noteq> None"
    by (cases "layoutOfStruct (layout_bound (g_registry g)) (g_registry g) (g_layoutArch g) d") (simp_all add: opaqueBlobFields_def)
  have "contained_ok (g_registry g) (layout_bound (g_registry g)) (concat (map (value_refs \<circ> sf_Type) (st_Fields d)) @ nested_value_refs (st_NestedTypes d))"
    by (rule contained_ok_subset [OF d]) (use struct_value_refs_parts(1,2) in fastforce)
  from layout_returns(4) [OF assms this] show "struct_layout_of d clampPacking g \<noteq> None"
    by (simp add: struct_layout_of_def structLayoutOf_def)
qed

section \<open>The base of a constant\<close>

lemma constantBase_returns:
  "acyclic (typedef_uses (reg_TypedefIndex (mp_Registry m))) \<Longrightarrow> ranked_below m n ref \<Longrightarrow>
     constantBase n (mp_Registry m) ref \<noteq> None"
proof (induction n arbitrary: ref)
  case (Suc n)
  show ?case
  proof (cases "Typedef (mp_Registry m) (ref_Api ref) (ref_Name ref)")
    case None
    then show ?thesis by (simp add: constantBase.simps [of _ _ ref])
  next
    case (Some td)
    from ranked_below_underlying [OF Suc.prems(1) Some Suc.prems(2)] have "ranked_below m n (td_Underlying td)" by blast
    from Suc.IH [OF Suc.prems(1) this] Some show ?thesis by (simp add: constantBase.simps [of _ _ ref])
  qed
next
  case 0
  have "Typedef (mp_Registry m) (ref_Api ref) (ref_Name ref) = None"
    using ranked_below_underlying [OF 0(1) _ 0(2)] by (cases "Typedef (mp_Registry m) (ref_Api ref) (ref_Name ref)") auto
  then show ?case by (simp add: constantBase.simps [of _ _ ref])
qed

lemma constant_base_returns:
  "acyclic (typedef_uses (reg_TypedefIndex (g_registry g))) \<Longrightarrow> constant_base_of ref g \<noteq> None"
  unfolding constant_base_of_def by (rule constantBase_returns [OF _ ranked_below_bound])

lemma resolve_type_returns:
  "acyclic (typedef_uses (reg_TypedefIndex (g_registry g))) \<Longrightarrow> resolve_type ref ctx g \<noteq> None"
  using GoType_returns_aux(1) [OF _ ranked_below_bound] by (auto simp: resolve_type_def split_def)

end
