(* ===== verification/Templates.thy ===== *)
theory Templates
  imports View
begin

text \<open>
  The templates of \<open>internal/codegen/emit/raw/render\<close>: \<open>render.go\<close> and the texts of \<open>templates/*.tmpl\<close>, from a
  render model to Go source. A trim marker of a template removes the line end next to it; what is left of
  each template is written here line by line. Executing a template on a model of its own type cannot fail:
  every field it names exists, \<open>join\<close> gets lists of strings and \<open>eq\<close> two integers.
\<close>

definition nl :: string where "nl = [CHR 0x0A]"
definition tab :: string where "tab = [CHR 0x09]"

text \<open>The long dash of a comment, in UTF-8.\<close>

definition long_dash :: string where "long_dash = [CHR 0xE2, CHR 0x80, CHR 0x94]"

text \<open>Lines of a body, each after a line end and a tab, and a comment line that is left out when its text is empty.\<close>

definition indented :: "string list \<Rightarrow> string" where
  "indented lines = concat (map (\<lambda>l. nl @ tab @ l) lines)"

definition optional_line :: "string \<Rightarrow> string \<Rightarrow> string" where
  "optional_line text line = (if text = [] then [] else line @ nl)"

definition doc_line :: "string \<Rightarrow> string \<Rightarrow> string" where
  "doc_line typeName url = optional_line url (''// '' @ typeName @ '': '' @ url)"

section \<open>Functions (functions.tmpl)\<close>

definition dll_text :: "dll_model list \<Rightarrow> string" where
  "dll_text ds =
     ''var ('' @ indented (map (\<lambda>d. dll_VarName d @ '' = win32.NewDLL('' @ [CHR 0x22] @ dll_FileName d @ [CHR 0x22] @ '')'') ds) @ nl @ '')'' @ nl @ nl @
     ''var ('' @ indented (concat (map (\<lambda>d. map (\<lambda>p. prm_VarName p @ '' = '' @ dll_VarName d @ ''.NewProc('' @ [CHR 0x22] @ prm_ExportName p @ [CHR 0x22] @ '')'') (dll_Procs d)) ds)) @ nl @ '')'' @ nl @ nl"

definition procs_text :: "proc_model list \<Rightarrow> string" where
  "procs_text ps =
     ''// Procs exposes this package's lazily resolved exports for availability'' @ nl @
     ''// probing: Procs.<Function>.Find() reports nil, or the *win32.ProcError a'' @ nl @
     ''// call to <Function> would panic with on this system (an export missing from'' @ nl @
     ''// this Windows build, or a DLL that is not installed).'' @ nl @
     ''var Procs = struct {'' @ indented (map (\<lambda>p. prm_GoName p @ '' *win32.Proc'') ps) @ nl @ ''}{'' @
     indented (map (\<lambda>p. prm_GoName p @ '': '' @ prm_VarName p @ '','') ps) @ nl @ ''}'' @ nl @ nl"

text \<open>The values before the status, each with its comma.\<close>

definition leading :: "string list \<Rightarrow> string" where
  "leading vals = concat (map (\<lambda>v. v @ '', '') vals)"

text \<open>The statements of a body after its preamble, for each return shape: \<open>call\<close> dispatches, \<open>ret\<close> converts.\<close>

fun function_body :: "return_kind \<Rightarrow> string \<Rightarrow> string \<Rightarrow> string list \<Rightarrow> string list \<Rightarrow> string list" where
  "function_body RetVoid call ret checks vals = [call]"
| "function_body RetBoolErr call ret checks vals =
     [''r1, _, e1 := '' @ call, ''if r1 == 0 {'', tab @ ''return win32.LastError(e1)'', ''}'', ''return nil'']"
| "function_body RetValErr call ret checks vals =
     [''r1, _, e1 := '' @ call, ''ret := '' @ ret, ''if '' @ join_with '' || '' checks @ '' {'',
      tab @ ''return ret, win32.LastError(e1)'', ''}'', ''return ret, nil'']"
| "function_body RetVal call ret checks vals = [''r1, _, _ := '' @ call, ''return '' @ ret]"
| "function_body RetValLast call ret checks vals =
     [''r1, _, e1 := '' @ call, ''if e1 != 0 {'', tab @ ''return '' @ ret @ '', e1'', ''}'', ''return '' @ ret @ '', nil'']"
| "function_body RetHResultErr call ret checks vals = [''r1, _, _ := '' @ call, ''return win32.ErrIfFailed(int32(r1))'']"
| "function_body RetBoolValue call ret checks vals = [''r1, _, _ := '' @ call, ''return r1 != 0'']"
| "function_body RetRetValHResult call ret checks vals =
     [''r1, _, _ := '' @ call, ''return '' @ leading vals @ ''win32.ErrIfFailed(int32(r1))'']"
| "function_body RetRetValBoolErr call ret checks vals =
     [''r1, _, e1 := '' @ call, ''if r1 == 0 {'', tab @ ''return '' @ leading vals @ ''win32.LastError(e1)'', ''}'',
      ''return '' @ leading vals @ ''nil'']"
| "function_body RetRetValVoid call ret checks vals = [call, ''return '' @ join_with '', '' vals]"
| "function_body RetHResultValueErr call ret checks vals =
     [''r1, _, _ := '' @ call, ''return win32.HRESULT(r1), win32.ErrIfFailed(int32(r1))'']"
| "function_body RetInline call ret checks vals = [''return '' @ ret]"
| "function_body RetStructOut call ret checks vals = [call, ''return '' @ ret]"
| "function_body RetStructOutLast call ret checks vals =
     [''_, _, e1 := '' @ call, ''if e1 != 0 {'', tab @ ''return '' @ ret @ '', e1'', ''}'', ''return '' @ ret @ '', nil'']"
| "function_body RetFloat call ret checks vals = [''r := '' @ call, ''return '' @ ret]"

definition function_text :: "function_model \<Rightarrow> string" where
  "function_text m =
     (if fnm_SpecDecl m = [] then [] else fnm_SpecDecl m @ nl @ nl) @
     concat (map (\<lambda>l. ''// '' @ l @ nl) (fnm_CommentLines m)) @
     ''func '' @ fnm_GoName m @ ''('' @ fnm_ParamStr m @ '')'' @
     (if fnm_ReturnSig m = [] then [] else '' '' @ fnm_ReturnSig m) @ '' {'' @
     indented (fnm_Preamble m) @
     indented (function_body (fnm_ReturnKind m) (fnm_CallExpr m) (fnm_RetExpr m) (fnm_FailureChecks m) (fnm_ReturnValues m)) @
     nl @ ''}'' @ nl @ nl"

section \<open>Interfaces (interfaces.tmpl)\<close>

text \<open>The shapes the template does not list fall to that of a plain value.\<close>

fun method_body :: "return_kind \<Rightarrow> string \<Rightarrow> string \<Rightarrow> string list \<Rightarrow> string list" where
  "method_body RetVoid call ret vals = [call]"
| "method_body RetHResultErr call ret vals = [''r1, _, _ := '' @ call, ''return win32.ErrIfFailed(int32(r1))'']"
| "method_body RetRetValHResult call ret vals =
     [''r1, _, _ := '' @ call, ''return '' @ leading vals @ ''win32.ErrIfFailed(int32(r1))'']"
| "method_body RetHResultValueErr call ret vals =
     [''r1, _, _ := '' @ call, ''return win32.HRESULT(r1), win32.ErrIfFailed(int32(r1))'']"
| "method_body RetStructOut call ret vals = [call, ''return '' @ ret]"
| "method_body RetFloat call ret vals = [''r := '' @ call, ''return '' @ ret]"
| "method_body _ call ret vals = [''r1, _, _ := '' @ call, ''return '' @ ret]"

definition method_text :: "string \<Rightarrow> com_method_model \<Rightarrow> string" where
  "method_text typeName m =
     (if cmm_SpecDecl m = [] then [] else cmm_SpecDecl m @ nl @ nl) @
     concat (map (\<lambda>l. ''// '' @ l @ nl) (cmm_CommentLines m)) @
     ''func (self *'' @ typeName @ '') '' @ cmm_GoName m @ ''('' @ cmm_ParamStr m @ '')'' @
     (if cmm_ReturnSig m = [] then [] else '' '' @ cmm_ReturnSig m) @ '' {'' @
     indented (cmm_Preamble m) @
     indented (method_body (cmm_ReturnKind m) (cmm_CallExpr m) (cmm_RetExpr m) (cmm_ReturnValues m)) @
     nl @ ''}'' @ nl @ nl"

definition interface_type_text :: "interface_model \<Rightarrow> string" where
  "interface_type_text m =
     (let t = ifm_TypeName m; alias = ifm_AliasOf m in
      if alias \<noteq> [] then
        ''// '' @ t @ '' is the runtime's root COM shape ('' @ alias @ ''), which carries'' @ nl @
        ''// QueryInterface/AddRef/Release and the QueryInterface[T] / Cast[T] helpers.'' @ nl @
        ''type '' @ t @ '' = '' @ alias
      else
        ''type '' @ t @ '' struct {'' @ indented [if ifm_BaseType m = [] then ''LpVtbl *[1024]uintptr'' else ifm_BaseType m] @ nl @ ''}'')"

definition interface_text :: "interface_model \<Rightarrow> string" where
  "interface_text m =
     doc_line (ifm_TypeName m) (ifm_DocURL m) @
     optional_line (ifm_GUID m) (''// IID: '' @ ifm_GUID m) @
     optional_line (ifm_BaseNote m) (''// '' @ ifm_BaseNote m) @
     interface_type_text m @ nl @ nl @
     (if ifm_IIDVar m = [] then []
      else ''// '' @ ifm_IIDVar m @ '' is the interface identifier for '' @ ifm_TypeName m @ ''.'' @ nl @
        ''var '' @ ifm_IIDVar m @ '' = '' @ ifm_IIDLiteral m @ nl @ nl) @
     concat (map (method_text (ifm_TypeName m)) (ifm_Methods m))"

section \<open>Types (types.tmpl)\<close>

definition flags_body :: "enum_model \<Rightarrow> string list" where
  "flags_body m =
     [''var parts []string''] @
     concat (map (\<lambda>e. [''if e&'' @ emm_Name e @ '' != 0 {'',
         tab @ ''parts = append(parts, '' @ [CHR 0x22] @ emm_Name e @ [CHR 0x22] @ '')'', ''}''])
       (filter (\<lambda>e. \<not> emm_IsZero e) (enm_Members m))) @
     [''if len(parts) == 0 {'', tab @ ''return '' @ [CHR 0x22] @ ''0'' @ [CHR 0x22], ''}'',
      ''return strings.Join(parts, '' @ [CHR 0x22] @ ''|'' @ [CHR 0x22] @ '')'']"

definition switch_body :: "enum_model \<Rightarrow> string list" where
  "switch_body m =
     [''switch e {''] @
     concat (map (\<lambda>e. [''case '' @ emm_Name e @ '':'', tab @ ''return '' @ [CHR 0x22] @ emm_Name e @ [CHR 0x22]]) (enm_UniqueMembers m)) @
     [''default:'', tab @ ''return fmt.Sprintf('' @ [CHR 0x22] @ enm_TypeName m @ ''(%d)'' @ [CHR 0x22] @ '', '' @ enm_BaseType m @ ''(e))'', ''}'']"

definition enum_text :: "enum_model \<Rightarrow> string" where
  "enum_text m =
     (let t = enm_TypeName m in
      doc_line t (enm_DocURL m) @
      (if enm_IsFlags m then ''// Bitmask '' @ long_dash @ '' values may be combined with |.'' @ nl else []) @
      ''type '' @ t @ '' '' @ enm_BaseType m @ nl @ nl @
      (if enm_Members m = [] then []
       else ''const ('' @ indented (map (\<lambda>e. emm_Name e @ '' '' @ t @ '' = '' @ emm_Value e) (enm_Members m)) @ nl @ '')'' @ nl @ nl @
         ''// String returns the '' @ t @ '' constant's name, or its numeric form when'' @ nl @
         ''// the value is not a known constant.'' @ nl @
         ''func (e '' @ t @ '') String() string {'' @ indented (if enm_IsFlags m then flags_body m else switch_body m) @ nl @ ''}'' @ nl @ nl))"

definition struct_text :: "struct_model \<Rightarrow> string" where
  "struct_text m =
     (let t = stm_TypeName m in
      doc_line t (stm_DocURL m) @
      (if stm_IsUnionBlob m then
         ''// '' @ t @ '' is a C union, exposed as correctly sized and aligned backing'' @ nl @
         ''// storage; read or write a specific member through an unsafe.Pointer cast.'' @ nl else []) @
      (if stm_IsPackedBlob m then
         ''// '' @ t @ '' is a packed C struct (non-default field alignment), exposed as'' @ nl @
         ''// correctly sized and aligned opaque backing storage; read or write a specific'' @ nl @
         ''// field through an unsafe.Pointer cast.'' @ nl else []) @
      ''type '' @ t @ '' struct {'' @ indented (map (\<lambda>f. sfm_Name f @ '' '' @ sfm_GoType f) (stm_Fields m)) @ nl @ ''}'' @ nl @ nl)"

definition typedef_text :: "typedef_model \<Rightarrow> string" where
  "typedef_text m =
     doc_line (tdm_TypeName m) (tdm_DocURL m) @
     optional_line (tdm_FreeFunc m) (''// Release with '' @ tdm_FreeFunc m @ ''.'') @
     (if tdm_InvalidValues m = [] then [] else ''// Invalid values: '' @ join_with '', '' (tdm_InvalidValues m) @ ''.'' @ nl) @
     ''type '' @ tdm_TypeName m @ '' '' @ tdm_Backing m @ nl @ nl"

definition constant_text :: "constant_model \<Rightarrow> string" where
  "constant_text m =
     (if cnm_IsVar m then ''var '' else ''const '') @ cnm_Name m @ '' '' @ cnm_GoType m @ '' = '' @ cnm_Literal m @ nl"

definition delegate_text :: "delegate_model \<Rightarrow> string" where
  "delegate_text m =
     doc_line (dlm_TypeName m) (dlm_DocURL m) @
     ''// '' @ dlm_TypeName m @ '' is a callback pointer: create one with syscall.NewCallback'' @ nl @
     ''// using the shape '' @ dlm_Signature m @
     (if dlm_NativeReturn m = [] then []
      else '' (the native return type is'' @ nl @ ''// '' @ dlm_NativeReturn m @ ''; NewCallback requires a uintptr-sized result)'') @ ''.'' @
     (if dlm_HasFloat m then nl @
        ''// NewCallback cannot marshal this callback's floating-point parameters or'' @ nl @
        ''// return (golang/go#45300): only a natively implemented function pointer can'' @ nl @
        ''// be passed here.'' else []) @ nl @
     ''type '' @ dlm_TypeName m @ '' uintptr'' @ nl @ nl"

section \<open>What the emitted String methods compute\<close>

text \<open>
  The two bodies above as functions of the value of the enum, given the values of the constants: the names
  of the members that share a bit with it, and the \<open>switch\<close>. \<open>number\<close> is the text of the value.
\<close>

definition flags_String :: "(enum_member_model \<Rightarrow> int) \<Rightarrow> enum_model \<Rightarrow> int \<Rightarrow> string" where
  "flags_String val m e =
     (let parts = map emm_Name (filter (\<lambda>x. \<not> emm_IsZero x \<and> and e (val x) \<noteq> 0) (enm_Members m)) in
      if parts = [] then ''0'' else join_with ''|'' parts)"

definition switch_String :: "(enum_member_model \<Rightarrow> int) \<Rightarrow> enum_model \<Rightarrow> int \<Rightarrow> string" where
  "switch_String val m e =
     (case find (\<lambda>x. val x = e) (enm_UniqueMembers m) of
        Some x \<Rightarrow> emm_Name x
      | None \<Rightarrow> enm_TypeName m @ ''('' @ show_int e @ '')'')"

definition enum_String :: "(enum_member_model \<Rightarrow> int) \<Rightarrow> enum_model \<Rightarrow> int \<Rightarrow> string" where
  "enum_String val m e = (if enm_IsFlags m then flags_String val m e else switch_String val m e)"

end
