(* ===== verification/TemplateFacts.thy ===== *)
theory TemplateFacts
  imports Templates EmissionFacts InterfaceFacts
begin

text \<open>
  The templates in the run: where an error of \<open>EmitAll\<close> can come from, the two copies of the method and
  function bodies, and what the String method of a flags enum prints.
\<close>

section \<open>The errors of a run\<close>

definition template_renderers :: "(string \<Rightarrow> string + string) \<Rightarrow> renderers" where
  "template_renderers format =
     \<lparr>rd_Typedef = Inr \<circ> typedef_text, rd_Enum = Inr \<circ> enum_text, rd_Struct = Inr \<circ> struct_text,
      rd_Delegate = Inr \<circ> delegate_text, rd_Interface = Inr \<circ> interface_text, rd_Constant = Inr \<circ> constant_text,
      rd_Function = Inr \<circ> function_text, rd_DLL = Inr \<circ> dll_text, rd_Procs = Inr \<circ> procs_text, rd_format = format\<rparr>"

text \<open>The text that \<open>go/format\<close> gives for a source it rejects, as the run reports it for a package.\<close>

definition rejects :: "(string \<Rightarrow> string + string) \<Rightarrow> namespace_meta \<Rightarrow> string \<Rightarrow> bool" where
  "rejects format meta e \<longleftrightarrow> (\<exists>source m. format source = Inl m \<and>
     e = ''fileasm: generated '' @ PackageName (ns_Namespace meta) @ '' does not parse: '' @ m)"

definition fails_only :: "(string \<Rightarrow> bool) \<Rightarrow> emit_step \<Rightarrow> bool" where
  "fails_only P s \<longleftrightarrow> (\<forall>g e. s g = Some (Inl e) \<longrightarrow> P e)"

lemma fails_onlyD: "fails_only P s \<Longrightarrow> s g = Some (Inl e) \<Longrightarrow> P e"
  by (simp add: fails_only_def)

lemma emit_steps_fails_only:
  "(\<And>s. s \<in> set ss \<Longrightarrow> fails_only P s) \<Longrightarrow> fails_only P (emit_steps ss)"
proof (induction ss)
  case (Cons s ss)
  have "fails_only P s" "fails_only P (emit_steps ss)" using Cons by simp_all
  then show ?case by (auto simp: fails_only_def split: option.split_asm sum.split_asm)
qed (simp add: fails_only_def)

lemma render_all_Inr: "render_all (Inr \<circ> f) ms = Inr (concat (map f ms))"
  by (induction ms) simp_all

lemma writeFileTagged_rejects:
  assumes "writeFileTagged format dir name (PackageName (ns_Namespace meta)) imports body tag g = Inl e"
  shows "rejects format meta e"
  using assms by (auto simp: writeFileTagged_def Assemble_def rejects_def split: if_splits sum.splits)

lemma emit_tagged_fails:
  "rd_format rd = format \<Longrightarrow> fails_only (rejects format meta) (emit_tagged rd meta ending tag (Inr body))"
  by (auto simp: fails_only_def emit_tagged_def Let_def dest: writeFileTagged_rejects)

lemma emit_file_fails:
  assumes "rd_format rd = format" "\<And>g body g'. build g = Some (body, g') \<Longrightarrow> \<exists>b. body = Inr b"
  shows "fails_only (rejects format meta) (emit_file rd meta ending imports build)"
proof -
  have "rejects format meta e" if "emit_file rd meta ending imports build g = Some (Inl e)" for g e
  proof -
    from that obtain body g' where b: "build (with_imports imports g) = Some (body, g')"
      and e: "emit_tagged rd meta ending GeneratedBuildTag body g' = Some (Inl e)"
      by (auto simp: emit_file_def bind_eq_Some_conv)
    from assms(2) [OF b] obtain b where "body = Inr b" by blast
    with e emit_tagged_fails [OF assms(1)] fails_onlyD show ?thesis by blast
  qed
  then show ?thesis by (simp add: fails_only_def)
qed

lemma template_renderers_simps [simp]:
  "rd_Typedef (template_renderers f) = Inr \<circ> typedef_text" "rd_Enum (template_renderers f) = Inr \<circ> enum_text"
  "rd_Struct (template_renderers f) = Inr \<circ> struct_text" "rd_Delegate (template_renderers f) = Inr \<circ> delegate_text"
  "rd_Interface (template_renderers f) = Inr \<circ> interface_text" "rd_Constant (template_renderers f) = Inr \<circ> constant_text"
  "rd_Function (template_renderers f) = Inr \<circ> function_text" "rd_DLL (template_renderers f) = Inr \<circ> dll_text"
  "rd_Procs (template_renderers f) = Inr \<circ> procs_text" "rd_format (template_renderers f) = f"
  by (simp_all add: template_renderers_def)

lemma emitNamespace_fails:
  "fails_only (rejects format meta) (emitNamespace (template_renderers format) meta)"
proof -
  let ?rd = "template_renderers format" and ?ok = "fails_only (rejects format meta)"
  note one_file = emit_file_fails [where rd = ?rd and format = format and meta = meta, simplified]
  have arch: "?ok (arch_step_files ?rd meta)"
  proof -
    have "?ok (arch_file ?rd meta models imps arch)" for models imps arch
      using emit_tagged_fails [where rd = ?rd and format = format and meta = meta]
      by (auto simp: fails_only_def arch_file_def render_all_Inr Let_def)
    then have "?ok (emit_steps (map (arch_file ?rd meta models imps) emitArches))" for models imps
      by (intro emit_steps_fails_only) auto
    then show ?thesis unfolding fails_only_def by (auto simp: arch_step_files_def bind_eq_Some_conv)
  qed
  have types: "?ok (typedefs_step ?rd meta)" "?ok (enums_step ?rd meta)" "?ok (structs_step ?rd meta)"
    "?ok (delegates_step ?rd meta)" "?ok (interfaces_step ?rd meta)" "?ok (constants_step ?rd meta)"
    unfolding typedefs_step_def enums_step_def structs_step_def delegates_step_def interfaces_step_def constants_step_def
    by (rule one_file; auto simp: render_all_Inr bind_eq_Some_conv split: prod.splits)+
  have funcs: "?ok (functions_step ?rd meta)"
    unfolding functions_step_def
    by (rule one_file) (auto simp: render_all_Inr append_blocks_def opt_block_def bind_eq_Some_conv)
  have handles: "?ok (handles_step ?rd meta)"
    unfolding handles_step_def by (rule one_file) (auto simp: bind_eq_Some_conv)
  have doc: "?ok (doc_step meta)" by (simp add: fails_only_def doc_step_def Let_def)
  have "?ok (emit_steps [typedefs_step ?rd meta, enums_step ?rd meta, structs_step ?rd meta, arch_step_files ?rd meta,
      delegates_step ?rd meta, interfaces_step ?rd meta, constants_step ?rd meta, functions_step ?rd meta, handles_step ?rd meta, doc_step meta])"
    by (rule emit_steps_fails_only) (use arch types funcs handles doc in auto)
  then show ?thesis unfolding fails_only_def emitNamespace_def by blast
qed

definition not_loaded :: "string \<Rightarrow> string" where
  "not_loaded ns = ''referenced namespace '' @ ns @ '' not in loaded metadata (re-run ingest without a filter)''"

text \<open>
  With the templates a run can fail in two ways only: a requested or referenced namespace is not in the
  loaded metadata, or \<open>go/format\<close> rejects the source of a file, and the error then names the namespace and
  ends in the formatter's message. No template execution fails.
\<close>

theorem EmitAll_errors:
  assumes "EmitAll (template_renderers format) filters t g = Some (Inl e)"
  shows "(\<exists>ns. ns \<notin> fst ` set (reg_ByNamespace (g_registry g)) \<and> e = not_loaded ns) \<or>
    (\<exists>ns meta e'. map_of (reg_ByNamespace (g_registry g)) ns = Some meta \<and> rejects format meta e' \<and>
       e = ''emitting '' @ ns @ '': '' @ e')"
proof -
  have loop: "(\<exists>ns. ns \<notin> fst ` set byNamespace \<and> e = not_loaded ns) \<or>
      (\<exists>ns meta e'. map_of byNamespace ns = Some meta \<and> rejects format meta e' \<and> e = ''emitting '' @ ns @ '': '' @ e')"
    if "emit_loop (template_renderers format) byNamespace pending emitted g = Some (Inl e)" for byNamespace pending emitted g
    using that
  proof (induction "template_renderers format" byNamespace pending emitted g rule: emit_loop.induct)
    case (2 byNamespace ns pending emitted g)
    show ?case
    proof (cases "ns \<in> set emitted")
      case True
      with 2 show ?thesis by simp
    next
      case False
      show ?thesis
      proof (cases "map_of byNamespace ns")
        case None
        then have "ns \<notin> fst ` set byNamespace" by (simp add: map_of_eq_None_iff)
        with None False 2(3) show ?thesis by (auto simp: not_loaded_def)
      next
        case (Some meta)
        then obtain r where r: "emitNamespace (template_renderers format) meta g = Some r"
          using 2(3) False by (auto split: option.split_asm)
        show ?thesis
        proof (cases r)
          case (Inl e')
          then have "e = ''emitting '' @ ns @ '': '' @ e'" using 2(3) False Some r by simp
          moreover have "rejects format meta e'" using fails_onlyD [OF emitNamespace_fails] r Inl by blast
          ultimately show ?thesis using Some by blast
        next
          case (Inr g1)
          show ?thesis by (rule 2(2) [OF False Some r Inr]) (use 2(3) False Some r Inr in simp)
        qed
      qed
    qed
  qed simp
  from assms obtain g1 r where
    r: "emit_loop (template_renderers format) (reg_ByNamespace (g_registry g)) (run_roots filters g) [] (reset_run g1) = Some r"
    and g1: "computeSkippedTypes (g\<lparr>g_archStructs := computeArchStructs (g_registry g)\<rparr>) = Some g1"
    by (auto simp: EmitAll_def Let_def bind_eq_Some_conv)
  have "r = Inl e" using assms r g1 by (cases r) (auto simp: EmitAll_def Let_def)
  from loop [OF r [unfolded this]] show ?thesis .
qed

text \<open>A formatter that rejects everything, on the registry of \<open>EmissionFacts\<close>.\<close>

lemma EmitAll_errors_witness:
  "\<exists>meta e. map_of (reg_ByNamespace (g_registry leak_generator)) ''C'' = Some meta \<and> rejects (\<lambda>s. Inl ''no'') meta e \<and>
     EmitAll (template_renderers (\<lambda>s. Inl ''no'')) [''C''] empty_tree leak_generator = Some (Inl (''emitting C: '' @ e))"
proof -
  have run: "EmitAll (template_renderers (\<lambda>s. Inl ''no'')) [''C''] empty_tree leak_generator =
      Some (Inl ''emitting C: fileasm: generated c does not parse: no'')" by code_simp
  have first: "not_loaded ns \<noteq> ''emitting C: fileasm: generated c does not parse: no''" for ns by (simp add: not_loaded_def)
  have names: "set (map fst (reg_ByNamespace (g_registry leak_generator))) = {''A'', ''B'', ''C''}" by code_simp
  from EmitAll_errors [OF run] first obtain ns meta e where
    m: "map_of (reg_ByNamespace (g_registry leak_generator)) ns = Some meta" "rejects (\<lambda>s. Inl ''no'') meta e"
    and e: "''emitting C: fileasm: generated c does not parse: no'' = ''emitting '' @ ns @ '': '' @ e" by metis
  have "ns \<in> set (map fst (reg_ByNamespace (g_registry leak_generator)))"
    using m(1) by (auto dest: map_of_SomeD intro: image_eqI [of _ _ "(ns, meta)"])
  then have "ns = ''A'' \<or> ns = ''B'' \<or> ns = ''C''" unfolding names by simp
  with e have "ns = ''C''" by auto
  with m run e show ?thesis by auto
qed

section \<open>Methods and functions\<close>

text \<open>A method as a function whose name carries the receiver.\<close>

definition method_as_function :: "string \<Rightarrow> com_method_model \<Rightarrow> function_model" where
  "method_as_function typeName m = empty_function_model
     \<lparr>fnm_CommentLines := cmm_CommentLines m, fnm_GoName := ''(self *'' @ typeName @ '') '' @ cmm_GoName m,
      fnm_ParamStr := cmm_ParamStr m, fnm_ReturnSig := cmm_ReturnSig m, fnm_Preamble := cmm_Preamble m,
      fnm_ArgExprs := cmm_ArgExprs m, fnm_CallExpr := cmm_CallExpr m, fnm_SpecDecl := cmm_SpecDecl m,
      fnm_ReturnKind := cmm_ReturnKind m, fnm_RetExpr := cmm_RetExpr m, fnm_ReturnValues := cmm_ReturnValues m\<rparr>"

definition method_kinds :: "return_kind list" where
  "method_kinds = [RetVoid, RetVal, RetHResultErr, RetRetValHResult, RetHResultValueErr, RetStructOut, RetFloat]"

lemma method_text_function:
  "cmm_ReturnKind m \<in> set method_kinds \<Longrightarrow> method_text typeName m = function_text (method_as_function typeName m)"
  by (auto simp: method_kinds_def method_text_def function_text_def method_as_function_def empty_function_model_def)

lemma com_return_kind:
  assumes "com_return meta iface m r s model g = (Some (model', a, b, v), g')"
  shows "cmm_ReturnKind model' \<in> set method_kinds"
  using assms by (auto simp: com_return_def Let_def split_def method_kinds_def split: if_split_asm)

lemma finish_com_method_kind:
  assumes "finish_com_method iface m slot imps (model, a, b, v) g = (Some x, g')"
  shows "cmm_ReturnKind x = cmm_ReturnKind model"
  using assms by (auto simp: finish_com_method_def Let_def split: if_split_asm)

lemma buildComMethod_kind:
  "buildComMethod meta iface m slot g = Some (Some x, g') \<Longrightarrow> cmm_ReturnKind x \<in> set method_kinds"
  by (erule buildComMethodE) (metis com_return_kind finish_com_method_kind)

lemma rename_method_kind: "cmm_ReturnKind (rename_method goName used m) = cmm_ReturnKind m"
proof (induction goName used m rule: rename_method.induct)
  case (1 goName used m)
  have "cmm_ReturnKind (suffix_method goName m) = cmm_ReturnKind m" by (simp add: suffix_method_def Let_def)
  with 1 show ?case by (subst rename_method.simps) simp
qed

lemma com_methods_kinds:
  "com_methods meta name ms slot used g = Some (xs, g') \<Longrightarrow> \<forall>x \<in> set xs. cmm_ReturnKind x \<in> set method_kinds"
proof (induction ms arbitrary: slot used g xs g')
  case (Cons m ms)
  obtain y g1 where 1: "buildComMethod meta name m slot g = Some (y, g1)"
    using Cons.prems by (auto simp: bind_eq_Some_conv)
  show ?case
  proof (cases y)
    case None
    show ?thesis by (rule Cons.IH) (use Cons.prems 1 None in simp)
  next
    case (Some x0)
    then obtain ys g2 where "com_methods meta name ms (slot + 1) (cmm_GoName (rename_method (Export name) used x0) # used) g1 = Some (ys, g2)"
      "xs = rename_method (Export name) used x0 # ys"
      using Cons.prems 1 by (auto simp: Let_def bind_eq_Some_conv)
    with Cons.IH buildComMethod_kind [OF 1 [unfolded Some]] show ?thesis by (simp add: rename_method_kind)
  qed
qed simp

text \<open>
  \<^bold>\<open>C36\<close>: the two templates agree. Every method the interface builder emits has a return shape the interface
  template lists, and its text is that of the function template for a function named after the receiver and
  the method; no method falls to the last branch for a shape it does not know.
\<close>

theorem interface_methods_as_functions:
  assumes "buildInterface meta name goName c g = Some (Some model, g')"
  shows "concat (map (method_text (ifm_TypeName model)) (ifm_Methods model)) =
    concat (map (function_text \<circ> method_as_function (ifm_TypeName model)) (ifm_Methods model))"
proof -
  have none: "ifm_Methods (fst (interface_iid name goName c m g)) = ifm_Methods m" for m
    by (auto simp: interface_iid_def Let_def split_def split: sum.split)
  have "\<forall>x \<in> set (ifm_Methods model). cmm_ReturnKind x \<in> set method_kinds"
  proof (cases "ns_Namespace meta @ ''.'' @ name = runtimeRootInterface")
    case True
    with assms none show ?thesis
      by (auto simp: buildInterface_def Let_def split_def empty_interface_model_def split: if_splits bool.split_asm)
  next
    case False
    then obtain ms slot g1 g2 where "com_methods meta name (ci_Methods c) slot [] g1 = Some (ms, g2)" "ifm_Methods model = ms"
      using assms by (auto simp: buildInterface_def Let_def split_def bind_eq_Some_conv split: prod.split_asm bool.split_asm)
    with com_methods_kinds show ?thesis by blast
  qed
  then have "map (method_text (ifm_TypeName model)) (ifm_Methods model) =
      map (function_text \<circ> method_as_function (ifm_TypeName model)) (ifm_Methods model)"
    using method_text_function by (intro map_cong) auto
  then show ?thesis by (rule arg_cong)
qed

lemma interface_methods_as_functions_witness:
  "\<exists>model g'. buildInterface sample_namespace ''IStream'' (Export ''IStream'') overloads (New sample_registry [] []) = Some (Some model, g') \<and>
     map cmm_GoName (ifm_Methods model) = [''Get'', ''Get_''] \<and>
     concat (map (method_text (ifm_TypeName model)) (ifm_Methods model)) =
       concat (map (function_text \<circ> method_as_function (ifm_TypeName model)) (ifm_Methods model))"
proof -
  obtain model g' where m: "buildInterface sample_namespace ''IStream'' (Export ''IStream'') overloads (New sample_registry [] []) = Some (Some model, g')"
    and n: "map cmm_GoName (ifm_Methods model) = [''Get'', ''Get_'']"
    using overloads_run by (auto simp: map_eq_Cons_conv)
  show ?thesis by (intro exI [of _ model] exI [of _ g'] conjI m n interface_methods_as_functions [OF m])
qed

section \<open>The String methods of enums\<close>

text \<open>
  Of an enum that is not a set of flags, the \<open>String\<close> method prints the name of a member with the value, and
  the number of a value no member has. \<open>num\<close> reads the literals of the constants.
\<close>

lemma enum_String_switch:
  assumes "m \<in> set (fst (buildEnumModels meta g))" "\<not> enm_IsFlags m"
  shows "if v \<in> num ` emm_Value ` set (enm_Members m)
    then \<exists>x \<in> set (enm_Members m). num (emm_Value x) = v \<and> enum_String (num \<circ> emm_Value) m v = emm_Name x
    else enum_String (num \<circ> emm_Value) m v = enm_TypeName m @ ''('' @ show_int v @ '')''"
proof -
  obtain models g' where "buildEnumModels meta g = (models, g')" by fastforce
  then have "list_all switch_ok models" "m \<in> set models"
    using enum_models_names [of meta "sorted_entries (ns_Enums meta)" g models g'] assms(1) by (simp_all add: buildEnumModels_def)
  then have ok: "switch_ok m" by (simp add: list_all_iff)
  then have vals: "emm_Value ` set (enm_UniqueMembers m) = emm_Value ` set (enm_Members m)"
    and sub: "set (enm_UniqueMembers m) \<subseteq> set (enm_Members m)"
    by (auto simp: switch_ok_def dest: list_emb_set)
  show ?thesis
  proof (cases "find (\<lambda>x. (num \<circ> emm_Value) x = v) (enm_UniqueMembers m)")
    case None
    then have "\<forall>x \<in> set (enm_UniqueMembers m). num (emm_Value x) \<noteq> v" by (simp add: find_None_iff)
    then have "v \<notin> num ` emm_Value ` set (enm_UniqueMembers m)" by auto
    then show ?thesis using None assms(2) unfolding vals by (simp add: enum_String_def switch_String_def)
  next
    case (Some x)
    then have x: "x \<in> set (enm_Members m)" "num (emm_Value x) = v" using find_SomeD [OF Some] sub by auto
    then have "v \<in> num ` emm_Value ` set (enm_Members m)" by auto
    with x Some assms(2) show ?thesis by (auto simp: enum_String_def switch_String_def)
  qed
qed

text \<open>
  Of a set of flags it prints every member that shares a bit with the value, so a constant does not print as
  its own name when another one overlaps it; and it prints 0 for any value that shares none, not its number.
\<close>

definition access_flags :: enum_model where
  "access_flags = \<lparr>enm_TypeName = ''ACCESS'', enm_BaseType = ''uint32'', enm_IsFlags = True, enm_DocURL = [],
     enm_Members = [\<lparr>emm_Name = ''READ'', emm_Value = ''1'', emm_IsZero = False\<rparr>,
       \<lparr>emm_Name = ''READ_WRITE'', emm_Value = ''3'', emm_IsZero = False\<rparr>],
     enm_UniqueMembers = [\<lparr>emm_Name = ''READ'', emm_Value = ''1'', emm_IsZero = False\<rparr>,
       \<lparr>emm_Name = ''READ_WRITE'', emm_Value = ''3'', emm_IsZero = False\<rparr>]\<rparr>"

lemma flags_String_overlap:
  defines "val \<equiv> \<lambda>x. if emm_Value x = ''1'' then 1 else 3"
  shows "enum_String val access_flags 1 = ''READ|READ_WRITE''" "enum_String val access_flags 8 = ''0''"
  unfolding val_def by code_simp+

end
