(* ===== verification/TotalRun.thy ===== *)
theory TotalRun
  imports LayoutTotal TemplateFacts
begin

text \<open>
  A run returns. The builders share one contract: from a state in which every reference to resolve is a good
  one they give a result, and a state that is as good. The contract is the locale \<open>total_run\<close>; its laws say
  what the resolver, the layout engine and the registry lookups promise, and its lemmas that every builder
  and the whole worklist keep the invariant, one lemma for each builder.
\<close>

section \<open>What the builders may change freely\<close>

text \<open>The invariant of a run looks at the mapper, but for the skipped types, and at the referenced namespaces.\<close>

definition same_view :: "generator \<Rightarrow> generator \<Rightarrow> bool" where
  "same_view g g' \<longleftrightarrow> (g_mapper g')\<lparr>mp_SkippedTypes := []\<rparr> = (g_mapper g)\<lparr>mp_SkippedTypes := []\<rparr> \<and>
     rn_Referenced (g_resolution g') = rn_Referenced (g_resolution g)"

lemma same_view_sym: "same_view g g' \<Longrightarrow> same_view g' g"
  by (simp add: same_view_def)

named_theorems view_simps

lemma same_view_ops [view_simps]:
  "same_view g (diag d g)" "same_view g (set_import a p g)" "same_view g (with_imports imps g)"
  "same_view g (snd (claimName n g))" "same_view g (snd (claimTypeName n g))" "same_view g (snd (claim_struct b n g))"
  "same_view g (unclaimName n g)" "same_view g (prepareNamespaceClaims meta g)" "same_view g (coverageOf ns f g)"
  "same_view g (mark_informational k g)" "same_view g (write_path path content g)"
  "same_view g (g\<lparr>g_claimedNames := cs, g_typeNames := ts, g_layoutArch := arch\<rparr>)"
  by (simp_all add: same_view_def diag_def set_import_def with_imports_def claimName_def claimTypeName_def claim_struct_def
      unclaimName_def prepareNamespaceClaims_def coverageOf_def mark_informational_def write_path_def Let_def)

text \<open>The parts of a namespace are good.\<close>

definition good_callable :: "(type_ref \<Rightarrow> bool) \<Rightarrow> type_ref \<Rightarrow> param list \<Rightarrow> bool" where
  "good_callable ok ret ps \<longleftrightarrow> ok ret \<and> (\<forall>p \<in> set ps. ok (p_Type p))"

definition named_ref :: "string \<Rightarrow> string \<Rightarrow> string \<Rightarrow> type_ref" where
  "named_ref api name target = TypeRef ''ApiRef'' name api target None 0 False"

definition good_base :: "(type_ref \<Rightarrow> bool) \<Rightarrow> registry \<Rightarrow> com_interface \<Rightarrow> bool" where
  "good_base ok reg c \<longleftrightarrow> (Interface reg (ci_BaseInterfaceApi c) (ci_BaseInterface c) \<noteq> None \<longrightarrow>
     ok (named_ref (ci_BaseInterfaceApi c) (ci_BaseInterface c) ''Com''))"

definition good_namespace :: "(type_ref \<Rightarrow> bool) \<Rightarrow> (struct_def \<Rightarrow> bool) \<Rightarrow> registry \<Rightarrow> namespace_meta \<Rightarrow> bool" where
  "good_namespace ok ok_struct reg meta \<longleftrightarrow>
     (\<forall>(n, td) \<in> set (ns_Typedefs meta). ok (td_Underlying td) \<and> ok (named_ref (ns_Namespace meta) n ''Typedef'')) \<and>
     (\<forall>(n, d) \<in> set (ns_Structs meta). ok_struct d) \<and>
     (\<forall>(n, d) \<in> set (ns_Delegates meta). good_callable ok (fp_Return d) (fp_Params d)) \<and>
     (\<forall>(n, c) \<in> set (ns_Interfaces meta). good_base ok reg c \<and>
        (\<forall>m \<in> set (ci_Methods c). good_callable ok (cm_Return m) (cm_Params m))) \<and>
     (\<forall>c \<in> set (ns_Constants meta). ok (cn_Type c)) \<and>
     (\<forall>f \<in> set (ns_Functions meta). good_callable ok (fn_Return f) (fn_Params f))"

locale total_run =
  fixes inv :: "generator \<Rightarrow> bool" and ok :: "type_ref \<Rightarrow> bool" and ok_struct :: "struct_def \<Rightarrow> bool" and reg :: registry
  assumes frame: "same_view g g' \<Longrightarrow> inv g \<Longrightarrow> inv g'"
    and resolves: "inv g \<Longrightarrow> ok ref \<Longrightarrow> \<exists>r g'. resolve_type ref ctx g = Some (r, g') \<and> inv g'"
    and ref_layouts: "inv g \<Longrightarrow> ok ref \<Longrightarrow> layout_of_ref ref g \<noteq> None \<and> blob_type_of ref g \<noteq> None"
    and struct_layouts: "inv g \<Longrightarrow> ok_struct d \<Longrightarrow> struct_layout_of d clampPacking g \<noteq> None \<and> opaqueBlobFields d name what g \<noteq> None"
    and bases: "inv g \<Longrightarrow> ok ref \<Longrightarrow> constant_base_of ref g \<noteq> None"
    and ok_child: "ok ref \<Longrightarrow> ref_Child ref = Some c \<Longrightarrow> ok c"
    and ok_parts: "ok_struct d \<Longrightarrow> f \<in> set (st_Fields d) \<Longrightarrow> ok (sf_Type f)"
      "ok_struct d \<Longrightarrow> (n, s) \<in> set (st_NestedTypes d) \<Longrightarrow> ok_struct s"
      "ok_struct d \<Longrightarrow> v \<in> set (st_ArchVariants d) \<Longrightarrow> ok_struct v"
    and known_structs: "inv g \<Longrightarrow> map_of (reg_StructIndex (g_registry g)) key = Some d \<Longrightarrow> ok_struct d"
    and known_functions: "inv g \<Longrightarrow> owner_function free g = Some (owner, fn) \<Longrightarrow> good_callable ok (fn_Return fn) (fn_Params fn)"
    and registry: "inv g \<Longrightarrow> g_registry g = reg"
    and loaded: "inv g \<Longrightarrow> meta \<in> set (reg_Namespaces reg) \<Longrightarrow> good_namespace ok ok_struct reg meta"
      "inv g \<Longrightarrow> map_of (reg_ByNamespace reg) ns = Some meta \<Longrightarrow> good_namespace ok ok_struct reg meta"
    and referenced: "inv g \<Longrightarrow> ns \<in> set (rn_Referenced (g_resolution g)) \<Longrightarrow> map_of (reg_ByNamespace reg) ns \<noteq> None"
begin

lemma inv_view: "same_view g g' \<Longrightarrow> inv g' = inv g"
  using frame same_view_sym by blast

lemma inv_ops [simp]:
  "inv (diag d g) = inv g" "inv (set_import a p g) = inv g" "inv (with_imports imps g) = inv g"
  "inv (snd (claimName n g)) = inv g" "inv (snd (claimTypeName n g)) = inv g" "inv (snd (claim_struct b n g)) = inv g"
  "inv (unclaimName n g) = inv g" "inv (prepareNamespaceClaims meta g) = inv g" "inv (coverageOf ns f g) = inv g"
  "inv (mark_informational k g) = inv g" "inv (write_path path content g) = inv g"
  "inv (g\<lparr>g_claimedNames := cs, g_typeNames := ts, g_layoutArch := arch\<rparr>) = inv g"
  by (rule inv_view, rule view_simps)+

lemma inv_claims:
  "claimName n g = (b, g') \<Longrightarrow> inv g' = inv g" "claimTypeName n g = (b, g') \<Longrightarrow> inv g' = inv g"
  "claim_struct nested n g = (b, g') \<Longrightarrow> inv g' = inv g"
  using inv_ops(4-6) by (metis snd_conv)+

text \<open>The judgement: a result and a good state.\<close>

definition keeps :: "('a \<times> generator) option \<Rightarrow> bool" where
  "keeps r \<longleftrightarrow> (\<exists>x g. r = Some (x, g) \<and> inv g)"

lemma keepsI [intro]: "inv g \<Longrightarrow> keeps (Some (x, g))"
  by (simp add: keeps_def)

lemma keepsE: "keeps r \<Longrightarrow> (\<And>x g. r = Some (x, g) \<Longrightarrow> inv g \<Longrightarrow> thesis) \<Longrightarrow> thesis"
  by (auto simp: keeps_def)

lemma keeps_Some [simp]: "keeps (Some p) = inv (snd p)"
  by (cases p) (simp add: keeps_def)

lemma keeps_bind: "keeps r \<Longrightarrow> (\<And>x g. r = Some (x, g) \<Longrightarrow> inv g \<Longrightarrow> keeps (f (x, g))) \<Longrightarrow> keeps (Option.bind r f)"
  by (auto simp: keeps_def)

lemma total_bind: "r \<noteq> None \<Longrightarrow> (\<And>x. r = Some x \<Longrightarrow> keeps (f x)) \<Longrightarrow> keeps (Option.bind r f)"
  by (cases r) simp_all

lemma keeps_map: "keeps r \<Longrightarrow> (\<And>x g. inv g \<Longrightarrow> inv (snd (f (x, g)))) \<Longrightarrow> keeps (map_option f r)"
  by (auto simp: keeps_def) (metis prod.collapse)

lemma keeps_resolve: "inv g \<Longrightarrow> ok ref \<Longrightarrow> keeps (resolve_type ref ctx g)"
  using resolves by (simp add: keeps_def)

lemma keeps_resolve_all:
  "inv g \<Longrightarrow> \<forall>p \<in> set ps. ok (p_Type p) \<Longrightarrow> keeps (resolve_all (\<lambda>p. resolve_type (p_Type p) ctx) ps g)"
proof (induction ps arbitrary: g)
  case (Cons p ps)
  obtain r g1 where r: "resolve_type (p_Type p) ctx g = Some (r, g1)" "inv g1"
    using resolves Cons.prems by (metis list.set_intros(1))
  with Cons.IH [of g1] Cons.prems(2) show ?case by (auto elim!: keepsE)
qed simp

section \<open>Types\<close>

lemma keeps_typedefBacking: "inv g \<Longrightarrow> ok (td_Underlying td) \<Longrightarrow> keeps (typedefBacking td ns g)"
  unfolding typedefBacking_def by (auto intro!: keeps_bind keeps_resolve)

lemma keeps_typedef_models:
  "inv g \<Longrightarrow> \<forall>(n, td) \<in> set ts. ok (td_Underlying td) \<Longrightarrow> keeps (typedef_models meta ts g)"
proof (induction meta ts g rule: typedef_models.induct)
  case (2 meta name td ts g)
  obtain b g1 where c: "claimTypeName (Export name) g = (b, g1)" by fastforce
  have "inv g1" using inv_claims(2) [OF c] 2 by simp
  then show ?case using 2 c
    by (cases b) (auto simp: Let_def intro!: keeps_bind keeps_typedefBacking)
qed simp

lemma sorted_entries_in: "e \<in> set (sorted_entries m) \<Longrightarrow> e \<in> set m"
  by (cases e) (auto simp: sorted_entries_def in_entries_iff dest: map_of_SomeD)

lemma keeps_buildTypedefModels:
  "inv g \<Longrightarrow> \<forall>(n, td) \<in> set (ns_Typedefs meta). ok (td_Underlying td) \<Longrightarrow> keeps (buildTypedefModels meta g)"
  unfolding buildTypedefModels_def by (rule keeps_typedef_models) (auto dest: sorted_entries_in)

lemma keeps_enum_members: "inv g \<Longrightarrow> enum_members enum base ms seen g = (xs, ys, g') \<Longrightarrow> inv g'"
proof (induction enum base ms seen g arbitrary: xs ys g' rule: enum_members.induct)
  case (2 enum base m ms seen g)
  obtain b g1 where c: "claimName (Export (em_Name m)) g = (b, g1)" by fastforce
  have "inv g1" using inv_claims(1) [OF c] 2 by simp
  with 2 c show ?case by (cases b) (auto simp: Let_def split: prod.splits)
qed simp

lemma keeps_enum_models: "inv g \<Longrightarrow> enum_models meta es g = (xs, g') \<Longrightarrow> inv g'"
proof (induction meta es g arbitrary: xs g' rule: enum_models.induct)
  case (2 meta name enum es g)
  obtain b g1 where c: "claimTypeName (Export name) g = (b, g1)" by fastforce
  have "inv g1" using inv_claims(2) [OF c] 2 by simp
  with 2 c show ?case using keeps_enum_members by (cases b) (fastforce simp: Let_def split: prod.splits)+
qed simp

section \<open>Structures\<close>

lemma keeps_fieldGoType: "inv g \<Longrightarrow> ok ref \<Longrightarrow> keeps (fieldGoType meta parent ref nested g)"
proof -
  assume a: "inv g" "ok ref"
  have "keeps (do { blob \<leftarrow> blob_type_of ref g'; Some (blob, g') })" if "inv g'" for g'
    using ref_layouts [OF that a(2)] that by auto
  with a show ?thesis
    unfolding fieldGoType_def by (auto intro!: keeps_bind keeps_resolve split: option.split)
qed

lemma keeps_struct_fields:
  "inv g \<Longrightarrow> \<forall>f \<in> set fs. ok (sf_Type f) \<Longrightarrow> keeps (struct_fields meta name fs nested used g)"
proof (induction meta name fs nested used g rule: struct_fields.induct)
  case (2 meta name f fs nested used g)
  have "keeps (fieldGoType meta name (sf_Type f) nested g)" using 2 keeps_fieldGoType by simp
  then show ?case
    using 2 by (auto simp: Let_def intro!: keeps_bind split: option.split)
qed simp

lemma recordABI_returns:
  "inv g \<Longrightarrow> ok_struct d \<Longrightarrow> \<exists>g'. recordABI ns name d fs g = Some g' \<and> inv g'"
proof -
  assume a: "inv g" "ok_struct d"
  obtain l where "struct_layout_of d True g = Some l" using struct_layouts [OF a] by blast
  moreover have "inv (g\<lparr>g_abiRecords := r\<rparr>)" for r by (rule frame [OF _ a(1)]) (simp add: same_view_def)
  ultimately show ?thesis using a(1) by (auto simp: recordABI_def Let_def)
qed

lemma keeps_blob_struct: "inv g \<Longrightarrow> ok_struct d \<Longrightarrow> keeps (blob_struct meta name d isUnion g)"
proof -
  assume a: "inv g" "ok_struct d"
  let ?what = "if isUnion then ''union'' else ''packed struct''"
  obtain blob g1 where b: "opaqueBlobFields d name ?what g = Some (blob, g1)" using struct_layouts [OF a] by fastforce
  then have g1: "inv g1" using a(1) by (auto simp: opaqueBlobFields_def bind_eq_Some_conv split: option.splits)
  obtain g2 where "recordABI (ns_Namespace meta) name d None g1 = Some g2" "inv g2" using recordABI_returns [OF g1 a(2)] by blast
  with b g1 show ?thesis by (auto simp: blob_struct_def split: option.split)
qed

lemma keeps_plain_struct_models:
  "inv g \<Longrightarrow> ok_struct d \<Longrightarrow> keeps (plain_struct_models meta name d models nested g)"
proof -
  assume a: "inv g" "ok_struct d"
  have "keeps (struct_fields meta name (st_Fields d) nested [] g)" using a ok_parts(1) keeps_struct_fields by blast
  moreover have "keeps (do { g \<leftarrow> recordABI (ns_Namespace meta) name d (Some fs) g'; Some (ms fs, g) })" if "inv g'" for fs g' ms
    using recordABI_returns [OF that a(2)] by (metis (no_types, lifting) bind.bind_lunit keepsI)
  ultimately show ?thesis
    unfolding plain_struct_models_def by (auto intro!: keeps_bind split: option.split)
qed

lemma needs_packed_blob_returns: "inv g \<Longrightarrow> ok_struct d \<Longrightarrow> needs_packed_blob d g \<noteq> None"
proof -
  assume "inv g" "ok_struct d"
  from struct_layouts [OF this] obtain a b where "struct_layout_of d True g = Some a" "struct_layout_of d False g = Some b" by blast
  then show ?thesis by (simp add: needs_packed_blob_def)
qed

lemma keeps_struct_tree:
  "inv g \<Longrightarrow> ok_struct d \<Longrightarrow> keeps (buildStructTree meta name d isNested g)"
  "inv g \<Longrightarrow> \<forall>(n, s) \<in> set ds. ok_struct s \<Longrightarrow> \<exists>ms ns g'. nested_structs meta name ds g = Some (ms, ns, g') \<and> inv g'"
proof (induction meta name d isNested g and meta name ds g rule: buildStructTree_nested_structs.induct)
  case (1 meta name d isNested g)
  obtain b g1 where c: "claim_struct isNested name g = (b, g1)" by fastforce
  have g1: "inv g1" using inv_claims(3) [OF c] "1.prems"(1) by simp
  obtain packed where p: "needs_packed_blob d g1 = Some packed" using needs_packed_blob_returns [OF g1 "1.prems"(2)] by blast
  show ?case
  proof (cases "b \<and> \<not> st_IsUnion d \<and> \<not> packed")
    case False
    with c p g1 "1.prems"(2) show ?thesis
      by (cases b; cases packed) (auto simp: buildStructTree.simps [of meta name d isNested g] intro: keeps_blob_struct)
  next
    case True
    have "\<forall>(n, s) \<in> set (sorted_entries (st_NestedTypes d)). ok_struct s"
      using ok_parts(2) "1.prems"(2) by (auto dest: sorted_entries_in)
    then obtain ms ns g2 where "nested_structs meta name (sorted_entries (st_NestedTypes d)) g1 = Some (ms, ns, g2)" "inv g2"
      using "1.IH" [OF c [symmetric] _ _ _ _ g1] True p by (metis (full_types))
    with c True p "1.prems"(2) show ?thesis
      by (simp add: buildStructTree.simps [of meta name d isNested g] keeps_plain_struct_models)
  qed
next
  case (2 meta name g)
  then show ?case by simp
next
  case (3 meta name nested d ds g)
  obtain sub g1 where t: "buildStructTree meta (nestedTypeName name nested) d True g = Some (sub, g1)" "inv g1"
    using "3.IH"(1) "3.prems" by (auto elim: keepsE)
  then obtain ms ns g2 where "nested_structs meta name ds g1 = Some (ms, ns, g2)" "inv g2"
    using "3.IH"(2) [OF t(1) refl] "3.prems"(2) by auto
  with t show ?case by (simp add: nested_structs.simps(2))
qed

lemma keeps_struct_models:
  "inv g \<Longrightarrow> \<forall>(n, d) \<in> set ds. ok_struct d \<Longrightarrow> keeps (struct_models meta ds g)"
proof (induction meta ds g rule: struct_models.induct)
  case (2 meta name d ds g)
  have chosen: "inv g1 \<and> (\<forall>s. c = Some s \<longrightarrow> ok_struct s)" if "chooseArchVariant name d g = (c, g1)" for c g1
    using that 2(4,5) ok_parts(3) by (auto simp: chooseArchVariant_def pickAmd64Variant_def split: option.splits if_splits dest: pickVariant_cases)
  obtain c g1 where c: "chooseArchVariant name d g = (c, g1)" by fastforce
  with chosen 2 show ?case
    by (auto simp: Let_def intro!: keeps_bind keeps_struct_tree(1) split: option.split)
qed simp

lemma keeps_buildStructModels:
  "inv g \<Longrightarrow> \<forall>(n, d) \<in> set (ns_Structs meta). ok_struct d \<Longrightarrow> keeps (buildStructModels meta g)"
  unfolding buildStructModels_def by (rule keeps_struct_models) (auto dest: sorted_entries_in)

lemma keeps_arch_models:
  "inv g \<Longrightarrow> \<forall>(n, d) \<in> set ds. ok_struct d \<Longrightarrow> keeps (arch_models meta arch ds g)"
proof (induction meta arch ds g rule: arch_models.induct)
  case (2 meta arch name d ds g)
  have "ok_struct s" if "pickVariant d arch = Some (i, s)" for i s
    using pickVariant_cases [OF that] 2(4) ok_parts(3) by auto
  with 2 show ?case
    by (auto intro!: keeps_bind keeps_struct_tree(1) split: option.split)
qed simp

lemma keeps_arch_passes:
  "inv g \<Longrightarrow> \<forall>(n, d) \<in> set ds. ok_struct d \<Longrightarrow>
     \<exists>ms uc con g'. arch_passes meta ds bc bt arches unionClaims consumed g = Some (ms, uc, con, g') \<and> inv g'"
proof (induction arches arbitrary: unionClaims consumed g)
  case (Cons arch arches)
  have "keeps (arch_models meta arch ds (g\<lparr>g_claimedNames := bc, g_typeNames := bt, g_layoutArch := arch\<rparr>))"
    by (rule keeps_arch_models [OF _ Cons.prems(2)]) (simp add: Cons.prems(1))
  then obtain ms g1 where 1: "arch_models meta arch ds (g\<lparr>g_claimedNames := bc, g_typeNames := bt, g_layoutArch := arch\<rparr>) = Some (ms, g1)" "inv g1"
    by (rule keepsE)
  obtain rest uc con g2 where 2: "arch_passes meta ds bc bt arches (List.union (g_claimedNames g1) unionClaims)
      (List.union (filter (\<lambda>n. n \<notin> set (g_typeNames g1)) bt) consumed) g1 = Some (rest, uc, con, g2)" "inv g2"
    using Cons.IH [OF 1(2) Cons.prems(2)] by metis
  with 1(1) show ?case by simp
qed simp

lemma keeps_buildArchStructModels:
  assumes "inv g" "\<forall>(n, d) \<in> set (ns_Structs meta). ok_struct d"
  shows "keeps (buildArchStructModels meta g)"
proof -
  let ?ds = "filter (\<lambda>(name, d). isArchStruct (g_archStructs g) (ns_Namespace meta) name) (sorted_entries (ns_Structs meta))"
  have "\<forall>(n, d) \<in> set ?ds. ok_struct d" using assms(2) by (auto dest: sorted_entries_in)
  from keeps_arch_passes [OF assms(1) this] obtain ms uc con g' where
    "arch_passes meta ?ds (g_claimedNames g) (g_typeNames g) emitArches (g_claimedNames g) [] g = Some (ms, uc, con, g')" "inv g'"
    by blast
  with assms(1) show ?thesis by (simp add: buildArchStructModels_def Let_def)
qed

section \<open>Delegates\<close>

lemma keeps_delegateSignature:
  "inv g \<Longrightarrow> ok (fp_Return d) \<Longrightarrow> \<forall>p \<in> set (fp_Params d). ok (p_Type p) \<Longrightarrow> keeps (delegateSignature meta d g)"
  unfolding delegateSignature_def by (auto intro!: keeps_bind keeps_resolve keeps_resolve_all)

lemma keeps_delegate_models:
  "inv g \<Longrightarrow> \<forall>(n, d) \<in> set ds. ok (fp_Return d) \<and> (\<forall>p \<in> set (fp_Params d). ok (p_Type p)) \<Longrightarrow> keeps (delegate_models meta ds g)"
proof (induction meta ds g rule: delegate_models.induct)
  case (2 meta name d ds g)
  obtain b g1 where c: "claimTypeName (Export name) g = (b, g1)" by fastforce
  have "inv g1" using inv_claims(2) [OF c] 2 by simp
  then show ?case using 2 c
    by (cases b) (auto simp: Let_def intro!: keeps_bind keeps_delegateSignature)
qed simp

lemma keeps_buildDelegateModels:
  "inv g \<Longrightarrow> \<forall>(n, d) \<in> set (ns_Delegates meta). ok (fp_Return d) \<and> (\<forall>p \<in> set (fp_Params d). ok (p_Type p)) \<Longrightarrow>
     keeps (buildDelegateModels meta g)"
  unfolding buildDelegateModels_def by (rule keeps_delegate_models) (auto dest: sorted_entries_in)

section \<open>Constants\<close>

lemma keeps_array_literal: "inv g \<Longrightarrow> ok ref \<Longrightarrow> keeps (array_literal ref grp ns g)"
  unfolding array_literal_def using ok_child by (auto intro!: keeps_bind keeps_resolve split: option.split)

lemma keeps_literals:
  "inv g \<Longrightarrow> ok ref \<Longrightarrow> keeps (compositeLiteral ref vs ns g)"
  "inv g \<Longrightarrow> \<forall>(f, v) \<in> set fvs. ok (sf_Type f) \<Longrightarrow> keeps (field_literals fvs ns g)"
  "inv g \<Longrightarrow> ok ref \<Longrightarrow> keeps (fieldLiteral ref v ns g)"
proof (induction ref vs ns g and fvs ns g and ref v ns g rule: compositeLiteral_field_literals_fieldLiteral.induct)
  case (1 ref vs ns g)
  show ?case
  proof (cases "ref_Kind ref = ''Native'' \<and> ref_Name ref = ''Guid''")
    case True
    with 1 show ?thesis by (simp add: compositeLiteral.simps [of ref vs ns g])
  next
    case False
    obtain r g1 where r: "resolve_type ref \<lparr>cx_Namespace = ns, cx_IsReturn = False\<rparr> g = Some (r, g1)" "inv g1"
      using resolves "1.prems" by metis
    have fs: "\<forall>(f, v) \<in> set (zip (st_Fields d) vs). ok (sf_Type f)"
      if "map_of (reg_StructIndex (g_registry g1)) (qual_key (ref_Api ref) (ref_Name ref)) = Some d" for d
      using known_structs [OF r(2) that] ok_parts(1) by (auto dest: set_zip_leftD)
    have lits: "keeps (field_literals (zip (st_Fields d) vs) ns g1)"
      if "res_Kind r = KindStruct" "map_of (reg_StructIndex (g_registry g1)) (qual_key (ref_Api ref) (ref_Name ref)) = Some d"
        "\<not> length (st_Fields d) < length vs" for d
      by (rule "1.IH" [OF False r(1) refl that r(2) fs [OF that(2)]])
    show ?thesis using False r lits
      by (auto simp: compositeLiteral.simps [of ref vs ns g] elim!: keepsE split: option.split)
  qed
next
  case (2 ns g)
  then show ?case by simp
next
  case (3 f v rest ns g)
  obtain x g1 where 1: "fieldLiteral (sf_Type f) v ns g = Some (x, g1)" "inv g1"
    using "3.IH"(1) "3.prems" by (auto elim: keepsE)
  then have "x = Inr y \<Longrightarrow> keeps (field_literals rest ns g1)" for y
    using "3.IH"(2) "3.prems"(2) by auto
  with 1 show ?case
    by (cases x) (auto simp: field_literals.simps(2) elim!: keepsE)
next
  case (4 ref v ns g)
  show ?case
  proof (cases v)
    case (InitNumber n)
    obtain r g1 where "resolve_type ref \<lparr>cx_Namespace = ns, cx_IsReturn = False\<rparr> g = Some (r, g1)" "inv g1"
      using resolves "4.prems" by metis
    with InitNumber show ?thesis by (simp add: fieldLiteral.simps)
  next
    case (InitGroup grp)
    with 4 keeps_array_literal show ?thesis by (auto simp: fieldLiteral.simps split: sum.split)
  qed
qed

lemma keeps_buildStructConstant: "inv g \<Longrightarrow> ok (cn_Type c) \<Longrightarrow> keeps (buildStructConstant meta c g)"
  unfolding buildStructConstant_def
  by (auto intro!: total_bind [OF parseInitializer_returns] keeps_bind keeps_literals(1) split: sum.split)

lemma keeps_number_constant: "inv g \<Longrightarrow> ok (cn_Type c) \<Longrightarrow> keeps (number_constant c r g)"
  using bases [of g "cn_Type c"] by (auto simp: number_constant_def Let_def)

lemma keeps_buildConstant: "inv g \<Longrightarrow> ok (cn_Type c) \<Longrightarrow> keeps (buildConstant meta c g)"
  unfolding buildConstant_def
  by (auto intro!: keeps_bind keeps_resolve keeps_number_constant keeps_buildStructConstant split: sum.split)

lemma keeps_constant_models: "inv g \<Longrightarrow> \<forall>c \<in> set cs. ok (cn_Type c) \<Longrightarrow> keeps (constant_models meta cs g)"
proof (induction meta cs g rule: constant_models.induct)
  case (2 meta c cs g)
  obtain b g1 where c: "claimName (Export (cn_Name c)) g = (b, g1)" by fastforce
  have "inv g1" using inv_claims(1) [OF c] 2 by simp
  then show ?case using 2 c
    by (cases b) (auto simp: Let_def intro!: keeps_bind keeps_buildConstant split: option.split)
qed simp

lemma keeps_buildConstantModels: "inv g \<Longrightarrow> \<forall>c \<in> set (ns_Constants meta). ok (cn_Type c) \<Longrightarrow> keeps (buildConstantModels meta g)"
  unfolding buildConstantModels_def by (rule keeps_constant_models)

section \<open>Functions\<close>

lemma shapeParam_returns: "inv g \<Longrightarrow> ok (p_Type p) \<Longrightarrow> shapeParam name p r g \<noteq> None"
  using ref_layouts [of g "p_Type p"] by (auto simp: shapeParam_def Let_def split: option.split arg_class.split)

lemma keeps_shape_params:
  "inv g \<Longrightarrow> \<forall>(i, p, r) \<in> set ps. ok (p_Type p) \<Longrightarrow> keeps (shape_params elevate skipped plans names ps s g)"
proof (induction elevate skipped plans names ps s g rule: shape_params.induct)
  case (2 elevate skipped plans names i p r rest s g)
  have "shapeParam (names ! i) p r g \<noteq> None" using shapeParam_returns 2(5,6) by simp
  with 2 show ?case by (auto split: option.split)
qed simp

lemma keeps_shape_signature:
  "inv g \<Longrightarrow> \<forall>p \<in> set ps. ok (p_Type p) \<Longrightarrow> keeps (shape_signature elevate skipped ps resolved ret g)"
  unfolding shape_signature_def by (rule keeps_shape_params) (fastforce dest: set_zip_rightD set_zip_leftD)+

lemma inv_retype: "inv (snd (retypeComOutParams ps rs g)) = inv g"
  by (rule inv_view) (auto simp: retypeComOutParams_def same_view_def set_import_def Let_def split: prod.splits)

lemma keeps_resolve_signature:
  "inv g \<Longrightarrow> ok ret \<Longrightarrow> \<forall>p \<in> set ps. ok (p_Type p) \<Longrightarrow> keeps (resolve_signature ns ps ret g)"
  unfolding resolve_signature_def Let_def
  by (auto simp: split_def inv_retype intro!: keeps_bind keeps_resolve keeps_resolve_all)

lemma inv_informational [simp]:
  "inv (snd (isInformationalFunction ns f g)) = inv g" "inv (snd (isInformationalComMethod ns iface m g)) = inv g"
  by (simp_all add: isInformationalFunction_def isInformationalComMethod_def Let_def)

lemma inv_register_return [simp]: "inv (snd (register_return meta f r expr model g)) = inv g"
  by (auto simp: register_return_def Let_def split_def)

lemma inv_elevated_return [simp]: "inv (snd (elevated_return meta f mode s model g)) = inv g"
  by (cases mode) (auto simp: elevated_return_def Let_def split_def)

lemma keeps_buildReturnShape: "inv g \<Longrightarrow> ok (fn_Return f) \<Longrightarrow> keeps (buildReturnShape model meta f r g)"
  using ref_layouts [of g "fn_Return f"] by (auto simp: buildReturnShape_def Let_def split_def)

lemma inv_claimFunctionName [simp]: "inv (snd (claimFunctionName meta f rawName g)) = inv g"
  by (auto simp: claimFunctionName_def Let_def split_def)

lemma inv_commit_function_imports [simp]: "inv (commit_function_imports imports u g) = inv g"
  by (simp add: commit_function_imports_def Let_def)

lemma inv_finish_function [simp]: "inv (snd (finish_function meta f rawName imports s model spec arg g)) = inv g"
proof -
  obtain n g1 where c: "claimFunctionName meta f rawName g = (n, g1)" by fastforce
  then have "inv g1 = inv g" using inv_claimFunctionName [of meta f rawName g] by simp
  with c show ?thesis by (cases n) (simp_all add: finish_function_def Let_def)
qed

lemma keeps_buildFunction:
  assumes "inv g" "ok (fn_Return f)" "\<forall>p \<in> set (fn_Params f). ok (p_Type p)"
  shows "keeps (buildFunction meta f rawName g)"
proof -
  have sig: "keeps (resolve_signature (ns_Namespace meta) (fn_Params f) (fn_Return f) (with_imports [] g))"
    using keeps_resolve_signature assms by simp
  have shape: "keeps (shape_signature e skipped (fn_Params f) rs r g)" if "inv g" for e skipped rs r g
    using keeps_shape_signature that assms(3) by simp
  have ret: "keeps (buildReturnShape model meta f r g)" if "inv g" for model r g
    using keeps_buildReturnShape that assms(2) by simp
  show ?thesis
    unfolding buildFunction_def Let_def
    by (rule keeps_bind [OF sig])
      (auto simp: split_def intro!: keeps_bind [OF shape] keeps_bind [OF ret] split: option.split)
qed

lemma inlineConstantExpr_returns: "inv g \<Longrightarrow> ok (fn_Return f) \<Longrightarrow> inlineConstantExpr f r g \<noteq> None"
  using bases [of g "fn_Return f"] by (auto simp: inlineConstantExpr_def split: option.split)

lemma keeps_buildInlineFunction:
  assumes "inv g" "ok (fn_Return f)"
  shows "keeps (buildInlineFunction meta f rawName g)"
proof -
  have r: "keeps (resolve_type (fn_Return f) ctx (with_imports [] g))" for ctx using keeps_resolve assms by simp
  have e: "inlineConstantExpr f r g \<noteq> None" if "inv g" for r g using inlineConstantExpr_returns that assms(2) by simp
  show ?thesis
    unfolding buildInlineFunction_def Let_def
    using assms(1) by (auto simp: split_def intro!: keeps_bind [OF r] total_bind [OF e] split: option.split)
qed

lemma keeps_function_models:
  "inv g \<Longrightarrow> \<forall>f \<in> set fs. ok (fn_Return f) \<and> (\<forall>p \<in> set (fn_Params f). ok (p_Type p)) \<Longrightarrow> keeps (function_models meta fs seen g)"
proof (induction fs arbitrary: seen g)
  case (Cons f fs)
  have f: "keeps (if IsLoadableModule (fn_DLL f) then buildFunction meta f raw g else buildInlineFunction meta f raw g)" for raw
    using keeps_buildFunction [of g f] keeps_buildInlineFunction [of g f] Cons.prems by simp
  have "keeps (function_models meta fs seen g)" if "inv g" for seen g
    by (rule Cons.IH [OF that]) (use Cons.prems(2) in simp)
  with f Cons.prems(1) show ?case by (auto simp: Let_def intro!: keeps_bind)
qed simp

lemma keeps_buildFunctionModels:
  assumes "inv g" "\<forall>f \<in> set (ns_Functions meta). ok (fn_Return f) \<and> (\<forall>p \<in> set (fn_Params f). ok (p_Type p))"
  shows "keeps (buildFunctionModels meta g)"
  unfolding buildFunctionModels_def Let_def
  by (rule keeps_bind [OF keeps_function_models [OF assms]]) (simp add: split_def)

section \<open>Interfaces\<close>

lemma inv_com_return [simp]: "inv (snd (com_return meta iface m r s model g)) = inv g"
  by (auto simp: com_return_def Let_def split_def)

lemma inv_finish_com_method [simp]: "inv (snd (finish_com_method iface m slot imports x g)) = inv g"
  by (cases x) (auto simp: finish_com_method_def Let_def)

lemma keeps_buildComMethod:
  assumes "inv g" "good_callable ok (cm_Return m) (cm_Params m)"
  shows "keeps (buildComMethod meta iface m slot g)"
proof -
  have sig: "keeps (resolve_signature (ns_Namespace meta) (cm_Params m) (cm_Return m) (with_imports [] g))"
    using keeps_resolve_signature assms by (simp add: good_callable_def)
  have shape: "keeps (shape_signature e skipped (cm_Params m) rs r g)" if "inv g" for e skipped rs r g
    using keeps_shape_signature that assms(2) by (simp add: good_callable_def)
  show ?thesis
    unfolding buildComMethod_def Let_def
    by (rule keeps_bind [OF sig]) (auto simp: split_def intro!: keeps_bind [OF shape] split: option.split)
qed

lemma keeps_com_methods:
  "inv g \<Longrightarrow> \<forall>m \<in> set ms. good_callable ok (cm_Return m) (cm_Params m) \<Longrightarrow> keeps (com_methods meta name ms slot used g)"
proof (induction ms arbitrary: slot used g)
  case (Cons m ms)
  have m: "keeps (buildComMethod meta name m slot g)" using keeps_buildComMethod Cons.prems by simp
  have "keeps (com_methods meta name ms slot used g)" if "inv g" for slot used g
    by (rule Cons.IH [OF that]) (use Cons.prems(2) in simp)
  then show ?case by (auto simp: Let_def intro!: keeps_bind [OF m] keeps_bind split: option.split)
qed simp

lemma inv_interface_iid [simp]: "inv (snd (interface_iid name goName c model g)) = inv g"
  by (auto simp: interface_iid_def Let_def split_def split: sum.split)

lemma keeps_interface_base: "inv g \<Longrightarrow> good_base ok reg c \<Longrightarrow> keeps (interface_base meta name c model g)"
  using registry [of g]
  by (auto simp: interface_base_def good_base_def named_ref_def Let_def intro!: keeps_bind keeps_resolve)

lemma keeps_buildInterface:
  assumes "inv g" "good_base ok reg c" "\<forall>m \<in> set (ci_Methods c). good_callable ok (cm_Return m) (cm_Params m)"
  shows "keeps (buildInterface meta name goName c g)"
proof -
  have base: "keeps (interface_base meta name c model g)" if "inv g" for model g
    using keeps_interface_base that assms(2) by simp
  have ms: "keeps (com_methods meta name (ci_Methods c) slot [] g)" if "inv g" for slot g
    using keeps_com_methods that assms(3) by simp
  show ?thesis
    unfolding buildInterface_def Let_def
    using assms(1) by (auto simp: split_def intro!: keeps_bind [OF base] keeps_bind [OF ms] split: bool.split)
qed

lemma keeps_interface_models:
  "inv g \<Longrightarrow> \<forall>(n, c) \<in> set cs. good_base ok reg c \<and> (\<forall>m \<in> set (ci_Methods c). good_callable ok (cm_Return m) (cm_Params m)) \<Longrightarrow>
     keeps (interface_models meta cs g)"
proof (induction meta cs g rule: interface_models.induct)
  case (2 meta name c cs g)
  obtain b g1 where claim: "claimTypeName (Export name) g = (b, g1)" by fastforce
  have "inv g1" using inv_claims(2) [OF claim] 2 by simp
  then show ?case using 2 claim
    by (cases b) (auto simp: Let_def intro!: keeps_bind keeps_buildInterface)
qed simp

section \<open>Closers\<close>

lemma inv_closer [simp]:
  "inv (snd (closer_callee meta owner free g)) = inv g" "inv (snd (closer_return f r call g)) = inv g"
  by (simp_all add: closer_callee_def closer_return_def)

lemma keeps_buildCloser:
  assumes "inv g" "ok (named_ref (ns_Namespace meta) handle ''Typedef'')"
  shows "keeps (buildCloser meta handle td g)"
proof -
  have h: "keeps (resolve_type (TypeRef ''ApiRef'' handle (ns_Namespace meta) ''Typedef'' None 0 False) ctx g)" for ctx
    using keeps_resolve assms by (simp add: named_ref_def)
  have p: "keeps (resolve_type (p_Type (hd (fn_Params f))) ctx g')"
    if "inv g'" "owner_function free g' = Some (owner, f)" "length (fn_Params f) = Suc 0" for f owner free g' ctx
    using known_functions [OF that(1,2)] keeps_resolve [OF that(1)] that(3)
    by (cases "fn_Params f") (auto simp: good_callable_def)
  have r: "keeps (resolve_type (fn_Return f) ctx (with_imports [] g2))"
    if "inv g1" "owner_function free g1 = Some (owner, f)" "inv g2" for f owner free g1 g2 ctx
    using known_functions [OF that(1,2)] keeps_resolve [of "with_imports [] g2"] that(3) by (simp add: good_callable_def)
  show ?thesis
    unfolding buildCloser_def Let_def
    by (rule keeps_bind [OF h]) (auto simp: split_def intro!: keeps_bind [OF p] keeps_bind [OF r] split: option.split)
qed

lemma keeps_handle_closers:
  "inv g \<Longrightarrow> \<forall>(n, td) \<in> set ts. ok (named_ref (ns_Namespace meta) n ''Typedef'') \<Longrightarrow> keeps (handle_closers meta ts g)"
proof (induction meta ts g rule: handle_closers.induct)
  case (2 meta name td ts g)
  then show ?case by (auto intro!: keeps_bind keeps_buildCloser)
qed simp

lemma keeps_buildHandleClosers:
  "inv g \<Longrightarrow> \<forall>(n, td) \<in> set (ns_Typedefs meta). ok (named_ref (ns_Namespace meta) n ''Typedef'') \<Longrightarrow> keeps (buildHandleClosers meta g)"
  unfolding buildHandleClosers_def by (rule keeps_handle_closers) auto

section \<open>The files of a namespace\<close>

text \<open>A step that returns, with an error or a good state.\<close>

definition steps :: "emit_step \<Rightarrow> bool" where
  "steps s \<longleftrightarrow> (\<forall>g. inv g \<longrightarrow> (\<exists>r. s g = Some r \<and> (\<forall>g'. r = Inr g' \<longrightarrow> inv g')))"

lemma stepsI: "(\<And>g. inv g \<Longrightarrow> \<exists>r. s g = Some r \<and> (\<forall>g'. r = Inr g' \<longrightarrow> inv g')) \<Longrightarrow> steps s"
  by (simp add: steps_def)

lemma stepsE:
  assumes "steps s" "inv g"
  obtains e where "s g = Some (Inl e)" | g' where "s g = Some (Inr g')" "inv g'"
proof -
  from assms obtain r where r: "s g = Some r" "\<forall>g'. r = Inr g' \<longrightarrow> inv g'" unfolding steps_def by blast
  show ?thesis using r that by (cases r) auto
qed

lemma steps_all: "(\<And>s. s \<in> set ss \<Longrightarrow> steps s) \<Longrightarrow> steps (emit_steps ss)"
proof (induction ss)
  case (Cons s ss)
  have s: "steps s" and ss: "steps (emit_steps ss)" using Cons by simp_all
  show ?case
  proof (rule stepsI)
    fix g assume g: "inv g"
    show "\<exists>r. emit_steps (s # ss) g = Some r \<and> (\<forall>g'. r = Inr g' \<longrightarrow> inv g')"
      using ss by (rule_tac stepsE [OF s g]) (simp_all add: steps_def)
  qed
qed (simp add: steps_def)

lemma steps_emit_tagged: "steps (emit_tagged rd meta ending tag body)"
proof (rule stepsI)
  fix g assume g: "inv g"
  have w: "inv g'" if "writeFileTagged format dir name pkg imps b tag g = Inr g'" for format dir name pkg imps b g'
    using that g by (auto simp: writeFileTagged_def map_sum_def split: if_splits sum.splits)
  then show "\<exists>r. emit_tagged rd meta ending tag body g = Some r \<and> (\<forall>g'. r = Inr g' \<longrightarrow> inv g')"
    by (auto simp: emit_tagged_def Let_def split: sum.split)
qed

lemma steps_emit_file: "(\<And>g. inv g \<Longrightarrow> keeps (build g)) \<Longrightarrow> steps (emit_file rd meta ending imports build)"
proof (rule stepsI)
  fix g assume b: "\<And>g. inv g \<Longrightarrow> keeps (build g)" and g: "inv g"
  from b [of "with_imports imports g"] g obtain body g1 where 1: "build (with_imports imports g) = Some (body, g1)" "inv g1"
    by (auto elim: keepsE)
  from steps_emit_tagged 1(2) have "\<exists>r. emit_tagged rd meta ending GeneratedBuildTag body g1 = Some r \<and> (\<forall>g'. r = Inr g' \<longrightarrow> inv g')"
    unfolding steps_def by blast
  with 1 show "\<exists>r. emit_file rd meta ending imports build g = Some r \<and> (\<forall>g'. r = Inr g' \<longrightarrow> inv g')"
    by (simp add: emit_file_def)
qed

lemma keeps_enums: "inv g \<Longrightarrow> inv (snd (buildEnumModels meta g))"
  using keeps_enum_models by (metis buildEnumModels_def prod.collapse)

lemma steps_emitNamespace:
  assumes "good_namespace ok ok_struct reg meta"
  shows "steps (emitNamespace rd meta)"
proof -
  note good = assms [unfolded good_namespace_def]
  have typedefs: "steps (typedefs_step rd meta)" unfolding typedefs_step_def
    by (rule steps_emit_file) (use good keeps_buildTypedefModels in \<open>auto intro!: keeps_map simp: split_def\<close>)
  have enums: "steps (enums_step rd meta)" unfolding enums_step_def
    by (rule steps_emit_file) (simp add: split_def keeps_enums)
  have structs: "steps (structs_step rd meta)" unfolding structs_step_def
    by (rule steps_emit_file) (use good keeps_buildStructModels in \<open>auto intro!: keeps_bind\<close>)
  have arch: "steps (arch_step_files rd meta)"
  proof (rule stepsI)
    fix g assume g: "inv g"
    have "keeps (buildArchStructModels meta (with_imports [] g))" by (rule keeps_buildArchStructModels) (use g good in simp_all)
    then obtain ms g1 where 1: "buildArchStructModels meta (with_imports [] g) = Some (ms, g1)" "inv g1" by (rule keepsE)
    have "steps (arch_file rd meta ms imps arch)" for imps arch
    proof (rule stepsI)
      fix g assume "inv g"
      then show "\<exists>r. arch_file rd meta ms imps arch g = Some r \<and> (\<forall>g'. r = Inr g' \<longrightarrow> inv g')"
        using steps_emit_tagged unfolding steps_def arch_file_def Let_def by simp
    qed
    then have "steps (emit_steps (map (arch_file rd meta ms imps) emitArches))" for imps by (intro steps_all) auto
    with 1 show "\<exists>r. arch_step_files rd meta g = Some r \<and> (\<forall>g'. r = Inr g' \<longrightarrow> inv g')"
      unfolding steps_def by (simp add: arch_step_files_def)
  qed
  have delegates: "steps (delegates_step rd meta)" unfolding delegates_step_def
    by (rule steps_emit_file) (use good keeps_buildDelegateModels in \<open>auto intro!: keeps_map simp: split_def good_callable_def\<close>)
  have interfaces: "steps (interfaces_step rd meta)" unfolding interfaces_step_def buildInterfaceModels_def
    by (rule steps_emit_file) (use good keeps_interface_models in \<open>auto intro!: keeps_bind\<close>)
  have constants: "steps (constants_step rd meta)" unfolding constants_step_def
    by (rule steps_emit_file) (use good keeps_buildConstantModels in \<open>auto intro!: keeps_map simp: split_def\<close>)
  have funcs: "steps (functions_step rd meta)" unfolding functions_step_def
    by (rule steps_emit_file) (use good keeps_buildFunctionModels in \<open>auto intro!: keeps_bind simp: good_callable_def\<close>)
  have handles: "steps (handles_step rd meta)" unfolding handles_step_def
    by (rule steps_emit_file) (use good in \<open>auto intro!: keeps_bind keeps_buildHandleClosers\<close>)
  have doc: "steps (doc_step meta)" by (simp add: steps_def doc_step_def Let_def)
  have "steps (emit_steps [typedefs_step rd meta, enums_step rd meta, structs_step rd meta, arch_step_files rd meta,
      delegates_step rd meta, interfaces_step rd meta, constants_step rd meta, functions_step rd meta, handles_step rd meta, doc_step meta])"
    by (rule steps_all) (use typedefs enums structs arch delegates interfaces constants funcs handles doc in auto)
  then show ?thesis unfolding steps_def emitNamespace_def by simp
qed

section \<open>The run\<close>

lemma keeps_skip_namespace:
  assumes "inv g" "good_namespace ok ok_struct reg meta"
  shows "keeps (skip_namespace meta g)"
proof -
  have ds: "\<forall>(n, d) \<in> set (ns_Structs meta). ok_struct d" using assms(2) by (simp add: good_namespace_def)
  have skipped: "inv (g'\<lparr>g_mapper := (g_mapper g')\<lparr>mp_SkippedTypes := s\<rparr>\<rparr>)" if "inv g'" for g' s
    by (rule frame [OF _ that]) (simp add: same_view_def)
  show ?thesis
    unfolding skip_namespace_def Let_def
    using assms(1) ds by (auto intro!: keeps_bind keeps_buildStructModels keeps_buildArchStructModels skipped split: prod.split)
qed

lemma keeps_skip_round:
  "inv g \<Longrightarrow> \<forall>meta \<in> set metas. good_namespace ok ok_struct reg meta \<Longrightarrow> keeps (skip_round metas g)"
  by (induction metas arbitrary: g) (auto intro!: keeps_bind keeps_skip_namespace)

lemma skip_rounds_returns: "inv g \<Longrightarrow> \<exists>g'. skip_rounds n g = Some g' \<and> inv g'"
proof (induction n arbitrary: g)
  case (Suc n)
  have "keeps (skip_round (reg_Namespaces (g_registry g)) g)"
    using keeps_skip_round [OF Suc.prems] loaded(1) [OF Suc.prems] registry [OF Suc.prems] by simp
  then obtain b g1 where "skip_round (reg_Namespaces (g_registry g)) g = Some (b, g1)" "inv g1" by (rule keepsE)
  with Suc.IH show ?case by auto
qed simp

lemma computeSkippedTypes_returns: "inv g \<Longrightarrow> \<exists>g'. computeSkippedTypes g = Some g' \<and> inv g'"
proof -
  assume g: "inv g"
  have "inv (g\<lparr>g_mapper := (g_mapper g)\<lparr>mp_SkippedTypes := []\<rparr>\<rparr>)" by (rule frame [OF _ g]) (simp add: same_view_def)
  from skip_rounds_returns [OF this, of 10] obtain g1 where
    1: "skip_rounds 10 (g\<lparr>g_mapper := (g_mapper g)\<lparr>mp_SkippedTypes := []\<rparr>\<rparr>) = Some g1" "inv g1" by blast
  have "inv (g1\<lparr>g_Diagnostics := d, g_resolution := (g_resolution g1)\<lparr>rn_Diagnostics := d'\<rparr>\<rparr>)" for d d'
    by (rule frame [OF _ 1(2)]) (simp add: same_view_def)
  with 1(1) show ?thesis by (simp add: computeSkippedTypes_def)
qed

text \<open>The worklist never meets a namespace that is not loaded.\<close>

lemma emit_loop_returns:
  "inv g \<Longrightarrow> byNamespace = reg_ByNamespace reg \<Longrightarrow> \<forall>ns \<in> set pending. map_of byNamespace ns \<noteq> None \<Longrightarrow>
     \<exists>r. emit_loop rd byNamespace pending emitted g = Some r \<and> (\<forall>e. r = Inl e \<longrightarrow>
       (\<exists>ns meta g e'. map_of byNamespace ns = Some meta \<and> emitNamespace rd meta g = Some (Inl e') \<and> e = ''emitting '' @ ns @ '': '' @ e'))"
proof (induction rd byNamespace pending emitted g rule: emit_loop.induct)
  case (2 rd byNamespace ns pending emitted g)
  show ?case
  proof (cases "ns \<in> set emitted")
    case True
    with "2.IH"(1) "2.prems" show ?thesis by simp
  next
    case False
    obtain meta where meta: "map_of byNamespace ns = Some meta" using "2.prems"(3) by auto
    then have "good_namespace ok ok_struct reg meta" using loaded(2) [OF "2.prems"(1)] "2.prems"(2) by simp
    from steps_emitNamespace [OF this, of rd] "2.prems"(1)
    consider e where "emitNamespace rd meta g = Some (Inl e)" | g1 where "emitNamespace rd meta g = Some (Inr g1)" "inv g1"
      by (rule stepsE)
    then show ?thesis
    proof cases
      case 1
      with False meta show ?thesis by auto
    next
      case 2
      have "\<forall>ns \<in> set (pending @ discovered (ns # emitted) g1). map_of byNamespace ns \<noteq> None"
        using "2.prems"(2,3) referenced [OF 2(2)] by (auto simp: set_discovered)
      from "2.IH"(2) [OF False meta 2(1) refl 2(2) "2.prems"(2) this] False meta 2(1) show ?thesis by simp
    qed
  qed
qed simp

lemma EmitAll_runs:
  assumes "inv g" "\<forall>ns \<in> set (run_roots filters g). map_of (reg_ByNamespace reg) ns \<noteq> None"
  shows "\<exists>r. EmitAll rd filters t g = Some r \<and> (\<forall>e. r = Inl e \<longrightarrow>
    (\<exists>ns meta g e'. map_of (reg_ByNamespace reg) ns = Some meta \<and> emitNamespace rd meta g = Some (Inl e') \<and>
       e = ''emitting '' @ ns @ '': '' @ e'))"
proof -
  have "inv (g\<lparr>g_archStructs := computeArchStructs (g_registry g)\<rparr>)" by (rule frame [OF _ assms(1)]) (simp add: same_view_def)
  then obtain g1 where 1: "computeSkippedTypes (g\<lparr>g_archStructs := computeArchStructs (g_registry g)\<rparr>) = Some g1" "inv g1"
    using computeSkippedTypes_returns by blast
  have "inv (reset_run g1)" by (rule frame [OF _ 1(2)]) (simp add: same_view_def reset_run_def)
  from emit_loop_returns [OF this refl assms(2), of rd "[]"] 1(1) registry [OF assms(1)]
  show ?thesis by (auto simp: EmitAll_def Let_def split: sum.split)
qed

end

end
