(* ===== verification/RunTotal.thy ===== *)
theory RunTotal
  imports TotalRun Validate
begin

text \<open>
  Every run of the generator on metadata the check accepts returns. The contract of \<open>TotalRun\<close> is
  discharged for the resolver, the layout engine and the indexes of \<open>LoadAll\<close>, and what is left of the
  errors of \<open>EmitAll\<close> is the formatter's.
\<close>

section \<open>Good references\<close>

definition run_ref :: "registry \<Rightarrow> type_ref \<Rightarrow> bool" where
  "run_ref reg ref \<longleftrightarrow> arrays_ok (walk_ref ref) \<and> ref_apis ref \<subseteq> insert [] (fst ` set (reg_ByNamespace reg))"

definition run_struct :: "registry \<Rightarrow> struct_def \<Rightarrow> bool" where
  "run_struct reg d \<longleftrightarrow> arrays_ok (walk_struct d) \<and>
     {ref_Api x | x. x \<in> set (walk_struct d) \<and> ref_Kind x = ''ApiRef''} \<subseteq> insert [] (fst ` set (reg_ByNamespace reg))"

lemma arrays_ok_subset: "arrays_ok xs \<Longrightarrow> set ys \<subseteq> set xs \<Longrightarrow> arrays_ok ys"
  unfolding arrays_ok_def by blast

lemma struct_value_refs_walk: "set (struct_value_refs d) \<subseteq> set (walk_struct d)"
proof (induction d rule: struct_value_refs.induct)
  case (1 fs u p sz nested av ssf variants)
  have fs: "set (value_refs (sf_Type f)) \<subseteq> set (walk_ref (sf_Type f))" for f by (rule value_refs_walk)
  have n: "set (struct_value_refs s) \<subseteq> set (walk_struct s)" if "(n, s) \<in> set nested" for n s
    using 1(1) [OF that] by simp
  have v: "set (struct_value_refs s) \<subseteq> set (walk_struct s)" if "s \<in> set variants" for s
    using 1(2) [OF that] by simp
  show ?case using fs n v by fastforce
qed

lemma walk_struct_parts:
  "f \<in> set (st_Fields d) \<Longrightarrow> set (walk_ref (sf_Type f)) \<subseteq> set (walk_struct d)"
  "(n, s) \<in> set (st_NestedTypes d) \<Longrightarrow> set (walk_struct s) \<subseteq> set (walk_struct d)"
  "s \<in> set (st_ArchVariants d) \<Longrightarrow> set (walk_struct s) \<subseteq> set (walk_struct d)"
  by (cases d; fastforce)+

text \<open>Metadata whose run returns.\<close>

definition runnable :: "registry \<Rightarrow> bool" where
  "runnable reg \<longleftrightarrow> acyclic (typedef_uses (reg_TypedefIndex reg)) \<and> values_founded reg \<and>
     (\<forall>k td. map_of (reg_TypedefIndex reg) k = Some td \<longrightarrow> run_ref reg (td_Underlying td)) \<and>
     (\<forall>k d. map_of (reg_StructIndex reg) k = Some d \<longrightarrow> run_struct reg d) \<and>
     (\<forall>free owner f. map_of (reg_FunctionOwner reg) free = Some owner \<longrightarrow> fr_Function owner = Some f \<longrightarrow>
        good_callable (run_ref reg) (fn_Return f) (fn_Params f)) \<and>
     (\<forall>meta \<in> set (reg_Namespaces reg). good_namespace (run_ref reg) (run_struct reg) reg meta) \<and>
     (\<forall>ns meta. map_of (reg_ByNamespace reg) ns = Some meta \<longrightarrow> meta \<in> set (reg_Namespaces reg))"

definition run_inv :: "registry \<Rightarrow> generator \<Rightarrow> bool" where
  "run_inv reg g \<longleftrightarrow> runnable reg \<and> g_registry g = reg \<and> set (rn_Referenced (g_resolution g)) \<subseteq> fst ` set (reg_ByNamespace reg)"

text \<open>The contract holds for the model's own resolver, layout engine and indexes.\<close>

interpretation run: total_run "run_inv reg" "run_ref reg" "run_struct reg" reg for reg :: registry
proof
  have r: "acyclic (typedef_uses (reg_TypedefIndex reg))" "values_founded reg"
      "map_of (reg_TypedefIndex reg) k = Some td \<Longrightarrow> run_ref reg (td_Underlying td)"
      "map_of (reg_StructIndex reg) k = Some d \<Longrightarrow> run_struct reg d"
      "map_of (reg_FunctionOwner reg) free = Some owner \<Longrightarrow> fr_Function owner = Some f \<Longrightarrow> good_callable (run_ref reg) (fn_Return f) (fn_Params f)"
      "meta \<in> set (reg_Namespaces reg) \<Longrightarrow> good_namespace (run_ref reg) (run_struct reg) reg meta"
      "map_of (reg_ByNamespace reg) ns = Some meta \<Longrightarrow> meta \<in> set (reg_Namespaces reg)"
    if "run_inv reg g" for g k td d free owner f meta ns
    using that unfolding run_inv_def runnable_def by blast+
  let ?A = "insert [] (fst ` set (reg_ByNamespace reg))"
  show "run_inv reg g'" if "same_view g g'" "run_inv reg g" for g g'
  proof -
    have "mp_Registry ((g_mapper g')\<lparr>mp_SkippedTypes := []\<rparr>) = mp_Registry ((g_mapper g)\<lparr>mp_SkippedTypes := []\<rparr>)"
      using that(1) unfolding same_view_def by metis
    then have "g_registry g' = g_registry g" by simp
    with that show ?thesis by (simp add: run_inv_def same_view_def)
  qed
  show "\<exists>res g'. resolve_type ref ctx g = Some (res, g') \<and> run_inv reg g'" if "run_inv reg g" "run_ref reg ref" for g ref ctx
  proof -
    note i = that(1)
    have reg: "g_registry g = reg" using that(1) by (simp add: run_inv_def)
    obtain res st where g: "GoType (Suc (length (reg_TypedefIndex reg))) (g_mapper g) ref ctx (g_resolution g) = Some (res, st)"
      "resolve_type ref ctx g = Some (res, g\<lparr>g_resolution := st\<rparr>)"
      using resolve_type_returns [of g ref ctx] r(1) [OF i] reg by (fastforce simp: resolve_type_def)
    have "flat_closed (g_mapper g) (cx_Namespace ctx) ?A"
      using r(3) [OF that(1)] reg unfolding flat_closed_def Typedef_def run_ref_def by blast
    from GoType_reports_aux(1) [OF this _ g(1)] have "imports_within (g_mapper g) (importable (g_mapper g) (cx_Namespace ctx) ?A) (g_resolution g) st"
      using that(2) by (simp add: run_ref_def)
    then have "set (rn_Referenced st) \<subseteq> fst ` set (reg_ByNamespace reg)"
      using that(1) unfolding imports_within_def importable_def run_inv_def by blast
    with g(2) that(1) show ?thesis by (simp add: run_inv_def)
  qed
  show "layout_of_ref ref g \<noteq> None \<and> blob_type_of ref g \<noteq> None" if "run_inv reg g" "run_ref reg ref" for g ref
    using layout_entry_points(1,2) [of g ref] arrays_ok_subset [OF _ value_refs_walk] that r(2) [OF that(1)] by (simp add: run_inv_def run_ref_def)
  show "struct_layout_of d clampPacking g \<noteq> None \<and> opaqueBlobFields d name what g \<noteq> None"
    if "run_inv reg g" "run_struct reg d" for g d clampPacking name what
    using layout_entry_points(3,4) [of g d] arrays_ok_subset [OF _ struct_value_refs_walk] that r(2) [OF that(1)] by (simp add: run_inv_def run_struct_def)
  show "constant_base_of ref g \<noteq> None" if "run_inv reg g" "run_ref reg ref" for g ref
    using constant_base_returns [of g ref] that(1) r(1) [OF that(1)] by (simp add: run_inv_def)
  show "run_ref reg c" if "run_ref reg ref" "ref_Child ref = Some c" for ref c
  proof -
    have "set (walk_ref c) \<subseteq> set (walk_ref ref)" using that(2) by (auto simp: walk_ref.simps [of ref])
    then show ?thesis using that ref_apis_child [OF that(2)] arrays_ok_subset by (simp add: run_ref_def) blast
  qed
  show "run_ref reg (sf_Type f)" if "run_struct reg d" "f \<in> set (st_Fields d)" for d f
    using walk_struct_parts(1) [OF that(2)] that(1) unfolding run_struct_def run_ref_def arrays_ok_def ref_apis_def by blast
  show "run_struct reg s" if "run_struct reg d" "(n, s) \<in> set (st_NestedTypes d)" for d n s
    using walk_struct_parts(2) [OF that(2)] that(1) unfolding run_struct_def arrays_ok_def by blast
  show "run_struct reg v" if "run_struct reg d" "v \<in> set (st_ArchVariants d)" for d v
    using walk_struct_parts(3) [OF that(2)] that(1) unfolding run_struct_def arrays_ok_def by blast
  show "run_struct reg d" if "run_inv reg g" "map_of (reg_StructIndex (g_registry g)) key = Some d" for g key d
    using r(4) [OF that(1)] that by (simp add: run_inv_def)
  show "good_callable (run_ref reg) (fn_Return fn) (fn_Params fn)"
    if "run_inv reg g" "owner_function free g = Some (owner, fn)" for g free owner fn
    using r(5) [OF that(1)] that by (auto simp: run_inv_def owner_function_def bind_eq_Some_conv)
  show "g_registry g = reg" if "run_inv reg g" for g using that by (simp add: run_inv_def)
  show "good_namespace (run_ref reg) (run_struct reg) reg meta"
    if "run_inv reg g" "meta \<in> set (reg_Namespaces reg)" for g meta using r(6) that by blast
  show "good_namespace (run_ref reg) (run_struct reg) reg meta"
    if "run_inv reg g" "map_of (reg_ByNamespace reg) ns = Some meta" for g ns meta using r(6,7) that by blast
  show "map_of (reg_ByNamespace reg) ns \<noteq> None" if "run_inv reg g" "ns \<in> set (rn_Referenced (g_resolution g))" for g ns
    using that unfolding run_inv_def map_of_eq_None_iff by blast
qed

section \<open>Loaded and accepted metadata\<close>

text \<open>The walk of a namespace contains the walks of its parts.\<close>

lemma namespace_walks:
  "f \<in> set (ns_Functions meta) \<Longrightarrow> set (walk_ref (fn_Return f)) \<subseteq> set (WalkNamespaceRefs meta)"
  "f \<in> set (ns_Functions meta) \<Longrightarrow> p \<in> set (fn_Params f) \<Longrightarrow> set (walk_ref (p_Type p)) \<subseteq> set (WalkNamespaceRefs meta)"
  "(n, s) \<in> set (ns_Structs meta) \<Longrightarrow> set (walk_struct s) \<subseteq> set (WalkNamespaceRefs meta)"
  "(n, td) \<in> set (ns_Typedefs meta) \<Longrightarrow> set (walk_ref (td_Underlying td)) \<subseteq> set (WalkNamespaceRefs meta)"
  "(n, d) \<in> set (ns_Delegates meta) \<Longrightarrow> set (walk_ref (fp_Return d)) \<subseteq> set (WalkNamespaceRefs meta)"
  "(n, d) \<in> set (ns_Delegates meta) \<Longrightarrow> p \<in> set (fp_Params d) \<Longrightarrow> set (walk_ref (p_Type p)) \<subseteq> set (WalkNamespaceRefs meta)"
  "c \<in> set (ns_Constants meta) \<Longrightarrow> set (walk_ref (cn_Type c)) \<subseteq> set (WalkNamespaceRefs meta)"
  "(n, i) \<in> set (ns_Interfaces meta) \<Longrightarrow> m \<in> set (ci_Methods i) \<Longrightarrow> set (walk_ref (cm_Return m)) \<subseteq> set (WalkNamespaceRefs meta)"
  "(n, i) \<in> set (ns_Interfaces meta) \<Longrightarrow> m \<in> set (ci_Methods i) \<Longrightarrow> p \<in> set (cm_Params m) \<Longrightarrow>
     set (walk_ref (p_Type p)) \<subseteq> set (WalkNamespaceRefs meta)"
  by (fastforce simp: WalkNamespaceRefs_def walk_params_def)+

lemma qualified_api:
  "qual_key api base = qual_key ns name \<Longrightarrow> CHR ''.'' \<notin> set base \<Longrightarrow> CHR ''.'' \<notin> set name \<Longrightarrow> api = ns"
  by (auto simp: qual_key_def append_eq_append_conv2 Cons_eq_append_conv append_eq_Cons_conv)

text \<open>Interfaces and their bases are named without dots, as metadata names types.\<close>

definition dotless_interfaces :: "namespace_meta \<Rightarrow> bool" where
  "dotless_interfaces meta \<longleftrightarrow>
     (\<forall>(n, c) \<in> set (ns_Interfaces meta). CHR ''.'' \<notin> set n \<and> CHR ''.'' \<notin> set (ci_BaseInterface c))"

lemma owner_spec_member:
  assumes "owner_spec decls name = Some owner" "fr_Function owner = Some f"
  shows "\<exists>ns. (ns, f) \<in> set decls"
proof -
  from assms(1) obtain d ds where c: "filter (\<lambda>(ns, f). fn_Name f = name) decls = d # ds"
    unfolding owner_spec_def by (cases "filter (\<lambda>(ns, f). fn_Name f = name) decls") auto
  have "d \<in> set (filter (\<lambda>(ns, f). fn_Name f = name) decls)" unfolding c by simp
  then have "d \<in> set decls" by simp
  moreover have "snd d = f" using assms c by (cases d) (auto simp: owner_spec_def split: if_split_asm)
  ultimately show ?thesis by (metis prod.collapse)
qed

lemma accepted_runnable:
  assumes load: "LoadAll dirs = Inr reg" and accepted: "snd (runValidate reg)"
    and arrays: "\<forall>meta \<in> set (concat dirs). arrays_ok (WalkNamespaceRefs meta)"
    and dots: "\<forall>meta \<in> set (concat dirs). dotless_interfaces meta"
    and founded: "acyclic (typedef_uses (reg_TypedefIndex reg))" "acyclic (value_uses reg)"
  shows "runnable reg"
proof -
  note src = loaded_sources [OF load]
  have apis: "ref_Api x \<in> insert [] (fst ` set (reg_ByNamespace reg))"
    if "meta \<in> set (concat dirs)" "x \<in> set (WalkNamespaceRefs meta)" "ref_Kind x = ''ApiRef''" for meta x
  proof -
    have "namespace_errors reg meta = []" using accepted that(1) unfolding runValidate_accepts src(1) by blast
    then have "reference_errors reg (ns_Namespace meta) x = []" using that(2) by (simp add: namespace_errors_def Let_def)
    with that(3) have "ref_Api x = [] \<or> map_of (reg_ByNamespace reg) (ref_Api x) \<noteq> None"
      by (auto simp: reference_errors_def split: if_split_asm)
    then show ?thesis by (auto simp: map_of_eq_None_iff)
  qed
  have ref: "run_ref reg x" if "meta \<in> set (concat dirs)" "set (walk_ref x) \<subseteq> set (WalkNamespaceRefs meta)" for meta x
    using that arrays_ok_subset [OF bspec [OF arrays that(1)] that(2)] apis [OF that(1)] unfolding run_ref_def ref_apis_def by blast
  have struct: "run_struct reg d" if "meta \<in> set (concat dirs)" "set (walk_struct d) \<subseteq> set (WalkNamespaceRefs meta)" for meta d
    using that arrays_ok_subset [OF bspec [OF arrays that(1)] that(2)] apis [OF that(1)] unfolding run_struct_def by blast
  have callable: "good_callable (run_ref reg) ret ps"
    if "meta \<in> set (concat dirs)" "set (walk_ref ret) \<subseteq> set (WalkNamespaceRefs meta)"
      "\<And>p. p \<in> set ps \<Longrightarrow> set (walk_ref (p_Type p)) \<subseteq> set (WalkNamespaceRefs meta)" for meta ret ps
    using ref that unfolding good_callable_def by blast
  have named: "run_ref reg (named_ref ns n k)" if "ns \<in> fst ` set (reg_ByNamespace reg)" for ns n k
    using that by (simp add: run_ref_def named_ref_def arrays_ok_def ref_apis_def)
  have base: "good_base (run_ref reg) reg c" if m: "meta \<in> set (concat dirs)" and c: "(n, c) \<in> set (ns_Interfaces meta)" for meta n c
  proof -
    have "ci_BaseInterfaceApi c \<in> fst ` set (reg_ByNamespace reg)"
      if "Interface reg (ci_BaseInterfaceApi c) (ci_BaseInterface c) = Some b" for b
    proof -
      note b = that [unfolded Interface_def]
      obtain meta' n' where m': "meta' \<in> set (concat dirs)" "(n', b) \<in> set (ns_Interfaces meta')"
        and key: "qual_key (ci_BaseInterfaceApi c) (ci_BaseInterface c) = qual_key (ns_Namespace meta') n'"
        using src(6) [OF b] by blast
      have "CHR ''.'' \<notin> set (ci_BaseInterface c)" "CHR ''.'' \<notin> set n'"
        using dots m c m' unfolding dotless_interfaces_def by blast+
      from qualified_api [OF key this] m'(1) show ?thesis unfolding src(3) by blast
    qed
    then show ?thesis using named unfolding good_base_def by blast
  qed
  have typedefs: "run_ref reg (td_Underlying td)" if "map_of (reg_TypedefIndex reg) k = Some td" for k td
    using src(4) [OF that] ref namespace_walks(4) by blast
  have structs: "run_struct reg d" if "map_of (reg_StructIndex reg) k = Some d" for k d
    using src(5) [OF that] struct namespace_walks(3) by blast
  have owners: "good_callable (run_ref reg) (fn_Return f) (fn_Params f)"
    if "map_of (reg_FunctionOwner reg) free = Some owner" "fr_Function owner = Some f" for free owner f
  proof -
    have "reg = foldl index_namespace (empty_registry (concat dirs)) (concat dirs)"
      using load by (auto simp: LoadAll_def Let_def split: if_splits)
    then have "map_of (reg_FunctionOwner reg) free = owner_spec (declarations (concat dirs)) free"
      by (simp add: foldl_index_owner fold_index_pair) (simp add: empty_registry_def fold_index_pair)
    with that owner_spec_member obtain ns where "(ns, f) \<in> set (declarations (concat dirs))" by metis
    then obtain meta where "meta \<in> set (concat dirs)" "f \<in> set (ns_Functions meta)" by (auto simp: declarations_def)
    then show ?thesis using callable namespace_walks(1,2) by blast
  qed
  have good: "good_namespace (run_ref reg) (run_struct reg) reg meta" if "meta \<in> set (concat dirs)" for meta
  proof -
    have "ns_Namespace meta \<in> fst ` set (reg_ByNamespace reg)" using that unfolding src(3) by blast
    then have "\<forall>(n, td) \<in> set (ns_Typedefs meta). run_ref reg (td_Underlying td) \<and> run_ref reg (named_ref (ns_Namespace meta) n ''Typedef'')"
      using ref [OF that namespace_walks(4)] named by blast
    moreover have "\<forall>(n, d) \<in> set (ns_Structs meta). run_struct reg d" using struct [OF that namespace_walks(3)] by blast
    moreover have "\<forall>(n, d) \<in> set (ns_Delegates meta). good_callable (run_ref reg) (fp_Return d) (fp_Params d)"
      using callable [OF that namespace_walks(5)] namespace_walks(6) by blast
    moreover have "\<forall>(n, c) \<in> set (ns_Interfaces meta). good_base (run_ref reg) reg c \<and>
        (\<forall>m \<in> set (ci_Methods c). good_callable (run_ref reg) (cm_Return m) (cm_Params m))"
      using base [OF that] callable [OF that namespace_walks(8)] namespace_walks(9) by blast
    moreover have "\<forall>c \<in> set (ns_Constants meta). run_ref reg (cn_Type c)" using ref [OF that namespace_walks(7)] by blast
    moreover have "\<forall>f \<in> set (ns_Functions meta). good_callable (run_ref reg) (fn_Return f) (fn_Params f)"
      using callable [OF that namespace_walks(1)] namespace_walks(2) by blast
    ultimately show ?thesis unfolding good_namespace_def by blast
  qed
  have "values_founded reg"
    using founded(2) typedefs structs arrays_ok_subset [OF _ value_refs_walk] arrays_ok_subset [OF _ struct_value_refs_walk]
    unfolding values_founded_def run_ref_def run_struct_def by blast
  with founded(1) typedefs structs owners good src(2) show ?thesis unfolding runnable_def src(1) by blast
qed

lemma runnable_start: "runnable reg \<Longrightarrow> run_inv reg (New reg modulePath outDir)"
  by (simp add: run_inv_def New_def empty_resolution_def)

text \<open>
  \<^bold>\<open>C35\<close>: the generator returns on every metadata that \<open>validate\<close> accepts, if no type contains itself by
  value, no typedef is its own underlying type and every array has an element type: no builder recurses
  without end, no layout and no constant is undefined, and every namespace the run discovers is loaded. The
  only error left is that \<open>go/format\<close> rejects a generated source.
\<close>

theorem EmitAll_total:
  assumes "LoadAll dirs = Inr reg" "snd (runValidate reg)"
    and "\<forall>meta \<in> set (concat dirs). arrays_ok (WalkNamespaceRefs meta) \<and> dotless_interfaces meta"
    and "acyclic (typedef_uses (reg_TypedefIndex reg))" "acyclic (value_uses reg)"
    and "set filters \<subseteq> ns_Namespace ` set (concat dirs)"
  shows "case EmitAll (template_renderers format) filters t (New reg modulePath outDir) of
      None \<Rightarrow> False
    | Some (Inl e) \<Rightarrow> (\<exists>meta \<in> set (concat dirs). \<exists>e'. rejects format meta e' \<and> e = ''emitting '' @ ns_Namespace meta @ '': '' @ e')
    | Some (Inr (n, g, t')) \<Rightarrow> True"
proof -
  let ?g = "New reg modulePath outDir"
  note src = loaded_sources [OF assms(1)]
  have "runnable reg" by (rule accepted_runnable [OF assms(1,2) _ _ assms(4,5)]) (use assms(3) in blast)+
  then have start: "run_inv reg ?g" by (rule runnable_start)
  have "set (run_roots filters ?g) \<subseteq> ns_Namespace ` set (concat dirs)"
    using assms(6) src(1) by (auto simp: run_roots_def New_def)
  then have "\<forall>ns \<in> set (run_roots filters ?g). map_of (reg_ByNamespace reg) ns \<noteq> None"
    unfolding map_of_eq_None_iff src(3) by blast
  from run.EmitAll_runs [OF start this, of "template_renderers format" t] obtain r where
    r: "EmitAll (template_renderers format) filters t ?g = Some r"
    and e: "\<forall>e. r = Inl e \<longrightarrow> (\<exists>ns meta g e'. map_of (reg_ByNamespace reg) ns = Some meta \<and>
       emitNamespace (template_renderers format) meta g = Some (Inl e') \<and> e = ''emitting '' @ ns @ '': '' @ e')" by blast
  show ?thesis
  proof (cases r)
    case (Inl e0)
    then obtain ns meta g e' where "map_of (reg_ByNamespace reg) ns = Some meta"
      "emitNamespace (template_renderers format) meta g = Some (Inl e')" "e0 = ''emitting '' @ ns @ '': '' @ e'" using e by blast
    with src(2) fails_onlyD [OF emitNamespace_fails] have "\<exists>meta \<in> set (concat dirs). \<exists>e'. rejects format meta e' \<and>
        e0 = ''emitting '' @ ns_Namespace meta @ '': '' @ e'" by blast
    with r Inl show ?thesis by simp
  qed (simp add: r split_def)
qed

text \<open>A run on three namespaces whose sources the formatter takes as they are.\<close>

definition value_entries :: "registry \<Rightarrow> ((bool \<times> string) \<times> type_ref list) list" where
  "value_entries reg = map (\<lambda>e. ((True, fst e), value_refs (td_Underlying (snd e)))) (reg_TypedefIndex reg) @
     map (\<lambda>e. ((False, fst e), struct_value_refs (snd e))) (reg_StructIndex reg)"

definition uses_of :: "(bool \<times> string) list \<Rightarrow> (bool \<times> string) \<times> type_ref list \<Rightarrow> ((bool \<times> string) \<times> (bool \<times> string)) list" where
  "uses_of keys e = map (\<lambda>x. (value_key x, fst e)) (filter (\<lambda>x. value_key x \<in> set keys) (snd e))"

lemma value_uses_listed: "value_uses reg \<subseteq> set (concat (map (uses_of (value_keys reg)) (value_entries reg)))"
proof (rule subrelI)
  fix k' k assume u: "(k', k) \<in> value_uses reg"
  have listed: "(k', k) \<in> set (uses_of (value_keys reg) (k, refs))"
    if "x \<in> set refs" "k' = value_key x" for x refs
    using u that by (auto simp: uses_of_def value_uses_def)
  from u consider x n td where "k' = value_key x" "k = (True, n)" "map_of (reg_TypedefIndex reg) n = Some td" "x \<in> set (value_refs (td_Underlying td))"
    | x n d where "k' = value_key x" "k = (False, n)" "map_of (reg_StructIndex reg) n = Some d" "x \<in> set (struct_value_refs d)"
    unfolding value_uses_def by blast
  then obtain e where "e \<in> set (value_entries reg)" "(k', k) \<in> set (uses_of (value_keys reg) e)"
  proof cases
    case 1
    have "(k, value_refs (td_Underlying td)) \<in> set (value_entries reg)"
      using map_of_SomeD [OF 1(3)] 1(2) by (auto simp: value_entries_def intro: image_eqI [of _ _ "(n, td)"])
    with that listed [OF 1(4,1)] show ?thesis by blast
  next
    case 2
    have "(k, struct_value_refs d) \<in> set (value_entries reg)"
      using map_of_SomeD [OF 2(3)] 2(2) by (auto simp: value_entries_def intro: image_eqI [of _ _ "(n, d)"])
    with that listed [OF 2(4,1)] show ?thesis by blast
  qed
  then show "(k', k) \<in> set (concat (map (uses_of (value_keys reg)) (value_entries reg)))" by auto
qed

lemma EmitAll_total_witness:
  "\<exists>n g t. EmitAll (template_renderers Inr) [''A''] empty_tree leak_generator = Some (Inr (n, g, t))"
proof -
  let ?reg = "foldl index_namespace (empty_registry leak_namespaces) leak_namespaces"
  have load: "LoadAll [leak_namespaces] = Inr ?reg" by (simp add: LoadAll_def leak_namespaces_def)
  have accepted: "snd (runValidate ?reg)" by code_simp
  have shape: "\<forall>meta \<in> set (concat [leak_namespaces]). arrays_ok (WalkNamespaceRefs meta) \<and> dotless_interfaces meta"
    unfolding arrays_ok_def dotless_interfaces_def by code_simp
  have "reg_TypedefIndex ?reg = []" by code_simp
  then have typedefs: "acyclic (typedef_uses (reg_TypedefIndex ?reg))" by (simp add: typedef_uses_def acyclic_def)
  have "value_uses ?reg \<subseteq> {((False, ''C.T''), (False, ''B.S''))}"
    by (rule subset_trans [OF value_uses_listed]) code_simp
  then have "acyclic (value_uses ?reg)"
    by (rule acyclic_subset [rotated]) (simp add: acyclic_insert, simp add: acyclic_def)
  from EmitAll_total [OF load accepted shape typedefs this, of "[''A'']" Inr empty_tree "[]" "''out''"]
  have "case EmitAll (template_renderers Inr) [''A''] empty_tree leak_generator of
      None \<Rightarrow> False | Some (Inl e) \<Rightarrow> False | Some (Inr (n, g, t')) \<Rightarrow> True"
    by (simp add: leak_generator_def leak_namespaces_def empty_namespace_def rejects_def cong: option.case_cong sum.case_cong)
  then show ?thesis by (auto split: option.split_asm sum.split_asm)
qed

end
