(* ===== verification/Dispatch.thy ===== *)
theory Dispatch
  imports Slices FunctionFacts InterfaceFacts Call Runtime
begin

text \<open>
  Where generated code meets the runtime: the names a generated signature and its body declare, the result
  pointers, and the two ways a by-value structure reaches the callee.
\<close>

section \<open>Names in a signature\<close>

definition plain_name :: "string \<Rightarrow> bool" where
  "plain_name n \<longleftrightarrow> n \<noteq> [] \<and> hd n \<noteq> CHR ''_'' \<and> last n \<noteq> CHR ''_''"

lemma param_name_shape: "n \<noteq> [] \<Longrightarrow> \<exists>k. avoidCollision (ParamName n) reserved = n @ replicate k (CHR ''_'')"
proof -
  assume n: "n \<noteq> []"
  obtain k where k: "avoidCollision (ParamName n) reserved = ParamName n @ replicate k (CHR ''_'')"
    using avoidCollision_prefix by blast
  show ?thesis
  proof (cases "n \<in> set goReservedWords")
    case True
    with k n show ?thesis by (intro exI [of _ "Suc k"]) (simp add: ParamName_def)
  next
    case False
    with k n show ?thesis by (intro exI [of _ k]) (simp add: ParamName_def)
  qed
qed

lemma underscored_eq:
  assumes "n @ replicate k (CHR ''_'') = n' @ replicate k' (CHR ''_'')" "plain_name n" "plain_name n'"
  shows "n = n'"
proof -
  have strip: "dropWhile ((=) (CHR ''_'')) (rev (x @ replicate j (CHR ''_''))) = rev x" if "plain_name x" for x j
  proof -
    have "dropWhile ((=) (CHR ''_'')) (replicate j (CHR ''_'') @ rev x) = dropWhile ((=) (CHR ''_'')) (rev x)"
      by (rule dropWhile_append2) simp
    also have "\<dots> = rev x" using that by (cases x rule: rev_cases) (auto simp: plain_name_def)
    finally show ?thesis by simp
  qed
  from strip [OF assms(2), of k] strip [OF assms(3), of k'] assms(1) show ?thesis by simp
qed

lemma param_name_not_reserved: "n \<noteq> [] \<Longrightarrow> avoidCollision (ParamName n) reserved \<notin> set goReservedWords"
proof -
  obtain k where k: "avoidCollision (ParamName n) reserved = ParamName n @ replicate k (CHR ''_'')"
    using avoidCollision_prefix by blast
  have no_end: "\<forall>w \<in> set goReservedWords. last w \<noteq> CHR ''_''" by (simp add: goReservedWords_def)
  show ?thesis
  proof (cases k)
    case 0
    then show ?thesis using k ParamName_not_reserved by simp
  next
    case (Suc j)
    then have "last (avoidCollision (ParamName n) reserved) = CHR ''_''" unfolding k by simp
    then show ?thesis using no_end by metis
  qed
qed

text \<open>
  The Go names of parameters with different names are different, and none is reserved; a local is such a
  name after an underscore.
\<close>

lemma signature_names_ok:
  fixes reserved :: "string list"
  assumes "distinct (map p_Name params)" "\<forall>p \<in> set params. plain_name (p_Name p)"
  defines "names \<equiv> param_names params reserved"
  shows "distinct (names @ ''_ret'' # map (\<lambda>n. ''_'' @ n) names) \<and> set names \<inter> (set goReservedWords \<union> set reserved) = {}"
proof -
  have shape: "\<exists>k. avoidCollision (ParamName (p_Name p)) reserved = p_Name p @ replicate k (CHR ''_'')" if "p \<in> set params" for p
    using param_name_shape assms(2) that unfolding plain_name_def by blast
  have inj: "inj_on (\<lambda>p. avoidCollision (ParamName (p_Name p)) reserved) (set params)"
  proof (rule inj_onI)
    fix p q assume pq: "p \<in> set params" "q \<in> set params"
      "avoidCollision (ParamName (p_Name p)) reserved = avoidCollision (ParamName (p_Name q)) reserved"
    then have "p_Name p = p_Name q" using shape [of p] shape [of q] underscored_eq assms(2) by metis
    then show "p = q" using assms(1) pq(1,2) by (auto simp: distinct_map inj_on_def)
  qed
  have d: "distinct names" using inj assms(1) by (simp add: names_def param_names_def distinct_map)
  have free: "n \<notin> set goReservedWords \<and> n \<notin> set reserved \<and> n \<noteq> [] \<and> hd n \<noteq> CHR ''_''" if n: "n \<in> set names" for n
  proof -
    from n obtain p where p: "p \<in> set params" "n = avoidCollision (ParamName (p_Name p)) reserved"
      by (auto simp: names_def param_names_def)
    have plain: "plain_name (p_Name p)" using assms(2) p(1) by blast
    obtain k where k: "n = p_Name p @ replicate k (CHR ''_'')" using shape [OF p(1)] p(2) by blast
    with plain have "n \<noteq> [] \<and> hd n \<noteq> CHR ''_''" by (simp add: plain_name_def)
    moreover have "n \<notin> set goReservedWords" unfolding p(2) using param_name_not_reserved plain by (simp add: plain_name_def)
    moreover have "n \<notin> set reserved" unfolding p(2) by (rule avoidCollision_not_reserved)
    ultimately show ?thesis by blast
  qed
  have "''ret'' \<in> set goReservedWords" by (simp add: goReservedWords_def)
  then have ret: "''ret'' \<notin> set names" using free by blast
  have locals: "distinct (map (\<lambda>n. ''_'' @ n) names)" using d by (simp add: distinct_map inj_on_def)
  have "set names \<inter> set (''_ret'' # map (\<lambda>n. ''_'' @ n) names) = {}"
  proof (rule equals0I)
    fix n assume n: "n \<in> set names \<inter> set (''_ret'' # map (\<lambda>n. ''_'' @ n) names)"
    then have "hd n = CHR ''_''" by auto
    with n free show False by blast
  qed
  moreover have "''_ret'' \<notin> set (map (\<lambda>n. ''_'' @ n) names)" using ret by auto
  ultimately have "distinct (names @ ''_ret'' # map (\<lambda>n. ''_'' @ n) names)" using d locals by simp
  moreover have "set names \<inter> (set goReservedWords \<union> set reserved) = {}" using free by blast
  ultimately show ?thesis by blast
qed

text \<open>What a parameter declares, and the local a line of the body declares: \<open>x := ...\<close> or \<open>var x T\<close>.\<close>

definition first_word :: "string \<Rightarrow> string" where
  "first_word s = takeWhile (\<lambda>c. c \<noteq> CHR '' '') s"

definition declared_local :: "string \<Rightarrow> string option" where
  "declared_local line =
     (if has_prefix line ''var '' then Some (first_word (drop 4 line))
      else if has_prefix (drop (length (first_word line)) line) '' := '' then Some (first_word line)
      else None)"

definition declared_locals :: "string list \<Rightarrow> string list" where
  "declared_locals lines = List.map_filter declared_local lines"

lemma declared_locals_simps [simp]:
  "declared_locals [] = []"
  "declared_locals (ls @ ls') = declared_locals ls @ declared_locals ls'"
  by (simp_all add: declared_locals_def map_filter_def)

lemma first_word_append: "no_space n \<Longrightarrow> first_word (n @ CHR '' '' # rest) = n"
  unfolding first_word_def by (induction n) (auto simp: no_space_def)

lemma underscore_line: "no_space n \<Longrightarrow> declared_locals [''_'' @ n @ '' := '' @ e] = [''_'' @ n]"
proof -
  assume "no_space n"
  then have "first_word ((''_'' @ n) @ CHR '' '' # '':= '' @ e) = ''_'' @ n"
    by (intro first_word_append) (simp add: no_space_def)
  then show ?thesis by (simp add: declared_locals_def map_filter_def declared_local_def has_prefix_def)
qed

lemma var_line: "no_space n \<Longrightarrow> declared_locals [''var _'' @ n @ '' '' @ e] = [''_'' @ n]"
proof -
  assume "no_space n"
  then have "first_word ((''_'' @ n) @ CHR '' '' # e) = ''_'' @ n"
    by (intro first_word_append) (simp add: no_space_def)
  then show ?thesis by (simp add: declared_locals_def map_filter_def declared_local_def has_prefix_def)
qed

lemma if_line: "declared_locals [''if len('' @ e] = []"
  by (simp add: declared_locals_def map_filter_def declared_local_def has_prefix_def first_word_def)

lemma shapeParam_names:
  assumes "shapeParam name p r g = Some (Some sp)" "no_space name"
  shows "(sh_decl sp = [] \<or> first_word (sh_decl sp) = name) \<and>
    (declared_locals (sh_preamble sp) = [] \<or> declared_locals (sh_preamble sp) = [''_'' @ name])"
proof -
  have decl: "first_word (name @ '' '' @ e) = name" for e using first_word_append [OF assms(2)] by simp
  have composite: "sh_preamble s = [] \<and> sh_decl s = d" if "composite_param d name l = Some s" for d l s
    using that by (auto simp: composite_param_def word_param_def split: if_split_asm option.split_asm)
  have float: "sh_preamble (float_param d name r) = []" "sh_decl (float_param d name r) = d" for d
    by (simp_all add: float_param_def Let_def)
  note lines = underscore_line [OF assms(2), of "''win32.UTF16PtrOrNil('' @ name @ '')''"]
    underscore_line [OF assms(2), of "''win32.UTF16Ptr('' @ name @ '')''"] underscore_line [OF assms(2), of "''win32.Bool32('' @ name @ '')''"]
  from assms(1) show ?thesis
    using lines decl [of "res_GoType r"] decl [of "''*string''"] decl [of "''string''"] decl [of "''bool''"]
    by (auto simp: shapeParam_def word_param_def Let_def float dest!: composite split: if_split_asm arg_class.split_asm option.split_asm)
qed

text \<open>
  Every parameter adds at most one name to the signature and one local to the body, in order, and the local
  is the name after an underscore.
\<close>

lemma shape_params_names:
  "shape_params elevate skipped plans names ps s g = Some (Some s', g') \<Longrightarrow> \<forall>n \<in> set names. no_space n \<Longrightarrow>
     \<forall>(i, p, r) \<in> set ps. i < length names \<Longrightarrow>
     \<exists>I J. subseq I (map fst ps) \<and> subseq J (map fst ps) \<and>
       map first_word (sg_decls s') = map first_word (sg_decls s) @ map (\<lambda>i. names ! i) I \<and>
       declared_locals (sg_preamble s') = declared_locals (sg_preamble s) @ map (\<lambda>i. ''_'' @ names ! i) J"
proof (induction elevate skipped plans names ps s g rule: shape_params.induct)
  case (1 elevate skipped plans names s g)
  then show ?case by (intro exI [of _ "[]"]) simp
next
  case (2 elevate skipped plans names i p r rest s g)
  let ?n = "names ! i" and ?goal = "\<lambda>s k l. \<exists>I J. subseq I k \<and> subseq J k \<and>
       map first_word (sg_decls s') = map first_word (sg_decls s) @ map (\<lambda>i. names ! i) I \<and>
       declared_locals (sg_preamble s') = declared_locals (sg_preamble s) @ map (\<lambda>i. ''_'' @ names ! i) J"
  have n: "no_space ?n" using "2.prems"(2,3) by auto
  have rest: "\<forall>(i, p, r) \<in> set rest. i < length names" using "2.prems"(3) by (auto split: prod.split)
  have step: ?case
    if new: "map first_word (sg_decls s1) = map first_word (sg_decls s) @ (if a then [?n] else [])"
      "declared_locals (sg_preamble s1) = declared_locals (sg_preamble s) @ (if b then [''_'' @ ?n] else [])"
      and IH: "\<exists>I J. subseq I (map fst rest) \<and> subseq J (map fst rest) \<and>
        map first_word (sg_decls s') = map first_word (sg_decls s1) @ map (\<lambda>i. names ! i) I \<and>
        declared_locals (sg_preamble s') = declared_locals (sg_preamble s1) @ map (\<lambda>i. ''_'' @ names ! i) J" for s1 a b
  proof -
    from IH obtain I J where IJ: "subseq I (map fst rest)" "subseq J (map fst rest)"
      "map first_word (sg_decls s') = map first_word (sg_decls s1) @ map (\<lambda>i. names ! i) I"
      "declared_locals (sg_preamble s') = declared_locals (sg_preamble s1) @ map (\<lambda>i. ''_'' @ names ! i) J" by blast
    have "subseq ((if c then [i] else []) @ K) (map fst ((i, p, r) # rest))" if "subseq K (map fst rest)" for c K
      using that by auto
    from this [OF IJ(1), of a] this [OF IJ(2), of b] IJ(3,4) new show ?thesis
      by (intro exI [of _ "(if a then [i] else []) @ I"] exI [of _ "(if b then [i] else []) @ J"]) simp
  qed
  consider (elevated) element where "(if elevate then retValElement p r else None) = Some element"
    | (count) array where "(if elevate then retValElement p r else None) = None" "map_of (snd plans) i = Some array"
    | (slice) plan where "(if elevate then retValElement p r else None) = None" "map_of (snd plans) i = None" "map_of (fst plans) i = Some plan"
    | (param) "(if elevate then retValElement p r else None) = None" "map_of (snd plans) i = None" "map_of (fst plans) i = None"
    by (cases "if elevate then retValElement p r else None"; cases "map_of (snd plans) i"; cases "map_of (fst plans) i") auto
  then show ?case
  proof cases
    case elevated
    have "shape_params elevate skipped plans names rest (add_elevated ?n element s) g = Some (Some s', g')"
      using "2.prems"(1) elevated by simp
    from "2.IH"(4) [OF elevated this "2.prems"(2) rest] show ?thesis
      by (rule step [of _ False True, rotated 2]) (use underscore_line [OF n, of "''new('' @ element @ '')''"] in \<open>simp_all add: add_elevated_def Let_def\<close>)
  next
    case count
    have "shape_params elevate skipped plans names rest (add_count (names ! array) s) g = Some (Some s', g')"
      using "2.prems"(1) count by simp
    from "2.IH"(3) [OF count this "2.prems"(2) rest] show ?thesis
      by (rule step [of _ False False, rotated 2]) (simp_all add: add_count_def)
  next
    case slice
    let ?f = "''if len('' @ ?n @ '') > 0 { '' @ (''_'' @ ?n) @ '' = &'' @ ?n @ ''[0] }''"
    have p: "sg_preamble (add_slice ?n plan s) = sg_preamble s @ [''var _'' @ ?n @ '' '' @ sp_rawPointerType plan] @ [?f]"
      "sg_decls (add_slice ?n plan s) = sg_decls s @ [?n @ CHR '' '' # ''[]'' @ sp_element plan]"
      by (simp_all add: add_slice_def Let_def)
    have "shape_params elevate skipped plans names rest (add_slice ?n plan s) g = Some (Some s', g')"
      using "2.prems"(1) slice by simp
    from "2.IH"(2) [OF slice this "2.prems"(2) rest] show ?thesis
    proof (rule step [of _ True True, rotated 2])
      show "map first_word (sg_decls (add_slice ?n plan s)) = map first_word (sg_decls s) @ (if True then [?n] else [])"
        unfolding p using first_word_append [OF n] by simp
      show "declared_locals (sg_preamble (add_slice ?n plan s)) = declared_locals (sg_preamble s) @ (if True then [''_'' @ ?n] else [])"
        unfolding p declared_locals_simps if_line var_line [OF n] by simp
    qed
  next
    case param
    then obtain sp where sp: "shapeParam ?n p r g = Some (Some sp)"
      and run: "shape_params elevate skipped plans names rest (add_shaped sp s) g = Some (Some s', g')"
      using "2.prems"(1) by (auto split: option.split_asm)
    from "2.IH"(1) [OF param sp refl run "2.prems"(2) rest] show ?thesis
      by (rule step [of _ "sh_decl sp \<noteq> []" "declared_locals (sh_preamble sp) \<noteq> []", rotated 2])
        (use shapeParam_names [OF sp n] in \<open>auto simp: add_shaped_def\<close>)
  qed
qed

section \<open>Result pointers\<close>

text \<open>The line of a body that allocates a result, and the argument that passes its address.\<close>

definition result_line :: "string \<Rightarrow> string \<Rightarrow> string" where
  "result_line x t = x @ '' := new('' @ t @ '')''"

definition escaped :: "string \<Rightarrow> string" where
  "escaped x = ''win32.OutParam(unsafe.Pointer('' @ x @ ''))''"

text \<open>Every result allocated in the lines is passed through \<open>OutParam\<close> in the words.\<close>

definition results_escaped :: "string list \<Rightarrow> string list \<Rightarrow> bool" where
  "results_escaped lines words \<longleftrightarrow> (\<forall>x t. result_line x t \<in> set lines \<longrightarrow> no_space x \<longrightarrow>
     (\<exists>w \<in> set words. contains_str w (escaped x)))"

lemma results_escaped_simps [simp]:
  "results_escaped [] words"
  "results_escaped (ls @ ls') words \<longleftrightarrow> results_escaped ls words \<and> results_escaped ls' words"
  by (auto simp: results_escaped_def)

lemma results_escaped_mono: "results_escaped ls ws \<Longrightarrow> set ws \<subseteq> set ws' \<Longrightarrow> results_escaped ls ws'"
  unfolding results_escaped_def by blast

lemma first_space:
  "no_space x \<Longrightarrow> no_space y \<Longrightarrow> x @ CHR '' '' # a = y @ CHR '' '' # b \<Longrightarrow> x = y \<and> a = b"
proof (induction x arbitrary: y)
  case Nil
  then show ?case by (cases y) (auto simp: no_space_def)
next
  case (Cons c x)
  then show ?case by (cases y) (auto simp: no_space_def)
qed

lemma result_line_split:
  "no_space x \<Longrightarrow> no_space y \<Longrightarrow> result_line x t = y @ CHR '' '' # b \<Longrightarrow> x = y \<and> b = '':= new('' @ t @ '')''"
  using first_space [of x y "'':= new('' @ t @ '')''" b] by (simp add: result_line_def)

text \<open>Lines of the other statements are never allocations.\<close>

lemma other_line:
  assumes "no_space y" "\<And>t. b \<noteq> '':= new('' @ t @ '')''"
  shows "results_escaped [y @ CHR '' '' # b] words"
proof -
  have "result_line x t \<noteq> y @ CHR '' '' # b" if "no_space x" for x t
    using result_line_split [OF that assms(1)] assms(2) by blast
  then show ?thesis by (auto simp: results_escaped_def)
qed

lemma new_line:
  assumes "no_space y" "w \<in> set words" "contains_str w (escaped y)"
  shows "results_escaped [y @ '' := new('' @ t @ '')''] words"
  using result_line_split [OF _ assms(1), of _ _ "'':= new('' @ t @ '')''"] assms(2,3) by (auto simp: results_escaped_def)

lemma shapeParam_lines:
  assumes "shapeParam name p r g = Some (Some sp)" "no_space name"
  shows "results_escaped (sh_preamble sp) words"
proof -
  have n: "no_space (''_'' @ name)" using assms(2) by (simp add: no_space_def)
  have lines: "results_escaped [''_'' @ name @ '' := win32.'' @ b] words" for b
    using other_line [OF n, of "'':= win32.'' @ b"] by simp
  have composite: "sh_preamble s = []" if "composite_param d name l = Some s" for d l s
    using that by (auto simp: composite_param_def word_param_def split: if_split_asm option.split_asm)
  have float: "sh_preamble (float_param d name r) = []" for d by (simp add: float_param_def Let_def)
  from assms(1) show ?thesis
    using lines [of "''UTF16PtrOrNil('' @ name @ '')''"] lines [of "''UTF16Ptr('' @ name @ '')''"] lines [of "''Bool32('' @ name @ '')''"]
    by (auto simp: shapeParam_def word_param_def Let_def float dest: composite split: if_split_asm arg_class.split_asm option.split_asm)
qed

lemma add_slice_escaped:
  assumes "results_escaped (sg_preamble s) (sg_argWords s)"
  shows "results_escaped (sg_preamble (add_slice n plan s)) (sg_argWords (add_slice n plan s))"
proof -
  let ?v = "''var '' @ (''_'' @ n) @ '' '' @ sp_rawPointerType plan"
  let ?f = "''if len('' @ n @ '') > 0 { '' @ (''_'' @ n) @ '' = &'' @ n @ ''[0] }''"
  let ?ws = "sg_argWords s @ [pointer_word (''_'' @ n)]"
  have v: "results_escaped [?v] ?ws"
    using other_line [of "''var''" "''_'' @ n @ '' '' @ sp_rawPointerType plan" ?ws] by (simp add: no_space_def)
  have f: "results_escaped [?f] ?ws"
    using other_line [of "''if''" "''len('' @ n @ '') > 0 { '' @ (''_'' @ n) @ '' = &'' @ n @ ''[0] }''" ?ws]
    by (simp add: no_space_def)
  have old: "results_escaped (sg_preamble s) ?ws" by (rule results_escaped_mono [OF assms]) auto
  have p: "sg_preamble (add_slice n plan s) = sg_preamble s @ [?v] @ [?f]"
    by (simp add: add_slice_def Let_def)
  have w: "sg_argWords (add_slice n plan s) = ?ws" by (simp add: add_slice_def Let_def)
  show ?thesis unfolding p w results_escaped_simps using old v f by blast
qed

lemma contains_append [simp]: "contains_str (a @ p @ b) p"
  by (auto simp: contains_str_iff)

lemma shape_params_escaped:
  "shape_params elevate skipped plans names ps s g = Some (Some s', g') \<Longrightarrow> \<forall>n \<in> set names. no_space n \<Longrightarrow>
     \<forall>(i, p, r) \<in> set ps. i < length names \<Longrightarrow> results_escaped (sg_preamble s) (sg_argWords s) \<Longrightarrow>
     results_escaped (sg_preamble s') (sg_argWords s')"
proof (induction elevate skipped plans names ps s g rule: shape_params.induct)
  case (2 elevate skipped plans names i p r rest s g)
  let ?n = "names ! i"
  have n: "no_space ?n" "no_space (''_'' @ ?n)" using "2.prems"(2,3) by (auto simp: no_space_def)
  have old: "results_escaped (sg_preamble s) (sg_argWords s @ ws)" for ws
    using results_escaped_mono [OF "2.prems"(4)] by simp
  have rest: "\<forall>(i, p, r) \<in> set rest. i < length names" using "2.prems"(3) by (auto split: prod.split)
  consider (elevated) element where "(if elevate then retValElement p r else None) = Some element"
    | (count) array where "(if elevate then retValElement p r else None) = None" "map_of (snd plans) i = Some array"
    | (slice) plan where "(if elevate then retValElement p r else None) = None" "map_of (snd plans) i = None" "map_of (fst plans) i = Some plan"
    | (param) "(if elevate then retValElement p r else None) = None" "map_of (snd plans) i = None" "map_of (fst plans) i = None"
    by (cases "if elevate then retValElement p r else None"; cases "map_of (snd plans) i"; cases "map_of (fst plans) i") auto
  then show ?case
  proof cases
    case elevated
    let ?w = "''uintptr('' @ escaped (''_'' @ ?n) @ '')''"
    have "results_escaped [(''_'' @ ?n) @ '' := new('' @ element @ '')''] (sg_argWords s @ [?w])"
      by (rule new_line [OF n(2), of ?w]) (simp, rule contains_append)
    then have "results_escaped (sg_preamble (add_elevated ?n element s)) (sg_argWords (add_elevated ?n element s))"
      using old by (simp add: add_elevated_def Let_def escaped_def)
    with "2.IH"(4) [OF elevated _ "2.prems"(2) rest] "2.prems"(1) elevated show ?thesis by simp
  next
    case count
    have "results_escaped (sg_preamble (add_count (names ! array) s)) (sg_argWords (add_count (names ! array) s))"
      using old by (simp add: add_count_def)
    with "2.IH"(3) [OF count _ "2.prems"(2) rest] "2.prems"(1) count show ?thesis by simp
  next
    case slice
    have "results_escaped (sg_preamble (add_slice ?n plan s)) (sg_argWords (add_slice ?n plan s))"
      by (rule add_slice_escaped [OF "2.prems"(4)])
    with "2.IH"(2) [OF slice _ "2.prems"(2) rest] "2.prems"(1) slice show ?thesis by simp
  next
    case param
    then obtain sp where sp: "shapeParam ?n p r g = Some (Some sp)"
      and run: "shape_params elevate skipped plans names rest (add_shaped sp s) g = Some (Some s', g')"
      using "2.prems"(1) by (auto split: option.split_asm)
    have "results_escaped (sg_preamble (add_shaped sp s)) (sg_argWords (add_shaped sp s))"
      using old shapeParam_lines [OF sp n(1)] by (simp add: add_shaped_def)
    from "2.IH"(1) [OF param sp refl run "2.prems"(2) rest this] show ?thesis .
  qed
qed simp

lemma contains_trans: "contains_str a b \<Longrightarrow> contains_str b c \<Longrightarrow> contains_str a c"
  unfolding contains_str_iff by (metis append.assoc)

lemma join_contains: "w \<in> set ws \<Longrightarrow> \<exists>a b. join_with sep ws = a @ w @ b"
proof (induction sep ws rule: join_with.induct)
  case (2 sep x)
  then show ?case by (intro exI [of _ "[]"]) simp
next
  case (3 sep x y ys)
  show ?case
  proof (cases "w = x")
    case True
    then have "join_with sep (x # y # ys) = [] @ w @ (sep @ join_with sep (y # ys))" by simp
    then show ?thesis by blast
  next
    case False
    with "3.prems" obtain a b where "join_with sep (y # ys) = a @ w @ b" using "3.IH" by auto
    then have "join_with sep (x # y # ys) = (x @ sep @ a) @ w @ b" by simp
    then show ?thesis by blast
  qed
qed simp

lemma callExpr_contains: "w \<in> set (retArg # words) \<Longrightarrow> contains_str (callExpr target specVar retArg words k) w"
proof -
  assume "w \<in> set (retArg # words)"
  then have "w \<in> set (target # specVar # retArg # words)" by simp
  then obtain a b where j: "join_with '', '' (target # specVar # retArg # words) = a @ w @ b" using join_contains by blast
  have "callExpr target specVar retArg words k = (''win32.Call('' @ a) @ w @ (b @ (if k = RetFloat then '')'' else '').Tuple()''))"
    unfolding callExpr_def Let_def j by simp
  then show ?thesis unfolding contains_str_iff by blast
qed

lemma syscall_contains: "w \<in> set words \<Longrightarrow> contains_str (syscall_expr words) w"
proof -
  assume "w \<in> set words"
  then obtain a b where j: "join_with '', '' words = a @ w @ b" using join_contains by blast
  have "syscall_expr words = (''syscall.SyscallN('' @ a) @ w @ (b @ '')'')" unfolding syscall_expr_def j by simp
  then show ?thesis unfolding contains_str_iff by blast
qed

lemma results_escapedD:
  assumes "results_escaped lines words" "\<forall>w \<in> set words. contains_str call w" "result_line x t \<in> set lines" "no_space x"
  shows "contains_str call (escaped x)"
  using assms contains_trans unfolding results_escaped_def by blast

section \<open>Result pointers of functions and methods\<close>

lemma names_no_space: "\<forall>p \<in> set ps. no_space (p_Name p) \<Longrightarrow> \<forall>n \<in> set (param_names ps reserved). no_space n"
proof -
  have "no_space (avoidCollision (ParamName n) reserved)" if n: "no_space n" for n
  proof -
    obtain k where "avoidCollision (ParamName n) reserved = ParamName n @ replicate k (CHR ''_'')"
      using avoidCollision_prefix by blast
    with n show ?thesis by (auto simp: no_space_def ParamName_def)
  qed
  then show "\<forall>p \<in> set ps. no_space (p_Name p) \<Longrightarrow> \<forall>n \<in> set (param_names ps reserved). no_space n"
    by (auto simp: param_names_def)
qed

lemma shape_signature_escaped:
  assumes "shape_signature elevate skipped ps rs r g = Some (Some s, g')" "\<forall>p \<in> set ps. no_space (p_Name p)"
  shows "results_escaped (sg_preamble s) (sg_argWords s)"
proof (rule shape_params_escaped [OF assms(1) [unfolded shape_signature_def] names_no_space [OF assms(2)]])
  show "\<forall>(i, p, q) \<in> set (zip [0..<length ps] (zip ps rs)). i < length (param_names ps (signature_idents rs r))"
    by (auto simp: param_names_def dest: set_zip_leftD)
qed (simp add: empty_shaping_def)

lemma finish_function_call:
  assumes "finish_function meta f raw imports s m rs ra g = (Some x, g')"
  shows "fnm_Preamble x = fnm_Preamble m \<and>
    (\<forall>w \<in> set (sg_argWords s @ (if rs = [] then [] else [ra])). contains_str (fnm_CallExpr x) w)"
proof -
  have ok: "\<not> ((sg_viaCall s \<or> rs \<noteq> []) \<and> maxCallWords < length (sg_argWords s))"
  proof
    assume "(sg_viaCall s \<or> rs \<noteq> []) \<and> maxCallWords < length (sg_argWords s)"
    with assms show False by (simp add: finish_function_def Let_def)
  qed
  obtain n g1 where c: "claimFunctionName meta f raw g = (Some n, g1)"
    using assms unfolding finish_function_def Let_def if_not_P [OF ok]
    by (cases "claimFunctionName meta f raw g") (auto split: option.split_asm)
  have "fnm_Preamble x = fnm_Preamble m \<and>
    fnm_CallExpr x = (if sg_viaCall s \<or> rs \<noteq> []
      then callExpr ((''proc'' @ n) @ ''.Addr()'') (''spec'' @ n) ra (sg_argWords s) (fnm_ReturnKind m)
      else syscall_expr (((''proc'' @ n) @ ''.Addr()'') # sg_argWords s))"
    using assms unfolding finish_function_def Let_def if_not_P [OF ok] c prod.case option.case by auto
  then show ?thesis using callExpr_contains syscall_contains by (auto split: if_split_asm)
qed

lemma register_return_preamble [simp]: "fnm_Preamble (fst (register_return meta f r e m g)) = fnm_Preamble m"
  by (simp add: register_return_def Let_def split_def)

lemma elevated_return_preamble [simp]: "fnm_Preamble (fst (elevated_return meta f mode s m g)) = fnm_Preamble m"
  by (cases mode) (simp_all add: elevated_return_def Let_def split_def)

lemma ret_line: "results_escaped [''_ret := new('' @ t @ '')''] (ws @ [''win32.OutParam(unsafe.Pointer(_ret))''])"
proof -
  have e: "escaped ''_ret'' = ''win32.OutParam(unsafe.Pointer(_ret))''" by (simp add: escaped_def)
  have "results_escaped [''_ret'' @ '' := new('' @ t @ '')''] (ws @ [escaped ''_ret''])"
    by (rule new_line [of _ "escaped ''_ret''"])
      (simp_all add: no_space_def, use contains_append [of "[]" "escaped ''_ret''" "[]"] in simp)
  then show ?thesis unfolding e by simp
qed

lemma struct_spec_nonempty [simp]: "struct_spec l \<noteq> []"
  by (simp add: struct_spec_def split: prod.split)

lemma buildReturnShape_escaped:
  assumes "buildReturnShape m meta f r g = Some (Some (m', rs, ra), g')" "results_escaped (fnm_Preamble m) ws"
  shows "results_escaped (fnm_Preamble m') (ws @ (if rs = [] then [] else [ra]))"
proof -
  have old: "results_escaped (fnm_Preamble m) (ws @ us)" for us using results_escaped_mono [OF assms(2)] by simp
  from assms(1) consider "fnm_Preamble m' = fnm_Preamble m"
    | t where "fnm_Preamble m' = fnm_Preamble m @ [''_ret := new('' @ t @ '')'']" "rs \<noteq> []"
        "ra = ''win32.OutParam(unsafe.Pointer(_ret))''"
    using register_return_preamble [of meta f r _ m g]
    by (auto simp: buildReturnShape_def bind_eq_Some_conv Let_def split_def split: if_split_asm)
  then show ?thesis
  proof cases
    case 1
    with old show ?thesis by simp
  next
    case (2 t)
    show ?thesis unfolding 2 results_escaped_simps if_not_P [OF 2(2)] using old ret_line by blast
  qed
qed

text \<open>The signature and the body of a function, from its shaping.\<close>

lemma register_return_params [simp]: "fnm_ParamStr (fst (register_return meta f r e m g)) = fnm_ParamStr m"
  by (simp add: register_return_def Let_def split_def)

lemma elevated_return_params [simp]: "fnm_ParamStr (fst (elevated_return meta f mode s m g)) = fnm_ParamStr m"
  by (cases mode) (simp_all add: elevated_return_def Let_def split_def)

lemma finish_function_params:
  assumes "finish_function meta f raw imports s m rs ra g = (Some x, g')"
  shows "fnm_ParamStr x = fnm_ParamStr m"
proof -
  have ok: "\<not> ((sg_viaCall s \<or> rs \<noteq> []) \<and> maxCallWords < length (sg_argWords s))"
  proof
    assume "(sg_viaCall s \<or> rs \<noteq> []) \<and> maxCallWords < length (sg_argWords s)"
    with assms show False by (simp add: finish_function_def Let_def)
  qed
  obtain n g1 where c: "claimFunctionName meta f raw g = (Some n, g1)"
    using assms unfolding finish_function_def Let_def if_not_P [OF ok]
    by (cases "claimFunctionName meta f raw g") (auto split: option.split_asm)
  show ?thesis using assms unfolding finish_function_def Let_def if_not_P [OF ok] c prod.case option.case by auto
qed

lemma buildReturnShape_lines:
  assumes "buildReturnShape m meta f r g = Some (Some (m', rs, ra), g')"
  shows "fnm_ParamStr m' = fnm_ParamStr m \<and>
    (fnm_Preamble m' = fnm_Preamble m \<or> (\<exists>t. fnm_Preamble m' = fnm_Preamble m @ [''_ret := new('' @ t @ '')'']))"
  using assms register_return_preamble [of meta f r _ m g] register_return_params [of meta f r _ m g]
  by (auto simp: buildReturnShape_def bind_eq_Some_conv Let_def split_def split: if_split_asm)

lemma buildFunction_lines:
  assumes "buildFunction meta f raw g = Some (Some m, g')"
  obtains rs ret g1 s g2 where
    "resolve_signature (ns_Namespace meta) (fn_Params f) (fn_Return f) (with_imports [] g) = Some ((rs, ret), g1)"
    "shape_signature (retValElevationMode (fn_SetLastError f) ret \<noteq> RetValNone) (param_skipped (fn_Name f))
       (fn_Params f) rs ret g1 = Some (Some s, g2)"
    "fnm_ParamStr m = join_with '', '' (sg_decls s)"
    "fnm_Preamble m = sg_preamble s \<or> (\<exists>t. fnm_Preamble m = sg_preamble s @ [''_ret := new('' @ t @ '')''])"
proof -
  let ?sk = "param_skipped (fn_Name f)"
  from assms obtain rs ret g1 s g2 where
    1: "resolve_signature (ns_Namespace meta) (fn_Params f) (fn_Return f) (with_imports [] g) = Some ((rs, ret), g1)"
    and 2: "shape_signature (retValElevationMode (fn_SetLastError f) ret \<noteq> RetValNone) ?sk (fn_Params f) rs ret g1 = Some (Some s, g2)"
    by (auto simp: buildFunction_def bind_eq_Some_conv Let_def split: option.split_asm)
  let ?m = "empty_function_model\<lparr>fnm_ProcVar := ''proc'' @ raw, fnm_ParamStr := join_with '', '' (sg_decls s),
      fnm_Preamble := sg_preamble s, fnm_ArgExprs := sg_argWords s\<rparr>"
  have m: "fnm_ParamStr ?m = join_with '', '' (sg_decls s)" "fnm_Preamble ?m = sg_preamble s"
    by (simp_all add: empty_function_model_def)
  show thesis
  proof (cases "sg_returnValues s = []")
    case False
    define e where "e = elevated_return meta f (retValElevationMode (fn_SetLastError f) ret) s ?m g2"
    have fin: "finish_function meta f raw (imports_of g) s (fst e) [] ''nil'' (snd e) = (Some m, g')"
      using assms 1 2 False by (simp add: buildFunction_def Let_def split_def e_def)
    from that [OF 1 2] finish_function_params [OF fin] finish_function_call [OF fin] m show thesis by (simp add: e_def)
  next
    case True
    then obtain m' rs' ra g3 where 3: "buildReturnShape ?m meta f ret g2 = Some (Some (m', rs', ra), g3)"
      and fin: "finish_function meta f raw (imports_of g) s m' rs' ra g3 = (Some m, g')"
      using assms 1 2 by (auto simp: buildFunction_def Let_def bind_eq_Some_conv split: option.split_asm)
    from that [OF 1 2] finish_function_params [OF fin] finish_function_call [OF fin] buildReturnShape_lines [OF 3] m
    show thesis by simp
  qed
qed

lemma ret_local: "declared_locals [''_ret := new('' @ t @ '')''] = [''_ret'']"
  using underscore_line [of "''ret''" "''new('' @ t @ '')''"] by (simp add: no_space_def)

lemma goReserved_underscore: "w \<in> set goReservedWords \<Longrightarrow> hd w \<noteq> CHR ''_''"
proof -
  have "\<forall>w \<in> set goReservedWords. hd w \<noteq> CHR ''_''" by (simp add: goReservedWords_def)
  then show "w \<in> set goReservedWords \<Longrightarrow> hd w \<noteq> CHR ''_''" by blast
qed

text \<open>
  \<^bold>\<open>C38\<close>: the names of a generated function do not clash. When the parameters of the metadata have
  different names without a space and without underscores at the ends, the parameters its signature
  declares and the locals its body declares (converted strings and booleans, elevated results, slice
  pointers and the result buffer) are all different, none is a Go keyword, a predeclared identifier or
  another name the generated code uses, and no parameter hides an identifier of the types in the signature.
\<close>

theorem signature_names:
  assumes "buildFunction meta f raw g = Some (Some m, g')"
    and "distinct (map p_Name (fn_Params f))" "\<forall>p \<in> set (fn_Params f). plain_name (p_Name p) \<and> no_space (p_Name p)"
  shows "\<exists>rs ret g1 s g2.
    resolve_signature (ns_Namespace meta) (fn_Params f) (fn_Return f) (with_imports [] g) = Some ((rs, ret), g1) \<and>
    shape_signature (retValElevationMode (fn_SetLastError f) ret \<noteq> RetValNone) (param_skipped (fn_Name f))
      (fn_Params f) rs ret g1 = Some (Some s, g2) \<and>
    fnm_ParamStr m = join_with '', '' (sg_decls s) \<and>
    distinct (map first_word (sg_decls s) @ declared_locals (fnm_Preamble m)) \<and>
    set (map first_word (sg_decls s) @ declared_locals (fnm_Preamble m)) \<inter> set goReservedWords = {} \<and>
    set (map first_word (sg_decls s)) \<inter> set (signature_idents rs ret) = {}"
proof -
  obtain rs ret g1 s g2 where
    1: "resolve_signature (ns_Namespace meta) (fn_Params f) (fn_Return f) (with_imports [] g) = Some ((rs, ret), g1)"
    and 2: "shape_signature (retValElevationMode (fn_SetLastError f) ret \<noteq> RetValNone) (param_skipped (fn_Name f))
      (fn_Params f) rs ret g1 = Some (Some s, g2)"
    and str: "fnm_ParamStr m = join_with '', '' (sg_decls s)"
    and pre: "fnm_Preamble m = sg_preamble s \<or> (\<exists>t. fnm_Preamble m = sg_preamble s @ [''_ret := new('' @ t @ '')''])"
    by (rule buildFunction_lines [OF assms(1)])
  let ?names = "param_names (fn_Params f) (signature_idents rs ret)" and ?k = "length (fn_Params f)"
  note ok = signature_names_ok [OF assms(2), of "signature_idents rs ret"]
  have ok: "distinct (?names @ ''_ret'' # map (\<lambda>n. ''_'' @ n) ?names)"
    "set ?names \<inter> (set goReservedWords \<union> set (signature_idents rs ret)) = {}"
    using ok assms(3) by simp_all
  have len: "length ?names = ?k" by (simp add: param_names_def)
  have "\<exists>I J. subseq I (map fst (zip [0..<?k] (zip (fn_Params f) rs))) \<and> subseq J (map fst (zip [0..<?k] (zip (fn_Params f) rs))) \<and>
      map first_word (sg_decls s) = map first_word (sg_decls empty_shaping) @ map (\<lambda>i. ?names ! i) I \<and>
      declared_locals (sg_preamble s) = declared_locals (sg_preamble empty_shaping) @ map (\<lambda>i. ''_'' @ ?names ! i) J"
    by (rule shape_params_names [OF 2 [unfolded shape_signature_def]])
      (use names_no_space assms(3) len in \<open>auto dest: set_zip_leftD\<close>)
  then obtain I J where IJ: "subseq I (map fst (zip [0..<?k] (zip (fn_Params f) rs)))" "subseq J (map fst (zip [0..<?k] (zip (fn_Params f) rs)))"
    and decls: "map first_word (sg_decls s) = map (\<lambda>i. ?names ! i) I"
    and locals: "declared_locals (sg_preamble s) = map (\<lambda>i. ''_'' @ ?names ! i) J"
    by (auto simp: empty_shaping_def)
  have index: "distinct K \<and> set K \<subseteq> {..<?k}" if sub: "subseq K (map fst (zip [0..<?k] (zip (fn_Params f) rs)))" for K
  proof
    obtain N where N: "K = nths (map fst (zip [0..<?k] (zip (fn_Params f) rs))) N" using sub unfolding subseq_conv_nths by blast
    have "distinct (map fst (zip [0..<?k] (zip (fn_Params f) rs)))" by (simp add: map_fst_zip_take)
    then show "distinct K" unfolding N by (rule distinct_nthsI)
    have "set K \<subseteq> set (map fst (zip [0..<?k] (zip (fn_Params f) rs)))" unfolding N by (rule set_nths_subset)
    also have "\<dots> \<subseteq> {..<?k}" by (auto dest: set_zip_leftD)
    finally show "set K \<subseteq> {..<?k}" .
  qed
  have dn: "distinct ?names" using ok(1) by simp
  have pick: "distinct (map (\<lambda>i. ?names ! i) K)" "set (map (\<lambda>i. ?names ! i) K) \<subseteq> set ?names"
    if "distinct K \<and> set K \<subseteq> {..<?k}" for K
    using that dn len by (auto simp: distinct_map inj_on_def nth_eq_iff_index_eq subset_iff)
  note I = pick [OF index [OF IJ(1)]] and J = pick [OF index [OF IJ(2)]]
  have loc: "declared_locals (sg_preamble s) = map (\<lambda>n. ''_'' @ n) (map (\<lambda>i. ?names ! i) J)"
    unfolding locals by simp
  have dl: "distinct (declared_locals (sg_preamble s) @ [''_ret''])"
    "set (declared_locals (sg_preamble s)) \<subseteq> set (map (\<lambda>n. ''_'' @ n) ?names)"
    unfolding loc using J ok(1) by (auto simp: distinct_map inj_on_def)
  have all: "declared_locals (fnm_Preamble m) = declared_locals (sg_preamble s) \<or>
      declared_locals (fnm_Preamble m) = declared_locals (sg_preamble s) @ [''_ret'']"
    using pre ret_local by auto
  then have lm: "distinct (declared_locals (fnm_Preamble m))"
    "set (declared_locals (fnm_Preamble m)) \<subseteq> set (''_ret'' # map (\<lambda>n. ''_'' @ n) ?names)"
    using dl by auto
  have "set ?names \<inter> set (''_ret'' # map (\<lambda>n. ''_'' @ n) ?names) = {}"
    using ok(1) unfolding distinct_append by blast
  then have "distinct (map first_word (sg_decls s) @ declared_locals (fnm_Preamble m))"
    using I lm unfolding decls distinct_append by blast
  moreover have "\<forall>w \<in> set (''_ret'' # map (\<lambda>n. ''_'' @ n) ?names). w \<notin> set goReservedWords"
    using goReserved_underscore by fastforce
  then have "set (map first_word (sg_decls s) @ declared_locals (fnm_Preamble m)) \<inter> set goReservedWords = {}"
    using I(2) lm(2) ok(2) unfolding decls set_append by blast
  moreover have "set (map first_word (sg_decls s)) \<inter> set (signature_idents rs ret) = {}"
    using I(2) ok(2) unfolding decls by blast
  ultimately show ?thesis using 1 2 str by blast
qed

text \<open>An optional string, a result and a keyword as a name: two locals.\<close>

definition named_function :: function_decl where
  "named_function = (plain_function ''Open'' ''a.dll''
     [plain_param ''type'' (Native ''UInt32''), (plain_param ''n'' (PointerTo (Native ''Int32'')))\<lparr>p_IsIn := False, p_IsOut := True, p_IsRetVal := True\<rparr>])
     \<lparr>fn_Return := Native ''Void''\<rparr>"

lemma signature_names_witness:
  "\<exists>m g'. buildFunction (empty_namespace ''A'') named_function ''Open'' (New (empty_registry []) [] []) = Some (Some m, g') \<and>
     fnm_ParamStr m = ''type_ uint32'' \<and> declared_locals (fnm_Preamble m) = [''_n''] \<and>
     distinct (declared_locals (fnm_Preamble m))"
proof -
  have "map_option (\<lambda>(x, g'). map_option (\<lambda>m. (fnm_ParamStr m, declared_locals (fnm_Preamble m))) x)
      (buildFunction (empty_namespace ''A'') named_function ''Open'' (New (empty_registry []) [] [])) = Some (Some (''type_ uint32'', [''_n'']))"
    by code_simp
  then obtain m g' where
    m: "buildFunction (empty_namespace ''A'') named_function ''Open'' (New (empty_registry []) [] []) = Some (Some m, g')"
    and p: "fnm_ParamStr m = ''type_ uint32''" "declared_locals (fnm_Preamble m) = [''_n'']" by (auto split: option.split_asm)
  have n: "distinct (map p_Name (fn_Params named_function))"
    "\<forall>p \<in> set (fn_Params named_function). plain_name (p_Name p) \<and> no_space (p_Name p)" by code_simp+
  from signature_names [OF m n] have "distinct (declared_locals (fnm_Preamble m))" by auto
  with m p show ?thesis by blast
qed

definition result_function :: function_decl where
  "result_function = (plain_function ''Count'' ''a.dll''
     [(plain_param ''n'' (PointerTo (Native ''Int32'')))\<lparr>p_IsIn := False, p_IsOut := True, p_IsRetVal := True\<rparr>])\<lparr>fn_Return := Native ''Void''\<rparr>"

text \<open>
  \<^bold>\<open>C37\<close>: every result a function's body allocates escapes to the heap. Whatever line \<open>x := new(t)\<close> the
  preamble has (an elevated parameter or a result buffer), the emitted call passes the pointer through
  \<open>win32.OutParam\<close>, so the callee never writes to a stack that may move.
\<close>

theorem results_escape:
  assumes "buildFunction meta f raw g = Some (Some x, g')" "\<forall>p \<in> set (fn_Params f). no_space (p_Name p)"
    "result_line r t \<in> set (fnm_Preamble x)" "no_space r"
  shows "contains_str (fnm_CallExpr x) (escaped r)"
proof -
  let ?sk = "param_skipped (fn_Name f)"
  from assms(1) obtain rs ret g1 s g2 where
    1: "resolve_signature (ns_Namespace meta) (fn_Params f) (fn_Return f) (with_imports [] g) = Some ((rs, ret), g1)"
    and 2: "shape_signature (retValElevationMode (fn_SetLastError f) ret \<noteq> RetValNone) ?sk (fn_Params f) rs ret g1 = Some (Some s, g2)"
    by (auto simp: buildFunction_def bind_eq_Some_conv Let_def split: option.split_asm)
  let ?m = "empty_function_model\<lparr>fnm_ProcVar := ''proc'' @ raw, fnm_ParamStr := join_with '', '' (sg_decls s),
      fnm_Preamble := sg_preamble s, fnm_ArgExprs := sg_argWords s\<rparr>"
  have s: "results_escaped (fnm_Preamble ?m) (sg_argWords s)"
    using shape_signature_escaped [OF 2 assms(2)] by (simp add: empty_function_model_def)
  obtain m rs' ra g3 where fin: "finish_function meta f raw (imports_of g) s m rs' ra g3 = (Some x, g')"
    and m: "results_escaped (fnm_Preamble m) (sg_argWords s @ (if rs' = [] then [] else [ra]))"
  proof (cases "sg_returnValues s = []")
    case False
    define e where "e = elevated_return meta f (retValElevationMode (fn_SetLastError f) ret) s ?m g2"
    have "finish_function meta f raw (imports_of g) s (fst e) [] ''nil'' (snd e) = (Some x, g')"
      using assms(1) 1 2 False by (simp add: buildFunction_def Let_def split_def e_def)
    with that s show thesis unfolding e_def by simp
  next
    case True
    then obtain m' rs' ra g3 where 3: "buildReturnShape ?m meta f ret g2 = Some (Some (m', rs', ra), g3)"
      and x: "finish_function meta f raw (imports_of g) s m' rs' ra g3 = (Some x, g')"
      using assms(1) 1 2 by (auto simp: buildFunction_def Let_def bind_eq_Some_conv split: option.split_asm)
    from that [OF x buildReturnShape_escaped [OF 3 s]] show thesis .
  qed
  from finish_function_call [OF fin] have "fnm_Preamble x = fnm_Preamble m"
    "\<forall>w \<in> set (sg_argWords s @ (if rs' = [] then [] else [ra])). contains_str (fnm_CallExpr x) w" by blast+
  with results_escapedD [OF m] assms(3,4) show ?thesis by simp
qed

lemma results_escape_witness:
  "\<exists>x g'. buildFunction (empty_namespace ''A'') result_function ''Count'' (New (empty_registry []) [] []) = Some (Some x, g') \<and>
     contains_str (fnm_CallExpr x) ''win32.OutParam(unsafe.Pointer(_n))''"
proof -
  have "map_option (\<lambda>(x, g'). map_option fnm_Preamble x)
      (buildFunction (empty_namespace ''A'') result_function ''Count'' (New (empty_registry []) [] [])) = Some (Some [''_n := new(int32)''])"
    by code_simp
  then obtain x g' where
    x: "buildFunction (empty_namespace ''A'') result_function ''Count'' (New (empty_registry []) [] []) = Some (Some x, g')"
    and p: "fnm_Preamble x = [''_n := new(int32)'']" by (auto split: option.split_asm)
  have n: "\<forall>p \<in> set (fn_Params result_function). no_space (p_Name p)" "no_space ''_n''" by code_simp+
  have l: "result_line ''_n'' ''int32'' \<in> set (fnm_Preamble x)" unfolding p by (simp add: result_line_def)
  from x results_escape [OF x n(1) l n(2)] show ?thesis by (simp add: escaped_def)
qed

lemma com_return_escaped:
  assumes "com_return meta iface m r s model g = (Some (model', a, b, v), g')" "results_escaped (cmm_Preamble model) (cmm_ArgExprs model)"
  shows "results_escaped (cmm_Preamble model') (cmm_ArgExprs model')"
proof -
  from assms(1) consider "cmm_Preamble model' = cmm_Preamble model" "cmm_ArgExprs model' = cmm_ArgExprs model"
    | t where "cmm_Preamble model' = [''_ret := new('' @ t @ '')''] @ cmm_Preamble model"
        "cmm_ArgExprs model' = ''uintptr(win32.OutParam(unsafe.Pointer(_ret)))'' # cmm_ArgExprs model"
    by (auto simp: com_return_def Let_def split_def split: if_split_asm)
  then show ?thesis
  proof cases
    case 1
    with assms(2) show ?thesis by simp
  next
    case (2 t)
    have e: "''uintptr('' @ escaped ''_ret'' @ '')'' = ''uintptr(win32.OutParam(unsafe.Pointer(_ret)))''" by (simp add: escaped_def)
    have "results_escaped [''_ret'' @ '' := new('' @ t @ '')''] (cmm_ArgExprs model')"
    proof (rule new_line)
      show "''uintptr('' @ escaped ''_ret'' @ '')'' \<in> set (cmm_ArgExprs model')" unfolding e 2 by simp
    qed (simp add: no_space_def, rule contains_append)
    moreover have "results_escaped (cmm_Preamble model) (cmm_ArgExprs model')"
      by (rule results_escaped_mono [OF assms(2)]) (auto simp: 2)
    ultimately show ?thesis unfolding 2(1) results_escaped_simps by simp
  qed
qed

definition guid_method :: com_method where
  "guid_method = (float_method ''GetClassID'')\<lparr>cm_Return := Native ''Guid''\<rparr>"

text \<open>
  The same of COM methods, where a structure's result buffer is the first argument word after the
  object: every pointer the body allocates reaches the vtable call through \<open>win32.OutParam\<close>.
\<close>

lemma com_results_escape:
  assumes "buildComMethod meta iface m slot g = Some (Some x, g')" "\<forall>p \<in> set (cm_Params m). no_space (p_Name p)"
    "result_line r t \<in> set (cmm_Preamble x)" "no_space r"
  shows "contains_str (cmm_CallExpr x) (escaped r)"
proof -
  from assms(1) obtain rs ret g1 s g2 where
    1: "resolve_signature (ns_Namespace meta) (cm_Params m) (cm_Return m) (with_imports [] g) = Some ((rs, ret), g1)"
    and 2: "shape_signature (isHRESULT ret) (com_param_skipped iface m) (cm_Params m) rs ret g1 = Some (Some s, g2)"
    by (auto simp: buildComMethod_def bind_eq_Some_conv Let_def split: option.split_asm)
  let ?m = "empty_com_method_model\<lparr>cmm_GoName := Export (cm_Name m), cmm_ParamStr := join_with '', '' (sg_decls s),
    cmm_Slot := slot, cmm_Preamble := sg_preamble s, cmm_ArgExprs := sg_argWords s\<rparr>"
  obtain y g3 where 3: "com_return meta iface m ret s ?m g2 = (y, g3)" by fastforce
  have c: "(case y of None \<Rightarrow> (None, with_imports (imports_of g) g3)
      | Some x \<Rightarrow> finish_com_method iface m slot (imports_of g) x g3) = (Some x, g')"
    using assms(1) 1 2 3 by (simp add: buildComMethod_def Let_def)
  then obtain model a b v where y: "y = Some (model, a, b, v)" by (cases y) auto
  have model: "results_escaped (cmm_Preamble model) (cmm_ArgExprs model)"
    by (rule com_return_escaped [OF 3 [unfolded y]]) (use shape_signature_escaped [OF 2 assms(2)] in simp)
  have "\<not> (v \<and> maxCallWords < length (cmm_ArgExprs model) + 1)"
    using c y by (auto simp: finish_com_method_def Let_def)
  then have "cmm_Preamble x = cmm_Preamble model \<and> cmm_CallExpr x =
      (if v then callExpr (slot_target slot) (''spec'' @ Export iface @ ''_'' @ cmm_GoName model) ''nil''
         (self_word # cmm_ArgExprs model) (cmm_ReturnKind model)
       else syscall_expr (slot_target slot # self_word # cmm_ArgExprs model))"
    using c y by (cases v) (auto simp: finish_com_method_def Let_def)
  then have "cmm_Preamble x = cmm_Preamble model" "\<forall>w \<in> set (cmm_ArgExprs model). contains_str (cmm_CallExpr x) w"
    using callExpr_contains syscall_contains by (auto split: if_split_asm)
  with results_escapedD [OF model] assms(3,4) show ?thesis by simp
qed

lemma com_results_escape_witness:
  "\<exists>x g'. buildComMethod (empty_namespace ''A'') ''IFoo'' guid_method 3 (New (empty_registry []) [] []) = Some (Some x, g') \<and>
     contains_str (cmm_CallExpr x) ''win32.OutParam(unsafe.Pointer(_ret))''"
proof -
  have "map_option (\<lambda>(x, g'). map_option cmm_Preamble x)
      (buildComMethod (empty_namespace ''A'') ''IFoo'' guid_method 3 (New (empty_registry []) [] [])) = Some (Some [''_ret := new(win32.GUID)''])"
    by code_simp
  then obtain x g' where
    x: "buildComMethod (empty_namespace ''A'') ''IFoo'' guid_method 3 (New (empty_registry []) [] []) = Some (Some x, g')"
    and p: "cmm_Preamble x = [''_ret := new(win32.GUID)'']" by (auto split: option.split_asm)
  have n: "\<forall>p \<in> set (cm_Params guid_method). no_space (p_Name p)" "no_space ''_ret''" by code_simp+
  have l: "result_line ''_ret'' ''win32.GUID'' \<in> set (cmm_Preamble x)" unfolding p by (simp add: result_line_def)
  from x com_results_escape [OF x n(1) l n(2)] show ?thesis by (simp add: escaped_def)
qed

section \<open>Small structures\<close>

text \<open>The value the generated code boxes: the bytes of the parameter, which lie at its address.\<close>

definition bytes_at :: "memory \<Rightarrow> 64 word \<Rightarrow> nat \<Rightarrow> 8 word list" where
  "bytes_at m p n = map (\<lambda>i. m (p + of_nat i)) [0..<n]"

lemma bytes_at_Suc: "bytes_at m p (Suc n) = m p # bytes_at m (p + 1) n"
  by (simp add: bytes_at_def map_upt_Suc ac_simps del: upt_Suc)

lemma loadWord_bytes: "loadWord m p n = word_of_bytes (bytes_at m p n)"
proof (induction n arbitrary: p)
  case 0
  then show ?case by (simp add: bytes_at_def)
next
  case (Suc n)
  then show ?case by (simp add: bytes_at_Suc)
qed

lemma StructArg_bytes: "n \<le> 8 \<Longrightarrow> StructArg (bytes_at m p n) = Inr (loadWord m p n)"
  by (simp add: StructArg_def loadWord_bytes) (simp add: bytes_at_def)

lemma register_sizes: "n \<in> {1, 2, 4, 8} \<Longrightarrow> unat (n :: 32 word) \<in> {1, 2, 4, 8} \<and> word_count n = 1"
  by (auto simp: word_count_def)

lemma small_composite_words:
  "n \<in> {1, 2, 4, 8} \<Longrightarrow> composite_words m p n = [loadWord m p (unat n)]"
  using register_sizes [of n] by (auto simp: composite_words_def)

lemma composite_paramE:
  assumes "composite_param decl name l = Some sh" "\<not> sh_call sh"
  shows "l_size l \<in> {1, 2, 4, 8} \<and> hfa l = (0, False, False)"
proof -
  have "hfa l = (0, False, False)" if "\<not> is_hfa l" using that by (auto simp: is_hfa_def hfa_def)
  moreover have "l_size l \<in> {1, 2, 4, 8} \<and> \<not> is_hfa l"
    using assms by (auto simp: composite_param_def registerStructWord_def split: if_split_asm)
  ultimately show ?thesis by blast
qed

text \<open>
  \<^bold>\<open>C39\<close>: the generator's choice of a plain word for a small structure is the runtime's placement of the
  structure. For a parameter the generator passes as \<open>uintptr(win32.StructArg(p))\<close> without a call description, the
  word \<open>StructArg\<close> makes of the value's bytes does not panic, and giving it as a plain word leaves the same x64 word
  and the same AArch64 registers and stack as describing the value with the \<open>win32.Struct\<close> of its layout.
\<close>

theorem composite_dispatch_agrees:
  assumes "composite_param decl name l = Some sh" "\<not> sh_call sh" "l_align l < 16" "ap_ngrn s \<le> 8"
  defines "m \<equiv> pl_mem (ap_plan s)" and "a \<equiv> Struct (l_size l) (l_align l) 0 False"
  shows "struct_spec l = ''win32.Struct('' @ show_nat (unat (l_size l)) @ '', '' @ show_nat (unat (l_align l)) @ '', 0, false)'' \<and>
    (\<exists>w. StructArg (bytes_at m v (unat (l_size l))) = Inr w \<and>
       amd64_word alloc a v (ap_plan s) = amd64_word alloc (plain_arg ArgWord) w (ap_plan s) \<and>
       arm_arg alloc (a, v) s = arm_arg alloc (plain_arg ArgWord, w) s)"
proof -
  note size = composite_paramE [OF assms(1,2)]
  define w where "w = loadWord m v (unat (l_size l))"
  have words: "composite_words m v (l_size l) = [w]" using small_composite_words size by (simp add: w_def)
  have "show_nat 0 = ''0''" by code_simp
  then have "struct_spec l = ''win32.Struct('' @ show_nat (unat (l_size l)) @ '', '' @ show_nat (unat (l_align l)) @ '', 0, false)''"
    using size by (simp add: struct_spec_def show_bool_def)
  moreover have "StructArg (bytes_at m v (unat (l_size l))) = Inr w"
    using StructArg_bytes [of "unat (l_size l)" m v] register_sizes [of "l_size l"] size by (auto simp: w_def)
  moreover have "amd64_word alloc a v (ap_plan s) = amd64_word alloc (plain_arg ArgWord) w (ap_plan s)"
    using size by (simp add: amd64_word_def a_def Struct_def plain_arg_def register_sized_def w_def m_def)
  moreover have "arm_arg alloc (a, v) s = arm_arg alloc (plain_arg ArgWord, w) s"
  proof -
    have small: "\<not> 16 < l_size l" "\<not> 16 \<le> l_align l" using size assms(3) by (auto simp: not_le)
    have one: "word_count (l_size l) = 1" using register_sizes size by blast
    have stack: "put_composite v a s' = s'\<lparr>ap_plan := push_stack [w] (ap_plan s')\<rparr>" if "pl_mem (ap_plan s') = m" for s'
      using words small(2) one that by (simp add: put_composite_def appendComposite_def a_def Struct_def push_stack_def Let_def)
    have "arm_arg alloc (a, v) s = (if ap_ngrn s < 8 then put_ints [w] s else put_composite v a (s\<lparr>ap_ngrn := 8\<rparr>))"
      using small one words by (simp add: arm_arg_def arm_struct_def a_def Struct_def m_def Let_def less_eq_Suc_le)
    also have "\<dots> = put_int w s"
    proof (cases "ap_ngrn s < 8")
      case False
      then have "s\<lparr>ap_ngrn := 8\<rparr> = s" using assms(4) by (cases s) simp
      with False stack [of s] show ?thesis by (simp add: put_int_def m_def)
    qed (simp add: put_int_def put_ints_def)
    finally show ?thesis by (simp add: arm_arg_def plain_arg_def)
  qed
  ultimately show ?thesis by blast
qed

lemma composite_dispatch_agrees_witness:
  "\<exists>w. StructArg (bytes_at (\<lambda>_. 7) 16 4) = Inr w"
proof -
  let ?l = "scalar_layout 4" let ?s = "\<lparr>ap_ngrn = 8, ap_nsrn = 0, ap_plan = new_plan 0 (\<lambda>_. 7)\<rparr>"
  have c: "composite_param ''p Rect'' ''p'' ?l = Some (word_param ''p Rect'' [] ''uintptr(win32.StructArg(p))'' False)" by code_simp
  have "\<not> sh_call (word_param ''p Rect'' [] ''uintptr(win32.StructArg(p))'' False)" by (simp add: word_param_def)
  from composite_dispatch_agrees [OF c this, of ?s 16 "\<lambda>_. 0"] show ?thesis by (auto simp: new_plan_def)
qed

text \<open>Results: the bytes that come back.\<close>

lemma storeWord_other:
  "(\<And>k. k < n \<Longrightarrow> q \<noteq> p + of_nat k) \<Longrightarrow> storeWord m p w n q = m q"
proof (induction m p w n rule: storeWord.induct)
  case (2 m p w n)
  have "q \<noteq> p + 1 + of_nat k" if "k < n" for k using "2.prems" [of "Suc k"] that by (simp add: add.assoc)
  then have "storeWord (m(p := ucast w)) (p + 1) (drop_bit 8 w) n q = (m(p := ucast w)) q" by (rule "2.IH")
  moreover have "q \<noteq> p" using "2.prems" [of 0] by simp
  ultimately show ?case by simp
qed simp

lemma bytes_at_storeWord: "n \<le> 8 \<Longrightarrow> bytes_at (storeWord m p w n) p n = bytes_of_word w n"
proof (induction n arbitrary: m p w)
  case 0
  then show ?case by (simp add: bytes_at_def)
next
  case (Suc n)
  have "p \<noteq> p + 1 + of_nat k" if "k < n" for k
  proof
    assume "p = p + 1 + of_nat k"
    then have "of_nat (Suc k) = (0 :: 64 word)" by (simp add: add.assoc)
    then have "Suc k mod 2 ^ 64 = 0" by (simp add: word_of_nat_eq_0_iff dvd_eq_mod_eq_0 del: of_nat_Suc)
    with that Suc.prems show False by simp
  qed
  then have "storeWord (m(p := ucast w)) (p + 1) (drop_bit 8 w) n p = ucast w" by (subst storeWord_other) auto
  with Suc show ?case by (simp add: bytes_at_Suc)
qed

text \<open>
  \<^bold>\<open>C40\<close>: the same of results: for a layout the generator reads back with \<open>win32.StructRet\<close>, a call that
  described the result as a structure would take no hidden argument on either architecture, and would leave at the
  result's address the very bytes \<open>StructRet\<close> makes of the first result register.
\<close>

theorem composite_return_agrees:
  fixes args :: "arg_desc list"
  assumes "registerSized l" "\<not> is_hfa l"
  defines "spec \<equiv> \<lparr>cs_Args = args, cs_Ret = Struct (l_size l) (l_align l) 0 False\<rparr>" and "n \<equiv> unat (l_size l)"
  shows "\<not> hidden_result (cs_Ret spec) \<and> \<not> indirect_result (cs_Ret spec) \<and>
    (\<exists>v. StructRet n (cr_r1 regs) = Inr v \<and> bytes_at (finishAMD64 regs spec ret m) ret n = v \<and>
       bytes_at (finishARM64 regs spec ret m) ret n = v)"
proof -
  have size: "l_size l \<in> {1, 2, 4, 8}" using assms(1) by (simp add: registerSized_def)
  then have n: "n \<le> 8" "l_size l \<le> 8" "\<not> 16 < l_size l" by (auto simp: n_def)
  have "finishAMD64 regs spec ret m = storeWord m ret (cr_r1 regs) n"
    using size by (simp add: finishAMD64_def spec_def Struct_def register_sized_def n_def)
  moreover have "finishARM64 regs spec ret m = storeWord m ret (cr_r1 regs) n"
    using n by (simp add: finishARM64_def spec_def Struct_def n_def Let_def)
  moreover have "StructRet n (cr_r1 regs) = Inr (bytes_of_word (cr_r1 regs) n)" using n by (simp add: StructRet_def)
  ultimately show ?thesis
    using size n bytes_at_storeWord [OF n(1)]
    by (simp add: hidden_result_def indirect_result_def register_sized_def spec_def Struct_def)
qed

lemma composite_return_agrees_witness:
  "\<exists>v. StructRet 4 0x11223344 = Inr v \<and> bytes_at (finishARM64 \<lparr>cr_r1 = 0x11223344, cr_r2 = 0, cr_f = []\<rparr>
     \<lparr>cs_Args = [], cs_Ret = Struct 4 4 0 False\<rparr> 16 (\<lambda>_. 0)) 16 4 = v"
proof -
  have "registerSized (scalar_layout 4)" "\<not> is_hfa (scalar_layout 4)" by code_simp+
  from composite_return_agrees [OF this, of "[]" "\<lparr>cr_r1 = 0x11223344, cr_r2 = 0, cr_f = []\<rparr>" 16 "\<lambda>_. 0"]
  show ?thesis by auto
qed

end
