(* ===== verification/Spec2Isabelle.thy ===== *)
theory Spec2Isabelle
  imports Naming Registry Cycles Typemap Layout View Claims Types ConstInit Functions
    Slices FunctionFacts Call CallFacts ArmTrampoline RuntimeFacts LoaderFacts InterfaceFacts FilesFacts EmissionFacts
    Validate DiffFacts ReportsFacts IngestStructs IngestValues CommandFacts RunTotal Dispatch
begin

text \<open>
  A verification development for the generator of the Go bindings to the Win32 API and for the runtime the
  generated code calls.

  \<^bold>\<open>The program.\<close> Three stages pass files to each other. \<open>generate ingest\<close> reads the tables of a metadata
  file (\<open>internal/win32meta/ingest\<close>) and writes one JSON file per namespace in the intermediate representation
  of \<open>internal/win32meta/model.go\<close>. \<open>generate validate\<close>, \<open>diff\<close> and \<open>inspect\<close> read those files. \<open>generate
  bindings\<close> loads them (\<open>internal/codegen/pipeline\<close>), finds the imports to sever so that the packages form no
  cycle, and emits a Go package per namespace: builders (\<open>internal/codegen/emit/raw\<close>) turn declarations into
  render models with the type mapper (\<open>internal/codegen/typemap\<close>), the layout engine and the naming rules,
  templates (\<open>render\<close>) print them, and the writer assembles, formats and sweeps the files. The emitted packages
  call \<open>bindings/runtime/win32\<close>: lazy loading of modules and exports, the register-aware call, and value helpers.

  \<^bold>\<open>Theories and sources.\<close>
  \<^item> \<open>Prelude\<close>: Go strings as byte lists, the functions of \<open>strings\<close>, \<open>strconv\<close>, \<open>sort\<close> and \<open>fmt\<close> the sources use,
    Go maps as association lists (their order is the unspecified iteration order), ranks of well-founded relations.
  \<^item> \<open>Meta\<close> (\<open>model.go\<close>), \<open>Naming\<close> (\<open>naming.go\<close>), \<open>Registry\<close> (\<open>pipeline/loader.go\<close>), \<open>Cycles\<close> (\<open>pipeline/cycles.go\<close>),
    \<open>Typemap\<close> (\<open>typemap/mapper.go\<close>), \<open>Layout\<close> (\<open>sizes.go\<close>, \<open>archstructs.go\<close>, the blobs of \<open>types.go\<close>), \<open>View\<close> (\<open>view.go\<close>).
  \<^item> \<open>Claims\<close> (the \<open>Generator\<close> struct and its name claims), \<open>Types\<close> (\<open>types.go\<close>, \<open>archstructs.go\<close>), \<open>ConstInit\<close>
    (\<open>constinit.go\<close>, the constants of \<open>types.go\<close>), \<open>Functions\<close> (\<open>functions.go\<close>, \<open>inline.go\<close>, \<open>informational.go\<close>),
    \<open>Interfaces\<close> (\<open>interfaces.go\<close>, \<open>handles.go\<close>, \<open>coverage.go\<close>), \<open>Templates\<close> (\<open>render.go\<close>, \<open>templates/*.tmpl\<close>),
    \<open>Files\<close> (\<open>fileasm.go\<close> and the file operations of \<open>generator.go\<close>), \<open>Emission\<close> (the run, \<open>generator.go\<close>).
  \<^item> \<open>Reports\<close> (\<open>baseline.go\<close>, \<open>abitest.go\<close>, \<open>cmd/generate/coverage.go\<close> and \<open>bindings\<close>), \<open>Validate\<close>, \<open>Diff\<close>,
    \<open>Commands\<close> (\<open>cmd/generate\<close>, \<open>cmd/inspect\<close>, \<open>win32meta/io.go\<close>).
  \<^item> \<open>Winmd\<close> (what is read of a parsed metadata file), \<open>Ingester\<close> (\<open>ingest.go\<close>), \<open>Projection\<close> (\<open>project.go\<close>).
  \<^item> \<open>Runtime\<close> (\<open>runtime.go\<close>, \<open>hresult.go\<close>, \<open>iunknown.go\<close>, \<open>outparam.go\<close>), \<open>Loader\<close> (\<open>loader.go\<close>), \<open>Call\<close> (\<open>call.go\<close>),
    \<open>Trampoline\<close> (\<open>call_amd64.s\<close>, \<open>call_arm64.s\<close>) with a small register machine for the Go assembly in them.

  A Go struct is a record with the source's field names behind a prefix, an enumeration of constants a datatype,
  a tagged \<open>TypeRef\<close> a recursive datatype. State is passed explicitly: the builders take the \<open>generator\<close> record
  and return it updated. Fixed-width integers are words and wrap. A returned error is the left value of a sum,
  a panic and a recursion that does not end are \<open>None\<close>.

  \<^bold>\<open>What the lemmas show.\<close>
  \<^item> Import cycles (\<open>Cycles\<close>, \<open>Typemap\<close>): the cycle search is exact, the severed edges leave no cycle, lie on
    cycles and do not depend on map order; the imports the mapper records stay on the edges that are left, except
    when a typedef that is flattened names a third namespace.
  \<^item> Layout (\<open>Layout\<close>, \<open>LayoutTotal\<close>): the 32-bit computation refines the abstract C layout, fields are aligned and
    disjoint, blobs have the size and alignment of what they replace, and the structures emitted once per
    architecture are the least closed set.
  \<^item> Builders (\<open>Types\<close>, \<open>ConstInit\<close>, \<open>Slices\<close>, \<open>FunctionFacts\<close>, \<open>InterfaceFacts\<close>): names are fresh and distinct,
    initializers survive printing and parsing, every native parameter gets one word and one descriptor, methods
    dispatch through their own vtable slot.
  \<^item> The run (\<open>FilesFacts\<close>, \<open>EmissionFacts\<close>, \<open>TemplateFacts\<close>, \<open>TotalRun\<close>, \<open>RunTotal\<close>): it emits what it references,
    sweeps only generated files, returns on all metadata that \<open>validate\<close> accepts, and can fail only by a source
    that \<open>go/format\<close> rejects. \<open>ReportsFacts\<close> adds the diagnostics ratchet and the layout tests.
  \<^item> Metadata (\<open>IngestFacts\<close>, \<open>IngestRun\<close>, \<open>IngestStructs\<close>, \<open>IngestValues\<close>, \<open>CommandFacts\<close>, \<open>Validate\<close>, \<open>DiffFacts\<close>):
    ingesting a well-formed file succeeds, what it writes is read back and accepted, accepted references resolve,
    structures, parameters and identifiers are those of the file; the diff is silent exactly on equal trees.
  \<^item> Runtime (\<open>CallFacts\<close>, \<open>ArmCall\<close>, \<open>TrampolineFacts\<close>, \<open>ArmTrampoline\<close>, \<open>RuntimeFacts\<close>, \<open>LoaderFacts\<close>): both planners
    with their assembly trampolines give every argument the place its convention gives it and bring the results back, strings, small structures and GUIDs survive their encodings, and under every interleaving
    of threads a module is loaded at most once and no call waits forever.
  \<^item> Generated code against the runtime (\<open>Dispatch\<close>): the names a body binds do not clash, every pointer it gives the
    callee for a result went through \<open>OutParam\<close>, and the short way of a small structure, as an argument or a result,
    agrees with the planners.

  \<^bold>\<open>Interfaces.\<close> A contract that several operations share, or that one component relies on, is a locale,
  interpreted on the model's own definitions: the cycle breaker's search and choice of an edge (\<open>Cycles\<close>), the
  resolver seen by its callers (\<open>Typemap\<close>), name claims (\<open>Claims\<close>), transition systems whose work runs out (\<open>LoaderFacts\<close>),
  and the resolver, layouts and indexes a run relies on (\<open>total_run\<close> in \<open>TotalRun\<close>, interpreted
  in \<open>RunTotal\<close>).

  \<^bold>\<open>Bounds.\<close> Recursion that is not structural has its measure, or a bound as first argument that the
  callers fill in and that lemmas show to be enough: \<open>GoType\<close> one flattening per typedef and one more
  (\<open>GoType_total\<close>, for typedefs that are not circular), the layout one lookup per typedef and structure
  (\<open>layout_bound\<close>, \<open>layout_returns\<close>), \<open>findCycle\<close> one level per node (\<open>findCycle_correct\<close>), the initializer parser one
  step per token, \<open>projectStruct\<close> one level per type definition (without end on a type nested in itself,
  \<open>projectStruct_cyclic\<close>). A run of the x64 trampoline takes
  at most 28 steps and six per stack word, one of the AArch64 trampoline 41 and five (\<open>callTrampoline_amd64_calls\<close>,
  \<open>callTrampoline_arm64_calls\<close>). Ten rounds of the pre-pass, 42 stack words and 45 argument words are the code's limits.

  \<^bold>\<open>Parameters.\<close> Code outside the repository is an argument: the tables, attributes, signature and constant decoders
  and flag values of \<open>go-winmd\<close>, the NuGet client, \<open>encoding/json\<close>, \<open>go/format\<close>, the texts of floats and percentages,
  the order \<open>sort.Slice\<close> leaves equal names in, the foreign function behind a call trampoline, which keeps the registers and stack words its convention says, and what the
  operating system answers. Hypotheses on them (a file whose row numbers are in range, a decoder that inverts its
  encoder) stand in the theorems that use them, and each has a witness on a concrete instance.

  \<^bold>\<open>Not modelled.\<close> The placement of values by escape analysis, which \<open>OutParam\<close> is there to force, has no value
  semantics; the texts the system gives for error codes; the packages under
  \<open>bindings/win32\<close>, which the modelled generator writes; tests under \<open>acceptance\<close>, which call Windows, and the
  programs under \<open>examples\<close>. Letter case is that of ASCII, as metadata identifiers are ASCII; file operations
  succeed.
\<close>

end
